(* ===== verification/Prelude.thy ===== *)
theory Prelude
  imports Main "HOL-Library.Word"
begin

text \<open>
  The shared base of the development: the collections the component theories fill, and the
  generic facts about lists and options that more than one component needs. Nothing here models
  the program.
\<close>

text \<open>
  \<open>inv_step\<close> collects the lemmas "this operation keeps the component's invariant"; \<open>go_eval\<close>
  the equations that evaluate the model of the Go library on closed terms.
\<close>

named_theorems inv_step
named_theorems go_eval

subsection \<open>Lists\<close>

lemma filter_eq_all: "(\<And>x. x \<in> set xs \<Longrightarrow> P x) \<Longrightarrow> filter P xs = xs"
  by (induction xs) auto

lemma filter_eq_none: "(\<And>x. x \<in> set xs \<Longrightarrow> \<not> P x) \<Longrightarrow> filter P xs = []"
  by (induction xs) auto

lemma list_update_map_nth:
  "i < length xs \<Longrightarrow> map f (xs[i := y]) = (map f xs)[i := f y]"
  by (simp add: map_update)

text \<open>The first occurrences of a list, in order: \<open>remdups\<close> of HOL keeps the last ones.\<close>

fun firsts :: "'a set \<Rightarrow> 'a list \<Rightarrow> 'a list" where
  "firsts seen [] = []"
| "firsts seen (x # xs) =
     (if x \<in> seen then firsts seen xs else x # firsts (insert x seen) xs)"

lemma set_firsts: "set (firsts seen xs) = set xs - seen"
  by (induction seen xs rule: firsts.induct) auto

lemma distinct_firsts: "distinct (firsts seen xs)"
  by (induction seen xs rule: firsts.induct) (auto simp: set_firsts)

lemma firsts_id: "distinct xs \<Longrightarrow> set xs \<inter> seen = {} \<Longrightarrow> firsts seen xs = xs"
  by (induction seen xs rule: firsts.induct) auto

lemma firsts_append: "firsts seen (xs @ ys) = firsts seen xs @ firsts (seen \<union> set xs) ys"
  by (induction seen xs rule: firsts.induct) (auto simp: insert_absorb)

lemma firsts_filter: "firsts seen (filter P xs) = filter P (firsts seen xs)"
proof (induction xs arbitrary: seen)
  case Nil
  then show ?case by simp
next
  case (Cons x xs)
  have drop: "filter P (firsts (insert x seen) xs) = filter P (firsts seen xs)" if "\<not> P x" for seen
    using that
  proof (induction xs arbitrary: seen)
    case Nil
    then show ?case by simp
  next
    case (Cons y ys)
    then show ?case by (auto simp: insert_commute insert_absorb)
  qed
  show ?case using Cons drop by auto
qed

subsection \<open>Option-valued folds\<close>

text \<open>A loop that stops at its first failure.\<close>

fun fold_opt :: "('a \<Rightarrow> 's \<Rightarrow> 's option) \<Rightarrow> 'a list \<Rightarrow> 's \<Rightarrow> 's option" where
  "fold_opt f [] s = Some s"
| "fold_opt f (x # xs) s = (case f x s of None \<Rightarrow> None | Some s' \<Rightarrow> fold_opt f xs s')"

lemma fold_opt_append:
  "fold_opt f (xs @ ys) s = (case fold_opt f xs s of None \<Rightarrow> None | Some s' \<Rightarrow> fold_opt f ys s')"
  by (induction xs arbitrary: s) (auto split: option.splits)

lemma fold_opt_inv:
  assumes "\<And>x s s'. x \<in> set xs \<Longrightarrow> I s \<Longrightarrow> f x s = Some s' \<Longrightarrow> I s'"
  shows "I s \<Longrightarrow> fold_opt f xs s = Some s' \<Longrightarrow> I s'"
  using assms
proof (induction xs arbitrary: s)
  case Nil
  then show ?case by simp
next
  case (Cons x xs)
  then obtain t where "f x s = Some t" and rest: "fold_opt f xs t = Some s'"
    by (auto split: option.splits)
  with Cons.prems have "I t" by (meson list.set_intros(1))
  with rest Cons show ?case by (meson list.set_intros(2))
qed

lemma foldl_inv:
  assumes "\<And>x s. x \<in> set xs \<Longrightarrow> I s \<Longrightarrow> I (f s x)"
  shows "I s \<Longrightarrow> I (foldl f s xs)"
  using assms by (induction xs arbitrary: s) auto

subsection \<open>Machine integers\<close>

lemma unat_bound: "unat a < 2 ^ LENGTH('a)"
  for a :: "'a::len word"
  by (rule unsigned_less)

lemma word_unat_self: "of_nat (unat a) = a"
  for a :: "'a::len word"
  by simp

lemma unat_add_no_wrap: "unat a + unat b < 2 ^ LENGTH('a) \<Longrightarrow> unat (a + b) = unat a + unat b"
  for a b :: "'a::len word"
  by (simp add: unat_word_ariths)

lemma unat_Suc_no_wrap: "Suc (unat a) < 2 ^ LENGTH('a) \<Longrightarrow> unat (a + 1) = Suc (unat a)"
  for a :: "'a::len word"
  using unat_add_no_wrap[of a 1] by simp

lemma unat_Suc_less:
  fixes a b :: "'a::len word"
  assumes "a < b"
  shows "unat (a + 1) = Suc (unat a)"
proof (rule unat_Suc_no_wrap)
  have "Suc (unat a) \<le> unat b" using assms by (simp add: word_less_nat_alt)
  also have "\<dots> < 2 ^ LENGTH('a)" by (rule unat_bound)
  finally show "Suc (unat a) < 2 ^ LENGTH('a)" .
qed

lemma unat_diff_le: "b \<le> a \<Longrightarrow> unat (a - b) = unat a - unat b"
  for a b :: "'a::len word"
  by (simp add: unat_sub)

end
