(* ===== verification/GoStrings.thy ===== *)
theory GoStrings
  imports Prelude
begin

text \<open>
  The part of Go's \<open>strings\<close> and \<open>unicode/utf8\<close> packages that the modelled code calls, on byte
  strings: a Go string is a sequence of bytes, so it is a \<open>char list\<close> here and \<open>length\<close> is Go's
  \<open>len\<close>. Every function computes on the bytes and stands for the library function it names.
\<close>

section \<open>Prefixes, cutting, splitting, joining\<close>

definition has_prefix :: "string \<Rightarrow> string \<Rightarrow> bool" where
  "has_prefix p s \<longleftrightarrow> take (length p) s = p"

definition trim_prefix :: "string \<Rightarrow> string \<Rightarrow> string" where
  "trim_prefix p s = (if has_prefix p s then drop (length p) s else s)"

lemma has_prefix_append [simp]: "has_prefix p (p @ s)"
  by (simp add: has_prefix_def)

lemma trim_prefix_append [simp]: "trim_prefix p (p @ s) = s"
  by (simp add: trim_prefix_def)

lemma has_prefixE: "has_prefix p s \<Longrightarrow> (\<And>r. s = p @ r \<Longrightarrow> thesis) \<Longrightarrow> thesis"
  unfolding has_prefix_def by (metis append_take_drop_id)

lemma has_prefix_Nil [simp]: "has_prefix [] s"
  by (simp add: has_prefix_def)

lemma has_prefix_Cons [simp, go_eval]:
  "has_prefix (c # p) [] = False"
  "has_prefix (c # p) (d # s) = (c = d \<and> has_prefix p s)"
  by (auto simp: has_prefix_def)

text \<open>\<open>strings.IndexAny(s, chars)\<close> for ASCII \<open>chars\<close>: \<open>None\<close> stands for -1.\<close>

definition index_any :: "string \<Rightarrow> string \<Rightarrow> nat option" where
  "index_any s chars =
     (let i = length (takeWhile (\<lambda>c. c \<notin> set chars) s) in if i < length s then Some i else None)"

text \<open>\<open>strings.Split(s, sep)\<close> for a one-byte separator; never empty.\<close>

fun split_byte :: "char \<Rightarrow> string \<Rightarrow> string list" where
  "split_byte b [] = [[]]"
| "split_byte b (c # s) =
     (if c = b then [] # split_byte b s
      else (case split_byte b s of [] \<Rightarrow> [[c]] | w # ws \<Rightarrow> (c # w) # ws))"

fun join_byte :: "char \<Rightarrow> string list \<Rightarrow> string" where
  "join_byte b [] = []"
| "join_byte b [w] = w"
| "join_byte b (w # v # ws) = w @ b # join_byte b (v # ws)"

lemma split_byte_nonempty: "split_byte b s \<noteq> []"
  by (induction b s rule: split_byte.induct) (auto split: list.splits)

lemma split_byte_free: "w \<in> set (split_byte b s) \<Longrightarrow> b \<notin> set w"
  by (induction b s arbitrary: w rule: split_byte.induct) (fastforce split: if_splits list.splits)+

lemma split_byte_word: "b \<notin> set w \<Longrightarrow> split_byte b w = [w]"
  by (induction w) auto

lemma split_byte_append: "b \<notin> set w \<Longrightarrow> split_byte b (w @ b # s) = w # split_byte b s"
  by (induction w) auto

text \<open>Joining words that do not contain the separator and splitting again gives them back.\<close>

lemma split_join_byte:
  "ws \<noteq> [] \<Longrightarrow> (\<And>w. w \<in> set ws \<Longrightarrow> b \<notin> set w) \<Longrightarrow> split_byte b (join_byte b ws) = ws"
proof (induction b ws rule: join_byte.induct)
  case (1 b)
  then show ?case by simp
next
  case (2 b w)
  then show ?case by (simp add: split_byte_word)
next
  case (3 b w v ws)
  then show ?case by (simp add: split_byte_append)
qed

section \<open>White space\<close>

text \<open>The UTF-8 encodings of the runes \<open>unicode.IsSpace\<close> accepts.\<close>

definition go_spaces :: "string list" where
  "go_spaces =
     [[CHR 0x09], [CHR 0x0A], [CHR 0x0B], [CHR 0x0C], [CHR 0x0D], [CHR 0x20],
      [CHR 0xC2, CHR 0x85], [CHR 0xC2, CHR 0xA0],
      [CHR 0xE1, CHR 0x9A, CHR 0x80],
      [CHR 0xE2, CHR 0x80, CHR 0x80], [CHR 0xE2, CHR 0x80, CHR 0x81],
      [CHR 0xE2, CHR 0x80, CHR 0x82], [CHR 0xE2, CHR 0x80, CHR 0x83],
      [CHR 0xE2, CHR 0x80, CHR 0x84], [CHR 0xE2, CHR 0x80, CHR 0x85],
      [CHR 0xE2, CHR 0x80, CHR 0x86], [CHR 0xE2, CHR 0x80, CHR 0x87],
      [CHR 0xE2, CHR 0x80, CHR 0x88], [CHR 0xE2, CHR 0x80, CHR 0x89],
      [CHR 0xE2, CHR 0x80, CHR 0x8A], [CHR 0xE2, CHR 0x80, CHR 0xA8],
      [CHR 0xE2, CHR 0x80, CHR 0xA9], [CHR 0xE2, CHR 0x80, CHR 0xAF],
      [CHR 0xE2, CHR 0x81, CHR 0x9F], [CHR 0xE3, CHR 0x80, CHR 0x80]]"

text \<open>\<open>strip_any ps s\<close> is \<open>s\<close> without the first of the non-empty prefixes \<open>ps\<close> it starts with.\<close>

fun strip_any :: "string list \<Rightarrow> string \<Rightarrow> string option" where
  "strip_any [] s = None"
| "strip_any (p # ps) s =
     (if p \<noteq> [] \<and> has_prefix p s then Some (drop (length p) s) else strip_any ps s)"

lemma strip_any_shorter: "strip_any ps s = Some r \<Longrightarrow> length r < length s"
  by (induction ps) (auto elim: has_prefixE split: if_splits)

lemma strip_any_suffix: "strip_any ps s = Some r \<Longrightarrow> \<exists>q. s = q @ r"
proof (induction ps)
  case Nil
  then show ?case by simp
next
  case (Cons p ps)
  then show ?case by (auto elim: has_prefixE split: if_splits)
qed

lemma strip_any_Nil [simp]: "strip_any ps [] = None"
  by (cases "strip_any ps []") (auto dest: strip_any_shorter)

function trim_by :: "string list \<Rightarrow> string \<Rightarrow> string" where
  "trim_by ps s = (case strip_any ps s of None \<Rightarrow> s | Some r \<Rightarrow> trim_by ps r)"
  by pat_completeness auto
termination
  by (relation "measure (\<lambda>(ps, s). length s)") (auto dest: strip_any_shorter)

declare trim_by.simps [simp del]

definition trim_space :: "string \<Rightarrow> string" where
  "trim_space s = rev (trim_by (map rev go_spaces) (rev (trim_by go_spaces s)))"

function fields_from :: "string \<Rightarrow> string \<Rightarrow> string list" where
  "fields_from cur s =
     (case strip_any go_spaces s of
        Some r \<Rightarrow> (if cur = [] then [] else [cur]) @ fields_from [] r
      | None \<Rightarrow> (case s of
                    [] \<Rightarrow> (if cur = [] then [] else [cur])
                  | c # cs \<Rightarrow> fields_from (cur @ [c]) cs))"
  by pat_completeness auto
termination
  by (relation "measure (\<lambda>(cur, s). length s)") (auto dest: strip_any_shorter)

declare fields_from.simps [simp del]

definition fields :: "string \<Rightarrow> string list" where
  "fields s = fields_from [] s"

lemma trim_by_unstrippable: "strip_any ps (trim_by ps s) = None"
  by (induction ps s rule: trim_by.induct) (subst trim_by.simps, simp split: option.splits)

lemma trim_by_id: "strip_any ps s = None \<Longrightarrow> trim_by ps s = s"
  by (subst trim_by.simps) simp

lemma trim_by_suffix: "\<exists>q. s = q @ trim_by ps s"
proof (induction ps s rule: trim_by.induct)
  case (1 ps s)
  show ?case
  proof (cases "strip_any ps s")
    case None
    then show ?thesis by (simp add: trim_by_id)
  next
    case (Some r)
    from 1[OF Some] obtain q where "r = q @ trim_by ps r" by blast
    moreover from strip_any_suffix[OF Some] obtain q' where "s = q' @ r" by blast
    ultimately have "s = (q' @ q) @ trim_by ps r" by simp
    moreover have "trim_by ps s = trim_by ps r" using Some by (subst trim_by.simps) simp
    ultimately show ?thesis by metis
  qed
qed

lemma set_trim_by: "set (trim_by ps s) \<subseteq> set s"
  using trim_by_suffix[of s ps] by (metis set_append Un_upper2)

lemma set_trim_space: "set (trim_space s) \<subseteq> set s"
  unfolding trim_space_def using set_trim_by by (metis set_rev order_trans)

text \<open>
  Trimming on the left leaves a string no space prefixes; trimming it on the right keeps it so,
  because a prefix of an unspaced string is unspaced.
\<close>

lemma strip_any_append_None: "strip_any ps (s @ t) = None \<Longrightarrow> strip_any ps s = None"
  by (induction ps) (auto simp: has_prefix_def split: if_splits)

lemma trim_space_idem: "trim_space (trim_space s) = trim_space s"
proof -
  let ?l = "trim_by go_spaces s"
  let ?r = "rev (trim_by (map rev go_spaces) (rev ?l))"
  have "strip_any go_spaces ?l = None" by (rule trim_by_unstrippable)
  moreover obtain q where "rev ?l = q @ rev ?r" using trim_by_suffix[of "rev ?l"] by auto
  then have "?l = ?r @ rev q" by (metis rev_append rev_rev_ident)
  ultimately have "strip_any go_spaces ?r = None" using strip_any_append_None by metis
  then have left: "trim_by go_spaces ?r = ?r" by (rule trim_by_id)
  have "trim_by (map rev go_spaces) (rev ?r) = rev ?r"
    by (rule trim_by_id) (simp add: trim_by_unstrippable)
  with left show ?thesis by (simp add: trim_space_def)
qed

lemmas trim_eval [go_eval] = trim_space_def go_spaces_def trim_by.simps fields_def
  fields_from.simps

section \<open>UTF-8\<close>

text \<open>
  \<open>rune_size s\<close> is the second result of \<open>utf8.DecodeRuneInString(s)\<close>: the length of the
  well-formed encoding \<open>s\<close> starts with, 1 for a byte that starts none, 0 for the empty string.
  The second-byte ranges are those of Unicode's table of well-formed sequences: no overlong
  forms, no surrogates, nothing above \<open>U+10FFFF\<close>.
\<close>

definition byte :: "char \<Rightarrow> nat" where
  "byte c = of_char c"

definition in_range :: "nat \<Rightarrow> nat \<Rightarrow> string \<Rightarrow> nat \<Rightarrow> bool" where
  "in_range lo hi s i \<longleftrightarrow> i < length s \<and> lo \<le> byte (s ! i) \<and> byte (s ! i) \<le> hi"

definition rune_size :: "string \<Rightarrow> nat" where
  "rune_size s =
     (case s of [] \<Rightarrow> 0
      | c # _ \<Rightarrow>
        (let b = byte c; cont = in_range 0x80 0xBF s in
         if 0xC2 \<le> b \<and> b \<le> 0xDF then (if cont 1 then 2 else 1)
         else if 0xE0 \<le> b \<and> b \<le> 0xEF then
           (if in_range (if b = 0xE0 then 0xA0 else 0x80) (if b = 0xED then 0x9F else 0xBF) s 1
               \<and> cont 2 then 3 else 1)
         else if 0xF0 \<le> b \<and> b \<le> 0xF4 then
           (if in_range (if b = 0xF0 then 0x90 else 0x80) (if b = 0xF4 then 0x8F else 0xBF) s 1
               \<and> cont 2 \<and> cont 3 then 4 else 1)
         else 1))"

lemma rune_size_pos: "s \<noteq> [] \<Longrightarrow> 0 < rune_size s"
  by (cases s) (auto simp: rune_size_def Let_def)

lemma rune_size_le: "rune_size s \<le> length s"
  by (cases s) (auto simp: rune_size_def Let_def in_range_def Suc_le_eq length_greater_0_conv)

lemma rune_size_le4: "rune_size s \<le> 4"
  by (cases s) (auto simp: rune_size_def Let_def)

text \<open>\<open>utf8.RuneCountInString\<close>.\<close>

function rune_count :: "string \<Rightarrow> nat" where
  "rune_count s = (if s = [] then 0 else Suc (rune_count (drop (rune_size s) s)))"
  by pat_completeness auto
termination
  by (relation "measure length") (auto simp: rune_size_pos)

declare rune_count.simps [simp del]

text \<open>A position is a rune boundary when whole runes, read from the left, end there.\<close>

inductive rune_boundary :: "string \<Rightarrow> nat \<Rightarrow> bool" where
  start: "rune_boundary s 0"
| step: "rune_boundary s n \<Longrightarrow> n < length s \<Longrightarrow> rune_boundary s (n + rune_size (drop n s))"

text \<open>
  Invalid UTF-8 does not survive \<open>json.Marshal\<close>: each byte that starts no rune becomes
  \<open>U+FFFD\<close>.
\<close>

function to_valid_utf8 :: "string \<Rightarrow> string" where
  "to_valid_utf8 s =
     (if s = [] then []
      else (if byte (hd s) < 0x80 \<or> 1 < rune_size s then take (rune_size s) s
            else [CHR 0xEF, CHR 0xBF, CHR 0xBD])
           @ to_valid_utf8 (drop (rune_size s) s))"
  by pat_completeness auto
termination
  by (relation "measure length") (auto simp: rune_size_pos)

declare to_valid_utf8.simps [simp del]

text \<open>Valid strings: the first rune of one is well formed, and they are closed under appending.\<close>

definition good_rune :: "string \<Rightarrow> bool" where
  "good_rune s \<longleftrightarrow> byte (hd s) < 0x80 \<or> 1 < rune_size s"

abbreviation valid_utf8 :: "string \<Rightarrow> bool" where
  "valid_utf8 s \<equiv> to_valid_utf8 s = s"

lemma in_range_append: "in_range lo hi s i \<Longrightarrow> in_range lo hi (s @ t) i"
  by (auto simp: in_range_def nth_append)

lemma in_range_take: "in_range lo hi s i \<Longrightarrow> i < n \<Longrightarrow> in_range lo hi (take n s) i"
  by (auto simp: in_range_def)

text \<open>The well-formed encodings of more than one byte, by length.\<close>

definition rune_of :: "nat \<Rightarrow> string \<Rightarrow> bool" where
  "rune_of n s \<longleftrightarrow> s \<noteq> [] \<and>
     (let b = byte (hd s) in
      n = 2 \<and> 0xC2 \<le> b \<and> b \<le> 0xDF \<and> in_range 0x80 0xBF s 1 \<or>
      n = 3 \<and> 0xE0 \<le> b \<and> b \<le> 0xEF \<and>
        in_range (if b = 0xE0 then 0xA0 else 0x80) (if b = 0xED then 0x9F else 0xBF) s 1 \<and>
        in_range 0x80 0xBF s 2 \<or>
      n = 4 \<and> 0xF0 \<le> b \<and> b \<le> 0xF4 \<and>
        in_range (if b = 0xF0 then 0x90 else 0x80) (if b = 0xF4 then 0x8F else 0xBF) s 1 \<and>
        in_range 0x80 0xBF s 2 \<and> in_range 0x80 0xBF s 3)"

lemma rune_size_iff:
  assumes "1 < n"
  shows "rune_size s = n \<longleftrightarrow> rune_of n s"
proof (cases s)
  case Nil
  then show ?thesis using assms by (simp add: rune_size_def rune_of_def)
next
  case s: (Cons c r)
  define b where "b = byte c"
  consider "b < 0xC2" | "0xC2 \<le> b" "b \<le> 0xDF" | "0xE0 \<le> b" "b \<le> 0xEF" | "0xF0 \<le> b" "b \<le> 0xF4" | "0xF4 < b"
    by linarith
  then show ?thesis
    by cases (use assms in \<open>auto simp: s rune_size_def rune_of_def Let_def b_def[symmetric]\<close>)
qed

lemma rune_of_append: "rune_of n s \<Longrightarrow> rune_of n (s @ t)"
  unfolding rune_of_def Let_def
  by (elim conjE disjE) (simp_all add: in_range_append split del: if_split)

lemma rune_of_take: "rune_of n s \<Longrightarrow> rune_of n (take n s)"
  unfolding rune_of_def Let_def
  by (elim conjE disjE) (simp_all add: in_range_take hd_take split del: if_split)

lemma rune_size_ascii: "s \<noteq> [] \<Longrightarrow> byte (hd s) < 0x80 \<Longrightarrow> rune_size s = 1"
  by (cases s) (auto simp: rune_size_def)

lemma rune_size_append: "s \<noteq> [] \<Longrightarrow> good_rune s \<Longrightarrow> rune_size (s @ t) = rune_size s"
proof (cases "1 < rune_size s")
  case True
  then show ?thesis using rune_size_iff[OF True] rune_of_append by metis
next
  case False
  assume "s \<noteq> []" "good_rune s"
  then show ?thesis using False rune_size_ascii[of s] rune_size_ascii[of "s @ t"]
    by (simp add: good_rune_def)
qed

lemma good_rune_append: "s \<noteq> [] \<Longrightarrow> good_rune s \<Longrightarrow> good_rune (s @ t)"
  by (simp add: good_rune_def rune_size_append[unfolded good_rune_def])

lemma to_valid_Nil [simp]: "to_valid_utf8 [] = []"
  by (simp add: to_valid_utf8.simps)

lemma to_valid_good:
  "s \<noteq> [] \<Longrightarrow> good_rune s \<Longrightarrow>
   to_valid_utf8 s = take (rune_size s) s @ to_valid_utf8 (drop (rune_size s) s)"
  by (subst to_valid_utf8.simps) (simp add: good_rune_def)

lemma valid_good:
  assumes "valid_utf8 s" "s \<noteq> []"
  shows "good_rune s"
proof (rule ccontr)
  assume bad: "\<not> good_rune s"
  have "to_valid_utf8 s = [CHR 0xEF, CHR 0xBF, CHR 0xBD] @ to_valid_utf8 (drop (rune_size s) s)"
    using assms(2) bad by (subst to_valid_utf8.simps) (simp add: good_rune_def)
  then have "s = [CHR 0xEF, CHR 0xBF, CHR 0xBD] @ to_valid_utf8 (drop (rune_size s) s)"
    using assms(1) by simp
  moreover have "rune_size ([CHR 0xEF, CHR 0xBF, CHR 0xBD] @ r) = 3" for r
    by (simp add: rune_size_def Let_def in_range_def byte_def)
  ultimately have "rune_size s = 3" by metis
  with bad show False by (simp add: good_rune_def)
qed

lemma valid_rest:
  assumes "valid_utf8 s" "s \<noteq> []"
  shows "valid_utf8 (drop (rune_size s) s)"
proof -
  have "take (rune_size s) s @ to_valid_utf8 (drop (rune_size s) s) = s"
    using to_valid_good[OF assms(2) valid_good[OF assms]] assms(1) by simp
  then show ?thesis by (metis append_take_drop_id same_append_eq)
qed

lemma valid_append [intro]:
  assumes "valid_utf8 s" "valid_utf8 t"
  shows "valid_utf8 (s @ t)"
  using assms(1)
proof (induction s rule: to_valid_utf8.induct)
  case (1 s)
  show ?case
  proof (cases "s = []")
    case True
    then show ?thesis using assms(2) by simp
  next
    case False
    note g = valid_good[OF 1(2) False]
    have "valid_utf8 (drop (rune_size s) s @ t)"
      using 1(1)[OF False] valid_rest[OF 1(2) False] by simp
    then show ?thesis
      using to_valid_good[of "s @ t"] False good_rune_append[OF False g, of t] rune_size_le[of s]
      by (simp add: rune_size_append[OF False g])
  qed
qed

lemma valid_ascii: "\<forall>c \<in> set s. byte c < 0x80 \<Longrightarrow> valid_utf8 s"
proof (induction s)
  case (Cons c s)
  then have "good_rune (c # s)" "rune_size (c # s) = 1"
    using rune_size_ascii[of "c # s"] by (auto simp: good_rune_def)
  with Cons to_valid_good[of "c # s"] show ?case by simp
qed simp

text \<open>What \<open>json.Marshal\<close> writes for a string is valid, so a second pass changes nothing.\<close>

lemma valid_to_valid: "valid_utf8 (to_valid_utf8 s)"
proof (induction s rule: to_valid_utf8.induct)
  case (1 s)
  show ?case
  proof (cases "s = []")
    case False
    let ?n = "rune_size s"
    have rest: "valid_utf8 (to_valid_utf8 (drop ?n s))" using 1 False by simp
    show ?thesis
    proof (cases "good_rune s")
      case True
      have nz: "take ?n s \<noteq> []" using rune_size_pos[OF False] False by simp
      have "rune_size (take ?n s) = ?n \<and> good_rune (take ?n s)"
      proof (cases "byte (hd s) < 0x80")
        case True
        then show ?thesis
          using False by (cases s) (auto simp: rune_size_ascii good_rune_def)
      next
        case notascii: False
        have "1 < ?n" using True notascii by (simp add: good_rune_def)
        then have "rune_size (take ?n s) = ?n"
          using rune_size_iff[of ?n s] rune_size_iff[of ?n "take ?n s"] rune_of_take by blast
        with \<open>1 < ?n\<close> show ?thesis by (simp add: good_rune_def)
      qed
      then have "valid_utf8 (take ?n s)"
        using to_valid_good[OF nz] by simp
      then have "valid_utf8 (take ?n s @ to_valid_utf8 (drop ?n s))" using rest by (rule valid_append)
      then show ?thesis by (simp add: to_valid_good[OF False True])
    next
      case bad: False
      have fffd: "valid_utf8 [CHR 0xEF, CHR 0xBF, CHR 0xBD]" by code_simp
      have "to_valid_utf8 s = [CHR 0xEF, CHR 0xBF, CHR 0xBD] @ to_valid_utf8 (drop ?n s)"
        using False bad by (subst to_valid_utf8.simps) (simp add: good_rune_def)
      then show ?thesis using valid_append[OF fffd rest] by simp
    qed
  qed simp
qed

end
