(* ===== verification/GoMaps.thy ===== *)
theory GoMaps
  imports Prelude "HOL-Library.List_Lexorder" "HOL-Library.Char_ord"
begin

text \<open>
  Go maps with ordered keys, as association lists in increasing key order: the order in which
  \<open>json.Marshal\<close> emits a map. The list is canonical, so two maps with the same entries are the
  same list. Strings are ordered by their bytes.
\<close>

fun put :: "'k::linorder \<Rightarrow> 'v \<Rightarrow> ('k \<times> 'v) list \<Rightarrow> ('k \<times> 'v) list" where
  "put k v [] = [(k, v)]"
| "put k v ((l, w) # m) =
     (if k < l then (k, v) # (l, w) # m
      else if k = l then (k, v) # m
      else (l, w) # put k v m)"

definition del :: "'k \<Rightarrow> ('k \<times> 'v) list \<Rightarrow> ('k \<times> 'v) list" where
  "del k m = filter (\<lambda>(l, w). l \<noteq> k) m"

definition map_ok :: "('k::linorder \<times> 'v) list \<Rightarrow> bool" where
  "map_ok m \<longleftrightarrow> sorted_wrt (<) (map fst m)"

text \<open>A map built by storing entries in the order they are given.\<close>

definition put_all :: "('k::linorder \<times> 'v) list \<Rightarrow> ('k \<times> 'v) list \<Rightarrow> ('k \<times> 'v) list" where
  "put_all kvs m = foldl (\<lambda>m (k, v). put k v m) m kvs"

lemma map_ok_Nil [simp]: "map_ok []"
  by (simp add: map_ok_def)

lemma set_put: "set (map fst (put k v m)) = insert k (set (map fst m))"
  by (induction k v m rule: put.induct) auto

lemma map_ok_Cons: "map_ok ((k, v) # m) \<longleftrightarrow> (\<forall>l \<in> set (map fst m). k < l) \<and> map_ok m"
  by (simp add: map_ok_def)

lemma map_ok_put [intro, simp]: "map_ok m \<Longrightarrow> map_ok (put k v m)"
proof (induction k v m rule: put.induct)
  case (1 k v)
  then show ?case by (simp add: map_ok_def)
next
  case (2 k v l w m)
  have "\<And>x. x \<in> set (map fst (put k v m)) \<Longrightarrow> x = k \<or> x \<in> set (map fst m)"
    by (auto simp: set_put simp del: set_map)
  with 2 show ?case by (fastforce simp: map_ok_Cons simp del: set_map)
qed

lemma map_of_put [simp]: "map_ok m \<Longrightarrow> map_of (put k v m) = (map_of m)(k \<mapsto> v)"
proof (induction k v m rule: put.induct)
  case (1 k v)
  then show ?case by simp
next
  case (2 k v l w m)
  then show ?case
    by (auto simp: map_ok_Cons fun_upd_twist fun_eq_iff)
qed

lemma map_of_del: "map_of (del k m) l = (if l = k then None else map_of m l)"
  by (induction m) (auto simp: del_def)

lemma map_ok_del [intro, simp]: "map_ok m \<Longrightarrow> map_ok (del k m)"
  unfolding map_ok_def del_def by (induction m) auto

lemma map_ok_distinct: "map_ok m \<Longrightarrow> distinct (map fst m)"
  unfolding map_ok_def by (simp add: strict_sorted_iff)

lemma map_ok_put_all [intro, simp]: "map_ok m \<Longrightarrow> map_ok (put_all kvs m)"
  unfolding put_all_def by (rule foldl_inv) auto

lemma put_all_simps [simp]:
  "put_all [] m = m"
  "put_all ((k, v) # kvs) m = put_all kvs (put k v m)"
  by (simp_all add: put_all_def)

lemma put_all_append: "put_all (a @ b) m = put_all b (put_all a m)"
  by (simp add: put_all_def)

lemma map_of_put_all: "map_ok m \<Longrightarrow> map_of (put_all kvs m) = map_of m ++ map_of (rev kvs)"
proof (induction kvs arbitrary: m)
  case Nil
  then show ?case by simp
next
  case (Cons kv kvs)
  then show ?case by (cases kv) (auto simp: map_add_def fun_eq_iff split: option.splits)
qed

text \<open>Canonicity: the entries determine the list.\<close>

lemma map_ok_ext:
  assumes "map_ok m" "map_ok n" "map_of m = map_of n"
  shows "m = n"
proof -
  have "set (map fst m) = set (map fst n)"
    using assms(3) by (metis dom_map_of_conv_image_fst set_map)
  moreover have "sorted_wrt (<) (map fst m)" "sorted_wrt (<) (map fst n)"
    using assms by (simp_all add: map_ok_def)
  ultimately have keys: "map fst m = map fst n"
    using strict_sorted_equal by blast
  have "map (\<lambda>k. (k, the (map_of m k))) (map fst m) = m" if "map_ok m" for m :: "('a \<times> 'b) list"
    using map_ok_distinct[OF that] by (auto simp: comp_def intro!: map_idI)
  from this[OF assms(1)] this[OF assms(2)] keys assms(3) show ?thesis by metis
qed

lemma map_of_rev_distinct: "distinct (map fst m) \<Longrightarrow> map_of (rev m) = map_of m"
  by (rule map_of_eqI) (auto simp: map_of_eq_Some_iff rev_map[symmetric])

lemma put_all_sorted: "map_ok kvs \<Longrightarrow> put_all kvs [] = kvs"
  by (rule map_ok_ext) (simp_all add: map_of_put_all map_of_rev_distinct map_ok_distinct)

lemma put_same: "map_ok m \<Longrightarrow> map_of m k = Some v \<Longrightarrow> put k v m = m"
  by (rule map_ok_ext) (auto simp: fun_eq_iff)

text \<open>Storing the same entries again changes nothing.\<close>

lemma put_all_again: "map_ok m \<Longrightarrow> put_all kvs (put_all kvs m) = put_all kvs m"
  by (rule map_ok_ext) (auto simp: map_of_put_all map_add_def fun_eq_iff split: option.splits)

lemma map_of_filter_keys:
  "map_of (filter (\<lambda>(k, v). P k) m) k = (if P k then map_of m k else None)"
  by (induction m) auto

lemma map_ok_filter [intro, simp]: "map_ok m \<Longrightarrow> map_ok (filter P m)"
  unfolding map_ok_def by (induction m) auto

text \<open>Mapping the values commutes with storing.\<close>

lemma map_put: "map (\<lambda>(k, v). (k, f v)) (put k v m) = put k (f v) (map (\<lambda>(k, v). (k, f v)) m)"
  by (induction k v m rule: put.induct) auto

lemma map_put_all:
  "map (\<lambda>(k, v). (k, f v)) (put_all kvs m) =
     put_all (map (\<lambda>(k, v). (k, f v)) kvs) (map (\<lambda>(k, v). (k, f v)) m)"
  by (induction kvs arbitrary: m) (auto simp: map_put)

lemma map_ok_map [simp]: "map_ok (map (\<lambda>(k, v). (k, f v)) m) = map_ok m"
proof -
  have "map fst (map (\<lambda>(k, v). (k, f v)) m) = map fst m" by (induction m) auto
  then show ?thesis by (simp only: map_ok_def)
qed

lemma map_of_map_values: "map_of (map (\<lambda>(k, v). (k, f v)) m) k = map_option f (map_of m k)"
  by (induction m) auto

lemma set_put_subset: "set (put k v m) \<subseteq> insert (k, v) (set m)"
  by (induction k v m rule: put.induct) auto

lemma set_put_all_subset: "set (put_all kvs m) \<subseteq> set kvs \<union> set m"
proof (induction kvs arbitrary: m)
  case (Cons kv kvs)
  then show ?case using set_put_subset by (cases kv) fastforce
qed simp

end
