(* ===== verification/GoJson.thy ===== *)
theory GoJson
  imports GoStrings GoMaps
begin

text \<open>
  JSON values and the rules by which Go's \<open>encoding/json\<close> fills a struct from one. Text that
  parses is represented by the value it parses to, with the members of an object in document
  order and repeated keys kept, because the decoder sees both. Decoding a struct runs over the
  members from the left: a member is matched to a field by name ignoring case, a later match
  overwrites an earlier one, \<open>null\<close> leaves a plain field alone and clears a pointer, and a value
  of the wrong type makes the whole decode fail (\<open>None\<close>).
\<close>

section \<open>Values\<close>

text \<open>
  A number literal without fraction and exponent is \<open>IntLit i\<close>; any other is \<open>DecLit m e\<close>, of
  value \<open>m * 10 powi e\<close>. A \<open>float64\<close> the code only copies stays the literal it was read from.
\<close>

datatype jnum = IntLit int | DecLit int int

datatype json =
    JNull
  | JBool bool
  | JNumber jnum
  | JString string
  | JArray "json list"
  | JObject "(string \<times> json) list"

type_synonym members = "(string \<times> json) list"

section \<open>Scalars\<close>

definition int64_ok :: "int \<Rightarrow> bool" where
  "int64_ok i \<longleftrightarrow> - (2 ^ 63) \<le> i \<and> i < 2 ^ 63"

fun as_int :: "json \<Rightarrow> int option" where
  "as_int (JNumber (IntLit i)) = (if int64_ok i then Some i else None)"
| "as_int _ = None"

text \<open>A literal that rounds to an infinity is refused: the first such value is \<open>2^1024 - 2^970\<close>.\<close>

definition float_limit :: int where
  "float_limit = 2 ^ 1024 - 2 ^ 970"

fun float_overflow :: "jnum \<Rightarrow> bool" where
  "float_overflow (IntLit i) = (float_limit \<le> \<bar>i\<bar>)"
| "float_overflow (DecLit m e) =
     (if 0 \<le> e then float_limit \<le> \<bar>m\<bar> * 10 ^ nat e else float_limit * 10 ^ nat (- e) \<le> \<bar>m\<bar>)"

fun as_float :: "json \<Rightarrow> jnum option" where
  "as_float (JNumber n) = (if float_overflow n then None else Some n)"
| "as_float _ = None"

fun as_bool :: "json \<Rightarrow> bool option" where
  "as_bool (JBool b) = Some b"
| "as_bool _ = None"

fun as_string :: "json \<Rightarrow> string option" where
  "as_string (JString s) = Some s"
| "as_string _ = None"

text \<open>An element of a \<open>[]string\<close>: \<open>null\<close> leaves the empty string.\<close>

fun string_elem :: "json \<Rightarrow> string option" where
  "string_elem JNull = Some []"
| "string_elem v = as_string v"

text \<open>An element of a \<open>[]struct{}\<close>: an object with any members, or \<open>null\<close>.\<close>

fun unit_elem :: "json \<Rightarrow> unit option" where
  "unit_elem JNull = Some ()"
| "unit_elem (JObject _) = Some ()"
| "unit_elem _ = None"

primrec map_all :: "('a \<Rightarrow> 'b option) \<Rightarrow> 'a list \<Rightarrow> 'b list option" where
  "map_all f [] = Some []"
| "map_all f (x # xs) =
     (case f x of None \<Rightarrow> None | Some y \<Rightarrow> map_option (\<lambda>ys. y # ys) (map_all f xs))"

lemma map_all_length: "map_all f xs = Some ys \<Longrightarrow> length ys = length xs"
  by (induction xs arbitrary: ys) (auto split: option.splits)

lemma map_all_map: "(\<And>x. x \<in> set xs \<Longrightarrow> f (g x) = Some (h x)) \<Longrightarrow> map_all f (map g xs) = Some (map h xs)"
  by (induction xs) auto

section \<open>Matching member names\<close>

text \<open>
  \<open>foldName\<close>: the case folding under which a member name matches a field name. Field names are
  ASCII, so of the non-ASCII runes only the two whose fold is an ASCII letter matter: the long s
  (\<open>U+017F\<close>) and the Kelvin sign (\<open>U+212A\<close>).
\<close>

definition upper :: "char \<Rightarrow> char" where
  "upper c = (if 0x61 \<le> byte c \<and> byte c \<le> 0x7A then char_of (byte c - 0x20) else c)"

fun fold_name :: "string \<Rightarrow> string" where
  "fold_name [] = []"
| "fold_name (c # s) =
     (if has_prefix [CHR 0xC5, CHR 0xBF] (c # s) then CHR ''S'' # fold_name (drop 1 s)
      else if has_prefix [CHR 0xE2, CHR 0x84, CHR 0xAA] (c # s) then CHR ''K'' # fold_name (drop 2 s)
      else upper c # fold_name s)"

definition names_match :: "string \<Rightarrow> string \<Rightarrow> bool" where
  "names_match field key \<longleftrightarrow> fold_name field = fold_name key"

lemma names_match_refl [simp]: "names_match k k"
  by (simp add: names_match_def)

section \<open>Structs\<close>

text \<open>A struct type is the list of its field names with the decoder that stores each.\<close>

type_synonym 's struct_fields = "(string \<times> (json \<Rightarrow> 's \<Rightarrow> 's option)) list"

fun find_field :: "'s struct_fields \<Rightarrow> string \<Rightarrow> (json \<Rightarrow> 's \<Rightarrow> 's option) option" where
  "find_field [] k = None"
| "find_field ((name, d) # fs) k = (if names_match name k then Some d else find_field fs k)"

fun decode_members :: "'s struct_fields \<Rightarrow> members \<Rightarrow> 's \<Rightarrow> 's option" where
  "decode_members fs [] s = Some s"
| "decode_members fs ((k, v) # ms) s =
     (case find_field fs k of
        None \<Rightarrow> decode_members fs ms s
      | Some d \<Rightarrow> (case d v s of None \<Rightarrow> None | Some s' \<Rightarrow> decode_members fs ms s'))"

fun decode_struct :: "'s struct_fields \<Rightarrow> json \<Rightarrow> 's \<Rightarrow> 's option" where
  "decode_struct fs JNull s = Some s"
| "decode_struct fs (JObject ms) s = decode_members fs ms s"
| "decode_struct fs _ s = None"

text \<open>
  The decoders of the field kinds; \<open>upd\<close> is the record update of the field. A plain field keeps
  its value at \<open>null\<close>; a pointer or slice becomes nil (\<open>None\<close>); \<open>json.RawMessage\<close> takes any
  value, \<open>null\<close> included.
\<close>

definition plain_field ::
  "(json \<Rightarrow> 'a option) \<Rightarrow> (('a \<Rightarrow> 'a) \<Rightarrow> 's \<Rightarrow> 's) \<Rightarrow> json \<Rightarrow> 's \<Rightarrow> 's option" where
  "plain_field conv upd v s =
     (if v = JNull then Some s else map_option (\<lambda>x. upd (\<lambda>_. x) s) (conv v))"

definition ptr_field ::
  "(json \<Rightarrow> 'a option) \<Rightarrow> (('a option \<Rightarrow> 'a option) \<Rightarrow> 's \<Rightarrow> 's) \<Rightarrow> json \<Rightarrow> 's \<Rightarrow> 's option" where
  "ptr_field conv upd v s =
     (if v = JNull then Some (upd (\<lambda>_. None) s)
      else map_option (\<lambda>x. upd (\<lambda>_. Some x) s) (conv v))"

fun as_slice :: "(json \<Rightarrow> 'a option) \<Rightarrow> json \<Rightarrow> 'a list option" where
  "as_slice elem (JArray vs) = map_all elem vs"
| "as_slice elem _ = None"

definition slice_field ::
  "(json \<Rightarrow> 'a option) \<Rightarrow> (('a list option \<Rightarrow> 'a list option) \<Rightarrow> 's \<Rightarrow> 's) \<Rightarrow> json \<Rightarrow> 's \<Rightarrow> 's option"
where
  "slice_field elem = ptr_field (as_slice elem)"

definition raw_field ::
  "((json option \<Rightarrow> json option) \<Rightarrow> 's \<Rightarrow> 's) \<Rightarrow> json \<Rightarrow> 's \<Rightarrow> 's option" where
  "raw_field upd v s = Some (upd (\<lambda>_. Some v) s)"

text \<open>A nested struct is decoded into the value already there; a nil pointer starts from zero.\<close>

definition nested_field ::
  "'a struct_fields \<Rightarrow> ('s \<Rightarrow> 'a) \<Rightarrow> (('a \<Rightarrow> 'a) \<Rightarrow> 's \<Rightarrow> 's) \<Rightarrow> json \<Rightarrow> 's \<Rightarrow> 's option" where
  "nested_field fs get upd v s = map_option (\<lambda>x. upd (\<lambda>_. x) s) (decode_struct fs v (get s))"

definition nested_ptr_field ::
  "'a struct_fields \<Rightarrow> 'a \<Rightarrow> ('s \<Rightarrow> 'a option) \<Rightarrow> (('a option \<Rightarrow> 'a option) \<Rightarrow> 's \<Rightarrow> 's)
     \<Rightarrow> json \<Rightarrow> 's \<Rightarrow> 's option" where
  "nested_ptr_field fs zero get upd v s =
     (if v = JNull then Some (upd (\<lambda>_. None) s)
      else map_option (\<lambda>x. upd (\<lambda>_. Some x) s)
             (decode_struct fs v (case get s of Some x \<Rightarrow> x | None \<Rightarrow> zero)))"

lemmas field_defs = plain_field_def ptr_field_def slice_field_def raw_field_def
  nested_field_def nested_ptr_field_def

text \<open>
  \<open>map[string]json.RawMessage\<close>: exact keys, the last occurrence wins, \<open>null\<close> is the nil map
  (which reads like the empty one).
\<close>

fun raw_map :: "json \<Rightarrow> members option" where
  "raw_map JNull = Some []"
| "raw_map (JObject ms) = Some (put_all ms [])"
| "raw_map _ = None"

text \<open>
  A map-typed field: \<open>null\<close> clears it; an object adds its members to the map already there, each
  value decoded from zero.
\<close>

definition map_field ::
  "(json \<Rightarrow> 'a option) \<Rightarrow> ('s \<Rightarrow> (string \<times> 'a) list option)
     \<Rightarrow> (((string \<times> 'a) list option \<Rightarrow> (string \<times> 'a) list option) \<Rightarrow> 's \<Rightarrow> 's)
     \<Rightarrow> json \<Rightarrow> 's \<Rightarrow> 's option" where
  "map_field elem get upd v s =
     (case v of
        JNull \<Rightarrow> Some (upd (\<lambda>_. None) s)
      | JObject ms \<Rightarrow>
          map_option (\<lambda>kvs. upd (\<lambda>_. Some (put_all kvs (case get s of Some m \<Rightarrow> m | None \<Rightarrow> []))) s)
            (map_all (\<lambda>(k, v). map_option (Pair k) (elem v)) ms)
      | _ \<Rightarrow> None)"

section \<open>Encoding\<close>

text \<open>\<open>json.Marshal\<close> of a string, and of struct members tagged \<open>omitempty\<close>.\<close>

definition jstr :: "string \<Rightarrow> json" where
  "jstr s = JString (to_valid_utf8 s)"

definition omit_string :: "string \<Rightarrow> string \<Rightarrow> members" where
  "omit_string name s = (if s = [] then [] else [(name, jstr s)])"

definition omit_strings :: "string \<Rightarrow> string list option \<Rightarrow> members" where
  "omit_strings name l =
     (case l of Some (x # xs) \<Rightarrow> [(name, JArray (map jstr (x # xs)))] | _ \<Rightarrow> [])"

lemma jstr_valid [simp]: "valid_utf8 s \<Longrightarrow> jstr s = JString s"
  by (simp add: jstr_def)

lemma map_all_jstr: "\<forall>s \<in> set xs. valid_utf8 s \<Longrightarrow> map_all string_elem (map jstr xs) = Some xs"
  by (induction xs) auto

section \<open>Numbers as \<open>float64\<close>\<close>

text \<open>
  Decoding into \<open>float64\<close> or \<open>interface{}\<close> rounds a literal to the nearest double, ties to even.
  The code only asks such a double whether it is integral and compares it with integers, so
  \<open>f64_int n\<close> is the integer value of the double \<open>n\<close> rounds to, \<open>None\<close> when that is not an
  integer. \<open>round_half_even a b\<close> is \<open>a / b\<close> rounded; \<open>bits a\<close> is \<open>bits.Len\<close>.
\<close>

definition round_half_even :: "nat \<Rightarrow> nat \<Rightarrow> nat" where
  "round_half_even a b =
     (let q = a div b; r = a mod b in
      if 2 * r < b \<or> (2 * r = b \<and> even q) then q else Suc q)"

fun bits :: "nat \<Rightarrow> nat" where
  "bits n = (if n = 0 then 0 else Suc (bits (n div 2)))"

declare bits.simps [simp del]

definition scaled :: "nat \<Rightarrow> nat \<Rightarrow> int \<Rightarrow> nat \<times> nat" where
  "scaled a b k = (if 0 \<le> k then (a, b * 2 ^ nat k) else (a * 2 ^ nat (- k), b))"

definition f64_exponent :: "nat \<Rightarrow> nat \<Rightarrow> int" where
  "f64_exponent a b =
     (let k = int (bits a) - int (bits b) - 53;
          (x, y) = scaled a b k
      in max (- 1074) (if 2 ^ 53 * y \<le> x then k + 1 else k))"

definition f64_nat :: "nat \<Rightarrow> nat \<Rightarrow> nat option" where
  "f64_nat a b =
     (let k = f64_exponent a b;
          (x, y) = scaled a b k;
          m = round_half_even x y
      in if a = 0 then Some 0
         else if 0 \<le> k then Some (m * 2 ^ nat k)
         else if 2 ^ nat (- k) dvd m then Some (m div 2 ^ nat (- k))
         else None)"

fun f64_int :: "jnum \<Rightarrow> int option" where
  "f64_int (IntLit i) = map_option (\<lambda>n. sgn i * int n) (f64_nat (nat \<bar>i\<bar>) 1)"
| "f64_int (DecLit m e) =
     map_option (\<lambda>n. sgn m * int n)
       (if 0 \<le> e then f64_nat (nat \<bar>m\<bar> * 10 ^ nat e) 1 else f64_nat (nat \<bar>m\<bar>) (10 ^ nat (- e)))"

lemma bits_bounds: "0 < n \<Longrightarrow> 2 ^ (bits n - 1) \<le> n \<and> n < 2 ^ bits n"
proof (induction n rule: bits.induct)
  case (1 n)
  show ?case
  proof (cases "n = 1")
    case True
    then show ?thesis by (simp add: bits.simps)
  next
    case False
    with 1(2) have pos: "0 < n div 2" by linarith
    with 1 have ih: "2 ^ (bits (n div 2) - 1) \<le> n div 2 \<and> n div 2 < 2 ^ bits (n div 2)" by simp
    have b: "bits n = Suc (bits (n div 2))" using 1(2) by (subst bits.simps) simp
    have c: "0 < bits (n div 2)" using pos by (subst bits.simps) simp
    have "(2::nat) ^ bits (n div 2) = 2 * 2 ^ (bits (n div 2) - 1)"
      using c by (metis Suc_diff_1 power_Suc)
    with ih b have "2 ^ bits (n div 2) \<le> 2 * (n div 2)" "2 * (n div 2) + 2 \<le> 2 * 2 ^ bits (n div 2)"
      by linarith+
    with b show ?thesis by simp linarith
  qed
qed

text \<open>Integers below \<open>2 ^ 53\<close> are doubles.\<close>

lemma f64_nat_small:
  assumes "n < 2 ^ 53"
  shows "f64_nat n 1 = Some n"
proof (cases "n = 0")
  case True
  then show ?thesis by (simp add: f64_nat_def Let_def split: prod.splits)
next
  case False
  then have bd: "2 ^ (bits n - 1) \<le> n" "n < 2 ^ bits n" using bits_bounds by auto
  have le: "bits n \<le> 53"
  proof (rule ccontr)
    assume "\<not> bits n \<le> 53"
    then have "(2::nat) ^ 53 \<le> 2 ^ (bits n - 1)" by (intro power_increasing) auto
    with bd assms show False by linarith
  qed
  define k where "k = f64_exponent n 1"
  have b1: "bits 1 = 1" by (simp add: bits.simps)
  have k: "k \<le> 0"
  proof -
    have k0: "int (bits n) - int (bits 1) - 53 \<le> - 1" using le b1 by simp
    show ?thesis using k0 by (auto simp: k_def f64_exponent_def Let_def split: prod.splits)
  qed
  have "round_half_even (fst (scaled n 1 k)) (snd (scaled n 1 k)) = n * 2 ^ nat (- k)"
    using k by (simp add: scaled_def round_half_even_def Let_def)
  moreover obtain x y where xy: "scaled n 1 k = (x, y)" by fastforce
  ultimately have m: "round_half_even x y = n * 2 ^ nat (- k)" by simp
  have "f64_nat n 1 =
      (if 0 \<le> k then Some (round_half_even x y * 2 ^ nat k)
       else if 2 ^ nat (- k) dvd round_half_even x y then Some (round_half_even x y div 2 ^ nat (- k))
       else None)"
    unfolding f64_nat_def Let_def k_def[symmetric] xy using False by simp
  then show ?thesis using k m by (cases "k = 0") auto
qed

lemma f64_int_small: "\<bar>i\<bar> < 2 ^ 53 \<Longrightarrow> f64_int (IntLit i) = Some i"
  using f64_nat_small[of "nat \<bar>i\<bar>"] by (simp add: nat_less_iff sgn_mult_abs)

text \<open>\<open>interface{}\<close> takes every value in which each number fits a \<open>float64\<close>.\<close>

fun floats_ok :: "json \<Rightarrow> bool" where
  "floats_ok (JNumber n) = (\<not> float_overflow n)"
| "floats_ok (JArray vs) = (\<forall>v \<in> set vs. floats_ok v)"
| "floats_ok (JObject ms) = (\<forall>m \<in> set ms. floats_ok (snd m))"
| "floats_ok _ = True"

section \<open>Files\<close>

text \<open>
  A file the program reads whole and parses as JSON: absent, not readable, only white space, text
  that does not parse, or text that parses.
\<close>

datatype jfile = Missing | Unreadable | Blank | BadText | JsonText json

section \<open>Only the named members matter\<close>

definition known_member :: "'s struct_fields \<Rightarrow> string \<Rightarrow> bool" where
  "known_member fs k \<longleftrightarrow> find_field fs k \<noteq> None"

lemma known_member_iff: "known_member fs k \<longleftrightarrow> (\<exists>n \<in> fst ` set fs. names_match n k)"
  by (induction fs k rule: find_field.induct) (auto simp: known_member_def)

lemma decode_members_known:
  "decode_members fs (filter (\<lambda>(k, v). known_member fs k) ms) s = decode_members fs ms s"
  by (induction fs ms s rule: decode_members.induct)
    (auto simp: known_member_def split: option.splits)

lemma decode_members_append:
  "decode_members fs (ms @ ns) s =
     (case decode_members fs ms s of None \<Rightarrow> None | Some s' \<Rightarrow> decode_members fs ns s')"
  by (induction fs ms s rule: decode_members.induct) (auto split: option.splits)

text \<open>
  Two documents with the same member names whose values every field decoder treats alike, up to
  a relation \<open>R\<close> of the structs, decode alike up to \<open>R\<close>.
\<close>

lemma decode_members_rel:
  assumes step: "\<And>k d v w s t. find_field fs k = Some d \<Longrightarrow> V k v w \<Longrightarrow> R s t \<Longrightarrow> rel_option R (d v s) (d w t)"
    and members: "list_all2 (\<lambda>(k, v) (l, w). k = l \<and> V k v w) ms ns"
    and init: "R s t"
  shows "rel_option R (decode_members fs ms s) (decode_members fs ns t)"
  using members init
proof (induction ms ns arbitrary: s t rule: list_all2_induct)
  case Nil
  then show ?case by simp
next
  case (Cons m ms n ns)
  obtain k v w where m: "m = (k, v)" "n = (k, w)" "V k v w"
    using Cons.hyps(1) by (cases m, cases n) auto
  show ?case
  proof (cases "find_field fs k")
    case None
    then show ?thesis using m Cons by simp
  next
    case (Some d)
    have "rel_option R (d v s) (d w t)" by (rule step[OF Some m(3) Cons.prems])
    then show ?thesis using m Some Cons.IH by (auto split: option.splits)
  qed
qed

end
