(* ===== verification/ChromiumFlags.thy ===== *)
theory ChromiumFlags
  imports GoJson
begin

text \<open>
  The merge of base and runtime Chromium flags (\<open>lib/chromiumflags/chromiumflags.go\<close>). A token
  stream is split into buckets, the buckets of the two streams are merged, and one token list is
  emitted. The lemmas show what the merged list may contain, that it holds one entry per feature,
  and that merging again changes nothing.
\<close>

section \<open>Token parsing\<close>

definition parseFlags :: "string \<Rightarrow> string list" where
  "parseFlags input =
     (let input = trim_space input in if input = [] then [] else fields input)"

text \<open>\<open>appendCSVInto\<close>: the destination slice is returned instead of written through a pointer.\<close>

definition appendCSVInto :: "string list \<Rightarrow> string \<Rightarrow> string list" where
  "appendCSVInto dst csv =
     dst @ filter (\<lambda>p. p \<noteq> []) (map trim_space (split_byte CHR '','' csv))"

definition load_flag :: string where "load_flag = ''--load-extension=''"
definition except_flag :: string where "except_flag = ''--disable-extensions-except=''"
definition enable_flag :: string where "enable_flag = ''--enable-features=''"
definition disable_flag :: string where "disable_flag = ''--disable-features=''"
definition disable_all_flag :: string where "disable_all_flag = ''--disable-extensions''"

lemmas flag_defs [go_eval] = load_flag_def except_flag_def enable_flag_def disable_flag_def
  disable_all_flag_def

text \<open>The slices and the string \<open>parseTokenStream\<close> fills through its pointer arguments.\<close>

record buckets =
  b_load :: "string list"
  b_except :: "string list"
  b_enable :: "string list"
  b_disable :: "string list"
  b_disableAll :: string
  b_nonExt :: "string list"

definition no_buckets :: buckets where
  "no_buckets = \<lparr>b_load = [], b_except = [], b_enable = [], b_disable = [],
                 b_disableAll = [], b_nonExt = []\<rparr>"

definition parse_token :: "buckets \<Rightarrow> string \<Rightarrow> buckets" where
  "parse_token b tok =
     (if has_prefix load_flag tok then
        b\<lparr>b_load := appendCSVInto (b_load b) (trim_prefix load_flag tok)\<rparr>
      else if has_prefix except_flag tok then
        b\<lparr>b_except := appendCSVInto (b_except b) (trim_prefix except_flag tok)\<rparr>
      else if has_prefix enable_flag tok then
        b\<lparr>b_enable := appendCSVInto (b_enable b) (trim_prefix enable_flag tok)\<rparr>
      else if has_prefix disable_flag tok then
        b\<lparr>b_disable := appendCSVInto (b_disable b) (trim_prefix disable_flag tok)\<rparr>
      else if tok = disable_all_flag then b\<lparr>b_disableAll := tok\<rparr>
      else b\<lparr>b_nonExt := b_nonExt b @ [tok]\<rparr>)"

definition parseTokenStream :: "string list \<Rightarrow> buckets" where
  "parseTokenStream tokens = foldl parse_token no_buckets tokens"

section \<open>Merging\<close>

text \<open>The loop of \<open>union\<close>, with the \<open>seen\<close> map as a set.\<close>

fun union_loop :: "string set \<Rightarrow> string list \<Rightarrow> string list \<Rightarrow> string list" where
  "union_loop seen out [] = out"
| "union_loop seen out (v # vs) =
     (if v = [] then union_loop seen out vs
      else if v \<in> seen then union_loop seen out vs
      else union_loop (insert v seen) (out @ [v]) vs)"

definition go_union :: "string list \<Rightarrow> string list \<Rightarrow> string list" where
  "go_union base rt = union_loop {} [] (base @ rt)"

definition cutAtFirst :: "string \<Rightarrow> string \<Rightarrow> string" where
  "cutAtFirst entry separators =
     (case index_any entry separators of Some i \<Rightarrow> take i entry | None \<Rightarrow> entry)"

definition stripLeadingStar :: "string \<Rightarrow> string" where
  "stripLeadingStar name = trim_prefix ''*'' name"

definition canonicalEnableFeatureName :: "string \<Rightarrow> string" where
  "canonicalEnableFeatureName entry = stripLeadingStar (cutAtFirst entry '':.<'')"

definition canonicalDisableFeatureName :: "string \<Rightarrow> string" where
  "canonicalDisableFeatureName entry = stripLeadingStar (cutAtFirst entry ''<'')"

text \<open>
  \<open>mergeFeatureEntries\<close>: the closure \<open>add\<close> runs over a map from canonical name to position and
  the slice of entries.
\<close>

definition add_entry ::
  "(string \<Rightarrow> string) \<Rightarrow> (string \<rightharpoonup> nat) \<times> string list \<Rightarrow> string \<Rightarrow> (string \<rightharpoonup> nat) \<times> string list"
where
  "add_entry canon = (\<lambda>(index, out) v.
     (case index (canon v) of
        Some pos \<Rightarrow> (index, out[pos := v])
      | None \<Rightarrow> (index(canon v \<mapsto> length out), out @ [v])))"

definition mergeFeatureEntries ::
  "string list \<Rightarrow> string list \<Rightarrow> (string \<Rightarrow> string) \<Rightarrow> string list" where
  "mergeFeatureEntries baseVals rtVals canon =
     snd (foldl (add_entry canon) (foldl (add_entry canon) (Map.empty, []) baseVals) rtVals)"

definition featureFlags :: "string list \<Rightarrow> string list \<Rightarrow> string list" where
  "featureFlags en dis =
     (if en \<noteq> [] then [enable_flag @ join_byte CHR '','' en] else []) @
     (if dis \<noteq> [] then [disable_flag @ join_byte CHR '','' dis] else [])"

definition extFlags :: "buckets \<Rightarrow> buckets \<Rightarrow> string list \<Rightarrow> string list" where
  "extFlags base rt mergedLoad =
     (if b_disableAll rt \<noteq> [] then [b_disableAll rt]
      else if b_disableAll base \<noteq> [] \<and> b_load rt = [] \<and> b_except rt = [] then [b_disableAll base]
      else if mergedLoad \<noteq> [] then [load_flag @ join_byte CHR '','' mergedLoad]
      else [])"

definition MergeFlags :: "string list \<Rightarrow> string list \<Rightarrow> string list" where
  "MergeFlags baseTokens runtimeTokens =
     (let base = parseTokenStream baseTokens;
          rt = parseTokenStream runtimeTokens;
          mergedLoad = go_union (go_union (go_union (b_load base) (b_load rt)) (b_except base))
                         (b_except rt);
          mergedEnableFeat =
            mergeFeatureEntries (b_enable base) (b_enable rt) canonicalEnableFeatureName;
          mergedDisableFeat =
            mergeFeatureEntries (b_disable base) (b_disable rt) canonicalDisableFeatureName;
          combined = b_nonExt base @ b_nonExt rt @ featureFlags mergedEnableFeat mergedDisableFeat
                       @ extFlags base rt mergedLoad
      in union_loop {} [] combined)"

definition MergeFlagsWithRuntimeTokens :: "string \<Rightarrow> string list \<Rightarrow> string list" where
  "MergeFlagsWithRuntimeTokens baseFlags runtimeTokens = MergeFlags (parseFlags baseFlags) runtimeTokens"

text \<open>\<open>MergeExtensionPath\<close>: the path is appended to every \<open>--load-extension\<close> token, or added.\<close>

definition MergeExtensionPath :: "string list \<Rightarrow> string \<Rightarrow> string list" where
  "MergeExtensionPath args extPath =
     (let result = map (\<lambda>arg. if has_prefix load_flag arg
                              then load_flag @ trim_prefix load_flag arg @ '','' @ extPath
                              else arg) args;
          foundLoad = list_ex (has_prefix load_flag) args
      in if foundLoad then result else result @ [load_flag @ extPath])"

definition kernel_flag :: string where "kernel_flag = ''--kernel-disable-features=''"

declare kernel_flag_def [go_eval]

text \<open>The three slices of \<open>TranslateKernelDisableFeatures\<close>: kernel values, disable values, rest.\<close>

definition translate_token ::
  "string list \<times> string list \<times> string list \<Rightarrow> string \<Rightarrow> string list \<times> string list \<times> string list"
where
  "translate_token = (\<lambda>(kernelVals, disableVals, rest) tok.
     if has_prefix kernel_flag tok then
       (appendCSVInto kernelVals (trim_prefix kernel_flag tok), disableVals, rest)
     else if has_prefix disable_flag tok then
       (kernelVals, appendCSVInto disableVals (trim_prefix disable_flag tok), rest)
     else (kernelVals, disableVals, rest @ [tok]))"

definition TranslateKernelDisableFeatures :: "string list \<Rightarrow> string list" where
  "TranslateKernelDisableFeatures tokens =
     (case foldl translate_token ([], [], []) tokens of
        (kernelVals, disableVals, rest) \<Rightarrow>
          if kernelVals = [] then tokens
          else rest @ [disable_flag @ join_byte CHR '',''
                         (mergeFeatureEntries disableVals kernelVals canonicalDisableFeatureName)])"

section \<open>The flag file\<close>

datatype flag_error = FlagIo | FlagDecode | FlagsMissing

record FlagsFile =
  ff_flags :: "string list option"

definition flags_file_fields :: "FlagsFile struct_fields" where
  "flags_file_fields = [(''flags'', slice_field string_elem ff_flags_update)]"

definition normalize_tokens :: "string list \<Rightarrow> string list" where
  "normalize_tokens toks = filter (\<lambda>t. t \<noteq> []) (map trim_space toks)"

text \<open>\<open>ReadOptionalFlagFile\<close>: \<open>Inr None\<close> is the nil slice with a nil error.\<close>

definition ReadOptionalFlagFile :: "jfile \<Rightarrow> flag_error + string list option" where
  "ReadOptionalFlagFile f =
     (case f of
        Missing \<Rightarrow> Inr None
      | Unreadable \<Rightarrow> Inl FlagIo
      | Blank \<Rightarrow> Inr None
      | BadText \<Rightarrow> Inl FlagDecode
      | JsonText v \<Rightarrow>
          (case decode_struct flags_file_fields v \<lparr>ff_flags = None\<rparr> of
             None \<Rightarrow> Inl FlagDecode
           | Some jf \<Rightarrow> (case ff_flags jf of
                           None \<Rightarrow> Inl FlagsMissing
                         | Some toks \<Rightarrow> Inr (Some (normalize_tokens toks)))))"

text \<open>\<open>WriteFlagFile\<close>; \<open>writable\<close> is whether \<open>os.WriteFile\<close> succeeds.\<close>

definition WriteFlagFile :: "bool \<Rightarrow> string list \<Rightarrow> flag_error + jfile" where
  "WriteFlagFile writable tokens =
     (let data = JObject [(''flags'', JArray (map (\<lambda>t. JString (to_valid_utf8 t))
                                                (normalize_tokens tokens)))]
      in if writable then Inr (JsonText data) else Inl FlagIo)"

section \<open>The list functions against reference definitions\<close>

lemma union_loop_eq: "union_loop seen out vs = out @ firsts seen (filter (\<lambda>v. v \<noteq> []) vs)"
  by (induction seen out vs rule: union_loop.induct) auto

lemma firsts_firsts_append: "firsts seen (firsts seen xs @ ys) = firsts seen (xs @ ys)"
proof -
  have "firsts seen (firsts seen xs) = firsts seen xs"
    by (rule firsts_id) (auto simp: distinct_firsts set_firsts)
  then show ?thesis by (simp add: firsts_append set_firsts Un_commute)
qed

lemma go_union_eq: "go_union xs ys = firsts {} (filter (\<lambda>v. v \<noteq> []) (xs @ ys))"
  by (simp add: go_union_def union_loop_eq)

lemma go_union_nested: "go_union (go_union xs ys) zs = firsts {} (filter (\<lambda>v. v \<noteq> []) (xs @ ys @ zs))"
proof -
  have "filter (\<lambda>v. v \<noteq> []) (go_union xs ys) = go_union xs ys"
    by (simp add: go_union_eq firsts_filter [symmetric])
  then have "go_union (go_union xs ys) zs
      = firsts {} (firsts {} (filter (\<lambda>v. v \<noteq> []) (xs @ ys)) @ filter (\<lambda>v. v \<noteq> []) zs)"
    by (simp add: go_union_eq[of "go_union xs ys"]) (simp add: go_union_eq)
  then show ?thesis by (simp add: firsts_firsts_append)
qed

lemma go_union4:
  "go_union (go_union (go_union a b) c) d = firsts {} (filter (\<lambda>v. v \<noteq> []) (a @ b @ c @ d))"
proof -
  have "go_union (go_union a b) c = go_union [] (a @ b @ c)"
    by (simp add: go_union_nested) (simp add: go_union_eq)
  then show ?thesis by (simp add: go_union_nested)
qed

text \<open>
  The reference for \<open>mergeFeatureEntries\<close>: names in order of first appearance, each with the
  last entry that carries it.
\<close>

definition latest :: "(string \<Rightarrow> string) \<Rightarrow> string list \<Rightarrow> string \<Rightarrow> string" where
  "latest canon vs n = last (filter (\<lambda>v. canon v = n) vs)"

definition merged_ref :: "(string \<Rightarrow> string) \<Rightarrow> string list \<Rightarrow> string list" where
  "merged_ref canon vs = map (latest canon vs) (firsts {} (map canon vs))"

lemma canon_latest: "n \<in> canon ` set vs \<Longrightarrow> canon (latest canon vs n) = n"
proof -
  assume "n \<in> canon ` set vs"
  then have "filter (\<lambda>v. canon v = n) vs \<noteq> []" by (auto simp: filter_empty_conv)
  then have "latest canon vs n \<in> set (filter (\<lambda>v. canon v = n) vs)"
    unfolding latest_def by (rule last_in_set)
  then show ?thesis by simp
qed

lemma latest_in: "n \<in> canon ` set vs \<Longrightarrow> latest canon vs n \<in> set vs"
proof -
  assume "n \<in> canon ` set vs"
  then have "filter (\<lambda>v. canon v = n) vs \<noteq> []" by (auto simp: filter_empty_conv)
  then have "latest canon vs n \<in> set (filter (\<lambda>v. canon v = n) vs)"
    unfolding latest_def by (rule last_in_set)
  then show ?thesis by simp
qed

lemma map_canon_merged_ref: "map canon (merged_ref canon vs) = firsts {} (map canon vs)"
proof -
  have "map (canon \<circ> latest canon vs) (firsts {} (map canon vs)) = firsts {} (map canon vs)"
    by (rule map_idI) (auto simp: set_firsts canon_latest)
  then show ?thesis by (simp add: merged_ref_def)
qed

lemma distinct_canon_merged_ref: "distinct (map canon (merged_ref canon vs))"
  by (simp add: map_canon_merged_ref distinct_firsts)

lemma set_merged_ref: "set (merged_ref canon vs) \<subseteq> set vs"
  unfolding merged_ref_def by (auto simp: set_firsts intro: latest_in)

lemma merged_ref_id: "distinct (map canon vs) \<Longrightarrow> merged_ref canon vs = vs"
proof -
  assume d: "distinct (map canon vs)"
  have "latest canon vs (canon v) = v" if "v \<in> set vs" for v
  proof -
    have inj: "inj_on canon (set vs)" and "distinct vs" using d by (auto simp: distinct_map)
    from inj that have "canon (latest canon vs (canon v)) = canon v" "latest canon vs (canon v) \<in> set vs"
      by (simp_all add: canon_latest latest_in)
    with inj that show ?thesis by (meson inj_onD)
  qed
  then have "map (latest canon vs \<circ> canon) vs = vs" by (intro map_idI) simp
  then show ?thesis using d by (simp add: merged_ref_def firsts_id)
qed

definition index_ok :: "(string \<Rightarrow> string) \<Rightarrow> (string \<rightharpoonup> nat) \<Rightarrow> string list \<Rightarrow> bool" where
  "index_ok canon idx out \<longleftrightarrow>
     (\<forall>n pos. idx n = Some pos \<longleftrightarrow> pos < length out \<and> canon (out ! pos) = n)"

lemma add_entry_ref:
  assumes ok: "index_ok canon idx (merged_ref canon vs)"
  shows "\<exists>idx'. add_entry canon (idx, merged_ref canon vs) v = (idx', merged_ref canon (vs @ [v]))
           \<and> index_ok canon idx' (merged_ref canon (vs @ [v]))"
proof (cases "idx (canon v)")
  case None
  have "canon v \<notin> set (map canon (merged_ref canon vs))"
  proof
    assume "canon v \<in> set (map canon (merged_ref canon vs))"
    then obtain i where "i < length (merged_ref canon vs)" "canon (merged_ref canon vs ! i) = canon v"
      by (auto simp: in_set_conv_nth)
    then have "idx (canon v) = Some i" using ok by (simp add: index_ok_def)
    with None show False by simp
  qed
  then have fresh: "canon v \<notin> canon ` set vs" by (simp add: map_canon_merged_ref set_firsts)
  have "latest canon (vs @ [v]) n = latest canon vs n" if "n \<in> canon ` set vs" for n
    using that fresh by (auto simp: latest_def)
  moreover have "latest canon (vs @ [v]) (canon v) = v" by (simp add: latest_def)
  ultimately have new: "merged_ref canon (vs @ [v]) = merged_ref canon vs @ [v]"
    using fresh by (simp add: merged_ref_def firsts_append set_firsts)
  let ?idx = "idx(canon v \<mapsto> length (merged_ref canon vs))"
  have "index_ok canon ?idx (merged_ref canon vs @ [v])"
  proof -
    have "canon (merged_ref canon vs ! i) \<noteq> canon v" if "i < length (merged_ref canon vs)" for i
      using that ok None by (metis index_ok_def option.distinct(1))
    then show ?thesis using ok unfolding index_ok_def by (auto simp: nth_append less_Suc_eq)
  qed
  with None new show ?thesis by (simp add: add_entry_def)
next
  case (Some pos)
  let ?out = "merged_ref canon vs"
  let ?names = "firsts {} (map canon vs)"
  from Some ok have pos: "pos < length ?out" "canon (?out ! pos) = canon v"
    by (auto simp: index_ok_def)
  have len: "length ?out = length ?names" by (simp add: merged_ref_def)
  have nth: "?names ! i = canon (?out ! i)" if "i < length ?out" for i
    using that map_canon_merged_ref[of canon vs] by (metis nth_map)
  have "canon v \<in> set ?names" using pos len nth by (metis nth_mem)
  then have old: "canon v \<in> canon ` set vs" by (simp add: set_firsts)
  have "latest canon (vs @ [v]) n = (if n = canon v then v else latest canon vs n)" for n
    by (auto simp: latest_def)
  then have "merged_ref canon (vs @ [v]) =
      map (\<lambda>n. if n = canon v then v else latest canon vs n) ?names"
    using old by (simp add: merged_ref_def firsts_append)
  also have "\<dots> = ?out[pos := v]"
  proof (rule nth_equalityI)
    show "length (map (\<lambda>n. if n = canon v then v else latest canon vs n) ?names)
        = length (?out[pos := v])" by (simp add: len)
    fix i assume "i < length (map (\<lambda>n. if n = canon v then v else latest canon vs n) ?names)"
    then have i: "i < length ?names" by simp
    have "?names ! i = canon v \<longleftrightarrow> i = pos"
      using i len pos nth distinct_firsts[of "{}" "map canon vs"]
      by (metis nth_eq_iff_index_eq)
    moreover have "?out ! i = latest canon vs (?names ! i)" using i by (simp add: merged_ref_def)
    ultimately show "map (\<lambda>n. if n = canon v then v else latest canon vs n) ?names ! i
        = ?out[pos := v] ! i" using i len pos by (simp add: nth_list_update)
  qed
  finally have new: "merged_ref canon (vs @ [v]) = ?out[pos := v]" .
  have "index_ok canon idx (?out[pos := v])"
    using ok pos unfolding index_ok_def by (auto simp: nth_list_update)
  with Some new show ?thesis by (simp add: add_entry_def)
qed

lemma add_entries_ref:
  "\<exists>idx. foldl (add_entry canon) (Map.empty, []) vs = (idx, merged_ref canon vs)
         \<and> index_ok canon idx (merged_ref canon vs)"
proof (induction vs rule: rev_induct)
  case Nil
  show ?case by (simp add: merged_ref_def index_ok_def)
next
  case (snoc v vs)
  then show ?case using add_entry_ref by fastforce
qed

lemma mergeFeatureEntries_ref: "mergeFeatureEntries bs rs canon = merged_ref canon (bs @ rs)"
  using add_entries_ref[of canon "bs @ rs"] by (auto simp: mergeFeatureEntries_def)

section \<open>Comma-separated values\<close>

text \<open>What \<open>appendCSVInto\<close> keeps of a value, and the shape of what it keeps.\<close>

definition csv_items :: "string \<Rightarrow> string list" where
  "csv_items csv = filter (\<lambda>p. p \<noteq> []) (map trim_space (split_byte CHR '','' csv))"

definition clean_item :: "string \<Rightarrow> bool" where
  "clean_item p \<longleftrightarrow> p \<noteq> [] \<and> CHR '','' \<notin> set p \<and> trim_space p = p"

lemma appendCSVInto_items: "appendCSVInto dst csv = dst @ csv_items csv"
  by (simp add: appendCSVInto_def csv_items_def)

lemma csv_items_clean: "p \<in> set (csv_items csv) \<Longrightarrow> clean_item p"
  unfolding csv_items_def clean_item_def
  by (auto simp: trim_space_idem dest: split_byte_free subsetD[OF set_trim_space])

lemma csv_items_join:
  assumes "\<And>p. p \<in> set ws \<Longrightarrow> clean_item p"
  shows "csv_items (join_byte CHR '','' ws) = ws"
proof (cases "ws = []")
  case True
  have "trim_space [] = []" by (simp add: trim_space_def trim_by.simps)
  then show ?thesis using True by (simp add: csv_items_def)
next
  case False
  then have "split_byte CHR '','' (join_byte CHR '','' ws) = ws"
    using assms by (intro split_join_byte) (auto simp: clean_item_def)
  moreover have "map trim_space ws = ws" by (rule map_idI) (use assms in \<open>auto simp: clean_item_def\<close>)
  moreover have "filter (\<lambda>p. p \<noteq> []) ws = ws"
    by (rule filter_eq_all) (use assms in \<open>auto simp: clean_item_def\<close>)
  ultimately show ?thesis by (simp add: csv_items_def)
qed

section \<open>What a stream parses to\<close>

text \<open>Tokens that are neither a feature list nor extension related.\<close>

definition plain :: "string \<Rightarrow> bool" where
  "plain tok \<longleftrightarrow> \<not> has_prefix load_flag tok \<and> \<not> has_prefix except_flag tok \<and>
     \<not> has_prefix enable_flag tok \<and> \<not> has_prefix disable_flag tok \<and> tok \<noteq> disable_all_flag"

definition buckets_ok :: "buckets \<Rightarrow> bool" where
  "buckets_ok b \<longleftrightarrow>
     list_all clean_item (b_load b) \<and> list_all clean_item (b_except b) \<and>
     list_all clean_item (b_enable b) \<and> list_all clean_item (b_disable b) \<and>
     list_all plain (b_nonExt b) \<and> (b_disableAll b = [] \<or> b_disableAll b = disable_all_flag)"

lemma parse_token_ok [inv_step]: "buckets_ok b \<Longrightarrow> buckets_ok (parse_token b tok)"
proof -
  assume ok: "buckets_ok b"
  have "list_all clean_item (csv_items v)" for v
    by (simp add: list_all_iff csv_items_clean)
  then show ?thesis using ok
    unfolding parse_token_def
    by (simp add: buckets_ok_def appendCSVInto_items plain_def split: if_split)
qed

lemma parseTokenStream_ok: "buckets_ok (parseTokenStream toks)"
  unfolding parseTokenStream_def
  by (rule foldl_inv[where I = buckets_ok]) (auto simp: inv_step, simp add: buckets_ok_def no_buckets_def)

lemma parse_Nil [simp]: "parseTokenStream [] = no_buckets"
  by (simp add: parseTokenStream_def)

lemma foldl_plain:
  "list_all plain toks \<Longrightarrow>
     foldl parse_token b toks = b\<lparr>b_nonExt := b_nonExt b @ toks\<rparr>"
  by (induction toks arbitrary: b) (auto simp: parse_token_def plain_def)

lemma parse_all_disable:
  "b_disableAll (foldl parse_token b toks) =
     (if disable_all_flag \<in> set toks then disable_all_flag else b_disableAll b)"
proof (induction toks arbitrary: b)
  case Nil
  then show ?case by simp
next
  case (Cons tok toks)
  have "b_disableAll (parse_token b tok) = (if tok = disable_all_flag then tok else b_disableAll b)"
    by (auto simp: parse_token_def flag_defs)
  then show ?case by (auto simp: Cons)
qed

lemma parse_special:
  "parse_token b (load_flag @ v) = b\<lparr>b_load := b_load b @ csv_items v\<rparr>"
  "parse_token b (enable_flag @ v) = b\<lparr>b_enable := b_enable b @ csv_items v\<rparr>"
  "parse_token b (disable_flag @ v) = b\<lparr>b_disable := b_disable b @ csv_items v\<rparr>"
  "parse_token b disable_all_flag = b\<lparr>b_disableAll := disable_all_flag\<rparr>"
  by (simp_all add: parse_token_def flag_defs appendCSVInto_items trim_prefix_def)

section \<open>The merged token list\<close>

text \<open>The parts of \<open>MergeFlags\<close> named, so that the theorems can speak of them.\<close>

definition extension_paths :: "string list \<Rightarrow> string list \<Rightarrow> string list" where
  "extension_paths bs rs =
     (let b = parseTokenStream bs; r = parseTokenStream rs
      in firsts {} (b_load b @ b_load r @ b_except b @ b_except r))"

definition enabled_entries :: "string list \<Rightarrow> string list \<Rightarrow> string list" where
  "enabled_entries bs rs = merged_ref canonicalEnableFeatureName
     (b_enable (parseTokenStream bs) @ b_enable (parseTokenStream rs))"

definition disabled_entries :: "string list \<Rightarrow> string list \<Rightarrow> string list" where
  "disabled_entries bs rs = merged_ref canonicalDisableFeatureName
     (b_disable (parseTokenStream bs) @ b_disable (parseTokenStream rs))"

definition plain_tokens :: "string list \<Rightarrow> string list \<Rightarrow> string list" where
  "plain_tokens bs rs =
     firsts {} (filter (\<lambda>t. t \<noteq> []) (b_nonExt (parseTokenStream bs) @ b_nonExt (parseTokenStream rs)))"

definition emitted_ext :: "string list \<Rightarrow> string list \<Rightarrow> string list" where
  "emitted_ext bs rs = extFlags (parseTokenStream bs) (parseTokenStream rs) (extension_paths bs rs)"

lemma clean_entries:
  "list_all clean_item (extension_paths bs rs)"
  "list_all clean_item (enabled_entries bs rs)"
  "list_all clean_item (disabled_entries bs rs)"
  using parseTokenStream_ok[of bs] parseTokenStream_ok[of rs]
    set_merged_ref[of canonicalEnableFeatureName
      "b_enable (parseTokenStream bs) @ b_enable (parseTokenStream rs)"]
    set_merged_ref[of canonicalDisableFeatureName
      "b_disable (parseTokenStream bs) @ b_disable (parseTokenStream rs)"]
  by (auto simp: extension_paths_def enabled_entries_def disabled_entries_def buckets_ok_def
      list_all_iff Let_def set_firsts)

lemma list_all_plain_tokens: "list_all plain (plain_tokens bs rs)"
  using parseTokenStream_ok[of bs] parseTokenStream_ok[of rs]
  by (auto simp: plain_tokens_def buckets_ok_def list_all_iff set_firsts)

lemma extFlags_cases:
  "emitted_ext bs rs \<in> {[], [disable_all_flag]} \<union> {[load_flag @ v] | v. True}"
  using parseTokenStream_ok[of bs] parseTokenStream_ok[of rs]
  by (auto simp: emitted_ext_def extFlags_def buckets_ok_def)

lemma special_tokens_tail:
  assumes "t \<in> set (featureFlags en dis @ emitted_ext bs rs)"
  shows "t \<noteq> [] \<and> \<not> plain t"
proof -
  from assms have "t \<in> set (featureFlags en dis) \<or> t \<in> set (emitted_ext bs rs)" by simp
  then have "(\<exists>v. t = enable_flag @ v) \<or> (\<exists>v. t = disable_flag @ v) \<or>
      (\<exists>v. t = load_flag @ v) \<or> t = disable_all_flag"
    using extFlags_cases[of bs rs] by (auto simp: featureFlags_def)
  moreover have "enable_flag \<noteq> []" "disable_flag \<noteq> []" "load_flag \<noteq> []" "disable_all_flag \<noteq> []"
    by (simp_all add: flag_defs)
  ultimately show ?thesis by (auto simp: plain_def)
qed

lemma distinct_tail: "distinct (featureFlags en dis @ emitted_ext bs rs)"
  using extFlags_cases[of bs rs] by (auto simp: featureFlags_def flag_defs)

text \<open>The output is the plain tokens, then the feature lists, then the extension token.\<close>

lemma MergeFlags_shape:
  "MergeFlags bs rs = plain_tokens bs rs
     @ featureFlags (enabled_entries bs rs) (disabled_entries bs rs) @ emitted_ext bs rs"
proof -
  let ?tail = "featureFlags (enabled_entries bs rs) (disabled_entries bs rs) @ emitted_ext bs rs"
  let ?b = "parseTokenStream bs" and ?r = "parseTokenStream rs"
  have "filter (\<lambda>v. v \<noteq> []) (b_load ?b @ b_load ?r @ b_except ?b @ b_except ?r)
      = b_load ?b @ b_load ?r @ b_except ?b @ b_except ?r"
    using parseTokenStream_ok[of bs] parseTokenStream_ok[of rs]
    by (intro filter_eq_all) (auto simp: buckets_ok_def list_all_iff clean_item_def)
  then have load: "go_union (go_union (go_union (b_load ?b) (b_load ?r)) (b_except ?b)) (b_except ?r)
      = extension_paths bs rs"
    by (simp only: go_union4) (simp only: extension_paths_def Let_def)
  have "filter (\<lambda>v. v \<noteq> []) ?tail = ?tail" by (rule filter_eq_all) (metis special_tokens_tail)
  then have "MergeFlags bs rs = firsts {} (filter (\<lambda>t. t \<noteq> []) (b_nonExt ?b @ b_nonExt ?r) @ ?tail)"
    unfolding MergeFlags_def Let_def load mergeFeatureEntries_ref union_loop_eq
    by (simp add: enabled_entries_def disabled_entries_def emitted_ext_def)
  also have "\<dots> = plain_tokens bs rs @ ?tail"
  proof -
    have "\<And>t. t \<in> set (plain_tokens bs rs) \<Longrightarrow> t \<notin> set ?tail"
    proof -
      fix t assume t: "t \<in> set (plain_tokens bs rs)"
      then have "plain t" using list_all_plain_tokens by (metis list_all_iff)
      then show "t \<notin> set ?tail" using special_tokens_tail by metis
    qed
    then have "set ?tail \<inter> set (filter (\<lambda>t. t \<noteq> []) (b_nonExt ?b @ b_nonExt ?r)) = {}"
      by (auto simp: plain_tokens_def set_firsts)
    then have "firsts (set (filter (\<lambda>t. t \<noteq> []) (b_nonExt ?b @ b_nonExt ?r))) ?tail = ?tail"
      by (intro firsts_id distinct_tail)
    then show ?thesis
      unfolding firsts_append[of "{}" _ ?tail] by (simp add: plain_tokens_def)
  qed
  finally show ?thesis .
qed

lemma parse_merged:
  "parseTokenStream (MergeFlags bs rs) =
     \<lparr>b_load = (case emitted_ext bs rs of [] \<Rightarrow> [] | t # _ \<Rightarrow>
                  (if t = disable_all_flag then [] else extension_paths bs rs)),
      b_except = [], b_enable = enabled_entries bs rs, b_disable = disabled_entries bs rs,
      b_disableAll = (if emitted_ext bs rs = [disable_all_flag] then disable_all_flag else []),
      b_nonExt = plain_tokens bs rs\<rparr>"
  (is "_ = ?B")
proof -
  let ?en = "enabled_entries bs rs" and ?dis = "disabled_entries bs rs"
  have items: "csv_items (join_byte CHR '','' ?en) = ?en" "csv_items (join_byte CHR '','' ?dis) = ?dis"
    "csv_items (join_byte CHR '','' (extension_paths bs rs)) = extension_paths bs rs"
    using clean_entries[of bs rs] by (auto intro!: csv_items_join simp: list_all_iff)
  have "parseTokenStream (MergeFlags bs rs) =
      foldl parse_token (foldl parse_token (no_buckets\<lparr>b_nonExt := plain_tokens bs rs\<rparr>)
        (featureFlags ?en ?dis)) (emitted_ext bs rs)"
    using foldl_plain[OF list_all_plain_tokens, of no_buckets bs rs]
    by (simp add: parseTokenStream_def MergeFlags_shape no_buckets_def)
  also have "foldl parse_token (no_buckets\<lparr>b_nonExt := plain_tokens bs rs\<rparr>) (featureFlags ?en ?dis)
      = no_buckets\<lparr>b_nonExt := plain_tokens bs rs, b_enable := ?en, b_disable := ?dis\<rparr>"
    by (auto simp: featureFlags_def parse_special items no_buckets_def)
  also have "foldl parse_token \<dots> (emitted_ext bs rs) = ?B"
  proof -
    have "emitted_ext bs rs = [] \<or> emitted_ext bs rs = [disable_all_flag] \<or>
        emitted_ext bs rs = [load_flag @ join_byte CHR '','' (extension_paths bs rs)]"
      using parseTokenStream_ok[of bs] parseTokenStream_ok[of rs]
      by (auto simp: emitted_ext_def extFlags_def buckets_ok_def)
    moreover have "load_flag @ v \<noteq> disable_all_flag" for v by (simp add: flag_defs)
    ultimately show ?thesis by (auto simp: parse_special items no_buckets_def)
  qed
  finally show ?thesis .
qed

lemma plain_tokens_again: "plain_tokens (MergeFlags bs rs) [] = plain_tokens bs rs"
proof -
  have "filter (\<lambda>t. t \<noteq> []) (plain_tokens bs rs) = plain_tokens bs rs"
    by (rule filter_eq_all) (auto simp: plain_tokens_def set_firsts)
  then have "plain_tokens (MergeFlags bs rs) [] = firsts {} (plain_tokens bs rs)"
    by (simp add: plain_tokens_def[of "MergeFlags bs rs"] parse_merged no_buckets_def)
  also have "\<dots> = plain_tokens bs rs"
    by (rule firsts_id) (auto simp: plain_tokens_def distinct_firsts)
  finally show ?thesis .
qed

lemma entries_again:
  "enabled_entries (MergeFlags bs rs) [] = enabled_entries bs rs"
  "disabled_entries (MergeFlags bs rs) [] = disabled_entries bs rs"
  unfolding enabled_entries_def[of "MergeFlags bs rs"] disabled_entries_def[of "MergeFlags bs rs"]
  by (simp_all add: parse_merged no_buckets_def)
    (auto intro!: merged_ref_id simp: enabled_entries_def disabled_entries_def distinct_canon_merged_ref)

lemma emitted_ext_again: "emitted_ext (MergeFlags bs rs) [] = emitted_ext bs rs"
proof -
  have dedup: "firsts {} (extension_paths bs rs) = extension_paths bs rs"
    by (rule firsts_id) (auto simp: extension_paths_def Let_def distinct_firsts)
  have cases: "emitted_ext bs rs = [] \<or> emitted_ext bs rs = [disable_all_flag] \<or>
      (extension_paths bs rs \<noteq> [] \<and>
       emitted_ext bs rs = [load_flag @ join_byte CHR '','' (extension_paths bs rs)])"
    using parseTokenStream_ok[of bs] parseTokenStream_ok[of rs]
    by (auto simp: emitted_ext_def extFlags_def buckets_ok_def)
  have "load_flag @ v \<noteq> disable_all_flag" "disable_all_flag \<noteq> []" for v by (simp_all add: flag_defs)
  then show ?thesis using cases
    by (auto simp: emitted_ext_def[of "MergeFlags bs rs"] extension_paths_def[of "MergeFlags bs rs"]
        extFlags_def parse_merged no_buckets_def dedup)
qed

text \<open>The extension-related tokens of a token list.\<close>

definition ext_token :: "string \<Rightarrow> bool" where
  "ext_token t \<longleftrightarrow> has_prefix load_flag t \<or> has_prefix except_flag t \<or> t = disable_all_flag"

lemma ext_tokens_of_merge: "filter ext_token (MergeFlags bs rs) = emitted_ext bs rs"
proof -
  have "filter ext_token (plain_tokens bs rs) = []"
    using list_all_plain_tokens[of bs rs]
    by (intro filter_eq_none) (auto simp: list_all_iff plain_def ext_token_def)
  moreover have "filter ext_token (featureFlags en dis) = []" for en dis
    by (auto simp: featureFlags_def ext_token_def flag_defs)
  moreover have "filter ext_token (emitted_ext bs rs) = emitted_ext bs rs"
    using extFlags_cases[of bs rs] by (auto simp: ext_token_def)
  ultimately show ?thesis by (simp add: MergeFlags_shape)
qed

lemma disableAll_iff:
  "b_disableAll (parseTokenStream ts) = (if disable_all_flag \<in> set ts then disable_all_flag else [])"
  by (simp add: parseTokenStream_def parse_all_disable no_buckets_def)

section \<open>Properties\<close>

text \<open>
  C1. Merging feature-list entries gives one entry per canonical name: the names in order of
  first appearance over base then runtime, each with the last entry that carries it, so a runtime
  entry replaces a base entry and no name is emitted twice.
\<close>

theorem feature_merge_last_wins:
  "mergeFeatureEntries bs rs canon =
     map (\<lambda>n. last (filter (\<lambda>v. canon v = n) (bs @ rs))) (firsts {} (map canon (bs @ rs))) \<and>
   distinct (map canon (mergeFeatureEntries bs rs canon))"
  using distinct_canon_merged_ref[of canon "bs @ rs"]
  by (simp add: mergeFeatureEntries_ref) (simp add: merged_ref_def latest_def[abs_def])

text \<open>
  The extension-related tokens of the merged list are decided by the three documented rules
  and nothing else: a runtime \<open>--disable-extensions\<close> is the only one; else a base
  \<open>--disable-extensions\<close> stays if the runtime stream names no extension path; else one
  \<open>--load-extension\<close> carries every path once. In particular \<open>--disable-extensions-except\<close>
  is never emitted.
\<close>

theorem MergeFlags_extension_rules:
  "filter ext_token (MergeFlags bs rs) =
     (let b = parseTokenStream bs; r = parseTokenStream rs;
          paths = firsts {} (b_load b @ b_load r @ b_except b @ b_except r)
      in if disable_all_flag \<in> set rs then [disable_all_flag]
         else if disable_all_flag \<in> set bs \<and> b_load r = [] \<and> b_except r = [] then [disable_all_flag]
         else if paths \<noteq> [] then [load_flag @ join_byte CHR '','' paths]
         else [])"
  unfolding ext_tokens_of_merge
  by (simp add: emitted_ext_def extFlags_def extension_paths_def disableAll_iff Let_def flag_defs)

text \<open>
  The merged list is a normal form: it holds no token twice, and merging it again with an
  empty runtime stream gives it back, so flags can pass through the merge at every restart.
\<close>

theorem MergeFlags_normal_form:
  "distinct (MergeFlags bs rs) \<and> MergeFlags (MergeFlags bs rs) [] = MergeFlags bs rs"
proof
  show "distinct (MergeFlags bs rs)"
    unfolding MergeFlags_def Let_def union_loop_eq by (simp add: distinct_firsts)
  show "MergeFlags (MergeFlags bs rs) [] = MergeFlags bs rs"
    by (simp add: MergeFlags_shape[of "MergeFlags bs rs"] plain_tokens_again entries_again
        emitted_ext_again) (simp add: MergeFlags_shape)
qed

section \<open>Kernel-namespaced feature disabling\<close>

definition kernel_values :: "string list \<Rightarrow> string list" where
  "kernel_values toks =
     concat (map (\<lambda>t. csv_items (trim_prefix kernel_flag t)) (filter (has_prefix kernel_flag) toks))"

definition disable_values :: "string list \<Rightarrow> string list" where
  "disable_values toks =
     concat (map (\<lambda>t. csv_items (trim_prefix disable_flag t)) (filter (has_prefix disable_flag) toks))"

lemma kernel_not_disable: "has_prefix kernel_flag t \<Longrightarrow> \<not> has_prefix disable_flag t"
  by (auto simp: kernel_flag_def disable_flag_def elim!: has_prefixE)

lemma translate_fold:
  "foldl translate_token (ks, ds, rest) toks =
     (ks @ kernel_values toks, ds @ disable_values toks,
      rest @ filter (\<lambda>t. \<not> has_prefix kernel_flag t \<and> \<not> has_prefix disable_flag t) toks)"
proof (induction toks arbitrary: ks ds rest)
  case Nil
  then show ?case by (simp add: kernel_values_def disable_values_def)
next
  case (Cons t toks)
  then show ?case
    using kernel_not_disable[of t]
    by (auto simp: translate_token_def appendCSVInto_items kernel_values_def disable_values_def)
qed

text \<open>
  Translation folds the kernel entries into one \<open>--disable-features\<close> token, a kernel entry
  replacing a disabled entry of the same feature; the other tokens keep their order, the result
  holds no kernel entry any more, and translating it again changes nothing.
\<close>

theorem TranslateKernel_spec:
  "TranslateKernelDisableFeatures toks =
     (if kernel_values toks = [] then toks
      else filter (\<lambda>t. \<not> has_prefix kernel_flag t \<and> \<not> has_prefix disable_flag t) toks
           @ [disable_flag @ join_byte CHR '',''
                (merged_ref canonicalDisableFeatureName (disable_values toks @ kernel_values toks))]) \<and>
   kernel_values (TranslateKernelDisableFeatures toks) = [] \<and>
   TranslateKernelDisableFeatures (TranslateKernelDisableFeatures toks)
     = TranslateKernelDisableFeatures toks"
proof -
  have spec: "TranslateKernelDisableFeatures ts =
     (if kernel_values ts = [] then ts
      else filter (\<lambda>t. \<not> has_prefix kernel_flag t \<and> \<not> has_prefix disable_flag t) ts
           @ [disable_flag @ join_byte CHR '',''
                (merged_ref canonicalDisableFeatureName (disable_values ts @ kernel_values ts))])" for ts
    by (simp add: TranslateKernelDisableFeatures_def translate_fold mergeFeatureEntries_ref)
  have "\<not> has_prefix kernel_flag (disable_flag @ v)" for v
    using kernel_not_disable has_prefix_append by metis
  then have none: "kernel_values (TranslateKernelDisableFeatures toks) = []"
    by (auto simp: spec) (auto simp: kernel_values_def filter_eq_none)
  show ?thesis using spec none spec[of "TranslateKernelDisableFeatures toks"] by simp
qed

text \<open>
  C2. A flag file that was written reads back as the tokens written, trimmed and without the
  empty ones, provided they are valid UTF-8.
\<close>

theorem flag_file_roundtrip:
  assumes "WriteFlagFile True toks = Inr f"
    and "\<forall>t \<in> set (normalize_tokens toks). to_valid_utf8 t = t"
  shows "ReadOptionalFlagFile f = Inr (Some (normalize_tokens toks))"
proof -
  let ?ws = "normalize_tokens toks"
  have f: "f = JsonText (JObject [(''flags'', JArray (map JString ?ws))])"
    using assms by (auto simp: WriteFlagFile_def Let_def)
  have idem: "normalize_tokens ?ws = ?ws"
    by (simp add: normalize_tokens_def filter_map o_def trim_space_idem)
  have "map_all string_elem (map JString ?ws) = Some (map (\<lambda>t. t) ?ws)"
    by (rule map_all_map) simp
  then show ?thesis
    by (simp add: f ReadOptionalFlagFile_def flags_file_fields_def field_defs idem)
qed

theorem flag_file_roundtrip_witness:
  "ReadOptionalFlagFile (JsonText (JObject [(''flags'', JArray [JString ''--a''])])) =
     Inr (Some [''--a''])"
proof -
  have t: "normalize_tokens ['' --a '', '' ''] = [''--a'']" by code_simp
  have v: "to_valid_utf8 ''--a'' = ''--a''" by code_simp
  have w: "WriteFlagFile True ['' --a '', '' ''] =
      Inr (JsonText (JObject [(''flags'', JArray [JString ''--a''])]))"
    by (simp add: WriteFlagFile_def t v)
  show ?thesis using flag_file_roundtrip[OF w] by (simp add: t v)
qed

end
