(* ===== verification/PolicyRegistry.thy ===== *)
theory PolicyRegistry
  imports Main
begin

text \<open>
  The table of Chromium policies and their value types (\<open>lib/policy/policy_registry.go\<close>), in
  the order of the source and cut into five parts.
\<close>

datatype PolicyValueType =
    PolicyTypeBool
  | PolicyTypeInt
  | PolicyTypeString
  | PolicyTypeListString
  | PolicyTypeDict

definition registry_1 :: "(string \<times> PolicyValueType) list" where
  "registry_1 =
    [(''AIModeSettings'', PolicyTypeInt),
     (''AbusiveExperienceInterventionEnforce'', PolicyTypeBool),
     (''AccessCodeCastDeviceDuration'', PolicyTypeInt),
     (''AccessCodeCastEnabled'', PolicyTypeBool),
     (''AccessControlAllowMethodsInCORSPreflightSpecConformant'', PolicyTypeBool),
     (''AccessibilityImageLabelsEnabled'', PolicyTypeBool),
     (''AdditionalDnsQueryTypesEnabled'', PolicyTypeBool),
     (''AdsSettingForIntrusiveAdsSites'', PolicyTypeInt),
     (''AdvancedProtectionAllowed'', PolicyTypeBool),
     (''AdvancedProtectionDeepScanningEnabled'', PolicyTypeBool),
     (''AllHttpAuthSchemesAllowedForOrigins'', PolicyTypeListString),
     (''AllowBackForwardCacheForCacheControlNoStorePageEnabled'', PolicyTypeBool),
     (''AllowCrossOriginAuthPrompt'', PolicyTypeBool),
     (''AllowDeletingBrowserHistory'', PolicyTypeBool),
     (''AllowDinosaurEasterEgg'', PolicyTypeBool),
     (''AllowFileSelectionDialogs'', PolicyTypeBool),
     (''AllowNativeNotifications'', PolicyTypeBool),
     (''AllowOutdatedPlugins'', PolicyTypeBool),
     (''AllowPopupsDuringPageUnload'', PolicyTypeBool),
     (''AllowSyncXHRInPageDismissal'', PolicyTypeBool),
     (''AllowSystemNotifications'', PolicyTypeBool),
     (''AllowWebAuthnWithBrokenTlsCerts'', PolicyTypeBool),
     (''AllowedDomainsForApps'', PolicyTypeString),
     (''AlternateErrorPagesEnabled'', PolicyTypeBool),
     (''AlternativeBrowserParameters'', PolicyTypeListString),
     (''AlternativeBrowserPath'', PolicyTypeString),
     (''AlwaysAuthorizePlugins'', PolicyTypeBool),
     (''AlwaysOpenPdfExternally'', PolicyTypeBool),
     (''AmbientAuthenticationInPrivateModesEnabled'', PolicyTypeInt),
     (''AppCacheForceEnabled'', PolicyTypeBool),
     (''AssistantWebEnabled'', PolicyTypeBool),
     (''AudioCaptureAllowed'', PolicyTypeBool),
     (''AudioCaptureAllowedUrls'', PolicyTypeListString),
     (''AudioSandboxEnabled'', PolicyTypeBool),
     (''AuthNegotiateDelegateAllowlist'', PolicyTypeString),
     (''AuthNegotiateDelegateByKdcPolicy'', PolicyTypeBool),
     (''AuthNegotiateDelegateWhitelist'', PolicyTypeString),
     (''AuthSchemes'', PolicyTypeString),
     (''AuthServerAllowlist'', PolicyTypeString),
     (''AuthServerWhitelist'', PolicyTypeString),
     (''AutoFillEnabled'', PolicyTypeBool),
     (''AutoLaunchProtocolsFromOrigins'', PolicyTypeDict),
     (''AutoOpenAllowedForURLs'', PolicyTypeListString),
     (''AutoOpenFileTypes'', PolicyTypeListString),
     (''AutoSelectCertificateForUrls'', PolicyTypeListString),
     (''AutofillAddressEnabled'', PolicyTypeBool),
     (''AutofillCreditCardEnabled'', PolicyTypeBool),
     (''AutofillPredictionSettings'', PolicyTypeInt),
     (''AutomatedPasswordChangeSettings'', PolicyTypeInt),
     (''AutomaticFullscreenAllowedForUrls'', PolicyTypeListString),
     (''AutomaticFullscreenBlockedForUrls'', PolicyTypeListString),
     (''AutoplayAllowed'', PolicyTypeBool),
     (''AutoplayAllowlist'', PolicyTypeListString),
     (''AutoplayWhitelist'', PolicyTypeListString),
     (''BackgroundModeEnabled'', PolicyTypeBool),
     (''BasicAuthOverHttpEnabled'', PolicyTypeBool),
     (''BatterySaverModeAvailability'', PolicyTypeInt),
     (''BeforeunloadEventCancelByPreventDefaultEnabled'', PolicyTypeBool),
     (''BlockExternalExtensions'', PolicyTypeBool),
     (''BlockThirdPartyCookies'', PolicyTypeBool),
     (''BlockTruncatedCookies'', PolicyTypeBool),
     (''BookmarkBarEnabled'', PolicyTypeBool),
     (''BrowserAddPersonEnabled'', PolicyTypeBool),
     (''BrowserContextAwareAccessSignalsAllowlist'', PolicyTypeListString),
     (''BrowserGuestModeEnabled'', PolicyTypeBool),
     (''BrowserGuestModeEnforced'', PolicyTypeBool),
     (''BrowserLabsEnabled'', PolicyTypeBool),
     (''BrowserNetworkTimeQueriesEnabled'', PolicyTypeBool),
     (''BrowserSignin'', PolicyTypeInt),
     (''BrowserSwitcherDelay'', PolicyTypeInt),
     (''BrowserSwitcherEnabled'', PolicyTypeBool),
     (''BrowserSwitcherExternalGreylistUrl'', PolicyTypeString),
     (''BrowserSwitcherExternalSitelistUrl'', PolicyTypeString),
     (''BrowserSwitcherKeepLastChromeTab'', PolicyTypeBool),
     (''BrowserSwitcherParsingMode'', PolicyTypeInt),
     (''BrowserSwitcherUrlGreylist'', PolicyTypeListString),
     (''BrowserSwitcherUrlList'', PolicyTypeListString),
     (''BrowserThemeColor'', PolicyTypeString),
     (''BrowsingDataLifetime'', PolicyTypeDict),
     (''BuiltInAIAPIsEnabled'', PolicyTypeBool),
     (''BuiltInDnsClientEnabled'', PolicyTypeBool),
     (''BuiltinCertificateVerifierEnabled'', PolicyTypeBool),
     (''CACertificateManagementAllowed'', PolicyTypeInt),
     (''CACertificates'', PolicyTypeListString),
     (''CACertificatesWithConstraints'', PolicyTypeDict),
     (''CADistrustedCertificates'', PolicyTypeListString),
     (''CAHintCertificates'', PolicyTypeListString),
     (''CAPlatformIntegrationEnabled'', PolicyTypeBool),
     (''CECPQ2Enabled'', PolicyTypeBool),
     (''CORSNonWildcardRequestHeadersSupport'', PolicyTypeBool),
     (''CSSCustomStateDeprecatedSyntaxEnabled'', PolicyTypeBool),
     (''CertificateTransparencyEnforcementDisabledForCas'', PolicyTypeListString),
     (''CertificateTransparencyEnforcementDisabledForLegacyCas'', PolicyTypeListString),
     (''CertificateTransparencyEnforcementDisabledForUrls'', PolicyTypeListString),
     (''ChromeAppsEnabled'', PolicyTypeBool),
     (''ChromeAppsWebViewPermissiveBehaviorAllowed'', PolicyTypeBool),
     (''ChromeDataRegionSetting'', PolicyTypeInt),
     (''ChromeForTestingAllowed'', PolicyTypeBool),
     (''ChromeRootStoreEnabled'', PolicyTypeBool),
     (''ChromeVariations'', PolicyTypeInt),
     (''ClearBrowsingDataOnExitList'', PolicyTypeListString),
     (''ClearSiteDataOnExit'', PolicyTypeBool),
     (''ClickToCallEnabled'', PolicyTypeBool),
     (''ClipboardAllowedForUrls'', PolicyTypeListString),
     (''ClipboardBlockedForUrls'', PolicyTypeListString),
     (''CloudExtensionRequestEnabled'', PolicyTypeBool),
     (''CloudManagementEnrollmentMandatory'', PolicyTypeBool),
     (''CloudManagementEnrollmentToken'', PolicyTypeString),
     (''CloudPolicyOverridesPlatformPolicy'', PolicyTypeBool),
     (''CloudPrintProxyEnabled'', PolicyTypeBool),
     (''CloudPrintSubmitEnabled'', PolicyTypeBool),
     (''CloudPrintWarningsSuppressed'', PolicyTypeBool),
     (''CloudProfileReportingEnabled'', PolicyTypeBool),
     (''CloudReportingEnabled'', PolicyTypeBool),
     (''CloudReportingUploadFrequency'', PolicyTypeInt),
     (''CloudUserPolicyMerge'', PolicyTypeBool),
     (''CloudUserPolicyOverridesCloudMachinePolicy'', PolicyTypeBool),
     (''CoalesceH2ConnectionsWithClientCertificatesForHosts'', PolicyTypeListString),
     (''CommandLineFlagSecurityWarningsEnabled'', PolicyTypeBool),
     (''ComponentUpdatesEnabled'', PolicyTypeBool),
     (''CompressionDictionaryTransportEnabled'', PolicyTypeBool),
     (''ContextAwareAccessSignalsAllowlist'', PolicyTypeListString),
     (''CookiesAllowedForUrls'', PolicyTypeListString),
     (''CookiesBlockedForUrls'', PolicyTypeListString),
     (''CookiesSessionOnlyForUrls'', PolicyTypeListString),
     (''CopyPreventionSettings'', PolicyTypeDict),
     (''CorsLegacyModeEnabled'', PolicyTypeBool),
     (''CorsMitigationList'', PolicyTypeListString),
     (''CreateThemesSettings'', PolicyTypeInt),
     (''CrossOriginWebAssemblyModuleSharingEnabled'', PolicyTypeBool),
     (''DHEEnabled'', PolicyTypeBool)]"

definition registry_2 :: "(string \<times> PolicyValueType) list" where
  "registry_2 =
    [(''DNSInterceptionChecksEnabled'', PolicyTypeBool),
     (''DataControlsRules'', PolicyTypeDict),
     (''DataURLWhitespacePreservationEnabled'', PolicyTypeBool),
     (''DataUrlInSvgUseEnabled'', PolicyTypeBool),
     (''DefaultBrowserSettingEnabled'', PolicyTypeBool),
     (''DefaultClipboardSetting'', PolicyTypeInt),
     (''DefaultCookiesSetting'', PolicyTypeInt),
     (''DefaultDownloadDirectory'', PolicyTypeString),
     (''DefaultFileHandlingGuardSetting'', PolicyTypeInt),
     (''DefaultFileSystemReadGuardSetting'', PolicyTypeInt),
     (''DefaultFileSystemWriteGuardSetting'', PolicyTypeInt),
     (''DefaultGeolocationSetting'', PolicyTypeInt),
     (''DefaultImagesSetting'', PolicyTypeInt),
     (''DefaultInsecureContentSetting'', PolicyTypeInt),
     (''DefaultJavaScriptJitSetting'', PolicyTypeInt),
     (''DefaultJavaScriptOptimizerSetting'', PolicyTypeInt),
     (''DefaultJavaScriptSetting'', PolicyTypeInt),
     (''DefaultKeygenSetting'', PolicyTypeInt),
     (''DefaultLocalFontsSetting'', PolicyTypeInt),
     (''DefaultMediaStreamSetting'', PolicyTypeInt),
     (''DefaultNotificationsSetting'', PolicyTypeInt),
     (''DefaultPluginsSetting'', PolicyTypeInt),
     (''DefaultPopupsSetting'', PolicyTypeInt),
     (''DefaultPrinterSelection'', PolicyTypeString),
     (''DefaultSearchProviderAlternateURLs'', PolicyTypeListString),
     (''DefaultSearchProviderContextMenuAccessAllowed'', PolicyTypeBool),
     (''DefaultSearchProviderEnabled'', PolicyTypeBool),
     (''DefaultSearchProviderEncodings'', PolicyTypeListString),
     (''DefaultSearchProviderIconURL'', PolicyTypeString),
     (''DefaultSearchProviderImageURL'', PolicyTypeString),
     (''DefaultSearchProviderImageURLPostParams'', PolicyTypeString),
     (''DefaultSearchProviderInstantURL'', PolicyTypeString),
     (''DefaultSearchProviderInstantURLPostParams'', PolicyTypeString),
     (''DefaultSearchProviderKeyword'', PolicyTypeString),
     (''DefaultSearchProviderName'', PolicyTypeString),
     (''DefaultSearchProviderNewTabURL'', PolicyTypeString),
     (''DefaultSearchProviderSearchTermsReplacementKey'', PolicyTypeString),
     (''DefaultSearchProviderSearchURL'', PolicyTypeString),
     (''DefaultSearchProviderSearchURLPostParams'', PolicyTypeString),
     (''DefaultSearchProviderSuggestURL'', PolicyTypeString),
     (''DefaultSearchProviderSuggestURLPostParams'', PolicyTypeString),
     (''DefaultSensorsSetting'', PolicyTypeInt),
     (''DefaultSerialGuardSetting'', PolicyTypeInt),
     (''DefaultThirdPartyStoragePartitioningSetting'', PolicyTypeInt),
     (''DefaultWebBluetoothGuardSetting'', PolicyTypeInt),
     (''DefaultWebHidGuardSetting'', PolicyTypeInt),
     (''DefaultWebUsbGuardSetting'', PolicyTypeInt),
     (''DefaultWindowManagementSetting'', PolicyTypeInt),
     (''DefaultWindowPlacementSetting'', PolicyTypeInt),
     (''DeletingUndecryptablePasswordsEnabled'', PolicyTypeBool),
     (''DesktopSharingHubEnabled'', PolicyTypeBool),
     (''DevToolsGenAiSettings'', PolicyTypeInt),
     (''DevToolsGoogleDeveloperProgramProfileAvailability'', PolicyTypeInt),
     (''DeveloperToolsAvailability'', PolicyTypeInt),
     (''DeveloperToolsDisabled'', PolicyTypeBool),
     (''Disable3DAPIs'', PolicyTypeBool),
     (''DisableAuthNegotiateCnameLookup'', PolicyTypeBool),
     (''DisablePluginFinder'', PolicyTypeBool),
     (''DisablePrintPreview'', PolicyTypeBool),
     (''DisableSSLRecordSplitting'', PolicyTypeBool),
     (''DisableSafeBrowsingProceedAnyway'', PolicyTypeBool),
     (''DisableScreenshots'', PolicyTypeBool),
     (''DisableSpdy'', PolicyTypeBool),
     (''DisabledPlugins'', PolicyTypeListString),
     (''DisabledPluginsExceptions'', PolicyTypeListString),
     (''DisabledSchemes'', PolicyTypeListString),
     (''DiskCacheDir'', PolicyTypeString),
     (''DiskCacheSize'', PolicyTypeInt),
     (''DisplayCapturePermissionsPolicyEnabled'', PolicyTypeBool),
     (''DnsOverHttpsMode'', PolicyTypeString),
     (''DnsOverHttpsTemplates'', PolicyTypeString),
     (''DnsPrefetchingEnabled'', PolicyTypeBool),
     (''DomainReliabilityAllowed'', PolicyTypeBool),
     (''DownloadBubbleEnabled'', PolicyTypeBool),
     (''DownloadDirectory'', PolicyTypeString),
     (''DownloadRestrictions'', PolicyTypeInt),
     (''EditBookmarksEnabled'', PolicyTypeBool),
     (''EnableAuthNegotiatePort'', PolicyTypeBool),
     (''EnableCommonNameFallbackForLocalAnchors'', PolicyTypeBool),
     (''EnableDeprecatedPrivetPrinting'', PolicyTypeBool),
     (''EnableDeprecatedWebBasedSignin'', PolicyTypeBool),
     (''EnableDeprecatedWebPlatformFeatures'', PolicyTypeListString),
     (''EnableExperimentalPolicies'', PolicyTypeListString),
     (''EnableMediaRouter'', PolicyTypeBool),
     (''EnableOnlineRevocationChecks'', PolicyTypeBool),
     (''EnableProxyOverrideRulesForAllUsers'', PolicyTypeInt),
     (''EnableSha1ForLocalAnchors'', PolicyTypeBool),
     (''EnableSymantecLegacyInfrastructure'', PolicyTypeBool),
     (''EnableUnsafeSwiftShader'', PolicyTypeBool),
     (''EnabledPlugins'', PolicyTypeListString),
     (''EncryptedClientHelloEnabled'', PolicyTypeBool),
     (''EnforceLocalAnchorConstraintsEnabled'', PolicyTypeBool),
     (''EnterpriseBadgingTemporarySetting'', PolicyTypeInt),
     (''EnterpriseCustomLabel'', PolicyTypeString),
     (''EnterpriseCustomLabelForBrowser'', PolicyTypeString),
     (''EnterpriseHardwarePlatformAPIEnabled'', PolicyTypeBool),
     (''EnterpriseLogoUrl'', PolicyTypeString),
     (''EnterpriseLogoUrlForBrowser'', PolicyTypeString),
     (''EnterpriseProfileBadgeToolbarSettings'', PolicyTypeInt),
     (''EnterpriseProfileCreationKeepBrowsingData'', PolicyTypeBool),
     (''EnterpriseRealTimeUrlCheckMode'', PolicyTypeInt),
     (''EnterpriseSearchAggregatorSettings'', PolicyTypeDict),
     (''EnterpriseWebStoreName'', PolicyTypeString),
     (''EnterpriseWebStoreURL'', PolicyTypeString),
     (''EventPathEnabled'', PolicyTypeBool),
     (''ExemptDomainFileTypePairsFromFileTypeDownloadWarnings'', PolicyTypeDict),
     (''ExplicitlyAllowedNetworkPorts'', PolicyTypeListString),
     (''ExtensionAllowInsecureUpdates'', PolicyTypeBool),
     (''ExtensionAllowedTypes'', PolicyTypeListString),
     (''ExtensionDeveloperModeSettings'', PolicyTypeInt),
     (''ExtensionExtendedBackgroundLifetimeForPortConnectionsToUrls'', PolicyTypeListString),
     (''ExtensionInstallAllowlist'', PolicyTypeListString),
     (''ExtensionInstallBlacklist'', PolicyTypeListString),
     (''ExtensionInstallBlocklist'', PolicyTypeListString),
     (''ExtensionInstallCloudPolicyChecksEnabled'', PolicyTypeBool),
     (''ExtensionInstallForcelist'', PolicyTypeListString),
     (''ExtensionInstallSources'', PolicyTypeListString),
     (''ExtensionInstallTypeBlocklist'', PolicyTypeListString),
     (''ExtensionInstallWhitelist'', PolicyTypeListString),
     (''ExtensionManifestV2Availability'', PolicyTypeInt),
     (''ExtensionSettings'', PolicyTypeDict),
     (''ExtensionUnpublishedAvailability'', PolicyTypeInt),
     (''ExternalProtocolDialogShowAlwaysOpenCheckbox'', PolicyTypeBool),
     (''FeedbackSurveysEnabled'', PolicyTypeBool),
     (''FetchKeepaliveDurationSecondsOnShutdown'', PolicyTypeInt),
     (''FileHandlingAllowedForUrls'', PolicyTypeListString),
     (''FileHandlingBlockedForUrls'', PolicyTypeListString),
     (''FileOrDirectoryPickerWithoutGestureAllowedForOrigins'', PolicyTypeListString),
     (''FileSystemReadAskForUrls'', PolicyTypeListString),
     (''FileSystemReadBlockedForUrls'', PolicyTypeListString),
     (''FileSystemSyncAccessHandleAsyncInterfaceEnabled'', PolicyTypeBool)]"

definition registry_3 :: "(string \<times> PolicyValueType) list" where
  "registry_3 =
    [(''FileSystemWriteAskForUrls'', PolicyTypeListString),
     (''FileSystemWriteBlockedForUrls'', PolicyTypeListString),
     (''FirstPartySetsEnabled'', PolicyTypeBool),
     (''FirstPartySetsOverrides'', PolicyTypeDict),
     (''ForceBrowserSignin'', PolicyTypeBool),
     (''ForceEnablePepperVideoDecoderDevAPI'', PolicyTypeBool),
     (''ForceEphemeralProfiles'', PolicyTypeBool),
     (''ForceGoogleSafeSearch'', PolicyTypeBool),
     (''ForceLegacyDefaultReferrerPolicy'', PolicyTypeBool),
     (''ForceMajorVersionToMinorPositionInUserAgent'', PolicyTypeInt),
     (''ForcePermissionPolicyUnloadDefaultEnabled'', PolicyTypeBool),
     (''ForceSafeSearch'', PolicyTypeBool),
     (''ForceYouTubeRestrict'', PolicyTypeInt),
     (''ForceYouTubeSafetyMode'', PolicyTypeBool),
     (''ForcedLanguages'', PolicyTypeListString),
     (''FullscreenAllowed'', PolicyTypeBool),
     (''GSSAPILibraryName'', PolicyTypeString),
     (''GeminiActOnWebSettings'', PolicyTypeInt),
     (''GenAILocalFoundationalModelSettings'', PolicyTypeInt),
     (''GenAiDefaultSettings'', PolicyTypeInt),
     (''GeolocationBlockedForUrls'', PolicyTypeListString),
     (''GetDisplayMediaSetSelectAllScreensAllowedForUrls'', PolicyTypeListString),
     (''GloballyScopeHTTPAuthCacheEnabled'', PolicyTypeBool),
     (''GoogleSearchSidePanelEnabled'', PolicyTypeBool),
     (''HSTSPolicyBypassList'', PolicyTypeListString),
     (''HappyEyeballsV3Enabled'', PolicyTypeBool),
     (''HardwareAccelerationModeEnabled'', PolicyTypeBool),
     (''HeadlessMode'', PolicyTypeInt),
     (''HelpMeWriteSettings'', PolicyTypeInt),
     (''HideWebStoreIcon'', PolicyTypeBool),
     (''HideWebStorePromo'', PolicyTypeBool),
     (''HighEfficiencyModeEnabled'', PolicyTypeBool),
     (''HistoryClustersVisible'', PolicyTypeBool),
     (''HistorySearchSettings'', PolicyTypeInt),
     (''HomepageIsNewTabPage'', PolicyTypeBool),
     (''HomepageLocation'', PolicyTypeString),
     (''Http09OnNonDefaultPortsEnabled'', PolicyTypeBool),
     (''HttpAllowlist'', PolicyTypeListString),
     (''HttpsOnlyMode'', PolicyTypeString),
     (''HttpsUpgradesEnabled'', PolicyTypeBool),
     (''IPv6ReachabilityOverrideEnabled'', PolicyTypeBool),
     (''IdleTimeout'', PolicyTypeInt),
     (''IdleTimeoutActions'', PolicyTypeListString),
     (''ImagesAllowedForUrls'', PolicyTypeListString),
     (''ImagesBlockedForUrls'', PolicyTypeListString),
     (''ImportAutofillFormData'', PolicyTypeBool),
     (''ImportBookmarks'', PolicyTypeBool),
     (''ImportHistory'', PolicyTypeBool),
     (''ImportHomepage'', PolicyTypeBool),
     (''ImportSavedPasswords'', PolicyTypeBool),
     (''ImportSearchEngine'', PolicyTypeBool),
     (''IncognitoEnabled'', PolicyTypeBool),
     (''IncognitoModeAvailability'', PolicyTypeInt),
     (''InsecureContentAllowedForUrls'', PolicyTypeListString),
     (''InsecureContentBlockedForUrls'', PolicyTypeListString),
     (''InsecureFormsWarningsEnabled'', PolicyTypeBool),
     (''InsecureHashesInTLSHandshakesEnabled'', PolicyTypeBool),
     (''InsecurePrivateNetworkRequestsAllowed'', PolicyTypeBool),
     (''InsecurePrivateNetworkRequestsAllowedForUrls'', PolicyTypeListString),
     (''InstantEnabled'', PolicyTypeBool),
     (''IntensiveWakeUpThrottlingEnabled'', PolicyTypeBool),
     (''IntranetRedirectBehavior'', PolicyTypeInt),
     (''IsolateOrigins'', PolicyTypeString),
     (''JavaScriptAllowedForUrls'', PolicyTypeListString),
     (''JavaScriptBlockedForUrls'', PolicyTypeListString),
     (''JavaScriptJitAllowedForSites'', PolicyTypeListString),
     (''JavaScriptJitBlockedForSites'', PolicyTypeListString),
     (''JavaScriptOptimizerAllowedForSites'', PolicyTypeListString),
     (''JavaScriptOptimizerBlockedForSites'', PolicyTypeListString),
     (''JavascriptEnabled'', PolicyTypeBool),
     (''KeyboardFocusableScrollersEnabled'', PolicyTypeBool),
     (''KeygenAllowedForUrls'', PolicyTypeListString),
     (''KeygenBlockedForUrls'', PolicyTypeListString),
     (''LacrosSecondaryProfilesAllowed'', PolicyTypeBool),
     (''LegacySameSiteCookieBehaviorEnabled'', PolicyTypeInt),
     (''LegacySameSiteCookieBehaviorEnabledForDomainList'', PolicyTypeListString),
     (''LegacyTechReportAllowlist'', PolicyTypeListString),
     (''LensDesktopNTPSearchEnabled'', PolicyTypeBool),
     (''LensOverlaySettings'', PolicyTypeInt),
     (''LensRegionSearchEnabled'', PolicyTypeBool),
     (''LiveCaptionEnabled'', PolicyTypeBool),
     (''LiveTranslateEnabled'', PolicyTypeBool),
     (''LoadCryptoTokenExtension'', PolicyTypeBool),
     (''LocalDiscoveryEnabled'', PolicyTypeBool),
     (''LocalFontsAllowedForUrls'', PolicyTypeListString),
     (''LocalFontsBlockedForUrls'', PolicyTypeListString),
     (''LocalNetworkAccessAllowedForUrls'', PolicyTypeListString),
     (''LocalNetworkAccessBlockedForUrls'', PolicyTypeListString),
     (''LocalNetworkAccessRestrictionsEnabled'', PolicyTypeBool),
     (''LocalNetworkAccessRestrictionsTemporaryOptOut'', PolicyTypeBool),
     (''LockIconInAddressBarEnabled'', PolicyTypeBool),
     (''LookalikeWarningAllowlistDomains'', PolicyTypeListString),
     (''MachineLevelUserCloudPolicyEnrollmentToken'', PolicyTypeString),
     (''ManagedAccountsSigninRestriction'', PolicyTypeString),
     (''ManagedBookmarks'', PolicyTypeDict),
     (''ManagedConfigurationPerOrigin'', PolicyTypeDict),
     (''MaxConnectionsPerProxy'', PolicyTypeInt),
     (''MaxInvalidationFetchDelay'', PolicyTypeInt),
     (''MediaCacheSize'', PolicyTypeInt),
     (''MediaRecommendationsEnabled'', PolicyTypeBool),
     (''MediaRouterCastAllowAllIPs'', PolicyTypeBool),
     (''MemorySaverModeSavings'', PolicyTypeInt),
     (''MetricsReportingEnabled'', PolicyTypeBool),
     (''MutationEventsEnabled'', PolicyTypeBool),
     (''NTPCardsVisible'', PolicyTypeBool),
     (''NTPCustomBackgroundEnabled'', PolicyTypeBool),
     (''NTPFooterExtensionAttributionEnabled'', PolicyTypeBool),
     (''NTPFooterManagementNoticeEnabled'', PolicyTypeBool),
     (''NTPMiddleSlotAnnouncementVisible'', PolicyTypeBool),
     (''NTPOutlookCardVisible'', PolicyTypeBool),
     (''NTPSharepointCardVisible'', PolicyTypeBool),
     (''NTPShortcuts'', PolicyTypeDict),
     (''NativeClientForceAllowed'', PolicyTypeBool),
     (''NativeMessagingAllowlist'', PolicyTypeListString),
     (''NativeMessagingBlacklist'', PolicyTypeListString),
     (''NativeMessagingBlocklist'', PolicyTypeListString),
     (''NativeMessagingUserLevelHosts'', PolicyTypeBool),
     (''NativeMessagingWhitelist'', PolicyTypeListString),
     (''NetworkPredictionOptions'', PolicyTypeInt),
     (''NetworkServiceSandboxEnabled'', PolicyTypeBool),
     (''NewBaseUrlInheritanceBehaviorAllowed'', PolicyTypeBool),
     (''NewTabPageLocation'', PolicyTypeString),
     (''NotificationsAllowedForUrls'', PolicyTypeListString),
     (''NotificationsBlockedForUrls'', PolicyTypeListString),
     (''NtlmV2Enabled'', PolicyTypeBool),
     (''OffsetParentNewSpecBehaviorEnabled'', PolicyTypeBool),
     (''OnBulkDataEntryEnterpriseConnector'', PolicyTypeDict),
     (''OnFileAttachedEnterpriseConnector'', PolicyTypeDict),
     (''OnFileDownloadedEnterpriseConnector'', PolicyTypeDict),
     (''OnPrintEnterpriseConnector'', PolicyTypeDict),
     (''OnSecurityEventEnterpriseConnector'', PolicyTypeDict)]"

definition registry_4 :: "(string \<times> PolicyValueType) list" where
  "registry_4 =
    [(''OopPrintDriversAllowed'', PolicyTypeBool),
     (''OptimizationGuideFetchingEnabled'', PolicyTypeBool),
     (''OriginAgentClusterDefaultEnabled'', PolicyTypeBool),
     (''OriginKeyedProcessesEnabled'', PolicyTypeBool),
     (''OutOfProcessSystemDnsResolutionEnabled'', PolicyTypeBool),
     (''OverrideSecurityRestrictionsOnInsecureOrigin'', PolicyTypeListString),
     (''PPAPISharedImagesSwapChainAllowed'', PolicyTypeBool),
     (''PacHttpsUrlStrippingEnabled'', PolicyTypeBool),
     (''PartitionedBlobUrlUsage'', PolicyTypeBool),
     (''PasswordDismissCompromisedAlertEnabled'', PolicyTypeBool),
     (''PasswordLeakDetectionEnabled'', PolicyTypeBool),
     (''PasswordManagerAllowShowPasswords'', PolicyTypeBool),
     (''PasswordManagerBlocklist'', PolicyTypeListString),
     (''PasswordManagerEnabled'', PolicyTypeBool),
     (''PasswordManagerPasskeysEnabled'', PolicyTypeBool),
     (''PasswordProtectionChangePasswordURL'', PolicyTypeString),
     (''PasswordProtectionLoginURLs'', PolicyTypeListString),
     (''PasswordProtectionWarningTrigger'', PolicyTypeInt),
     (''PasswordSharingEnabled'', PolicyTypeBool),
     (''PaymentMethodQueryEnabled'', PolicyTypeBool),
     (''PdfAnnotationsEnabled'', PolicyTypeBool),
     (''PdfLocalFileAccessAllowedForDomains'', PolicyTypeListString),
     (''PdfUseSkiaRendererEnabled'', PolicyTypeBool),
     (''PdfViewerOutOfProcessIframeEnabled'', PolicyTypeBool),
     (''PersistentQuotaEnabled'', PolicyTypeBool),
     (''PluginsAllowedForUrls'', PolicyTypeListString),
     (''PluginsBlockedForUrls'', PolicyTypeListString),
     (''PolicyAtomicGroupsEnabled'', PolicyTypeBool),
     (''PolicyDictionaryMultipleSourceMergeList'', PolicyTypeListString),
     (''PolicyListMultipleSourceMergeList'', PolicyTypeListString),
     (''PolicyRefreshRate'', PolicyTypeInt),
     (''PopupsAllowedForUrls'', PolicyTypeListString),
     (''PopupsBlockedForUrls'', PolicyTypeListString),
     (''PostQuantumKeyAgreementEnabled'', PolicyTypeBool),
     (''PreciseGeolocationAllowedForUrls'', PolicyTypeListString),
     (''PrefetchWithServiceWorkerEnabled'', PolicyTypeBool),
     (''PrefixedStorageInfoEnabled'', PolicyTypeBool),
     (''PrefixedVideoFullscreenApiAvailability'', PolicyTypeString),
     (''PrintHeaderFooter'', PolicyTypeBool),
     (''PrintPdfAsImageDefault'', PolicyTypeBool),
     (''PrintPreviewUseSystemDefaultPrinter'', PolicyTypeBool),
     (''PrintRasterizePdfDpi'', PolicyTypeInt),
     (''PrinterTypeDenyList'', PolicyTypeListString),
     (''PrintingAllowedBackgroundGraphicsModes'', PolicyTypeString),
     (''PrintingBackgroundGraphicsDefault'', PolicyTypeString),
     (''PrintingEnabled'', PolicyTypeBool),
     (''PrintingPaperSizeDefault'', PolicyTypeDict),
     (''PrivacySandboxAdMeasurementEnabled'', PolicyTypeBool),
     (''PrivacySandboxAdTopicsEnabled'', PolicyTypeBool),
     (''PrivacySandboxFingerprintingProtectionEnabled'', PolicyTypeBool),
     (''PrivacySandboxIpProtectionEnabled'', PolicyTypeBool),
     (''PrivacySandboxPromptEnabled'', PolicyTypeBool),
     (''PrivacySandboxSiteEnabledAdsEnabled'', PolicyTypeBool),
     (''PrivateNetworkAccessRestrictionsEnabled'', PolicyTypeBool),
     (''ProfileLabel'', PolicyTypeInt),
     (''ProfilePickerOnStartupAvailability'', PolicyTypeInt),
     (''ProfileReauthPrompt'', PolicyTypeInt),
     (''ProfileSeparationDataMigrationSettings'', PolicyTypeInt),
     (''ProfileSeparationDomainExceptionList'', PolicyTypeListString),
     (''ProfileSeparationSettings'', PolicyTypeInt),
     (''PromotionalTabsEnabled'', PolicyTypeBool),
     (''PromotionsEnabled'', PolicyTypeBool),
     (''PromptForDownloadLocation'', PolicyTypeBool),
     (''PromptOnMultipleMatchingCertificates'', PolicyTypeBool),
     (''ProvisionManagedClientCertificateForBrowser'', PolicyTypeInt),
     (''ProvisionManagedClientCertificateForUser'', PolicyTypeInt),
     (''ProxyBypassList'', PolicyTypeString),
     (''ProxyMode'', PolicyTypeString),
     (''ProxyOverrideRules'', PolicyTypeDict),
     (''ProxyPacUrl'', PolicyTypeString),
     (''ProxyServer'', PolicyTypeString),
     (''ProxyServerMode'', PolicyTypeInt),
     (''ProxySettings'', PolicyTypeDict),
     (''QRCodeGeneratorEnabled'', PolicyTypeBool),
     (''QuicAllowed'', PolicyTypeBool),
     (''RC4Enabled'', PolicyTypeBool),
     (''RSAKeyUsageForLocalAnchorsEnabled'', PolicyTypeBool),
     (''ReduceAcceptLanguageEnabled'', PolicyTypeBool),
     (''RegisteredProtocolHandlers'', PolicyTypeDict),
     (''RelatedWebsiteSetsEnabled'', PolicyTypeBool),
     (''RelatedWebsiteSetsOverrides'', PolicyTypeDict),
     (''RelaunchFastIfOutdated'', PolicyTypeInt),
     (''RelaunchNotification'', PolicyTypeInt),
     (''RelaunchNotificationPeriod'', PolicyTypeInt),
     (''RelaunchWindow'', PolicyTypeDict),
     (''RemoteAccessClientFirewallTraversal'', PolicyTypeBool),
     (''RemoteAccessHostAllowClientPairing'', PolicyTypeBool),
     (''RemoteAccessHostAllowFileTransfer'', PolicyTypeBool),
     (''RemoteAccessHostAllowGnubbyAuth'', PolicyTypeBool),
     (''RemoteAccessHostAllowPinAuthentication'', PolicyTypeBool),
     (''RemoteAccessHostAllowRelayedConnection'', PolicyTypeBool),
     (''RemoteAccessHostAllowRemoteAccessConnections'', PolicyTypeBool),
     (''RemoteAccessHostAllowRemoteSupportConnections'', PolicyTypeBool),
     (''RemoteAccessHostAllowUrlForwarding'', PolicyTypeBool),
     (''RemoteAccessHostClientDomain'', PolicyTypeString),
     (''RemoteAccessHostClientDomainList'', PolicyTypeListString),
     (''RemoteAccessHostClipboardSizeBytes'', PolicyTypeInt),
     (''RemoteAccessHostDebugOverridePolicies'', PolicyTypeString),
     (''RemoteAccessHostDomain'', PolicyTypeString),
     (''RemoteAccessHostDomainList'', PolicyTypeListString),
     (''RemoteAccessHostEnableUserInterface'', PolicyTypeBool),
     (''RemoteAccessHostFirewallTraversal'', PolicyTypeBool),
     (''RemoteAccessHostMatchUsername'', PolicyTypeBool),
     (''RemoteAccessHostMaximumSessionDurationMinutes'', PolicyTypeInt),
     (''RemoteAccessHostRequireCurtain'', PolicyTypeBool),
     (''RemoteAccessHostRequireTwoFactor'', PolicyTypeBool),
     (''RemoteAccessHostTalkGadgetPrefix'', PolicyTypeString),
     (''RemoteAccessHostTokenUrl'', PolicyTypeString),
     (''RemoteAccessHostTokenValidationCertificateIssuer'', PolicyTypeString),
     (''RemoteAccessHostTokenValidationUrl'', PolicyTypeString),
     (''RemoteAccessHostUdpPortRange'', PolicyTypeString),
     (''RemoteDebuggingAllowed'', PolicyTypeBool),
     (''ReportSafeBrowsingData'', PolicyTypeBool),
     (''RequireOnlineRevocationChecksForLocalAnchors'', PolicyTypeBool),
     (''RestoreOnStartup'', PolicyTypeInt),
     (''RestoreOnStartupURLs'', PolicyTypeListString),
     (''RestrictPdfSaveToGoogleDriveAccountsToPattern'', PolicyTypeString),
     (''RestrictSigninToPattern'', PolicyTypeString),
     (''RoamingProfileLocation'', PolicyTypeString),
     (''RoamingProfileSupportEnabled'', PolicyTypeBool),
     (''RunAllFlashInAllowMode'', PolicyTypeBool),
     (''SSLErrorOverrideAllowed'', PolicyTypeBool),
     (''SSLErrorOverrideAllowedForOrigins'', PolicyTypeListString),
     (''SSLVersionFallbackMin'', PolicyTypeString),
     (''SSLVersionMax'', PolicyTypeString),
     (''SSLVersionMin'', PolicyTypeString),
     (''SafeBrowsingAllowlistDomains'', PolicyTypeListString),
     (''SafeBrowsingDeepScanningEnabled'', PolicyTypeBool),
     (''SafeBrowsingEnabled'', PolicyTypeBool),
     (''SafeBrowsingExtendedReportingEnabled'', PolicyTypeBool),
     (''SafeBrowsingExtendedReportingOptInAllowed'', PolicyTypeBool)]"

definition registry_5 :: "(string \<times> PolicyValueType) list" where
  "registry_5 =
    [(''SafeBrowsingProtectionLevel'', PolicyTypeInt),
     (''SafeBrowsingProxiedRealTimeChecksAllowed'', PolicyTypeBool),
     (''SafeBrowsingSurveysEnabled'', PolicyTypeBool),
     (''SafeBrowsingWhitelistDomains'', PolicyTypeListString),
     (''SafeSitesFilterBehavior'', PolicyTypeInt),
     (''SameOriginTabCaptureAllowedByOrigins'', PolicyTypeListString),
     (''SandboxExternalProtocolBlocked'', PolicyTypeBool),
     (''SavingBrowserHistoryDisabled'', PolicyTypeBool),
     (''ScreenCaptureAllowed'', PolicyTypeBool),
     (''ScreenCaptureAllowedByOrigins'', PolicyTypeListString),
     (''ScreenCaptureWithoutGestureAllowedForOrigins'', PolicyTypeListString),
     (''ScrollToTextFragmentEnabled'', PolicyTypeBool),
     (''SearchContentSharingSettings'', PolicyTypeInt),
     (''SearchSuggestEnabled'', PolicyTypeBool),
     (''SecurityKeyPermitAttestation'', PolicyTypeListString),
     (''SelectParserRelaxationEnabled'', PolicyTypeBool),
     (''SendMouseEventsDisabledFormControlsEnabled'', PolicyTypeBool),
     (''SensorsAllowedForUrls'', PolicyTypeListString),
     (''SensorsBlockedForUrls'', PolicyTypeListString),
     (''SerialAllowAllPortsForUrls'', PolicyTypeListString),
     (''SerialAllowUsbDevicesForUrls'', PolicyTypeDict),
     (''SerialAskForUrls'', PolicyTypeListString),
     (''SerialBlockedForUrls'', PolicyTypeListString),
     (''ServiceWorkerAutoPreloadEnabled'', PolicyTypeBool),
     (''ServiceWorkerToControlSrcdocIframeEnabled'', PolicyTypeBool),
     (''SetTimeoutWithout1MsClampEnabled'', PolicyTypeBool),
     (''SharedArrayBufferUnrestrictedAccessAllowed'', PolicyTypeBool),
     (''SharedClipboardEnabled'', PolicyTypeBool),
     (''SharedWorkerBlobURLFixEnabled'', PolicyTypeBool),
     (''ShoppingListEnabled'', PolicyTypeBool),
     (''ShowAppsShortcutInBookmarkBar'', PolicyTypeBool),
     (''ShowCastIconInToolbar'', PolicyTypeBool),
     (''ShowCastSessionsStartedByOtherDevices'', PolicyTypeBool),
     (''ShowFullUrlsInAddressBar'', PolicyTypeBool),
     (''ShowHomeButton'', PolicyTypeBool),
     (''SideSearchEnabled'', PolicyTypeBool),
     (''SignedHTTPExchangeEnabled'', PolicyTypeBool),
     (''SigninAllowed'', PolicyTypeBool),
     (''SigninInterceptionEnabled'', PolicyTypeBool),
     (''SilentPrintingEnabled'', PolicyTypeBool),
     (''SitePerProcess'', PolicyTypeBool),
     (''SiteSearchSettings'', PolicyTypeDict),
     (''SpellCheckServiceEnabled'', PolicyTypeBool),
     (''SpellcheckEnabled'', PolicyTypeBool),
     (''SpellcheckLanguage'', PolicyTypeListString),
     (''SpellcheckLanguageBlacklist'', PolicyTypeListString),
     (''SpellcheckLanguageBlocklist'', PolicyTypeListString),
     (''StandardizedBrowserZoomEnabled'', PolicyTypeBool),
     (''StaticStorageQuotaEnabled'', PolicyTypeBool),
     (''StrictMimetypeCheckForWorkerScriptsEnabled'', PolicyTypeBool),
     (''StricterMixedContentTreatmentEnabled'', PolicyTypeBool),
     (''SupervisedUserCreationEnabled'', PolicyTypeBool),
     (''SuppressDifferentOriginSubframeDialogs'', PolicyTypeBool),
     (''SuppressUnsupportedOSWarning'', PolicyTypeBool),
     (''SyncDisabled'', PolicyTypeBool),
     (''SyncTypesListDisabled'', PolicyTypeListString),
     (''TLS13EarlyDataEnabled'', PolicyTypeBool),
     (''TLS13HardeningForLocalAnchorsEnabled'', PolicyTypeBool),
     (''TabCaptureAllowedByOrigins'', PolicyTypeListString),
     (''TabCompareSettings'', PolicyTypeInt),
     (''TabDiscardingExceptions'', PolicyTypeListString),
     (''TabFreezingEnabled'', PolicyTypeBool),
     (''TabGroupSharingSettings'', PolicyTypeInt),
     (''TabOrganizerSettings'', PolicyTypeInt),
     (''TabUnderAllowed'', PolicyTypeBool),
     (''TargetBlankImpliesNoOpener'', PolicyTypeBool),
     (''TaskManagerEndProcessEnabled'', PolicyTypeBool),
     (''ThirdPartyStoragePartitioningBlockedForOrigins'', PolicyTypeListString),
     (''ThrottleNonVisibleCrossOriginIframesAllowed'', PolicyTypeBool),
     (''ToolbarAvatarLabelSettings'', PolicyTypeInt),
     (''TranslateEnabled'', PolicyTypeBool),
     (''TranslatorAPIAllowed'', PolicyTypeBool),
     (''TripleDESEnabled'', PolicyTypeBool),
     (''U2fSecurityKeyApiEnabled'', PolicyTypeBool),
     (''URLAllowlist'', PolicyTypeListString),
     (''URLBlacklist'', PolicyTypeListString),
     (''URLBlocklist'', PolicyTypeListString),
     (''URLWhitelist'', PolicyTypeListString),
     (''UnmanagedDeviceSignalsConsentFlowEnabled'', PolicyTypeBool),
     (''UnsafelyTreatInsecureOriginAsSecure'', PolicyTypeListString),
     (''UnthrottledNestedTimeoutEnabled'', PolicyTypeBool),
     (''UrlKeyedAnonymizedDataCollectionEnabled'', PolicyTypeBool),
     (''UrlParamFilterEnabled'', PolicyTypeBool),
     (''UseLegacyFormControls'', PolicyTypeBool),
     (''UseMojoVideoDecoderForPepperAllowed'', PolicyTypeBool),
     (''UserAgentClientHintsEnabled'', PolicyTypeBool),
     (''UserAgentClientHintsGREASEUpdateEnabled'', PolicyTypeBool),
     (''UserAgentReduction'', PolicyTypeInt),
     (''UserContextAwareAccessSignalsAllowlist'', PolicyTypeListString),
     (''UserDataSnapshotRetentionLimit'', PolicyTypeInt),
     (''UserFeedbackAllowed'', PolicyTypeBool),
     (''UserSecurityAuthenticatedReporting'', PolicyTypeBool),
     (''UserSecuritySignalsReporting'', PolicyTypeBool),
     (''VariationsRestrictParameter'', PolicyTypeString),
     (''VideoCaptureAllowed'', PolicyTypeBool),
     (''VideoCaptureAllowedUrls'', PolicyTypeListString),
     (''WPADQuickCheckEnabled'', PolicyTypeBool),
     (''WatermarkStyle'', PolicyTypeDict),
     (''WebAppInstallByUserEnabled'', PolicyTypeBool),
     (''WebAppInstallForceList'', PolicyTypeDict),
     (''WebAppSettings'', PolicyTypeDict),
     (''WebAudioOutputBufferingEnabled'', PolicyTypeBool),
     (''WebAuthenticationRemoteDesktopAllowedOrigins'', PolicyTypeListString),
     (''WebAuthenticationRemoteProxiedRequestsAllowed'', PolicyTypeBool),
     (''WebComponentsV0Enabled'', PolicyTypeBool),
     (''WebDriverOverridesIncompatiblePolicies'', PolicyTypeBool),
     (''WebHidAllowAllDevicesForUrls'', PolicyTypeListString),
     (''WebHidAllowDevicesForUrls'', PolicyTypeDict),
     (''WebHidAllowDevicesWithHidUsagesForUrls'', PolicyTypeDict),
     (''WebHidAskForUrls'', PolicyTypeListString),
     (''WebHidBlockedForUrls'', PolicyTypeListString),
     (''WebRtcAllowLegacyTLSProtocols'', PolicyTypeBool),
     (''WebRtcEventLogCollectionAllowed'', PolicyTypeBool),
     (''WebRtcIPHandling'', PolicyTypeString),
     (''WebRtcIPHandlingUrl'', PolicyTypeDict),
     (''WebRtcLocalIpsAllowedUrls'', PolicyTypeListString),
     (''WebRtcPostQuantumKeyAgreement'', PolicyTypeBool),
     (''WebRtcTextLogCollectionAllowed'', PolicyTypeBool),
     (''WebRtcUdpPortRange'', PolicyTypeString),
     (''WebSQLAccess'', PolicyTypeBool),
     (''WebSQLInThirdPartyContextEnabled'', PolicyTypeBool),
     (''WebSQLNonSecureContextEnabled'', PolicyTypeBool),
     (''WebUsbAllowDevicesForUrls'', PolicyTypeDict),
     (''WebUsbAskForUrls'', PolicyTypeListString),
     (''WebUsbBlockedForUrls'', PolicyTypeListString),
     (''WindowCaptureAllowedByOrigins'', PolicyTypeListString),
     (''WindowManagementAllowedForUrls'', PolicyTypeListString),
     (''WindowManagementBlockedForUrls'', PolicyTypeListString),
     (''WindowPlacementAllowedForUrls'', PolicyTypeListString),
     (''WindowPlacementBlockedForUrls'', PolicyTypeListString),
     (''ZstdContentEncodingEnabled'', PolicyTypeBool)]"

definition policyRegistry :: "string \<rightharpoonup> PolicyValueType" where
  "policyRegistry = map_of (registry_1 @ registry_2 @ registry_3 @ registry_4 @ registry_5)"

text \<open>Lookups in the table, entry by entry: rewriting the whole list at once is slow.\<close>

lemma registry_skip: "l \<noteq> k \<Longrightarrow> map_of xs k = r \<Longrightarrow> map_of ((l, v) # xs) k = r"
  by simp

lemma registry_end: "map_of [] k = None"
  by simp

lemma registry_found: "map_of ((k, v) # xs) k = Some v"
  by simp

lemma registry_has_DeveloperToolsAvailability:
  "policyRegistry ''DeveloperToolsAvailability'' = Some PolicyTypeInt"
proof -
  have "map_of registry_1 ''DeveloperToolsAvailability'' = None"
    unfolding registry_1_def by (rule registry_skip, (simp; fail))+ (rule registry_end)
  moreover have "map_of registry_2 ''DeveloperToolsAvailability'' = Some PolicyTypeInt"
    unfolding registry_2_def by (rule registry_skip, (simp; fail))+ (rule registry_found)
  ultimately show ?thesis by (simp add: policyRegistry_def map_add_def)
qed

lemma registry_lacks_lower_case: "policyRegistry ''extensionsettings'' = None"
proof -
  have "map_of registry_1 ''extensionsettings'' = None"
    unfolding registry_1_def by (rule registry_skip, (simp; fail))+ (rule registry_end)
  moreover have "map_of registry_2 ''extensionsettings'' = None"
    unfolding registry_2_def by (rule registry_skip, (simp; fail))+ (rule registry_end)
  moreover have "map_of registry_3 ''extensionsettings'' = None"
    unfolding registry_3_def by (rule registry_skip, (simp; fail))+ (rule registry_end)
  moreover have "map_of registry_4 ''extensionsettings'' = None"
    unfolding registry_4_def by (rule registry_skip, (simp; fail))+ (rule registry_end)
  moreover have "map_of registry_5 ''extensionsettings'' = None"
    unfolding registry_5_def by (rule registry_skip, (simp; fail))+ (rule registry_end)
  ultimately show ?thesis by (simp add: policyRegistry_def)
qed

end
