(* ===== verification/Policy.thy ===== *)
theory Policy
  imports GoJson PolicyRegistry
begin

text \<open>
  The enterprise policy file (\<open>lib/policy/policy.go\<close>, \<open>lib/policy/overrides.go\<close>): a struct with
  the two fields the program manages and every other member of the file kept as it is, its
  read-modify-write cycle, the registration of extensions, and the validated overrides of the
  policies endpoint. The lemmas show that the cycle loses nothing, what a registration and an
  override change, and where the check of blocked names and the decoder disagree.
\<close>

section \<open>The policy and its JSON form\<close>

record ExtensionSetting =
  InstallationMode :: string
  UpdateUrl :: string
  AllowedTypes :: "string list option"
  InstallSources :: "string list option"
  RuntimeBlockedHosts :: "string list option"
  RuntimeAllowedHosts :: "string list option"

definition no_setting :: ExtensionSetting where
  "no_setting = \<lparr>InstallationMode = [], UpdateUrl = [], AllowedTypes = None, InstallSources = None,
                 RuntimeBlockedHosts = None, RuntimeAllowedHosts = None\<rparr>"

definition setting_fields :: "ExtensionSetting struct_fields" where
  "setting_fields =
     [(''installation_mode'', plain_field as_string InstallationMode_update),
      (''update_url'', plain_field as_string UpdateUrl_update),
      (''allowed_types'', slice_field string_elem AllowedTypes_update),
      (''install_sources'', slice_field string_elem InstallSources_update),
      (''runtime_blocked_hosts'', slice_field string_elem RuntimeBlockedHosts_update),
      (''runtime_allowed_hosts'', slice_field string_elem RuntimeAllowedHosts_update)]"

definition marshal_setting :: "ExtensionSetting \<Rightarrow> json" where
  "marshal_setting s =
     JObject (omit_string ''installation_mode'' (InstallationMode s) @
              omit_string ''update_url'' (UpdateUrl s) @
              omit_strings ''allowed_types'' (AllowedTypes s) @
              omit_strings ''install_sources'' (InstallSources s) @
              omit_strings ''runtime_blocked_hosts'' (RuntimeBlockedHosts s) @
              omit_strings ''runtime_allowed_hosts'' (RuntimeAllowedHosts s))"

text \<open>The mutex of \<open>Policy\<close> makes each operation one step; it is not part of the record.\<close>

record Policy =
  ExtensionInstallForcelist :: "string list option"
  ExtensionSettings :: "(string \<times> ExtensionSetting) list option"
  unknownFields :: "members option"

record policyJSON =
  pj_ExtensionInstallForcelist :: "string list option"
  pj_ExtensionSettings :: "(string \<times> ExtensionSetting) list option"

definition policyJSON_fields :: "policyJSON struct_fields" where
  "policyJSON_fields =
     [(''ExtensionInstallForcelist'', slice_field string_elem pj_ExtensionInstallForcelist_update),
      (''ExtensionSettings'',
        map_field (\<lambda>v. decode_struct setting_fields v no_setting)
          pj_ExtensionSettings pj_ExtensionSettings_update)]"

definition knownPolicyFields :: "string list" where
  "knownPolicyFields = [''ExtensionInstallForcelist'', ''ExtensionSettings'']"

definition UnmarshalJSON :: "json \<Rightarrow> Policy option" where
  "UnmarshalJSON data =
     (case raw_map data of
        None \<Rightarrow> None
      | Some allFields \<Rightarrow>
          (case decode_struct policyJSON_fields data
                  \<lparr>pj_ExtensionInstallForcelist = None, pj_ExtensionSettings = None\<rparr> of
             None \<Rightarrow> None
           | Some pj \<Rightarrow>
               Some \<lparr>ExtensionInstallForcelist = pj_ExtensionInstallForcelist pj,
                     ExtensionSettings = pj_ExtensionSettings pj,
                     unknownFields =
                       Some (filter (\<lambda>(key, value). key \<notin> set knownPolicyFields) allFields)\<rparr>))"

definition marshal_policyJSON :: "Policy \<Rightarrow> members" where
  "marshal_policyJSON p =
     omit_strings ''ExtensionInstallForcelist'' (ExtensionInstallForcelist p) @
     [(''ExtensionSettings'',
        case ExtensionSettings p of
          None \<Rightarrow> JNull
        | Some m \<Rightarrow> JObject (map (\<lambda>(k, s). (to_valid_utf8 k, marshal_setting s)) m))]"

definition MarshalJSON :: "Policy \<Rightarrow> json" where
  "MarshalJSON p =
     (case unknownFields p of
        Some (kv # kvs) \<Rightarrow>
          JObject (map (\<lambda>(k, v). (to_valid_utf8 k, v))
            (put_all (kv # kvs) (put_all (marshal_policyJSON p) [])))
      | _ \<Rightarrow> JObject (marshal_policyJSON p))"

section \<open>The file\<close>

text \<open>
  \<open>NilMapWrite\<close> is the panic of a store into a nil map. The result of \<open>os.WriteFile\<close> is a
  parameter: \<open>None\<close> when it succeeds, \<open>Some f\<close> when it fails and leaves \<open>f\<close> behind.
\<close>

datatype override_error =
    Blocked string string
  | BadJson string
  | WrongType string PolicyValueType
  | NotInteger string
  | WrongItem string nat
  | BadDevTools string

datatype policy_error =
    ReadFailed
  | ParseFailed
  | WriteFailed
  | NilMapWrite
  | InvalidOverrides "override_error list"

definition readFromDisk :: "jfile \<Rightarrow> policy_error + Policy" where
  "readFromDisk file =
     (case file of
        Missing \<Rightarrow> Inr \<lparr>ExtensionInstallForcelist = Some [], ExtensionSettings = Some [],
                        unknownFields = None\<rparr>
      | Unreadable \<Rightarrow> Inl ReadFailed
      | Blank \<Rightarrow> Inl ParseFailed
      | BadText \<Rightarrow> Inl ParseFailed
      | JsonText j \<Rightarrow>
          (case UnmarshalJSON j of
             None \<Rightarrow> Inl ParseFailed
           | Some p \<Rightarrow>
               (let p = (if ExtensionSettings p = None then p\<lparr>ExtensionSettings := Some []\<rparr> else p)
                in Inr (if ExtensionInstallForcelist p = None
                        then p\<lparr>ExtensionInstallForcelist := Some []\<rparr> else p))))"

definition writeToDisk :: "jfile option \<Rightarrow> Policy \<Rightarrow> policy_error option \<times> jfile" where
  "writeToDisk wr p =
     (case wr of Some left_behind \<Rightarrow> (Some WriteFailed, left_behind)
      | None \<Rightarrow> (None, JsonText (MarshalJSON p)))"

definition Modify ::
  "jfile option \<Rightarrow> (Policy \<Rightarrow> policy_error + Policy) \<Rightarrow> jfile \<Rightarrow> policy_error option \<times> jfile" where
  "Modify wr fn file =
     (case readFromDisk file of
        Inl e \<Rightarrow> (Some e, file)
      | Inr current \<Rightarrow>
          (case fn current of Inl e \<Rightarrow> (Some e, file) | Inr p \<Rightarrow> writeToDisk wr p))"

section \<open>Extensions\<close>

record ExtensionRegistration =
  reg_Name :: string
  reg_ChromeExtensionID :: string
  reg_RequiresEnterprisePolicy :: bool

definition update_url :: "string \<Rightarrow> string" where
  "update_url name = ''http://127.0.0.1:10001/extensions/'' @ name @ ''/update.xml''"

definition forcelist_entry :: "ExtensionRegistration \<Rightarrow> string" where
  "forcelist_entry r = reg_ChromeExtensionID r @ '';'' @ update_url (reg_Name r)"

definition add_registration :: "Policy \<Rightarrow> ExtensionRegistration \<Rightarrow> Policy option" where
  "add_registration current r =
     (let setting = no_setting\<lparr>UpdateUrl := update_url (reg_Name r)\<rparr> in
      case ExtensionSettings current of
        None \<Rightarrow> None
      | Some m \<Rightarrow>
          Some (if reg_RequiresEnterprisePolicy r then
                  let setting = setting\<lparr>InstallationMode := ''force_installed''\<rparr>;
                      prefix = reg_ChromeExtensionID r @ '';'';
                      fl = (case ExtensionInstallForcelist current of Some l \<Rightarrow> l | None \<Rightarrow> []);
                      fl = filter (\<lambda>entry. \<not> has_prefix prefix entry) fl
                  in current\<lparr>ExtensionInstallForcelist := Some (fl @ [forcelist_entry r]),
                             ExtensionSettings := Some (put (reg_ChromeExtensionID r) setting m)\<rparr>
                else current\<lparr>ExtensionSettings := Some (put (reg_Name r) setting m)\<rparr>))"

definition default_setting :: ExtensionSetting where
  "default_setting = no_setting\<lparr>AllowedTypes := Some [''extension''], InstallSources := Some [''*'']\<rparr>"

definition addExtensionRegistrations ::
  "ExtensionRegistration list \<Rightarrow> Policy \<Rightarrow> Policy option" where
  "addExtensionRegistrations extensions current =
     (case ExtensionSettings current of
        None \<Rightarrow> None
      | Some m \<Rightarrow>
          fold_opt (\<lambda>r p. add_registration p r) extensions
            (if map_of m ''*'' = None
             then current\<lparr>ExtensionSettings := Some (put ''*'' default_setting m)\<rparr> else current))"

definition AddExtensions ::
  "jfile option \<Rightarrow> ExtensionRegistration list \<Rightarrow> jfile \<Rightarrow> policy_error option \<times> jfile" where
  "AddExtensions wr extensions file =
     Modify wr (\<lambda>p. case addExtensionRegistrations extensions p of
                      None \<Rightarrow> Inl NilMapWrite | Some p' \<Rightarrow> Inr p') file"

definition AddExtension ::
  "jfile option \<Rightarrow> string \<Rightarrow> string \<Rightarrow> bool \<Rightarrow> jfile \<Rightarrow> policy_error option \<times> jfile" where
  "AddExtension wr name chromeID req file =
     AddExtensions wr [\<lparr>reg_Name = name, reg_ChromeExtensionID = chromeID,
                        reg_RequiresEnterprisePolicy = req\<rparr>] file"

text \<open>The manifest check: any failure to read or parse is \<open>None\<close>.\<close>

definition RequiresEnterprisePolicy :: "jfile \<Rightarrow> bool option" where
  "RequiresEnterprisePolicy manifest =
     (case manifest of
        JsonText j \<Rightarrow>
          (if \<not> floats_ok j then None
           else case raw_map j of
                  None \<Rightarrow> None
                | Some m \<Rightarrow>
                    (case map_of m ''permissions'' of
                       Some (JArray perms) \<Rightarrow>
                         Some (\<exists>perm \<in> set perms. perm = JString ''webRequestBlocking'' \<or>
                                                 perm = JString ''webRequest'')
                     | _ \<Rightarrow> Some False))
      | _ \<Rightarrow> None)"

text \<open>
  \<open>update.xml\<close>, parsed: the \<open>appid\<close> attribute of each \<open>app\<close> element, empty where it has none.
\<close>

datatype xmlfile = XUnreadable | XBadText | XApps "string list"

datatype xml_error = XReadFailed | XParseFailed | XNoApp | XEmptyID | XInvalidID string

definition extension_id :: "string \<Rightarrow> bool" where
  "extension_id s \<longleftrightarrow> length s = 32 \<and> (\<forall>c \<in> set s. byte CHR ''a'' \<le> byte c \<and> byte c \<le> byte CHR ''p'')"

definition ExtractExtensionIDFromUpdateXML :: "xmlfile \<Rightarrow> xml_error + string" where
  "ExtractExtensionIDFromUpdateXML file =
     (case file of
        XUnreadable \<Rightarrow> Inl XReadFailed
      | XBadText \<Rightarrow> Inl XParseFailed
      | XApps [] \<Rightarrow> Inl XNoApp
      | XApps (appID # _) \<Rightarrow>
          (if appID = [] then Inl XEmptyID
           else if \<not> extension_id appID then Inl (XInvalidID appID)
           else Inr appID))"

section \<open>Overrides\<close>

definition blockedPolicies :: "(string \<times> string) list" where
  "blockedPolicies =
     [(''ExtensionSettings'', ''managed by kernel extension system''),
      (''ExtensionInstallForcelist'', ''managed by kernel extension system''),
      (''ExtensionInstallBlocklist'', ''could interfere with kernel extensions''),
      (''ExtensionInstallBlacklist'', ''could interfere with kernel extensions''),
      (''ExtensionInstallAllowlist'', ''could interfere with kernel extensions''),
      (''ExtensionInstallWhitelist'', ''could interfere with kernel extensions''),
      (''BlockExternalExtensions'', ''could interfere with kernel extensions''),
      (''ExtensionAllowedTypes'', ''could interfere with kernel extensions''),
      (''ExtensionInstallSources'', ''could interfere with kernel extensions''),
      (''ExtensionManifestV2Availability'', ''could interfere with kernel extensions''),
      (''RemoteDebuggingAllowed'', ''required for CDP connectivity''),
      (''DeveloperToolsDisabled'', ''required for CDP connectivity''),
      (''DeveloperToolsAvailabilityAllowlist'', ''required for CDP connectivity''),
      (''DeveloperToolsAvailabilityBlocklist'', ''required for CDP connectivity''),
      (''ChromeForTestingAllowed'', ''required for automation''),
      (''WebDriverOverridesIncompatiblePolicies'', ''required for automation''),
      (''ProxySettings'', ''use kernel's proxy API instead''),
      (''ProxyMode'', ''use kernel's proxy API instead''),
      (''ProxyServer'', ''use kernel's proxy API instead''),
      (''ProxyBypassList'', ''use kernel's proxy API instead''),
      (''ProxyPacUrl'', ''use kernel's proxy API instead'')]"

text \<open>
  Overrides are a map from policy name to the parsed value. \<open>int(f)\<close> of a double outside the
  range of \<open>int\<close> is left to the implementation by the language: it is the parameter \<open>oob\<close>.
\<close>

type_synonym overrides = members

fun bad_item :: "nat \<Rightarrow> json list \<Rightarrow> nat option" where
  "bad_item i [] = None"
| "bad_item i (v # vs) = (if as_string v = None then Some i else bad_item (Suc i) vs)"

definition validatePolicyValue ::
  "(int \<Rightarrow> int) \<Rightarrow> string \<Rightarrow> json \<Rightarrow> PolicyValueType \<Rightarrow> override_error option" where
  "validatePolicyValue oob name raw expected =
     (if \<not> floats_ok raw then Some (BadJson name)
      else case expected of
        PolicyTypeBool \<Rightarrow> (if as_bool raw = None then Some (WrongType name expected) else None)
      | PolicyTypeInt \<Rightarrow>
          (case raw of
             JNumber n \<Rightarrow>
               (case f64_int n of
                  None \<Rightarrow> Some (NotInteger name)
                | Some i \<Rightarrow>
                    if int64_ok i \<or> f64_int (IntLit (oob i)) = Some i then None
                    else Some (NotInteger name))
           | _ \<Rightarrow> Some (WrongType name expected))
      | PolicyTypeString \<Rightarrow> (if as_string raw = None then Some (WrongType name expected) else None)
      | PolicyTypeListString \<Rightarrow>
          (case raw of
             JArray vs \<Rightarrow> map_option (WrongItem name) (bad_item 0 vs)
           | _ \<Rightarrow> Some (WrongType name expected))
      | PolicyTypeDict \<Rightarrow>
          (case raw of JObject _ \<Rightarrow> None | JArray _ \<Rightarrow> None | _ \<Rightarrow> Some (WrongType name expected)))"

definition validateDeveloperToolsAvailability :: "string \<Rightarrow> json \<Rightarrow> override_error option" where
  "validateDeveloperToolsAvailability name raw =
     (case (if raw = JNull then Some (IntLit 0) else as_float raw) of
        None \<Rightarrow> Some (BadJson name)
      | Some n \<Rightarrow>
          if f64_int n \<noteq> Some 0 \<and> f64_int n \<noteq> Some 1 then Some (BadDevTools name) else None)"

definition validate_entry :: "(int \<Rightarrow> int) \<Rightarrow> string \<Rightarrow> json \<Rightarrow> override_error option" where
  "validate_entry oob name raw =
     (case map_of blockedPolicies name of
        Some reason \<Rightarrow> Some (Blocked name reason)
      | None \<Rightarrow>
          (case policyRegistry name of
             None \<Rightarrow> (if floats_ok raw then None else Some (BadJson name))
           | Some expectedType \<Rightarrow>
               (case validatePolicyValue oob name raw expectedType of
                  Some err \<Rightarrow> Some err
                | None \<Rightarrow>
                    if name = ''DeveloperToolsAvailability''
                    then validateDeveloperToolsAvailability name raw else None)))"

definition Validate :: "(int \<Rightarrow> int) \<Rightarrow> overrides \<Rightarrow> override_error list" where
  "Validate oob ov = List.map_filter (\<lambda>(name, raw). validate_entry oob name raw) ov"

definition MergeIntoPolicy :: "overrides \<Rightarrow> Policy \<Rightarrow> Policy" where
  "MergeIntoPolicy ov p =
     p\<lparr>unknownFields := Some (put_all ov (case unknownFields p of Some m \<Rightarrow> m | None \<Rightarrow> []))\<rparr>"

definition ApplyOverrides ::
  "(int \<Rightarrow> int) \<Rightarrow> jfile option \<Rightarrow> overrides \<Rightarrow> jfile \<Rightarrow> policy_error option \<times> jfile" where
  "ApplyOverrides oob wr ov file =
     (case Validate oob ov of
        [] \<Rightarrow> Modify wr (\<lambda>p. Inr (MergeIntoPolicy ov p)) file
      | errs \<Rightarrow> (Some (InvalidOverrides errs), file))"

section \<open>Decoding what was encoded\<close>

definition norm_strings :: "string list option \<Rightarrow> string list option" where
  "norm_strings l = (if l = Some [] then None else l)"

definition norm_setting :: "ExtensionSetting \<Rightarrow> ExtensionSetting" where
  "norm_setting s = s\<lparr>AllowedTypes := norm_strings (AllowedTypes s),
                      InstallSources := norm_strings (InstallSources s),
                      RuntimeBlockedHosts := norm_strings (RuntimeBlockedHosts s),
                      RuntimeAllowedHosts := norm_strings (RuntimeAllowedHosts s)\<rparr>"

definition strings_utf8 :: "string list option \<Rightarrow> bool" where
  "strings_utf8 l = (case l of None \<Rightarrow> True | Some xs \<Rightarrow> \<forall>s \<in> set xs. valid_utf8 s)"

definition setting_utf8 :: "ExtensionSetting \<Rightarrow> bool" where
  "setting_utf8 s \<longleftrightarrow> valid_utf8 (InstallationMode s) \<and> valid_utf8 (UpdateUrl s) \<and>
     strings_utf8 (AllowedTypes s) \<and> strings_utf8 (InstallSources s) \<and>
     strings_utf8 (RuntimeBlockedHosts s) \<and> strings_utf8 (RuntimeAllowedHosts s)"

lemma decode_omit_string:
  assumes "find_field fs name = Some (plain_field as_string upd)" "valid_utf8 x"
    and "upd (\<lambda>_. []) s = s"
  shows "decode_members fs (omit_string name x) s = Some (upd (\<lambda>_. x) s)"
  using assms by (auto simp: omit_string_def plain_field_def)

lemma decode_omit_strings:
  assumes "find_field fs name = Some (slice_field string_elem upd)" "strings_utf8 l"
    and "upd (\<lambda>_. None) s = s"
  shows "decode_members fs (omit_strings name l) s = Some (upd (\<lambda>_. norm_strings l) s)"
  using assms map_all_jstr[of "the l"]
  by (auto simp: omit_strings_def slice_field_def ptr_field_def norm_strings_def strings_utf8_def
      split: option.splits list.splits)

lemma find_setting_field:
  "find_field setting_fields ''installation_mode'' = Some (plain_field as_string InstallationMode_update)"
  "find_field setting_fields ''update_url'' = Some (plain_field as_string UpdateUrl_update)"
  "find_field setting_fields ''allowed_types'' = Some (slice_field string_elem AllowedTypes_update)"
  "find_field setting_fields ''install_sources'' = Some (slice_field string_elem InstallSources_update)"
  "find_field setting_fields ''runtime_blocked_hosts'' = Some (slice_field string_elem RuntimeBlockedHosts_update)"
  "find_field setting_fields ''runtime_allowed_hosts'' = Some (slice_field string_elem RuntimeAllowedHosts_update)"
  by (simp_all add: setting_fields_def names_match_def upper_def byte_def)

lemma decode_marshal_setting:
  assumes "setting_utf8 s"
  shows "decode_struct setting_fields (marshal_setting s) no_setting = Some (norm_setting s)"
proof -
  note u = assms[unfolded setting_utf8_def]
  show ?thesis
    unfolding marshal_setting_def decode_struct.simps decode_members_append no_setting_def
    using u by (simp add: decode_omit_string[OF find_setting_field(1)]
        decode_omit_string[OF find_setting_field(2)] decode_omit_strings[OF find_setting_field(3)]
        decode_omit_strings[OF find_setting_field(4)] decode_omit_strings[OF find_setting_field(5)]
        decode_omit_strings[OF find_setting_field(6)] norm_setting_def)
qed

text \<open>
  What the file keeps of a policy: empty lists inside a setting are not written, and the reader
  fills in empty containers for absent ones.
\<close>

definition default_to :: "'a \<Rightarrow> 'a option \<Rightarrow> 'a" where
  "default_to d x = (case x of Some y \<Rightarrow> y | None \<Rightarrow> d)"

definition settings_of :: "Policy \<Rightarrow> (string \<times> ExtensionSetting) list" where
  "settings_of p = default_to [] (ExtensionSettings p)"

definition unknown_of :: "Policy \<Rightarrow> members" where
  "unknown_of p = default_to [] (unknownFields p)"

definition forcelist_of :: "Policy \<Rightarrow> string list" where
  "forcelist_of p = default_to [] (ExtensionInstallForcelist p)"

definition stored :: "Policy \<Rightarrow> Policy" where
  "stored p = \<lparr>ExtensionInstallForcelist = Some (forcelist_of p),
               ExtensionSettings = Some (map (\<lambda>(k, s). (k, norm_setting s)) (settings_of p)),
               unknownFields = Some (unknown_of p)\<rparr>"

definition policy_ok :: "Policy \<Rightarrow> bool" where
  "policy_ok p \<longleftrightarrow>
     (\<forall>s \<in> set (forcelist_of p). valid_utf8 s) \<and>
     map_ok (settings_of p) \<and>
     (\<forall>(k, s) \<in> set (settings_of p). valid_utf8 k \<and> setting_utf8 s) \<and>
     map_ok (unknown_of p) \<and>
     (\<forall>(k, v) \<in> set (unknown_of p). valid_utf8 k \<and> \<not> known_member policyJSON_fields k)"

lemma known_names:
  "known_member policyJSON_fields ''ExtensionInstallForcelist''"
  "known_member policyJSON_fields ''ExtensionSettings''"
  by (simp_all add: known_member_iff policyJSON_fields_def)

lemma known_names_utf8: "k \<in> set knownPolicyFields \<Longrightarrow> valid_utf8 k"
proof -
  have "list_all valid_utf8 knownPolicyFields" by code_simp
  then show "k \<in> set knownPolicyFields \<Longrightarrow> valid_utf8 k" by (simp add: list_all_iff)
qed

lemma find_policy_field:
  "find_field policyJSON_fields ''ExtensionInstallForcelist'' =
     Some (slice_field string_elem pj_ExtensionInstallForcelist_update)"
  "find_field policyJSON_fields ''ExtensionSettings'' =
     Some (map_field (\<lambda>v. decode_struct setting_fields v no_setting)
       pj_ExtensionSettings pj_ExtensionSettings_update)"
  by (simp_all add: policyJSON_fields_def names_match_def upper_def byte_def)

lemma known_members_sorted: "map_ok (marshal_policyJSON p)"
  by (auto simp: map_ok_def marshal_policyJSON_def omit_strings_def less_char_def split: option.splits list.splits)

lemma known_members_keys: "set (map fst (marshal_policyJSON p)) \<subseteq> set knownPolicyFields"
  by (auto simp: marshal_policyJSON_def knownPolicyFields_def omit_strings_def split: option.splits list.splits)

text \<open>The members written are the known ones and the unknown ones, in key order.\<close>

lemma MarshalJSON_members:
  assumes "policy_ok p"
  obtains ms where "MarshalJSON p = JObject ms" "map_ok ms"
    "filter (\<lambda>(k, v). known_member policyJSON_fields k) ms = marshal_policyJSON p"
    "filter (\<lambda>(k, v). k \<notin> set knownPolicyFields) ms = unknown_of p"
proof
  let ?K = "marshal_policyJSON p" and ?U = "unknown_of p"
  let ?M = "put_all ?U ?K"
  have K: "map_ok ?K" and U: "map_ok ?U" and M: "map_ok ?M"
    using assms known_members_sorted by (auto simp: policy_ok_def)
  have look: "map_of ?M = map_of ?K ++ map_of ?U"
    using K U by (simp add: map_of_put_all map_of_rev_distinct map_ok_distinct)
  have Kkeys: "k \<in> set knownPolicyFields \<and> known_member policyJSON_fields k"
    if "map_of ?K k = Some v" for k v
    using that known_members_keys[of p] known_names
    by (force simp: knownPolicyFields_def dest: map_of_SomeD)
  have Ukeys: "k \<notin> set knownPolicyFields \<and> \<not> known_member policyJSON_fields k"
    if "map_of ?U k = Some v" for k v
    using that assms known_names
    by (fastforce simp: policy_ok_def knownPolicyFields_def dest: map_of_SomeD)
  have Knone: "map_of ?K k = None" if "k \<notin> set knownPolicyFields \<or> \<not> known_member policyJSON_fields k" for k
    using Kkeys[of k] that by (cases "map_of ?K k") auto
  have Unone: "map_of ?U k = None" if "k \<in> set knownPolicyFields \<or> known_member policyJSON_fields k" for k
    using Ukeys[of k] that by (cases "map_of ?U k") auto
  have ids: "map (\<lambda>(k, v). (to_valid_utf8 k, v)) ?M = ?M"
  proof (rule map_idI)
    fix kv assume kv: "kv \<in> set ?M"
    obtain k v where [simp]: "kv = (k, v)" by (cases kv)
    have "map_of ?M k = Some v" using kv M by (simp add: map_ok_distinct)
    then have "valid_utf8 k"
      using assms Kkeys known_names_utf8 unfolding look
      by (fastforce simp: policy_ok_def map_add_Some_iff dest: map_of_SomeD)
    then show "(case kv of (k, v) \<Rightarrow> (to_valid_utf8 k, v)) = kv" by simp
  qed
  show "MarshalJSON p = JObject ?M"
  proof (cases "?U")
    case Nil
    then show ?thesis
      by (auto simp: MarshalJSON_def unknown_of_def default_to_def split: option.splits list.splits)
  next
    case (Cons kv kvs)
    then have "unknownFields p = Some (kv # kvs)"
      by (auto simp: unknown_of_def default_to_def split: option.splits)
    with Cons ids show ?thesis by (simp add: MarshalJSON_def put_all_sorted[OF K])
  qed
  show "map_ok ?M" by (rule M)
  show "filter (\<lambda>(k, v). known_member policyJSON_fields k) ?M = ?K"
    by (rule map_ok_ext) (use K M Knone Unone in \<open>auto simp: map_of_filter_keys look fun_eq_iff
        map_add_def split: option.splits\<close>)
  show "filter (\<lambda>(k, v). k \<notin> set knownPolicyFields) ?M = ?U"
    by (rule map_ok_ext) (use U M Knone Unone in \<open>auto simp: map_of_filter_keys look fun_eq_iff
        map_add_def split: option.splits\<close>)
qed

lemma decode_known_members:
  assumes "policy_ok p"
  shows "decode_members policyJSON_fields (marshal_policyJSON p)
      \<lparr>pj_ExtensionInstallForcelist = None, pj_ExtensionSettings = None\<rparr> =
    Some \<lparr>pj_ExtensionInstallForcelist = norm_strings (ExtensionInstallForcelist p),
          pj_ExtensionSettings =
            map_option (map (\<lambda>(k, s). (k, norm_setting s))) (ExtensionSettings p)\<rparr>"
proof -
  have fl: "strings_utf8 (ExtensionInstallForcelist p)"
    using assms by (auto simp: policy_ok_def strings_utf8_def forcelist_of_def default_to_def
        split: option.splits)
  have st: "map_all (\<lambda>(k, v). map_option (Pair k) (decode_struct setting_fields v no_setting))
        (map (\<lambda>(k, s). (to_valid_utf8 k, marshal_setting s)) m) =
      Some (map (\<lambda>(k, s). (k, norm_setting s)) m) \<and> map_ok (map (\<lambda>(k, s). (k, norm_setting s)) m)"
    if "ExtensionSettings p = Some m" for m
  proof
    have ok: "map_ok m" "\<And>k s. (k, s) \<in> set m \<Longrightarrow> valid_utf8 k \<and> setting_utf8 s"
      using assms that by (auto simp: policy_ok_def settings_of_def default_to_def)
    show "map_all (\<lambda>(k, v). map_option (Pair k) (decode_struct setting_fields v no_setting))
        (map (\<lambda>(k, s). (to_valid_utf8 k, marshal_setting s)) m) = Some (map (\<lambda>(k, s). (k, norm_setting s)) m)"
      by (rule map_all_map) (auto dest!: ok(2) simp: decode_marshal_setting)
    then show "map_ok (map (\<lambda>(k, s). (k, norm_setting s)) m)"
      using ok(1) by (simp add: map_ok_def comp_def split_def)
  qed
  show ?thesis
    unfolding marshal_policyJSON_def decode_members_append
    using fl st by (cases "ExtensionSettings p")
      (simp_all add: decode_omit_strings[OF find_policy_field(1)] find_policy_field map_field_def
        put_all_sorted)
qed

lemma read_marshalled:
  assumes "policy_ok p"
  shows "readFromDisk (JsonText (MarshalJSON p)) = Inr (stored p)"
proof -
  obtain ms where ms: "MarshalJSON p = JObject ms" "map_ok ms"
    "filter (\<lambda>(k, v). known_member policyJSON_fields k) ms = marshal_policyJSON p"
    "filter (\<lambda>(k, v). k \<notin> set knownPolicyFields) ms = unknown_of p"
    using MarshalJSON_members[OF assms] .
  have "decode_members policyJSON_fields ms z = decode_members policyJSON_fields (marshal_policyJSON p) z" for z
    using decode_members_known[of policyJSON_fields ms z] ms(3) by simp
  then have "UnmarshalJSON (MarshalJSON p) =
      Some \<lparr>ExtensionInstallForcelist = norm_strings (ExtensionInstallForcelist p),
            ExtensionSettings = map_option (map (\<lambda>(k, s). (k, norm_setting s))) (ExtensionSettings p),
            unknownFields = Some (unknown_of p)\<rparr>"
    using ms(1,2,4) by (simp add: UnmarshalJSON_def put_all_sorted decode_known_members[OF assms])
  then show ?thesis
    by (cases "ExtensionInstallForcelist p"; cases "ExtensionSettings p")
      (simp_all add: readFromDisk_def stored_def norm_strings_def forcelist_of_def settings_of_def
        default_to_def Let_def)
qed

text \<open>What the file keeps is kept by every later cycle.\<close>

lemma stored_views [simp]:
  "forcelist_of (stored p) = forcelist_of p"
  "unknown_of (stored p) = unknown_of p"
  "settings_of (stored p) = map (\<lambda>(k, s). (k, norm_setting s)) (settings_of p)"
  by (simp_all add: stored_def forcelist_of_def unknown_of_def settings_of_def default_to_def)

lemma norm_setting_idem [simp]: "norm_setting (norm_setting s) = norm_setting s"
  by (simp add: norm_setting_def norm_strings_def)

lemma stored_idem [simp]: "stored (stored p) = stored p"
  unfolding stored_def[of "stored p"] stored_views by (simp add: stored_def[of p] comp_def split_def)

section \<open>What a registration changes\<close>

definition enterprise_only :: "ExtensionRegistration list \<Rightarrow> ExtensionRegistration list" where
  "enterprise_only rs = filter reg_RequiresEnterprisePolicy rs"

text \<open>The last registration of each identifier, in order.\<close>

fun last_regs :: "ExtensionRegistration list \<Rightarrow> ExtensionRegistration list" where
  "last_regs [] = []"
| "last_regs (r # rs) =
     (if reg_ChromeExtensionID r \<in> set (map reg_ChromeExtensionID rs) then last_regs rs
      else r # last_regs rs)"

definition setting_key :: "ExtensionRegistration \<Rightarrow> string" where
  "setting_key r = (if reg_RequiresEnterprisePolicy r then reg_ChromeExtensionID r else reg_Name r)"

definition setting_value :: "ExtensionRegistration \<Rightarrow> ExtensionSetting" where
  "setting_value r =
     no_setting\<lparr>UpdateUrl := update_url (reg_Name r),
                InstallationMode := if reg_RequiresEnterprisePolicy r then ''force_installed'' else []\<rparr>"

lemma last_regs_snoc:
  "last_regs (rs @ [r]) =
     filter (\<lambda>s. reg_ChromeExtensionID s \<noteq> reg_ChromeExtensionID r) (last_regs rs) @ [r]"
  by (induction rs) auto

lemma set_last_regs: "set (last_regs rs) \<subseteq> set rs"
  by (induction rs) auto

lemma distinct_last_regs: "distinct (map reg_ChromeExtensionID (last_regs rs))"
  by (induction rs) (auto dest: subsetD[OF set_last_regs])

lemma entry_prefix:
  assumes "CHR '';'' \<notin> set (reg_ChromeExtensionID r)" "CHR '';'' \<notin> set (reg_ChromeExtensionID s)"
  shows "has_prefix (reg_ChromeExtensionID r @ '';'') (forcelist_entry s) \<longleftrightarrow>
    reg_ChromeExtensionID r = reg_ChromeExtensionID s"
proof
  assume "has_prefix (reg_ChromeExtensionID r @ '';'') (forcelist_entry s)"
  then obtain t where "forcelist_entry s = (reg_ChromeExtensionID r @ '';'') @ t" by (rule has_prefixE)
  then have "split_byte CHR '';'' (reg_ChromeExtensionID s @ CHR '';'' # update_url (reg_Name s)) =
      split_byte CHR '';'' (reg_ChromeExtensionID r @ CHR '';'' # t)"
    by (simp add: forcelist_entry_def)
  with assms show "reg_ChromeExtensionID r = reg_ChromeExtensionID s"
    by (simp add: split_byte_append)
next
  assume "reg_ChromeExtensionID r = reg_ChromeExtensionID s"
  then have "forcelist_entry s = (reg_ChromeExtensionID r @ '';'') @ update_url (reg_Name s)"
    by (simp add: forcelist_entry_def)
  then show "has_prefix (reg_ChromeExtensionID r @ '';'') (forcelist_entry s)"
    by (metis has_prefix_append)
qed

lemma add_registration_views:
  assumes "ExtensionSettings p = Some m"
  obtains p' where "add_registration p r = Some p'"
    "ExtensionSettings p' = Some (put (setting_key r) (setting_value r) m)"
    "unknownFields p' = unknownFields p"
    "forcelist_of p' =
       (if reg_RequiresEnterprisePolicy r
        then filter (\<lambda>e. \<not> has_prefix (reg_ChromeExtensionID r @ '';'') e) (forcelist_of p) @ [forcelist_entry r]
        else forcelist_of p)"
  using assms by (cases "reg_RequiresEnterprisePolicy r")
    (auto simp: add_registration_def setting_key_def setting_value_def no_setting_def Let_def
      forcelist_of_def default_to_def)

definition add_all :: "ExtensionRegistration list \<Rightarrow> string list \<Rightarrow> string list" where
  "add_all rs old =
     filter (\<lambda>e. \<forall>r \<in> set (enterprise_only rs). \<not> has_prefix (reg_ChromeExtensionID r @ '';'') e) old @
     map forcelist_entry (last_regs (enterprise_only rs))"

lemma registrations_views:
  assumes "\<forall>r \<in> set (enterprise_only rs). CHR '';'' \<notin> set (reg_ChromeExtensionID r)"
    and "ExtensionSettings p = Some m"
  shows "\<exists>p'. fold_opt (\<lambda>r p. add_registration p r) rs p = Some p' \<and>
    ExtensionSettings p' = Some (put_all (map (\<lambda>r. (setting_key r, setting_value r)) rs) m) \<and>
    unknownFields p' = unknownFields p \<and>
    forcelist_of p' = add_all rs (forcelist_of p)"
  using assms(1)
proof (induction rs rule: rev_induct)
  case Nil
  then show ?case using assms(2) by (simp add: add_all_def enterprise_only_def)
next
  case (snoc r rs)
  then obtain q where q: "fold_opt (\<lambda>r p. add_registration p r) rs p = Some q"
    "ExtensionSettings q = Some (put_all (map (\<lambda>r. (setting_key r, setting_value r)) rs) m)"
    "unknownFields q = unknownFields p" "forcelist_of q = add_all rs (forcelist_of p)"
    by (auto simp: enterprise_only_def)
  obtain p' where p': "add_registration q r = Some p'"
    "ExtensionSettings p' = Some (put (setting_key r) (setting_value r)
       (put_all (map (\<lambda>r. (setting_key r, setting_value r)) rs) m))"
    "unknownFields p' = unknownFields q"
    "forcelist_of p' =
       (if reg_RequiresEnterprisePolicy r
        then filter (\<lambda>e. \<not> has_prefix (reg_ChromeExtensionID r @ '';'') e) (forcelist_of q) @ [forcelist_entry r]
        else forcelist_of q)"
    using add_registration_views[OF q(2)] .
  have "forcelist_of p' = add_all (rs @ [r]) (forcelist_of p)"
  proof (cases "reg_RequiresEnterprisePolicy r")
    case True
    let ?pre = "\<lambda>e. has_prefix (reg_ChromeExtensionID r @ '';'') e"
    have free: "CHR '';'' \<notin> set (reg_ChromeExtensionID r)"
      "\<And>s. s \<in> set (last_regs (enterprise_only rs)) \<Longrightarrow> CHR '';'' \<notin> set (reg_ChromeExtensionID s)"
      using snoc.prems True by (auto simp: enterprise_only_def dest: subsetD[OF set_last_regs])
    have "filter (\<lambda>e. \<not> ?pre e) (map forcelist_entry (last_regs (enterprise_only rs))) =
        map forcelist_entry (filter (\<lambda>s. reg_ChromeExtensionID s \<noteq> reg_ChromeExtensionID r)
          (last_regs (enterprise_only rs)))"
      using free by (auto simp: filter_map comp_def entry_prefix intro!: arg_cong[of _ _ "map _"] filter_cong)
    with True show ?thesis
      unfolding p'(4) q(4) by (auto simp: add_all_def enterprise_only_def last_regs_snoc conj_commute)
  qed (simp add: p'(4) q(4) add_all_def enterprise_only_def)
  with p' q show ?case by (simp add: fold_opt_append put_all_append)
qed

text \<open>The file after a batch was added to a readable policy.\<close>

definition added :: "ExtensionRegistration list \<Rightarrow> Policy \<Rightarrow> Policy" where
  "added rs p =
     \<lparr>ExtensionInstallForcelist = Some (add_all rs (forcelist_of p)),
      ExtensionSettings = Some (put_all (map (\<lambda>r. (setting_key r, setting_value r)) rs)
        (if map_of (settings_of p) ''*'' = None then put ''*'' default_setting (settings_of p)
         else settings_of p)),
      unknownFields = unknownFields p\<rparr>"

definition ids_ok :: "ExtensionRegistration list \<Rightarrow> bool" where
  "ids_ok rs \<longleftrightarrow> (\<forall>r \<in> set (enterprise_only rs). CHR '';'' \<notin> set (reg_ChromeExtensionID r))"

lemma addExtensionRegistrations_added:
  assumes "ids_ok rs" "ExtensionSettings p = Some m" "ExtensionInstallForcelist p = Some l"
  shows "addExtensionRegistrations rs p = Some (added rs p)"
proof -
  let ?q = "if map_of m ''*'' = None then p\<lparr>ExtensionSettings := Some (put ''*'' default_setting m)\<rparr> else p"
  have q: "ExtensionSettings ?q = Some (if map_of m ''*'' = None then put ''*'' default_setting m else m)"
    "unknownFields ?q = unknownFields p" "forcelist_of ?q = l"
    using assms by (auto simp: forcelist_of_def default_to_def)
  obtain p' where p': "fold_opt (\<lambda>r p. add_registration p r) rs ?q = Some p'"
    "ExtensionSettings p' = Some (put_all (map (\<lambda>r. (setting_key r, setting_value r)) rs)
       (if map_of m ''*'' = None then put ''*'' default_setting m else m))"
    "unknownFields p' = unknownFields p" "forcelist_of p' = add_all rs l"
    using registrations_views[OF assms(1)[unfolded ids_ok_def] q(1)] q by auto
  have "ExtensionInstallForcelist p' \<noteq> None"
  proof (rule fold_opt_inv[where I = "\<lambda>p. ExtensionInstallForcelist p \<noteq> None", OF _ _ p'(1)])
    show "ExtensionInstallForcelist ?q \<noteq> None" using assms by auto
  qed (auto simp: add_registration_def Let_def split: option.splits if_splits)
  with p' have "p' = added rs p"
    using assms by (auto simp: added_def forcelist_of_def default_to_def settings_of_def)
  with p'(1) assms show ?thesis by (simp add: addExtensionRegistrations_def)
qed

lemma readFromDisk_nonnil:
  assumes "readFromDisk f = Inr p"
  obtains m l where "ExtensionSettings p = Some m" "ExtensionInstallForcelist p = Some l"
proof -
  have "ExtensionSettings p \<noteq> None \<and> ExtensionInstallForcelist p \<noteq> None"
    using assms by (auto simp: readFromDisk_def Let_def split: jfile.splits option.splits if_splits)
  with that show ?thesis by blast
qed

lemma AddExtensions_file:
  assumes "readFromDisk f = Inr p" "ids_ok rs"
  shows "AddExtensions None rs f = (None, JsonText (MarshalJSON (added rs p)))"
  using assms(1) by (rule readFromDisk_nonnil)
    (simp add: AddExtensions_def Modify_def writeToDisk_def assms addExtensionRegistrations_added)

section \<open>Properties\<close>

definition registration_utf8 :: "ExtensionRegistration \<Rightarrow> bool" where
  "registration_utf8 r \<longleftrightarrow> valid_utf8 (reg_Name r) \<and> valid_utf8 (reg_ChromeExtensionID r)"

lemma update_url_utf8: "valid_utf8 name \<Longrightarrow> valid_utf8 (update_url name)"
proof -
  assume "valid_utf8 name"
  moreover have "valid_utf8 ''http://127.0.0.1:10001/extensions/''" "valid_utf8 ''/update.xml''"
    by (rule valid_ascii, simp add: byte_def)+
  ultimately show ?thesis unfolding update_url_def by (intro valid_append)
qed

lemma forcelist_entry_utf8: "registration_utf8 r \<Longrightarrow> valid_utf8 (forcelist_entry r)"
proof -
  assume "registration_utf8 r"
  moreover have "valid_utf8 '';''" by (rule valid_ascii) (simp add: byte_def)
  ultimately show ?thesis
    unfolding forcelist_entry_def registration_utf8_def by (intro valid_append update_url_utf8) auto
qed

lemma setting_value_utf8: "registration_utf8 r \<Longrightarrow> valid_utf8 (setting_key r) \<and> setting_utf8 (setting_value r)"
proof -
  assume r: "registration_utf8 r"
  have "valid_utf8 ''force_installed''" by (rule valid_ascii) (simp add: byte_def)
  with r update_url_utf8 show ?thesis
    by (auto simp: setting_key_def setting_value_def setting_utf8_def no_setting_def
        strings_utf8_def registration_utf8_def)
qed

lemma default_setting_utf8: "valid_utf8 ''*'' \<and> setting_utf8 default_setting"
proof -
  have "valid_utf8 ''*''" "valid_utf8 ''extension''" by (rule valid_ascii, simp add: byte_def)+
  then show ?thesis
    by (simp add: default_setting_def setting_utf8_def no_setting_def strings_utf8_def)
qed

lemma added_views [simp]:
  "forcelist_of (added rs p) = add_all rs (forcelist_of p)"
  "settings_of (added rs p) = put_all (map (\<lambda>r. (setting_key r, setting_value r)) rs)
     (if map_of (settings_of p) ''*'' = None then put ''*'' default_setting (settings_of p)
      else settings_of p)"
  "unknown_of (added rs p) = unknown_of p"
  by (simp_all add: added_def forcelist_of_def settings_of_def unknown_of_def default_to_def)

lemma added_nonnil: "ExtensionSettings (added rs p) \<noteq> None"
  by (simp add: added_def)

lemma policy_ok_added [inv_step]:
  assumes "policy_ok p" "\<forall>r \<in> set rs. registration_utf8 r"
  shows "policy_ok (added rs p)"
proof -
  let ?kvs = "map (\<lambda>r. (setting_key r, setting_value r)) rs"
  let ?base = "if map_of (settings_of p) ''*'' = None then put ''*'' default_setting (settings_of p)
      else settings_of p"
  let ?good = "\<lambda>(k, s). valid_utf8 k \<and> setting_utf8 s"
  have "\<forall>kv \<in> set ?kvs. ?good kv" using assms(2) setting_value_utf8 by auto
  moreover have "\<forall>kv \<in> set ?base. ?good kv"
    using assms(1) default_setting_utf8 set_put_subset[of "''*''" default_setting "settings_of p"]
    by (auto simp: policy_ok_def)
  ultimately have "\<forall>kv \<in> set (put_all ?kvs ?base). ?good kv"
    using set_put_all_subset[of ?kvs ?base] by blast
  moreover have "\<forall>s \<in> set (add_all rs (forcelist_of p)). valid_utf8 s"
    using assms forcelist_entry_utf8 by (auto simp: policy_ok_def add_all_def enterprise_only_def
        dest!: subsetD[OF set_last_regs])
  ultimately show ?thesis
    using assms(1) unfolding policy_ok_def added_views by simp
qed

lemma utf8_norm [simp]:
  "strings_utf8 (norm_strings l) = strings_utf8 l"
  "setting_utf8 (norm_setting s) = setting_utf8 s"
  by (simp_all add: norm_strings_def strings_utf8_def setting_utf8_def norm_setting_def)

lemma policy_ok_stored [inv_step]: "policy_ok p \<Longrightarrow> policy_ok (stored p)"
  by (auto simp: policy_ok_def)

lemma omit_norm_strings [simp]: "omit_strings n (norm_strings l) = omit_strings n l"
  by (simp add: norm_strings_def omit_strings_def)

lemma marshal_norm_setting [simp]: "marshal_setting (norm_setting s) = marshal_setting s"
  by (simp add: marshal_setting_def norm_setting_def)

text \<open>
  The file depends on the views only, up to the normal form of the settings.
\<close>

lemma MarshalJSON_cong:
  assumes "forcelist_of p = forcelist_of q" "unknown_of p = unknown_of q"
    and "ExtensionSettings p \<noteq> None" "ExtensionSettings q \<noteq> None"
    and "map (\<lambda>(k, s). (k, norm_setting s)) (settings_of p) =
         map (\<lambda>(k, s). (k, norm_setting s)) (settings_of q)"
  shows "MarshalJSON p = MarshalJSON q"
proof -
  have m: "map (\<lambda>(k, s). (to_valid_utf8 k, marshal_setting s)) xs =
      map (\<lambda>(k, s). (to_valid_utf8 k, marshal_setting s)) (map (\<lambda>(k, s). (k, norm_setting s)) xs)" for xs
    by (induction xs) auto
  have "map (\<lambda>(k, s). (to_valid_utf8 k, marshal_setting s)) (settings_of p) =
      map (\<lambda>(k, s). (to_valid_utf8 k, marshal_setting s)) (settings_of q)"
    by (subst (1 2) m) (simp only: assms(5))
  moreover have "omit_strings n (ExtensionInstallForcelist p) = omit_strings n (ExtensionInstallForcelist q)" for n
    using assms(1) by (auto simp: omit_strings_def forcelist_of_def default_to_def split: option.splits list.splits)
  ultimately have k: "marshal_policyJSON p = marshal_policyJSON q"
    using assms(3,4) by (auto simp: marshal_policyJSON_def settings_of_def default_to_def)
  have mj: "MarshalJSON r = (case unknown_of r of [] \<Rightarrow> JObject (marshal_policyJSON r)
      | kv # kvs \<Rightarrow> JObject (map (\<lambda>(k, v). (to_valid_utf8 k, v))
            (put_all (kv # kvs) (put_all (marshal_policyJSON r) []))))" for r
    by (auto simp: MarshalJSON_def unknown_of_def default_to_def split: option.splits list.splits)
  show ?thesis unfolding mj assms(2) k ..
qed

lemma add_all_again:
  assumes "ids_ok rs"
  shows "add_all rs (add_all rs old) = add_all rs old"
proof -
  let ?P = "\<lambda>e. \<forall>r \<in> set (enterprise_only rs). \<not> has_prefix (reg_ChromeExtensionID r @ '';'') e"
  have "filter ?P (map forcelist_entry (last_regs (enterprise_only rs))) = []"
  proof (rule filter_eq_none)
    fix e assume "e \<in> set (map forcelist_entry (last_regs (enterprise_only rs)))"
    then obtain r where r: "r \<in> set (enterprise_only rs)" "e = forcelist_entry r"
      using set_last_regs by fastforce
    then have "has_prefix (reg_ChromeExtensionID r @ '';'') e"
      using assms by (simp add: entry_prefix ids_ok_def)
    with r show "\<not> ?P e" by blast
  qed
  then show ?thesis by (simp add: add_all_def)
qed

lemma norm_setting_values [simp]:
  "norm_setting (setting_value r) = setting_value r" "norm_setting default_setting = default_setting"
  by (simp_all add: norm_setting_def setting_value_def default_setting_def no_setting_def norm_strings_def)

text \<open>
  C3. A policy that was written reads back as it was: the forced extensions in order, every
  extension setting, and every other member of the file under its own name, for a policy whose
  strings are valid UTF-8 and whose other members cannot be mistaken for the two managed ones.
  Empty lists inside a setting read back as absent.
\<close>

theorem policy_file_roundtrip:
  assumes "policy_ok p"
  shows "readFromDisk (snd (writeToDisk None p)) = Inr (stored p)"
  using read_marshalled[OF assms] by (simp add: writeToDisk_def)

theorem policy_file_roundtrip_witness:
  "readFromDisk (snd (writeToDisk None
      \<lparr>ExtensionInstallForcelist = None, ExtensionSettings = Some [(''*'', default_setting)],
       unknownFields = Some [(''HomepageLocation'', JString ''x'')]\<rparr>)) =
    Inr \<lparr>ExtensionInstallForcelist = Some [], ExtensionSettings = Some [(''*'', default_setting)],
         unknownFields = Some [(''HomepageLocation'', JString ''x'')]\<rparr>"
proof -
  let ?p = "\<lparr>ExtensionInstallForcelist = None, ExtensionSettings = Some [(''*'', default_setting)],
       unknownFields = Some [(''HomepageLocation'', JString ''x'')]\<rparr>"
  have "valid_utf8 ''HomepageLocation''" by (rule valid_ascii) (simp add: byte_def)
  moreover have "\<not> known_member policyJSON_fields ''HomepageLocation''"
    by (simp add: known_member_iff policyJSON_fields_def names_match_def upper_def byte_def)
  ultimately have "policy_ok ?p"
    using default_setting_utf8
    by (simp add: policy_ok_def settings_of_def unknown_of_def forcelist_of_def default_to_def map_ok_def)
  from policy_file_roundtrip[OF this] show ?thesis
    by (simp add: stored_def settings_of_def unknown_of_def forcelist_of_def default_to_def)
qed

text \<open>
  C4. Adding a batch of extensions to a readable policy succeeds and leaves a file that reads back
  with these changes to the policy as it was read: the entries of the batch's enterprise
  identifiers are replaced by one entry each, after all others, in the order of their last
  registration; the setting of each registered key is the one of its last registration; the
  default is added for the star key if it was absent; the setting of any other key is kept as far
  as \<open>ExtensionSetting\<close> has fields for it, an empty list reading back as absent; every other
  member of the file is kept. The conditions: the file can be written, the policy read is of valid UTF-8 and none of its
  unknown members matches a managed name, the strings of the batch are valid UTF-8, and no
  enterprise identifier of the batch contains a semicolon, which ends the identifier in an entry.
  Members of a setting that the struct does not have are lost by any rewrite
  (\<open>setting_member_not_read\<close>).
\<close>

theorem AddExtensions_spec:
  assumes "readFromDisk f = Inr p" "policy_ok p" "ids_ok rs" "\<forall>r \<in> set rs. registration_utf8 r"
  shows "\<exists>f' q. AddExtensions None rs f = (None, f') \<and> readFromDisk f' = Inr q \<and>
    forcelist_of q =
      filter (\<lambda>e. \<forall>r \<in> set (enterprise_only rs). \<not> has_prefix (reg_ChromeExtensionID r @ '';'') e) (forcelist_of p)
      @ map forcelist_entry (last_regs (enterprise_only rs)) \<and>
    distinct (map reg_ChromeExtensionID (last_regs (enterprise_only rs))) \<and>
    (\<forall>k. map_of (settings_of q) k =
       (case map_of (rev (map (\<lambda>r. (setting_key r, setting_value r)) rs)) k of
          Some s \<Rightarrow> Some s
        | None \<Rightarrow> if k = ''*'' \<and> map_of (settings_of p) k = None then Some default_setting
                 else map_option norm_setting (map_of (settings_of p) k))) \<and>
    unknown_of q = unknown_of p"
proof (intro exI conjI)
  let ?q = "stored (added rs p)"
  show "AddExtensions None rs f = (None, JsonText (MarshalJSON (added rs p)))"
    by (rule AddExtensions_file[OF assms(1,3)])
  show "readFromDisk (JsonText (MarshalJSON (added rs p))) = Inr ?q"
    by (rule read_marshalled[OF policy_ok_added[OF assms(2,4)]])
  show "forcelist_of ?q =
      filter (\<lambda>e. \<forall>r \<in> set (enterprise_only rs). \<not> has_prefix (reg_ChromeExtensionID r @ '';'') e) (forcelist_of p)
      @ map forcelist_entry (last_regs (enterprise_only rs))"
    by (simp add: add_all_def)
  show "distinct (map reg_ChromeExtensionID (last_regs (enterprise_only rs)))"
    by (rule distinct_last_regs)
  have ok: "map_ok (settings_of p)" using assms(2) by (simp add: policy_ok_def)
  have val: "map_option norm_setting (map_of (rev (map (\<lambda>r. (setting_key r, setting_value r)) rs)) k) =
      map_of (rev (map (\<lambda>r. (setting_key r, setting_value r)) rs)) k" for k
    by (cases "map_of (rev (map (\<lambda>r. (setting_key r, setting_value r)) rs)) k")
      (auto dest!: map_of_SomeD)
  show "\<forall>k. map_of (settings_of ?q) k =
       (case map_of (rev (map (\<lambda>r. (setting_key r, setting_value r)) rs)) k of
          Some s \<Rightarrow> Some s
        | None \<Rightarrow> if k = ''*'' \<and> map_of (settings_of p) k = None then Some default_setting
                 else map_option norm_setting (map_of (settings_of p) k))"
  proof
    fix k
    show "map_of (settings_of ?q) k =
       (case map_of (rev (map (\<lambda>r. (setting_key r, setting_value r)) rs)) k of
          Some s \<Rightarrow> Some s
        | None \<Rightarrow> if k = ''*'' \<and> map_of (settings_of p) k = None then Some default_setting
                 else map_option norm_setting (map_of (settings_of p) k))"
      using ok val[of k] by (auto simp: map_of_map_values map_of_put_all map_add_def split: option.split)
  qed
  show "unknown_of ?q = unknown_of p" by simp
qed

text \<open>The reader skips the members of a setting that are no fields of the struct, so the writer has none.\<close>

lemma setting_member_not_read:
  assumes "find_field setting_fields k = None"
  shows "decode_struct setting_fields (JObject (xs @ (k, v) # ys)) s = decode_struct setting_fields (JObject (xs @ ys)) s"
proof -
  have "decode_members setting_fields ((k, v) # ys) t = decode_members setting_fields ys t" for t
    by (simp add: assms)
  then show ?thesis unfolding decode_struct.simps decode_members_append
    by (intro option.case_cong refl) simp
qed

definition example_reg :: ExtensionRegistration where
  "example_reg = \<lparr>reg_Name = ''x'', reg_ChromeExtensionID = ''abc'', reg_RequiresEnterprisePolicy = True\<rparr>"

lemma example_reg_ok: "ids_ok [example_reg]" "registration_utf8 example_reg"
proof -
  show "ids_ok [example_reg]" by (simp add: ids_ok_def enterprise_only_def example_reg_def)
  have "valid_utf8 ''x''" "valid_utf8 ''abc''" by (rule valid_ascii, simp add: byte_def)+
  then show "registration_utf8 example_reg" by (simp add: registration_utf8_def example_reg_def)
qed

lemma missing_ok:
  "readFromDisk Missing = Inr \<lparr>ExtensionInstallForcelist = Some [], ExtensionSettings = Some [],
     unknownFields = None\<rparr>"
  "policy_ok \<lparr>ExtensionInstallForcelist = Some [], ExtensionSettings = Some [], unknownFields = None\<rparr>"
  by (simp_all add: readFromDisk_def policy_ok_def forcelist_of_def settings_of_def unknown_of_def default_to_def)

theorem AddExtensions_spec_witness:
  "\<exists>f' q. AddExtensions None [example_reg] Missing = (None, f') \<and> readFromDisk f' = Inr q \<and>
     forcelist_of q = [''abc;http://127.0.0.1:10001/extensions/x/update.xml'']"
proof -
  have all: "\<forall>r \<in> set [example_reg]. registration_utf8 r" using example_reg_ok(2) by simp
  have "map forcelist_entry (last_regs (enterprise_only [example_reg])) =
      [''abc;http://127.0.0.1:10001/extensions/x/update.xml'']"
    by (simp add: enterprise_only_def example_reg_def forcelist_entry_def update_url_def)
  with AddExtensions_spec[OF missing_ok example_reg_ok(1) all]
  show ?thesis by (fastforce simp: forcelist_of_def default_to_def)
qed

text \<open>
  Adding the same batch a second time writes the same file again: a repeated upload is
  harmless.
\<close>

theorem AddExtensions_idempotent:
  assumes "readFromDisk f = Inr p" "policy_ok p" "ids_ok rs" "\<forall>r \<in> set rs. registration_utf8 r"
  shows "AddExtensions None rs (snd (AddExtensions None rs f)) = AddExtensions None rs f"
proof -
  let ?a = "added rs p"
  have ok: "policy_ok ?a" by (rule policy_ok_added[OF assms(2,4)])
  have settings: "map_ok (settings_of p)" using assms(2) by (simp add: policy_ok_def)
  have star: "map_of (settings_of (stored ?a)) ''*'' \<noteq> None"
    using settings by (auto simp: map_of_map_values map_of_put_all map_add_def split: option.splits)
  have norms: "map (\<lambda>(k, s). (k, norm_setting s)) (map (\<lambda>r. (setting_key r, setting_value r)) rs) =
      map (\<lambda>r. (setting_key r, setting_value r)) rs"
    by simp
  have "MarshalJSON (added rs (stored ?a)) = MarshalJSON ?a"
  proof (rule MarshalJSON_cong)
    show "forcelist_of (added rs (stored ?a)) = forcelist_of ?a"
      using add_all_again[OF assms(3)] by simp
    show "map (\<lambda>(k, s). (k, norm_setting s)) (settings_of (added rs (stored ?a))) =
        map (\<lambda>(k, s). (k, norm_setting s)) (settings_of ?a)"
    proof -
      have "map (\<lambda>(k, s). (k, norm_setting s)) (settings_of (added rs (stored ?a))) =
          put_all (map (\<lambda>r. (setting_key r, setting_value r)) rs)
            (map (\<lambda>(k, s). (k, norm_setting s)) (settings_of (stored ?a)))"
        using star by (simp only: added_views(2) map_put_all norms if_False not_False_eq_True)
      also have "map (\<lambda>(k, s). (k, norm_setting s)) (settings_of (stored ?a)) =
          map (\<lambda>(k, s). (k, norm_setting s)) (settings_of ?a)"
        by (simp only: stored_views(3)) (simp add: comp_def split_def del: added_views)
      also have "put_all (map (\<lambda>r. (setting_key r, setting_value r)) rs) \<dots> = \<dots>"
        unfolding added_views(2) map_put_all norms by (rule put_all_again) (use settings in simp)
      finally show ?thesis .
    qed
    show "unknown_of (added rs (stored ?a)) = unknown_of ?a" by simp
    show "ExtensionSettings (added rs (stored ?a)) \<noteq> None" by (rule added_nonnil)
    show "ExtensionSettings ?a \<noteq> None" by (rule added_nonnil)
  qed
  moreover have "AddExtensions None rs (JsonText (MarshalJSON ?a)) =
      (None, JsonText (MarshalJSON (added rs (stored ?a))))"
    by (rule AddExtensions_file[OF read_marshalled[OF ok] assms(3)])
  ultimately show ?thesis by (simp add: AddExtensions_file[OF assms(1,3)])
qed

theorem AddExtensions_idempotent_witness:
  "AddExtensions None [example_reg] (snd (AddExtensions None [example_reg] Missing)) =
     AddExtensions None [example_reg] Missing"
  by (rule AddExtensions_idempotent[OF missing_ok example_reg_ok(1)]) (simp add: example_reg_ok)

text \<open>
  C5. Overrides that pass validation are stored under their names and change nothing else: the
  forced extensions and the extension settings read back as before, an empty list inside a setting
  as absent, no blocked policy changes, and the developer tools policy is left alone or set to 0 or
  1. The policy read and the names are of valid UTF-8, and no unknown member or name differs from a
  managed member by case only; the next theorem shows why. Overrides that fail validation are
  refused with all their errors and leave the file as it was.
\<close>

theorem ApplyOverrides_spec:
  assumes "Validate oob ov = []" "readFromDisk f = Inr p" "policy_ok p"
    and "\<forall>(k, v) \<in> set ov. valid_utf8 k \<and> \<not> known_member policyJSON_fields k"
  shows "(\<exists>f' q. ApplyOverrides oob None ov f = (None, f') \<and> readFromDisk f' = Inr q \<and>
    forcelist_of q = forcelist_of p \<and>
    settings_of q = map (\<lambda>(k, s). (k, norm_setting s)) (settings_of p) \<and>
    (\<forall>k. map_of (unknown_of q) k = (map_of (unknown_of p) ++ map_of (rev ov)) k) \<and>
    (\<forall>k \<in> fst ` set blockedPolicies. map_of (unknown_of q) k = map_of (unknown_of p) k) \<and>
    (let k = ''DeveloperToolsAvailability'' in
     map_of (unknown_of q) k = map_of (unknown_of p) k \<or>
     (\<exists>n. map_of (unknown_of q) k = Some (JNumber n) \<and> f64_int n \<in> {Some 0, Some 1}))) \<and>
    (\<forall>bad wr g. Validate oob bad \<noteq> [] \<longrightarrow>
       ApplyOverrides oob wr bad g = (Some (InvalidOverrides (Validate oob bad)), g))"
proof -
  let ?m = "MergeIntoPolicy ov p"
  let ?dev = "''DeveloperToolsAvailability''"
  have views: "forcelist_of ?m = forcelist_of p" "settings_of ?m = settings_of p"
    "unknown_of ?m = put_all ov (unknown_of p)"
    by (simp_all add: MergeIntoPolicy_def forcelist_of_def settings_of_def unknown_of_def default_to_def)
  have mo: "map_ok (unknown_of p)" using assms(3) by (simp add: policy_ok_def)
  have ok: "policy_ok ?m"
    using assms(3,4) set_put_all_subset[of ov "unknown_of p"] unfolding policy_ok_def views
    by blast
  have run: "ApplyOverrides oob None ov f = (None, JsonText (MarshalJSON ?m))"
    by (simp add: ApplyOverrides_def Modify_def writeToDisk_def assms)
  have acc: "validate_entry oob k v = None" if "(k, v) \<in> set ov" for k v
    using assms(1) that by (auto simp: Validate_def List.map_filter_def filter_empty_conv)
  have merged: "map_of (unknown_of (stored ?m)) k = (map_of (unknown_of p) ++ map_of (rev ov)) k" for k
    using mo by (simp add: views map_of_put_all)
  have blocked: "map_of (rev ov) k = None" if "k \<in> fst ` set blockedPolicies" for k
  proof (cases "map_of (rev ov) k")
    case (Some v)
    then have "(k, v) \<in> set ov" by (auto dest: map_of_SomeD)
    from acc[OF this] have "map_of blockedPolicies k = None"
      by (auto simp: validate_entry_def split: option.splits)
    with that show ?thesis by (auto simp: map_of_eq_None_iff)
  qed simp
  note reg = registry_has_DeveloperToolsAvailability
  have dev: "\<exists>n. v = JNumber n \<and> f64_int n \<in> {Some 0, Some 1}" if "map_of (rev ov) ?dev = Some v" for v
  proof -
    have "(?dev, v) \<in> set ov" using that by (auto dest: map_of_SomeD)
    from acc[OF this] have "validatePolicyValue oob ?dev v PolicyTypeInt = None"
      "validateDeveloperToolsAvailability ?dev v = None"
      using reg by (auto simp: validate_entry_def split: option.splits)
    then show ?thesis
      by (auto simp: validatePolicyValue_def validateDeveloperToolsAvailability_def
          split: json.splits if_splits option.splits)
  qed
  have refused: "ApplyOverrides oob wr bad g = (Some (InvalidOverrides (Validate oob bad)), g)"
    if "Validate oob bad \<noteq> []" for bad wr g
    using that by (cases "Validate oob bad") (simp_all add: ApplyOverrides_def)
  show ?thesis
  proof (rule conjI, intro exI conjI)
    show "ApplyOverrides oob None ov f = (None, JsonText (MarshalJSON ?m))" by (rule run)
    show "readFromDisk (JsonText (MarshalJSON ?m)) = Inr (stored ?m)" by (rule read_marshalled[OF ok])
    show "forcelist_of (stored ?m) = forcelist_of p" by (simp add: views)
    show "settings_of (stored ?m) = map (\<lambda>(k, s). (k, norm_setting s)) (settings_of p)"
      by (simp add: views)
    show "\<forall>k. map_of (unknown_of (stored ?m)) k = (map_of (unknown_of p) ++ map_of (rev ov)) k"
      using merged by blast
    show "\<forall>k \<in> fst ` set blockedPolicies. map_of (unknown_of (stored ?m)) k = map_of (unknown_of p) k"
      using merged blocked by (simp add: map_add_def)
    show "let k = ?dev in map_of (unknown_of (stored ?m)) k = map_of (unknown_of p) k \<or>
       (\<exists>n. map_of (unknown_of (stored ?m)) k = Some (JNumber n) \<and> f64_int n \<in> {Some 0, Some 1})"
      using dev unfolding Let_def merged by (cases "map_of (rev ov) ?dev") (auto simp: map_add_def)
  qed (use refused in blast)
qed

text \<open>An entry no table names is accepted as soon as it is well formed.\<close>

definition example_override :: overrides where
  "example_override = [(''DeveloperToolsAvailability'', JNumber (IntLit 1))]"

lemma example_override_ok: "Validate oob example_override = []"
proof -
  have "f64_int (IntLit 1) = Some 1" by (rule f64_int_small) simp
  moreover have "map_of blockedPolicies ''DeveloperToolsAvailability'' = None"
    by (simp add: blockedPolicies_def)
  moreover have "\<not> float_overflow (IntLit 1)" by code_simp
  ultimately show ?thesis
    by (simp add: Validate_def example_override_def List.map_filter_def validate_entry_def
        registry_has_DeveloperToolsAvailability validatePolicyValue_def int64_ok_def
        validateDeveloperToolsAvailability_def del: f64_int.simps float_overflow.simps)
qed

theorem ApplyOverrides_spec_witness:
  "\<exists>f' q. ApplyOverrides id None example_override Missing = (None, f') \<and> readFromDisk f' = Inr q \<and>
     map_of (unknown_of q) ''DeveloperToolsAvailability'' = Some (JNumber (IntLit 1))"
proof -
  have "valid_utf8 ''DeveloperToolsAvailability''" by (rule valid_ascii) (simp add: byte_def)
  moreover have "\<not> known_member policyJSON_fields ''DeveloperToolsAvailability''"
    by (simp add: known_member_iff policyJSON_fields_def names_match_def upper_def byte_def)
  ultimately have "\<forall>(k, v) \<in> set example_override. valid_utf8 k \<and> \<not> known_member policyJSON_fields k"
    by (simp add: example_override_def)
  from ApplyOverrides_spec[OF example_override_ok missing_ok this] show ?thesis
    by (fastforce simp: example_override_def)
qed

text \<open>A policy with one extension setting.\<close>

definition victim :: Policy where
  "victim = \<lparr>ExtensionInstallForcelist = Some [], ExtensionSettings = Some [(''*'', default_setting)],
             unknownFields = None\<rparr>"

text \<open>
  C6. The check of blocked names compares exact names, the decoder ignores case: an override of
  the member \<open>extensionsettings\<close> passes validation, is written next to \<open>ExtensionSettings\<close>, and
  the next read takes it as the extension settings. Here it erases them all.
\<close>

theorem override_case_variant_bypass:
  "Validate oob [(''ExtensionSettings'', JNull)] \<noteq> [] \<and>
   readFromDisk (JsonText (MarshalJSON victim)) = Inr (stored victim) \<and>
   settings_of victim \<noteq> [] \<and>
   (\<exists>f' q. ApplyOverrides oob None [(''extensionsettings'', JNull)] (JsonText (MarshalJSON victim)) = (None, f') \<and>
      readFromDisk f' = Inr q \<and> settings_of q = [])"
proof (intro conjI)
  show "Validate oob [(''ExtensionSettings'', JNull)] \<noteq> []"
    by (simp add: Validate_def List.map_filter_def validate_entry_def blockedPolicies_def)
  have "policy_ok victim"
    using default_setting_utf8
    by (simp add: victim_def policy_ok_def forcelist_of_def settings_of_def unknown_of_def
        default_to_def map_ok_def)
  then show read: "readFromDisk (JsonText (MarshalJSON victim)) = Inr (stored victim)"
    by (rule read_marshalled)
  show "settings_of victim \<noteq> []" by (simp add: victim_def settings_of_def default_to_def)
  let ?q = "MergeIntoPolicy [(''extensionsettings'', JNull)] (stored victim)"
  have "map_of blockedPolicies ''extensionsettings'' = None" by (simp add: blockedPolicies_def)
  then have "Validate oob [(''extensionsettings'', JNull)] = []"
    by (simp add: Validate_def List.map_filter_def validate_entry_def registry_lacks_lower_case)
  then have run: "ApplyOverrides oob None [(''extensionsettings'', JNull)] (JsonText (MarshalJSON victim)) =
      (None, JsonText (MarshalJSON ?q))"
    by (simp add: ApplyOverrides_def Modify_def writeToDisk_def read)
  have u: "valid_utf8 ''ExtensionSettings''" "valid_utf8 ''extensionsettings''" "valid_utf8 ''*''"
    by (rule valid_ascii, simp add: byte_def)+
  have written: "MarshalJSON ?q = JObject [(''ExtensionSettings'', JObject [(''*'', marshal_setting default_setting)]),
      (''extensionsettings'', JNull)]"
    by (simp add: MarshalJSON_def MergeIntoPolicy_def stored_def victim_def forcelist_of_def settings_of_def
        unknown_of_def default_to_def marshal_policyJSON_def omit_strings_def u less_char_def)
  have "names_match ''ExtensionSettings'' ''extensionsettings''" by code_simp
  then have "find_field policyJSON_fields ''extensionsettings'' = find_field policyJSON_fields ''ExtensionSettings''"
    by (simp add: policyJSON_fields_def) (simp add: names_match_def upper_def byte_def)
  then have "\<exists>q. readFromDisk (JsonText (MarshalJSON ?q)) = Inr q \<and> settings_of q = []"
    unfolding written
    by (simp add: readFromDisk_def UnmarshalJSON_def find_policy_field map_field_def
        decode_marshal_setting default_setting_utf8 Let_def settings_of_def default_to_def)
  with run show "\<exists>f' q. ApplyOverrides oob None [(''extensionsettings'', JNull)]
      (JsonText (MarshalJSON victim)) = (None, f') \<and> readFromDisk f' = Inr q \<and> settings_of q = []"
    by blast
qed

end
