(* ===== verification/Events.thy ===== *)
theory Events
  imports GoStrings
begin

text \<open>
  The event bus (\<open>lib/events\<close>): categories, the envelope and its truncation, the ring buffer that
  holds the last envelopes within a slot count and a byte budget, independent readers, the event
  stream that numbers what is published, and the writer that forwards to a storage backend. The
  ring is shown to refine a list: publishing appends and drops the oldest envelopes, reading walks
  the list, and what a reader misses is counted exactly.
\<close>

type_synonym uint64 = "64 word"

section \<open>Categories\<close>

type_synonym category = string

definition Console :: category where "Console = ''console''"
definition Network :: category where "Network = ''network''"
definition Page :: category where "Page = ''page''"
definition Interaction :: category where "Interaction = ''interaction''"
definition Control :: category where "Control = ''control''"
definition Platform :: category where "Platform = ''platform''"
definition Connection :: category where "Connection = ''connection''"
definition System :: category where "System = ''system''"
definition Screenshot :: category where "Screenshot = ''screenshot''"
definition Captcha :: category where "Captcha = ''captcha''"
definition Monitor :: category where "Monitor = ''monitor''"

lemmas category_defs = Console_def Network_def Page_def Interaction_def Control_def Platform_def
  Connection_def System_def Screenshot_def Captcha_def Monitor_def

definition UserCategories :: "category list" where
  "UserCategories = [Console, Network, Page, Interaction, Control, Platform, Connection, System,
                     Screenshot, Captcha]"

definition DefaultCategories :: "category list" where
  "DefaultCategories = [Control, Connection, System, Captcha]"

definition cdpCategories :: "category set" where
  "cdpCategories = {Console, Network, Page, Interaction, Screenshot}"

definition HasCDPCategory :: "category list \<Rightarrow> bool" where
  "HasCDPCategory cats \<longleftrightarrow> (\<exists>c \<in> set cats. c \<in> cdpCategories)"

section \<open>Events and envelopes\<close>

record EventSource =
  src_Event :: "string option"
  src_Kind :: string
  src_Metadata :: "(string \<times> string) list option"

record Event =
  ev_Ts :: int
  ev_Type :: string
  ev_Category :: category
  ev_Source :: EventSource
  ev_Data :: string
  ev_Truncated :: bool

record Envelope =
  env_Seq :: uint64
  env_Event :: Event

definition zero_event :: Event where
  "zero_event = \<lparr>ev_Ts = 0, ev_Type = [], ev_Category = [],
     ev_Source = \<lparr>src_Event = None, src_Kind = [], src_Metadata = None\<rparr>,
     ev_Data = [], ev_Truncated = False\<rparr>"

definition zero_envelope :: Envelope where
  "zero_envelope = \<lparr>env_Seq = 0, env_Event = zero_event\<rparr>"

definition maxS2RecordBytes :: nat where
  "maxS2RecordBytes = 1000000"

text \<open>
  \<open>json.Marshal\<close> of an envelope is the parameter \<open>marshal\<close>; \<open>None\<close> when it fails, as it does for
  data that is not JSON.
\<close>

definition truncateIfNeeded ::
  "(Envelope \<Rightarrow> string option) \<Rightarrow> Envelope \<Rightarrow> Envelope \<times> string option" where
  "truncateIfNeeded marshal env =
     (case marshal env of
        None \<Rightarrow> (env, None)
      | Some d \<Rightarrow>
          (if length d \<le> maxS2RecordBytes then (env, Some d)
           else let env = env\<lparr>env_Event := (env_Event env)\<lparr>ev_Data := ''null'', ev_Truncated := True\<rparr>\<rparr>
                in (env, marshal env)))"

lemma truncate_seq [simp]: "env_Seq (fst (truncateIfNeeded marshal env)) = env_Seq env"
  by (simp add: truncateIfNeeded_def Let_def split: option.split)

section \<open>The ring buffer\<close>

record ringBuffer =
  rb_buf :: "Envelope list"
  rb_cap :: uint64
  rb_latestSeq :: uint64
  rb_maxBytes :: uint64
  rb_bytes :: uint64
  rb_floorSeq :: uint64

datatype ring_error = BadCapacity int | NoByteBudget

definition newRingBuffer :: "int \<Rightarrow> uint64 \<Rightarrow> ring_error + ringBuffer" where
  "newRingBuffer capacity maxBytes =
     (if capacity \<le> 0 then Inl (BadCapacity capacity)
      else if maxBytes = 0 then Inl NoByteBudget
      else Inr \<lparr>rb_buf = replicate (nat capacity) zero_envelope, rb_cap = of_int capacity,
                rb_latestSeq = 0, rb_maxBytes = maxBytes, rb_bytes = 0, rb_floorSeq = 1\<rparr>)"

definition envelopeOverheadBytes :: uint64 where
  "envelopeOverheadBytes = 256"

definition envelopeBytes :: "Envelope \<Rightarrow> uint64" where
  "envelopeBytes env =
     (if env_Seq env = 0 then 0
      else of_nat (length (ev_Data (env_Event env))) + envelopeOverheadBytes)"

definition ring_reset :: "ringBuffer \<Rightarrow> ringBuffer" where
  "ring_reset rb =
     rb\<lparr>rb_buf := map (\<lambda>_. zero_envelope) (rb_buf rb), rb_latestSeq := 0, rb_bytes := 0, rb_floorSeq := 1\<rparr>"

definition slot :: "ringBuffer \<Rightarrow> uint64 \<Rightarrow> nat" where
  "slot rb s = unat (s mod rb_cap rb)"

definition evict_step :: "ringBuffer \<Rightarrow> ringBuffer" where
  "evict_step rb =
     (let i = slot rb (rb_floorSeq rb);
          rb = (if env_Seq (rb_buf rb ! i) = rb_floorSeq rb
                then rb\<lparr>rb_bytes := rb_bytes rb - envelopeBytes (rb_buf rb ! i),
                        rb_buf := (rb_buf rb)[i := zero_envelope]\<rparr>
                else rb)
      in rb\<lparr>rb_floorSeq := rb_floorSeq rb + 1\<rparr>)"

function evictForBytes :: "ringBuffer \<Rightarrow> ringBuffer" where
  "evictForBytes rb =
     (if rb_maxBytes rb < rb_bytes rb \<and> rb_floorSeq rb < rb_latestSeq rb
      then evictForBytes (evict_step rb) else rb)"
  by pat_completeness auto
termination
proof (relation "measure (\<lambda>rb. unat (rb_latestSeq rb) - unat (rb_floorSeq rb))")
  fix rb :: ringBuffer
  assume a: "rb_maxBytes rb < rb_bytes rb \<and> rb_floorSeq rb < rb_latestSeq rb"
  then have "unat (rb_floorSeq rb + 1) = Suc (unat (rb_floorSeq rb))"
    by (blast intro: unat_Suc_less)
  with a show "(evict_step rb, rb) \<in> measure (\<lambda>rb. unat (rb_latestSeq rb) - unat (rb_floorSeq rb))"
    by (auto simp: evict_step_def Let_def word_less_nat_alt)
qed simp

declare evictForBytes.simps [simp del]

definition ring_publish :: "ringBuffer \<Rightarrow> Envelope \<Rightarrow> ringBuffer" where
  "ring_publish rb env =
     (let i = slot rb (env_Seq env);
          rb = rb\<lparr>rb_bytes := rb_bytes rb - envelopeBytes (rb_buf rb ! i) + envelopeBytes env,
                  rb_buf := (rb_buf rb)[i := env],
                  rb_latestSeq := env_Seq env\<rparr>
      in evictForBytes rb)"

definition oldestSeq :: "ringBuffer \<Rightarrow> uint64" where
  "oldestSeq rb =
     (let oldest = (if rb_cap rb < rb_latestSeq rb then rb_latestSeq rb - rb_cap rb + 1 else 1)
      in if oldest < rb_floorSeq rb then rb_floorSeq rb else oldest)"

section \<open>Readers\<close>

datatype ReadResult = Got Envelope | Dropped uint64

definition newReader :: "uint64 \<Rightarrow> uint64" where
  "newReader afterSeq = afterSeq + 1"

text \<open>A reader is its position. \<open>TryRead\<close> yields no result when the reader has caught up.\<close>

definition TryRead :: "ringBuffer \<Rightarrow> uint64 \<Rightarrow> ReadResult option \<times> uint64" where
  "TryRead rb next =
     (let latest = rb_latestSeq rb; oldest = oldestSeq rb in
      if latest = 0 \<or> latest < next then (None, next)
      else if next < oldest then (Some (Dropped (oldest - next)), oldest)
      else (Some (Got (rb_buf rb ! slot rb next)), next + 1))"

text \<open>One pass of the loop of \<open>Read\<close>: no result means that it waits for the next wake-up.\<close>

definition Read_pass :: "ringBuffer \<Rightarrow> uint64 \<Rightarrow> ReadResult option \<times> uint64" where
  "Read_pass rb next =
     (let latest = rb_latestSeq rb; oldest = oldestSeq rb in
      if latest = 0 then (None, 1)
      else if next < oldest then (Some (Dropped (oldest - next)), oldest)
      else if next \<le> latest then (Some (Got (rb_buf rb ! slot rb next)), next + 1)
      else (None, next))"

section \<open>The event stream\<close>

record EventStream =
  es_seq :: uint64
  es_ring :: ringBuffer
  es_dropped :: uint64

definition DefaultRingMaxBytes :: uint64 where
  "DefaultRingMaxBytes = push_bit 20 64"

definition NewEventStream :: "int \<Rightarrow> uint64 \<Rightarrow> ring_error + EventStream" where
  "NewEventStream capacity ringMaxBytes =
     (case newRingBuffer capacity (if ringMaxBytes = 0 then DefaultRingMaxBytes else ringMaxBytes) of
        Inl e \<Rightarrow> Inl e
      | Inr rb \<Rightarrow> Inr \<lparr>es_seq = 0, es_ring = rb, es_dropped = 0\<rparr>)"

text \<open>
  \<open>Publish\<close> of one caller at a time: the session serialises its callers (theory \<open>Telemetry\<close>).
\<close>

definition ES_Publish ::
  "(Envelope \<Rightarrow> string option) \<Rightarrow> EventStream \<Rightarrow> Envelope \<Rightarrow> EventStream \<times> Envelope" where
  "ES_Publish marshal es env =
     (let seq = es_seq es + 1;
          env = fst (truncateIfNeeded marshal (env\<lparr>env_Seq := seq\<rparr>))
      in (es\<lparr>es_seq := seq, es_ring := ring_publish (es_ring es) env\<rparr>, env))"

definition RecordDropped :: "EventStream \<Rightarrow> uint64 \<Rightarrow> EventStream" where
  "RecordDropped es n = es\<lparr>es_dropped := es_dropped es + n\<rparr>"

section \<open>The storage writer\<close>

text \<open>
  The backend is its state and the parameter \<open>store\<close>, which returns the new state and whether the
  append succeeded.
\<close>

record 's StorageWriter =
  sw_next :: uint64
  sw_storage :: 's
  sw_appendErrors :: uint64

definition NewStorageWriterAfter :: "'s \<Rightarrow> uint64 \<Rightarrow> 's StorageWriter" where
  "NewStorageWriterAfter st afterSeq =
     \<lparr>sw_next = newReader afterSeq, sw_storage = st, sw_appendErrors = 0\<rparr>"

definition processResult ::
  "('s \<Rightarrow> Envelope \<Rightarrow> 's \<times> bool) \<Rightarrow> ReadResult \<Rightarrow> EventStream \<times> 's StorageWriter
     \<Rightarrow> EventStream \<times> 's StorageWriter" where
  "processResult store res = (\<lambda>(es, w).
     (case res of
        Dropped n \<Rightarrow> (RecordDropped es n, w)
      | Got env \<Rightarrow>
          (let (st, ok) = store (sw_storage w) env in
           (es, w\<lparr>sw_storage := st,
                 sw_appendErrors := sw_appendErrors w + (if ok then 0 else 1)\<rparr>))))"

text \<open>
  \<open>Drain\<close>: the first component of the result is false when the context expired before the reader
  caught up; the context expires at check number \<open>checks\<close>.
\<close>

fun Drain ::
  "('s \<Rightarrow> Envelope \<Rightarrow> 's \<times> bool) \<Rightarrow> nat \<Rightarrow> EventStream \<times> 's StorageWriter
     \<Rightarrow> bool \<times> EventStream \<times> 's StorageWriter" where
  "Drain store 0 st = (False, st)"
| "Drain store (Suc checks) (es, w) =
     (case TryRead (es_ring es) (sw_next w) of
        (None, next) \<Rightarrow> (True, es, w\<lparr>sw_next := next\<rparr>)
      | (Some res, next) \<Rightarrow>
          Drain store checks (processResult store res (es, w\<lparr>sw_next := next\<rparr>)))"

section \<open>Truncating captured strings\<close>

definition TruncatedSuffix :: string where
  "TruncatedSuffix = ''...[truncated]''"

text \<open>The loop of \<open>TruncateCaptured\<close>: whole runes of \<open>s\<close> from \<open>end\<close> on, as long as they fit.\<close>

function rune_walk :: "string \<Rightarrow> nat \<Rightarrow> nat \<Rightarrow> nat" where
  "rune_walk s cutAt pos =
     (if pos < cutAt \<and> pos < length s then
        let size = rune_size (drop pos s) in
        if cutAt < pos + size then pos else rune_walk s cutAt (pos + size)
      else pos)"
  by pat_completeness auto
termination
  by (relation "measure (\<lambda>(s, cutAt, pos). cutAt - pos)")
    (auto simp: rune_size_pos intro!: diff_less_mono2)

declare rune_walk.simps [simp del]

definition TruncateCaptured :: "string \<Rightarrow> int \<Rightarrow> string" where
  "TruncateCaptured s maxBytes =
     (if int (length s) \<le> maxBytes then s
      else if maxBytes \<le> 0 then []
      else let cutAt = maxBytes - int (length TruncatedSuffix) in
        if cutAt \<le> 0 then take (nat maxBytes) TruncatedSuffix
        else take (rune_walk s (nat cutAt) 0) s @ TruncatedSuffix)"

section \<open>The ring invariant\<close>

text \<open>
  The invariant is stated on the numeric values: \<open>latest\<close>, \<open>slots\<close> and \<open>oldest\<close> are those of the
  ring, and \<open>held_at rb s\<close> is the content of the slot of sequence number \<open>s\<close>.
\<close>

abbreviation latest :: "ringBuffer \<Rightarrow> nat" where "latest rb \<equiv> unat (rb_latestSeq rb)"
abbreviation slots :: "ringBuffer \<Rightarrow> nat" where "slots rb \<equiv> unat (rb_cap rb)"
abbreviation floor_of :: "ringBuffer \<Rightarrow> nat" where "floor_of rb \<equiv> unat (rb_floorSeq rb)"
abbreviation seq_of :: "Envelope \<Rightarrow> nat" where "seq_of e \<equiv> unat (env_Seq e)"

definition oldest :: "ringBuffer \<Rightarrow> nat" where
  "oldest rb = max (floor_of rb) (Suc (latest rb - slots rb))"

definition held_at :: "ringBuffer \<Rightarrow> nat \<Rightarrow> Envelope" where
  "held_at rb s = rb_buf rb ! (s mod slots rb)"

definition held :: "ringBuffer \<Rightarrow> Envelope list" where
  "held rb = map (held_at rb) [oldest rb ..< Suc (latest rb)]"

definition bytes_of :: "Envelope list \<Rightarrow> uint64" where
  "bytes_of es = sum_list (map envelopeBytes es)"

definition ring_inv :: "ringBuffer \<Rightarrow> bool" where
  "ring_inv rb \<longleftrightarrow>
     0 < slots rb \<and> length (rb_buf rb) = slots rb \<and>
     1 \<le> floor_of rb \<and> floor_of rb \<le> max 1 (latest rb) \<and>
     (\<forall>s. oldest rb \<le> s \<and> s \<le> latest rb \<longrightarrow> seq_of (held_at rb s) = s) \<and>
     (\<forall>i < slots rb. seq_of (rb_buf rb ! i) = 0 \<or>
        oldest rb \<le> seq_of (rb_buf rb ! i) \<and> seq_of (rb_buf rb ! i) \<le> latest rb \<and>
        seq_of (rb_buf rb ! i) mod slots rb = i) \<and>
     rb_bytes rb = bytes_of (rb_buf rb)"

lemma slot_nat: "slot rb s = unat s mod slots rb"
  by (simp add: slot_def unat_mod)

lemma oldestSeq_nat:
  assumes "0 < slots rb" "1 \<le> floor_of rb"
  shows "unat (oldestSeq rb) = oldest rb"
proof -
  have "unat (if rb_cap rb < rb_latestSeq rb then rb_latestSeq rb - rb_cap rb + 1 else 1) =
      Suc (latest rb - slots rb)"
  proof (cases "rb_cap rb < rb_latestSeq rb")
    case True
    have "unat (rb_latestSeq rb - rb_cap rb) = latest rb - slots rb"
      using True by (intro unat_diff_le) simp
    moreover have "rb_latestSeq rb - rb_cap rb < rb_latestSeq rb"
      using True assms(1) calculation by (simp add: word_less_nat_alt)
    ultimately show ?thesis
      using True unat_Suc_less[of "rb_latestSeq rb - rb_cap rb" "rb_latestSeq rb"] by simp
  next
    case False
    then show ?thesis by (simp add: word_less_nat_alt)
  qed
  then show ?thesis by (simp add: oldestSeq_def oldest_def Let_def word_less_nat_alt max_def)
qed

lemma bytes_of_update:
  "i < length es \<Longrightarrow> bytes_of (es[i := e]) = bytes_of es - envelopeBytes (es ! i) + envelopeBytes e"
  by (induction es arbitrary: i) (auto simp: bytes_of_def algebra_simps split: nat.splits)

lemma envelopeBytes_zero [simp]: "env_Seq e = 0 \<Longrightarrow> envelopeBytes e = 0"
  by (simp add: envelopeBytes_def)

lemma zero_envelope_seq [simp]: "env_Seq zero_envelope = 0"
  by (simp add: zero_envelope_def)

lemma held_length: "length (held rb) = Suc (latest rb) - oldest rb"
  by (simp add: held_def Suc_diff_le)

text \<open>Two sequence numbers of a window no longer than the ring share no slot.\<close>

lemma mod_window:
  fixes s t c :: nat
  assumes "s < t" "t < s + c"
  shows "s mod c \<noteq> t mod c"
proof
  assume "s mod c = t mod c"
  then have "c dvd t - s" using assms by (metis less_imp_le mod_eq_dvd_iff_nat)
  then show False using assms by (auto dest: dvd_imp_le)
qed

lemma oldest_window: "oldest rb \<le> s \<Longrightarrow> s \<le> latest rb \<Longrightarrow> latest rb < s + slots rb"
  by (auto simp: oldest_def)

lemma held_at_inj:
  assumes "oldest rb \<le> s" "s < t" "t \<le> latest rb"
  shows "s mod slots rb \<noteq> t mod slots rb"
  using assms oldest_window[of rb s] by (intro mod_window) auto

text \<open>The bytes of the slots are the bytes of the envelopes held.\<close>

lemma bytes_of_held:
  assumes "ring_inv rb"
  shows "rb_bytes rb = bytes_of (held rb)"
proof -
  let ?c = "slots rb" and ?W = "{oldest rb ..< Suc (latest rb)}"
  let ?g = "\<lambda>i. envelopeBytes (rb_buf rb ! i)"
  have c: "0 < ?c" "length (rb_buf rb) = ?c" using assms by (auto simp: ring_inv_def)
  have inj: "inj_on (\<lambda>s. s mod ?c) ?W"
  proof (rule inj_onI)
    fix s t assume st: "s \<in> ?W" "t \<in> ?W" "s mod ?c = t mod ?c"
    show "s = t"
    proof (rule ccontr)
      assume "s \<noteq> t"
      then consider "s < t" | "t < s" by linarith
      then show False
        by cases (use st held_at_inj[of rb s t] held_at_inj[of rb t s] in auto)
    qed
  qed
  have zero: "?g i = 0" if "i \<in> {0..<?c} - (\<lambda>s. s mod ?c) ` ?W" for i
  proof -
    have "seq_of (rb_buf rb ! i) = 0"
    proof (rule ccontr)
      assume "seq_of (rb_buf rb ! i) \<noteq> 0"
      then have "seq_of (rb_buf rb ! i) \<in> ?W \<and> seq_of (rb_buf rb ! i) mod ?c = i"
        using assms that by (auto simp: ring_inv_def less_Suc_eq_le)
      with that show False by force
    qed
    then show ?thesis by (simp add: unat_eq_zero)
  qed
  have "rb_bytes rb = sum ?g {0..<?c}"
    using assms by (simp add: ring_inv_def bytes_of_def sum_list_sum_nth)
  also have "\<dots> = sum ?g ((\<lambda>s. s mod ?c) ` ?W)"
    by (rule sum.mono_neutral_right) (use c zero in auto)
  also have "\<dots> = (\<Sum>s \<in> ?W. envelopeBytes (held_at rb s))"
    by (simp add: sum.reindex[OF inj] held_at_def)
  also have "\<dots> = bytes_of (held rb)"
    by (simp add: bytes_of_def held_def comp_def interv_sum_list_conv_sum_set_nat del: upt_Suc)
  finally show ?thesis .
qed

section \<open>Eviction\<close>

lemma seq_word_eq: "env_Seq e = s \<longleftrightarrow> seq_of e = unat s"
  by (simp add: word_unat_eq_iff)

lemma evict_step_frame [simp]:
  "rb_cap (evict_step rb) = rb_cap rb" "rb_latestSeq (evict_step rb) = rb_latestSeq rb"
  "rb_maxBytes (evict_step rb) = rb_maxBytes rb" "rb_floorSeq (evict_step rb) = rb_floorSeq rb + 1"
  by (simp_all add: evict_step_def Let_def)

lemma evict_step_buf:
  "rb_buf (evict_step rb) =
     (if env_Seq (held_at rb (floor_of rb)) = rb_floorSeq rb
      then (rb_buf rb)[floor_of rb mod slots rb := zero_envelope] else rb_buf rb)"
  "rb_bytes (evict_step rb) =
     (if env_Seq (held_at rb (floor_of rb)) = rb_floorSeq rb
      then rb_bytes rb - envelopeBytes (held_at rb (floor_of rb)) else rb_bytes rb)"
  by (simp_all add: evict_step_def Let_def slot_nat held_at_def)

lemma evict_step_facts:
  assumes inv: "ring_inv rb" and lt: "rb_floorSeq rb < rb_latestSeq rb"
  shows "ring_inv (evict_step rb) \<and>
    held (evict_step rb) = (if oldest rb = floor_of rb then tl (held rb) else held rb) \<and>
    floor_of (evict_step rb) = Suc (floor_of rb)"
proof -
  let ?f = "floor_of rb" and ?n = "latest rb" and ?c = "slots rb" and ?r = "evict_step rb"
  let ?i = "?f mod ?c"
  have flr: "unat (rb_floorSeq rb + 1) = Suc ?f" using unat_Suc_less[OF lt] .
  have fn: "?f < ?n" using lt by (simp add: word_less_nat_alt)
  have c: "0 < ?c" "length (rb_buf rb) = ?c" and f1: "1 \<le> ?f" using inv by (auto simp: ring_inv_def)
  have live: "seq_of (held_at rb s) = s" if "oldest rb \<le> s" "s \<le> ?n" for s
    using inv that by (auto simp: ring_inv_def)
  have shape: "seq_of (rb_buf rb ! i) = 0 \<or> oldest rb \<le> seq_of (rb_buf rb ! i) \<and>
      seq_of (rb_buf rb ! i) \<le> ?n \<and> seq_of (rb_buf rb ! i) mod ?c = i" if "i < ?c" for i
    using inv that by (auto simp: ring_inv_def)
  have old': "oldest ?r = max (Suc ?f) (Suc (?n - ?c))" by (simp add: oldest_def flr)
  have hit: "env_Seq (held_at rb ?f) = rb_floorSeq rb \<longleftrightarrow> oldest rb = ?f"
  proof
    assume "env_Seq (held_at rb ?f) = rb_floorSeq rb"
    then have "seq_of (rb_buf rb ! ?i) = ?f" by (simp add: held_at_def)
    with shape[of ?i] c f1 show "oldest rb = ?f" by (simp add: oldest_def)
  next
    assume "oldest rb = ?f"
    with live[of ?f] fn show "env_Seq (held_at rb ?f) = rb_floorSeq rb" by (simp add: seq_word_eq)
  qed
  show ?thesis
  proof (cases "oldest rb = ?f")
    case True
    have buf: "rb_buf ?r = (rb_buf rb)[?i := zero_envelope]"
      "rb_bytes ?r = rb_bytes rb - envelopeBytes (rb_buf rb ! ?i)"
      using True hit by (simp_all add: evict_step_buf held_at_def)
    have i: "?i < length (rb_buf rb)" using c by simp
    have o: "oldest ?r = Suc ?f" using True old' by (simp add: oldest_def)
    have same: "held_at ?r s = held_at rb s" if "Suc ?f \<le> s" "s \<le> ?n" for s
    proof -
      have "?f mod ?c \<noteq> s mod ?c" using held_at_inj[of rb ?f s] that True by simp
      then show ?thesis by (simp add: held_at_def buf)
    qed
    have "ring_inv ?r"
      unfolding ring_inv_def evict_step_frame o
    proof (intro conjI allI impI)
      show "0 < ?c" "length (rb_buf ?r) = ?c" using c by (simp_all add: buf)
      show "1 \<le> unat (rb_floorSeq rb + 1)" "unat (rb_floorSeq rb + 1) \<le> max 1 ?n"
        using flr fn by simp_all
      show "seq_of (held_at ?r s) = s" if "Suc ?f \<le> s \<and> s \<le> ?n" for s
        using that same live True by simp
      show "seq_of (rb_buf ?r ! j) = 0 \<or> Suc ?f \<le> seq_of (rb_buf ?r ! j) \<and>
          seq_of (rb_buf ?r ! j) \<le> ?n \<and> seq_of (rb_buf ?r ! j) mod ?c = j" if j: "j < ?c" for j
      proof (cases "j = ?i")
        case True
        then show ?thesis using i by (simp add: buf)
      next
        case False
        then have b: "rb_buf ?r ! j = rb_buf rb ! j" by (simp add: buf)
        have "seq_of (rb_buf rb ! j) \<noteq> ?f" using shape[OF j] False f1 by auto
        with shape[OF j] True show ?thesis unfolding b by auto
      qed
      show "rb_bytes ?r = bytes_of (rb_buf ?r)"
        using inv i by (simp add: buf bytes_of_update ring_inv_def)
    qed
    moreover have "held ?r = tl (held rb)"
    proof -
      have "held ?r = map (held_at rb) [Suc ?f ..< Suc ?n]"
        unfolding held_def o evict_step_frame using same by (auto simp del: upt_Suc)
      also have "\<dots> = tl (held rb)"
        unfolding held_def True using fn by (simp add: upt_conv_Cons[of ?f "Suc ?n"] del: upt_Suc)
      finally show ?thesis .
    qed
    ultimately show ?thesis using True flr by simp
  next
    case False
    have buf: "rb_buf ?r = rb_buf rb" "rb_bytes ?r = rb_bytes rb"
      using False hit by (simp_all add: evict_step_buf)
    have o: "oldest ?r = oldest rb"
      using False unfolding old' oldest_def[of rb] by (auto simp: max_def split: if_splits)
    have h: "held_at ?r = held_at rb" by (simp add: held_at_def buf fun_eq_iff)
    have "ring_inv ?r"
      using inv flr fn by (simp add: ring_inv_def o h buf)
    then show ?thesis using False flr by (simp add: held_def o h)
  qed
qed

text \<open>Dropping from the front until the bytes fit, always keeping the last envelope.\<close>

fun drop_bytes :: "uint64 \<Rightarrow> Envelope list \<Rightarrow> Envelope list" where
  "drop_bytes m [] = []"
| "drop_bytes m [e] = [e]"
| "drop_bytes m (e # e' # es) =
     (if m < bytes_of (e # e' # es) then drop_bytes m (e' # es) else e # e' # es)"

lemma drop_bytes_short: "length es \<le> 1 \<Longrightarrow> drop_bytes m es = es"
  by (cases es) auto

lemma drop_bytes_tl: "1 < length es \<Longrightarrow> m < bytes_of es \<Longrightarrow> drop_bytes m (tl es) = drop_bytes m es"
  by (cases "(m, es)" rule: drop_bytes.cases) auto

lemma drop_bytes_fits: "\<not> m < bytes_of es \<Longrightarrow> drop_bytes m es = es"
  by (cases "(m, es)" rule: drop_bytes.cases) auto

lemma evictForBytes_facts:
  assumes "ring_inv rb" "0 < latest rb"
  shows "ring_inv (evictForBytes rb) \<and> held (evictForBytes rb) = drop_bytes (rb_maxBytes rb) (held rb) \<and>
    rb_cap (evictForBytes rb) = rb_cap rb \<and> rb_latestSeq (evictForBytes rb) = rb_latestSeq rb \<and>
    rb_maxBytes (evictForBytes rb) = rb_maxBytes rb"
  using assms
proof (induction rb rule: evictForBytes.induct)
  case (1 rb)
  note bytes = bytes_of_held[OF 1(2)]
  show ?case
  proof (cases "rb_maxBytes rb < rb_bytes rb \<and> rb_floorSeq rb < rb_latestSeq rb")
    case True
    have lt: "rb_floorSeq rb < rb_latestSeq rb" using True by simp
    note st = evict_step_facts[OF 1(2) lt]
    have "drop_bytes (rb_maxBytes rb) (held (evict_step rb)) = drop_bytes (rb_maxBytes rb) (held rb)"
    proof (cases "oldest rb = floor_of rb")
      case True
      have "1 < length (held rb)"
        using True lt by (simp add: held_length word_less_nat_alt)
      with st True \<open>rb_maxBytes rb < rb_bytes rb \<and> _\<close> bytes show ?thesis by (simp add: drop_bytes_tl)
    qed (use st in simp)
    with 1(1)[OF True] st 1(3) True show ?thesis
      by (subst (1 2 3 4 5) evictForBytes.simps) simp
  next
    case False
    then have e: "evictForBytes rb = rb" by (subst evictForBytes.simps) auto
    have "drop_bytes (rb_maxBytes rb) (held rb) = held rb"
    proof (cases "rb_maxBytes rb < rb_bytes rb")
      case True
      with False have "latest rb \<le> floor_of rb" by (simp add: word_less_nat_alt)
      then have "length (held rb) \<le> 1" by (simp add: held_length oldest_def)
      then show ?thesis by (rule drop_bytes_short)
    qed (simp add: bytes drop_bytes_fits)
    with 1(2) e show ?thesis by simp
  qed
qed

section \<open>Publishing\<close>

text \<open>What publishing does to the list of held envelopes: count first, then bytes.\<close>

definition shrink :: "nat \<Rightarrow> uint64 \<Rightarrow> Envelope list \<Rightarrow> Envelope list" where
  "shrink c m es = drop_bytes m (drop (length es - c) es)"

definition placed :: "ringBuffer \<Rightarrow> Envelope \<Rightarrow> ringBuffer" where
  "placed rb env =
     rb\<lparr>rb_bytes := rb_bytes rb - envelopeBytes (rb_buf rb ! slot rb (env_Seq env)) + envelopeBytes env,
        rb_buf := (rb_buf rb)[slot rb (env_Seq env) := env],
        rb_latestSeq := env_Seq env\<rparr>"

lemma ring_publish_placed: "ring_publish rb env = evictForBytes (placed rb env)"
  by (simp add: ring_publish_def placed_def Let_def)

lemma placed_facts:
  assumes inv: "ring_inv rb" and seq: "seq_of env = Suc (latest rb)"
  shows "ring_inv (placed rb env) \<and>
    held (placed rb env) = drop (Suc (length (held rb)) - slots rb) (held rb @ [env])"
proof -
  let ?n = "latest rb" and ?c = "slots rb" and ?f = "floor_of rb" and ?r = "placed rb env"
  let ?i = "Suc ?n mod ?c"
  have c: "0 < ?c" "length (rb_buf rb) = ?c" and f1: "1 \<le> ?f" and fn: "?f \<le> max 1 ?n"
    using inv by (auto simp: ring_inv_def)
  have live: "seq_of (held_at rb s) = s" if "oldest rb \<le> s" "s \<le> ?n" for s
    using inv that by (auto simp: ring_inv_def)
  have shape: "seq_of (rb_buf rb ! i) = 0 \<or> oldest rb \<le> seq_of (rb_buf rb ! i) \<and>
      seq_of (rb_buf rb ! i) \<le> ?n \<and> seq_of (rb_buf rb ! i) mod ?c = i" if "i < ?c" for i
    using inv that by (auto simp: ring_inv_def)
  have r: "rb_cap ?r = rb_cap rb" "latest ?r = Suc ?n" "rb_floorSeq ?r = rb_floorSeq rb"
    "rb_buf ?r = (rb_buf rb)[?i := env]"
    "rb_bytes ?r = rb_bytes rb - envelopeBytes (rb_buf rb ! ?i) + envelopeBytes env"
    by (simp_all add: placed_def slot_nat seq)
  have i: "?i < length (rb_buf rb)" using c by simp
  have o: "oldest ?r = max ?f (Suc (Suc ?n - ?c))" by (simp add: oldest_def r)
  have fn2: "?f \<le> Suc ?n" using fn by (simp add: max_def split: if_splits)
  have oo: "oldest rb \<le> oldest ?r" unfolding o oldest_def[of rb] by (auto simp: max_def)
  have new: "held_at ?r (Suc ?n) = env" using i by (simp add: held_at_def r)
  have same: "held_at ?r s = held_at rb s" if "oldest ?r \<le> s" "s \<le> ?n" for s
  proof -
    have "s mod ?c \<noteq> ?i" using that by (intro mod_window) (auto simp: o)
    then show ?thesis by (simp add: held_at_def r)
  qed
  have "ring_inv ?r"
    unfolding ring_inv_def r(1,2,3)
  proof (intro conjI allI impI)
    show "0 < ?c" "length (rb_buf ?r) = ?c" "1 \<le> ?f" "?f \<le> max 1 (Suc ?n)"
      using c f1 fn by (simp_all add: r)
    show "seq_of (held_at ?r s) = s" if "oldest ?r \<le> s \<and> s \<le> Suc ?n" for s
      using that same live oo new seq by (cases "s = Suc ?n") auto
    show "seq_of (rb_buf ?r ! j) = 0 \<or> oldest ?r \<le> seq_of (rb_buf ?r ! j) \<and>
        seq_of (rb_buf ?r ! j) \<le> Suc ?n \<and> seq_of (rb_buf ?r ! j) mod ?c = j" if j: "j < ?c" for j
    proof (cases "j = ?i")
      case True
      then show ?thesis using i seq c fn by (auto simp: r o)
    next
      case False
      then have b: "rb_buf ?r ! j = rb_buf rb ! j" by (simp add: r)
      have "seq_of (rb_buf rb ! j) = 0 \<or> oldest ?r \<le> seq_of (rb_buf rb ! j)"
      proof (rule ccontr)
        assume a: "\<not> ?thesis"
        with shape[OF j] have s: "oldest rb \<le> seq_of (rb_buf rb ! j)" "seq_of (rb_buf rb ! j) mod ?c = j" by auto
        from a s(1) have "seq_of (rb_buf rb ! j) + ?c = Suc ?n"
          unfolding o oldest_def[of rb] by (auto simp: max_def split: if_splits)
        then have "?i = seq_of (rb_buf rb ! j) mod ?c" by (metis mod_add_self2)
        with s False show False by simp
      qed
      with shape[OF j] show ?thesis unfolding b by auto
    qed
    show "rb_bytes ?r = bytes_of (rb_buf ?r)"
      using inv i by (simp add: r bytes_of_update ring_inv_def)
  qed
  moreover have "held ?r = drop (Suc (length (held rb)) - ?c) (held rb @ [env])"
  proof -
    have le: "oldest ?r \<le> Suc ?n" "oldest rb \<le> Suc ?n" using fn2 c
      unfolding o oldest_def[of rb] by (auto simp: max_def)
    have "held ?r = map (held_at rb) [oldest ?r ..< Suc ?n] @ [env]"
      unfolding held_def r(2) upt_Suc_append[OF le(1)] using same by (auto simp: new simp del: upt_Suc)
    also have "[oldest ?r ..< Suc ?n] = drop (oldest ?r - oldest rb) [oldest rb ..< Suc ?n]"
      using oo by (simp del: upt_Suc)
    also have "map (held_at rb) \<dots> = drop (oldest ?r - oldest rb) (held rb)"
      by (simp add: drop_map held_def del: upt_Suc)
    also have "oldest ?r - oldest rb = Suc (length (held rb)) - ?c"
      using le c fn2 unfolding held_length o oldest_def[of rb] by (auto simp: max_def split: if_splits)
    finally show ?thesis using c le by (simp add: held_length)
  qed
  ultimately show ?thesis by blast
qed

lemma ring_publish_facts [inv_step]:
  assumes "ring_inv rb" "seq_of env = Suc (latest rb)"
  shows "ring_inv (ring_publish rb env) \<and>
    held (ring_publish rb env) = shrink (slots rb) (rb_maxBytes rb) (held rb @ [env]) \<and>
    rb_cap (ring_publish rb env) = rb_cap rb \<and> rb_maxBytes (ring_publish rb env) = rb_maxBytes rb \<and>
    rb_latestSeq (ring_publish rb env) = env_Seq env"
proof -
  note p = placed_facts[OF assms]
  have frame: "rb_cap (placed rb env) = rb_cap rb" "rb_maxBytes (placed rb env) = rb_maxBytes rb"
    "rb_latestSeq (placed rb env) = env_Seq env"
    by (simp_all add: placed_def)
  have "0 < latest (placed rb env)" using assms(2) by (simp add: frame)
  from evictForBytes_facts[OF _ this] p show ?thesis
    by (simp add: ring_publish_placed frame shrink_def)
qed

lemma newRingBuffer_inv [inv_step]:
  assumes "newRingBuffer capacity maxBytes = Inr rb" "capacity < 2 ^ 63"
  shows "ring_inv rb \<and> held rb = [] \<and> slots rb = nat capacity \<and> rb_maxBytes rb = maxBytes \<and>
    rb_latestSeq rb = 0"
proof -
  have rb: "rb = \<lparr>rb_buf = replicate (nat capacity) zero_envelope, rb_cap = of_int capacity,
      rb_latestSeq = 0, rb_maxBytes = maxBytes, rb_bytes = 0, rb_floorSeq = 1\<rparr>" and pos: "0 < capacity"
    using assms(1) by (auto simp: newRingBuffer_def split: if_splits)
  have cap: "unat (of_int capacity :: uint64) = nat capacity"
  proof -
    have "(of_int capacity :: uint64) = of_nat (nat capacity)" using pos by simp
    moreover have "nat capacity < 2 ^ LENGTH(64)" using assms(2) by simp
    ultimately show ?thesis by (simp add: unat_of_nat)
  qed
  have "bytes_of (replicate k zero_envelope) = 0" for k
    by (induction k) (simp_all add: bytes_of_def)
  then show ?thesis
    using pos by (simp add: rb ring_inv_def cap oldest_def held_def)
qed

lemma ring_reset_inv [inv_step]:
  assumes "ring_inv rb"
  shows "ring_inv (ring_reset rb) \<and> held (ring_reset rb) = []"
proof -
  have "bytes_of (map (\<lambda>_. zero_envelope) es) = 0" for es
    by (induction es) (simp_all add: bytes_of_def)
  with assms show ?thesis by (auto simp: ring_reset_def ring_inv_def oldest_def held_def)
qed

text \<open>The list a ring refines: consecutive numbers ending at the latest one.\<close>

lemma held_seqs: "ring_inv rb \<Longrightarrow> map seq_of (held rb) = [oldest rb ..< Suc (latest rb)]"
  by (auto simp: held_def ring_inv_def less_Suc_eq_le intro!: map_idI simp del: upt_Suc)

lemma drop_bytes_suffix: "\<exists>k. drop_bytes m es = drop k es \<and> (es \<noteq> [] \<longrightarrow> k < length es)"
proof (induction m es rule: drop_bytes.induct)
  case (3 m e e' es)
  show ?case
  proof (cases "m < bytes_of (e # e' # es)")
    case True
    with 3 obtain k where "drop_bytes m (e' # es) = drop k (e' # es)" "k < length (e' # es)" by auto
    with True show ?thesis by (intro exI[of _ "Suc k"]) auto
  qed (auto intro: exI[of _ 0])
qed auto

lemma drop_bytes_bound: "length (drop_bytes m es) \<le> 1 \<or> bytes_of (drop_bytes m es) \<le> m"
  by (induction m es rule: drop_bytes.induct) (auto simp: not_less)

section \<open>Reading\<close>

lemma ring_window:
  assumes "ring_inv rb" "0 < latest rb"
  shows "unat (oldestSeq rb) = oldest rb \<and> 1 \<le> oldest rb \<and> oldest rb \<le> latest rb"
  using assms oldestSeq_nat[of rb] by (auto simp: ring_inv_def oldest_def)

lemma read_slot:
  assumes "ring_inv rb" "oldestSeq rb \<le> next" "next \<le> rb_latestSeq rb" "0 < latest rb"
  shows "env_Seq (rb_buf rb ! slot rb next) = next \<and>
    rb_buf rb ! slot rb next = held rb ! (unat next - oldest rb) \<and> unat next - oldest rb < length (held rb)"
proof -
  note w = ring_window[OF assms(1,4)]
  have b: "oldest rb \<le> unat next" "unat next \<le> latest rb"
    using assms w by (simp_all add: word_le_nat_alt)
  have "seq_of (held_at rb (unat next)) = unat next"
    using assms(1) b by (auto simp: ring_inv_def)
  then have "env_Seq (held_at rb (unat next)) = next" by (simp add: word_unat_eq_iff)
  moreover have "held rb ! (unat next - oldest rb) = held_at rb (unat next)"
    using b by (simp add: held_def del: upt_Suc)
  ultimately show ?thesis using b by (simp add: slot_nat held_at_def held_length)
qed

section \<open>The stream invariant\<close>

definition es_inv :: "EventStream \<Rightarrow> bool" where
  "es_inv es \<longleftrightarrow> ring_inv (es_ring es) \<and> rb_latestSeq (es_ring es) = es_seq es"

lemma NewEventStream_inv [inv_step]:
  "NewEventStream capacity mb = Inr es \<Longrightarrow> capacity < 2 ^ 63 \<Longrightarrow>
   es_inv es \<and> es_seq es = 0 \<and> held (es_ring es) = []"
  using newRingBuffer_inv by (fastforce simp: NewEventStream_def es_inv_def split: sum.splits)

lemma ES_Publish_facts [inv_step]:
  assumes "es_inv es" "Suc (unat (es_seq es)) < 2 ^ 64" "ES_Publish marshal es env = (es', env')"
  shows "es_inv es' \<and> es_seq es' = es_seq es + 1 \<and> env_Seq env' = es_seq es + 1 \<and>
    seq_of env' = Suc (unat (es_seq es)) \<and>
    held (es_ring es') =
      shrink (slots (es_ring es)) (rb_maxBytes (es_ring es)) (held (es_ring es) @ [env']) \<and>
    slots (es_ring es') = slots (es_ring es) \<and> rb_maxBytes (es_ring es') = rb_maxBytes (es_ring es) \<and>
    es_dropped es' = es_dropped es"
proof -
  have u: "unat (es_seq es + 1) = Suc (unat (es_seq es))"
    using assms(2) by (intro unat_Suc_no_wrap) simp
  have e: "env_Seq env' = es_seq es + 1" "es_seq es' = es_seq es + 1"
    "es_ring es' = ring_publish (es_ring es) env'" "es_dropped es' = es_dropped es"
    using assms(3) by (auto simp: ES_Publish_def Let_def)
  then have "seq_of env' = Suc (latest (es_ring es))"
    using assms(1) u by (simp add: es_inv_def)
  from ring_publish_facts[OF _ this] assms(1) e u show ?thesis
    by (simp add: es_inv_def)
qed

lemma shrink_bounds:
  assumes "0 < c"
  shows "length (shrink c m (es @ [e])) \<le> c \<and>
    (\<exists>k \<le> length es. shrink c m (es @ [e]) = drop k (es @ [e])) \<and>
    (bytes_of (shrink c m (es @ [e])) \<le> m \<or> shrink c m (es @ [e]) = [e])"
proof -
  let ?d = "Suc (length es) - c"
  have ne: "drop ?d (es @ [e]) \<noteq> []" using assms by simp
  obtain k where k: "drop_bytes m (drop ?d (es @ [e])) = drop k (drop ?d (es @ [e]))"
    "k < length (drop ?d (es @ [e]))"
    using drop_bytes_suffix ne by meson
  have s: "shrink c m (es @ [e]) = drop (k + ?d) (es @ [e])"
    by (simp only: shrink_def length_append_singleton k(1) drop_drop)
  have kd: "k + ?d \<le> length es" using k(2) by simp
  have "length (shrink c m (es @ [e])) \<le> 1 \<Longrightarrow> shrink c m (es @ [e]) = [e]"
    unfolding s using kd by simp
  then have "bytes_of (shrink c m (es @ [e])) \<le> m \<or> shrink c m (es @ [e]) = [e]"
    using drop_bytes_bound[of m "drop ?d (es @ [e])"] by (auto simp: shrink_def)
  moreover have "length (shrink c m (es @ [e])) \<le> c" unfolding s by simp
  ultimately show ?thesis using s kd by blast
qed

text \<open>
  C7. The ring refines a list: publishing an envelope gives it the next number, appends it, and
  drops from the front what exceeds the slot count or the byte budget, never the envelope just
  published; the envelopes held keep consecutive numbers up to the latest one.
\<close>

theorem publish_refines_list:
  assumes "es_inv es" "Suc (unat (es_seq es)) < 2 ^ 64" "ES_Publish marshal es env = (es', env')"
  shows "es_inv es' \<and> env_Seq env' = es_seq es + 1 \<and>
    held (es_ring es') =
      shrink (slots (es_ring es)) (rb_maxBytes (es_ring es)) (held (es_ring es) @ [env']) \<and>
    (\<exists>k \<le> length (held (es_ring es)). held (es_ring es') = drop k (held (es_ring es) @ [env'])) \<and>
    length (held (es_ring es')) \<le> slots (es_ring es) \<and>
    (bytes_of (held (es_ring es')) \<le> rb_maxBytes (es_ring es) \<or> held (es_ring es') = [env']) \<and>
    rb_bytes (es_ring es') = bytes_of (held (es_ring es')) \<and>
    map seq_of (held (es_ring es')) =
      [Suc (unat (es_seq es')) - length (held (es_ring es')) ..< Suc (unat (es_seq es'))]"
proof -
  note f = ES_Publish_facts[OF assms]
  have c: "0 < slots (es_ring es)" using assms(1) by (simp add: es_inv_def ring_inv_def)
  have inv: "ring_inv (es_ring es')" "rb_latestSeq (es_ring es') = es_seq es'"
    using f by (simp_all add: es_inv_def)
  have "oldest (es_ring es') \<le> latest (es_ring es')"
    using ring_window[OF inv(1)] f inv(2) assms(2) by (simp add: unat_Suc_no_wrap)
  then have "map seq_of (held (es_ring es')) =
      [Suc (unat (es_seq es')) - length (held (es_ring es')) ..< Suc (unat (es_seq es'))]"
    using held_seqs[OF inv(1)] by (simp add: held_length inv(2) del: upt_Suc)
  with f bytes_of_held[OF inv(1)]
    shrink_bounds[OF c, of "rb_maxBytes (es_ring es)" "held (es_ring es)" env']
  show ?thesis by simp
qed

text \<open>A stream of capacity 2 that holds one envelope, for the witnesses.\<close>

definition es_example :: EventStream where
  "es_example =
     fst (ES_Publish (\<lambda>_. None)
       \<lparr>es_seq = 0,
        es_ring = \<lparr>rb_buf = [zero_envelope, zero_envelope], rb_cap = 2, rb_latestSeq = 0,
                   rb_maxBytes = 1000, rb_bytes = 0, rb_floorSeq = 1\<rparr>,
        es_dropped = 0\<rparr> zero_envelope)"

lemma es_example_inv: "es_inv es_example" "es_seq es_example = 1" "length (held (es_ring es_example)) = 1"
  "slots (es_ring es_example) = 2"
proof -
  let ?rb = "\<lparr>rb_buf = [zero_envelope, zero_envelope], rb_cap = 2, rb_latestSeq = 0,
     rb_maxBytes = 1000, rb_bytes = 0, rb_floorSeq = 1\<rparr>"
  let ?es = "\<lparr>es_seq = 0, es_ring = ?rb, es_dropped = 0\<rparr>"
  have "replicate 2 zero_envelope = [zero_envelope, zero_envelope]" by (simp add: numeral_2_eq_2)
  then have "newRingBuffer 2 1000 = Inr ?rb" by (simp add: newRingBuffer_def)
  from newRingBuffer_inv[OF this] have r: "ring_inv ?rb" "held ?rb = []" by simp_all
  then have "es_inv ?es" by (simp add: es_inv_def)
  from ES_Publish_facts[OF this, of "\<lambda>_. None" zero_envelope, OF _ prod.collapse[symmetric]] r(2)
  show "es_inv es_example" "es_seq es_example = 1" "length (held (es_ring es_example)) = 1"
    "slots (es_ring es_example) = 2"
    by (simp_all add: es_example_def shrink_def)
qed

theorem publish_refines_list_witness:
  "es_inv (fst (ES_Publish (\<lambda>_. None) es_example zero_envelope)) \<and>
   length (held (es_ring (fst (ES_Publish (\<lambda>_. None) es_example zero_envelope)))) \<le> 2"
proof -
  have "Suc (unat (es_seq es_example)) < 2 ^ 64" by (simp add: es_example_inv)
  from publish_refines_list[OF es_example_inv(1) this prod.collapse[symmetric], of "\<lambda>_. None" zero_envelope]
  have "es_inv (fst (ES_Publish (\<lambda>_. None) es_example zero_envelope))"
    "length (held (es_ring (fst (ES_Publish (\<lambda>_. None) es_example zero_envelope)))) \<le> slots (es_ring es_example)"
    by blast+
  then show ?thesis by (simp add: es_example_inv)
qed

section \<open>What a reader sees\<close>

text \<open>
  A history of a stream and one reader of it: publications and reads in any order. The ghost
  components are the envelopes published and the results the reader got.
\<close>

datatype stream_op = Pub Envelope | TryReadOp

type_synonym history = "EventStream \<times> uint64 \<times> Envelope list \<times> ReadResult list"

fun run_op :: "(Envelope \<Rightarrow> string option) \<Rightarrow> history \<Rightarrow> stream_op \<Rightarrow> history" where
  "run_op marshal (es, next, pub, log) (Pub e) =
     (let (es', env) = ES_Publish marshal es e in (es', next, pub @ [env], log))"
| "run_op marshal (es, next, pub, log) TryReadOp =
     (case TryRead (es_ring es) next of
        (None, next') \<Rightarrow> (es, next', pub, log)
      | (Some res, next') \<Rightarrow> (es, next', pub, log @ [res]))"

text \<open>
  \<open>covers pub p log\<close>: reading from position \<open>p\<close>, the results are the published envelopes in
  order, each gap counted exactly; the value is the position after the last result.
\<close>

fun covers :: "Envelope list \<Rightarrow> nat \<Rightarrow> ReadResult list \<Rightarrow> nat option" where
  "covers pub p [] = Some p"
| "covers pub p (Got e # rs) =
     (if 1 \<le> p \<and> p \<le> length pub \<and> pub ! (p - 1) = e then covers pub (Suc p) rs else None)"
| "covers pub p (Dropped d # rs) = (if d = 0 then None else covers pub (p + unat d) rs)"

lemma covers_append:
  "covers pub p (rs @ rs') = (case covers pub p rs of None \<Rightarrow> None | Some q \<Rightarrow> covers pub q rs')"
  by (induction pub p rs rule: covers.induct) auto

lemma covers_more: "covers pub p rs = Some q \<Longrightarrow> covers (pub @ new) p rs = Some q"
  by (induction pub p rs rule: covers.induct) (auto simp: nth_append split: if_splits)

definition history_inv :: "nat \<Rightarrow> history \<Rightarrow> bool" where
  "history_inv start = (\<lambda>(es, next, pub, log).
     es_inv es \<and> unat (es_seq es) = length pub \<and>
     held (es_ring es) = drop (length pub - length (held (es_ring es))) pub \<and>
     covers pub start log = Some (unat next))"

lemma history_publish:
  assumes "history_inv start (es, next, pub, log)" "Suc (length pub) < 2 ^ 64"
  shows "history_inv start (run_op marshal (es, next, pub, log) (Pub e))"
proof -
  obtain es' env where p: "ES_Publish marshal es e = (es', env)" by fastforce
  note inv = assms(1)[unfolded history_inv_def prod.case]
  have lt: "Suc (unat (es_seq es)) < 2 ^ 64" using inv assms(2) by simp
  note f = ES_Publish_facts[OF conjunct1[OF inv] lt p]
  have "0 < slots (es_ring es)" using inv by (simp add: es_inv_def ring_inv_def)
  from shrink_bounds[OF this, of "rb_maxBytes (es_ring es)" "held (es_ring es)" env]
  obtain k where k: "k \<le> length (held (es_ring es))" "held (es_ring es') = drop k (held (es_ring es) @ [env])"
    using f by auto
  let ?h = "held (es_ring es)" and ?d = "length pub - length (held (es_ring es))"
  have h: "?h = drop ?d pub" using inv by simp
  then have "length ?h \<le> length pub" by (metis diff_le_self length_drop)
  then have "held (es_ring es') = drop (k + ?d) (pub @ [env])"
    unfolding k(2) using k(1) h by (metis (no_types, lifting) append_Nil2 diff_is_0_eq' diff_le_self drop_append drop_drop drop0)
  moreover have "k + ?d \<le> length pub" using k(1) \<open>length ?h \<le> length pub\<close> by simp
  ultimately have "held (es_ring es') =
      drop (length (pub @ [env]) - length (held (es_ring es'))) (pub @ [env])"
    by simp
  moreover have "unat (es_seq es') = length (pub @ [env])"
    using f inv lt by (simp add: unat_Suc_no_wrap)
  moreover have "covers (pub @ [env]) start log = Some (unat next)"
    using inv covers_more by blast
  moreover have "es_inv es'" using f by blast
  ultimately show ?thesis by (simp only: run_op.simps p Let_def prod.case history_inv_def)
qed

lemma TryRead_cases:
  assumes "ring_inv rb" "Suc (latest rb) < 2 ^ 64"
  obtains (caught_up) "TryRead rb next = (None, next)" "latest rb < unat next \<or> latest rb = 0"
  | (gap) "TryRead rb next = (Some (Dropped (oldestSeq rb - next)), oldestSeq rb)"
      "unat (oldestSeq rb) = oldest rb" "unat next < oldest rb" "oldest rb \<le> latest rb"
      "unat (oldestSeq rb - next) = oldest rb - unat next"
  | (got) "TryRead rb next = (Some (Got (held rb ! (unat next - oldest rb))), next + 1)"
      "oldest rb \<le> unat next" "unat next \<le> latest rb" "unat (next + 1) = Suc (unat next)"
      "env_Seq (held rb ! (unat next - oldest rb)) = next"
proof -
  consider "rb_latestSeq rb = 0 \<or> rb_latestSeq rb < next"
    | "rb_latestSeq rb \<noteq> 0" "\<not> rb_latestSeq rb < next" "next < oldestSeq rb"
    | "rb_latestSeq rb \<noteq> 0" "\<not> rb_latestSeq rb < next" "\<not> next < oldestSeq rb"
    by blast
  then show thesis
  proof cases
    case 1
    then show thesis by (intro caught_up) (auto simp: TryRead_def Let_def word_less_nat_alt)
  next
    case 2
    then have pos: "0 < latest rb" by (simp add: unat_gt_0)
    note w = ring_window[OF assms(1) pos]
    have "unat (oldestSeq rb - next) = oldest rb - unat next"
      using 2(3) w unat_diff_le[of "next" "oldestSeq rb"] by simp
    with 2 w show thesis by (intro gap) (simp_all add: TryRead_def Let_def word_less_nat_alt)
  next
    case 3
    then have pos: "0 < latest rb" by (simp add: unat_gt_0)
    note w = ring_window[OF assms(1) pos]
    have le: "oldestSeq rb \<le> next" "next \<le> rb_latestSeq rb" using 3 by simp_all
    note r = read_slot[OF assms(1) le pos]
    have "unat (next + 1) = Suc (unat next)"
      using le(2) assms(2) by (intro unat_Suc_no_wrap) (simp add: word_le_nat_alt)
    moreover have "env_Seq (held rb ! (unat next - oldest rb)) = next" using r by metis
    ultimately show thesis using 3 r w le by (intro got) (simp_all add: TryRead_def Let_def word_le_nat_alt)
  qed
qed

text \<open>On a ring that holds something, a pass of \<open>Read\<close> and \<open>TryRead\<close> give the same result.\<close>

lemma Read_pass_agrees:
  assumes "ring_inv rb" "0 < latest rb"
  shows "Read_pass rb next = TryRead rb next"
proof -
  note w = ring_window[OF assms]
  have "\<not> (rb_latestSeq rb < next \<and> next < oldestSeq rb)"
    using w by (auto simp: word_less_nat_alt)
  then show ?thesis
    using assms(2) by (auto simp: Read_pass_def TryRead_def Let_def not_less)
qed

lemma history_read:
  assumes "history_inv start (es, next, pub, log)" "Suc (length pub) < 2 ^ 64"
  shows "history_inv start (run_op marshal (es, next, pub, log) TryReadOp)"
proof -
  note inv = assms(1)[unfolded history_inv_def prod.case]
  let ?rb = "es_ring es"
  have rb: "ring_inv ?rb" "latest ?rb = length pub" using inv by (simp_all add: es_inv_def)
  then have lt: "Suc (latest ?rb) < 2 ^ 64" using assms(2) by simp
  show ?thesis
  proof (cases rule: TryRead_cases[OF rb(1) lt, of "next"])
    case 1
    then show ?thesis using inv by (simp add: history_inv_def)
  next
    case gap: 2
    have "oldestSeq ?rb - next \<noteq> 0" using gap by (metis unat_0 zero_less_diff less_numeral_extra(3))
    then show ?thesis using inv gap by (simp add: history_inv_def covers_append)
  next
    case got: 3
    have len: "length (held ?rb) = Suc (length pub) - oldest ?rb" by (simp add: held_length rb)
    have o1: "1 \<le> oldest ?rb" by (simp add: oldest_def)
    have le: "unat next \<le> length pub" "oldest ?rb \<le> unat next" using got rb(2) by simp_all
    have "held ?rb = drop (length pub - length (held ?rb)) pub" using inv by blast
    then have "held ?rb ! (unat next - oldest ?rb) =
        drop (length pub - length (held ?rb)) pub ! (unat next - oldest ?rb)" by simp
    also have "\<dots> = pub ! (unat next - 1)" using le o1 len by (simp add: nth_drop)
    finally have "pub ! (unat next - 1) = held ?rb ! (unat next - oldest ?rb)" by simp
    then show ?thesis using inv got le o1 by (simp add: history_inv_def covers_append)
  qed
qed

definition publishes :: "stream_op list \<Rightarrow> nat" where
  "publishes ops = length (filter (\<lambda>op. op \<noteq> TryReadOp) ops)"

lemma history_run:
  assumes "history_inv start h" "publishes ops + length (fst (snd (snd h))) < 2 ^ 64 - 1"
  shows "history_inv start (foldl (run_op marshal) h ops) \<and>
    length (fst (snd (snd (foldl (run_op marshal) h ops)))) = publishes ops + length (fst (snd (snd h)))"
  using assms
proof (induction ops arbitrary: h)
  case Nil
  then show ?case by (simp add: publishes_def)
next
  case (Cons op ops)
  obtain es "next" pub log where h: "h = (es, next, pub, log)" by (cases h) auto
  have b: "Suc (length pub) < 2 ^ 64" using Cons.prems(2) by (simp add: h)
  have "history_inv start (run_op marshal h op)"
    using history_publish[OF Cons.prems(1)[unfolded h] b] history_read[OF Cons.prems(1)[unfolded h] b]
    by (cases op) (simp_all add: h)
  moreover have "length (fst (snd (snd (run_op marshal h op)))) = length pub + (if op = TryReadOp then 0 else 1)"
    by (cases op) (simp_all add: h split: prod.split option.split)
  moreover have "publishes (op # ops) = publishes ops + (if op = TryReadOp then 0 else 1)"
    by (simp add: publishes_def)
  ultimately show ?case using Cons.IH[of "run_op marshal h op"] Cons.prems(2) by (simp add: h)
qed

text \<open>
  C8. A reader loses nothing silently. Whatever the interleaving of publications and reads, the
  results a reader got since it was created are the published envelopes in order from its start,
  with every gap counted exactly, and a read that yields nothing means that the reader has seen
  or counted everything published.
\<close>

theorem reader_accounting:
  assumes "NewEventStream capacity mb = Inr es0" "capacity < 2 ^ 63"
    and "publishes ops < 2 ^ 64 - 1"
    and "foldl (run_op marshal) (es0, newReader afterSeq, [], []) ops = (es, next, pub, log)"
  shows "covers pub (unat (newReader afterSeq)) log = Some (unat next) \<and>
    length pub = publishes ops \<and>
    (fst (TryRead (es_ring es) next) = None \<longleftrightarrow> length pub < unat next \<or> pub = [])"
proof -
  have start: "history_inv (unat (newReader afterSeq)) (es0, newReader afterSeq, [], [])"
    using NewEventStream_inv[OF assms(1,2)] by (simp add: history_inv_def)
  have "history_inv (unat (newReader afterSeq)) (es, next, pub, log) \<and> length pub = publishes ops"
    using history_run[OF start, of ops marshal] assms(3,4) by simp
  then have h: "history_inv (unat (newReader afterSeq)) (es, next, pub, log)" "length pub = publishes ops"
    by simp_all
  have rb: "ring_inv (es_ring es)" "latest (es_ring es) = length pub"
    using h(1) by (simp_all add: history_inv_def es_inv_def)
  have lt: "Suc (latest (es_ring es)) < 2 ^ 64" using rb h(2) assms(3) by simp
  have "fst (TryRead (es_ring es) next) = None \<longleftrightarrow> length pub < unat next \<or> pub = []"
    by (cases rule: TryRead_cases[OF rb(1) lt, of "next"]) (use rb(2) in \<open>auto simp: oldest_def\<close>)
  with h show ?thesis by (simp add: history_inv_def)
qed

definition es_fresh :: EventStream where
  "es_fresh = \<lparr>es_seq = 0,
     es_ring = \<lparr>rb_buf = [zero_envelope, zero_envelope], rb_cap = 2, rb_latestSeq = 0,
                rb_maxBytes = 1000, rb_bytes = 0, rb_floorSeq = 1\<rparr>,
     es_dropped = 0\<rparr>"

lemma es_fresh_new: "NewEventStream 2 1000 = Inr es_fresh"
proof -
  have "replicate 2 zero_envelope = [zero_envelope, zero_envelope]" by (simp add: numeral_2_eq_2)
  then show ?thesis by (simp add: NewEventStream_def newRingBuffer_def es_fresh_def)
qed

definition history_example :: history where
  "history_example = foldl (run_op (\<lambda>_. None)) (es_fresh, newReader 0, [], [])
     [Pub zero_envelope, TryReadOp, TryReadOp]"

theorem reader_accounting_witness:
  "case history_example of (es, next, pub, log) \<Rightarrow>
     covers pub 1 log = Some (unat next) \<and> length pub = 1"
proof -
  obtain es "next" pub log where h: "history_example = (es, next, pub, log)" by (cases history_example) auto
  have "publishes [Pub zero_envelope, TryReadOp, TryReadOp] = 1" by (simp add: publishes_def)
  with reader_accounting[OF es_fresh_new _ _ h[unfolded history_example_def]]
  show ?thesis by (simp add: h newReader_def)
qed

section \<open>Draining to storage\<close>

definition store_one :: "('s \<Rightarrow> Envelope \<Rightarrow> 's \<times> bool) \<Rightarrow> 's StorageWriter \<Rightarrow> Envelope \<Rightarrow> 's StorageWriter" where
  "store_one store w env =
     (let (st, ok) = store (sw_storage w) env in
      w\<lparr>sw_storage := st, sw_appendErrors := sw_appendErrors w + (if ok then 0 else 1)\<rparr>)"

lemma store_one_next:
  "store_one store (w\<lparr>sw_next := n\<rparr>) e = store_one store w e\<lparr>sw_next := n\<rparr>"
  "sw_next (store_one store w e) = sw_next w"
  by (simp_all add: store_one_def Let_def split: prod.splits)

lemma processResult_got: "processResult store (Got e) (es, w) = (es, store_one store w e)"
  by (simp add: processResult_def store_one_def split: prod.split)

lemma store_fold_next:
  "foldl (store_one store) (w\<lparr>sw_next := n\<rparr>) es = foldl (store_one store) w es\<lparr>sw_next := n\<rparr>"
  by (induction es arbitrary: w) (simp_all add: store_one_next)

text \<open>The drain from a position inside the window forwards the rest of the window.\<close>

lemma Drain_window:
  assumes "ring_inv (es_ring es)" "Suc (latest (es_ring es)) < 2 ^ 64" "0 < latest (es_ring es)"
    and "oldest (es_ring es) \<le> unat (sw_next w)" "unat (sw_next w) \<le> Suc (latest (es_ring es))"
    and "Suc (latest (es_ring es)) - unat (sw_next w) < checks"
  shows "Drain store checks (es, w) =
    (True, es, foldl (store_one store) w (drop (unat (sw_next w) - oldest (es_ring es)) (held (es_ring es)))
                 \<lparr>sw_next := of_nat (Suc (latest (es_ring es)))\<rparr>)"
  using assms(4-)
proof (induction checks arbitrary: w)
  case 0
  then show ?case by simp
next
  case (Suc checks)
  let ?rb = "es_ring es" and ?p = "unat (sw_next w)"
  show ?case
  proof (cases rule: TryRead_cases[OF assms(1,2), of "sw_next w"])
    case 1
    then have "?p = Suc (latest ?rb)" using assms(3) Suc.prems by simp
    moreover from this have "of_nat (Suc (latest ?rb)) = sw_next w" by (metis word_unat_self)
    ultimately show ?thesis using 1 by (simp add: held_length)
  next
    case 2
    then show ?thesis using Suc.prems by simp
  next
    case 3
    let ?e = "held ?rb ! (?p - oldest ?rb)"
    have tl: "drop (?p - oldest ?rb) (held ?rb) = ?e # drop (Suc ?p - oldest ?rb) (held ?rb)"
    proof -
      have "?p - oldest ?rb < length (held ?rb)" using 3(2,3) by (simp add: held_length less_diff_conv)
      from Cons_nth_drop_Suc[OF this] show ?thesis using 3(2) by (simp add: Suc_diff_le)
    qed
    have step: "Drain store (Suc checks) (es, w) = Drain store checks (es, store_one store w ?e\<lparr>sw_next := sw_next w + 1\<rparr>)"
      using 3(1) by (simp add: processResult_got store_one_next)
    have "Drain store checks (es, store_one store w ?e\<lparr>sw_next := sw_next w + 1\<rparr>) =
      (True, es, foldl (store_one store) (store_one store w ?e\<lparr>sw_next := sw_next w + 1\<rparr>)
          (drop (Suc ?p - oldest ?rb) (held ?rb)) \<lparr>sw_next := of_nat (Suc (latest ?rb))\<rparr>)"
      using Suc.IH[of "store_one store w ?e\<lparr>sw_next := sw_next w + 1\<rparr>"] 3 Suc.prems by simp
    then show ?thesis unfolding step tl by (simp add: store_fold_next)
  qed
qed

text \<open>
  C9. Draining a quiet stream forwards to storage every envelope still held that the writer has
  not seen, in order and once, counts the gap before them, counts each failed append, and
  leaves the writer caught up; it ends within one check per envelope and two more.
\<close>

theorem Drain_forwards_rest:
  assumes "es_inv es" "Suc (unat (es_seq es)) < 2 ^ 64" "0 < unat (es_seq es)"
    and "unat (sw_next w) \<le> Suc (unat (es_seq es))"
    and "length (held (es_ring es)) + 2 \<le> checks"
  shows "Drain store checks (es, w) =
    (True, es\<lparr>es_dropped := es_dropped es + of_nat (oldest (es_ring es) - unat (sw_next w))\<rparr>,
     foldl (store_one store) w (drop (unat (sw_next w) - oldest (es_ring es)) (held (es_ring es)))
       \<lparr>sw_next := of_nat (Suc (unat (es_seq es)))\<rparr>)"
proof -
  let ?rb = "es_ring es" and ?p = "unat (sw_next w)"
  have rb: "ring_inv ?rb" "rb_latestSeq ?rb = es_seq es" using assms(1) by (simp_all add: es_inv_def)
  have lt: "Suc (latest ?rb) < 2 ^ 64" "0 < latest ?rb" using assms(2,3) rb(2) by simp_all
  show ?thesis
  proof (cases "oldest ?rb \<le> ?p")
    case True
    with Drain_window[OF rb(1) lt True, of checks] assms(4,5) rb(2) show ?thesis
      by (simp add: held_length)
  next
    case False
    let ?es = "RecordDropped es (oldestSeq ?rb - sw_next w)"
    obtain c where c: "checks = Suc c" using assms(5) by (cases checks) auto
    have w: "unat (oldestSeq ?rb) = oldest ?rb" "oldest ?rb \<le> latest ?rb"
      using ring_window[OF rb(1) lt(2)] by simp_all
    have gap: "TryRead ?rb (sw_next w) = (Some (Dropped (oldestSeq ?rb - sw_next w)), oldestSeq ?rb)"
      "unat (oldestSeq ?rb - sw_next w) = oldest ?rb - ?p"
      by (cases rule: TryRead_cases[OF rb(1) lt(1), of "sw_next w"]; use False w lt in simp)+
    have "oldestSeq ?rb - sw_next w = of_nat (oldest ?rb - ?p)"
      using gap(2) by (metis word_unat_self)
    moreover have "Drain store checks (es, w) = Drain store c (?es, w\<lparr>sw_next := oldestSeq ?rb\<rparr>)"
      using gap by (simp add: c processResult_def)
    moreover have "Drain store c (?es, w\<lparr>sw_next := oldestSeq ?rb\<rparr>) =
        (True, ?es, foldl (store_one store) (w\<lparr>sw_next := oldestSeq ?rb\<rparr>) (held ?rb)
           \<lparr>sw_next := of_nat (Suc (latest ?rb))\<rparr>)"
      using Drain_window[of ?es "w\<lparr>sw_next := oldestSeq ?rb\<rparr>" c store] rb lt w assms(5) c
      by (simp add: RecordDropped_def held_length)
    ultimately show ?thesis using False rb(2) by (simp add: RecordDropped_def store_fold_next)
  qed
qed

text \<open>The backend of the witness keeps the list of what was appended.\<close>

theorem Drain_forwards_rest_witness:
  "\<exists>es' w'. Drain (\<lambda>xs e. (xs @ [e], True)) 5 (es_example, NewStorageWriterAfter [] 0) = (True, es', w') \<and>
     sw_next w' = 2"
proof -
  have "Suc (unat (es_seq es_example)) < 2 ^ 64" "0 < unat (es_seq es_example)"
    "length (held (es_ring es_example)) + 2 \<le> 5"
    by (simp_all add: es_example_inv)
  moreover have "unat (sw_next (NewStorageWriterAfter ([] :: Envelope list) 0)) \<le> Suc (unat (es_seq es_example))"
    by (simp add: NewStorageWriterAfter_def newReader_def)
  ultimately show ?thesis
    using Drain_forwards_rest[OF es_example_inv(1), of "NewStorageWriterAfter [] 0" 5 "\<lambda>xs e. (xs @ [e], True)"]
    by (simp add: es_example_inv)
qed

section \<open>Truncation\<close>

lemma rune_walk_facts:
  assumes "rune_boundary s pos" "pos \<le> cutAt" "cutAt < length s"
  shows "rune_boundary s (rune_walk s cutAt pos) \<and> rune_walk s cutAt pos \<le> cutAt \<and>
    cutAt < rune_walk s cutAt pos + rune_size (drop (rune_walk s cutAt pos) s)"
  using assms
proof (induction s cutAt pos rule: rune_walk.induct)
  case (1 s cutAt pos)
  let ?size = "rune_size (drop pos s)"
  show ?case
  proof (cases "pos < cutAt \<and> \<not> cutAt < pos + ?size")
    case True
    have "rune_boundary s (pos + ?size)"
      using 1(2,4) True by (intro rune_boundary.step) auto
    moreover have "rune_walk s cutAt pos = rune_walk s cutAt (pos + ?size)"
      using True 1(4) by (subst rune_walk.simps) (simp add: Let_def)
    ultimately show ?thesis using 1(1)[OF _ refl] True 1(3,4) by simp
  next
    case False
    then have "rune_walk s cutAt pos = pos"
      by (subst rune_walk.simps) (auto simp: Let_def)
    moreover have "cutAt < pos + ?size"
      using False 1(3,4) rune_size_pos[of "drop pos s"] by (cases "pos < cutAt") auto
    ultimately show ?thesis using 1(2,3) by simp
  qed
qed

text \<open>
  C10. A captured string never exceeds its cap; one that fits is unchanged. One that does not fit is
  empty when the cap is not positive; it is the first bytes of the marker, as many as the cap, when
  the cap does not exceed the marker; and otherwise it is a prefix of whole runes, the longest that
  leaves room for the marker, and the marker.
\<close>

theorem TruncateCaptured_spec:
  "(int (length s) \<le> maxBytes \<longrightarrow> TruncateCaptured s maxBytes = s) \<and>
   int (length (TruncateCaptured s maxBytes)) \<le> max 0 maxBytes \<and>
   (maxBytes < int (length s) \<and> maxBytes \<le> 0 \<longrightarrow> TruncateCaptured s maxBytes = []) \<and>
   (maxBytes < int (length s) \<and> 0 < maxBytes \<and> maxBytes \<le> int (length TruncatedSuffix) \<longrightarrow>
      TruncateCaptured s maxBytes = take (nat maxBytes) TruncatedSuffix) \<and>
   (maxBytes < int (length s) \<and> int (length TruncatedSuffix) < maxBytes \<longrightarrow>
      (\<exists>n. rune_boundary s n \<and> TruncateCaptured s maxBytes = take n s @ TruncatedSuffix \<and>
           int n + int (length TruncatedSuffix) \<le> maxBytes \<and>
           maxBytes < int n + int (rune_size (drop n s)) + int (length TruncatedSuffix)))"
proof -
  let ?cut = "nat (maxBytes - int (length TruncatedSuffix))"
  have cut: "rune_boundary s (rune_walk s ?cut 0) \<and> rune_walk s ?cut 0 \<le> ?cut \<and>
      ?cut < rune_walk s ?cut 0 + rune_size (drop (rune_walk s ?cut 0) s)"
    if "maxBytes < int (length s)" "int (length TruncatedSuffix) < maxBytes"
    using that by (intro rune_walk_facts rune_boundary.start) auto
  have whole: "TruncateCaptured s maxBytes = take (rune_walk s ?cut 0) s @ TruncatedSuffix"
    if "maxBytes < int (length s)" "int (length TruncatedSuffix) < maxBytes"
    using that by (simp add: TruncateCaptured_def Let_def TruncatedSuffix_def)
  have longest: "\<exists>n. rune_boundary s n \<and> TruncateCaptured s maxBytes = take n s @ TruncatedSuffix \<and>
      int n + int (length TruncatedSuffix) \<le> maxBytes \<and>
      maxBytes < int n + int (rune_size (drop n s)) + int (length TruncatedSuffix)"
    if "maxBytes < int (length s) \<and> int (length TruncatedSuffix) < maxBytes"
  proof (intro exI conjI)
    note t = that[THEN conjunct1] that[THEN conjunct2]
    show "rune_boundary s (rune_walk s ?cut 0)" using cut[OF t] by simp
    show "TruncateCaptured s maxBytes = take (rune_walk s ?cut 0) s @ TruncatedSuffix" by (rule whole[OF t])
    show "int (rune_walk s ?cut 0) + int (length TruncatedSuffix) \<le> maxBytes"
      using cut[OF t] t(2) by linarith
    show "maxBytes < int (rune_walk s ?cut 0) + int (rune_size (drop (rune_walk s ?cut 0) s)) + int (length TruncatedSuffix)"
      using cut[OF t] t(2) by linarith
  qed
  have "int (length (TruncateCaptured s maxBytes)) \<le> max 0 maxBytes"
    if "\<not> (maxBytes < int (length s) \<and> int (length TruncatedSuffix) < maxBytes)"
    using that by (auto simp: TruncateCaptured_def Let_def)
  moreover have "TruncateCaptured s maxBytes = []" if "maxBytes < int (length s)" "maxBytes \<le> 0"
    using that by (simp add: TruncateCaptured_def)
  moreover have "TruncateCaptured s maxBytes = take (nat maxBytes) TruncatedSuffix"
    if "maxBytes < int (length s)" "0 < maxBytes" "maxBytes \<le> int (length TruncatedSuffix)"
    using that by (simp add: TruncateCaptured_def Let_def)
  moreover have "int (length s) \<le> maxBytes \<longrightarrow> TruncateCaptured s maxBytes = s"
    by (simp add: TruncateCaptured_def)
  moreover have "int (length (TruncateCaptured s maxBytes)) \<le> max 0 maxBytes"
    if "maxBytes < int (length s)" "int (length TruncatedSuffix) < maxBytes"
  proof -
    have "length (TruncateCaptured s maxBytes) \<le> rune_walk s ?cut 0 + length TruncatedSuffix"
      by (simp add: whole[OF that])
    then show ?thesis using cut[OF that] that(2) by linarith
  qed
  ultimately show ?thesis
    using longest by blast
qed

text \<open>
  The witness: a string that fits, a cap that is not positive, one below the marker, and a cut
  before a rune of two bytes (\<open>0xC3 0xA9\<close>) that does not fit.
\<close>

definition cut_example :: string where
  "cut_example = ''ab'' @ [char_of (195 :: nat), char_of (169 :: nat)] @ ''cdefghijklmnop''"

theorem TruncateCaptured_spec_witness:
  "TruncateCaptured ''abc'' 8192 = ''abc'' \<and> TruncateCaptured ''abc'' (- 1) = [] \<and>
   TruncateCaptured ''abcdefg'' 5 = ''...[t'' \<and>
   (\<exists>n. TruncateCaptured cut_example 17 = take n cut_example @ TruncatedSuffix \<and> rune_boundary cut_example n \<and> n \<le> 3)"
proof -
  have "TruncateCaptured ''abcdefg'' 5 = ''...[t''"
    using TruncateCaptured_spec[of "''abcdefg''" 5] by (simp add: TruncatedSuffix_def)
  moreover have "\<exists>n. TruncateCaptured cut_example 17 = take n cut_example @ TruncatedSuffix \<and>
      rune_boundary cut_example n \<and> n \<le> 3"
    using TruncateCaptured_spec[of cut_example 17] by (auto simp: TruncatedSuffix_def cut_example_def)
  ultimately show ?thesis
    using TruncateCaptured_spec[of "''abc''" 8192] TruncateCaptured_spec[of "''abc''" "- 1"] by simp
qed

end
