(* ===== verification/Telemetry.thy ===== *)
theory Telemetry
  imports Events GoMaps
begin

text \<open>
  The telemetry session (\<open>lib/telemetry/telemetry.go\<close>): the category filter in front of the event
  bus, the metadata it stamps, the lock-free views of its state, and the boundary after which its
  events may be stored. Every method of the session runs under its mutex, so a method is one step.
  The bus is used through the interface \<open>event_bus\<close>; the event stream provides it.
\<close>

section \<open>State\<close>

record TelemetryConfig =
  cfg_Categories :: "category list"
  cfg_ExportOTLP :: bool
  cfg_StoreS2 :: bool
  cfg_ExcludedCdpMethods :: "string list"
  cfg_BrowserSessionID :: string
  cfg_BrowserSessionName :: string

text \<open>Times are Unix microseconds; \<open>None\<close> is the zero time. A nil set or pointer is \<open>None\<close>.\<close>

record TelemetrySession =
  ts_id :: string
  ts_sessionStartSeq :: uint64
  ts_categories :: "category set"
  ts_exportOTLP :: bool
  ts_storeS2 :: bool
  ts_storeS2After :: uint64
  ts_appliedAt :: "int option"
  ts_excludedCdp :: "string set option"
  ts_browserSessionID :: string
  ts_browserSessionName :: string
  ts_active :: "category set option"
  ts_excludedCdpActive :: "string set option option"

definition categorySet :: "category list \<Rightarrow> category set" where
  "categorySet cats =
     (let cats = (if cats = [] then DefaultCategories else cats)
      in set cats \<union> (if HasCDPCategory cats then {Monitor} else {}))"

definition excludedSet :: "string list \<Rightarrow> string set option" where
  "excludedSet methods = (if methods = [] then None else Some (set methods))"

definition NewTelemetrySession :: TelemetrySession where
  "NewTelemetrySession =
     \<lparr>ts_id = [], ts_sessionStartSeq = 0, ts_categories = categorySet [], ts_exportOTLP = False,
      ts_storeS2 = False, ts_storeS2After = 0, ts_appliedAt = None, ts_excludedCdp = None,
      ts_browserSessionID = [], ts_browserSessionName = [], ts_active = None,
      ts_excludedCdpActive = None\<rparr>"

definition setActive :: "TelemetrySession \<Rightarrow> TelemetrySession" where
  "setActive s =
     (if ts_id s = [] then s\<lparr>ts_active := None\<rparr>
      else s\<lparr>ts_active := Some (ts_categories s), ts_excludedCdpActive := Some (ts_excludedCdp s)\<rparr>)"

section \<open>Operations\<close>

text \<open>The last sequence number of the bus is read once, at the call of \<open>es.Seq\<close>.\<close>

definition TS_Start ::
  "uint64 \<Rightarrow> int \<Rightarrow> string \<Rightarrow> TelemetryConfig \<Rightarrow> TelemetrySession \<Rightarrow> TelemetrySession" where
  "TS_Start seq now sid cfg s =
     setActive (s\<lparr>ts_id := sid, ts_sessionStartSeq := seq, ts_appliedAt := Some now,
                  ts_categories := categorySet (cfg_Categories cfg),
                  ts_exportOTLP := cfg_ExportOTLP cfg, ts_storeS2 := cfg_StoreS2 cfg,
                  ts_storeS2After := seq,
                  ts_excludedCdp := excludedSet (cfg_ExcludedCdpMethods cfg),
                  ts_browserSessionID := cfg_BrowserSessionID cfg,
                  ts_browserSessionName := cfg_BrowserSessionName cfg\<rparr>)"

definition UpdateConfig :: "uint64 \<Rightarrow> TelemetryConfig \<Rightarrow> TelemetrySession \<Rightarrow> TelemetrySession" where
  "UpdateConfig seq cfg s =
     (let s = s\<lparr>ts_categories := categorySet (cfg_Categories cfg), ts_exportOTLP := cfg_ExportOTLP cfg\<rparr>;
          s = (if cfg_StoreS2 cfg \<and> \<not> ts_storeS2 s then s\<lparr>ts_storeS2After := seq\<rparr> else s)
      in setActive (s\<lparr>ts_storeS2 := cfg_StoreS2 cfg,
                      ts_excludedCdp := excludedSet (cfg_ExcludedCdpMethods cfg),
                      ts_browserSessionID := cfg_BrowserSessionID cfg,
                      ts_browserSessionName := cfg_BrowserSessionName cfg\<rparr>))"

definition TS_Stop :: "TelemetrySession \<Rightarrow> TelemetrySession" where
  "TS_Stop s =
     setActive (s\<lparr>ts_id := [], ts_appliedAt := None, ts_exportOTLP := False, ts_storeS2 := False,
                  ts_browserSessionID := [], ts_browserSessionName := []\<rparr>)"

definition key_telemetry_session_id :: string where
  "key_telemetry_session_id = ''telemetry_session_id''"
definition key_session_id :: string where "key_session_id = ''session_id''"
definition key_session_name :: string where "key_session_name = ''session_name''"

lemmas key_defs = key_telemetry_session_id_def key_session_id_def key_session_name_def

definition stamp :: "TelemetrySession \<Rightarrow> (string \<times> string) list option \<Rightarrow> (string \<times> string) list" where
  "stamp s metadata =
     (let m = (case metadata of Some m \<Rightarrow> m | None \<Rightarrow> []);
          m = put key_telemetry_session_id (ts_id s) m;
          m = (if ts_browserSessionID s \<noteq> [] then put key_session_id (ts_browserSessionID s) m else m)
      in (if ts_browserSessionName s \<noteq> [] then put key_session_name (ts_browserSessionName s) m else m))"

definition publishLocked ::
  "('b \<Rightarrow> Envelope \<Rightarrow> 'b \<times> Envelope) \<Rightarrow> int \<Rightarrow> TelemetrySession \<Rightarrow> 'b \<Rightarrow> Event \<Rightarrow> 'b \<times> Envelope" where
  "publishLocked pub now s bus ev =
     (let ev = (if ev_Ts ev = 0 then ev\<lparr>ev_Ts := now\<rparr> else ev);
          m = stamp s (src_Metadata (ev_Source ev));
          ev = ev\<lparr>ev_Source := (ev_Source ev)\<lparr>src_Metadata := Some m\<rparr>\<rparr>
      in pub bus \<lparr>env_Seq = 0, env_Event = ev\<rparr>)"

definition TS_Publish ::
  "('b \<Rightarrow> Envelope \<Rightarrow> 'b \<times> Envelope) \<Rightarrow> int \<Rightarrow> TelemetrySession \<Rightarrow> 'b \<Rightarrow> Event
     \<Rightarrow> 'b \<times> Envelope option" where
  "TS_Publish pub now s bus ev =
     (if ts_id s = [] then (bus, None)
      else if ev_Category ev \<notin> ts_categories s then (bus, None)
      else let (bus, env) = publishLocked pub now s bus ev in (bus, Some env))"

text \<open>
  \<open>Config\<close> lists the category set in the order of a map iteration, which is the parameter \<open>enum\<close>.
\<close>

definition Config :: "(category set \<Rightarrow> category list) \<Rightarrow> TelemetrySession \<Rightarrow> TelemetryConfig" where
  "Config enum s =
     \<lparr>cfg_Categories = enum (ts_categories s), cfg_ExportOTLP = ts_exportOTLP s,
      cfg_StoreS2 = ts_storeS2 s,
      cfg_ExcludedCdpMethods = sorted_list_of_set (case ts_excludedCdp s of Some A \<Rightarrow> A | None \<Rightarrow> {}),
      cfg_BrowserSessionID = ts_browserSessionID s, cfg_BrowserSessionName = ts_browserSessionName s\<rparr>"

definition StoreS2After :: "TelemetrySession \<Rightarrow> uint64 \<times> bool" where
  "StoreS2After s = (if \<not> ts_storeS2 s then (0, False) else (ts_storeS2After s, True))"

definition CategoryEnabled :: "TelemetrySession \<Rightarrow> category \<Rightarrow> bool" where
  "CategoryEnabled s c = (case ts_active s of None \<Rightarrow> False | Some cats \<Rightarrow> c \<in> cats)"

definition ExcludedCdpMethods :: "TelemetrySession \<Rightarrow> string set option" where
  "ExcludedCdpMethods s = (case ts_excludedCdpActive s of None \<Rightarrow> None | Some e \<Rightarrow> e)"

definition TS_Active :: "TelemetrySession \<Rightarrow> bool" where
  "TS_Active s \<longleftrightarrow> ts_active s \<noteq> None"

section \<open>Histories of a session\<close>

text \<open>
  A session starts inactive and goes through these calls in any order; the handlers generate a
  fresh non-empty identifier for \<open>Start\<close>. The ghost log records each published envelope with the
  storage phase it was published in; a phase begins at every \<open>Start\<close> and whenever storage is
  switched on.
\<close>

datatype session_op =
    OpStart int string TelemetryConfig
  | OpUpdate TelemetryConfig
  | OpPublish int Event
  | OpStop

type_synonym log = "(Envelope \<times> nat \<times> bool) list"

fun session_step ::
  "('b \<Rightarrow> Envelope \<Rightarrow> 'b \<times> Envelope) \<Rightarrow> ('b \<Rightarrow> uint64)
     \<Rightarrow> TelemetrySession \<times> 'b \<times> nat \<times> log \<Rightarrow> session_op \<Rightarrow> TelemetrySession \<times> 'b \<times> nat \<times> log" where
  "session_step pub seq (s, b, ph, log) (OpStart now sid cfg) =
     (TS_Start (seq b) now sid cfg s, b, Suc ph, log)"
| "session_step pub seq (s, b, ph, log) (OpUpdate cfg) =
     (UpdateConfig (seq b) cfg s, b, if cfg_StoreS2 cfg \<and> \<not> ts_storeS2 s then Suc ph else ph, log)"
| "session_step pub seq (s, b, ph, log) (OpPublish now ev) =
     (case TS_Publish pub now s b ev of
        (b', None) \<Rightarrow> (s, b', ph, log)
      | (b', Some env) \<Rightarrow> (s, b', ph, log @ [(env, ph, ts_storeS2 s)]))"
| "session_step pub seq (s, b, ph, log) OpStop = (TS_Stop s, b, ph, log)"

definition publications :: "session_op list \<Rightarrow> nat" where
  "publications ops = length (filter (\<lambda>op. case op of OpPublish _ _ \<Rightarrow> True | _ \<Rightarrow> False) ops)"

definition boundary_inv ::
  "('b \<Rightarrow> uint64) \<Rightarrow> TelemetrySession \<times> 'b \<times> nat \<times> log \<Rightarrow> bool" where
  "boundary_inv seq = (\<lambda>(s, b, ph, log).
     (\<forall>(env, p, on) \<in> set log. unat (env_Seq env) \<le> unat (seq b) \<and> p \<le> ph) \<and>
     (ts_storeS2 s \<longrightarrow> unat (ts_storeS2After s) \<le> unat (seq b) \<and>
        (\<forall>(env, p, on) \<in> set log. ts_storeS2After s < env_Seq env \<longleftrightarrow> p = ph \<and> on)))"

section \<open>The interface of the bus\<close>

text \<open>
  What the session relies on: a publication gets the next number, and the bus has room for a
  number of further publications; it does not touch the type, category or source of an event.
\<close>

locale event_bus =
  fixes pub :: "'b \<Rightarrow> Envelope \<Rightarrow> 'b \<times> Envelope"
    and last_seq :: "'b \<Rightarrow> uint64"
    and room :: "'b \<Rightarrow> nat"
  assumes pub_numbers: "0 < room b \<Longrightarrow> pub b env = (b', env') \<Longrightarrow>
      env_Seq env' = last_seq b' \<and> unat (last_seq b') = Suc (unat (last_seq b)) \<and> Suc (room b') = room b"
    and pub_keeps: "pub b env = (b', env') \<Longrightarrow>
      ev_Type (env_Event env') = ev_Type (env_Event env) \<and>
      ev_Category (env_Event env') = ev_Category (env_Event env) \<and>
      ev_Source (env_Event env') = ev_Source (env_Event env)"
begin

text \<open>A published event carries its category and the stamps; nothing else is published.\<close>

lemma session_publish_keeps:
  assumes "TS_Publish pub now s b ev = (b', Some env)"
  shows "ts_id s \<noteq> [] \<and> ev_Category ev \<in> ts_categories s \<and>
    ev_Category (env_Event env) = ev_Category ev \<and> ev_Type (env_Event env) = ev_Type ev \<and>
    src_Metadata (ev_Source (env_Event env)) = Some (stamp s (src_Metadata (ev_Source ev))) \<and>
    (\<exists>e. pub b e = (b', env))"
proof -
  have "\<exists>e. pub b e = (b', env)"
    using assms by (auto simp: TS_Publish_def publishLocked_def Let_def split: if_splits prod.splits)
  moreover have "ts_id s \<noteq> [] \<and> ev_Category ev \<in> ts_categories s \<and>
    ev_Category (env_Event env) = ev_Category ev \<and> ev_Type (env_Event env) = ev_Type ev \<and>
    src_Metadata (ev_Source (env_Event env)) = Some (stamp s (src_Metadata (ev_Source ev)))"
    using assms
    by (auto simp: TS_Publish_def publishLocked_def Let_def dest!: pub_keeps split: if_splits prod.splits)
  ultimately show ?thesis by blast
qed

lemma session_publish_none: "TS_Publish pub now s b ev = (b', None) \<Longrightarrow> b' = b"
  by (auto simp: TS_Publish_def split: if_splits prod.splits)

lemma boundary_step:
  assumes "boundary_inv last_seq (s, b, ph, log)" "publications [op] \<le> room b"
  shows "boundary_inv last_seq (session_step pub last_seq (s, b, ph, log) op) \<and>
    room b \<le> room (fst (snd (session_step pub last_seq (s, b, ph, log) op))) + publications [op]"
proof (cases op)
  case (OpPublish now ev)
  show ?thesis
  proof (cases "TS_Publish pub now s b ev")
    case (Pair b' r)
    show ?thesis
    proof (cases r)
      case None
      with Pair OpPublish assms show ?thesis by (auto dest: session_publish_none)
    next
      case (Some env)
      have "0 < room b" using assms(2) OpPublish by (simp add: publications_def)
      moreover obtain e where "pub b e = (b', env)"
        using session_publish_keeps Pair Some by blast
      ultimately have n: "env_Seq env = last_seq b'" "unat (last_seq b') = Suc (unat (last_seq b))"
        "Suc (room b') = room b"
        using pub_numbers by blast+
      then show ?thesis using assms Pair Some OpPublish
        by (fastforce simp: boundary_inv_def publications_def word_less_nat_alt)
    qed
  qed
next
  case (OpStart now sid cfg)
  then show ?thesis using assms
    by (fastforce simp: boundary_inv_def TS_Start_def setActive_def publications_def word_less_nat_alt)
next
  case (OpUpdate cfg)
  then show ?thesis using assms
    by (fastforce simp: boundary_inv_def UpdateConfig_def setActive_def publications_def Let_def
        word_less_nat_alt)
next
  case OpStop
  then show ?thesis using assms
    by (auto simp: boundary_inv_def TS_Stop_def setActive_def publications_def)
qed

lemma boundary_run:
  "boundary_inv last_seq (s, b, ph, log) \<Longrightarrow> publications ops \<le> room b \<Longrightarrow>
   boundary_inv last_seq (foldl (session_step pub last_seq) (s, b, ph, log) ops)"
proof (induction ops arbitrary: s b ph log)
  case (Cons op ops)
  have p: "publications (op # ops) = publications [op] + publications ops"
    by (simp add: publications_def)
  obtain s' b' ph' log' where step: "session_step pub last_seq (s, b, ph, log) op = (s', b', ph', log')"
    by (metis prod_cases4)
  from boundary_step[OF Cons.prems(1), of op] Cons.prems(2)
  have "boundary_inv last_seq (s', b', ph', log')" "publications ops \<le> room b'"
    unfolding p step by auto
  then show ?case using Cons.IH step by simp
qed simp

end

section \<open>The event stream as the bus\<close>

definition es_room :: "EventStream \<Rightarrow> nat" where
  "es_room es = (if es_inv es then 2 ^ 64 - 1 - unat (es_seq es) else 0)"

interpretation stream: event_bus "ES_Publish marshal" es_seq es_room for marshal
proof
  fix es env es' env'
  assume room: "0 < es_room es" and p: "ES_Publish marshal es env = (es', env')"
  then have inv: "es_inv es" and lt: "Suc (unat (es_seq es)) < 2 ^ 64"
    by (auto simp: es_room_def split: if_splits)
  have "unat (es_seq es + 1) = Suc (unat (es_seq es))"
    using lt by (intro unat_Suc_no_wrap) simp
  with ES_Publish_facts[OF inv lt p] inv lt
  show "env_Seq env' = es_seq es' \<and> unat (es_seq es') = Suc (unat (es_seq es)) \<and> Suc (es_room es') = es_room es"
    by (auto simp: es_room_def)
next
  fix es env es' env'
  assume "ES_Publish marshal es env = (es', env')"
  then show "ev_Type (env_Event env') = ev_Type (env_Event env) \<and>
      ev_Category (env_Event env') = ev_Category (env_Event env) \<and>
      ev_Source (env_Event env') = ev_Source (env_Event env)"
    by (auto simp: ES_Publish_def truncateIfNeeded_def Let_def split: option.splits)
qed

section \<open>Properties\<close>

definition session_start :: "EventStream \<Rightarrow> TelemetrySession \<times> EventStream \<times> nat \<times> log" where
  "session_start es = (NewTelemetrySession, es, 0, [])"

text \<open>
  C11. The storage boundary is exact. After any calls, if the session stores, the events above its
  boundary are precisely those published with storage on since storage was last switched on: a
  sink that starts after the boundary stores none captured with storage off and misses none.
\<close>

theorem storage_boundary_exact:
  assumes "NewEventStream capacity mb = Inr es0" "capacity < 2 ^ 63" "publications ops < 2 ^ 64"
    and "foldl (session_step (ES_Publish marshal) es_seq) (session_start es0) ops = (s, es, ph, log)"
    and "StoreS2After s = (after, True)"
  shows "\<forall>(env, p, on) \<in> set log. after < env_Seq env \<longleftrightarrow> p = ph \<and> on"
proof -
  have es0: "es_inv es0" "es_seq es0 = 0" using NewEventStream_inv[OF assms(1,2)] by auto
  have "boundary_inv es_seq (NewTelemetrySession, es0, 0, [])"
    by (simp add: boundary_inv_def NewTelemetrySession_def)
  moreover have "publications ops \<le> es_room es0" using assms(3) es0 by (simp add: es_room_def)
  ultimately have "boundary_inv es_seq (s, es, ph, log)"
    using stream.boundary_run assms(4) by (metis session_start_def)
  with assms(5) show ?thesis by (auto simp: boundary_inv_def StoreS2After_def split: if_splits)
qed

definition cfg_example :: TelemetryConfig where
  "cfg_example = \<lparr>cfg_Categories = [Control], cfg_ExportOTLP = False, cfg_StoreS2 = True,
     cfg_ExcludedCdpMethods = [], cfg_BrowserSessionID = ''b'', cfg_BrowserSessionName = []\<rparr>"

definition ops_example :: "session_op list" where
  "ops_example = [OpStart 5 ''t'' (cfg_example\<lparr>cfg_StoreS2 := False\<rparr>),
     OpPublish 6 (zero_event\<lparr>ev_Category := Control\<rparr>), OpUpdate cfg_example]"

theorem storage_boundary_exact_witness:
  "case foldl (session_step (ES_Publish (\<lambda>_. None)) es_seq) (session_start es_fresh) ops_example of
     (s, es, ph, log) \<Rightarrow>
       StoreS2After s = (1, True) \<and> (\<forall>(env, p, on) \<in> set log. 1 < env_Seq env \<longleftrightarrow> p = ph \<and> on)"
proof -
  obtain s es ph log where r: "foldl (session_step (ES_Publish (\<lambda>_. None)) es_seq) (session_start es_fresh)
      ops_example = (s, es, ph, log)"
    by (metis prod_cases4)
  have "StoreS2After s = (1, True)"
    using r by (auto simp: ops_example_def session_start_def TS_Start_def setActive_def cfg_example_def
        TS_Publish_def publishLocked_def zero_event_def categorySet_def HasCDPCategory_def
        UpdateConfig_def Let_def ES_Publish_def es_fresh_def StoreS2After_def split: if_splits)
  moreover have "publications ops_example < 2 ^ 64" by (simp add: publications_def ops_example_def)
  ultimately show ?thesis
    using storage_boundary_exact[OF es_fresh_new _ _ r] by (simp add: r)
qed

definition views_inv :: "TelemetrySession \<Rightarrow> bool" where
  "views_inv s \<longleftrightarrow>
     ts_active s = (if ts_id s = [] then None else Some (ts_categories s)) \<and>
     (ts_id s \<noteq> [] \<longrightarrow> ts_excludedCdpActive s = Some (ts_excludedCdp s))"

lemma views_step: "views_inv s \<Longrightarrow> views_inv (fst (session_step pub seq (s, b, ph, log) op))"
  by (cases op)
    (auto simp: views_inv_def TS_Start_def UpdateConfig_def TS_Stop_def setActive_def Let_def
      split: prod.split option.split)

lemma views_run:
  "views_inv (fst st) \<Longrightarrow> views_inv (fst (foldl (session_step pub seq) st ops))"
proof (induction ops arbitrary: st)
  case (Cons op ops)
  then show ?case using views_step by (metis foldl_Cons prod_cases4 fst_conv)
qed simp

text \<open>
  C12. The lock-free views never lie: after any calls, the category view says exactly what
  \<open>Publish\<close> would admit, an inactive session admits nothing, and the exclusion view of an active
  session is the one of its configuration.
\<close>

theorem session_views_exact:
  assumes "foldl (session_step (ES_Publish marshal) es_seq) (session_start es0) ops = (s, es, ph, log)"
  shows "(\<forall>now b ev. snd (TS_Publish (ES_Publish marshal) now s b ev) \<noteq> None \<longleftrightarrow>
      CategoryEnabled s (ev_Category ev)) \<and>
    (TS_Active s \<longleftrightarrow> ts_id s \<noteq> []) \<and>
    (TS_Active s \<longrightarrow> ExcludedCdpMethods s = ts_excludedCdp s)"
proof -
  have "views_inv (fst (session_start es0))"
    by (simp add: session_start_def views_inv_def NewTelemetrySession_def)
  from views_run[OF this, of "ES_Publish marshal" es_seq ops] assms have "views_inv s" by simp
  then show ?thesis
    by (auto simp: views_inv_def CategoryEnabled_def TS_Active_def ExcludedCdpMethods_def TS_Publish_def
        split: prod.split)
qed

theorem session_views_exact_witness:
  "case foldl (session_step (ES_Publish (\<lambda>_. None)) es_seq) (session_start es_fresh) ops_example of
     (s, es, ph, log) \<Rightarrow> TS_Active s \<longleftrightarrow> ts_id s \<noteq> []"
proof -
  obtain s es ph log where r: "foldl (session_step (ES_Publish (\<lambda>_. None)) es_seq) (session_start es_fresh)
      ops_example = (s, es, ph, log)"
    by (metis prod_cases4)
  from session_views_exact[OF r] show ?thesis by (simp add: r)
qed

text \<open>
  What reaches the bus is what the configuration allows, stamped with the identity of the
  session: an admitted event keeps its type and category, its metadata maps the session key to
  the session identifier and the browser keys to the browser identity where there is one, every
  other metadata entry is kept, and an event that is not admitted leaves the bus untouched.
\<close>

theorem session_publish_stamps:
  assumes "TS_Publish (ES_Publish marshal) now s es ev = (es', r)"
    and "\<forall>m. src_Metadata (ev_Source ev) = Some m \<longrightarrow> map_ok m"
  shows "(r = None \<longrightarrow> es' = es \<and> (ts_id s = [] \<or> ev_Category ev \<notin> ts_categories s)) \<and>
    (\<forall>env. r = Some env \<longrightarrow>
       ts_id s \<noteq> [] \<and> ev_Category (env_Event env) \<in> ts_categories s \<and>
       ev_Category (env_Event env) = ev_Category ev \<and> ev_Type (env_Event env) = ev_Type ev \<and>
       (\<exists>m. src_Metadata (ev_Source (env_Event env)) = Some m \<and>
          (\<forall>k. map_of m k =
             (if k = key_session_name \<and> ts_browserSessionName s \<noteq> [] then Some (ts_browserSessionName s)
              else if k = key_session_id \<and> ts_browserSessionID s \<noteq> [] then Some (ts_browserSessionID s)
              else if k = key_telemetry_session_id then Some (ts_id s)
              else map_of (case src_Metadata (ev_Source ev) of Some m \<Rightarrow> m | None \<Rightarrow> []) k))))"
proof (cases r)
  case None
  with assms(1) show ?thesis by (auto simp: TS_Publish_def split: if_splits prod.splits)
next
  case (Some env)
  note k = stream.session_publish_keeps[OF assms(1)[unfolded Some]]
  have "map_of (stamp s (src_Metadata (ev_Source ev))) k =
      (if k = key_session_name \<and> ts_browserSessionName s \<noteq> [] then Some (ts_browserSessionName s)
       else if k = key_session_id \<and> ts_browserSessionID s \<noteq> [] then Some (ts_browserSessionID s)
       else if k = key_telemetry_session_id then Some (ts_id s)
       else map_of (case src_Metadata (ev_Source ev) of Some m \<Rightarrow> m | None \<Rightarrow> []) k)" for k
    using assms(2) by (auto simp: stamp_def Let_def key_defs split: option.split)
  with k Some show ?thesis by simp
qed

theorem session_publish_stamps_witness:
  "\<exists>es' env m. TS_Publish (ES_Publish (\<lambda>_. None)) 7 (TS_Start 0 5 ''t'' cfg_example NewTelemetrySession)
      es_fresh (zero_event\<lparr>ev_Category := Control\<rparr>) = (es', Some env) \<and>
     src_Metadata (ev_Source (env_Event env)) = Some m \<and> map_of m ''session_id'' = Some ''b''"
proof -
  let ?s = "TS_Start 0 5 ''t'' cfg_example NewTelemetrySession"
  let ?ev = "zero_event\<lparr>ev_Category := Control\<rparr>"
  obtain es' r where r: "TS_Publish (ES_Publish (\<lambda>_. None)) 7 ?s es_fresh ?ev = (es', r)" by fastforce
  have "\<forall>m. src_Metadata (ev_Source ?ev) = Some m \<longrightarrow> map_ok m" by (simp add: zero_event_def)
  note p = session_publish_stamps[OF r this]
  have s: "ts_id ?s = ''t''" "Control \<in> ts_categories ?s" "ts_browserSessionID ?s = ''b''"
    "ts_browserSessionName ?s = []"
    by (simp_all add: TS_Start_def setActive_def cfg_example_def categorySet_def)
  then obtain env where e: "r = Some env" using p by (cases r) auto
  with p s obtain m where "src_Metadata (ev_Source (env_Event env)) = Some m"
    "map_of m ''session_id'' = Some ''b''"
    by (auto simp: key_defs)
  with r e show ?thesis by blast
qed

end
