(* ===== verification/TelemetryConfigApi.thy ===== *)
theory TelemetryConfigApi
  imports Telemetry
begin

text \<open>
  Telemetry configurations as the API carries them (\<open>cmd/api/api/telemetry.go\<close>, types from
  \<open>lib/oapi/oapi.go\<close>): the documents of PUT and PATCH, where every member is optional, and their
  conversion from and to the configuration of a session. An optional member is an option; \<open>None\<close>
  is the nil pointer.
\<close>

section \<open>Documents\<close>

record BrowserTelemetryCategoryConfig =
  cc_Enabled :: "bool option"

record BrowserTelemetryCdpControlConfig =
  cdp_ExcludedMethods :: "string list option"

record BrowserTelemetryControlConfig =
  ctl_Cdp :: "BrowserTelemetryCdpControlConfig option"
  ctl_Enabled :: "bool option"

record BrowserTelemetryCategoriesConfig =
  b_Captcha :: "BrowserTelemetryCategoryConfig option"
  b_Connection :: "BrowserTelemetryCategoryConfig option"
  b_Console :: "BrowserTelemetryCategoryConfig option"
  b_Control :: "BrowserTelemetryControlConfig option"
  b_Interaction :: "BrowserTelemetryCategoryConfig option"
  b_Network :: "BrowserTelemetryCategoryConfig option"
  b_Page :: "BrowserTelemetryCategoryConfig option"
  b_Platform :: "BrowserTelemetryCategoryConfig option"
  b_Screenshot :: "BrowserTelemetryCategoryConfig option"
  b_System :: "BrowserTelemetryCategoryConfig option"

record BrowserTelemetryOTLPExportConfig =
  otlp_Enabled :: "bool option"

record BrowserTelemetryExportConfig =
  exp_Otlp :: "BrowserTelemetryOTLPExportConfig option"

record BrowserTelemetrySessionConfig =
  bs_Id :: "string option"
  bs_Name :: "string option"

record BrowserTelemetryStorageConfig =
  sto_Enabled :: "bool option"

record BrowserTelemetryConfig =
  t_Browser :: "BrowserTelemetryCategoriesConfig option"
  t_BrowserSession :: "BrowserTelemetrySessionConfig option"
  t_Export :: "BrowserTelemetryExportConfig option"
  t_Storage :: "BrowserTelemetryStorageConfig option"

section \<open>Reading a document\<close>

definition flag :: "BrowserTelemetryCategoryConfig option \<Rightarrow> bool option" where
  "flag c = (case c of None \<Rightarrow> None | Some c \<Rightarrow> cc_Enabled c)"

definition categoryFields :: "BrowserTelemetryCategoriesConfig \<Rightarrow> (category \<times> bool option) list" where
  "categoryFields b =
     [(Console, flag (b_Console b)),
      (Network, flag (b_Network b)),
      (Page, flag (b_Page b)),
      (Interaction, flag (b_Interaction b)),
      (Control, case b_Control b of None \<Rightarrow> None | Some c \<Rightarrow> ctl_Enabled c),
      (Platform, flag (b_Platform b)),
      (Connection, flag (b_Connection b)),
      (System, flag (b_System b)),
      (Screenshot, flag (b_Screenshot b)),
      (Captcha, flag (b_Captcha b))]"

definition excludedCdpMethodsFromOAPI :: "BrowserTelemetryConfig option \<Rightarrow> string list option" where
  "excludedCdpMethodsFromOAPI cfg =
     (case cfg of None \<Rightarrow> None
      | Some cfg \<Rightarrow> (case t_Browser cfg of None \<Rightarrow> None
      | Some b \<Rightarrow> (case b_Control b of None \<Rightarrow> None
      | Some c \<Rightarrow> (case ctl_Cdp c of None \<Rightarrow> None
      | Some cdp \<Rightarrow> cdp_ExcludedMethods cdp))))"

definition from_ptr :: "string option \<Rightarrow> string" where
  "from_ptr p = (case p of None \<Rightarrow> [] | Some s \<Rightarrow> s)"

definition browserSessionFromOAPI :: "BrowserTelemetryConfig option \<Rightarrow> string \<times> string" where
  "browserSessionFromOAPI cfg =
     (case cfg of None \<Rightarrow> ([], [])
      | Some cfg \<Rightarrow>
          (case t_BrowserSession cfg of None \<Rightarrow> ([], [])
           | Some bs \<Rightarrow> (from_ptr (bs_Id bs), from_ptr (bs_Name bs))))"

definition export_toggle :: "BrowserTelemetryConfig \<Rightarrow> bool option" where
  "export_toggle cfg =
     (case t_Export cfg of None \<Rightarrow> None
      | Some e \<Rightarrow> (case exp_Otlp e of None \<Rightarrow> None | Some ot \<Rightarrow> otlp_Enabled ot))"

definition storage_toggle :: "BrowserTelemetryConfig \<Rightarrow> bool option" where
  "storage_toggle cfg = (case t_Storage cfg of None \<Rightarrow> None | Some s \<Rightarrow> sto_Enabled s)"

definition exportOTLPFromOAPI :: "BrowserTelemetryConfig option \<Rightarrow> bool" where
  "exportOTLPFromOAPI cfg =
     (case cfg of None \<Rightarrow> False
      | Some cfg \<Rightarrow> (case export_toggle cfg of Some b \<Rightarrow> b | None \<Rightarrow> False))"

definition storeS2FromOAPI :: "BrowserTelemetryConfig option \<Rightarrow> bool" where
  "storeS2FromOAPI cfg =
     (case cfg of None \<Rightarrow> True
      | Some cfg \<Rightarrow> (case storage_toggle cfg of Some b \<Rightarrow> b | None \<Rightarrow> True))"

text \<open>The stop signal keeps the storage toggle and nothing else.\<close>

definition stop_config :: "bool \<Rightarrow> TelemetryConfig" where
  "stop_config storeS2 =
     \<lparr>cfg_Categories = [], cfg_ExportOTLP = False, cfg_StoreS2 = storeS2,
      cfg_ExcludedCdpMethods = [], cfg_BrowserSessionID = [], cfg_BrowserSessionName = []\<rparr>"

text \<open>
  The configuration a PUT asks for and whether it clears telemetry. The error result of the
  function is always nil.
\<close>

definition telemetryConfigFromOAPI ::
  "BrowserTelemetryConfig option \<Rightarrow> TelemetryConfig \<times> bool" where
  "telemetryConfigFromOAPI cfg =
     (let exportOTLP = exportOTLPFromOAPI cfg;
          storeS2 = storeS2FromOAPI cfg;
          (sessionID, sessionName) = browserSessionFromOAPI cfg;
          full = (\<lambda>cats excl. \<lparr>cfg_Categories = cats, cfg_ExportOTLP = exportOTLP,
                   cfg_StoreS2 = storeS2, cfg_ExcludedCdpMethods = excl,
                   cfg_BrowserSessionID = sessionID, cfg_BrowserSessionName = sessionName\<rparr>)
      in case (case cfg of None \<Rightarrow> None | Some c \<Rightarrow> t_Browser c) of
           None \<Rightarrow> (full DefaultCategories [], False)
         | Some b \<Rightarrow>
             (let cats = map fst (filter (\<lambda>(c, e). e = Some True) (categoryFields b)) in
              if cats = [] then (stop_config storeS2, True)
              else (full cats (case excludedCdpMethodsFromOAPI cfg of None \<Rightarrow> [] | Some l \<Rightarrow> l), False)))"

text \<open>
  The configuration a PATCH asks for. The category set is turned into a list in the order of a map
  iteration, the parameter \<open>enum\<close>.
\<close>

definition patch_category :: "category set \<Rightarrow> category \<times> bool option \<Rightarrow> category set" where
  "patch_category active = (\<lambda>(c, enabled).
     case enabled of None \<Rightarrow> active | Some True \<Rightarrow> insert c active | Some False \<Rightarrow> active - {c})"

definition mergeTelemetryConfig ::
  "(category set \<Rightarrow> category list) \<Rightarrow> TelemetryConfig \<Rightarrow> BrowserTelemetryConfig
     \<Rightarrow> TelemetryConfig \<times> bool" where
  "mergeTelemetryConfig enum current patch =
     (let active = set (filter (\<lambda>c. c \<in> set UserCategories) (cfg_Categories current));
          active = (case t_Browser patch of None \<Rightarrow> active
                    | Some b \<Rightarrow> foldl patch_category active (categoryFields b));
          exportOTLP = (case export_toggle patch of Some b \<Rightarrow> b | None \<Rightarrow> cfg_ExportOTLP current);
          storeS2 = (case storage_toggle patch of Some b \<Rightarrow> b | None \<Rightarrow> cfg_StoreS2 current);
          excluded = (case excludedCdpMethodsFromOAPI (Some patch) of
                        Some l \<Rightarrow> l | None \<Rightarrow> cfg_ExcludedCdpMethods current);
          sessionID = (case t_BrowserSession patch of None \<Rightarrow> cfg_BrowserSessionID current
             | Some bs \<Rightarrow> (case bs_Id bs of Some s \<Rightarrow> s | None \<Rightarrow> cfg_BrowserSessionID current));
          sessionName = (case t_BrowserSession patch of None \<Rightarrow> cfg_BrowserSessionName current
             | Some bs \<Rightarrow> (case bs_Name bs of Some s \<Rightarrow> s | None \<Rightarrow> cfg_BrowserSessionName current))
      in if active = {} then (stop_config storeS2, True)
         else (\<lparr>cfg_Categories = enum active, cfg_ExportOTLP = exportOTLP, cfg_StoreS2 = storeS2,
                cfg_ExcludedCdpMethods = excluded, cfg_BrowserSessionID = sessionID,
                cfg_BrowserSessionName = sessionName\<rparr>, False))"

section \<open>Writing a document\<close>

definition exportConfigToOAPI :: "bool \<Rightarrow> BrowserTelemetryExportConfig option" where
  "exportConfigToOAPI enabled = Some \<lparr>exp_Otlp = Some \<lparr>otlp_Enabled = Some enabled\<rparr>\<rparr>"

definition storageConfigToOAPI :: "bool \<Rightarrow> BrowserTelemetryStorageConfig option" where
  "storageConfigToOAPI enabled = Some \<lparr>sto_Enabled = Some enabled\<rparr>"

definition to_ptr :: "string \<Rightarrow> string option" where
  "to_ptr s = (if s = [] then None else Some s)"

definition browserSessionToOAPI :: "string \<Rightarrow> string \<Rightarrow> BrowserTelemetrySessionConfig option" where
  "browserSessionToOAPI i n =
     (if i = [] \<and> n = [] then None else Some \<lparr>bs_Id = to_ptr i, bs_Name = to_ptr n\<rparr>)"

definition categories_doc ::
  "(category \<Rightarrow> bool) \<Rightarrow> BrowserTelemetryCdpControlConfig option \<Rightarrow> BrowserTelemetryCategoriesConfig" where
  "categories_doc active cdp =
     (let on = (\<lambda>c. Some \<lparr>cc_Enabled = Some (active c)\<rparr>) in
      \<lparr>b_Captcha = on Captcha, b_Connection = on Connection, b_Console = on Console,
       b_Control = Some \<lparr>ctl_Cdp = cdp, ctl_Enabled = Some (active Control)\<rparr>,
       b_Interaction = on Interaction, b_Network = on Network, b_Page = on Page,
       b_Platform = on Platform, b_Screenshot = on Screenshot, b_System = on System\<rparr>)"

definition disabledConfig :: "bool \<Rightarrow> BrowserTelemetryConfig" where
  "disabledConfig storeS2 =
     \<lparr>t_Browser = Some (categories_doc (\<lambda>c. False) None), t_BrowserSession = None,
      t_Export = exportConfigToOAPI False, t_Storage = storageConfigToOAPI storeS2\<rparr>"

definition telemetryConfigToOAPI :: "TelemetryConfig \<Rightarrow> BrowserTelemetryConfig" where
  "telemetryConfigToOAPI cfg =
     \<lparr>t_Browser = Some (categories_doc (\<lambda>c. c \<in> set (cfg_Categories cfg))
        (if cfg_ExcludedCdpMethods cfg \<noteq> []
         then Some \<lparr>cdp_ExcludedMethods = Some (cfg_ExcludedCdpMethods cfg)\<rparr> else None)),
      t_BrowserSession = browserSessionToOAPI (cfg_BrowserSessionID cfg) (cfg_BrowserSessionName cfg),
      t_Export = exportConfigToOAPI (cfg_ExportOTLP cfg),
      t_Storage = storageConfigToOAPI (cfg_StoreS2 cfg)\<rparr>"

section \<open>Lemmas\<close>

lemma categoryFields_names [simp]: "map fst (categoryFields b) = UserCategories"
  by (simp add: categoryFields_def UserCategories_def)

lemma field_user: "(c, e) \<in> set (categoryFields b) \<Longrightarrow> c \<in> set UserCategories"
  by (metis categoryFields_names fst_conv image_eqI set_map)

lemma UserCategories_distinct [simp]: "distinct UserCategories"
  by (simp add: UserCategories_def category_defs)

lemma Monitor_not_user [simp]: "Monitor \<notin> set UserCategories"
  by (simp add: UserCategories_def category_defs)

lemma cdp_user: "c \<in> cdpCategories \<Longrightarrow> c \<in> set UserCategories"
  by (auto simp: cdpCategories_def UserCategories_def)

lemma Default_user: "set DefaultCategories \<subseteq> set UserCategories" "DefaultCategories \<noteq> []"
  by (auto simp: DefaultCategories_def UserCategories_def)

lemma categoryFields_doc: "categoryFields (categories_doc act cdp) = map (\<lambda>c. (c, Some (act c))) UserCategories"
  by (simp add: categoryFields_def categories_doc_def UserCategories_def flag_def)

lemma doc_excluded [simp]:
  "t_Browser cfg = Some (categories_doc act cdp) \<Longrightarrow>
   excludedCdpMethodsFromOAPI (Some cfg) = (case cdp of None \<Rightarrow> None | Some d \<Rightarrow> cdp_ExcludedMethods d)"
  by (simp add: excludedCdpMethodsFromOAPI_def categories_doc_def)

lemma doc_toggles [simp]:
  "export_toggle (telemetryConfigToOAPI cfg) = Some (cfg_ExportOTLP cfg)"
  "storage_toggle (telemetryConfigToOAPI cfg) = Some (cfg_StoreS2 cfg)"
  "export_toggle (disabledConfig b) = Some False" "storage_toggle (disabledConfig b) = Some b"
  by (simp_all add: export_toggle_def storage_toggle_def telemetryConfigToOAPI_def disabledConfig_def
      exportConfigToOAPI_def storageConfigToOAPI_def)

text \<open>The categories a configuration selects, by name of the category.\<close>

lemma selected_fields:
  assumes "distinct (map fst fs)"
  shows "c \<in> set (map fst (filter (\<lambda>(c, e). e = Some True) fs)) \<longleftrightarrow> map_of fs c = Some (Some True)"
proof -
  have "c \<in> set (map fst (filter (\<lambda>(c, e). e = Some True) fs)) \<longleftrightarrow> (c, Some True) \<in> set fs" by force
  then show ?thesis using assms by (simp add: map_of_eq_Some_iff)
qed

lemma fold_patch_category:
  assumes "distinct (map fst fs)"
  shows "c \<in> foldl patch_category A fs \<longleftrightarrow>
    (case map_of fs c of Some (Some b) \<Rightarrow> b | _ \<Rightarrow> c \<in> A)"
  using assms
proof (induction fs arbitrary: A)
  case (Cons f fs)
  obtain d e where f: "f = (d, e)" by (cases f)
  have nd: "map_of fs d = None" "distinct (map fst fs)"
    using Cons.prems f by (auto simp: map_of_eq_None_iff)
  show ?case
  proof (cases "c = d")
    case True
    with nd f Cons.IH[OF nd(2)] show ?thesis
      by (auto simp: patch_category_def split: option.splits bool.splits)
  next
    case False
    then have "c \<in> patch_category A f \<longleftrightarrow> c \<in> A"
      by (auto simp: f patch_category_def split: option.splits bool.splits)
    with False f Cons.IH[OF nd(2)] show ?thesis by (simp split: option.splits)
  qed
qed simp

text \<open>
  A map iteration lists the categories of a set in some order; the sets here hold user categories
  and the monitor category.
\<close>

definition enumerates :: "(category set \<Rightarrow> category list) \<Rightarrow> bool" where
  "enumerates enum \<longleftrightarrow> (\<forall>A. A \<subseteq> insert Monitor (set UserCategories) \<longrightarrow> set (enum A) = A)"

lemma enumeratesD: "enumerates enum \<Longrightarrow> A \<subseteq> insert Monitor (set UserCategories) \<Longrightarrow> set (enum A) = A"
  by (simp add: enumerates_def)

definition in_order :: "category set \<Rightarrow> category list" where
  "in_order A = filter (\<lambda>c. c \<in> A) (Monitor # UserCategories)"

lemma in_order_enumerates [simp]: "enumerates in_order"
  by (auto simp: enumerates_def in_order_def)

text \<open>Any iteration order is given by a rank of the categories.\<close>

definition order_by :: "(category \<Rightarrow> nat) \<Rightarrow> category set \<Rightarrow> category list" where
  "order_by rank A = sort_key rank (in_order A)"

lemma order_by_enumerates [simp]: "enumerates (order_by rank)"
  using in_order_enumerates by (simp add: enumerates_def order_by_def)

lemma distinct_fields [simp]: "distinct (map fst (categoryFields b))"
  by simp

text \<open>A configuration that is not the stop signal selects user categories only, at least one.\<close>

definition user_config :: "TelemetryConfig \<Rightarrow> bool" where
  "user_config cfg \<longleftrightarrow> cfg_Categories cfg \<noteq> [] \<and> set (cfg_Categories cfg) \<subseteq> set UserCategories"

lemma fromOAPI_facts:
  assumes "telemetryConfigFromOAPI doc = (cfg, stop)"
  shows "cfg_StoreS2 cfg = storeS2FromOAPI doc" and "\<not> stop \<Longrightarrow> user_config cfg"
proof -
  obtain i n where bs: "browserSessionFromOAPI doc = (i, n)" by fastforce
  show "cfg_StoreS2 cfg = storeS2FromOAPI doc"
    using assms by (auto simp: telemetryConfigFromOAPI_def bs Let_def stop_config_def split: option.splits if_splits)
  have sub: "set (map fst (filter (\<lambda>(c, e). e = Some True) (categoryFields b))) \<subseteq> set UserCategories" for b
    using field_user[of _ _ b] by auto
  show "user_config cfg" if "\<not> stop"
  proof (cases "case doc of None \<Rightarrow> None | Some c \<Rightarrow> t_Browser c")
    case None
    with assms show ?thesis using Default_user
      by (auto simp: telemetryConfigFromOAPI_def bs user_config_def simp del: set_map)
  next
    case (Some b)
    with assms that sub[of b] show ?thesis
      by (simp add: telemetryConfigFromOAPI_def bs Let_def user_config_def del: set_map split: if_splits)
        (auto simp: user_config_def)
  qed
qed

definition patched :: "TelemetryConfig \<Rightarrow> BrowserTelemetryConfig \<Rightarrow> category set" where
  "patched current patch =
     {c \<in> set UserCategories.
        case (case t_Browser patch of None \<Rightarrow> None | Some b \<Rightarrow> map_of (categoryFields b) c) of
          Some (Some b) \<Rightarrow> b | _ \<Rightarrow> c \<in> set (cfg_Categories current)}"

lemma merge_facts:
  assumes "mergeTelemetryConfig enum current patch = (cfg, stop)" "enumerates enum"
  shows "stop \<longleftrightarrow> patched current patch = {}"
    and "\<not> stop \<Longrightarrow> set (cfg_Categories cfg) = patched current patch \<and> user_config cfg"
    and "cfg_StoreS2 cfg = (case storage_toggle patch of Some b \<Rightarrow> b | None \<Rightarrow> cfg_StoreS2 current)"
proof -
  let ?A = "set (filter (\<lambda>c. c \<in> set UserCategories) (cfg_Categories current))"
  let ?B = "case t_Browser patch of None \<Rightarrow> ?A | Some b \<Rightarrow> foldl patch_category ?A (categoryFields b)"
  have "c \<in> ?B \<longleftrightarrow> c \<in> patched current patch" for c
  proof (cases "t_Browser patch")
    case None
    then show ?thesis by (auto simp: patched_def)
  next
    case (Some b)
    have "c \<in> set UserCategories" if "map_of (categoryFields b) c = Some e" for e
      using that field_user map_of_SomeD by metis
    with Some show ?thesis
      by (auto simp: fold_patch_category patched_def split: option.splits)
  qed
  then have B: "?B = patched current patch" by blast
  have sub: "patched current patch \<subseteq> set UserCategories" by (auto simp: patched_def)
  then have en: "set (enum (patched current patch)) = patched current patch"
    by (intro enumeratesD[OF assms(2)]) blast
  note m = assms(1)[unfolded mergeTelemetryConfig_def Let_def B]
  show "stop \<longleftrightarrow> patched current patch = {}" using m by (simp split: if_splits)
  show "cfg_StoreS2 cfg = (case storage_toggle patch of Some b \<Rightarrow> b | None \<Rightarrow> cfg_StoreS2 current)"
    using m by (auto simp: stop_config_def split: if_splits)
  show "set (cfg_Categories cfg) = patched current patch \<and> user_config cfg" if "\<not> stop"
  proof -
    have "cfg_Categories cfg = enum (patched current patch)" "patched current patch \<noteq> {}"
      using m that by (auto split: if_splits)
    with en sub show ?thesis by (auto simp: user_config_def)
  qed
qed

lemma selected_all:
  "map fst (filter (\<lambda>(c, e). e = Some True) (map (\<lambda>c. (c, Some (P c))) cs)) = filter P cs"
  by (induction cs) auto

lemma fromOAPI_of_doc:
  assumes "\<exists>c \<in> set (cfg_Categories cfg). c \<in> set UserCategories"
  shows "telemetryConfigFromOAPI (Some (telemetryConfigToOAPI cfg)) =
    (cfg\<lparr>cfg_Categories := filter (\<lambda>c. c \<in> set (cfg_Categories cfg)) UserCategories\<rparr>, False)"
proof -
  let ?doc = "telemetryConfigToOAPI cfg"
  have br: "t_Browser ?doc = Some (categories_doc (\<lambda>c. c \<in> set (cfg_Categories cfg))
      (if cfg_ExcludedCdpMethods cfg \<noteq> []
       then Some \<lparr>cdp_ExcludedMethods = Some (cfg_ExcludedCdpMethods cfg)\<rparr> else None))"
    "t_BrowserSession ?doc = browserSessionToOAPI (cfg_BrowserSessionID cfg) (cfg_BrowserSessionName cfg)"
    by (simp_all add: telemetryConfigToOAPI_def)
  have ne: "filter (\<lambda>c. c \<in> set (cfg_Categories cfg)) UserCategories \<noteq> []"
    using assms by (auto simp: filter_empty_conv)
  have id: "browserSessionFromOAPI (Some ?doc) = (cfg_BrowserSessionID cfg, cfg_BrowserSessionName cfg)"
    by (simp add: browserSessionFromOAPI_def br browserSessionToOAPI_def from_ptr_def to_ptr_def)
  have ex: "(case excludedCdpMethodsFromOAPI (Some ?doc) of None \<Rightarrow> [] | Some l \<Rightarrow> l) = cfg_ExcludedCdpMethods cfg"
    by (simp add: br(1))
  have cfg: "\<lparr>cfg_Categories = cats, cfg_ExportOTLP = cfg_ExportOTLP cfg, cfg_StoreS2 = cfg_StoreS2 cfg,
      cfg_ExcludedCdpMethods = cfg_ExcludedCdpMethods cfg, cfg_BrowserSessionID = cfg_BrowserSessionID cfg,
      cfg_BrowserSessionName = cfg_BrowserSessionName cfg\<rparr> = cfg\<lparr>cfg_Categories := cats\<rparr>" for cats
    by (cases cfg) simp
  show ?thesis
    using ne by (simp add: telemetryConfigFromOAPI_def exportOTLPFromOAPI_def storeS2FromOAPI_def id ex
        br(1) categoryFields_doc selected_all cfg del: doc_excluded)
qed

section \<open>Properties\<close>

text \<open>
  C19. A configuration survives the trip through its document. The document GET answers with,
  sent back in a PUT, selects the same user categories (in the fixed order), toggles, exclusions
  and identity; sent in a PATCH it changes nothing; and the document of a cleared configuration
  clears again, keeping the storage toggle.
\<close>

theorem config_document_roundtrip:
  assumes "\<exists>c \<in> set (cfg_Categories cfg). c \<in> set UserCategories"
    and "enumerates enum"
  shows "telemetryConfigFromOAPI (Some (telemetryConfigToOAPI cfg)) =
      (cfg\<lparr>cfg_Categories := filter (\<lambda>c. c \<in> set (cfg_Categories cfg)) UserCategories\<rparr>, False) \<and>
    (\<exists>cats. mergeTelemetryConfig enum cfg (telemetryConfigToOAPI cfg) = (cfg\<lparr>cfg_Categories := cats\<rparr>, False) \<and>
      set cats = set (cfg_Categories cfg) \<inter> set UserCategories) \<and>
    telemetryConfigFromOAPI (Some (disabledConfig b)) = (stop_config b, True)"
proof (intro conjI)
  let ?doc = "telemetryConfigToOAPI cfg"
  have br: "t_Browser ?doc = Some (categories_doc (\<lambda>c. c \<in> set (cfg_Categories cfg))
      (if cfg_ExcludedCdpMethods cfg \<noteq> []
       then Some \<lparr>cdp_ExcludedMethods = Some (cfg_ExcludedCdpMethods cfg)\<rparr> else None))"
    "t_BrowserSession ?doc = browserSessionToOAPI (cfg_BrowserSessionID cfg) (cfg_BrowserSessionName cfg)"
    by (simp_all add: telemetryConfigToOAPI_def)
  have cfg: "\<lparr>cfg_Categories = cats, cfg_ExportOTLP = cfg_ExportOTLP cfg, cfg_StoreS2 = cfg_StoreS2 cfg,
      cfg_ExcludedCdpMethods = cfg_ExcludedCdpMethods cfg, cfg_BrowserSessionID = cfg_BrowserSessionID cfg,
      cfg_BrowserSessionName = cfg_BrowserSessionName cfg\<rparr> = cfg\<lparr>cfg_Categories := cats\<rparr>" for cats
    by (cases cfg) simp
  show "telemetryConfigFromOAPI (Some ?doc) =
      (cfg\<lparr>cfg_Categories := filter (\<lambda>c. c \<in> set (cfg_Categories cfg)) UserCategories\<rparr>, False)"
    by (rule fromOAPI_of_doc[OF assms(1)])
  let ?A = "foldl patch_category (set (filter (\<lambda>c. c \<in> set UserCategories) (cfg_Categories cfg)))
      (map (\<lambda>c. (c, Some (c \<in> set (cfg_Categories cfg)))) UserCategories)"
  have mo: "map_of (map (\<lambda>c. (c, f c)) xs) c = (if c \<in> set xs then Some (f c) else None)"
    for f :: "category \<Rightarrow> bool option" and xs c
    by (induction xs) auto
  have A: "?A = set (cfg_Categories cfg) \<inter> set UserCategories"
  proof (rule set_eqI)
    fix c
    have "distinct (map fst (map (\<lambda>c. (c, Some (c \<in> set (cfg_Categories cfg)))) UserCategories))"
      by (simp add: comp_def)
    from fold_patch_category[OF this] show "c \<in> ?A \<longleftrightarrow> c \<in> set (cfg_Categories cfg) \<inter> set UserCategories"
      by (auto simp: mo)
  qed
  then have "?A \<noteq> {}" using assms(1) by auto
  then have "mergeTelemetryConfig enum cfg ?doc = (cfg\<lparr>cfg_Categories := enum ?A\<rparr>, False)"
    by (simp add: mergeTelemetryConfig_def br categoryFields_doc browserSessionToOAPI_def to_ptr_def cfg)
  then show "\<exists>cats. mergeTelemetryConfig enum cfg ?doc = (cfg\<lparr>cfg_Categories := cats\<rparr>, False) \<and>
      set cats = set (cfg_Categories cfg) \<inter> set UserCategories"
    using A enumeratesD[OF assms(2), of ?A] by blast
  have "map fst (filter (\<lambda>(c, e). e = Some True) (categoryFields (categories_doc (\<lambda>c. False) None))) = []"
    by (simp add: categoryFields_doc selected_all)
  then show "telemetryConfigFromOAPI (Some (disabledConfig b)) = (stop_config b, True)"
    by (simp add: telemetryConfigFromOAPI_def storeS2FromOAPI_def browserSessionFromOAPI_def)
      (simp add: disabledConfig_def)
qed

lemma config_document_roundtrip_witness:
  "telemetryConfigFromOAPI (Some (telemetryConfigToOAPI cfg_example)) = (cfg_example, False)"
proof -
  have "filter (\<lambda>c. c = Control) UserCategories = [Control]" by (simp add: UserCategories_def category_defs)
  moreover have "cfg_example\<lparr>cfg_Categories := [Control]\<rparr> = cfg_example" by (simp add: cfg_example_def)
  moreover have "Control \<in> set UserCategories" by (simp add: UserCategories_def)
  ultimately show ?thesis
    using config_document_roundtrip[of cfg_example in_order] by (simp add: cfg_example_def)
qed

end
