(* ===== verification/CaptureControl.thy ===== *)
theory CaptureControl
  imports Events
begin

text \<open>
  The desired and the applied state of CDP capture (\<open>lib/cdpmonitor/telemetry.go\<close>, with the
  construction and the connection set-up of \<open>lib/cdpmonitor/monitor.go\<close>). A request only commits
  the desired state, as a word with the switch in its lowest bit and a revision above; a worker
  drains the previous capture and applies the revision; a new connection applies the desired
  revision itself. A request commits under \<open>desiredMu\<close> and signals the worker after releasing it.
  The steps of the three interleave; \<open>restartMu\<close> keeps the worker's drain and the replacement of
  the connection apart.
\<close>

section \<open>State\<close>

text \<open>
  The worker waits, has taken a signal, or is draining for a revision. \<open>opening\<close> is the revision a
  connection being set up has read and not yet stored. \<open>m_telemetryChanged\<close> is the channel of
  capacity one, \<open>m_signals\<close> counts the requests that have committed and still have to signal,
  \<open>m_conn\<close> tells whether there is a connection whose context is not done.
\<close>

datatype worker = Waiting | Taken | Draining uint64

record capture =
  m_desiredTelemetry :: uint64
  m_appliedTelemetry :: uint64
  m_telemetryChanged :: bool
  m_signals :: nat
  m_telemetryEnabled :: bool
  m_conn :: bool
  m_worker :: worker
  m_opening :: "uint64 option"

definition New_monitor :: capture where
  "New_monitor =
     \<lparr>m_desiredTelemetry = 1, m_appliedTelemetry = 1, m_telemetryChanged = False, m_signals = 0,
      m_telemetryEnabled = True, m_conn = False, m_worker = Waiting, m_opening = None\<rparr>"

section \<open>Operations\<close>

unbundle bit_operations_syntax

definition switch_on :: "uint64 \<Rightarrow> bool" where
  "switch_on state \<longleftrightarrow> state AND 1 \<noteq> 0"

definition next_state :: "bool \<Rightarrow> uint64 \<Rightarrow> uint64" where
  "next_state enabled state =
     (let state = (state AND NOT 1) + 2 in if enabled then state OR 1 else state)"

definition signalTelemetry :: "capture \<Rightarrow> capture" where
  "signalTelemetry m = m\<lparr>m_telemetryChanged := True\<rparr>"

text \<open>
  The section of \<open>SetTelemetry\<close> under \<open>desiredMu\<close> tells whether the switch changed; the signal comes
  after it. The error of \<open>SetTelemetry\<close> is always nil: the second component is True.
\<close>

definition commitTelemetry :: "bool \<Rightarrow> capture \<Rightarrow> capture \<times> bool" where
  "commitTelemetry enabled m =
     (let state = m_desiredTelemetry m;
          changed = (switch_on state \<noteq> enabled)
      in (if changed then m\<lparr>m_desiredTelemetry := next_state enabled state\<rparr> else m, changed))"

definition SetTelemetry :: "bool \<Rightarrow> capture \<Rightarrow> capture \<times> bool" where
  "SetTelemetry enabled m =
     (let (m, changed) = commitTelemetry enabled m
      in (if changed then signalTelemetry m else m, True))"

definition captureEnabled :: "capture \<Rightarrow> bool" where
  "captureEnabled m \<longleftrightarrow>
     (let state = m_desiredTelemetry m in switch_on state \<and> state = m_appliedTelemetry m)"

text \<open>The gate in front of everything the monitor publishes.\<close>

definition monitor_admits :: "capture \<Rightarrow> Event \<Rightarrow> bool" where
  "monitor_admits m ev \<longleftrightarrow> \<not> (ev_Category ev \<noteq> Monitor \<and> \<not> captureEnabled m)"

text \<open>
  \<open>reconcileTelemetry\<close> takes a signal, and drops it when its context is done, which ends the
  connection too; \<open>applyTelemetry\<close> reads the desired state and drains; its end depends on whether
  the cleanup of the old capture succeeded.
\<close>

definition worker_takes :: "capture \<Rightarrow> capture" where
  "worker_takes m = m\<lparr>m_telemetryChanged := False, m_worker := Taken\<rparr>"

definition worker_skips :: "capture \<Rightarrow> capture" where
  "worker_skips m = m\<lparr>m_worker := Waiting\<rparr>"

definition apply_begins :: "capture \<Rightarrow> capture" where
  "apply_begins m =
     (let state = m_desiredTelemetry m in
      if m_appliedTelemetry m = state then m\<lparr>m_worker := Waiting\<rparr>
      else m\<lparr>m_telemetryEnabled := False, m_worker := Draining state\<rparr>)"

definition apply_ends :: "uint64 \<Rightarrow> bool \<Rightarrow> capture \<Rightarrow> capture" where
  "apply_ends state cleanup_ok m =
     (let m = m\<lparr>m_worker := Waiting\<rparr> in
      if \<not> cleanup_ok then m\<lparr>m_conn := False\<rparr>
      else if m_desiredTelemetry m \<noteq> state then signalTelemetry m
      else if \<not> switch_on state then m\<lparr>m_appliedTelemetry := state\<rparr>
      else if \<not> m_conn m then m
      else m\<lparr>m_telemetryEnabled := True, m_appliedTelemetry := state\<rparr>)"

text \<open>\<open>openConnection\<close> sets the connection, then reads the desired state and applies it.\<close>

definition conn_opens :: "capture \<Rightarrow> capture" where
  "conn_opens m = m\<lparr>m_conn := True, m_opening := Some (m_desiredTelemetry m)\<rparr>"

definition conn_applies :: "uint64 \<Rightarrow> capture \<Rightarrow> capture" where
  "conn_applies state m =
     m\<lparr>m_telemetryEnabled := switch_on state, m_appliedTelemetry := state, m_opening := None\<rparr>"

section \<open>Interleavings\<close>

text \<open>
  The service switches capture off before anything else happens (\<open>cmd/api/api/api.go\<close>).
\<close>

definition service_monitor :: capture where
  "service_monitor = fst (SetTelemetry False New_monitor)"

text \<open>
  The desired state may change up to the point where its revision would wrap around, which takes
  \<open>2 ^ 63\<close> changes. Any number of requests may be between their commit and their signal.
\<close>

inductive capture_step :: "capture \<Rightarrow> capture \<Rightarrow> bool" where
  commits: "unat (m_desiredTelemetry m) + 4 < 2 ^ 64 \<Longrightarrow> commitTelemetry enabled m = (m', changed) \<Longrightarrow>
    capture_step m (m'\<lparr>m_signals := m_signals m + of_bool changed\<rparr>)"
| signals: "0 < m_signals m \<Longrightarrow> capture_step m ((signalTelemetry m)\<lparr>m_signals := m_signals m - 1\<rparr>)"
| takes: "m_worker m = Waiting \<Longrightarrow> m_telemetryChanged m \<Longrightarrow> capture_step m (worker_takes m)"
| skips: "m_worker m = Taken \<Longrightarrow> \<not> m_conn m \<Longrightarrow> capture_step m (worker_skips m)"
| begins: "m_worker m = Taken \<Longrightarrow> m_opening m = None \<Longrightarrow> capture_step m (apply_begins m)"
| ends: "m_worker m = Draining state \<Longrightarrow> capture_step m (apply_ends state cleanup_ok m)"
| opens: "m_opening m = None \<Longrightarrow> (\<forall>s. m_worker m \<noteq> Draining s) \<Longrightarrow> capture_step m (conn_opens m)"
| applies: "m_opening m = Some state \<Longrightarrow> capture_step m (conn_applies state m)"
| lost: "capture_step m (m\<lparr>m_conn := False\<rparr>)"

inductive capture_reachable :: "capture \<Rightarrow> bool" where
  init: "capture_reachable service_monitor"
| step: "capture_reachable m \<Longrightarrow> capture_step m m' \<Longrightarrow> capture_reachable m'"

inductive_cases capture_stepE: "capture_step m m'"

section \<open>Revisions\<close>

text \<open>A change flips the switch and moves to a larger state; while it does not wrap, no state comes back.\<close>

lemma even_word: "even x \<longleftrightarrow> even (unat x)" for x :: uint64
proof -
  have "even x \<longleftrightarrow> unat (x mod 2) = 0" by (simp add: even_iff_mod_2_eq_zero unat_eq_zero)
  also have "\<dots> \<longleftrightarrow> even (unat x)" by (simp add: unat_mod even_iff_mod_2_eq_zero)
  finally show ?thesis .
qed

lemma switch_on_iff: "switch_on state \<longleftrightarrow> odd (unat state)"
  by (simp add: switch_on_def and_one_eq even_iff_mod_2_eq_zero[symmetric] even_word)

lemma clear_low: "unat (x AND NOT 1) = 2 * (unat x div 2)" for x :: uint64
proof -
  have "x - (x AND 1) = x AND NOT (x AND 1)" by (rule disjunctive_diff) (simp add: bit_and_iff)
  also have "\<dots> = x AND NOT 1" by (rule bit_eqI) (auto simp: bit_simps)
  finally have "x AND NOT 1 = x - (x AND 1)" by simp
  moreover have "unat (x AND 1) = unat x mod 2" by (simp add: and_one_eq unat_mod)
  moreover have "x AND 1 \<le> x" by (rule word_and_le2)
  ultimately show ?thesis by (simp add: unat_diff_le minus_mod_eq_mult_div)
qed

lemma next_state_unat:
  assumes "unat state + 4 < 2 ^ 64"
  shows "unat (next_state enabled state) = 2 * (unat state div 2) + 2 + (if enabled then 1 else 0)"
proof -
  define x where "x = (state AND NOT 1) + 2"
  have up: "unat x = 2 * (unat state div 2) + 2"
    using assms clear_low[of state] unat_add_no_wrap[of "state AND NOT 1" 2] by (simp add: x_def)
  then have "even x" unfolding even_word by simp
  then have "x OR 1 = x + 1" by (simp add: or_one_eq)
  moreover have "unat (x + 1) = 2 * (unat state div 2) + 3"
    using assms up unat_add_no_wrap[of x 1] by simp
  ultimately show ?thesis using up unfolding next_state_def Let_def x_def[symmetric] by simp
qed

lemma next_state_facts:
  assumes "unat state + 4 < 2 ^ 64" "switch_on state \<noteq> enabled"
  shows "switch_on (next_state enabled state) = enabled"
    and "unat state < unat (next_state enabled state)"
  using next_state_unat[OF assms(1), of enabled] assms(2) by (auto simp: switch_on_iff)

section \<open>The invariant\<close>

text \<open>
  The applied state, and the one a drain or a connection works on, are of the past. While a drain
  runs its revision is not applied, capture is off and no connection is being set up. An applied
  and desired switch-on means that capture is on. A desired state that is not applied is being
  worked on, is or will be signalled, or waits for a connection.
\<close>

definition noticed :: "capture \<Rightarrow> bool" where
  "noticed m \<longleftrightarrow> 0 < m_signals m \<or> m_telemetryChanged m \<or> m_worker m = Taken"

definition applied_inv :: "capture \<Rightarrow> bool" where
  "applied_inv m \<longleftrightarrow>
     unat (m_appliedTelemetry m) \<le> unat (m_desiredTelemetry m) \<and>
     (\<forall>st. m_worker m = Draining st \<longrightarrow>
        unat (m_appliedTelemetry m) < unat st \<and> unat st \<le> unat (m_desiredTelemetry m) \<and>
        \<not> m_telemetryEnabled m \<and> m_opening m = None) \<and>
     (\<forall>st. m_opening m = Some st \<longrightarrow> unat st \<le> unat (m_desiredTelemetry m)) \<and>
     (m_appliedTelemetry m = m_desiredTelemetry m \<and> switch_on (m_desiredTelemetry m) \<longrightarrow> m_telemetryEnabled m)"

definition noticed_inv :: "capture \<Rightarrow> bool" where
  "noticed_inv m \<longleftrightarrow>
     (\<forall>st. m_opening m = Some st \<longrightarrow> st = m_desiredTelemetry m \<or> noticed m \<or> \<not> m_conn m) \<and>
     (m_appliedTelemetry m \<noteq> m_desiredTelemetry m \<longrightarrow>
        noticed m \<or> m_worker m = Draining (m_desiredTelemetry m) \<or>
        m_opening m \<noteq> None \<or> \<not> m_conn m)"

lemma applied_step:
  assumes "applied_inv m" "capture_step m m'"
  shows "applied_inv m'"
  using assms(2,1)
proof (induction rule: capture_step.induct)
  case (commits m enabled m' changed)
  show ?case
  proof (cases "switch_on (m_desiredTelemetry m) \<noteq> enabled")
    case True
    let ?d = "next_state enabled (m_desiredTelemetry m)"
    have lt: "unat (m_desiredTelemetry m) < unat ?d"
      by (rule next_state_facts(2)[OF commits(1) True])
    have "m' = m\<lparr>m_desiredTelemetry := ?d\<rparr>"
      using True commits(2) by (simp add: commitTelemetry_def)
    moreover have "m_appliedTelemetry m \<noteq> ?d" using commits(3) lt by (auto simp: applied_inv_def)
    ultimately show ?thesis using commits(3) lt by (auto simp: applied_inv_def)
  next
    case False
    with commits(2,3) show ?thesis by (auto simp: commitTelemetry_def applied_inv_def)
  qed
next
  case (signals m)
  then show ?case by (simp add: applied_inv_def signalTelemetry_def)
next
  case (skips m)
  then show ?case by (simp add: applied_inv_def worker_skips_def)
next
  case (takes m)
  then show ?case by (simp add: applied_inv_def worker_takes_def)
next
  case (begins m)
  then have "m_appliedTelemetry m \<noteq> m_desiredTelemetry m \<Longrightarrow>
      unat (m_appliedTelemetry m) < unat (m_desiredTelemetry m)"
    by (metis applied_inv_def le_neq_implies_less word_unat_eq_iff)
  with begins show ?case by (simp add: applied_inv_def apply_begins_def Let_def)
next
  case (ends m state cleanup_ok)
  then have "m_appliedTelemetry m \<noteq> m_desiredTelemetry m" by (auto simp: applied_inv_def)
  with ends show ?case
    by (auto simp: applied_inv_def apply_ends_def Let_def signalTelemetry_def)
next
  case (opens m)
  then show ?case by (simp add: applied_inv_def conn_opens_def)
next
  case (applies m state)
  then show ?case by (auto simp: applied_inv_def conn_applies_def)
next
  case (lost m)
  then show ?case by (simp add: applied_inv_def)
qed

lemma noticed_step:
  assumes "noticed_inv m" "applied_inv m" "capture_step m m'"
  shows "noticed_inv m'"
  using assms(3,1,2)
proof (induction rule: capture_step.induct)
  case (commits m enabled m' changed)
  have m': "m' = (if changed then m\<lparr>m_desiredTelemetry := next_state enabled (m_desiredTelemetry m)\<rparr> else m)"
    using commits(2) by (auto simp: commitTelemetry_def Let_def)
  show ?case using commits(3) by (cases changed) (auto simp: m' noticed_inv_def noticed_def)
next
  case (signals m)
  then show ?case by (auto simp: noticed_inv_def noticed_def signalTelemetry_def)
next
  case (skips m)
  then show ?case by (auto simp: noticed_inv_def noticed_def worker_skips_def)
next
  case (takes m)
  then show ?case by (auto simp: noticed_inv_def noticed_def worker_takes_def)
next
  case (begins m)
  then show ?case by (auto simp: noticed_inv_def noticed_def apply_begins_def Let_def)
next
  case (ends m state cleanup_ok)
  then show ?case
    by (auto simp: noticed_inv_def noticed_def apply_ends_def Let_def signalTelemetry_def applied_inv_def)
next
  case (opens m)
  then show ?case by (auto simp: noticed_inv_def noticed_def conn_opens_def)
next
  case (applies m state)
  then show ?case by (auto simp: noticed_inv_def noticed_def conn_applies_def)
next
  case (lost m)
  then show ?case by (auto simp: noticed_inv_def noticed_def)
qed

lemma start_state:
  "service_monitor =
     \<lparr>m_desiredTelemetry = 2, m_appliedTelemetry = 1, m_telemetryChanged = True, m_signals = 0,
      m_telemetryEnabled = True, m_conn = False, m_worker = Waiting, m_opening = None\<rparr>"
  by (simp add: service_monitor_def SetTelemetry_def commitTelemetry_def New_monitor_def switch_on_def next_state_def
      signalTelemetry_def)

lemma capture_inv: "capture_reachable m \<Longrightarrow> applied_inv m \<and> noticed_inv m"
proof (induction rule: capture_reachable.induct)
  case init
  show ?case
    by (simp add: start_state applied_inv_def noticed_inv_def noticed_def)
next
  case (step m m')
  then show ?case using applied_step noticed_step by blast
qed

section \<open>Properties\<close>

text \<open>
  C20. Capture follows the last request and is fenced. In every interleaving of the commits and the
  signals of requests, the worker and connections: events other than the monitor's own are admitted
  only while the latest desired revision is applied, asks for capture, capture is on and no drain
  runs; a request that changes the switch stops admission with its commit, before its signal; and
  when the worker waits with no signal, no request still has to signal and a connection is up, the
  last request is in force. The revisions stay below the wrap-around of the word.
\<close>

theorem capture_fenced_and_converges:
  assumes "capture_reachable m"
  shows "(ev_Category ev \<noteq> Monitor \<and> monitor_admits m ev \<longrightarrow>
      m_telemetryEnabled m \<and> switch_on (m_desiredTelemetry m) \<and> (\<forall>s. m_worker m \<noteq> Draining s)) \<and>
    (unat (m_desiredTelemetry m) + 4 < 2 ^ 64 \<and> switch_on (m_desiredTelemetry m) \<noteq> enabled \<longrightarrow>
      \<not> captureEnabled (fst (commitTelemetry enabled m)) \<and> \<not> captureEnabled (fst (SetTelemetry enabled m))) \<and>
    (m_worker m = Waiting \<and> \<not> m_telemetryChanged m \<and> m_signals m = 0 \<and> m_opening m = None \<and> m_conn m \<longrightarrow>
      captureEnabled m = switch_on (m_desiredTelemetry m))"
proof (intro conjI impI)
  have inv: "applied_inv m" "noticed_inv m" using capture_inv[OF assms] by simp_all
  assume "ev_Category ev \<noteq> Monitor \<and> monitor_admits m ev"
  then have on: "m_appliedTelemetry m = m_desiredTelemetry m" "switch_on (m_desiredTelemetry m)"
    by (auto simp: monitor_admits_def captureEnabled_def Let_def)
  with inv(1) show "m_telemetryEnabled m" "switch_on (m_desiredTelemetry m)" "\<forall>s. m_worker m \<noteq> Draining s"
    by (auto simp: applied_inv_def)
next
  have inv: "applied_inv m" using capture_inv[OF assms] by simp
  assume a: "unat (m_desiredTelemetry m) + 4 < 2 ^ 64 \<and> switch_on (m_desiredTelemetry m) \<noteq> enabled"
  then have "unat (m_desiredTelemetry m) < unat (next_state enabled (m_desiredTelemetry m))"
    using next_state_facts(2) by blast
  with a inv show "\<not> captureEnabled (fst (commitTelemetry enabled m))" "\<not> captureEnabled (fst (SetTelemetry enabled m))"
    by (auto simp: captureEnabled_def SetTelemetry_def commitTelemetry_def signalTelemetry_def Let_def applied_inv_def)
next
  have inv: "noticed_inv m" using capture_inv[OF assms] by simp
  assume "m_worker m = Waiting \<and> \<not> m_telemetryChanged m \<and> m_signals m = 0 \<and> m_opening m = None \<and> m_conn m"
  with inv have "m_appliedTelemetry m = m_desiredTelemetry m" by (auto simp: noticed_inv_def noticed_def)
  then show "captureEnabled m = switch_on (m_desiredTelemetry m)" by (simp add: captureEnabled_def)
qed

text \<open>
  Witness: the service starts, the worker applies "off", a connection opens, capture is asked for.
  Between the commit and the signal the worker is idle and the request is not in force; after the
  signal the worker applies it.
\<close>

definition capture_committed :: capture where
  "capture_committed =
     (fst (commitTelemetry True (conn_applies 2 (conn_opens
       (apply_ends 2 True (apply_begins (worker_takes service_monitor)))))))\<lparr>m_signals := 1\<rparr>"

definition capture_applied :: capture where
  "capture_applied =
     apply_ends 5 True (apply_begins (worker_takes ((signalTelemetry capture_committed)\<lparr>m_signals := 0\<rparr>)))"

lemma capture_committed_eq:
  "capture_committed =
     \<lparr>m_desiredTelemetry = 5, m_appliedTelemetry = 2, m_telemetryChanged = False, m_signals = 1,
      m_telemetryEnabled = False, m_conn = True, m_worker = Waiting, m_opening = None\<rparr>"
  by (simp add: capture_committed_def commitTelemetry_def next_state_def conn_applies_def conn_opens_def
      start_state worker_takes_def apply_begins_def apply_ends_def switch_on_def)

lemma capture_applied_eq:
  "capture_applied =
     \<lparr>m_desiredTelemetry = 5, m_appliedTelemetry = 5, m_telemetryChanged = False, m_signals = 0,
      m_telemetryEnabled = True, m_conn = True, m_worker = Waiting, m_opening = None\<rparr>"
  by (simp add: capture_applied_def capture_committed_eq signalTelemetry_def worker_takes_def apply_begins_def
      apply_ends_def switch_on_def)

lemma capture_committed_reachable: "capture_reachable capture_committed"
proof -
  let ?m1 = "worker_takes service_monitor"
  let ?m2 = "apply_begins ?m1"
  let ?m3 = "apply_ends 2 True ?m2"
  let ?m4 = "conn_opens ?m3"
  let ?m5 = "conn_applies 2 ?m4"
  note eqs = start_state worker_takes_def apply_begins_def apply_ends_def switch_on_def conn_opens_def
    conn_applies_def
  have 0: "capture_reachable service_monitor" by (rule init)
  have 1: "capture_reachable ?m1" by (rule step[OF 0 takes]) (simp_all add: start_state)
  have 2: "capture_reachable ?m2" by (rule step[OF 1 begins]) (simp_all add: eqs)
  have 3: "capture_reachable ?m3" by (rule step[OF 2 ends]) (simp add: eqs)
  have 4: "capture_reachable ?m4" by (rule step[OF 3 opens]) (simp_all add: eqs)
  have 5: "capture_reachable ?m5" by (rule step[OF 4 applies]) (simp add: eqs)
  obtain m' changed where c: "commitTelemetry True ?m5 = (m', changed)" by fastforce
  have "m'\<lparr>m_signals := m_signals ?m5 + of_bool changed\<rparr> = capture_committed"
    using c by (auto simp: capture_committed_def commitTelemetry_def eqs)
  moreover have "capture_step ?m5 (m'\<lparr>m_signals := m_signals ?m5 + of_bool changed\<rparr>)"
    by (rule commits[OF _ c]) (simp add: eqs)
  ultimately show ?thesis using step[OF 5] by simp
qed

lemma capture_applied_reachable: "capture_reachable capture_applied"
proof -
  let ?m1 = "(signalTelemetry capture_committed)\<lparr>m_signals := m_signals capture_committed - 1\<rparr>"
  let ?m2 = "worker_takes ?m1"
  let ?m3 = "apply_begins ?m2"
  note eqs = capture_committed_eq signalTelemetry_def worker_takes_def apply_begins_def
  have 1: "capture_reachable ?m1"
    by (rule step[OF capture_committed_reachable signals]) (simp add: eqs)
  have 2: "capture_reachable ?m2" by (rule step[OF 1 takes]) (simp_all add: eqs)
  have 3: "capture_reachable ?m3" by (rule step[OF 2 begins]) (simp_all add: eqs)
  have 4: "capture_reachable (apply_ends 5 True ?m3)" by (rule step[OF 3 ends]) (simp add: eqs)
  have "m_signals capture_committed - 1 = 0" by (simp add: capture_committed_eq)
  then show ?thesis using 4 unfolding capture_applied_def by simp
qed

theorem capture_fenced_witness:
  "m_worker capture_committed = Waiting \<and> \<not> m_telemetryChanged capture_committed \<and> m_conn capture_committed \<and>
   switch_on (m_desiredTelemetry capture_committed) \<and> \<not> captureEnabled capture_committed \<and>
   captureEnabled capture_applied \<and> \<not> captureEnabled (fst (commitTelemetry False capture_applied))"
proof -
  have "captureEnabled capture_applied"
    using capture_fenced_and_converges[OF capture_applied_reachable, of undefined False]
    by (simp add: capture_applied_eq switch_on_def)
  moreover have "\<not> captureEnabled (fst (commitTelemetry False capture_applied))"
    using capture_fenced_and_converges[OF capture_applied_reachable, of undefined False]
    by (simp add: capture_applied_eq switch_on_def)
  ultimately show ?thesis by (simp add: capture_committed_eq captureEnabled_def switch_on_def)
qed

end
