(* ===== verification/TelemetryApi.thy ===== *)
theory TelemetryApi
  imports TelemetryConfigApi CaptureControl
begin

text \<open>
  The telemetry endpoints (\<open>cmd/api/api/telemetry.go\<close>): GET, PUT and PATCH over the session, the
  capture switch of the monitor, the api-call middleware and the two sinks. PUT and PATCH hold
  \<open>monitorMu\<close> and, from before they commit until the configuration is settled, \<open>storageMu\<close>; the sinks
  are reconciled after they return. Here a commit and its settlement are two steps, because events
  are published between them, and no other handler or storage step may come between.
\<close>

section \<open>State\<close>

record s2_sink =
  s2_everStarted :: bool
  s2_afterSeq :: uint64

text \<open>
  \<open>a_pending\<close> is a committed configuration that is not settled: whether a session was active
  before, the configuration to roll back to, and the new one. \<open>a_s2\<close> and \<open>a_otlp\<close> are \<open>None\<close> on a VM
  without that sink; \<open>a_otlp\<close> tells whether the exporter runs. \<open>a_over\<close> is the end of the lifecycle
  context. The bus \<open>'b\<close> and the capture switch \<open>'m\<close> are used through their operations.
\<close>

record ('m, 'b) api =
  a_session :: TelemetrySession
  a_bus :: 'b
  a_middleware :: bool
  a_capture :: 'm
  a_over :: bool
  a_s2 :: "s2_sink option"
  a_otlp :: "bool option"
  a_pending :: "(bool \<times> TelemetryConfig \<times> TelemetryConfig) option"

text \<open>What the handlers call, and the order in which Go iterates over a category set.\<close>

record ('m, 'b) deps =
  d_pub :: "'b \<Rightarrow> Envelope \<Rightarrow> 'b \<times> Envelope"
  d_seq :: "'b \<Rightarrow> uint64"
  d_lost :: "'b \<Rightarrow> uint64"
  d_set :: "bool \<Rightarrow> 'm \<Rightarrow> 'm \<times> bool"
  d_enum :: "category set \<Rightarrow> category list"

record TelemetryState =
  st_AppliedAt :: "int option"
  st_Config :: BrowserTelemetryConfig
  st_DroppedEvents :: int
  st_Seq :: int

datatype reply =
    Ok200 TelemetryState
  | Created201 TelemetryState
  | NotFound404
  | Conflict409
  | Internal500

section \<open>Responses\<close>

text \<open>Counters are converted to \<open>int64\<close>.\<close>

definition buildTelemetryResponse :: "('m, 'b) deps \<Rightarrow> ('m, 'b) api \<Rightarrow> TelemetryState" where
  "buildTelemetryResponse d a =
     \<lparr>st_AppliedAt = ts_appliedAt (a_session a),
      st_Config = telemetryConfigToOAPI (Config (d_enum d) (a_session a)),
      st_DroppedEvents = sint (d_lost d (a_bus a)), st_Seq = sint (d_seq d (a_bus a))\<rparr>"

definition stoppedTelemetryResponse :: "('m, 'b) deps \<Rightarrow> bool \<Rightarrow> ('m, 'b) api \<Rightarrow> TelemetryState" where
  "stoppedTelemetryResponse d storeS2 a =
     \<lparr>st_AppliedAt = None, st_Config = disabledConfig storeS2,
      st_DroppedEvents = sint (d_lost d (a_bus a)), st_Seq = sint (d_seq d (a_bus a))\<rparr>"

definition GetTelemetry :: "('m, 'b) deps \<Rightarrow> ('m, 'b) api \<Rightarrow> reply" where
  "GetTelemetry d a =
     (if \<not> TS_Active (a_session a) then NotFound404 else Ok200 (buildTelemetryResponse d a))"

section \<open>Capture state\<close>

definition middleware_wanted :: "category list \<Rightarrow> bool" where
  "middleware_wanted cats \<longleftrightarrow> Control \<in> set cats \<or> Platform \<in> set cats"

definition reconcileTelemetryState ::
  "('m, 'b) deps \<Rightarrow> category list \<Rightarrow> ('m, 'b) api \<Rightarrow> ('m, 'b) api \<times> bool" where
  "reconcileTelemetryState d cats a =
     (let a = a\<lparr>a_middleware := middleware_wanted cats\<rparr> in
      if a_over a then (a, False)
      else let (m, ok) = d_set d (HasCDPCategory cats) (a_capture a) in (a\<lparr>a_capture := m\<rparr>, ok))"

definition stopTelemetryState :: "('m, 'b) deps \<Rightarrow> ('m, 'b) api \<Rightarrow> ('m, 'b) api" where
  "stopTelemetryState d a =
     a\<lparr>a_capture := fst (d_set d False (a_capture a)), a_middleware := False\<rparr>"

definition with_session :: "(TelemetrySession \<Rightarrow> TelemetrySession) \<Rightarrow> ('m, 'b) api \<Rightarrow> ('m, 'b) api" where
  "with_session f a = a\<lparr>a_session := f (a_session a)\<rparr>"

definition rollbackTelemetry ::
  "('m, 'b) deps \<Rightarrow> bool \<Rightarrow> TelemetryConfig \<Rightarrow> ('m, 'b) api \<Rightarrow> ('m, 'b) api" where
  "rollbackTelemetry d wasActive prev a =
     (if \<not> wasActive then stopTelemetryState d (with_session TS_Stop a)
      else fst (reconcileTelemetryState d (cfg_Categories prev)
             (with_session (UpdateConfig (d_seq d (a_bus a)) prev) a)))"

definition storageEverStarted :: "('m, 'b) api \<Rightarrow> bool" where
  "storageEverStarted a = (case a_s2 a of None \<Rightarrow> False | Some k \<Rightarrow> s2_everStarted k)"

section \<open>PUT and PATCH\<close>

text \<open>
  Up to the commit: a reply, or \<open>None\<close> with the new configuration committed and pending. \<open>sid\<close> is
  the generated session identifier, \<open>now\<close> the clock.
\<close>

definition Put_commit ::
  "('m, 'b) deps \<Rightarrow> string \<Rightarrow> int \<Rightarrow> BrowserTelemetryConfig option \<Rightarrow> ('m, 'b) api
     \<Rightarrow> reply option \<times> ('m, 'b) api" where
  "Put_commit d sid now body a =
     (let (cfg, allDisabled) = telemetryConfigFromOAPI body;
          wasActive = TS_Active (a_session a)
      in if \<not> cfg_StoreS2 cfg \<and> storageEverStarted a then (Some Conflict409, a)
         else if allDisabled then
           (let a = (if wasActive then stopTelemetryState d (with_session TS_Stop a) else a)
            in (Some (Ok200 (stoppedTelemetryResponse d (cfg_StoreS2 cfg) a)), a))
         else if wasActive then
           (None, (with_session (UpdateConfig (d_seq d (a_bus a)) cfg) a)
                    \<lparr>a_pending := Some (True, Config (d_enum d) (a_session a), cfg)\<rparr>)
         else
           (None, (with_session (TS_Start (d_seq d (a_bus a)) now sid cfg) a)
                    \<lparr>a_pending := Some (False, stop_config False, cfg)\<rparr>))"

definition empty_patch :: "BrowserTelemetryConfig option \<Rightarrow> bool" where
  "empty_patch body =
     (case body of None \<Rightarrow> True
      | Some p \<Rightarrow> t_Browser p = None \<and> t_Export p = None \<and> t_Storage p = None \<and> t_BrowserSession p = None)"

definition Patch_commit ::
  "('m, 'b) deps \<Rightarrow> BrowserTelemetryConfig option \<Rightarrow> ('m, 'b) api \<Rightarrow> reply option \<times> ('m, 'b) api" where
  "Patch_commit d body a =
     (if \<not> TS_Active (a_session a) then (Some NotFound404, a)
      else if empty_patch body then (Some (Ok200 (buildTelemetryResponse d a)), a)
      else let prev = Config (d_enum d) (a_session a);
               (cfg, allDisabled) = mergeTelemetryConfig (d_enum d) prev (the body)
           in if \<not> cfg_StoreS2 cfg \<and> storageEverStarted a then (Some Conflict409, a)
              else if allDisabled then
                (let a = stopTelemetryState d (with_session TS_Stop a)
                 in (Some (Ok200 (stoppedTelemetryResponse d (cfg_StoreS2 cfg) a)), a))
              else (None, (with_session (UpdateConfig (d_seq d (a_bus a)) cfg) a)
                            \<lparr>a_pending := Some (True, prev, cfg)\<rparr>))"

text \<open>The rest of both handlers: the capture state is applied, or everything is rolled back.\<close>

definition settle ::
  "('m, 'b) deps \<Rightarrow> bool \<Rightarrow> TelemetryConfig \<Rightarrow> TelemetryConfig \<Rightarrow> ('m, 'b) api
     \<Rightarrow> reply \<times> ('m, 'b) api" where
  "settle d wasActive prev cfg a =
     (let (a, ok) = reconcileTelemetryState d (cfg_Categories cfg) (a\<lparr>a_pending := None\<rparr>) in
      if \<not> ok then (Internal500, rollbackTelemetry d wasActive prev a)
      else if wasActive then (Ok200 (buildTelemetryResponse d a), a)
      else (Created201 (buildTelemetryResponse d a), a))"

text \<open>A handler that nothing interrupts.\<close>

fun finish_commit :: "('m, 'b) deps \<Rightarrow> reply option \<times> ('m, 'b) api \<Rightarrow> reply \<times> ('m, 'b) api" where
  "finish_commit d (Some r, a) = (r, a)"
| "finish_commit d (None, a) =
     (case a_pending a of
        Some (wasActive, prev, cfg) \<Rightarrow> settle d wasActive prev cfg a
      | None \<Rightarrow> (Internal500, a))"

definition PutTelemetry ::
  "('m, 'b) deps \<Rightarrow> string \<Rightarrow> int \<Rightarrow> BrowserTelemetryConfig option \<Rightarrow> ('m, 'b) api
     \<Rightarrow> reply \<times> ('m, 'b) api" where
  "PutTelemetry d sid now body a = finish_commit d (Put_commit d sid now body a)"

definition PatchTelemetry ::
  "('m, 'b) deps \<Rightarrow> BrowserTelemetryConfig option \<Rightarrow> ('m, 'b) api \<Rightarrow> reply \<times> ('m, 'b) api" where
  "PatchTelemetry d body a = finish_commit d (Patch_commit d body a)"

section \<open>The sinks\<close>

text \<open>
  \<open>running\<close> is whether the exporter runs after the start or stop was tried, \<open>opens\<close> whether the
  storage sink opened.
\<close>

definition reconcileExport :: "bool \<Rightarrow> ('m, 'b) api \<Rightarrow> ('m, 'b) api" where
  "reconcileExport running a =
     (case a_otlp a of
        None \<Rightarrow> a
      | Some r \<Rightarrow> if ts_exportOTLP (a_session a) \<noteq> r then a\<lparr>a_otlp := Some running\<rparr> else a)"

definition reconcileStorage :: "bool \<Rightarrow> ('m, 'b) api \<Rightarrow> ('m, 'b) api" where
  "reconcileStorage opens a =
     (case a_s2 a of
        None \<Rightarrow> a
      | Some k \<Rightarrow>
          (let (afterSeq, store) = StoreS2After (a_session a) in
           if \<not> store \<or> s2_everStarted k then a
           else if opens then a\<lparr>a_s2 := Some \<lparr>s2_everStarted = True, s2_afterSeq = afterSeq\<rparr>\<rparr>
           else a))"

text \<open>\<open>Shutdown\<close>, as far as telemetry goes: the lifecycle ends, then the session stops.\<close>

definition Shutdown_telemetry :: "('m, 'b) api \<Rightarrow> ('m, 'b) api" where
  "Shutdown_telemetry a = with_session TS_Stop a"

definition new_api :: "'m \<Rightarrow> 'b \<Rightarrow> bool \<Rightarrow> bool \<Rightarrow> ('m, 'b) api" where
  "new_api m b has_s2 has_otlp =
     \<lparr>a_session = NewTelemetrySession, a_bus = b, a_middleware = False, a_capture = m, a_over = False,
      a_s2 = (if has_s2 then Some \<lparr>s2_everStarted = False, s2_afterSeq = 0\<rparr> else None),
      a_otlp = (if has_otlp then Some False else None), a_pending = None\<rparr>"

section \<open>Interleavings\<close>

text \<open>
  The ghost log holds each envelope the session published with whether storage was on. An event is
  published by any goroutine at any time; \<open>room\<close> bounds the number of publications.
\<close>

type_synonym store_log = "(Envelope \<times> bool) list"

inductive api_step ::
  "('m, 'b) deps \<Rightarrow> ('b \<Rightarrow> nat) \<Rightarrow> ('m, 'b) api \<times> store_log \<Rightarrow> ('m, 'b) api \<times> store_log \<Rightarrow> bool"
  for d room where
  put: "a_pending a = None \<Longrightarrow> sid \<noteq> [] \<Longrightarrow>
    api_step d room (a, l) (snd (Put_commit d sid now body a), l)"
| patch: "a_pending a = None \<Longrightarrow> api_step d room (a, l) (snd (Patch_commit d body a), l)"
| settles: "a_pending a = Some (w, prev, cfg) \<Longrightarrow> api_step d room (a, l) (snd (settle d w prev cfg a), l)"
| publish: "0 < room (a_bus a) \<Longrightarrow> TS_Publish (d_pub d) now (a_session a) (a_bus a) ev = (b, r) \<Longrightarrow>
    api_step d room (a, l)
      (a\<lparr>a_bus := b\<rparr>, case r of None \<Rightarrow> l | Some env \<Rightarrow> l @ [(env, ts_storeS2 (a_session a))])"
| export: "api_step d room (a, l) (reconcileExport running a, l)"
| storage: "a_pending a = None \<Longrightarrow> api_step d room (a, l) (reconcileStorage opens a, l)"
| over: "api_step d room (a, l) (a\<lparr>a_over := True\<rparr>, l)"
| shutdown: "a_pending a = None \<Longrightarrow> a_over a \<Longrightarrow> api_step d room (a, l) (Shutdown_telemetry a, l)"

inductive api_reachable ::
  "('m, 'b) deps \<Rightarrow> ('b \<Rightarrow> nat) \<Rightarrow> ('m, 'b) api \<Rightarrow> ('m, 'b) api \<times> store_log \<Rightarrow> bool"
  for d room a0 where
  init: "api_reachable d room a0 (a0, [])"
| step: "api_reachable d room a0 x \<Longrightarrow> api_step d room x y \<Longrightarrow> api_reachable d room a0 y"

section \<open>Sessions the handlers produce\<close>

text \<open>
  The categories of an active session: user categories, at least one, and the monitor category
  exactly when a CDP category is among them.
\<close>

definition cats_ok :: "category set \<Rightarrow> bool" where
  "cats_ok A \<longleftrightarrow>
     A \<subseteq> insert Monitor (set UserCategories) \<and> A \<inter> set UserCategories \<noteq> {} \<and>
     (Monitor \<in> A \<longleftrightarrow> A \<inter> cdpCategories \<noteq> {})"

definition sess_ok :: "TelemetrySession \<Rightarrow> bool" where
  "sess_ok s \<longleftrightarrow>
     views_inv s \<and> (ts_id s \<noteq> [] \<longrightarrow> cats_ok (ts_categories s)) \<and> (ts_id s = [] \<longrightarrow> \<not> ts_storeS2 s) \<and>
     (\<forall>A. ts_excludedCdp s = Some A \<longrightarrow> finite A \<and> A \<noteq> {})"

lemma Monitor_not_cdp [simp]: "Monitor \<notin> cdpCategories"
  using cdp_user Monitor_not_user by blast

lemma HasCDP_iff: "HasCDPCategory cats \<longleftrightarrow> set cats \<inter> cdpCategories \<noteq> {}"
  by (auto simp: HasCDPCategory_def)

lemma categorySet_user:
  assumes "user_config cfg"
  shows "cats_ok (categorySet (cfg_Categories cfg))"
    and "c \<in> set UserCategories \<Longrightarrow> c \<in> categorySet (cfg_Categories cfg) \<longleftrightarrow> c \<in> set (cfg_Categories cfg)"
    and "Monitor \<in> categorySet (cfg_Categories cfg) \<longleftrightarrow> HasCDPCategory (cfg_Categories cfg)"
proof -
  have cs: "categorySet (cfg_Categories cfg) =
      set (cfg_Categories cfg) \<union> (if HasCDPCategory (cfg_Categories cfg) then {Monitor} else {})"
    using assms by (simp add: categorySet_def user_config_def)
  have sub: "set (cfg_Categories cfg) \<subseteq> set UserCategories" "cfg_Categories cfg \<noteq> []"
    using assms by (simp_all add: user_config_def)
  have "set (cfg_Categories cfg) \<inter> set UserCategories \<noteq> {}"
    using sub by (cases "cfg_Categories cfg") auto
  moreover have "Monitor \<notin> set (cfg_Categories cfg)" using sub(1) Monitor_not_user by blast
  ultimately show "cats_ok (categorySet (cfg_Categories cfg))"
    and "Monitor \<in> categorySet (cfg_Categories cfg) \<longleftrightarrow> HasCDPCategory (cfg_Categories cfg)"
    and "c \<in> set UserCategories \<Longrightarrow> c \<in> categorySet (cfg_Categories cfg) \<longleftrightarrow> c \<in> set (cfg_Categories cfg)"
    using sub(1) unfolding cs cats_ok_def HasCDP_iff by auto
qed

lemma categorySet_same: "cats_ok A \<Longrightarrow> set cats = A \<Longrightarrow> categorySet cats = A"
  by (cases "cats = []") (auto simp: categorySet_def cats_ok_def HasCDP_iff)

lemma views_ops:
  "views_inv (TS_Start seq now sid cfg s)" "views_inv (UpdateConfig seq cfg s)" "views_inv (TS_Stop s)"
  by (simp_all add: views_inv_def TS_Start_def UpdateConfig_def TS_Stop_def setActive_def Let_def)

lemma excludedSet_ok: "excludedSet l = Some A \<Longrightarrow> finite A \<and> A \<noteq> {}"
  by (auto simp: excludedSet_def split: if_splits)

lemma Start_views [simp]:
  "ts_id (TS_Start seq now sid cfg s) = sid"
  "ts_categories (TS_Start seq now sid cfg s) = categorySet (cfg_Categories cfg)"
  "ts_storeS2 (TS_Start seq now sid cfg s) = cfg_StoreS2 cfg"
  "ts_storeS2After (TS_Start seq now sid cfg s) = seq"
  "ts_excludedCdp (TS_Start seq now sid cfg s) = excludedSet (cfg_ExcludedCdpMethods cfg)"
  by (simp_all add: TS_Start_def setActive_def)

lemma Update_views [simp]:
  "ts_id (UpdateConfig seq cfg s) = ts_id s"
  "ts_categories (UpdateConfig seq cfg s) = categorySet (cfg_Categories cfg)"
  "ts_storeS2 (UpdateConfig seq cfg s) = cfg_StoreS2 cfg"
  "ts_storeS2After (UpdateConfig seq cfg s) =
     (if cfg_StoreS2 cfg \<and> \<not> ts_storeS2 s then seq else ts_storeS2After s)"
  "ts_excludedCdp (UpdateConfig seq cfg s) = excludedSet (cfg_ExcludedCdpMethods cfg)"
  by (simp_all add: UpdateConfig_def setActive_def Let_def)

lemma Stop_views [simp]:
  "ts_id (TS_Stop s) = []" "\<not> ts_storeS2 (TS_Stop s)" "ts_excludedCdp (TS_Stop s) = ts_excludedCdp s"
  by (simp_all add: TS_Stop_def setActive_def)

lemma sess_ok_ops:
  "sid \<noteq> [] \<Longrightarrow> user_config cfg \<Longrightarrow> sess_ok (TS_Start seq now sid cfg s)"
  "ts_id s \<noteq> [] \<Longrightarrow> cats_ok (categorySet (cfg_Categories cfg)) \<Longrightarrow> sess_ok (UpdateConfig seq cfg s)"
  "sess_ok s \<Longrightarrow> sess_ok (TS_Stop s)"
  using excludedSet_ok by (auto simp: sess_ok_def views_ops categorySet_user)

lemma Active_iff: "sess_ok s \<Longrightarrow> TS_Active s \<longleftrightarrow> ts_id s \<noteq> []"
  by (simp add: sess_ok_def views_inv_def TS_Active_def)

section \<open>The invariants\<close>

text \<open>A pending configuration: what was committed, and what a rollback would restore.\<close>

definition pend_ok :: "('m, 'b) api \<Rightarrow> bool" where
  "pend_ok a \<longleftrightarrow>
     (\<forall>w prev cfg. a_pending a = Some (w, prev, cfg) \<longrightarrow>
        ts_id (a_session a) \<noteq> [] \<and> user_config cfg \<and>
        ts_categories (a_session a) = categorySet (cfg_Categories cfg) \<and>
        (w \<longrightarrow> cats_ok (set (cfg_Categories prev)) \<and> (storageEverStarted a \<longrightarrow> cfg_StoreS2 prev)))"

text \<open>
  What a sink reads above a boundary was captured with storage on: for the boundary of the session
  while it stores, and for the boundary of the sink once it is open. While the sink is open an
  active session stores.
\<close>

definition stored_only :: "uint64 \<Rightarrow> store_log \<Rightarrow> bool" where
  "stored_only after l \<longleftrightarrow> (\<forall>(env, on) \<in> set l. after < env_Seq env \<longrightarrow> on)"

definition store_ok :: "('m, 'b) deps \<Rightarrow> ('m, 'b) api \<times> store_log \<Rightarrow> bool" where
  "store_ok d = (\<lambda>(a, l).
     (\<forall>(env, on) \<in> set l. env_Seq env \<le> d_seq d (a_bus a)) \<and>
     (ts_storeS2 (a_session a) \<longrightarrow>
        ts_storeS2After (a_session a) \<le> d_seq d (a_bus a) \<and> stored_only (ts_storeS2After (a_session a)) l) \<and>
     (\<forall>k. a_s2 a = Some k \<and> s2_everStarted k \<longrightarrow>
        s2_afterSeq k \<le> d_seq d (a_bus a) \<and> stored_only (s2_afterSeq k) l \<and>
        (ts_id (a_session a) \<noteq> [] \<longrightarrow> ts_storeS2 (a_session a))))"

text \<open>The capture switch and the middleware follow the configuration, once it is settled.\<close>

definition capture_ok :: "('m \<Rightarrow> bool) \<Rightarrow> ('m, 'b) api \<Rightarrow> bool" where
  "capture_ok wants a \<longleftrightarrow>
     (\<not> a_over a \<and> a_pending a = None \<longrightarrow>
        wants (a_capture a) = (ts_id (a_session a) \<noteq> [] \<and> Monitor \<in> ts_categories (a_session a)) \<and>
        a_middleware a = (ts_id (a_session a) \<noteq> [] \<and>
          (Control \<in> ts_categories (a_session a) \<or> Platform \<in> ts_categories (a_session a))))"

definition api_inv :: "('m, 'b) deps \<Rightarrow> ('m \<Rightarrow> bool) \<Rightarrow> ('m, 'b) api \<times> store_log \<Rightarrow> bool" where
  "api_inv d wants x \<longleftrightarrow>
     sess_ok (a_session (fst x)) \<and> pend_ok (fst x) \<and> store_ok d x \<and> capture_ok wants (fst x)"

text \<open>What the invariant depends on.\<close>

lemma pend_ok_cong:
  "a_session a' = a_session a \<Longrightarrow> a_s2 a' = a_s2 a \<Longrightarrow> a_pending a' = a_pending a \<Longrightarrow> pend_ok a' = pend_ok a"
  by (simp only: pend_ok_def storageEverStarted_def)

lemma store_ok_cong:
  "a_session a' = a_session a \<Longrightarrow> a_s2 a' = a_s2 a \<Longrightarrow> a_bus a' = a_bus a \<Longrightarrow>
   store_ok d (a', l) = store_ok d (a, l)"
  by (simp only: store_ok_def prod.case)

lemma api_inv_cong:
  assumes "api_inv d wants (a, l)"
    and "a_session a' = a_session a" "a_s2 a' = a_s2 a" "a_pending a' = a_pending a" "a_bus a' = a_bus a"
    and "a_over a' \<or> a_over a' = a_over a \<and> a_capture a' = a_capture a \<and> a_middleware a' = a_middleware a"
  shows "api_inv d wants (a', l)"
proof -
  have "capture_ok wants a'" using assms(1,2,4,6) unfolding api_inv_def capture_ok_def fst_conv by metis
  then show ?thesis
    using assms(1) pend_ok_cong[OF assms(2,3,4)] store_ok_cong[OF assms(2,3,5)] assms(2)
    by (simp add: api_inv_def)
qed

lemma store_okD:
  assumes "store_ok d (a, l)"
  shows "\<forall>(env, on) \<in> set l. env_Seq env \<le> d_seq d (a_bus a)"
    and "ts_storeS2 (a_session a) \<Longrightarrow>
      ts_storeS2After (a_session a) \<le> d_seq d (a_bus a) \<and> stored_only (ts_storeS2After (a_session a)) l"
    and "a_s2 a = Some k \<Longrightarrow> s2_everStarted k \<Longrightarrow>
      s2_afterSeq k \<le> d_seq d (a_bus a) \<and> stored_only (s2_afterSeq k) l \<and>
      (ts_id (a_session a) \<noteq> [] \<longrightarrow> ts_storeS2 (a_session a))"
  using assms by (simp_all add: store_ok_def)

text \<open>
  A session that replaces another keeps the storage invariant if it stores under the old boundary
  or under the present end of the stream, and if it stores at all when the sink is open.
\<close>

lemma store_ok_session:
  assumes "store_ok d (a, l)" "a_bus a' = a_bus a" "a_s2 a' = a_s2 a"
    and "ts_storeS2 (a_session a') \<Longrightarrow>
      ts_storeS2 (a_session a) \<and> ts_storeS2After (a_session a') = ts_storeS2After (a_session a) \<or>
      ts_storeS2After (a_session a') = d_seq d (a_bus a)"
    and "storageEverStarted a \<Longrightarrow> ts_id (a_session a') \<noteq> [] \<Longrightarrow> ts_storeS2 (a_session a')"
  shows "store_ok d (a', l)"
proof -
  have all: "\<forall>(env, on) \<in> set l. env_Seq env \<le> d_seq d (a_bus a)" using assms(1) by (simp add: store_ok_def)
  then have now: "stored_only (d_seq d (a_bus a)) l" by (auto simp: stored_only_def)
  have new: "ts_storeS2After (a_session a') \<le> d_seq d (a_bus a) \<and> stored_only (ts_storeS2After (a_session a')) l"
    if "ts_storeS2 (a_session a')"
    using assms(4)[OF that] now assms(1) by (auto simp: store_ok_def)
  have "s2_afterSeq k \<le> d_seq d (a_bus a) \<and> stored_only (s2_afterSeq k) l \<and>
      (ts_id (a_session a') \<noteq> [] \<longrightarrow> ts_storeS2 (a_session a'))" if "a_s2 a = Some k" "s2_everStarted k" for k
    using that assms(1,5) by (auto simp: store_ok_def storageEverStarted_def)
  with all new assms(2,3) show ?thesis by (simp add: store_ok_def)
qed

lemma boundary_of_update:
  "ts_storeS2 (UpdateConfig seq cfg s) \<Longrightarrow>
   ts_storeS2 s \<and> ts_storeS2After (UpdateConfig seq cfg s) = ts_storeS2After s \<or>
   ts_storeS2After (UpdateConfig seq cfg s) = seq"
  by auto

section \<open>The interface of the handlers\<close>

text \<open>
  What the handlers rely on: the bus numbers publications, the capture switch accepts every request
  and then wants what was asked, and a map iteration lists the set.
\<close>

locale telemetry_api = event_bus "d_pub d" "d_seq d" room
  for d :: "('m, 'b) deps" and room :: "'b \<Rightarrow> nat" +
  fixes wants :: "'m \<Rightarrow> bool"
  assumes set_ok: "snd (d_set d e m)"
    and set_wants: "wants (fst (d_set d e m)) = e"
    and enum_ok: "enumerates (d_enum d)"
begin

lemma reconcile_ok: "snd (reconcileTelemetryState d cats a) \<longleftrightarrow> \<not> a_over a"
  using set_ok by (simp add: reconcileTelemetryState_def Let_def split: prod.split) (metis snd_conv)

lemma reconcile_views [simp]:
  "a_session (fst (reconcileTelemetryState d cats a)) = a_session a"
  "a_bus (fst (reconcileTelemetryState d cats a)) = a_bus a"
  "a_over (fst (reconcileTelemetryState d cats a)) = a_over a"
  "a_s2 (fst (reconcileTelemetryState d cats a)) = a_s2 a"
  "a_otlp (fst (reconcileTelemetryState d cats a)) = a_otlp a"
  "a_pending (fst (reconcileTelemetryState d cats a)) = a_pending a"
  "a_middleware (fst (reconcileTelemetryState d cats a)) = middleware_wanted cats"
  by (simp_all add: reconcileTelemetryState_def Let_def split: prod.split)

lemma reconcile_wants:
  "\<not> a_over a \<Longrightarrow> wants (a_capture (fst (reconcileTelemetryState d cats a))) = HasCDPCategory cats"
  using set_wants by (simp add: reconcileTelemetryState_def Let_def split: prod.split) (metis fst_conv)

lemma stop_views [simp]:
  "a_session (stopTelemetryState d a) = a_session a" "a_bus (stopTelemetryState d a) = a_bus a"
  "a_over (stopTelemetryState d a) = a_over a" "a_s2 (stopTelemetryState d a) = a_s2 a"
  "a_otlp (stopTelemetryState d a) = a_otlp a" "a_pending (stopTelemetryState d a) = a_pending a"
  "\<not> a_middleware (stopTelemetryState d a)" "wants (a_capture (stopTelemetryState d a)) = False"
  by (simp_all add: stopTelemetryState_def set_wants)

lemma with_session_views [simp]:
  "a_session (with_session f a) = f (a_session a)" "a_bus (with_session f a) = a_bus a"
  "a_over (with_session f a) = a_over a" "a_s2 (with_session f a) = a_s2 a"
  "a_otlp (with_session f a) = a_otlp a" "a_pending (with_session f a) = a_pending a"
  "a_middleware (with_session f a) = a_middleware a" "a_capture (with_session f a) = a_capture a"
  by (simp_all add: with_session_def)

text \<open>The views of a rolled back state.\<close>

lemma rollback_views [simp]:
  "a_bus (rollbackTelemetry d w prev a) = a_bus a" "a_over (rollbackTelemetry d w prev a) = a_over a"
  "a_s2 (rollbackTelemetry d w prev a) = a_s2 a" "a_pending (rollbackTelemetry d w prev a) = a_pending a"
  "a_session (rollbackTelemetry d w prev a) =
     (if w then UpdateConfig (d_seq d (a_bus a)) prev (a_session a) else TS_Stop (a_session a))"
  by (simp_all add: rollbackTelemetry_def)

lemma settle_views:
  "a_bus (snd (settle d w prev cfg a)) = a_bus a" "a_over (snd (settle d w prev cfg a)) = a_over a"
  "a_s2 (snd (settle d w prev cfg a)) = a_s2 a" "a_pending (snd (settle d w prev cfg a)) = None"
  "\<not> a_over a \<Longrightarrow> a_session (snd (settle d w prev cfg a)) = a_session a"
  "a_over a \<Longrightarrow> a_session (snd (settle d w prev cfg a)) =
     (if w then UpdateConfig (d_seq d (a_bus a)) prev (a_session a) else TS_Stop (a_session a))"
  "\<not> a_over a \<Longrightarrow> a_middleware (snd (settle d w prev cfg a)) = middleware_wanted (cfg_Categories cfg)"
  "\<not> a_over a \<Longrightarrow> wants (a_capture (snd (settle d w prev cfg a))) = HasCDPCategory (cfg_Categories cfg)"
  "fst (settle d w prev cfg a) = Internal500 \<longleftrightarrow> a_over a"
proof -
  obtain b ok where r: "reconcileTelemetryState d (cfg_Categories cfg) (a\<lparr>a_pending := None\<rparr>) = (b, ok)"
    by fastforce
  have v: "a_session b = a_session a" "a_bus b = a_bus a" "a_over b = a_over a" "a_s2 b = a_s2 a"
    "a_pending b = None" "a_middleware b = middleware_wanted (cfg_Categories cfg)" "ok \<longleftrightarrow> \<not> a_over a"
    "\<not> a_over a \<Longrightarrow> wants (a_capture b) = HasCDPCategory (cfg_Categories cfg)"
    using reconcile_views[of "cfg_Categories cfg" "a\<lparr>a_pending := None\<rparr>"]
      reconcile_ok[of "cfg_Categories cfg" "a\<lparr>a_pending := None\<rparr>"]
      reconcile_wants[of "a\<lparr>a_pending := None\<rparr>" "cfg_Categories cfg"]
    by (simp_all add: r)
  show "a_bus (snd (settle d w prev cfg a)) = a_bus a" "a_over (snd (settle d w prev cfg a)) = a_over a"
    "a_s2 (snd (settle d w prev cfg a)) = a_s2 a" "a_pending (snd (settle d w prev cfg a)) = None"
    "\<not> a_over a \<Longrightarrow> a_session (snd (settle d w prev cfg a)) = a_session a"
    "a_over a \<Longrightarrow> a_session (snd (settle d w prev cfg a)) =
       (if w then UpdateConfig (d_seq d (a_bus a)) prev (a_session a) else TS_Stop (a_session a))"
    "\<not> a_over a \<Longrightarrow> a_middleware (snd (settle d w prev cfg a)) = middleware_wanted (cfg_Categories cfg)"
    "\<not> a_over a \<Longrightarrow> wants (a_capture (snd (settle d w prev cfg a))) = HasCDPCategory (cfg_Categories cfg)"
    "fst (settle d w prev cfg a) = Internal500 \<longleftrightarrow> a_over a"
    using v by (simp_all add: settle_def r)
qed

text \<open>What a commit can do.\<close>

definition committed_from :: "bool \<Rightarrow> TelemetryConfig \<Rightarrow> TelemetryConfig \<Rightarrow> ('m, 'b) api \<Rightarrow> ('m, 'b) api \<Rightarrow> bool" where
  "committed_from w prev cfg a a' \<longleftrightarrow>
     user_config cfg \<and> (storageEverStarted a \<longrightarrow> cfg_StoreS2 cfg) \<and> a_pending a' = Some (w, prev, cfg) \<and>
     a_bus a' = a_bus a \<and> a_over a' = a_over a \<and> a_s2 a' = a_s2 a \<and>
     (if w then ts_id (a_session a) \<noteq> [] \<and> prev = Config (d_enum d) (a_session a) \<and>
              a_session a' = UpdateConfig (d_seq d (a_bus a)) cfg (a_session a)
      else \<exists>sid now. sid \<noteq> [] \<and> a_session a' = TS_Start (d_seq d (a_bus a)) now sid cfg (a_session a))"

lemma put_cases:
  assumes "Put_commit d sid now body a = (r, a')" "sess_ok (a_session a)" "sid \<noteq> []"
  obtains (same) "a' = a" "r \<noteq> None"
  | (cleared) "a' = stopTelemetryState d (with_session TS_Stop a)" "r \<noteq> None"
  | (committed) w prev cfg where "r = None" "committed_from w prev cfg a a'"
proof -
  obtain cfg stop where c: "telemetryConfigFromOAPI body = (cfg, stop)" by fastforce
  note act = Active_iff[OF assms(2)]
  show ?thesis
  proof (cases "\<not> cfg_StoreS2 cfg \<and> storageEverStarted a")
    case True
    with assms(1) same show ?thesis by (auto simp: Put_commit_def c)
  next
    case False
    show ?thesis
    proof (cases stop)
      case True
      with assms(1) False same cleared show ?thesis
        by (auto simp: Put_commit_def c Let_def split: if_splits)
    next
      case nostop: False
      have "user_config cfg" using nostop fromOAPI_facts(2)[OF c] by simp
      show ?thesis
      proof (cases "ts_id (a_session a) = []")
        case True
        with False assms(1,3) nostop act \<open>user_config cfg\<close>
        have "r = None" "a' = (with_session (TS_Start (d_seq d (a_bus a)) now sid cfg) a)
            \<lparr>a_pending := Some (False, stop_config False, cfg)\<rparr>"
          by (auto simp: Put_commit_def c Let_def)
        with \<open>user_config cfg\<close> False assms(3)
        have "r = None" "committed_from False (stop_config False) cfg a a'"
          by (auto simp: committed_from_def)
        then show ?thesis by (rule committed)
      next
        case active: False
        with False assms(1) nostop act \<open>user_config cfg\<close>
        have "r = None" "committed_from True (Config (d_enum d) (a_session a)) cfg a a'"
          by (auto simp: Put_commit_def c Let_def committed_from_def)
        then show ?thesis by (rule committed)
      qed
    qed
  qed
qed

lemma patch_cases:
  assumes "Patch_commit d body a = (r, a')" "sess_ok (a_session a)"
  obtains (same) "a' = a" "r \<noteq> None"
  | (cleared) "a' = stopTelemetryState d (with_session TS_Stop a)" "r \<noteq> None"
  | (committed) w prev cfg where "r = None" "committed_from w prev cfg a a'"
proof -
  obtain cfg stop where c: "mergeTelemetryConfig (d_enum d) (Config (d_enum d) (a_session a)) (the body) = (cfg, stop)"
    by fastforce
  note act = Active_iff[OF assms(2)]
  show ?thesis
  proof (cases "TS_Active (a_session a) \<and> \<not> empty_patch body \<and> (cfg_StoreS2 cfg \<or> \<not> storageEverStarted a)")
    case False
    with assms(1) same show ?thesis by (auto simp: Patch_commit_def c Let_def split: if_splits)
  next
    case True
    show ?thesis
    proof (cases stop)
      case stop: True
      with assms(1) True cleared show ?thesis by (auto simp: Patch_commit_def c Let_def)
    next
      case False
      then have "user_config cfg" using merge_facts(2)[OF c enum_ok] by simp
      with True False assms(1) act
      have "r = None" "committed_from True (Config (d_enum d) (a_session a)) cfg a a'"
        by (auto simp: Patch_commit_def c Let_def committed_from_def)
      then show ?thesis by (rule committed)
    qed
  qed
qed

lemma Config_cats: "cats_ok (ts_categories s) \<Longrightarrow> set (cfg_Categories (Config (d_enum d) s)) = ts_categories s"
  using enumeratesD[OF enum_ok, of "ts_categories s"] by (simp add: Config_def cats_ok_def)

lemma commit_inv:
  assumes "api_inv d wants (a, l)" "committed_from w prev cfg a a'"
  shows "api_inv d wants (a', l)"
proof -
  let ?s = "a_session a" and ?t = "a_session a'"
  have inv: "sess_ok ?s" "store_ok d (a, l)" using assms(1) by (simp_all add: api_inv_def)
  have c: "user_config cfg" "storageEverStarted a \<Longrightarrow> cfg_StoreS2 cfg" "a_pending a' = Some (w, prev, cfg)"
    "a_bus a' = a_bus a" "a_s2 a' = a_s2 a"
    using assms(2) by (simp_all add: committed_from_def)
  have started: "storageEverStarted a' = storageEverStarted a" by (simp add: storageEverStarted_def c(5))
  have cats: "cats_ok (categorySet (cfg_Categories cfg))" by (rule categorySet_user(1)[OF c(1)])
  have t: "sess_ok ?t \<and> ts_id ?t \<noteq> [] \<and> ts_categories ?t = categorySet (cfg_Categories cfg) \<and>
      ts_storeS2 ?t = cfg_StoreS2 cfg \<and>
      (ts_storeS2 ?t \<longrightarrow> ts_storeS2 ?s \<and> ts_storeS2After ?t = ts_storeS2After ?s \<or>
         ts_storeS2After ?t = d_seq d (a_bus a)) \<and>
      (w \<longrightarrow> cats_ok (set (cfg_Categories prev)) \<and> cfg_StoreS2 prev = ts_storeS2 ?s \<and> ts_id ?s \<noteq> [])"
  proof (cases w)
    case True
    then have u: "ts_id ?s \<noteq> []" "prev = Config (d_enum d) ?s" "?t = UpdateConfig (d_seq d (a_bus a)) cfg ?s"
      using assms(2) by (simp_all add: committed_from_def)
    have "cats_ok (ts_categories ?s)" using inv(1) u(1) by (simp add: sess_ok_def)
    with Config_cats have "cats_ok (set (cfg_Categories prev))" by (simp add: u(2))
    moreover have "cfg_StoreS2 prev = ts_storeS2 ?s" by (simp add: u(2) Config_def)
    moreover have "sess_ok ?t" unfolding u(3) by (rule sess_ok_ops(2)[OF u(1) cats])
    ultimately show ?thesis using u(1) unfolding u(3) by simp
  next
    case False
    then obtain sid now where u: "sid \<noteq> []" "?t = TS_Start (d_seq d (a_bus a)) now sid cfg ?s"
      using assms(2) by (auto simp: committed_from_def)
    have "sess_ok ?t" unfolding u(2) by (rule sess_ok_ops(1)[OF u(1) c(1)])
    with False u(1) show ?thesis unfolding u(2) by simp
  qed
  have "storageEverStarted a \<Longrightarrow> w \<Longrightarrow> cfg_StoreS2 prev"
    using t inv(2) by (auto simp: store_ok_def storageEverStarted_def split: option.splits)
  with t c(1,3) have "pend_ok a'" by (simp add: pend_ok_def started)
  moreover have "store_ok d (a', l)"
    by (rule store_ok_session[OF inv(2) c(4,5)]) (use t c(2) in blast)+
  moreover have "capture_ok wants a'" using c(3) by (simp add: capture_ok_def)
  ultimately show ?thesis using t by (simp add: api_inv_def)
qed

lemma clear_inv:
  assumes "api_inv d wants (a, l)" "a_pending a = None"
  shows "api_inv d wants (stopTelemetryState d (with_session TS_Stop a), l)"
    and "a_over a \<Longrightarrow> api_inv d wants (with_session TS_Stop a, l)"
proof -
  have inv: "sess_ok (a_session a)" "store_ok d (a, l)" using assms(1) by (simp_all add: api_inv_def)
  have "store_ok d (stopTelemetryState d (with_session TS_Stop a), l)" "store_ok d (with_session TS_Stop a, l)"
    by (rule store_ok_session[OF inv(2)]; simp)+
  then show "api_inv d wants (stopTelemetryState d (with_session TS_Stop a), l)"
    "a_over a \<Longrightarrow> api_inv d wants (with_session TS_Stop a, l)"
    using sess_ok_ops(3)[OF inv(1)] assms(2) by (simp_all add: api_inv_def pend_ok_def capture_ok_def)
qed

lemma settle_inv:
  assumes "api_inv d wants (a, l)" "a_pending a = Some (w, prev, cfg)"
  shows "api_inv d wants (snd (settle d w prev cfg a), l)"
proof -
  let ?a = "snd (settle d w prev cfg a)" and ?s = "a_session a"
  note v = settle_views[where prev = prev and cfg = cfg and a = a]
  have inv: "sess_ok ?s" "store_ok d (a, l)" using assms(1) by (simp_all add: api_inv_def)
  have p: "ts_id ?s \<noteq> []" "user_config cfg" "ts_categories ?s = categorySet (cfg_Categories cfg)"
    "w \<Longrightarrow> cats_ok (set (cfg_Categories prev))" "storageEverStarted a \<Longrightarrow> w \<Longrightarrow> cfg_StoreS2 prev"
    using assms(1) unfolding api_inv_def pend_ok_def fst_conv assms(2) by blast+
  have s: "sess_ok (a_session ?a)"
  proof (cases "a_over a")
    case True
    have "sess_ok (UpdateConfig seq prev ?s)" if w for seq
      using sess_ok_ops(2)[OF p(1)] p(4)[OF that] categorySet_same[OF p(4)[OF that] refl] by simp
    with True inv(1) sess_ok_ops(3) show ?thesis by (simp add: v)
  qed (use inv(1) in \<open>simp add: v\<close>)
  have "store_ok d (?a, l)"
  proof (rule store_ok_session[OF inv(2)])
    assume "storageEverStarted a" "ts_id (a_session ?a) \<noteq> []"
    moreover from this(1) inv(2) p(1) have "ts_storeS2 ?s"
      by (auto simp: store_ok_def storageEverStarted_def split: option.splits)
    ultimately show "ts_storeS2 (a_session ?a)" using p(5) by (cases "a_over a") (auto simp: v split: if_splits)
  next
    assume "ts_storeS2 (a_session ?a)"
    then show "ts_storeS2 ?s \<and> ts_storeS2After (a_session ?a) = ts_storeS2After ?s \<or>
        ts_storeS2After (a_session ?a) = d_seq d (a_bus a)"
      by (cases "a_over a"; cases w) (auto simp: v)
  qed (simp_all add: v)
  moreover have "capture_ok wants ?a"
    using p(1,3) categorySet_user(2,3)[OF p(2)]
    by (auto simp: capture_ok_def v middleware_wanted_def UserCategories_def)
  ultimately show ?thesis using s by (simp add: api_inv_def pend_ok_def v)
qed

lemma publish_inv:
  assumes "api_inv d wants (a, l)" "0 < room (a_bus a)"
    and "TS_Publish (d_pub d) now (a_session a) (a_bus a) ev = (b, r)"
  shows "api_inv d wants
    (a\<lparr>a_bus := b\<rparr>, case r of None \<Rightarrow> l | Some env \<Rightarrow> l @ [(env, ts_storeS2 (a_session a))])"
proof -
  have st: "store_ok d (a, l)" using assms(1) by (simp add: api_inv_def)
  have "store_ok d (a\<lparr>a_bus := b\<rparr>, case r of None \<Rightarrow> l | Some env \<Rightarrow> l @ [(env, ts_storeS2 (a_session a))])"
  proof (cases r)
    case None
    then have "b = a_bus a" using session_publish_none assms(3) by blast
    then have "a\<lparr>a_bus := b\<rparr> = a" by (cases a) simp
    with st None show ?thesis by simp
  next
    case (Some env)
    obtain e where "d_pub d (a_bus a) e = (b, env)" and act: "ts_id (a_session a) \<noteq> []"
      using session_publish_keeps assms(3) Some by blast
    from pub_numbers[OF assms(2) this(1)]
    have n: "env_Seq env = d_seq d b" "unat (d_seq d b) = Suc (unat (d_seq d (a_bus a)))" by simp_all
    then have le: "d_seq d (a_bus a) \<le> d_seq d b" by (simp add: word_le_nat_alt)
    let ?on = "ts_storeS2 (a_session a)"
    have more: "stored_only after (l @ [(env, ?on)])" if "stored_only after l" ?on for after
      using that by (simp add: stored_only_def)
    have all: "\<forall>(e, on) \<in> set l. env_Seq e \<le> d_seq d b"
      using store_okD(1)[OF st] le by (auto intro: order_trans)
    have own: "ts_storeS2After (a_session a) \<le> d_seq d b \<and> stored_only (ts_storeS2After (a_session a)) (l @ [(env, ?on)])"
      if ?on
      using store_okD(2)[OF st that] le more[OF _ that] by (blast intro: order_trans)
    have sink: "s2_afterSeq k \<le> d_seq d b \<and> stored_only (s2_afterSeq k) (l @ [(env, ?on)]) \<and>
        (ts_id (a_session a) \<noteq> [] \<longrightarrow> ?on)" if "a_s2 a = Some k" "s2_everStarted k" for k
      using store_okD(3)[OF st that] le act more by (blast intro: order_trans)
    show ?thesis
      using all own sink n(1) Some by (simp add: store_ok_def)
  qed
  moreover have "pend_ok (a\<lparr>a_bus := b\<rparr>) = pend_ok a" by (rule pend_ok_cong) simp_all
  moreover have "capture_ok wants (a\<lparr>a_bus := b\<rparr>) = capture_ok wants a" by (simp add: capture_ok_def)
  ultimately show ?thesis using assms(1) by (simp add: api_inv_def)
qed

lemma storage_inv:
  assumes "api_inv d wants (a, l)" "a_pending a = None"
  shows "api_inv d wants (reconcileStorage opens a, l)"
proof -
  have st: "store_ok d (a, l)" using assms(1) by (simp add: api_inv_def)
  show ?thesis
  proof (cases "\<exists>k. a_s2 a = Some k \<and> ts_storeS2 (a_session a) \<and> \<not> s2_everStarted k \<and> opens")
    case False
    then have "reconcileStorage opens a = a"
      by (auto simp: reconcileStorage_def StoreS2After_def split: option.splits)
    with assms(1) show ?thesis by simp
  next
    case True
    then have "reconcileStorage opens a =
        a\<lparr>a_s2 := Some \<lparr>s2_everStarted = True, s2_afterSeq = ts_storeS2After (a_session a)\<rparr>\<rparr>"
      by (auto simp: reconcileStorage_def StoreS2After_def)
    moreover have "store_ok d (a\<lparr>a_s2 := Some \<lparr>s2_everStarted = True, s2_afterSeq = ts_storeS2After (a_session a)\<rparr>\<rparr>, l)"
      using store_okD(1,2)[OF st] True by (auto simp: store_ok_def)
    ultimately show ?thesis using assms by (simp add: api_inv_def pend_ok_def capture_ok_def)
  qed
qed

lemma api_inv_step: "api_step d room x y \<Longrightarrow> api_inv d wants x \<Longrightarrow> api_inv d wants y"
proof (induction rule: api_step.induct)
  case (put a sid l now body)
  obtain r a' where c: "Put_commit d sid now body a = (r, a')" by fastforce
  have "sess_ok (a_session a)" using put(3) by (simp add: api_inv_def)
  from c this put(2) have "api_inv d wants (a', l)"
  proof (cases rule: put_cases)
    case same
    with put(3) show ?thesis by simp
  next
    case cleared
    with clear_inv(1)[OF put(3,1)] show ?thesis by simp
  next
    case (committed w prev cfg)
    from put(3) this(2) show ?thesis by (rule commit_inv)
  qed
  then show ?case by (simp add: c)
next
  case (patch a l body)
  obtain r a' where c: "Patch_commit d body a = (r, a')" by fastforce
  have "sess_ok (a_session a)" using patch(2) by (simp add: api_inv_def)
  from c this have "api_inv d wants (a', l)"
  proof (cases rule: patch_cases)
    case same
    with patch(2) show ?thesis by simp
  next
    case cleared
    with clear_inv(1)[OF patch(2,1)] show ?thesis by simp
  next
    case (committed w prev cfg)
    from patch(2) this(2) show ?thesis by (rule commit_inv)
  qed
  then show ?case by (simp add: c)
next
  case (settles a w prev cfg l)
  then show ?case by (intro settle_inv)
next
  case (publish a now ev b r l)
  then show ?case by (intro publish_inv)
next
  case (export a l running)
  show ?case
    by (rule api_inv_cong[OF export]) (simp_all add: reconcileExport_def split: option.split)
next
  case (storage a l opens)
  then show ?case by (intro storage_inv)
next
  case (over a l)
  show ?case by (rule api_inv_cong[OF over]) simp_all
next
  case (shutdown a l)
  then show ?case unfolding Shutdown_telemetry_def by (intro clear_inv(2))
qed

lemma api_inv_new: "\<not> wants m \<Longrightarrow> api_inv d wants (new_api m b has_s2 has_otlp, [])"
  by (simp add: api_inv_def new_api_def sess_ok_def views_inv_def NewTelemetrySession_def pend_ok_def
      store_ok_def capture_ok_def)

lemma api_inv_reachable:
  assumes "api_reachable d room (new_api m b has_s2 has_otlp) x" "\<not> wants m"
  shows "api_inv d wants x"
  using assms(1)
proof (induction rule: api_reachable.induct)
  case init
  show ?case using api_inv_new assms(2) .
next
  case (step x y)
  then show ?case using api_inv_step by blast
qed

text \<open>Applying the configuration a session already has.\<close>

lemma update_again:
  assumes "sess_ok s" "ts_id s \<noteq> []" "categorySet (cfg_Categories cfg) = ts_categories s"
    and "cfg_ExportOTLP cfg = ts_exportOTLP s" "cfg_StoreS2 cfg = ts_storeS2 s"
    and "excludedSet (cfg_ExcludedCdpMethods cfg) = ts_excludedCdp s"
    and "cfg_BrowserSessionID cfg = ts_browserSessionID s" "cfg_BrowserSessionName cfg = ts_browserSessionName s"
  shows "UpdateConfig seq cfg s = s"
    and "\<exists>x. UpdateConfig seq cfg (UpdateConfig seq' cfg' s) = s\<lparr>ts_storeS2After := x\<rparr> \<and>
      (cfg_StoreS2 cfg' \<or> \<not> ts_storeS2 s \<longrightarrow> x = ts_storeS2After s \<or> \<not> ts_storeS2 s)"
proof -
  have v: "ts_active s = Some (ts_categories s)" "ts_excludedCdpActive s = Some (ts_excludedCdp s)"
    using assms(1,2) by (simp_all add: sess_ok_def views_inv_def)
  show "UpdateConfig seq cfg s = s"
    using v assms(2-) by (cases s) (simp add: UpdateConfig_def setActive_def)
  show "\<exists>x. UpdateConfig seq cfg (UpdateConfig seq' cfg' s) = s\<lparr>ts_storeS2After := x\<rparr> \<and>
      (cfg_StoreS2 cfg' \<or> \<not> ts_storeS2 s \<longrightarrow> x = ts_storeS2After s \<or> \<not> ts_storeS2 s)"
    using v assms(2-) by (cases s) (auto simp: UpdateConfig_def setActive_def Let_def)
qed

lemma Config_same:
  assumes "sess_ok s" "ts_id s \<noteq> []"
  shows "categorySet (cfg_Categories (Config (d_enum d) s)) = ts_categories s"
    and "excludedSet (cfg_ExcludedCdpMethods (Config (d_enum d) s)) = ts_excludedCdp s"
proof -
  have ok: "cats_ok (ts_categories s)" using assms by (simp add: sess_ok_def)
  show "categorySet (cfg_Categories (Config (d_enum d) s)) = ts_categories s"
    by (rule categorySet_same[OF ok Config_cats[OF ok]])
  have "ts_excludedCdp s = Some A \<Longrightarrow> finite A \<and> A \<noteq> {}" for A using assms(1) by (simp add: sess_ok_def)
  then show "excludedSet (cfg_ExcludedCdpMethods (Config (d_enum d) s)) = ts_excludedCdp s"
    by (cases "ts_excludedCdp s") (auto simp: Config_def excludedSet_def)
qed

text \<open>The document GET answers with selects the categories of the session again.\<close>

lemma document_again:
  assumes "sess_ok s" "ts_id s \<noteq> []"
  obtains cfg where "telemetryConfigFromOAPI (Some (telemetryConfigToOAPI (Config (d_enum d) s))) = (cfg, False)"
    "categorySet (cfg_Categories cfg) = ts_categories s" "cfg_ExportOTLP cfg = ts_exportOTLP s"
    "cfg_StoreS2 cfg = ts_storeS2 s" "excludedSet (cfg_ExcludedCdpMethods cfg) = ts_excludedCdp s"
    "cfg_BrowserSessionID cfg = ts_browserSessionID s" "cfg_BrowserSessionName cfg = ts_browserSessionName s"
proof -
  let ?c = "Config (d_enum d) s"
  let ?cfg = "?c\<lparr>cfg_Categories := filter (\<lambda>c. c \<in> set (cfg_Categories ?c)) UserCategories\<rparr>"
  have ok: "cats_ok (ts_categories s)" using assms by (simp add: sess_ok_def)
  note cats = Config_cats[OF ok]
  have "\<exists>c \<in> set (cfg_Categories ?c). c \<in> set UserCategories" using ok by (auto simp: cats cats_ok_def)
  then have doc: "telemetryConfigFromOAPI (Some (telemetryConfigToOAPI ?c)) = (?cfg, False)"
    by (rule fromOAPI_of_doc)
  have user: "set (cfg_Categories ?cfg) = ts_categories s \<inter> set UserCategories" by (auto simp: cats)
  have "set (cfg_Categories ?cfg) \<noteq> {}" unfolding user using ok by (simp add: cats_ok_def)
  then have "cfg_Categories ?cfg \<noteq> []" by (simp only: set_empty not_False_eq_True)
  then have uc: "user_config ?cfg" unfolding user_config_def user by blast
  have "c \<in> categorySet (cfg_Categories ?cfg) \<longleftrightarrow> c \<in> ts_categories s" for c
  proof (cases "c \<in> set UserCategories")
    case True
    then show ?thesis using categorySet_user(2)[OF uc] user by blast
  next
    case False
    have "c \<noteq> Monitor \<Longrightarrow> c \<notin> ts_categories s \<and> c \<notin> categorySet (cfg_Categories ?cfg)"
      using False ok categorySet_user(1)[OF uc] by (auto simp: cats_ok_def)
    moreover have "Monitor \<in> categorySet (cfg_Categories ?cfg) \<longleftrightarrow> Monitor \<in> ts_categories s"
      using categorySet_user(3)[OF uc] user ok cdp_user by (auto simp: HasCDP_iff cats_ok_def)
    ultimately show ?thesis by blast
  qed
  then have "categorySet (cfg_Categories ?cfg) = ts_categories s" by blast
  with doc Config_same(2)[OF assms] show ?thesis by (intro that[of ?cfg]) (simp_all add: Config_def)
qed

lemma get_put_same:
  assumes "api_inv d wants (a, l)" "\<not> a_over a" "a_pending a = None" "GetTelemetry d a = Ok200 st"
  shows "\<exists>st' a'. PutTelemetry d sid now (Some (st_Config st)) a = (Ok200 st', a') \<and>
    a_session a' = a_session a \<and> a_bus a' = a_bus a \<and> wants (a_capture a') = wants (a_capture a) \<and>
    a_middleware a' = a_middleware a"
proof -
  let ?s = "a_session a"
  have inv: "sess_ok ?s" "store_ok d (a, l)" "capture_ok wants a" using assms(1) by (simp_all add: api_inv_def)
  have act: "ts_id ?s \<noteq> []" "TS_Active ?s" and st: "st = buildTelemetryResponse d a"
    using assms(4) Active_iff[OF inv(1)] by (auto simp: GetTelemetry_def split: if_splits)
  obtain cfg where c: "telemetryConfigFromOAPI (Some (telemetryConfigToOAPI (Config (d_enum d) ?s))) = (cfg, False)"
    "categorySet (cfg_Categories cfg) = ts_categories ?s" "cfg_ExportOTLP cfg = ts_exportOTLP ?s"
    "cfg_StoreS2 cfg = ts_storeS2 ?s" "excludedSet (cfg_ExcludedCdpMethods cfg) = ts_excludedCdp ?s"
    "cfg_BrowserSessionID cfg = ts_browserSessionID ?s" "cfg_BrowserSessionName cfg = ts_browserSessionName ?s"
    using document_again[OF inv(1) act(1)] .
  have free: "cfg_StoreS2 cfg \<or> \<not> storageEverStarted a"
    using store_okD(3)[OF inv(2)] act(1) c(4) by (auto simp: storageEverStarted_def split: option.splits)
  have same: "UpdateConfig (d_seq d (a_bus a)) cfg ?s = ?s"
    by (rule update_again(1)[OF inv(1) act(1) c(2-7)])
  let ?b = "(with_session (UpdateConfig (d_seq d (a_bus a)) cfg) a)
      \<lparr>a_pending := Some (True, Config (d_enum d) ?s, cfg)\<rparr>"
  have put: "PutTelemetry d sid now (Some (st_Config st)) a = settle d True (Config (d_enum d) ?s) cfg ?b"
    using c(1) free act(2)
    by (auto simp: PutTelemetry_def Put_commit_def st buildTelemetryResponse_def Let_def)
  obtain r a' where ra: "settle d True (Config (d_enum d) ?s) cfg ?b = (r, a')" by fastforce
  have uc: "user_config cfg" using fromOAPI_facts(2)[OF c(1)] by simp
  have over: "\<not> a_over ?b" using assms(2) by simp
  note v = settle_views[where w = True and prev = "Config (d_enum d) ?s" and cfg = cfg and a = ?b]
  have views: "a_session a' = ?s" "a_bus a' = a_bus a" "a_middleware a' = middleware_wanted (cfg_Categories cfg)"
    "wants (a_capture a') = HasCDPCategory (cfg_Categories cfg)"
    using v over ra same by simp_all
  have "\<exists>st'. r = Ok200 st'"
    using ra over reconcile_ok[of "cfg_Categories cfg" "?b\<lparr>a_pending := None\<rparr>"]
    by (auto simp: settle_def split: prod.splits if_splits)
  moreover have "a_middleware a' = a_middleware a" "wants (a_capture a') = wants (a_capture a)"
    using inv(3) assms(2,3) act(1) categorySet_user(2,3)[OF uc] c(2)
    by (simp_all add: views capture_ok_def middleware_wanted_def UserCategories_def)
  ultimately show ?thesis using put ra views by auto
qed

text \<open>The error replies of a PUT that nothing interrupts.\<close>

lemma put_errors:
  assumes "api_inv d wants (a, l)" "a_pending a = None" "PutTelemetry d sid now body a = (r, a')" "sid \<noteq> []"
  shows "(r = Conflict409 \<longleftrightarrow> \<not> storeS2FromOAPI body \<and> storageEverStarted a) \<and>
    (r = Conflict409 \<longrightarrow> a' = a) \<and>
    (r = Internal500 \<longrightarrow> a_over a \<and> TS_Active (a_session a') = TS_Active (a_session a) \<and>
       (TS_Active (a_session a) \<longrightarrow>
          (\<exists>x. a_session a' = (a_session a)\<lparr>ts_storeS2After := x\<rparr> \<and>
             (storeS2FromOAPI body \<longrightarrow> x = ts_storeS2After (a_session a) \<or> \<not> ts_storeS2 (a_session a)))))"
proof -
  let ?s = "a_session a"
  have inv: "sess_ok ?s" using assms(1) by (simp add: api_inv_def)
  note act = Active_iff[OF inv]
  obtain cfg stop where c: "telemetryConfigFromOAPI body = (cfg, stop)" by fastforce
  have store: "cfg_StoreS2 cfg = storeS2FromOAPI body" by (rule fromOAPI_facts(1)[OF c])
  show ?thesis
  proof (cases "(\<not> cfg_StoreS2 cfg \<and> storageEverStarted a) \<or> stop")
    case True
    then show ?thesis using assms(3) store
      by (auto simp: PutTelemetry_def Put_commit_def c Let_def split: if_splits)
  next
    case False
    let ?w = "TS_Active ?s"
    let ?t = "if ?w then UpdateConfig (d_seq d (a_bus a)) cfg ?s else TS_Start (d_seq d (a_bus a)) now sid cfg ?s"
    let ?prev = "if ?w then Config (d_enum d) ?s else stop_config False"
    let ?b = "(with_session (\<lambda>_. ?t) a)\<lparr>a_pending := Some (?w, ?prev, cfg)\<rparr>"
    have "PutTelemetry d sid now body a = settle d ?w ?prev cfg ?b"
      using False by (auto simp: PutTelemetry_def Put_commit_def c Let_def with_session_def)
    then have ra: "settle d ?w ?prev cfg ?b = (r, a')" using assms(3) by simp
    note v = settle_views[where w = ?w and prev = ?prev and cfg = cfg and a = ?b, unfolded ra fst_conv snd_conv]
    have no: "r \<noteq> Conflict409" using ra by (auto simp: settle_def split: prod.splits if_splits)
    have roll: "TS_Active (a_session a') = TS_Active ?s \<and> (TS_Active ?s \<longrightarrow>
          (\<exists>x. a_session a' = ?s\<lparr>ts_storeS2After := x\<rparr> \<and>
             (storeS2FromOAPI body \<longrightarrow> x = ts_storeS2After ?s \<or> \<not> ts_storeS2 ?s)))"
      if "a_over a"
    proof (cases ?w)
      case True
      then have id: "ts_id ?s \<noteq> []" using act by simp
      have s': "a_session a' = UpdateConfig (d_seq d (a_bus a)) ?prev (UpdateConfig (d_seq d (a_bus a)) cfg ?s)"
        using v(6) that True by simp
      have prev: "?prev = Config (d_enum d) ?s" using True by simp
      have "\<exists>x. a_session a' = ?s\<lparr>ts_storeS2After := x\<rparr> \<and>
          (cfg_StoreS2 cfg \<or> \<not> ts_storeS2 ?s \<longrightarrow> x = ts_storeS2After ?s \<or> \<not> ts_storeS2 ?s)"
        unfolding s' prev
        by (rule update_again(2)[OF inv id Config_same(1)[OF inv id] _ _ Config_same(2)[OF inv id]])
          (simp_all add: Config_def)
      then obtain x where x: "a_session a' = ?s\<lparr>ts_storeS2After := x\<rparr>"
        "cfg_StoreS2 cfg \<or> \<not> ts_storeS2 ?s \<longrightarrow> x = ts_storeS2After ?s \<or> \<not> ts_storeS2 ?s"
        by blast
      have "TS_Active (a_session a')" using x(1) True by (simp add: TS_Active_def)
      with x True store show ?thesis by auto
    next
      case False
      then have "a_session a' = TS_Stop ?t" using v(6) that by simp
      then have "\<not> TS_Active (a_session a')" by (simp add: TS_Stop_def setActive_def TS_Active_def)
      with False show ?thesis by simp
    qed
    have "r = Internal500 \<Longrightarrow> a_over a" using v(9) by simp
    with no roll False store show ?thesis by blast
  qed
qed

end

section \<open>The monitor's switch and the event stream as the interface\<close>

definition monitor_wants :: "capture \<Rightarrow> bool" where
  "monitor_wants m = switch_on (m_desiredTelemetry m)"

definition service_deps ::
  "(Envelope \<Rightarrow> string option) \<Rightarrow> (category \<Rightarrow> nat) \<Rightarrow> (capture, EventStream) deps" where
  "service_deps marshal rank =
     \<lparr>d_pub = ES_Publish marshal, d_seq = es_seq, d_lost = es_dropped, d_set = SetTelemetry,
      d_enum = order_by rank\<rparr>"

lemma SetTelemetry_wants: "monitor_wants (fst (SetTelemetry enabled m)) = enabled"
proof -
  have e: "even (x AND NOT 1)" for x :: uint64
    using clear_low[of x] by (simp only: even_word) simp
  have "even ((x AND NOT 1) + 2)" for x :: uint64 using e[of x] by simp
  then have "switch_on (next_state b x) = b" for b x
    by (simp add: next_state_def Let_def switch_on_iff even_word[symmetric] even_or_iff)
  then show ?thesis by (auto simp: SetTelemetry_def commitTelemetry_def monitor_wants_def signalTelemetry_def Let_def)
qed

interpretation service: telemetry_api "service_deps marshal rank" es_room monitor_wants
  for marshal rank
proof (unfold_locales)
  fix es env es' env'
  assume "0 < es_room es" "d_pub (service_deps marshal rank) es env = (es', env')"
  then show "env_Seq env' = d_seq (service_deps marshal rank) es' \<and>
      unat (d_seq (service_deps marshal rank) es') = Suc (unat (d_seq (service_deps marshal rank) es)) \<and>
      Suc (es_room es') = es_room es"
    using stream.pub_numbers by (simp add: service_deps_def)
next
  fix es env es' env'
  assume "d_pub (service_deps marshal rank) es env = (es', env')"
  then show "ev_Type (env_Event env') = ev_Type (env_Event env) \<and>
      ev_Category (env_Event env') = ev_Category (env_Event env) \<and>
      ev_Source (env_Event env') = ev_Source (env_Event env)"
    using stream.pub_keeps by (simp add: service_deps_def)
next
  show "snd (d_set (service_deps marshal rank) e m)" for e m
    by (simp add: service_deps_def SetTelemetry_def Let_def split_def)
  show "monitor_wants (fst (d_set (service_deps marshal rank) e m)) = e" for e m
    by (simp add: service_deps_def SetTelemetry_wants)
  show "enumerates (d_enum (service_deps marshal rank))" by (simp add: service_deps_def)
qed

section \<open>Properties\<close>

definition service_api :: "EventStream \<Rightarrow> bool \<Rightarrow> bool \<Rightarrow> (capture, EventStream) api" where
  "service_api es has_s2 has_otlp = new_api service_monitor es has_s2 has_otlp"

lemma service_inv:
  assumes "api_reachable (service_deps marshal rank) es_room (service_api es has_s2 has_otlp) x"
  shows "api_inv (service_deps marshal rank) monitor_wants x"
proof -
  have "\<not> monitor_wants service_monitor" by (simp add: start_state monitor_wants_def switch_on_def)
  with service.api_inv_reachable[OF assms[unfolded service_api_def]] show ?thesis .
qed

text \<open>
  C21. The durable sink stores only what was captured with storage on. In every interleaving of PUT
  and PATCH requests (with their failures and rollbacks), publications, reconciliations of the
  sinks and shutdown: once the storage sink is open, every event published above its start was
  published while the session had storage on, and an active session still has it on.
\<close>

theorem sink_stores_only_consented:
  assumes "api_reachable (service_deps marshal rank) es_room (service_api es has_s2 has_otlp) (a, log)"
    and "a_s2 a = Some k" "s2_everStarted k"
  shows "(\<forall>(env, on) \<in> set log. s2_afterSeq k < env_Seq env \<longrightarrow> on) \<and>
    (TS_Active (a_session a) \<longrightarrow> ts_storeS2 (a_session a))"
proof -
  have inv: "store_ok (service_deps marshal rank) (a, log)" "sess_ok (a_session a)"
    using service_inv[OF assms(1)] by (simp_all add: api_inv_def)
  from store_okD(3)[OF inv(1) assms(2,3)] show ?thesis
    by (simp add: stored_only_def Active_iff[OF inv(2)])
qed

text \<open>
  C22. What is captured follows the configuration. In every reachable state in which no request is
  under way and the service is not shutting down, the monitor is asked to capture exactly when a
  CDP category is enabled, the monitor category is enabled exactly then, the api-call middleware
  is on exactly when the control or the platform category is, and GET answers 404 exactly when
  nothing is enabled.
\<close>

theorem capture_follows_config:
  assumes "api_reachable (service_deps marshal rank) es_room (service_api es has_s2 has_otlp) (a, log)"
    and "\<not> a_over a" "a_pending a = None"
  shows "(monitor_wants (a_capture a) \<longleftrightarrow> (\<exists>c \<in> cdpCategories. CategoryEnabled (a_session a) c)) \<and>
    (CategoryEnabled (a_session a) Monitor \<longleftrightarrow> monitor_wants (a_capture a)) \<and>
    (a_middleware a \<longleftrightarrow> CategoryEnabled (a_session a) Control \<or> CategoryEnabled (a_session a) Platform) \<and>
    (GetTelemetry (service_deps marshal rank) a = NotFound404 \<longleftrightarrow> (\<forall>c. \<not> CategoryEnabled (a_session a) c))"
proof -
  let ?s = "a_session a"
  have inv: "sess_ok ?s" "capture_ok monitor_wants a"
    using service_inv[OF assms(1)] by (simp_all add: api_inv_def)
  have en: "CategoryEnabled ?s c \<longleftrightarrow> ts_id ?s \<noteq> [] \<and> c \<in> ts_categories ?s" for c
    using inv(1) by (simp add: sess_ok_def views_inv_def CategoryEnabled_def)
  have cats: "ts_id ?s \<noteq> [] \<Longrightarrow> cats_ok (ts_categories ?s)" using inv(1) by (simp add: sess_ok_def)
  have "(\<exists>c \<in> cdpCategories. CategoryEnabled ?s c) \<longleftrightarrow> ts_id ?s \<noteq> [] \<and> Monitor \<in> ts_categories ?s"
    using cats by (auto simp: en cats_ok_def)
  moreover have "(\<forall>c. \<not> CategoryEnabled ?s c) \<longleftrightarrow> ts_id ?s = []"
    using cats by (auto simp: en cats_ok_def)
  ultimately show ?thesis
    using inv(2) assms(2,3) Active_iff[OF inv(1)] by (auto simp: capture_ok_def en GetTelemetry_def)
qed

text \<open>
  C23. PUT of what GET returned changes nothing. In every reachable state with no request under way
  and the service running, if GET answers 200, a PUT of the configuration it returned answers 200
  and leaves the session, the stream, the capture switch and the middleware as they were; in
  particular it never meets the storage conflict and never moves the storage boundary.
\<close>

theorem put_of_get_is_noop:
  assumes "api_reachable (service_deps marshal rank) es_room (service_api es has_s2 has_otlp) (a, log)"
    and "\<not> a_over a" "a_pending a = None" "GetTelemetry (service_deps marshal rank) a = Ok200 st"
  shows "\<exists>st' a'. PutTelemetry (service_deps marshal rank) sid now (Some (st_Config st)) a = (Ok200 st', a') \<and>
    a_session a' = a_session a \<and> a_bus a' = a_bus a \<and>
    monitor_wants (a_capture a') = monitor_wants (a_capture a) \<and> a_middleware a' = a_middleware a"
  by (rule service.get_put_same[OF service_inv[OF assms(1)] assms(2-4)])

text \<open>
  C24. The error replies of PUT. 409 is answered exactly when the request switches storage off and
  the sink has ever opened, and then nothing has changed. 500 is answered only while the service
  shuts down; a session that was inactive is inactive again and one that was active is what it was,
  up to the storage boundary, which stays too unless the request switched storage off.
\<close>

theorem put_error_replies:
  assumes "api_reachable (service_deps marshal rank) es_room (service_api es has_s2 has_otlp) (a, log)"
    and "a_pending a = None" "PutTelemetry (service_deps marshal rank) sid now body a = (r, a')" "sid \<noteq> []"
  shows "(r = Conflict409 \<longleftrightarrow> \<not> storeS2FromOAPI body \<and> storageEverStarted a) \<and>
    (r = Conflict409 \<longrightarrow> a' = a) \<and>
    (r = Internal500 \<longrightarrow> a_over a \<and> TS_Active (a_session a') = TS_Active (a_session a) \<and>
       (TS_Active (a_session a) \<longrightarrow>
          (\<exists>x. a_session a' = (a_session a)\<lparr>ts_storeS2After := x\<rparr> \<and>
             (storeS2FromOAPI body \<longrightarrow> x = ts_storeS2After (a_session a) \<or> \<not> ts_storeS2 (a_session a)))))"
  by (rule service.put_errors[OF service_inv[OF assms(1)] assms(2-4)])

text \<open>
  Witnesses: the service starts on a VM with a storage sink, a PUT without a body switches the
  default categories on, and the sink opens.
\<close>

definition deps1 :: "(capture, EventStream) deps" where
  "deps1 = service_deps (\<lambda>_. None) (\<lambda>_. 0)"

definition cfg1 :: TelemetryConfig where
  "cfg1 = fst (telemetryConfigFromOAPI None)"

definition api0 :: "(capture, EventStream) api" where "api0 = service_api es_fresh True False"
definition api1 :: "(capture, EventStream) api" where "api1 = snd (Put_commit deps1 ''t'' 5 None api0)"
definition api2 :: "(capture, EventStream) api" where
  "api2 = snd (settle deps1 False (stop_config False) cfg1 api1)"
definition api3 :: "(capture, EventStream) api" where "api3 = reconcileStorage True api2"

lemma cfg1_eq: "telemetryConfigFromOAPI None = (cfg1, False)" "cfg_StoreS2 cfg1"
  by (simp_all add: cfg1_def telemetryConfigFromOAPI_def exportOTLPFromOAPI_def storeS2FromOAPI_def
      browserSessionFromOAPI_def)

lemma api0_eq: "\<not> TS_Active (a_session api0)" "a_pending api0 = None" "\<not> a_over api0"
  "a_s2 api0 = Some \<lparr>s2_everStarted = False, s2_afterSeq = 0\<rparr>"
  by (simp_all add: api0_def service_api_def new_api_def NewTelemetrySession_def TS_Active_def)

lemma api1_eq: "api1 = (with_session (TS_Start (d_seq deps1 (a_bus api0)) 5 ''t'' cfg1) api0)
    \<lparr>a_pending := Some (False, stop_config False, cfg1)\<rparr>"
  by (simp add: api1_def Put_commit_def cfg1_eq api0_eq)

lemma api2_eq: "a_session api2 = TS_Start (d_seq deps1 (a_bus api0)) 5 ''t'' cfg1 (a_session api0)"
  "a_pending api2 = None" "\<not> a_over api2" "a_s2 api2 = Some \<lparr>s2_everStarted = False, s2_afterSeq = 0\<rparr>"
proof -
  note v = service.settle_views[where w = False and prev = "stop_config False" and cfg = cfg1 and a = api1,
      of "\<lambda>_. None" "\<lambda>_. 0", folded deps1_def api2_def]
  have "\<not> a_over api1" "a_s2 api1 = a_s2 api0"
    "a_session api1 = TS_Start (d_seq deps1 (a_bus api0)) 5 ''t'' cfg1 (a_session api0)"
    by (simp_all add: api1_eq api0_eq with_session_def)
  with v api0_eq(4) show "a_session api2 = TS_Start (d_seq deps1 (a_bus api0)) 5 ''t'' cfg1 (a_session api0)"
    "a_pending api2 = None" "\<not> a_over api2" "a_s2 api2 = Some \<lparr>s2_everStarted = False, s2_afterSeq = 0\<rparr>"
    by (simp_all add: api2_def)
qed

lemma api3_eq: "a_session api3 = a_session api2" "a_pending api3 = None" "\<not> a_over api3"
  "\<exists>k. a_s2 api3 = Some k \<and> s2_everStarted k"
  by (simp_all add: api3_def reconcileStorage_def StoreS2After_def api2_eq cfg1_eq)

lemma api3_active: "ts_id (a_session api3) = ''t''" "TS_Active (a_session api3)"
  by (simp_all add: api3_eq api2_eq TS_Active_def) (simp add: TS_Start_def setActive_def)

lemma api3_reachable: "api_reachable deps1 es_room (service_api es_fresh True False) (api3, [])"
proof -
  have r0: "api_reachable deps1 es_room (service_api es_fresh True False) (api0, [])"
    unfolding api0_def by (rule api_reachable.init)
  have r1: "api_reachable deps1 es_room (service_api es_fresh True False) (api1, [])"
    unfolding api1_def by (rule api_reachable.step[OF r0 api_step.put]) (simp_all add: api0_eq)
  have "a_pending api1 = Some (False, stop_config False, cfg1)" by (simp add: api1_eq)
  then have r2: "api_reachable deps1 es_room (service_api es_fresh True False) (api2, [])"
    unfolding api2_def by (rule api_reachable.step[OF r1 api_step.settles])
  show ?thesis
    unfolding api3_def by (rule api_reachable.step[OF r2 api_step.storage]) (simp add: api2_eq)
qed

lemma sink_stores_only_consented_witness: "storageEverStarted api3 \<and> ts_storeS2 (a_session api3)"
proof -
  obtain k where k: "a_s2 api3 = Some k" "s2_everStarted k" using api3_eq(4) by blast
  from sink_stores_only_consented[OF api3_reachable[unfolded deps1_def] k] k api3_active(2)
  show ?thesis by (simp add: storageEverStarted_def)
qed

lemma capture_follows_config_witness:
  "a_middleware api3 \<and> (\<exists>c. CategoryEnabled (a_session api3) c)"
proof -
  have "Control \<in> ts_categories (a_session api3)"
    by (simp add: api3_eq api2_eq cfg1_def telemetryConfigFromOAPI_def exportOTLPFromOAPI_def
        storeS2FromOAPI_def browserSessionFromOAPI_def categorySet_def DefaultCategories_def)
  moreover have "sess_ok (a_session api3)"
    using service_inv[OF api3_reachable[unfolded deps1_def]] by (simp add: api_inv_def)
  ultimately have "CategoryEnabled (a_session api3) Control"
    using api3_active(1) by (simp add: sess_ok_def views_inv_def CategoryEnabled_def)
  with capture_follows_config[OF api3_reachable[unfolded deps1_def] api3_eq(3,2)] show ?thesis by blast
qed

lemma put_of_get_is_noop_witness:
  "\<exists>st st' a'. GetTelemetry deps1 api3 = Ok200 st \<and>
     PutTelemetry deps1 ''u'' 9 (Some (st_Config st)) api3 = (Ok200 st', a') \<and> a_session a' = a_session api3"
proof -
  have g: "GetTelemetry deps1 api3 = Ok200 (buildTelemetryResponse deps1 api3)"
    using api3_active(2) by (simp add: GetTelemetry_def)
  from put_of_get_is_noop[OF api3_reachable[unfolded deps1_def] api3_eq(3,2) g[unfolded deps1_def], of "''u''" 9] g
  show ?thesis unfolding deps1_def by blast
qed

text \<open>A PUT that switches storage off is refused once the sink is open.\<close>

lemma put_error_replies_witness:
  "PutTelemetry deps1 ''u'' 9 (Some (disabledConfig False)) api3 = (Conflict409, api3)"
proof -
  obtain r a' where p: "PutTelemetry deps1 ''u'' 9 (Some (disabledConfig False)) api3 = (r, a')" by fastforce
  have "\<not> storeS2FromOAPI (Some (disabledConfig False))" by (simp add: storeS2FromOAPI_def)
  moreover have "storageEverStarted api3" using api3_eq(4) by (auto simp: storageEverStarted_def)
  ultimately show ?thesis
    using put_error_replies[OF api3_reachable[unfolded deps1_def] api3_eq(2) p[unfolded deps1_def]] p by simp
qed

end
