(* ===== verification/ScaleToZero.thy ===== *)
theory ScaleToZero
  imports Prelude
begin

text \<open>
  Keeping the machine awake (\<open>lib/scaletozero/scaletozero.go\<close>, the hold of
  \<open>lib/scaletozero/middleware.go\<close>): the control-file controller, the wrapper that calls a
  controller once, the reference-counting controller with its pin and its cooldown timer, and the
  holds that requests take. A controller is used through the interface \<open>controller\<close>; every method
  of the counting controller and the body of its timer run under one mutex and are one step each.
\<close>

section \<open>The control file\<close>

text \<open>
  What the next call of the operating system does is part of the state: an empty list means that
  all further calls succeed. \<open>uk_value\<close> is the content of the file. It is opened with
  \<open>O_TRUNC\<close>: a write that fails after that leaves the file empty. \<open>uk_torn\<close> records, for the
  statements, that the last call that opened the file failed like this; the code only logs it.
\<close>

datatype os_fault = NoFault | StatFault | OpenFault | WriteFault

record unikraftController =
  uk_exists :: bool
  uk_value :: string
  uk_faults :: "os_fault list"
  uk_torn :: bool

definition uk_write :: "string \<Rightarrow> unikraftController \<Rightarrow> unikraftController \<times> bool" where
  "uk_write v c =
     (let fault = (case uk_faults c of [] \<Rightarrow> NoFault | f # _ \<Rightarrow> f);
          c = c\<lparr>uk_faults := tl (uk_faults c)\<rparr>
      in if fault = StatFault then (c, False)
         else if \<not> uk_exists c then (c, True)
         else if fault = OpenFault then (c, False)
         else if fault = WriteFault then (c\<lparr>uk_value := [], uk_torn := True\<rparr>, False)
         else (c\<lparr>uk_value := v, uk_torn := False\<rparr>, True))"

definition uk_Disable :: "unikraftController \<Rightarrow> unikraftController \<times> bool" where
  "uk_Disable c = uk_write ''+'' c"

definition uk_Enable :: "unikraftController \<Rightarrow> unikraftController \<times> bool" where
  "uk_Enable c = uk_write ''-'' c"

definition uk_off :: "unikraftController \<Rightarrow> bool" where
  "uk_off c \<longleftrightarrow> \<not> uk_exists c \<or> uk_value c = ''+''"

text \<open>Switched off, or left empty by a failed write and not written since.\<close>

definition uk_kept :: "unikraftController \<Rightarrow> bool" where
  "uk_kept c \<longleftrightarrow> uk_off c \<or> uk_value c = [] \<and> uk_torn c"

section \<open>Oncer\<close>

text \<open>The results of the first calls; \<open>None\<close> before them. The flag is false for an error.\<close>

record Oncer =
  disableOnce :: "bool option"
  enableOnce :: "bool option"

definition NewOncer :: Oncer where
  "NewOncer = \<lparr>disableOnce = None, enableOnce = None\<rparr>"

definition Oncer_Disable ::
  "('c \<Rightarrow> 'c \<times> bool) \<Rightarrow> Oncer \<times> 'c \<Rightarrow> (Oncer \<times> 'c) \<times> bool" where
  "Oncer_Disable disable = (\<lambda>(o1, c).
     (case disableOnce o1 of
        Some ok \<Rightarrow> ((o1, c), ok)
      | None \<Rightarrow> (let (c, ok) = disable c in ((o1\<lparr>disableOnce := Some ok\<rparr>, c), ok))))"

definition Oncer_Enable ::
  "('c \<Rightarrow> 'c \<times> bool) \<Rightarrow> Oncer \<times> 'c \<Rightarrow> (Oncer \<times> 'c) \<times> bool" where
  "Oncer_Enable enable = (\<lambda>(o1, c).
     (case enableOnce o1 of
        Some ok \<Rightarrow> ((o1, c), ok)
      | None \<Rightarrow> (let (c, ok) = enable c in ((o1\<lparr>enableOnce := Some ok\<rparr>, c), ok))))"

text \<open>Later calls repeat the first result and leave the wrapped controller alone.\<close>

lemma Oncer_Disable_again:
  "Oncer_Disable disable (o1, c) = ((o2, c2), ok) \<Longrightarrow> Oncer_Disable disable (o2, c3) = ((o2, c3), ok)"
  by (auto simp: Oncer_Disable_def split: option.splits prod.splits)

lemma Oncer_Enable_again:
  "Oncer_Enable enable (o1, c) = ((o2, c2), ok) \<Longrightarrow> Oncer_Enable enable (o2, c3) = ((o2, c3), ok)"
  by (auto simp: Oncer_Enable_def split: option.splits prod.splits)

section \<open>The debounced controller\<close>

text \<open>
  Besides the fields of the struct, \<open>armed\<close> holds the timers that wait, \<open>fired\<close> those whose
  function was started and waits for the mutex, \<open>nextTimer\<close> the identity of the next one.
  \<open>Stop\<close> does nothing to a timer that has fired.
\<close>

record DebouncedController =
  cooldown :: int
  disabled :: bool
  activeCount :: int
  pinned :: bool
  reenableTimer :: "nat option"
  armed :: "nat list"
  fired :: "nat list"
  nextTimer :: nat

definition NewDebouncedControllerWithCooldown :: "int \<Rightarrow> DebouncedController" where
  "NewDebouncedControllerWithCooldown cd =
     \<lparr>cooldown = cd, disabled = False, activeCount = 0, pinned = False, reenableTimer = None,
      armed = [], fired = [], nextTimer = 0\<rparr>"

definition stopTimer :: "DebouncedController \<Rightarrow> DebouncedController" where
  "stopTimer d =
     (case reenableTimer d of
        None \<Rightarrow> d
      | Some t \<Rightarrow> d\<lparr>armed := removeAll t (armed d), reenableTimer := None\<rparr>)"

definition maybeReenable ::
  "('c \<Rightarrow> 'c \<times> bool) \<Rightarrow> DebouncedController \<times> 'c \<Rightarrow> (DebouncedController \<times> 'c) \<times> bool" where
  "maybeReenable enable = (\<lambda>(d, c).
     if activeCount d > 0 \<or> pinned d \<or> \<not> disabled d then ((d, c), True)
     else if cooldown d \<le> 0 then
       (let (c, ok) = enable c in
        if \<not> ok then ((d, c), False) else ((d\<lparr>disabled := False\<rparr>, c), True))
     else ((d\<lparr>reenableTimer := Some (nextTimer d), armed := armed d @ [nextTimer d],
              nextTimer := Suc (nextTimer d)\<rparr>, c), True))"

definition DC_Disable ::
  "('c \<Rightarrow> 'c \<times> bool) \<Rightarrow> DebouncedController \<times> 'c \<Rightarrow> (DebouncedController \<times> 'c) \<times> bool" where
  "DC_Disable disable = (\<lambda>(d, c).
     let d = stopTimer d;
         d = d\<lparr>activeCount := activeCount d + 1\<rparr>
     in if disabled d then ((d, c), True)
        else let (c, ok) = disable c in
          if \<not> ok then ((d\<lparr>activeCount := activeCount d - 1\<rparr>, c), False)
          else ((d\<lparr>disabled := True\<rparr>, c), True))"

definition DC_Enable ::
  "('c \<Rightarrow> 'c \<times> bool) \<Rightarrow> DebouncedController \<times> 'c \<Rightarrow> (DebouncedController \<times> 'c) \<times> bool" where
  "DC_Enable enable = (\<lambda>(d, c).
     maybeReenable enable
       (if activeCount d > 0 then d\<lparr>activeCount := activeCount d - 1\<rparr> else d, c))"

definition Pin ::
  "('c \<Rightarrow> 'c \<times> bool) \<Rightarrow> DebouncedController \<times> 'c \<Rightarrow> (DebouncedController \<times> 'c) \<times> bool" where
  "Pin disable = (\<lambda>(d, c).
     let d = stopTimer d in
     if pinned d then ((d, c), True)
     else if \<not> disabled d then
       (let (c, ok) = disable c in
        if \<not> ok then ((d, c), False)
        else ((d\<lparr>disabled := True, pinned := True\<rparr>, c), True))
     else ((d\<lparr>pinned := True\<rparr>, c), True))"

definition Unpin ::
  "('c \<Rightarrow> 'c \<times> bool) \<Rightarrow> DebouncedController \<times> 'c \<Rightarrow> (DebouncedController \<times> 'c) \<times> bool" where
  "Unpin enable = (\<lambda>(d, c).
     if \<not> pinned d then ((d, c), True)
     else let ((d, c), ok) = maybeReenable enable (d\<lparr>pinned := False\<rparr>, c) in
       if \<not> ok then ((d\<lparr>pinned := True\<rparr>, c), False) else ((d, c), True))"

text \<open>The runtime starts the function of an armed timer; the function then takes the mutex.\<close>

definition timer_fires :: "nat \<Rightarrow> DebouncedController \<Rightarrow> DebouncedController" where
  "timer_fires t d =
     (if t \<in> set (armed d) then d\<lparr>armed := removeAll t (armed d), fired := fired d @ [t]\<rparr> else d)"

definition timer_runs ::
  "('c \<Rightarrow> 'c \<times> bool) \<Rightarrow> nat \<Rightarrow> DebouncedController \<times> 'c \<Rightarrow> DebouncedController \<times> 'c" where
  "timer_runs enable t = (\<lambda>(d, c).
     if t \<notin> set (fired d) then (d, c)
     else let d = d\<lparr>fired := remove1 t (fired d)\<rparr> in
       if activeCount d > 0 \<or> pinned d \<or> \<not> disabled d then (d, c)
       else let (c, ok) = enable c in (if ok then d\<lparr>disabled := False\<rparr> else d, c))"

section \<open>Holds of responses\<close>

text \<open>
  \<open>toRelease\<close> counts the calls of \<open>finish\<close> that have released the hold's mutex and still have to call
  \<open>release\<close>, which is \<open>Enable\<close> of the controller.
\<close>

record responseHold =
  handlerDone :: bool
  connectionDone :: bool
  released :: bool
  toRelease :: nat

definition newResponseHold :: responseHold where
  "newResponseHold = \<lparr>handlerDone = False, connectionDone = False, released = False, toRelease = 0\<rparr>"

text \<open>\<open>finish\<close>: the second component tells whether the hold is released by this call.\<close>

definition finish :: "bool \<Rightarrow> responseHold \<Rightarrow> responseHold \<times> bool" where
  "finish handler h =
     (let h = (if handler then h\<lparr>handlerDone := True\<rparr> else h\<lparr>connectionDone := True\<rparr>);
          release = \<not> released h \<and> handlerDone h \<and> connectionDone h
      in (if release then h\<lparr>released := True\<rparr> else h, release))"

definition finishHandler :: "responseHold \<Rightarrow> responseHold \<times> bool" where
  "finishHandler h = finish True h"

definition finishConnection :: "responseHold \<Rightarrow> responseHold \<times> bool" where
  "finishConnection h = finish False h"

section \<open>The whole: requests, pins and timers\<close>

text \<open>
  A request takes a hold when \<open>Disable\<close> succeeds and is refused otherwise; its handler and its
  connection finish in any order, either of them possibly more than once. The call that finds both
  done releases the hold, and in a later step of its own tells the controller. \<open>holds\<close> maps the
  requests that were admitted to their holds.
\<close>

datatype stz_op =
    Arrive nat
  | HandlerDone nat
  | ConnectionDone nat
  | ReleaseRuns nat
  | PinOp
  | UnpinOp
  | TimerFires nat
  | TimerRuns nat

type_synonym 'c stz_state = "(DebouncedController \<times> 'c) \<times> (nat \<times> responseHold) list"

definition set_hold :: "nat \<Rightarrow> responseHold \<Rightarrow> (nat \<times> responseHold) list \<Rightarrow> (nat \<times> responseHold) list" where
  "set_hold r h holds = map (\<lambda>(q, g). (q, if q = r then h else g)) holds"

definition finish_hold :: "(responseHold \<Rightarrow> responseHold \<times> bool) \<Rightarrow> responseHold \<Rightarrow> responseHold" where
  "finish_hold fin h =
     (let (h, release) = fin h in if release then h\<lparr>toRelease := toRelease h + 1\<rparr> else h)"

definition finish_request ::
  "(responseHold \<Rightarrow> responseHold \<times> bool) \<Rightarrow> nat \<Rightarrow> 'c stz_state \<Rightarrow> 'c stz_state" where
  "finish_request fin r = (\<lambda>(dc, holds).
     (case map_of holds r of
        None \<Rightarrow> (dc, holds)
      | Some h \<Rightarrow> (dc, set_hold r (finish_hold fin h) holds)))"

definition release_runs :: "('c \<Rightarrow> 'c \<times> bool) \<Rightarrow> nat \<Rightarrow> 'c stz_state \<Rightarrow> 'c stz_state" where
  "release_runs enable r = (\<lambda>(dc, holds).
     (case map_of holds r of
        None \<Rightarrow> (dc, holds)
      | Some h \<Rightarrow>
          if toRelease h = 0 then (dc, holds)
          else (fst (DC_Enable enable dc), set_hold r (h\<lparr>toRelease := toRelease h - 1\<rparr>) holds)))"

fun stz_step ::
  "('c \<Rightarrow> 'c \<times> bool) \<Rightarrow> ('c \<Rightarrow> 'c \<times> bool) \<Rightarrow> 'c stz_state \<Rightarrow> stz_op \<Rightarrow> 'c stz_state" where
  "stz_step disable enable (dc, holds) (Arrive r) =
     (if map_of holds r \<noteq> None then (dc, holds)
      else let (dc, ok) = DC_Disable disable dc in
        (dc, if ok then (r, newResponseHold) # holds else holds))"
| "stz_step disable enable st (HandlerDone r) = finish_request finishHandler r st"
| "stz_step disable enable st (ConnectionDone r) = finish_request finishConnection r st"
| "stz_step disable enable st (ReleaseRuns r) = release_runs enable r st"
| "stz_step disable enable (dc, holds) PinOp = (fst (Pin disable dc), holds)"
| "stz_step disable enable (dc, holds) UnpinOp = (fst (Unpin enable dc), holds)"
| "stz_step disable enable ((d, c), holds) (TimerFires t) = ((timer_fires t d, c), holds)"
| "stz_step disable enable (dc, holds) (TimerRuns t) = (timer_runs enable t dc, holds)"

text \<open>A hold is open until both its handler and its connection are done; then its release is due.\<close>

definition hold_open :: "responseHold \<Rightarrow> bool" where
  "hold_open h \<longleftrightarrow> \<not> (handlerDone h \<and> connectionDone h)"

definition open_holds :: "(nat \<times> responseHold) list \<Rightarrow> nat" where
  "open_holds holds = length (filter (\<lambda>(r, h). hold_open h) holds)"

definition due_releases :: "(nat \<times> responseHold) list \<Rightarrow> nat" where
  "due_releases holds = sum_list (map (\<lambda>(r, h). toRelease h) holds)"

text \<open>
  The safety of the counting controller: while something holds it, scale-to-zero is off. \<open>off\<close>
  reads the state of the controller underneath.
\<close>

definition safe :: "('c \<Rightarrow> bool) \<Rightarrow> DebouncedController \<times> 'c \<Rightarrow> bool" where
  "safe off = (\<lambda>(d, c). (disabled d \<longrightarrow> off c) \<and> (activeCount d > 0 \<or> pinned d \<longrightarrow> disabled d) \<and>
     0 \<le> activeCount d)"

text \<open>At most one timer waits, only while nothing holds; an idle machine that is kept awake has one.\<close>

definition timers_ok :: "DebouncedController \<Rightarrow> bool" where
  "timers_ok d \<longleftrightarrow>
     length (armed d) \<le> 1 \<and> (\<forall>t \<in> set (armed d). reenableTimer d = Some t) \<and>
     (activeCount d > 0 \<or> pinned d \<longrightarrow> armed d = [])"

definition idle_ok :: "DebouncedController \<Rightarrow> bool" where
  "idle_ok d \<longleftrightarrow> (activeCount d \<le> 0 \<and> \<not> pinned d \<and> disabled d \<longrightarrow> armed d \<noteq> [] \<or> fired d \<noteq> [])"

lemma stopTimer_frame [simp]:
  "disabled (stopTimer d) = disabled d" "activeCount (stopTimer d) = activeCount d"
  "pinned (stopTimer d) = pinned d" "cooldown (stopTimer d) = cooldown d"
  "fired (stopTimer d) = fired d"
  by (simp_all add: stopTimer_def split: option.split)

lemma stopTimer_armed: "timers_ok d \<Longrightarrow> armed (stopTimer d) = []"
  by (auto simp: stopTimer_def timers_ok_def filter_empty_conv removeAll_filter_not_eq split: option.splits)

lemma maybeReenable_frame [simp]:
  "activeCount (fst (fst (maybeReenable enable (d, c)))) = activeCount d"
  "pinned (fst (fst (maybeReenable enable (d, c)))) = pinned d"
  by (simp_all add: maybeReenable_def split: prod.split)

lemma Pin_frame [simp]: "activeCount (fst (fst (Pin disable (d, c)))) = activeCount d"
  by (simp add: Pin_def Let_def split: prod.split)

lemma Unpin_frame [simp]: "activeCount (fst (fst (Unpin enable (d, c)))) = activeCount d"
proof -
  obtain a b ok where e: "maybeReenable enable (d\<lparr>pinned := False\<rparr>, c) = ((a, b), ok)"
    by (metis prod.exhaust)
  have "activeCount a = activeCount d"
    using maybeReenable_frame(1)[of enable "d\<lparr>pinned := False\<rparr>" c] by (simp add: e)
  then show ?thesis by (simp add: Unpin_def e Let_def)
qed

lemma timer_runs_frame [simp]: "activeCount (fst (timer_runs enable t (d, c))) = activeCount d"
  by (simp add: timer_runs_def Let_def split: prod.split)

section \<open>The interface of a controller\<close>

text \<open>
  What the code relies on: a successful \<open>Disable\<close> turns scale-to-zero off, and a call that fails
  does not turn it on.
\<close>

locale controller =
  fixes disable enable :: "'c \<Rightarrow> 'c \<times> bool"
    and off :: "'c \<Rightarrow> bool"
  assumes disable_ok: "disable c = (c', True) \<Longrightarrow> off c'"
    and disable_failed: "disable c = (c', False) \<Longrightarrow> off c \<Longrightarrow> off c'"
    and enable_failed: "enable c = (c', False) \<Longrightarrow> off c \<Longrightarrow> off c'"
begin

lemma safe_maybeReenable: "safe off dc \<Longrightarrow> safe off (fst (maybeReenable enable dc))"
  by (auto simp: safe_def maybeReenable_def dest: enable_failed split: prod.split)

lemma safe_Disable: "safe off dc \<Longrightarrow> safe off (fst (DC_Disable disable dc))"
  by (auto simp: safe_def DC_Disable_def Let_def dest: disable_ok disable_failed split: prod.split)

lemma safe_Enable: "safe off dc \<Longrightarrow> safe off (fst (DC_Enable enable dc))"
proof -
  assume a: "safe off dc"
  obtain d c where dc: "dc = (d, c)" by fastforce
  have "safe off (if activeCount d > 0 then d\<lparr>activeCount := activeCount d - 1\<rparr> else d, c)"
    using a by (auto simp: safe_def dc)
  from safe_maybeReenable[OF this] show ?thesis by (simp add: DC_Enable_def dc)
qed

lemma safe_Pin: "safe off dc \<Longrightarrow> safe off (fst (Pin disable dc))"
  by (auto simp: safe_def Pin_def Let_def dest: disable_ok disable_failed split: prod.split)

lemma safe_Unpin: "safe off dc \<Longrightarrow> safe off (fst (Unpin enable dc))"
  by (auto simp: safe_def Unpin_def maybeReenable_def Let_def dest: enable_failed split: prod.split)

lemma safe_timer_fires: "safe off (d, c) \<Longrightarrow> safe off (timer_fires t d, c)"
  by (simp add: safe_def timer_fires_def)

lemma safe_timer_runs: "safe off dc \<Longrightarrow> safe off (timer_runs enable t dc)"
  by (auto simp: safe_def timer_runs_def Let_def dest: enable_failed split: prod.split)

lemmas safe_steps = safe_Disable safe_Enable safe_Pin safe_Unpin safe_timer_fires safe_timer_runs

end

section \<open>Counting the holds\<close>

text \<open>What a hold adds to the count of the controller: one while it is open, and one for a due release.\<close>

definition weight :: "responseHold \<Rightarrow> nat" where
  "weight h = of_bool (hold_open h) + toRelease h"

definition weights :: "(nat \<times> responseHold) list \<Rightarrow> nat" where
  "weights holds = sum_list (map (\<lambda>(r, h). weight h) holds)"

lemma weights_eq: "weights holds = open_holds holds + due_releases holds"
  by (induction holds) (auto simp: weights_def weight_def open_holds_def due_releases_def)

definition hold_ok :: "responseHold \<Rightarrow> bool" where
  "hold_ok h \<longleftrightarrow> (released h \<longleftrightarrow> \<not> hold_open h) \<and> toRelease h \<le> of_bool (released h)"

definition holds_ok :: "DebouncedController \<Rightarrow> (nat \<times> responseHold) list \<Rightarrow> bool" where
  "holds_ok d holds \<longleftrightarrow>
     distinct (map fst holds) \<and> (\<forall>(r, h) \<in> set holds. hold_ok h) \<and> activeCount d = int (weights holds)"

text \<open>A hold is released by the call that closes it and by no other: finishing keeps its weight.\<close>

lemma finish_hold_facts:
  assumes "fin = finishHandler \<or> fin = finishConnection" "hold_ok h"
  shows "hold_ok (finish_hold fin h)" "weight (finish_hold fin h) = weight h"
  using assms
  by (cases h; cases "handlerDone h"; cases "connectionDone h"; auto simp: finish_hold_def finishHandler_def
      finishConnection_def finish_def hold_ok_def hold_open_def weight_def Let_def)+

lemma set_hold_keys [simp]: "map fst (set_hold r h holds) = map fst holds"
  by (induction holds) (auto simp: set_hold_def)

lemma set_hold_other: "r \<notin> fst ` set holds \<Longrightarrow> set_hold r h holds = holds"
  by (induction holds) (auto simp: set_hold_def)

lemma set_hold_all:
  "\<forall>(q, g) \<in> set holds. P g \<Longrightarrow> P h \<Longrightarrow> \<forall>(q, g) \<in> set (set_hold r h holds). P g"
  by (auto simp: set_hold_def)

lemma map_of_set_hold:
  "map_of (set_hold r h holds) q = (if q = r then map_option (\<lambda>_. h) (map_of holds r) else map_of holds q)"
  by (induction holds) (auto simp: set_hold_def)

lemma weights_set:
  assumes "distinct (map fst holds)" "map_of holds r = Some g"
  shows "weights (set_hold r h holds) + weight g = weights holds + weight h"
  using assms
proof (induction holds)
  case (Cons kv holds)
  obtain q k where kv: "kv = (q, k)" by (cases kv)
  show ?case
  proof (cases "q = r")
    case True
    then have "set_hold r h holds = holds" using Cons.prems(1) kv by (intro set_hold_other) auto
    with True kv Cons.prems show ?thesis by (auto simp: weights_def set_hold_def)
  next
    case False
    with Cons kv show ?thesis by (auto simp: weights_def set_hold_def)
  qed
qed simp

lemma weight_le_weights: "map_of holds r = Some g \<Longrightarrow> weight g \<le> weights holds"
  by (induction holds) (auto simp: weights_def split: if_splits)

lemma open_holds_pos: "(r, g) \<in> set holds \<Longrightarrow> hold_open g \<Longrightarrow> 0 < weights holds"
  by (induction holds) (auto simp: weights_def weight_def)

lemma DC_Disable_count:
  assumes "DC_Disable disable (d, c) = ((d', c'), ok)"
  shows "activeCount d' = activeCount d + (if ok then 1 else 0)"
  using assms by (auto simp: DC_Disable_def Let_def split: if_splits prod.splits)

lemma DC_Enable_count:
  "0 < activeCount d \<Longrightarrow> activeCount (fst (fst (DC_Enable enable (d, c)))) = activeCount d - 1"
  by (simp add: DC_Enable_def)

lemma hold_ok_of: "holds_ok d holds \<Longrightarrow> map_of holds r = Some h \<Longrightarrow> hold_ok h"
  by (auto simp: holds_ok_def dest: map_of_SomeD)

lemma holds_ok_finish:
  assumes ok: "holds_ok d holds" and fin: "fin = finishHandler \<or> fin = finishConnection"
  shows "fst (finish_request fin r (dc, holds)) = dc \<and> holds_ok d (snd (finish_request fin r (dc, holds)))"
proof (cases "map_of holds r")
  case (Some g)
  note f = finish_hold_facts[OF fin hold_ok_of[OF ok Some]]
  have "weights (set_hold r (finish_hold fin g) holds) = weights holds"
    using weights_set[OF _ Some, of "finish_hold fin g"] ok f(2) by (simp add: holds_ok_def)
  moreover have "\<forall>(q, k) \<in> set (set_hold r (finish_hold fin g) holds). hold_ok k"
    using ok f(1) by (intro set_hold_all) (simp_all add: holds_ok_def)
  ultimately show ?thesis using ok Some by (simp add: finish_request_def holds_ok_def)
qed (use ok in \<open>simp add: finish_request_def\<close>)

text \<open>A release that is due finds the count of the controller positive.\<close>

lemma due_count:
  assumes "holds_ok d holds" "map_of holds r = Some g" "toRelease g \<noteq> 0"
  shows "0 < activeCount d"
proof -
  have "0 < weight g" using assms(3) by (simp add: weight_def)
  with weight_le_weights[OF assms(2)] assms(1) show ?thesis by (simp add: holds_ok_def)
qed

lemma holds_ok_release:
  assumes ok: "holds_ok d holds"
  shows "holds_ok (fst (fst (release_runs enable r ((d, c), holds)))) (snd (release_runs enable r ((d, c), holds)))"
proof (cases "map_of holds r")
  case (Some g)
  show ?thesis
  proof (cases "toRelease g = 0")
    case False
    let ?g = "g\<lparr>toRelease := toRelease g - 1\<rparr>"
    have "weight g = weight ?g + 1" using False by (simp add: weight_def hold_open_def)
    then have "weights (set_hold r ?g holds) + 1 = weights holds"
      using weights_set[OF _ Some, of ?g] ok by (simp add: holds_ok_def)
    moreover have "hold_ok ?g" using hold_ok_of[OF ok Some] by (auto simp: hold_ok_def hold_open_def)
    then have "\<forall>(q, k) \<in> set (set_hold r ?g holds). hold_ok k"
      using ok by (intro set_hold_all) (simp_all add: holds_ok_def)
    moreover note DC_Enable_count[OF due_count[OF ok Some False], of enable c]
    ultimately show ?thesis using ok Some False by (auto simp: release_runs_def holds_ok_def)
  qed (use ok Some in \<open>simp add: release_runs_def\<close>)
qed (use ok in \<open>simp add: release_runs_def\<close>)

lemma holds_ok_step:
  assumes "holds_ok (fst (fst st)) (snd st)"
  shows "holds_ok (fst (fst (stz_step disable enable st op))) (snd (stz_step disable enable st op))"
proof -
  obtain d c holds where st: "st = ((d, c), holds)" by (metis prod.exhaust)
  have ok: "holds_ok d holds" using assms by (simp add: st)
  show ?thesis
  proof (cases op)
    case (Arrive r)
    obtain d' c' b where r: "DC_Disable disable (d, c) = ((d', c'), b)" by (metis prod.exhaust)
    have "holds_ok d' ((r, newResponseHold) # holds)" if b "map_of holds r = None"
      using ok DC_Disable_count[OF r] that
      by (auto simp: holds_ok_def hold_ok_def weights_def weight_def newResponseHold_def hold_open_def
          map_of_eq_None_iff)
    moreover have "holds_ok d' holds" if "\<not> b"
      using ok DC_Disable_count[OF r] that by (simp add: holds_ok_def)
    ultimately show ?thesis using ok by (auto simp: st Arrive r)
  next
    case (HandlerDone r)
    show ?thesis using holds_ok_finish[OF ok, of finishHandler r "(d, c)"] by (simp add: st HandlerDone)
  next
    case (ConnectionDone r)
    show ?thesis using holds_ok_finish[OF ok, of finishConnection r "(d, c)"] by (simp add: st ConnectionDone)
  next
    case (ReleaseRuns r)
    show ?thesis using holds_ok_release[OF ok] by (simp add: st ReleaseRuns)
  qed (use ok in \<open>auto simp: st holds_ok_def timer_fires_def\<close>)
qed

context controller
begin

lemma safe_finish: "safe off (fst st) \<Longrightarrow> safe off (fst (finish_request fin r st))"
  by (cases st) (simp add: finish_request_def split: option.split)

lemma safe_release: "safe off (fst st) \<Longrightarrow> safe off (fst (release_runs enable r st))"
  by (cases st) (simp add: release_runs_def safe_Enable split: option.split)

lemma safe_step:
  assumes "safe off (fst st)"
  shows "safe off (fst (stz_step disable enable st op))"
proof -
  obtain d c holds where st: "st = ((d, c), holds)" by (metis prod.exhaust)
  have s: "safe off (d, c)" using assms by (simp add: st)
  show ?thesis
  proof (cases op)
    case (Arrive r)
    obtain dc' b where r: "DC_Disable disable (d, c) = (dc', b)" by fastforce
    with safe_Disable[OF s] s show ?thesis by (simp add: st Arrive)
  next
    case (HandlerDone r)
    show ?thesis unfolding HandlerDone stz_step.simps by (rule safe_finish[OF assms])
  next
    case (ConnectionDone r)
    show ?thesis unfolding ConnectionDone stz_step.simps by (rule safe_finish[OF assms])
  next
    case (ReleaseRuns r)
    show ?thesis unfolding ReleaseRuns stz_step.simps by (rule safe_release[OF assms])
  qed (use safe_steps[OF s] safe_timer_fires[OF s] in \<open>simp_all add: st\<close>)
qed

lemma safe_run:
  "safe off (fst st) \<Longrightarrow> safe off (fst (foldl (stz_step disable enable) st ops))"
  by (rule foldl_inv) (auto intro: safe_step)

end

lemma holds_ok_run:
  "holds_ok (fst (fst st)) (snd st) \<Longrightarrow>
   holds_ok (fst (fst (foldl (stz_step disable enable) st ops)))
            (snd (foldl (stz_step disable enable) st ops))"
  by (rule foldl_inv[where I = "\<lambda>st. holds_ok (fst (fst st)) (snd st)"]) (rule holds_ok_step)

text \<open>The control file is a controller: a call that fails keeps the file or leaves it empty.\<close>

interpretation unikraft: controller uk_Disable uk_Enable uk_kept
proof
  fix c c' :: unikraftController
  show "uk_Disable c = (c', True) \<Longrightarrow> uk_kept c'"
    by (auto simp: uk_Disable_def uk_write_def uk_off_def uk_kept_def Let_def split: if_splits)
  show "uk_Disable c = (c', False) \<Longrightarrow> uk_kept c \<Longrightarrow> uk_kept c'"
    by (auto simp: uk_Disable_def uk_write_def uk_off_def uk_kept_def Let_def split: if_splits)
  show "uk_Enable c = (c', False) \<Longrightarrow> uk_kept c \<Longrightarrow> uk_kept c'"
    by (auto simp: uk_Enable_def uk_write_def uk_off_def uk_kept_def Let_def split: if_splits)
qed

definition stz_start :: "int \<Rightarrow> unikraftController \<Rightarrow> unikraftController stz_state" where
  "stz_start cd c = ((NewDebouncedControllerWithCooldown cd, c), [])"

text \<open>
  C13. The machine is not put to sleep under a request or a pin. Whatever the order of requests, ends
  of handlers and connections, releases, pins, timers and failing calls of the control file: the
  holder count is the number of admitted requests whose handler or connection is not done and of
  releases still to run; a hold is released once, when both are done; and while there is such a
  request, or the pin is set, the controller takes scale-to-zero for disabled, and the control file,
  where there is one, does disable it, unless the last call that opened the file failed to write it after truncating
  it, which leaves it empty: it never reads as enabled.
\<close>

theorem never_sleeps_while_held:
  assumes "foldl (stz_step uk_Disable uk_Enable) (stz_start cd c0) ops = ((d, c), holds)"
  shows "activeCount d = int (open_holds holds + due_releases holds) \<and>
    (\<forall>(r, h) \<in> set holds. (released h \<longleftrightarrow> handlerDone h \<and> connectionDone h) \<and> toRelease h \<le> of_bool (released h)) \<and>
    ((\<exists>(r, h) \<in> set holds. \<not> (handlerDone h \<and> connectionDone h)) \<or> pinned d \<longrightarrow>
       disabled d \<and> (uk_off c \<or> uk_value c = [] \<and> uk_torn c) \<and> (uk_exists c \<longrightarrow> uk_value c \<noteq> ''-''))"
proof -
  have "safe uk_kept (fst (stz_start cd c0))"
    by (simp add: safe_def stz_start_def NewDebouncedControllerWithCooldown_def)
  from unikraft.safe_run[OF this, of ops] assms have s: "safe uk_kept (d, c)" by simp
  have "holds_ok (fst (fst (stz_start cd c0))) (snd (stz_start cd c0))"
    by (simp add: holds_ok_def stz_start_def NewDebouncedControllerWithCooldown_def weights_def)
  from holds_ok_run[OF this, of uk_Disable uk_Enable ops] assms have h: "holds_ok d holds" by simp
  have "0 < activeCount d" if "(r, g) \<in> set holds" "hold_open g" for r g
    using open_holds_pos[OF that] h by (simp add: holds_ok_def)
  then have "disabled d \<and> uk_kept c"
    if "(\<exists>(r, h) \<in> set holds. \<not> (handlerDone h \<and> connectionDone h)) \<or> pinned d"
    using that s by (auto simp: safe_def hold_open_def)
  moreover have "uk_kept c \<Longrightarrow> uk_exists c \<Longrightarrow> uk_value c \<noteq> ''-''"
    by (auto simp: uk_kept_def uk_off_def)
  moreover have "\<forall>(r, h) \<in> set holds. (released h \<longleftrightarrow> handlerDone h \<and> connectionDone h) \<and> toRelease h \<le> of_bool (released h)"
    using h by (auto simp: holds_ok_def hold_ok_def hold_open_def)
  ultimately show ?thesis using h by (auto simp: holds_ok_def weights_eq uk_kept_def)
qed

definition uk_example :: unikraftController where
  "uk_example = \<lparr>uk_exists = True, uk_value = ''-'', uk_faults = [], uk_torn = False\<rparr>"

lemmas stz_eval = stz_start_def NewDebouncedControllerWithCooldown_def DC_Disable_def DC_Enable_def
  maybeReenable_def stopTimer_def timer_fires_def timer_runs_def Pin_def Unpin_def uk_Disable_def uk_Enable_def
  uk_write_def uk_example_def newResponseHold_def finish_request_def release_runs_def finish_hold_def
  set_hold_def finishHandler_def finishConnection_def finish_def Let_def

text \<open>
  Two requests without a fault; and a failing \<open>Enable\<close> after the first of two requests: the file is
  empty, and the next request, which finds \<open>disabled\<close> set, does not write it again.
\<close>

definition two_requests :: "stz_op list" where
  "two_requests = [Arrive 1, Arrive 2, HandlerDone 1, ConnectionDone 1, HandlerDone 2, ReleaseRuns 1, TimerFires 0]"

definition torn_requests :: "stz_op list" where
  "torn_requests = [Arrive 1, HandlerDone 1, ConnectionDone 1, ReleaseRuns 1, Arrive 2]"

lemma two_requests_run:
  assumes "foldl (stz_step uk_Disable uk_Enable) (stz_start 5 uk_example) two_requests = ((d, c), holds)"
  shows "\<not> uk_torn c"
    "holds = [(2, \<lparr>handlerDone = True, connectionDone = False, released = False, toRelease = 0\<rparr>),
       (1, \<lparr>handlerDone = True, connectionDone = True, released = True, toRelease = 0\<rparr>)]"
  using assms by (auto simp: two_requests_def stz_eval)

lemma torn_file_not_rewritten:
  assumes "foldl (stz_step uk_Disable uk_Enable)
      (stz_start 0 (uk_example\<lparr>uk_faults := [NoFault, WriteFault]\<rparr>)) torn_requests = ((d, c), holds)"
  shows "activeCount d = 1 \<and> disabled d \<and> uk_exists c \<and> uk_value c = [] \<and> uk_faults c = []"
  using assms by (auto simp: torn_requests_def stz_eval)

theorem never_sleeps_while_held_witness:
  "case foldl (stz_step uk_Disable uk_Enable) (stz_start 5 uk_example) two_requests of
     ((d, c), holds) \<Rightarrow> activeCount d = 1 \<and> uk_off c"
proof -
  obtain d c holds where r: "foldl (stz_step uk_Disable uk_Enable) (stz_start 5 uk_example) two_requests = ((d, c), holds)"
    by (metis prod.exhaust)
  from never_sleeps_while_held[OF r] two_requests_run[OF r] show ?thesis
    unfolding r by (simp add: open_holds_def due_releases_def hold_open_def)
qed

section \<open>Waking up again\<close>

text \<open>A controller that never fails from a good state on.\<close>

locale reliable_controller = controller +
  fixes good :: "'a \<Rightarrow> bool"
  assumes good_disable: "good c \<Longrightarrow> disable c = (c', ok) \<Longrightarrow> ok \<and> good c'"
    and good_enable: "good c \<Longrightarrow> enable c = (c', ok) \<Longrightarrow> ok \<and> good c'"
begin

definition awake_ok :: "DebouncedController \<times> 'a \<Rightarrow> bool" where
  "awake_ok = (\<lambda>(d, c). good c \<and> timers_ok d \<and> idle_ok d)"

lemma awake_maybeReenable:
  assumes "good c" "timers_ok d" "activeCount d \<le> 0 \<and> \<not> pinned d \<longrightarrow> armed d = [] \<or> \<not> disabled d"
  shows "snd (maybeReenable enable (d, c)) \<and> awake_ok (fst (maybeReenable enable (d, c)))"
  using assms
  by (auto simp: awake_ok_def maybeReenable_def timers_ok_def idle_ok_def dest: good_enable
      split: prod.split)

lemma awake_Disable:
  assumes "awake_ok (d, c)" "0 \<le> activeCount d"
  shows "awake_ok (fst (DC_Disable disable (d, c)))"
proof -
  have "armed (stopTimer d) = []" "good c" using assms by (auto simp: awake_ok_def stopTimer_armed)
  then show ?thesis
    using assms(2)
    by (auto simp: awake_ok_def DC_Disable_def timers_ok_def idle_ok_def Let_def dest: good_disable
        split: prod.split)
qed

lemma awake_Pin: "awake_ok (d, c) \<Longrightarrow> awake_ok (fst (Pin disable (d, c)))"
  using stopTimer_armed[of d]
  by (auto simp: awake_ok_def Pin_def timers_ok_def idle_ok_def Let_def dest: good_disable
      split: prod.split)

lemma awake_release:
  assumes "awake_ok (d, c)" "0 < activeCount d"
  shows "awake_ok (fst (DC_Enable enable (d, c)))"
proof -
  let ?d = "d\<lparr>activeCount := activeCount d - 1\<rparr>"
  have "good c" "timers_ok ?d" "armed ?d = []"
    using assms by (auto simp: awake_ok_def timers_ok_def)
  from awake_maybeReenable[OF this(1,2)] this(3) assms(2) show ?thesis
    by (simp add: DC_Enable_def)
qed

lemma awake_Unpin: "awake_ok (d, c) \<Longrightarrow> awake_ok (fst (Unpin enable (d, c)))"
proof (cases "pinned d")
  case True
  assume a: "awake_ok (d, c)"
  let ?d = "d\<lparr>pinned := False\<rparr>"
  have "good c" "timers_ok ?d" "armed ?d = []" using a True by (auto simp: awake_ok_def timers_ok_def)
  from awake_maybeReenable[OF this(1,2)] this(3) True show ?thesis
    by (auto simp: Unpin_def Let_def split: prod.splits)
qed (simp add: Unpin_def)

lemma awake_timer_fires: "awake_ok (d, c) \<Longrightarrow> awake_ok (timer_fires t d, c)"
  by (cases "armed d"; cases "tl (armed d)") (auto simp: awake_ok_def timer_fires_def timers_ok_def idle_ok_def)

lemma awake_timer_runs:
  assumes "awake_ok (d, c)"
  shows "awake_ok (timer_runs enable t (d, c))"
proof (cases "t \<in> set (fired d)")
  case True
  let ?d = "d\<lparr>fired := remove1 t (fired d)\<rparr>"
  show ?thesis
  proof (cases "activeCount d > 0 \<or> pinned d \<or> \<not> disabled d")
    case idle: True
    then have "timer_runs enable t (d, c) = (?d, c)" using True by (simp add: timer_runs_def Let_def)
    with assms idle show ?thesis by (auto simp: awake_ok_def timers_ok_def idle_ok_def)
  next
    case False
    obtain c' ok where e: "enable c = (c', ok)" by fastforce
    have "good c" using assms by (simp add: awake_ok_def)
    from good_enable[OF this e] True False have
      "timer_runs enable t (d, c) = (?d\<lparr>disabled := False\<rparr>, c')" "good c'"
      by (simp_all add: timer_runs_def Let_def e)
    with assms show ?thesis by (auto simp: awake_ok_def timers_ok_def idle_ok_def)
  qed
qed (use assms in \<open>simp add: timer_runs_def\<close>)

lemma awake_release_runs:
  assumes "awake_ok (d, c)" "holds_ok d holds"
  shows "awake_ok (fst (release_runs enable r ((d, c), holds)))"
proof (cases "map_of holds r")
  case (Some g)
  then show ?thesis
    using assms(1) awake_release[OF assms(1) due_count[OF assms(2) Some]] by (simp add: release_runs_def)
qed (use assms in \<open>simp add: release_runs_def\<close>)

lemma awake_step:
  assumes "awake_ok (fst st)" "holds_ok (fst (fst st)) (snd st)"
  shows "awake_ok (fst (stz_step disable enable st op))"
proof -
  obtain d c holds where st: "st = ((d, c), holds)" by (metis prod.exhaust)
  have a: "awake_ok (d, c)" and h: "holds_ok d holds" using assms by (simp_all add: st)
  have pos: "0 \<le> activeCount d" using h by (simp add: holds_ok_def)
  show ?thesis
  proof (cases op)
    case (Arrive r)
    obtain dc' b where r: "DC_Disable disable (d, c) = (dc', b)" by fastforce
    with awake_Disable[OF a pos] a show ?thesis by (simp add: st Arrive)
  next
    case (HandlerDone r)
    show ?thesis using a holds_ok_finish[OF h, of finishHandler r "(d, c)"] by (simp add: st HandlerDone)
  next
    case (ConnectionDone r)
    show ?thesis using a holds_ok_finish[OF h, of finishConnection r "(d, c)"] by (simp add: st ConnectionDone)
  next
    case (ReleaseRuns r)
    show ?thesis using awake_release_runs[OF a h] by (simp add: st ReleaseRuns)
  qed (use awake_Pin[OF a] awake_Unpin[OF a] awake_timer_fires[OF a] awake_timer_runs[OF a]
       in \<open>simp_all add: st\<close>)
qed

lemma awake_run:
  assumes "awake_ok (fst st)" "holds_ok (fst (fst st)) (snd st)"
  shows "awake_ok (fst (foldl (stz_step disable enable) st ops))"
proof -
  have "awake_ok (fst (foldl (stz_step disable enable) st ops)) \<and>
    holds_ok (fst (fst (foldl (stz_step disable enable) st ops)))
             (snd (foldl (stz_step disable enable) st ops))"
    by (rule foldl_inv[where I = "\<lambda>st. awake_ok (fst st) \<and> holds_ok (fst (fst st)) (snd st)"])
      (use assms in \<open>auto simp del: split_paired_All intro!: awake_step holds_ok_step\<close>)
  then show ?thesis by simp
qed

end

text \<open>The control file does not fail when the operating system does not.\<close>

definition uk_good :: "unikraftController \<Rightarrow> bool" where
  "uk_good c \<longleftrightarrow> uk_exists c \<and> uk_faults c = []"

interpretation unikraft_ok: reliable_controller uk_Disable uk_Enable uk_kept uk_good
proof
  fix c c' :: unikraftController and ok
  show "uk_good c \<Longrightarrow> uk_Disable c = (c', ok) \<Longrightarrow> ok \<and> uk_good c'"
    by (auto simp: uk_good_def uk_Disable_def uk_write_def Let_def)
  show "uk_good c \<Longrightarrow> uk_Enable c = (c', ok) \<Longrightarrow> ok \<and> uk_good c'"
    by (auto simp: uk_good_def uk_Enable_def uk_write_def Let_def)
qed

text \<open>
  C14. The machine can always go back to sleep. If no write of the control file fails, then at any
  time at most one cooldown timer waits and none does while something holds; and when nothing
  holds, either scale-to-zero is enabled again or a timer is waiting or running that, when it
  runs with nothing holding, enables it.
\<close>

theorem sleeps_again_when_idle:
  assumes "foldl (stz_step uk_Disable uk_Enable) (stz_start cd c0) ops = ((d, c), holds)"
    and "uk_exists c0" "uk_faults c0 = []"
  shows "length (armed d) \<le> 1 \<and>
    (activeCount d > 0 \<or> pinned d \<longrightarrow> armed d = []) \<and>
    (activeCount d \<le> 0 \<and> \<not> pinned d \<longrightarrow>
       \<not> disabled d \<or> armed d \<noteq> [] \<or> fired d \<noteq> []) \<and>
    (\<forall>t \<in> set (fired d). activeCount d \<le> 0 \<and> \<not> pinned d \<longrightarrow>
       \<not> disabled (fst (timer_runs uk_Enable t (d, c))) \<and>
       (disabled d \<longrightarrow> uk_value (snd (timer_runs uk_Enable t (d, c))) = ''-''))"
proof -
  have "unikraft_ok.awake_ok (fst (stz_start cd c0))" "holds_ok (fst (fst (stz_start cd c0))) (snd (stz_start cd c0))"
    using assms(2,3)
    by (simp_all add: unikraft_ok.awake_ok_def stz_start_def NewDebouncedControllerWithCooldown_def
        holds_ok_def weights_def uk_good_def timers_ok_def idle_ok_def)
  from unikraft_ok.awake_run[OF this, of ops] assms(1) have a: "unikraft_ok.awake_ok (d, c)" by simp
  then show ?thesis
    by (auto simp: unikraft_ok.awake_ok_def uk_good_def timers_ok_def idle_ok_def timer_runs_def
        uk_Enable_def uk_write_def Let_def)
qed

theorem sleeps_again_when_idle_witness:
  "case foldl (stz_step uk_Disable uk_Enable) (stz_start 5 uk_example)
      [Arrive 1, HandlerDone 1, ConnectionDone 1, ReleaseRuns 1] of
     ((d, c), holds) \<Rightarrow> length (armed d) \<le> 1 \<and> (\<not> disabled d \<or> armed d \<noteq> [] \<or> fired d \<noteq> [])"
proof -
  obtain d c holds where r: "foldl (stz_step uk_Disable uk_Enable) (stz_start 5 uk_example)
      [Arrive 1, HandlerDone 1, ConnectionDone 1, ReleaseRuns 1] = ((d, c), holds)"
    by (metis prod.exhaust)
  have "activeCount d = 0 \<and> \<not> pinned d"
    using r by (auto simp: stz_eval)
  with sleeps_again_when_idle[OF r] show ?thesis
    unfolding r by (simp add: uk_example_def)
qed

end
