(* ===== verification/Idempotency.thy ===== *)
theory Idempotency
  imports GoStrings
begin

text \<open>
  Calls that run at most once per key (\<open>cmd/api/api/idempotency.go\<close>). Each critical section of
  the code is one operation on the state; the caller that waits, the goroutine that runs the call
  and the abandon timers interleave freely between them, which the step relation \<open>idem_step\<close>
  describes. Calls are objects with identity: an entry that was dropped from the map may still
  have callers, so \<open>entries\<close> is the store of all entries and \<open>calls\<close> maps a key to its index.
\<close>

section \<open>State\<close>

datatype 'r outcome = Resp 'r | Failed

record ('f, 'r) idempotentCall =
  e_key :: string
  e_fingerprint :: 'f
  e_done :: bool
  e_finishedAt :: int
  e_result :: "'r outcome option"
  e_cancelled :: bool
  e_waiters :: int
  e_abandon :: "nat option"

text \<open>
  \<open>armed\<close> and \<open>fired\<close> are the abandon timers that wait and those whose function was started, with
  the entry they belong to.
\<close>

record ('f, 'r) idempotentCalls =
  c_maxFinished :: nat
  c_maxPending :: nat
  c_retention :: int
  c_calls :: "string \<rightharpoonup> nat"
  c_finished :: "string list"
  c_pending :: nat
  c_entries :: "('f, 'r) idempotentCall list"
  c_armed :: "(nat \<times> nat) list"
  c_fired :: "(nat \<times> nat) list"
  c_nextTimer :: nat

definition idempotencyRetention :: int where
  "idempotencyRetention = 10 * 60 * 10 ^ 9"

definition newIdempotentCalls :: "nat \<Rightarrow> nat \<Rightarrow> ('f, 'r) idempotentCalls" where
  "newIdempotentCalls maxFinished maxPending =
     \<lparr>c_maxFinished = maxFinished, c_maxPending = maxPending, c_retention = idempotencyRetention,
      c_calls = Map.empty, c_finished = [], c_pending = 0, c_entries = [], c_armed = [], c_fired = [],
      c_nextTimer = 0\<rparr>"

definition maxIdempotencyKeyLength :: nat where
  "maxIdempotencyKeyLength = 255"

definition validateIdempotencyKey :: "string \<Rightarrow> bool" where
  "validateIdempotencyKey key \<longleftrightarrow>
     \<not> (key = [] \<or> maxIdempotencyKeyLength < length key) \<and>
     (\<forall>c \<in> set key. \<not> (byte c < 0x20 \<or> 0x7E < byte c))"

section \<open>Operations\<close>

definition upd_entry ::
  "nat \<Rightarrow> (('f, 'r) idempotentCall \<Rightarrow> ('f, 'r) idempotentCall) \<Rightarrow> ('f, 'r) idempotentCalls
     \<Rightarrow> ('f, 'r) idempotentCalls" where
  "upd_entry i f c = c\<lparr>c_entries := (c_entries c)[i := f (c_entries c ! i)]\<rparr>"

text \<open>
  \<open>expireLocked\<close>: the loop over the finished keys, oldest first. \<open>None\<close> is the panic of reading an
  entry that is not in the map.
\<close>

fun expire_loop ::
  "int \<Rightarrow> ('f, 'r) idempotentCall list \<Rightarrow> (string \<rightharpoonup> nat) \<Rightarrow> string list \<Rightarrow> ((string \<rightharpoonup> nat) \<times> string list) option"
where
  "expire_loop cutoff entries calls [] = Some (calls, [])"
| "expire_loop cutoff entries calls (k # ks) =
     (case calls k of
        None \<Rightarrow> None
      | Some i \<Rightarrow>
          (if e_finishedAt (entries ! i) < cutoff
           then expire_loop cutoff entries (calls(k := None)) ks
           else Some (calls, k # ks)))"

definition expire :: "int \<Rightarrow> ('f, 'r) idempotentCalls \<Rightarrow> ('f, 'r) idempotentCalls option" where
  "expire now c =
     (case expire_loop (now - c_retention c) (c_entries c) (c_calls c) (c_finished c) of
        None \<Rightarrow> None
      | Some (calls, finished) \<Rightarrow> Some (c\<lparr>c_calls := calls, c_finished := finished\<rparr>))"

definition stop_abandon :: "nat \<Rightarrow> ('f, 'r) idempotentCalls \<Rightarrow> ('f, 'r) idempotentCalls" where
  "stop_abandon i c =
     (case e_abandon (c_entries c ! i) of
        None \<Rightarrow> c
      | Some t \<Rightarrow>
          upd_entry i (\<lambda>e. e\<lparr>e_abandon := None\<rparr>) (c\<lparr>c_armed := removeAll (t, i) (c_armed c)\<rparr>))"

definition attach :: "nat \<Rightarrow> ('f, 'r) idempotentCalls \<Rightarrow> ('f, 'r) idempotentCalls" where
  "attach i c = stop_abandon i (upd_entry i (\<lambda>e. e\<lparr>e_waiters := e_waiters e + 1\<rparr>) c)"

datatype do_result = KeyReused | CallsBusy | Joined nat | Started nat

text \<open>The critical section of \<open>Do\<close>. \<open>None\<close> is a panic.\<close>

definition new_call :: "string \<Rightarrow> 'f \<Rightarrow> ('f, 'r) idempotentCall" where
  "new_call key fp =
     \<lparr>e_key = key, e_fingerprint = fp, e_done = False, e_finishedAt = 0, e_result = None,
      e_cancelled = False, e_waiters = 1, e_abandon = None\<rparr>"

definition start_call :: "string \<Rightarrow> 'f \<Rightarrow> ('f, 'r) idempotentCalls \<Rightarrow> ('f, 'r) idempotentCalls" where
  "start_call key fp c =
     c\<lparr>c_entries := c_entries c @ [new_call key fp],
       c_calls := (c_calls c)(key \<mapsto> length (c_entries c)), c_pending := c_pending c + 1\<rparr>"

definition Do_enter ::
  "int \<Rightarrow> string \<Rightarrow> 'f \<Rightarrow> ('f, 'r) idempotentCalls \<Rightarrow> (do_result \<times> ('f, 'r) idempotentCalls) option" where
  "Do_enter now key fp c =
     (case expire now c of
        None \<Rightarrow> None
      | Some c \<Rightarrow>
          Some (case c_calls c key of
             Some i \<Rightarrow>
               (if e_fingerprint (c_entries c ! i) \<noteq> fp then (KeyReused, c)
                else (Joined i, attach i c))
           | None \<Rightarrow>
               (if c_maxPending c \<le> c_pending c then (CallsBusy, c)
                else (Started (length (c_entries c)), start_call key fp c))))"

text \<open>\<open>detach\<close>: the caller leaves, with the result if the call is done, without it otherwise.\<close>

definition detach :: "nat \<Rightarrow> ('f, 'r) idempotentCalls \<Rightarrow> ('f, 'r) idempotentCalls" where
  "detach i c =
     (let c = upd_entry i (\<lambda>e. e\<lparr>e_waiters := e_waiters e - 1\<rparr>) c in
      if e_done (c_entries c ! i) then c
      else if e_waiters (c_entries c ! i) > 0 then c
      else let t = c_nextTimer c in
        upd_entry i (\<lambda>e. e\<lparr>e_abandon := Some t\<rparr>)
          (c\<lparr>c_armed := c_armed c @ [(t, i)], c_nextTimer := Suc t\<rparr>))"

definition abandon_fires :: "nat \<Rightarrow> nat \<Rightarrow> ('f, 'r) idempotentCalls \<Rightarrow> ('f, 'r) idempotentCalls" where
  "abandon_fires t i c =
     c\<lparr>c_armed := removeAll (t, i) (c_armed c), c_fired := c_fired c @ [(t, i)]\<rparr>"

definition abandon_runs :: "nat \<Rightarrow> nat \<Rightarrow> ('f, 'r) idempotentCalls \<Rightarrow> ('f, 'r) idempotentCalls" where
  "abandon_runs t i c =
     (let c = c\<lparr>c_fired := removeAll (t, i) (c_fired c)\<rparr> in
      if e_abandon (c_entries c ! i) = Some t then upd_entry i (\<lambda>e. e\<lparr>e_cancelled := True\<rparr>) c else c)"

text \<open>
  The end of \<open>run\<close>, for a call that returned \<open>out\<close>; \<open>keep\<close> tells whether a response is kept. A
  panic of the call is the outcome \<open>Failed\<close> (\<open>runRecovered\<close>).
\<close>

fun trim_finished :: "nat \<Rightarrow> (string \<rightharpoonup> nat) \<Rightarrow> string list \<Rightarrow> (string \<rightharpoonup> nat) \<times> string list" where
  "trim_finished m calls [] = (calls, [])"
| "trim_finished m calls (k # ks) =
     (if m < length (k # ks) then trim_finished m (calls(k := None)) ks else (calls, k # ks))"

definition run_ends ::
  "int \<Rightarrow> ('r \<Rightarrow> bool) \<Rightarrow> nat \<Rightarrow> 'r outcome \<Rightarrow> ('f, 'r) idempotentCalls \<Rightarrow> ('f, 'r) idempotentCalls" where
  "run_ends now keep i out c =
     (let c = stop_abandon i (upd_entry i (\<lambda>e. e\<lparr>e_result := Some out\<rparr>) c);
          c = c\<lparr>c_pending := c_pending c - 1\<rparr>;
          key = e_key (c_entries c ! i);
          c = (if (case out of Resp r \<Rightarrow> keep r | Failed \<Rightarrow> False) then
                 let c = upd_entry i (\<lambda>e. e\<lparr>e_finishedAt := now\<rparr>) c;
                     (calls, finished) =
                       trim_finished (c_maxFinished c) (c_calls c) (c_finished c @ [key])
                 in c\<lparr>c_calls := calls, c_finished := finished\<rparr>
               else c\<lparr>c_calls := (c_calls c)(key := None)\<rparr>)
      in upd_entry i (\<lambda>e. e\<lparr>e_done := True\<rparr>) c)"

section \<open>Interleavings\<close>

text \<open>
  A caller that is attached leaves once; the goroutine of an entry ends once; a timer fires once
  and then runs. Between these, any order is possible.
\<close>

inductive idem_step ::
  "('r \<Rightarrow> bool) \<Rightarrow> ('f, 'r) idempotentCalls \<Rightarrow> ('f, 'r) idempotentCalls \<Rightarrow> bool" for keep where
  enter: "Do_enter now key fp c = Some (r, c') \<Longrightarrow> idem_step keep c c'"
| leave: "i < length (c_entries c) \<Longrightarrow> e_waiters (c_entries c ! i) > 0 \<Longrightarrow> idem_step keep c (detach i c)"
| fires: "(t, i) \<in> set (c_armed c) \<Longrightarrow> idem_step keep c (abandon_fires t i c)"
| runs: "(t, i) \<in> set (c_fired c) \<Longrightarrow> idem_step keep c (abandon_runs t i c)"
| ends: "i < length (c_entries c) \<Longrightarrow> \<not> e_done (c_entries c ! i) \<Longrightarrow>
         idem_step keep c (run_ends now keep i out c)"

inductive idem_reachable ::
  "('r \<Rightarrow> bool) \<Rightarrow> nat \<Rightarrow> nat \<Rightarrow> ('f, 'r) idempotentCalls \<Rightarrow> bool" for keep mf mp where
  init: "idem_reachable keep mf mp (newIdempotentCalls mf mp)"
| step: "idem_reachable keep mf mp c \<Longrightarrow> idem_step keep c c' \<Longrightarrow> idem_reachable keep mf mp c'"

inductive_cases idem_stepE: "idem_step keep c c'"

section \<open>The invariant\<close>

definition running :: "('f, 'r) idempotentCalls \<Rightarrow> nat set" where
  "running c = {i. i < length (c_entries c) \<and> \<not> e_done (c_entries c ! i)}"

definition book_core :: "('f, 'r) idempotentCalls \<Rightarrow> bool" where
  "book_core c \<longleftrightarrow>
     (\<forall>k i. c_calls c k = Some i \<longrightarrow> i < length (c_entries c) \<and> e_key (c_entries c ! i) = k) \<and>
     (\<forall>i \<in> running c. c_calls c (e_key (c_entries c ! i)) = Some i) \<and>
     (\<forall>k. k \<in> set (c_finished c) \<longleftrightarrow> (\<exists>i. c_calls c k = Some i \<and> e_done (c_entries c ! i))) \<and>
     distinct (c_finished c) \<and> c_pending c = card (running c)"

definition book_inv :: "('f, 'r) idempotentCalls \<Rightarrow> bool" where
  "book_inv c \<longleftrightarrow> book_core c \<and> c_pending c \<le> c_maxPending c \<and> length (c_finished c) \<le> c_maxFinished c"

text \<open>
  The callers of a call: its abandon timer is set only while nobody waits and the call runs, and a
  running call nobody waits for is cancelled or has its timer pending.
\<close>

definition timers :: "('f, 'r) idempotentCalls \<Rightarrow> (nat \<times> nat) set" where
  "timers c = set (c_armed c) \<union> set (c_fired c)"

definition wait_ok :: "(nat \<times> nat) set \<Rightarrow> nat \<Rightarrow> ('f, 'r) idempotentCall \<Rightarrow> bool" where
  "wait_ok T i e \<longleftrightarrow>
     0 \<le> e_waiters e \<and> (e_abandon e \<noteq> None \<longrightarrow> e_waiters e = 0 \<and> \<not> e_done e) \<and>
     (\<not> e_done e \<and> e_waiters e = 0 \<longrightarrow>
        e_cancelled e \<or> (\<exists>t. e_abandon e = Some t \<and> (t, i) \<in> T))"

definition wait_inv :: "('f, 'r) idempotentCalls \<Rightarrow> bool" where
  "wait_inv c \<longleftrightarrow>
     (\<forall>i < length (c_entries c). wait_ok (timers c) i (c_entries c ! i)) \<and>
     (\<forall>(t, i) \<in> timers c. i < length (c_entries c))"

lemma running_finite [simp]: "finite (running c)"
  by (simp add: running_def)

lemma book_coreD:
  assumes "book_core c"
  shows "c_calls c k = Some i \<Longrightarrow> i < length (c_entries c) \<and> e_key (c_entries c ! i) = k"
    and "i \<in> running c \<Longrightarrow> c_calls c (e_key (c_entries c ! i)) = Some i"
    and "k \<in> set (c_finished c) \<longleftrightarrow> (\<exists>i. c_calls c k = Some i \<and> e_done (c_entries c ! i))"
    and "distinct (c_finished c)" and "c_pending c = card (running c)"
  using assms unfolding book_core_def by blast+

lemma book_coreI:
  assumes "\<And>k i. c_calls c k = Some i \<Longrightarrow> i < length (c_entries c) \<and> e_key (c_entries c ! i) = k"
    and "\<And>i. i \<in> running c \<Longrightarrow> c_calls c (e_key (c_entries c ! i)) = Some i"
    and "\<And>k. k \<in> set (c_finished c) \<longleftrightarrow> (\<exists>i. c_calls c k = Some i \<and> e_done (c_entries c ! i))"
    and "distinct (c_finished c)" and "c_pending c = card (running c)"
  shows "book_core c"
  using assms unfolding book_core_def by blast

lemma upd_entry_frame [simp]:
  "c_maxFinished (upd_entry i f c) = c_maxFinished c" "c_maxPending (upd_entry i f c) = c_maxPending c"
  "c_retention (upd_entry i f c) = c_retention c" "c_calls (upd_entry i f c) = c_calls c"
  "c_finished (upd_entry i f c) = c_finished c" "c_pending (upd_entry i f c) = c_pending c"
  "c_armed (upd_entry i f c) = c_armed c" "c_fired (upd_entry i f c) = c_fired c"
  "c_nextTimer (upd_entry i f c) = c_nextTimer c"
  "length (c_entries (upd_entry i f c)) = length (c_entries c)"
  by (simp_all add: upd_entry_def)

lemma upd_entry_nth:
  "i < length (c_entries c) \<Longrightarrow>
   c_entries (upd_entry i f c) ! j = (if j = i then f (c_entries c ! i) else c_entries c ! j)"
  by (simp add: upd_entry_def nth_list_update)

text \<open>The views the bookkeeping depends on.\<close>

definition same_book :: "('f, 'r) idempotentCalls \<Rightarrow> ('f, 'r) idempotentCalls \<Rightarrow> bool" where
  "same_book c c' \<longleftrightarrow>
     c_calls c' = c_calls c \<and> c_finished c' = c_finished c \<and> c_pending c' = c_pending c \<and>
     c_maxPending c' = c_maxPending c \<and> c_maxFinished c' = c_maxFinished c \<and>
     length (c_entries c') = length (c_entries c) \<and>
     (\<forall>i < length (c_entries c). e_key (c_entries c' ! i) = e_key (c_entries c ! i) \<and>
        e_fingerprint (c_entries c' ! i) = e_fingerprint (c_entries c ! i) \<and>
        e_done (c_entries c' ! i) = e_done (c_entries c ! i))"

lemma same_book_inv: "same_book c c' \<Longrightarrow> book_inv c \<Longrightarrow> book_inv c'"
proof -
  assume sb: "same_book c c'" and inv: "book_inv c"
  have r: "running c' = running c" using sb by (auto simp: running_def same_book_def)
  have "book_core c'"
    using inv sb unfolding book_inv_def book_core_def r
    by (auto simp: same_book_def running_def)
  with inv sb show ?thesis by (simp add: book_inv_def same_book_def)
qed

lemma same_book_refl [simp]: "same_book c c"
  by (simp add: same_book_def)

lemma same_book_trans: "same_book a b \<Longrightarrow> same_book b c \<Longrightarrow> same_book a c"
  by (simp add: same_book_def)

lemma same_book_upd:
  "i < length (c_entries c) \<Longrightarrow>
   (\<And>e. e_key (f e) = e_key e \<and> e_fingerprint (f e) = e_fingerprint e \<and> e_done (f e) = e_done e) \<Longrightarrow>
   same_book c (upd_entry i f c)"
  by (simp add: same_book_def upd_entry_nth)

lemma same_book_timers:
  "same_book c (c\<lparr>c_armed := a, c_nextTimer := n\<rparr>)" "same_book c (c\<lparr>c_armed := a, c_fired := b\<rparr>)"
  "same_book c (c\<lparr>c_armed := a\<rparr>)" "same_book c (c\<lparr>c_fired := a\<rparr>)"
  by (simp_all add: same_book_def)

lemma same_book_stop: "i < length (c_entries c) \<Longrightarrow> same_book c (stop_abandon i c)"
proof (cases "e_abandon (c_entries c ! i)")
  case (Some t)
  assume i: "i < length (c_entries c)"
  let ?c = "c\<lparr>c_armed := removeAll (t, i) (c_armed c)\<rparr>"
  have "same_book ?c (upd_entry i (\<lambda>e. e\<lparr>e_abandon := None\<rparr>) ?c)"
    using i by (intro same_book_upd) simp_all
  with same_book_timers(3) Some show ?thesis by (auto simp: stop_abandon_def intro: same_book_trans)
qed (simp add: stop_abandon_def)

lemma same_book_attach: "i < length (c_entries c) \<Longrightarrow> same_book c (attach i c)"
  unfolding attach_def
  by (rule same_book_trans[OF same_book_upd same_book_stop]) simp_all

lemma same_book_detach: "i < length (c_entries c) \<Longrightarrow> same_book c (detach i c)"
proof -
  assume i: "i < length (c_entries c)"
  let ?c = "upd_entry i (\<lambda>e. e\<lparr>e_waiters := e_waiters e - 1\<rparr>) c"
  have 1: "same_book c ?c" using i by (intro same_book_upd) simp_all
  have 2: "same_book ?c (upd_entry i (\<lambda>e. e\<lparr>e_abandon := Some t\<rparr>) (?c\<lparr>c_armed := a, c_nextTimer := n\<rparr>))" for t a n
    using i by (intro same_book_trans[OF same_book_timers(1) same_book_upd]) simp_all
  show ?thesis using 1 same_book_trans[OF 1 2] by (simp add: detach_def Let_def)
qed

lemma same_book_abandon:
  "same_book c (abandon_fires t i c)"
  "i < length (c_entries c) \<Longrightarrow> same_book c (abandon_runs t i c)"
proof -
  show "same_book c (abandon_fires t i c)" by (simp add: abandon_fires_def same_book_timers)
  assume i: "i < length (c_entries c)"
  let ?c = "c\<lparr>c_fired := removeAll (t, i) (c_fired c)\<rparr>"
  have "same_book ?c (upd_entry i (\<lambda>e. e\<lparr>e_cancelled := True\<rparr>) ?c)"
    using i by (intro same_book_upd) simp_all
  then show "same_book c (abandon_runs t i c)"
    using same_book_timers(4) by (auto simp: abandon_runs_def Let_def intro: same_book_trans)
qed

text \<open>Dropping the oldest finished keys keeps the books.\<close>

definition drop_keys :: "string list \<Rightarrow> (string \<rightharpoonup> nat) \<Rightarrow> (string \<rightharpoonup> nat)" where
  "drop_keys d calls = (\<lambda>k. if k \<in> set d then None else calls k)"

lemma book_core_drop:
  assumes "book_core c" "c_finished c = d @ r"
  shows "book_core (c\<lparr>c_calls := drop_keys d (c_calls c), c_finished := r\<rparr>)"
proof -
  let ?c = "c\<lparr>c_calls := drop_keys d (c_calls c), c_finished := r\<rparr>"
  have run: "running ?c = running c" by (simp add: running_def)
  have dist: "distinct (d @ r)" using assms by (simp add: book_core_def)
  have fin: "k \<in> set (d @ r) \<longleftrightarrow> (\<exists>i. c_calls c k = Some i \<and> e_done (c_entries c ! i))" for k
    using assms by (simp add: book_core_def)
  have "e_key (c_entries c ! i) \<notin> set d" if "i \<in> running c" for i
  proof
    assume "e_key (c_entries c ! i) \<in> set d"
    then obtain j where "c_calls c (e_key (c_entries c ! i)) = Some j" "e_done (c_entries c ! j)"
      using fin by auto
    with assms that show False by (auto simp: book_core_def running_def)
  qed
  moreover have "k \<in> set r \<longleftrightarrow> (\<exists>i. drop_keys d (c_calls c) k = Some i \<and> e_done (c_entries c ! i))" for k
    using fin[of k] dist by (auto simp: drop_keys_def)
  ultimately show ?thesis
    using assms dist unfolding book_core_def run by (auto simp: drop_keys_def split: if_splits)
qed

lemma expire_loop_drops:
  assumes "\<forall>k \<in> set ks. calls k \<noteq> None" "distinct ks"
  obtains d r where "expire_loop cutoff entries calls ks = Some (drop_keys d calls, r)" "ks = d @ r"
proof -
  have "\<exists>d r. expire_loop cutoff entries calls ks = Some (drop_keys d calls, r) \<and> ks = d @ r"
    using assms
  proof (induction cutoff entries calls ks rule: expire_loop.induct)
    case (1 cutoff entries calls)
    then show ?case by (simp add: drop_keys_def)
  next
    case (2 cutoff entries calls k ks)
    then obtain i where i: "calls k = Some i" by auto
    show ?case
    proof (cases "e_finishedAt (entries ! i) < cutoff")
      case True
      have pre: "\<forall>k' \<in> set ks. (calls(k := None)) k' \<noteq> None" and dist: "distinct ks"
        using 2(2,3) by auto
      obtain d r where "expire_loop cutoff entries (calls(k := None)) ks = Some (drop_keys d (calls(k := None)), r)"
        "ks = d @ r"
        using 2(1)[OF i True pre dist] by blast
      moreover have "drop_keys d (calls(k := None)) = drop_keys (k # d) calls"
        by (auto simp: drop_keys_def)
      ultimately show ?thesis using i True
        by (intro exI[of _ "k # d"] exI[of _ r]) simp
    next
      case False
      have "drop_keys [] calls = calls" by (simp add: drop_keys_def)
      with i False show ?thesis by (intro exI[of _ "[]"] exI[of _ "k # ks"]) simp
    qed
  qed
  then show ?thesis using that by blast
qed

lemma trim_finished_drops:
  "\<exists>d r. trim_finished m calls ks = (drop_keys d calls, r) \<and> ks = d @ r \<and> length r \<le> m"
proof (induction m calls ks rule: trim_finished.induct)
  case (1 m calls)
  then show ?case by (simp add: drop_keys_def)
next
  case (2 m calls k ks)
  show ?case
  proof (cases "m < length (k # ks)")
    case True
    obtain d r where "trim_finished m (calls(k := None)) ks = (drop_keys d (calls(k := None)), r)"
      "ks = d @ r" "length r \<le> m"
      using 2[OF True] by blast
    moreover have "drop_keys d (calls(k := None)) = drop_keys (k # d) calls"
      by (auto simp: drop_keys_def)
    ultimately show ?thesis using True by (intro exI[of _ "k # d"] exI[of _ r]) auto
  next
    case False
    have "drop_keys [] calls = calls" by (simp add: drop_keys_def)
    with False show ?thesis by (intro exI[of _ "[]"] exI[of _ "k # ks"]) auto
  qed
qed

section \<open>Every step keeps the books\<close>

text \<open>What \<open>expireLocked\<close> leaves alone.\<close>

definition expired_from :: "('f, 'r) idempotentCalls \<Rightarrow> ('f, 'r) idempotentCalls \<Rightarrow> bool" where
  "expired_from c d \<longleftrightarrow>
     c_entries d = c_entries c \<and> c_pending d = c_pending c \<and> c_maxPending d = c_maxPending c \<and>
     c_maxFinished d = c_maxFinished c \<and> c_armed d = c_armed c \<and> c_fired d = c_fired c \<and>
     c_nextTimer d = c_nextTimer c \<and> (\<forall>k i. c_calls d k = Some i \<longrightarrow> c_calls c k = Some i)"

lemma expired_running: "expired_from c d \<Longrightarrow> running d = running c"
  by (simp add: expired_from_def running_def)

lemma expire_facts:
  assumes "book_inv c"
  obtains c' where "expire now c = Some c'" "book_inv c'" "expired_from c c'"
proof -
  have pre: "\<forall>k \<in> set (c_finished c). c_calls c k \<noteq> None" "distinct (c_finished c)"
    using assms by (auto simp: book_inv_def book_core_def)
  obtain d r where e: "expire_loop (now - c_retention c) (c_entries c) (c_calls c) (c_finished c) =
      Some (drop_keys d (c_calls c), r)" "c_finished c = d @ r"
    using expire_loop_drops[OF pre] .
  let ?c = "c\<lparr>c_calls := drop_keys d (c_calls c), c_finished := r\<rparr>"
  have "expire now c = Some ?c" by (simp add: expire_def e(1))
  moreover have "book_inv ?c"
    using assms book_core_drop[OF _ e(2)] e(2) by (simp add: book_inv_def)
  moreover have "expired_from c ?c" by (simp add: expired_from_def drop_keys_def)
  ultimately show ?thesis using that[of ?c] by blast
qed

lemma book_start:
  assumes "book_inv c" "c_calls c key = None" "c_pending c < c_maxPending c"
    and "e_key e = key" "\<not> e_done e"
  shows "book_inv (c\<lparr>c_entries := c_entries c @ [e], c_calls := (c_calls c)(key \<mapsto> length (c_entries c)),
                    c_pending := c_pending c + 1\<rparr>)" (is "book_inv ?c")
proof -
  let ?n = "length (c_entries c)"
  have core: "book_core c" using assms(1) by (simp add: book_inv_def)
  note D = book_coreD[OF core]
  have old: "c_entries ?c ! i = c_entries c ! i" if "i < ?n" for i using that by (simp add: nth_append)
  have new: "c_entries ?c ! ?n = e" by simp
  have run: "running ?c = insert ?n (running c)" "?n \<notin> running c"
    using assms(5) by (auto simp: running_def nth_append less_Suc_eq)
  have ne: "key \<noteq> e_key (c_entries c ! i)" if "i \<in> running c" for i
    using D(2)[OF that] assms(2) by auto
  have nfin: "key \<notin> set (c_finished c)" using D(3)[of key] assms(2) by simp
  have "book_core ?c"
  proof (rule book_coreI)
    fix k i assume a: "c_calls ?c k = Some i"
    show "i < length (c_entries ?c) \<and> e_key (c_entries ?c ! i) = k"
    proof (cases "k = key")
      case True
      with a new assms(4) show ?thesis by simp
    next
      case False
      with a have "c_calls c k = Some i" by simp
      from D(1)[OF this] old[of i] show ?thesis by simp
    qed
  next
    fix i assume "i \<in> running ?c"
    then consider "i = ?n" | "i \<in> running c" using run by blast
    then show "c_calls ?c (e_key (c_entries ?c ! i)) = Some i"
    proof cases
      case 1
      with new assms(4) show ?thesis by simp
    next
      case 2
      then have "i < ?n" by (simp add: running_def)
      with old[OF this] D(2)[OF 2] ne[OF 2] show ?thesis by simp
    qed
  next
    fix k
    show "k \<in> set (c_finished ?c) \<longleftrightarrow> (\<exists>i. c_calls ?c k = Some i \<and> e_done (c_entries ?c ! i))"
    proof (cases "k = key")
      case True
      with nfin new assms(5) show ?thesis by simp
    next
      case False
      have "(c_entries c @ [e]) ! i = c_entries c ! i" if "c_calls c k = Some i" for i
        using D(1)[OF that] by (simp add: nth_append)
      then show ?thesis using D(3)[of k] False by auto
    qed
  next
    show "distinct (c_finished ?c)" using D(4) by simp
    show "c_pending ?c = card (running ?c)" using D(5) run by simp
  qed
  with assms(1,3) show ?thesis by (simp add: book_inv_def)
qed

definition kept :: "('r \<Rightarrow> bool) \<Rightarrow> 'r outcome \<Rightarrow> bool" where
  "kept keep out = (case out of Resp r \<Rightarrow> keep r | Failed \<Rightarrow> False)"

text \<open>The end of a call, in terms of the books before it.\<close>

lemma run_ends_views:
  assumes i: "i < length (c_entries c)" and c'_def: "c' = run_ends now keep i out c"
    and key_def: "key = e_key (c_entries c ! i)"
  shows "c_pending c' = c_pending c - 1 \<and> c_maxPending c' = c_maxPending c \<and>
    c_maxFinished c' = c_maxFinished c \<and> length (c_entries c') = length (c_entries c) \<and>
    (\<forall>j < length (c_entries c). e_key (c_entries c' ! j) = e_key (c_entries c ! j) \<and>
       e_fingerprint (c_entries c' ! j) = e_fingerprint (c_entries c ! j) \<and>
       (e_done (c_entries c' ! j) \<longleftrightarrow> j = i \<or> e_done (c_entries c ! j))) \<and>
    (c_calls c', c_finished c') =
      (if kept keep out then trim_finished (c_maxFinished c) (c_calls c) (c_finished c @ [key])
       else ((c_calls c)(key := None), c_finished c))"
proof -
  let ?u = "upd_entry i (\<lambda>e. e\<lparr>e_result := Some out\<rparr>) c"
  let ?s = "stop_abandon i ?u"
  let ?p = "?s\<lparr>c_pending := c_pending ?s - 1\<rparr>"
  have "same_book c ?u" using i by (intro same_book_upd) simp_all
  then have s: "same_book c ?s" using i by (intro same_book_trans[OF _ same_book_stop]) simp_all
  then have iv: "i < length (c_entries ?p)" "e_key (c_entries ?p ! i) = key"
    using i by (simp_all add: same_book_def key_def)
  obtain calls fin where tr: "trim_finished (c_maxFinished c) (c_calls c) (c_finished c @ [key]) = (calls, fin)"
    by fastforce
  have "run_ends now keep i out c =
      upd_entry i (\<lambda>e. e\<lparr>e_done := True\<rparr>)
        (if kept keep out then upd_entry i (\<lambda>e. e\<lparr>e_finishedAt := now\<rparr>) ?p\<lparr>c_calls := calls, c_finished := fin\<rparr>
         else ?p\<lparr>c_calls := (c_calls c)(key := None)\<rparr>)"
    using s iv tr by (simp add: run_ends_def Let_def kept_def[symmetric] same_book_def)
  with s iv tr show ?thesis
    unfolding c'_def by (auto simp: upd_entry_nth same_book_def)
qed

lemma book_ends:
  assumes "book_inv c" "i < length (c_entries c)" "\<not> e_done (c_entries c ! i)"
  shows "book_inv (run_ends now keep i out c)" (is "book_inv ?c")
proof -
  let ?key = "e_key (c_entries c ! i)"
  have core: "book_core c" using assms(1) by (simp add: book_inv_def)
  note D = book_coreD[OF core]
  from run_ends_views[OF assms(2) refl refl, of now keep out]
  have v: "c_pending ?c = c_pending c - 1" "c_maxPending ?c = c_maxPending c"
    "c_maxFinished ?c = c_maxFinished c" "length (c_entries ?c) = length (c_entries c)"
    and vk: "\<And>j. j < length (c_entries c) \<Longrightarrow> e_key (c_entries ?c ! j) = e_key (c_entries c ! j)"
    and vd: "\<And>j. j < length (c_entries c) \<Longrightarrow> e_done (c_entries ?c ! j) \<longleftrightarrow> j = i \<or> e_done (c_entries c ! j)"
    and vc: "(c_calls ?c, c_finished ?c) =
      (if kept keep out then trim_finished (c_maxFinished c) (c_calls c) (c_finished c @ [?key])
       else ((c_calls c)(?key := None), c_finished c))"
    by blast+
  have ir: "i \<in> running c" using assms(2,3) by (simp add: running_def)
  have run: "running ?c = running c - {i}" using v(4) vd by (auto simp: running_def)
  have le: "c_pending c \<le> c_maxPending c" using assms(1) by (simp add: book_inv_def)
  have pend: "c_pending ?c = card (running ?c)" "c_pending ?c \<le> c_maxPending ?c"
    using D(5) ir le by (simp_all add: run v(1,2))
  have ci: "c_calls c ?key = Some i" by (rule D(2)[OF ir])
  have nfin: "?key \<notin> set (c_finished c)" using D(3)[of ?key] ci assms(3) by simp
  have done': "e_done (c_entries ?c ! j) \<longleftrightarrow> j = i \<or> e_done (c_entries c ! j)" if "c_calls c k = Some j" for k j
    using D(1)[OF that] vd by blast
  have rk: "e_key (c_entries ?c ! j) = e_key (c_entries c ! j)" if "j \<in> running c" for j
    using that vk by (simp add: running_def)
  show ?thesis
  proof (cases "kept keep out")
    case True
    obtain d r where t: "trim_finished (c_maxFinished c) (c_calls c) (c_finished c @ [?key]) = (drop_keys d (c_calls c), r)"
      "c_finished c @ [?key] = d @ r" "length r \<le> c_maxFinished c"
      using trim_finished_drops by blast
    let ?b = "?c\<lparr>c_calls := c_calls c, c_finished := c_finished c @ [?key]\<rparr>"
    have rb: "running ?b = running c - {i}" using run by (simp add: running_def)
    have "book_core ?b"
    proof (rule book_coreI)
      fix k j assume "c_calls ?b k = Some j"
      then have "c_calls c k = Some j" by simp
      from D(1)[OF this] show "j < length (c_entries ?b) \<and> e_key (c_entries ?b ! j) = k"
        using v(4) vk by simp
    next
      fix j assume "j \<in> running ?b"
      then have "j \<in> running c" using rb by simp
      from D(2)[OF this] rk[OF this] show "c_calls ?b (e_key (c_entries ?b ! j)) = Some j" by simp
    next
      fix k
      show "k \<in> set (c_finished ?b) \<longleftrightarrow> (\<exists>j. c_calls ?b k = Some j \<and> e_done (c_entries ?b ! j))"
      proof (cases "k = ?key")
        case True
        with ci done'[OF ci] show ?thesis by simp
      next
        case False
        have "e_done (c_entries ?c ! j) \<longleftrightarrow> e_done (c_entries c ! j)" if "c_calls c k = Some j" for j
          using done'[OF that] D(1)[OF that] False by auto
        with D(3)[of k] False show ?thesis by auto
      qed
    next
      show "distinct (c_finished ?b)" using D(4) nfin by simp
      show "c_pending ?b = card (running ?b)" using pend(1) run rb by simp
    qed
    from book_core_drop[OF this, of d r] t(2)
    have "book_core (?b\<lparr>c_calls := drop_keys d (c_calls ?b), c_finished := r\<rparr>)" by simp
    moreover have "?b\<lparr>c_calls := drop_keys d (c_calls ?b), c_finished := r\<rparr> = ?c"
      using vc t(1) True by simp
    ultimately have "book_core ?c" by simp
    with pend t(1,3) v(3) vc True show ?thesis by (simp add: book_inv_def)
  next
    case False
    then have vc: "c_calls ?c = (c_calls c)(?key := None)" "c_finished ?c = c_finished c" using vc by simp_all
    have "book_core ?c"
    proof (rule book_coreI)
      fix k j assume "c_calls ?c k = Some j"
      then have "c_calls c k = Some j" using vc(1) by (simp split: if_splits)
      from D(1)[OF this] show "j < length (c_entries ?c) \<and> e_key (c_entries ?c ! j) = k"
        using v(4) vk by simp
    next
      fix j assume "j \<in> running ?c"
      then have j: "j \<in> running c" "j \<noteq> i" using run by auto
      have "e_key (c_entries c ! j) \<noteq> ?key" using D(2)[OF j(1)] ci j(2) by auto
      with D(2)[OF j(1)] rk[OF j(1)] vc(1) show "c_calls ?c (e_key (c_entries ?c ! j)) = Some j" by simp
    next
      fix k
      show "k \<in> set (c_finished ?c) \<longleftrightarrow> (\<exists>j. c_calls ?c k = Some j \<and> e_done (c_entries ?c ! j))"
      proof (cases "k = ?key")
        case True
        with vc nfin show ?thesis by simp
      next
        case False
        have "e_done (c_entries ?c ! j) \<longleftrightarrow> e_done (c_entries c ! j)" if "c_calls c k = Some j" for j
          using done'[OF that] D(1)[OF that] False by auto
        with D(3)[of k] False vc show ?thesis by auto
      qed
    next
      show "distinct (c_finished ?c)" using D(4) vc by simp
      show "c_pending ?c = card (running ?c)" by (rule pend(1))
    qed
    with pend v(3) vc assms(1) show ?thesis by (simp add: book_inv_def)
  qed
qed

lemma Do_enter_cases:
  assumes "book_inv c" "Do_enter now key fp c = Some (r, c')"
  obtains (refused) "book_inv c'" "expired_from c c'" "r = KeyReused \<or> r = CallsBusy"
  | (joined) d i where "book_inv d" "expired_from c d" "r = Joined i" "c_calls d key = Some i"
      "i < length (c_entries c)" "e_fingerprint (c_entries c ! i) = fp" "c' = attach i d"
  | (started) d where "book_inv d" "expired_from c d" "r = Started (length (c_entries c))"
      "c_calls d key = None" "c_pending d < c_maxPending d" "c' = start_call key fp d"
proof -
  obtain d where d: "expire now c = Some d" "book_inv d" "expired_from c d"
    using expire_facts[OF assms(1)] .
  have ent: "c_entries d = c_entries c" using d(3) by (simp add: expired_from_def)
  have core: "book_core d" using d(2) by (simp add: book_inv_def)
  show ?thesis
  proof (cases "c_calls d key")
    case (Some i)
    have i: "i < length (c_entries c)" using book_coreD(1)[OF core Some] ent by simp
    show ?thesis
    proof (cases "e_fingerprint (c_entries d ! i) = fp")
      case True
      with assms(2) d(1) Some have "r = Joined i" "c' = attach i d" by (simp_all add: Do_enter_def)
      from joined[OF d(2,3) this(1) Some i _ this(2)] True ent show ?thesis by simp
    next
      case False
      with assms(2) d(1) Some have "r = KeyReused" "c' = d" by (simp_all add: Do_enter_def)
      with refused d(2,3) show ?thesis by simp
    qed
  next
    case None
    show ?thesis
    proof (cases "c_maxPending d \<le> c_pending d")
      case True
      with assms(2) d(1) None have "r = CallsBusy" "c' = d" by (simp_all add: Do_enter_def)
      with refused d(2,3) show ?thesis by simp
    next
      case False
      with assms(2) d(1) None have "r = Started (length (c_entries c))" "c' = start_call key fp d"
        by (simp_all add: Do_enter_def ent)
      from started[OF d(2,3) this(1) None _ this(2)] False show ?thesis by simp
    qed
  qed
qed

text \<open>The critical section of \<open>Do\<close> never meets a missing entry.\<close>

lemma Do_enter_total: "book_inv c \<Longrightarrow> Do_enter now key fp c \<noteq> None"
  by (erule expire_facts[of _ now]) (simp add: Do_enter_def)

lemma book_enter:
  assumes "book_inv c" "Do_enter now key fp c = Some (r, c')"
  shows "book_inv c'"
proof (rule Do_enter_cases[OF assms])
  fix d i assume "book_inv d" "expired_from c d" "i < length (c_entries c)" "c' = attach i d"
  then show ?thesis using same_book_inv[OF same_book_attach[of i d]] by (simp add: expired_from_def)
next
  fix d assume "book_inv d" "c_calls d key = None" "c_pending d < c_maxPending d" "c' = start_call key fp d"
  then show ?thesis using book_start[of d key "new_call key fp"]
    by (simp add: start_call_def new_call_def)
qed

lemma wait_invD:
  assumes "wait_inv c"
  shows "i < length (c_entries c) \<Longrightarrow> wait_ok (timers c) i (c_entries c ! i)"
    and "(t, i) \<in> timers c \<Longrightarrow> i < length (c_entries c)"
  using assms unfolding wait_inv_def by blast+

lemma book_step:
  assumes "book_inv c" "wait_inv c" "idem_step keep c c'"
  shows "book_inv c'"
  using assms(3,1,2)
proof (induction rule: idem_step.induct)
  case (enter now key fp c r c')
  from enter(2,1) show ?case by (rule book_enter)
next
  case (leave i c)
  from same_book_detach[OF leave(1)] leave(3) show ?case by (rule same_book_inv)
next
  case (fires t i c)
  from same_book_abandon(1) fires(2) show ?case by (rule same_book_inv)
next
  case (runs t i c)
  then have "(t, i) \<in> timers c" by (simp add: timers_def)
  with runs have "i < length (c_entries c)" using wait_invD(2) by blast
  from same_book_abandon(2)[OF this] runs(2) show ?case by (rule same_book_inv)
next
  case (ends i c now out)
  from ends(3,1,2) show ?case by (rule book_ends)
qed

text \<open>
  A step that changes one entry, and drops no timer of another, keeps the callers' invariant if
  the entry is well after it.
\<close>

lemma wait_one:
  assumes "wait_inv c" "length (c_entries c') = length (c_entries c)"
    and "\<And>j. j < length (c_entries c) \<Longrightarrow> j \<noteq> i \<Longrightarrow> c_entries c' ! j = c_entries c ! j"
    and "\<And>t j. j \<noteq> i \<Longrightarrow> (t, j) \<in> timers c' \<longleftrightarrow> (t, j) \<in> timers c"
    and "i < length (c_entries c)" "wait_ok (timers c') i (c_entries c' ! i)"
  shows "wait_inv c'"
proof -
  have "wait_ok (timers c') j (c_entries c' ! j)" if "j < length (c_entries c)" for j
  proof (cases "j = i")
    case False
    have "wait_ok (timers c) j (c_entries c ! j)" using assms(1) that by (rule wait_invD(1))
    then show ?thesis using assms(3)[OF that False] assms(4)[OF False] by (simp add: wait_ok_def)
  qed (use assms(6) in simp)
  moreover have "j < length (c_entries c)" if "(t, j) \<in> timers c'" for t j
    using that assms(1,4,5) wait_invD(2)[OF assms(1)] by (cases "j = i") blast+
  ultimately show ?thesis using assms(2) by (auto simp: wait_inv_def)
qed

lemma stop_abandon_views:
  assumes "i < length (c_entries c)"
  shows "length (c_entries (stop_abandon i c)) = length (c_entries c)"
    and "j < length (c_entries c) \<Longrightarrow> c_entries (stop_abandon i c) ! j =
      (if j = i then (c_entries c ! i)\<lparr>e_abandon := None\<rparr> else c_entries c ! j)"
    and "j \<noteq> i \<Longrightarrow> (t, j) \<in> timers (stop_abandon i c) \<longleftrightarrow> (t, j) \<in> timers c"
proof -
  show "length (c_entries (stop_abandon i c)) = length (c_entries c)"
    by (simp add: stop_abandon_def split: option.splits)
  have id: "e\<lparr>e_abandon := None\<rparr> = e" if "e_abandon e = None" for e :: "('f, 'r) idempotentCall"
    using that by (cases e) simp
  show "c_entries (stop_abandon i c) ! j =
      (if j = i then (c_entries c ! i)\<lparr>e_abandon := None\<rparr> else c_entries c ! j)"
    using assms by (simp add: stop_abandon_def upd_entry_nth id split: option.splits)
  show "(t, j) \<in> timers (stop_abandon i c) \<longleftrightarrow> (t, j) \<in> timers c" if "j \<noteq> i"
    using that by (simp add: stop_abandon_def timers_def split: option.splits)
qed

lemma wait_attach:
  assumes "wait_inv c" "i < length (c_entries c)"
  shows "wait_inv (attach i c)"
proof -
  let ?u = "upd_entry i (\<lambda>e. e\<lparr>e_waiters := e_waiters e + 1\<rparr>) c"
  have i: "i < length (c_entries ?u)" using assms(2) by simp
  note S = stop_abandon_views[OF i]
  have "wait_ok (timers c) i (c_entries c ! i)" using assms by (rule wait_invD(1))
  then have ok: "wait_ok (timers (attach i c)) i (c_entries (attach i c) ! i)"
    using S(2)[OF i] assms(2) by (simp add: attach_def upd_entry_nth wait_ok_def)
  show ?thesis
    by (rule wait_one[OF assms(1) _ _ _ assms(2) ok])
      (use assms(2) S in \<open>simp_all add: attach_def upd_entry_nth timers_def\<close>)
qed

lemma wait_enter:
  assumes "book_inv c" "wait_inv c" "Do_enter now key fp c = Some (r, c')"
  shows "wait_inv c'"
proof -
  have keep: "wait_inv d" if "expired_from c d" for d
    using that assms(2) by (simp add: wait_inv_def expired_from_def timers_def)
  show ?thesis
  proof (rule Do_enter_cases[OF assms(1,3)])
    assume "expired_from c c'"
    then show ?thesis by (rule keep)
  next
    fix d i assume "expired_from c d" "i < length (c_entries c)" "c' = attach i d"
    then show ?thesis using wait_attach[OF keep] by (simp add: expired_from_def)
  next
    fix d assume d: "expired_from c d" "c' = start_call key fp d"
    have w: "wait_inv d" using d(1) by (rule keep)
    have t: "timers c' = timers d" by (simp add: d(2) start_call_def timers_def)
    have "wait_ok (timers d) i (c_entries c' ! i)" if "i < Suc (length (c_entries d))" for i
    proof (cases "i = length (c_entries d)")
      case True
      then show ?thesis by (simp add: d(2) start_call_def new_call_def wait_ok_def)
    next
      case False
      with that wait_invD(1)[OF w, of i] show ?thesis by (simp add: d(2) start_call_def nth_append)
    qed
    then show ?thesis using w t by (auto simp: wait_inv_def d(2) start_call_def)
  qed
qed

lemma wait_detach:
  assumes "wait_inv c" "i < length (c_entries c)" "e_waiters (c_entries c ! i) > 0"
  shows "wait_inv (detach i c)"
proof (rule wait_one[OF assms(1) _ _ _ assms(2)])
  have w: "wait_ok (timers c) i (c_entries c ! i)" using assms(1,2) by (rule wait_invD(1))
  then have none: "e_abandon (c_entries c ! i) = None" using assms(3) by (auto simp: wait_ok_def)
  show "wait_ok (timers (detach i c)) i (c_entries (detach i c) ! i)"
    using assms(2,3) w none
    by (simp add: detach_def Let_def upd_entry_nth wait_ok_def timers_def)
qed (use assms(2) in \<open>auto simp: detach_def Let_def upd_entry_nth timers_def\<close>)

lemma wait_fires:
  assumes "wait_inv c" "(t, i) \<in> set (c_armed c)"
  shows "wait_inv (abandon_fires t i c)"
proof -
  have "timers (abandon_fires t i c) = timers c" using assms(2) by (auto simp: abandon_fires_def timers_def)
  then show ?thesis using assms(1) by (simp add: wait_inv_def abandon_fires_def)
qed

lemma wait_runs:
  assumes "wait_inv c" "(t, i) \<in> set (c_fired c)"
  shows "wait_inv (abandon_runs t i c)"
proof -
  have i: "i < length (c_entries c)" using wait_invD(2)[OF assms(1), of t i] assms(2) by (simp add: timers_def)
  have w: "wait_ok (timers c) i (c_entries c ! i)" using assms(1) i by (rule wait_invD(1))
  have ok: "wait_ok (timers (abandon_runs t i c)) i (c_entries (abandon_runs t i c) ! i)"
  proof (cases "e_abandon (c_entries c ! i) = Some t")
    case True
    with i w show ?thesis by (simp add: abandon_runs_def upd_entry_nth wait_ok_def)
  next
    case False
    then show ?thesis using w by (auto simp: abandon_runs_def wait_ok_def timers_def)
  qed
  show ?thesis
    by (rule wait_one[OF assms(1) _ _ _ i ok])
      (use i in \<open>auto simp: abandon_runs_def Let_def upd_entry_nth timers_def split: if_splits\<close>)
qed

text \<open>The entries after the end of a call.\<close>

lemma run_ends_entries:
  assumes i: "i < length (c_entries c)" and j: "j < length (c_entries c)"
  shows "j \<noteq> i \<Longrightarrow> c_entries (run_ends now keep i out c) ! j = c_entries c ! j"
    and "let e = c_entries (run_ends now keep i out c) ! i in e_done e \<and> e_result e = Some out \<and>
      e_abandon e = None \<and> e_waiters e = e_waiters (c_entries c ! i) \<and>
      e_cancelled e = e_cancelled (c_entries c ! i)"
    and "k \<noteq> i \<Longrightarrow> (t, k) \<in> timers (run_ends now keep i out c) \<longleftrightarrow> (t, k) \<in> timers c"
proof -
  let ?u = "upd_entry i (\<lambda>e. e\<lparr>e_result := Some out\<rparr>) c"
  let ?s = "stop_abandon i ?u"
  have iu: "i < length (c_entries ?u)" using i by simp
  note S = stop_abandon_views[OF iu]
  have ent: "\<exists>s. length (c_entries s) = length (c_entries c) \<and> timers s = timers ?s \<and>
      (\<forall>j < length (c_entries c). j \<noteq> i \<longrightarrow> c_entries s ! j = c_entries ?s ! j) \<and>
      (\<exists>n. c_entries s ! i = (c_entries ?s ! i)\<lparr>e_finishedAt := n\<rparr>) \<and>
      run_ends now keep i out c = upd_entry i (\<lambda>e. e\<lparr>e_done := True\<rparr>) s" (is "\<exists>s. ?P s")
  proof (cases "kept keep out")
    case True
    obtain calls fin where tr: "trim_finished (c_maxFinished ?s) (c_calls ?s)
        (c_finished ?s @ [e_key (c_entries ?s ! i)]) = (calls, fin)" by fastforce
    show ?thesis
      using True S(1) iu tr
      by (intro exI[of _ "upd_entry i (\<lambda>e. e\<lparr>e_finishedAt := now\<rparr>)
          (?s\<lparr>c_pending := c_pending ?s - 1\<rparr>)\<lparr>c_calls := calls, c_finished := fin\<rparr>"])
        (auto simp: run_ends_def Let_def kept_def[symmetric] upd_entry_nth timers_def)
  next
    case False
    have id: "\<exists>n. e = e\<lparr>e_finishedAt := n\<rparr>" for e :: "('f, 'r) idempotentCall"
      by (intro exI[of _ "e_finishedAt e"]) simp
    show ?thesis
      using False S(1) iu id
      by (intro exI[of _ "?s\<lparr>c_pending := c_pending ?s - 1,
          c_calls := (c_calls ?s)(e_key (c_entries ?s ! i) := None)\<rparr>"])
        (simp add: run_ends_def Let_def kept_def[symmetric] timers_def)
  qed
  then obtain s n where s: "length (c_entries s) = length (c_entries c)" "timers s = timers ?s"
    "\<forall>j < length (c_entries c). j \<noteq> i \<longrightarrow> c_entries s ! j = c_entries ?s ! j"
    "c_entries s ! i = (c_entries ?s ! i)\<lparr>e_finishedAt := n\<rparr>"
    "run_ends now keep i out c = upd_entry i (\<lambda>e. e\<lparr>e_done := True\<rparr>) s" by blast
  show "c_entries (run_ends now keep i out c) ! j = c_entries c ! j" if "j \<noteq> i"
    using that s(1,3,5) i j S(2)[of j] by (simp add: upd_entry_nth)
  show "let e = c_entries (run_ends now keep i out c) ! i in e_done e \<and> e_result e = Some out \<and>
      e_abandon e = None \<and> e_waiters e = e_waiters (c_entries c ! i) \<and>
      e_cancelled e = e_cancelled (c_entries c ! i)"
    using s(1,4,5) i S(2)[of i] by (simp add: upd_entry_nth Let_def)
  show "(t, k) \<in> timers (run_ends now keep i out c) \<longleftrightarrow> (t, k) \<in> timers c" if "k \<noteq> i"
    using S(3)[OF that, of t] s(2) by (simp add: s(5) timers_def)
qed

lemma wait_ends:
  assumes "wait_inv c" "i < length (c_entries c)"
  shows "wait_inv (run_ends now keep i out c)"
proof (rule wait_one[OF assms(1) _ _ _ assms(2)])
  have w: "wait_ok (timers c) i (c_entries c ! i)" using assms by (rule wait_invD(1))
  show "wait_ok (timers (run_ends now keep i out c)) i (c_entries (run_ends now keep i out c) ! i)"
    using w run_ends_entries(2)[OF assms(2,2), of now keep out] by (simp add: Let_def wait_ok_def)
  show "length (c_entries (run_ends now keep i out c)) = length (c_entries c)"
    using run_ends_views[OF assms(2) refl refl] by blast
qed (use run_ends_entries(1,3)[OF assms(2) assms(2)] run_ends_entries(1)[OF assms(2)] in blast)+

lemma wait_step:
  assumes "book_inv c" "wait_inv c" "idem_step keep c c'"
  shows "wait_inv c'"
  using assms(3,1,2)
proof (induction rule: idem_step.induct)
  case (enter now key fp c r c')
  from enter(2,3,1) show ?case by (rule wait_enter)
next
  case (leave i c)
  from leave(4,1,2) show ?case by (rule wait_detach)
next
  case (fires t i c)
  from fires(3,1) show ?case by (rule wait_fires)
next
  case (runs t i c)
  from runs(3,1) show ?case by (rule wait_runs)
next
  case (ends i c now out)
  from ends(4,1) show ?case by (rule wait_ends)
qed

lemma limits_step:
  assumes "book_inv c" "idem_step keep c c'"
  shows "c_maxPending c' = c_maxPending c \<and> c_maxFinished c' = c_maxFinished c"
  using assms(2,1)
proof (induction rule: idem_step.induct)
  case (enter now key fp c r c')
  show ?case
    by (rule Do_enter_cases[OF enter(2,1)])
      (auto simp: expired_from_def start_call_def attach_def stop_abandon_def split: option.splits)
next
  case (leave i c)
  then show ?case by (simp add: detach_def Let_def)
next
  case (fires t i c)
  then show ?case by (simp add: abandon_fires_def)
next
  case (runs t i c)
  then show ?case by (simp add: abandon_runs_def Let_def)
next
  case (ends i c now out)
  show ?case using run_ends_views[OF ends(1) refl refl] by blast
qed

lemma idem_inv:
  "idem_reachable keep mf mp c \<Longrightarrow> book_inv c \<and> wait_inv c \<and> c_maxPending c = mp \<and> c_maxFinished c = mf"
proof (induction rule: idem_reachable.induct)
  case init
  show ?case
    by (simp add: book_inv_def book_core_def running_def wait_inv_def newIdempotentCalls_def timers_def)
next
  case (step c c')
  then show ?case using book_step wait_step limits_step by metis
qed

text \<open>Entries live: their key and fingerprint never change, and neither does a result.\<close>

definition entry_keeps :: "('f, 'r) idempotentCalls \<Rightarrow> ('f, 'r) idempotentCalls \<Rightarrow> nat \<Rightarrow> bool" where
  "entry_keeps c c' i \<longleftrightarrow>
     (let e = c_entries c ! i; e' = c_entries c' ! i in
      i < length (c_entries c') \<and> e_key e' = e_key e \<and> e_fingerprint e' = e_fingerprint e \<and>
      (e_done e \<longrightarrow> e_done e' \<and> e_result e' = e_result e) \<and>
      (e_cancelled e' \<and> \<not> e_cancelled e \<longrightarrow> e_waiters e = 0 \<and> \<not> e_done e))"

lemma entry_keeps_same:
  "i < length (c_entries c') \<Longrightarrow> c_entries c' ! i = c_entries c ! i \<Longrightarrow> entry_keeps c c' i"
  by (simp add: entry_keeps_def Let_def)

lemma entry_keeps_step:
  assumes "book_inv c" "wait_inv c" "idem_step keep c c'" "k < length (c_entries c)"
  shows "entry_keeps c c' k"
  using assms(3,1,2,4)
proof (induction rule: idem_step.induct)
  case (enter now key fp c r c')
  show ?case
  proof (rule Do_enter_cases[OF enter(2,1)])
    fix d i assume "expired_from c d" "i < length (c_entries c)" "c' = attach i d"
    then show ?thesis using enter(4) stop_abandon_views(1,2)[of i "upd_entry i f d" for f]
      by (simp add: entry_keeps_def Let_def attach_def expired_from_def upd_entry_nth)
  qed (use enter(4) in \<open>auto intro!: entry_keeps_same simp: expired_from_def start_call_def nth_append\<close>)
next
  case (leave i c)
  then show ?case by (simp add: entry_keeps_def detach_def Let_def upd_entry_nth)
next
  case (fires t i c)
  then show ?case by (simp add: entry_keeps_def abandon_fires_def Let_def)
next
  case (runs t i c)
  then have "(t, i) \<in> timers c" by (simp add: timers_def)
  with runs have i: "i < length (c_entries c)" using wait_invD(2) by blast
  have "wait_ok (timers c) i (c_entries c ! i)" using runs(3) i by (rule wait_invD(1))
  then show ?case using i runs(4)
    by (auto simp: entry_keeps_def abandon_runs_def Let_def upd_entry_nth wait_ok_def)
next
  case (ends i c now out)
  show ?case
  proof (cases "k = i")
    case True
    then show ?thesis
      using run_ends_entries(2)[OF ends(1,1), of now keep out] run_ends_views[OF ends(1) refl refl, of now keep out] ends(1,2)
      by (simp add: entry_keeps_def Let_def)
  next
    case False
    then show ?thesis
      using run_ends_entries(1)[OF ends(1,5), of now keep out] run_ends_views[OF ends(1) refl refl, of now keep out] ends(5)
      by (intro entry_keeps_same) simp_all
  qed
qed

text \<open>A key that is running, or whose result is fresh, survives the expiry.\<close>

lemma expire_loop_keeps:
  "expire_loop cutoff entries calls ks = Some (calls', r) \<Longrightarrow> calls k = Some i \<Longrightarrow>
   k \<notin> set ks \<or> cutoff \<le> e_finishedAt (entries ! i) \<Longrightarrow> calls' k = Some i"
proof (induction cutoff entries calls ks rule: expire_loop.induct)
  case (2 cutoff entries calls a ks)
  from 2(2) obtain x where x: "calls a = Some x" by (auto split: option.splits)
  show ?case
  proof (cases "e_finishedAt (entries ! x) < cutoff")
    case True
    have "k \<noteq> a" using 2(3,4) x True by auto
    then have k: "(calls(a := None)) k = Some i" "k \<notin> set ks \<or> cutoff \<le> e_finishedAt (entries ! i)"
      using 2(3,4) by auto
    have "expire_loop cutoff entries (calls(a := None)) ks = Some (calls', r)"
      using 2(2) x True by simp
    then show ?thesis by (rule 2(1)[OF x True _ k])
  next
    case False
    with 2(2,3) x show ?thesis by simp
  qed
qed simp

lemma expire_keeps:
  assumes "book_inv c" "expire now c = Some d" "c_calls c k = Some i"
    "\<not> e_done (c_entries c ! i) \<or> now - c_retention c \<le> e_finishedAt (c_entries c ! i)"
  shows "c_calls d k = Some i"
proof -
  have "book_core c" using assms(1) by (simp add: book_inv_def)
  from book_coreD(3)[OF this, of k] assms(3,4)
  have "k \<notin> set (c_finished c) \<or> now - c_retention c \<le> e_finishedAt (c_entries c ! i)" by auto
  with assms(2,3) expire_loop_keeps show ?thesis
    by (fastforce simp: expire_def split: option.splits)
qed

section \<open>Properties\<close>

text \<open>
  C16. The books of the idempotent calls, in every state any interleaving of callers, calls and
  timers can reach: the pending count is the number of running calls and stays within maxPending,
  at most maxFinished results are remembered, each key of the list of finished results is a
  finished call of the map, each running call is the one its key finds, and the next caller's
  critical section never reads an entry that is not there.
\<close>

theorem idempotency_books:
  assumes "idem_reachable keep mf mp c"
  shows "c_pending c = card (running c) \<and> c_pending c \<le> mp \<and> length (c_finished c) \<le> mf \<and>
    (\<forall>k \<in> set (c_finished c). \<exists>i. c_calls c k = Some i \<and> e_done (c_entries c ! i)) \<and>
    (\<forall>i \<in> running c. c_calls c (e_key (c_entries c ! i)) = Some i) \<and>
    Do_enter now key fp c \<noteq> None"
proof -
  have inv: "book_inv c" "c_maxPending c = mp" "c_maxFinished c = mf" using idem_inv[OF assms] by simp_all
  then have core: "book_core c" by (simp add: book_inv_def)
  show ?thesis
    using inv Do_enter_total[OF inv(1), of now key fp] book_coreD(3,5)[OF core] book_coreD(2)[OF core]
    by (simp add: book_inv_def)
qed

text \<open>
  C17. At most once. A caller whose key is running, or finished with a kept result younger than the
  retention period, never starts a call: it joins the call of that key when the fingerprints
  agree, and is refused with \<open>errIdempotencyKeyReused\<close> when they differ. And no two running calls
  have the same key.
\<close>

theorem at_most_once:
  assumes "idem_reachable keep mf mp c" "Do_enter now key fp c = Some (r, c')"
    and "c_calls c key = Some i"
    and "\<not> e_done (c_entries c ! i) \<or> now - c_retention c \<le> e_finishedAt (c_entries c ! i)"
  shows "r = (if e_fingerprint (c_entries c ! i) = fp then Joined i else KeyReused) \<and>
    (\<forall>j \<in> running c'. \<forall>k \<in> running c'. e_key (c_entries c' ! j) = e_key (c_entries c' ! k) \<longrightarrow> j = k)"
proof -
  have inv: "book_inv c" using idem_inv[OF assms(1)] by simp
  obtain d where d: "expire now c = Some d" "book_inv d" "expired_from c d" using expire_facts[OF inv] .
  have ent: "c_entries d = c_entries c" using d(3) by (simp add: expired_from_def)
  have "c_calls d key = Some i" by (rule expire_keeps[OF inv d(1) assms(3,4)])
  then have r: "r = (if e_fingerprint (c_entries c ! i) = fp then Joined i else KeyReused)"
    using assms(2) ent d(1) by (simp add: Do_enter_def split: if_splits)
  have "book_core c'" using book_enter[OF inv assms(2)] by (simp add: book_inv_def)
  note run = book_coreD(2)[OF this]
  have "\<forall>j \<in> running c'. \<forall>k \<in> running c'. e_key (c_entries c' ! j) = e_key (c_entries c' ! k) \<longrightarrow> j = k"
  proof (intro ballI impI)
    fix j k assume a: "j \<in> running c'" "k \<in> running c'" "e_key (c_entries c' ! j) = e_key (c_entries c' ! k)"
    have "Some j = Some k" using run[OF a(1)] run[OF a(2)] by (simp only: a(3))
    then show "j = k" by simp
  qed
  with r show ?thesis by (rule conjI)
qed

text \<open>
  C18. The life of a call. In every step of any interleaving a call keeps its key and fingerprint,
  a finished call stays finished with the result it had, so every caller that joined it reads the
  same result, and a call is cancelled only when no caller waits for it and it is still running.
  A running call nobody waits for is never forgotten: it is cancelled, or its abandon timer is
  pending.
\<close>

theorem call_life:
  assumes "idem_reachable keep mf mp c" "idem_step keep c c'" "i < length (c_entries c)"
  shows "e_key (c_entries c' ! i) = e_key (c_entries c ! i) \<and>
    e_fingerprint (c_entries c' ! i) = e_fingerprint (c_entries c ! i) \<and>
    (e_done (c_entries c ! i) \<longrightarrow>
       e_done (c_entries c' ! i) \<and> e_result (c_entries c' ! i) = e_result (c_entries c ! i)) \<and>
    (e_cancelled (c_entries c' ! i) \<and> \<not> e_cancelled (c_entries c ! i) \<longrightarrow>
       e_waiters (c_entries c ! i) = 0 \<and> \<not> e_done (c_entries c ! i)) \<and>
    (\<not> e_done (c_entries c ! i) \<and> e_waiters (c_entries c ! i) = 0 \<longrightarrow>
       e_cancelled (c_entries c ! i) \<or>
       (\<exists>t. e_abandon (c_entries c ! i) = Some t \<and> (t, i) \<in> set (c_armed c) \<union> set (c_fired c)))"
proof -
  have inv: "book_inv c" "wait_inv c" using idem_inv[OF assms(1)] by simp_all
  have k: "entry_keeps c c' i" using inv assms(2,3) by (rule entry_keeps_step)
  have w: "wait_ok (timers c) i (c_entries c ! i)" using inv(2) assms(3) by (rule wait_invD(1))
  show ?thesis using k w unfolding entry_keeps_def Let_def wait_ok_def timers_def by blast
qed

text \<open>
  Witnesses: a first call of a key, a second caller that joins it, both leaving, the timer
  cancelling the call, and a finished call whose result is kept.
\<close>

definition idem_start :: "(nat, nat) idempotentCalls" where
  "idem_start = snd (the (Do_enter 0 ''k'' 7 (newIdempotentCalls 2 1)))"

lemma idem_start_eq: "idem_start = start_call ''k'' 7 (newIdempotentCalls 2 1)"
  by (simp add: idem_start_def Do_enter_def expire_def newIdempotentCalls_def)

lemma idem_start_reachable: "idem_reachable (\<lambda>r. True) 2 1 idem_start"
proof (rule idem_reachable.step[OF idem_reachable.init])
  show "idem_step (\<lambda>r. True) (newIdempotentCalls 2 1) idem_start"
    by (rule enter[of 0 "''k''" 7 _ "Started 0"])
      (simp add: idem_start_eq Do_enter_def expire_def newIdempotentCalls_def)
qed

lemma idempotency_books_witness:
  "c_pending idem_start = card (running idem_start) \<and> c_pending idem_start \<le> 1 \<and>
   length (c_finished idem_start) \<le> 2 \<and> Do_enter 5 ''j'' (8 :: nat) idem_start \<noteq> None"
  using idempotency_books[OF idem_start_reachable, of 5 "''j''" 8] by blast

lemma at_most_once_witness:
  "fst (the (Do_enter 5 ''k'' 7 idem_start)) = Joined 0 \<and> fst (the (Do_enter 5 ''k'' 8 idem_start)) = KeyReused"
proof -
  have c: "c_calls idem_start ''k'' = Some 0" "\<not> e_done (c_entries idem_start ! 0)"
    "e_fingerprint (c_entries idem_start ! 0) = 7"
    by (simp_all add: idem_start_eq start_call_def new_call_def newIdempotentCalls_def)
  have "fst (the (Do_enter 5 ''k'' fp idem_start)) = (if 7 = fp then Joined 0 else KeyReused)" for fp
  proof -
    have "Do_enter 5 ''k'' fp idem_start \<noteq> None"
      using idem_inv[OF idem_start_reachable] by (intro Do_enter_total) simp
    then obtain r c' where e: "Do_enter 5 ''k'' fp idem_start = Some (r, c')" by force
    from at_most_once[OF idem_start_reachable e c(1)] c(2,3) e show ?thesis by simp
  qed
  from this[of 7] this[of 8] show ?thesis by simp
qed

lemma call_life_witness:
  "e_waiters (c_entries idem_start ! 0) = 1 \<and> e_waiters (c_entries (detach 0 idem_start) ! 0) = 0 \<and>
   e_key (c_entries (detach 0 idem_start) ! 0) = ''k''"
proof -
  have c: "length (c_entries idem_start) = 1" "e_waiters (c_entries idem_start ! 0) = 1"
    "e_key (c_entries idem_start ! 0) = ''k''"
    by (simp_all add: idem_start_eq start_call_def new_call_def newIdempotentCalls_def)
  have "idem_step (\<lambda>r. True) idem_start (detach 0 idem_start)" by (rule leave) (simp_all add: c)
  from call_life[OF idem_start_reachable this, of 0] c show ?thesis
    by (simp add: detach_def Let_def upd_entry_nth)
qed

end
