(* ===== verification/CdpCommand.thy ===== *)
theory CdpCommand
  imports GoJson
begin

text \<open>
  The commands a client sends to Chromium, as the telemetry of the DevTools proxy reads them
  (\<open>lib/devtoolsproxy/cdpcommand.go\<close> and the first part of \<open>lib/devtoolsproxy/cdpparams.go\<close>): the
  envelope, the vocabularies of the event schema (\<open>lib/oapi/oapi.go\<close>) and the functions that
  reduce an argument to what may be published. What follows them serves the three theories of
  sanitizers: the encoding of payload members, payload schemas, and the blanking of arguments.
\<close>

section \<open>The envelope\<close>

text \<open>A frame is text or binary; text is JSON or not. The methods and messages are byte strings.\<close>

datatype frame_text = NotJson | Json json

text \<open>\<open>cdpCommandMethod\<close>: the probe for the method alone.\<close>

record cdpCommandMethod =
  probe_Method :: string

definition probe_fields :: "cdpCommandMethod struct_fields" where
  "probe_fields = [(''method'', plain_field as_string probe_Method_update)]"

definition probe_method :: "json \<Rightarrow> string option" where
  "probe_method j = map_option probe_Method (decode_struct probe_fields j \<lparr>probe_Method = []\<rparr>)"

record cdpCommand =
  cmd_ID :: "int option"
  cmd_Method :: string
  cmd_SessionID :: string
  cmd_Params :: "json option"
  cmd_connectionID :: string

definition cdpCommand_fields :: "cdpCommand struct_fields" where
  "cdpCommand_fields =
     [(''id'', ptr_field as_int cmd_ID_update), (''method'', plain_field as_string cmd_Method_update),
      (''sessionId'', plain_field as_string cmd_SessionID_update), (''params'', raw_field cmd_Params_update)]"

definition maxOpaqueIDBytes :: nat where
  "maxOpaqueIDBytes = 128"

definition clipID :: "string \<Rightarrow> string" where
  "clipID v = (if length v \<le> maxOpaqueIDBytes then v else take maxOpaqueIDBytes v)"

definition clipIDPtr :: "string option \<Rightarrow> string option" where
  "clipIDPtr v = map_option clipID v"

definition sessionID :: "cdpCommand \<Rightarrow> string option" where
  "sessionID c = (if cmd_SessionID c = [] then None else clipIDPtr (Some (cmd_SessionID c)))"

definition connID :: "cdpCommand \<Rightarrow> string option" where
  "connID c = (if cmd_connectionID c = [] then None else clipIDPtr (Some (cmd_connectionID c)))"

section \<open>Vocabularies\<close>

text \<open>The values the generated \<open>Valid\<close> methods accept.\<close>

definition BrowserCdpMouseEventType :: "string list" where
  "BrowserCdpMouseEventType = [''mouseMoved'', ''mousePressed'', ''mouseReleased'',
      ''mouseWheel'', ''other'']"

definition BrowserCdpKeyEventType :: "string list" where
  "BrowserCdpKeyEventType = [''char'', ''keyDown'', ''keyUp'', ''other'', ''rawKeyDown'']"

definition BrowserCdpTouchEventType :: "string list" where
  "BrowserCdpTouchEventType = [''other'', ''touchCancel'', ''touchEnd'', ''touchMove'',
      ''touchStart'']"

definition BrowserCdpDragEventType :: "string list" where
  "BrowserCdpDragEventType = [''dragCancel'', ''dragEnter'', ''dragOver'', ''drop'', ''other'']"

definition BrowserCdpWebLifecycleState :: "string list" where
  "BrowserCdpWebLifecycleState = [''active'', ''frozen'', ''other'']"

definition BrowserCdpMouseButton :: "string list" where
  "BrowserCdpMouseButton = [''back'', ''forward'', ''left'', ''middle'', ''none'', ''other'',
      ''right'']"

definition BrowserCdpPointerType :: "string list" where
  "BrowserCdpPointerType = [''mouse'', ''other'', ''pen'']"

definition BrowserCdpGestureSourceType :: "string list" where
  "BrowserCdpGestureSourceType = [''default'', ''mouse'', ''other'', ''touch'']"

definition BrowserCdpScreenshotFormat :: "string list" where
  "BrowserCdpScreenshotFormat = [''jpeg'', ''other'', ''png'', ''webp'']"

definition BrowserCdpSnapshotFormat :: "string list" where
  "BrowserCdpSnapshotFormat = [''mhtml'', ''other'']"

definition BrowserCdpScreencastFormat :: "string list" where
  "BrowserCdpScreencastFormat = [''jpeg'', ''other'', ''png'']"

definition BrowserCdpPdfTransferMode :: "string list" where
  "BrowserCdpPdfTransferMode = [''other'', ''ReturnAsBase64'', ''ReturnAsStream'']"

definition BrowserCdpWindowState :: "string list" where
  "BrowserCdpWindowState = [''fullscreen'', ''maximized'', ''minimized'', ''normal'', ''other'']"

definition BrowserCdpTransitionType :: "string list" where
  "BrowserCdpTransitionType = [''address_bar'', ''auto_bookmark'', ''auto_subframe'',
      ''auto_toplevel'', ''form_submit'', ''generated'', ''keyword'', ''keyword_generated'',
      ''link'', ''manual_subframe'', ''other'', ''reload'', ''typed'']"

definition BrowserCdpReferrerPolicy :: "string list" where
  "BrowserCdpReferrerPolicy = [''noReferrer'', ''noReferrerWhenDowngrade'', ''origin'',
      ''originWhenCrossOrigin'', ''other'', ''sameOrigin'', ''strictOrigin'',
      ''strictOriginWhenCrossOrigin'', ''unsafeUrl'']"

definition BrowserCdpDragMimeCategory :: "string list" where
  "BrowserCdpDragMimeCategory = [''application'', ''audio'', ''font'', ''image'', ''message'',
      ''model'', ''multipart'', ''other'', ''text'', ''video'']"

definition BrowserCdpAutofillMode :: "string list" where
  "BrowserCdpAutofillMode = [''address'', ''card'']"

text \<open>An enumeration is reported only when the schema knows the value.\<close>

definition unknownEnumValue :: string where
  "unknownEnumValue = ''other''"

definition enumOf :: "string list \<Rightarrow> string \<Rightarrow> string" where
  "enumOf valid v = (if v \<noteq> [] \<and> v \<in> set valid then v else unknownEnumValue)"

definition optionalEnumOf :: "string list \<Rightarrow> string option \<Rightarrow> string option" where
  "optionalEnumOf valid v =
     (case v of None \<Rightarrow> None | Some s \<Rightarrow> if s = [] then None else Some (enumOf valid s))"

definition mouseEventType :: "string \<Rightarrow> string" where
  "mouseEventType v = enumOf BrowserCdpMouseEventType v"

definition keyEventType :: "string \<Rightarrow> string" where
  "keyEventType v = enumOf BrowserCdpKeyEventType v"

definition touchEventType :: "string \<Rightarrow> string" where
  "touchEventType v = enumOf BrowserCdpTouchEventType v"

definition dragEventType :: "string \<Rightarrow> string" where
  "dragEventType v = enumOf BrowserCdpDragEventType v"

definition webLifecycleState :: "string \<Rightarrow> string" where
  "webLifecycleState v = enumOf BrowserCdpWebLifecycleState v"

definition mouseButton :: "string option \<Rightarrow> string option" where
  "mouseButton v = optionalEnumOf BrowserCdpMouseButton v"

definition pointerType :: "string option \<Rightarrow> string option" where
  "pointerType v = optionalEnumOf BrowserCdpPointerType v"

definition gestureSourceType :: "string option \<Rightarrow> string option" where
  "gestureSourceType v = optionalEnumOf BrowserCdpGestureSourceType v"

definition screenshotFormat :: "string option \<Rightarrow> string option" where
  "screenshotFormat v = optionalEnumOf BrowserCdpScreenshotFormat v"

definition snapshotFormat :: "string option \<Rightarrow> string option" where
  "snapshotFormat v = optionalEnumOf BrowserCdpSnapshotFormat v"

definition screencastFormat :: "string option \<Rightarrow> string option" where
  "screencastFormat v = optionalEnumOf BrowserCdpScreencastFormat v"

definition pdfTransferMode :: "string option \<Rightarrow> string option" where
  "pdfTransferMode v = optionalEnumOf BrowserCdpPdfTransferMode v"

definition windowState :: "string option \<Rightarrow> string option" where
  "windowState v = optionalEnumOf BrowserCdpWindowState v"

definition transitionType :: "string option \<Rightarrow> string option" where
  "transitionType v = optionalEnumOf BrowserCdpTransitionType v"

definition referrerPolicy :: "string option \<Rightarrow> string option" where
  "referrerPolicy v = optionalEnumOf BrowserCdpReferrerPolicy v"

section \<open>What is left of an argument\<close>

text \<open>Absent arguments and \<open>null\<close> mean all defaults.\<close>

definition decodeParams :: "'s struct_fields \<Rightarrow> 's \<Rightarrow> json option \<Rightarrow> 's option" where
  "decodeParams fs zero raw =
     (case raw of None \<Rightarrow> Some zero | Some v \<Rightarrow> if v = JNull then Some zero else decode_struct fs v zero)"

definition runeLen :: "string option \<Rightarrow> int option" where
  "runeLen s = map_option (\<lambda>s. int (rune_count s)) s"

definition present :: "string option \<Rightarrow> bool" where
  "present s \<longleftrightarrow> (\<exists>t \<in> set_option s. t \<noteq> [])"

text \<open>\<open>len\<close> of a slice, which is 0 for nil.\<close>

definition slice_len :: "'a list option \<Rightarrow> int" where
  "slice_len s = (case s of None \<Rightarrow> 0 | Some xs \<Rightarrow> int (length xs))"

definition count_of :: "'a list option \<Rightarrow> int option" where
  "count_of items = Some (slice_len items)"

definition namedKeys :: "string list" where
  "namedKeys =
     [''Enter'', ''Tab'', ''Escape'', ''Backspace'', ''Delete'', ''Insert'',
      ''Home'', ''End'', ''PageUp'', ''PageDown'', ''ArrowUp'', ''ArrowDown'', ''ArrowLeft'', ''ArrowRight'',
      ''Shift'', ''Control'', ''Alt'', ''Meta'', ''CapsLock'', ''NumLock'', ''ScrollLock'',
      ''ContextMenu'', ''Pause'', ''PrintScreen'',
      ''F1'', ''F2'', ''F3'', ''F4'', ''F5'', ''F6'', ''F7'', ''F8'', ''F9'', ''F10'', ''F11'', ''F12'']"

definition namedKey :: "string option \<Rightarrow> string option" where
  "namedKey key = (case key of None \<Rightarrow> None | Some k \<Rightarrow> if k \<in> set namedKeys then Some k else None)"

subsection \<open>MIME types\<close>

definition mimeCategories :: "string list" where
  "mimeCategories = [''text'', ''image'', ''audio'', ''video'', ''application'', ''font'', ''model'',
      ''multipart'', ''message'']"

text \<open>
  \<open>strings.ToLower\<close>, as far as the result is compared with ASCII words or is ASCII already: of the
  runes outside ASCII only the Kelvin sign and the dotted capital I have an ASCII lower case.
\<close>

definition lower :: "char \<Rightarrow> char" where
  "lower c = (if 0x41 \<le> byte c \<and> byte c \<le> 0x5A then char_of (byte c + 0x20) else c)"

fun to_lower :: "string \<Rightarrow> string" where
  "to_lower [] = []"
| "to_lower (c # s) =
     (if has_prefix [CHR 0xC4, CHR 0xB0] (c # s) then CHR ''i'' # to_lower (drop 1 s)
      else if has_prefix [CHR 0xE2, CHR 0x84, CHR 0xAA] (c # s) then CHR ''k'' # to_lower (drop 2 s)
      else lower c # to_lower s)"

definition mime_category :: "string \<Rightarrow> string" where
  "mime_category mimeType =
     (let category = to_lower (trim_space (takeWhile (\<lambda>c. c \<noteq> CHR ''/'') mimeType))
      in if category \<in> set mimeCategories then category else ''other'')"

subsection \<open>URL schemes\<close>

definition maxURLSchemeBytes :: nat where
  "maxURLSchemeBytes = 32"

definition is_letter :: "char \<Rightarrow> bool" where
  "is_letter c \<longleftrightarrow> (0x41 \<le> byte c \<and> byte c \<le> 0x5A) \<or> (0x61 \<le> byte c \<and> byte c \<le> 0x7A)"

definition is_digit :: "char \<Rightarrow> bool" where
  "is_digit c \<longleftrightarrow> 0x30 \<le> byte c \<and> byte c \<le> 0x39"

definition is_hex :: "char \<Rightarrow> bool" where
  "is_hex c \<longleftrightarrow> is_digit c \<or> (0x41 \<le> byte c \<and> byte c \<le> 0x46) \<or> (0x61 \<le> byte c \<and> byte c \<le> 0x66)"

text \<open>
  \<open>getScheme\<close> of \<open>net/url\<close>: the scheme and the rest; no scheme is the empty one, \<open>None\<close> an error.
  \<open>seen\<close> are the characters read so far.
\<close>

fun get_scheme :: "string \<Rightarrow> string \<Rightarrow> (string \<times> string) option" where
  "get_scheme seen [] = Some ([], seen)"
| "get_scheme seen (c # s) =
     (if is_letter c then get_scheme (seen @ [c]) s
      else if is_digit c \<or> c \<in> set ''+-.'' then
        (if seen = [] then Some ([], c # s) else get_scheme (seen @ [c]) s)
      else if c = CHR '':'' then (if seen = [] then None else Some (seen, s))
      else Some ([], seen @ c # s))"

text \<open>The escapes of a path or a fragment.\<close>

fun valid_escapes :: "string \<Rightarrow> bool" where
  "valid_escapes [] = True"
| "valid_escapes (c # s) =
     (if c = CHR ''%'' then
        (case s of a # b # r \<Rightarrow> is_hex a \<and> is_hex b \<and> valid_escapes r | _ \<Rightarrow> False)
      else valid_escapes s)"

text \<open>
  What \<open>url.Parse\<close> checks after a non-empty scheme. The rules for user, host and port between
  \<open>//\<close> and the next slash differ between releases of Go and are the parameter \<open>authority_ok\<close>.
\<close>

definition url_rest_ok :: "(string \<Rightarrow> bool) \<Rightarrow> string \<Rightarrow> bool" where
  "url_rest_ok authority_ok rest =
     (let path = takeWhile (\<lambda>c. c \<noteq> CHR ''?'') rest in
      if \<not> has_prefix ''/'' path then True
      else if has_prefix ''//'' path then
        authority_ok (takeWhile (\<lambda>c. c \<noteq> CHR ''/'') (drop 2 path)) \<and>
        valid_escapes (dropWhile (\<lambda>c. c \<noteq> CHR ''/'') (drop 2 path))
      else valid_escapes path)"

text \<open>The scheme of \<open>url.Parse\<close>; \<open>None\<close> for an error or an empty scheme, which end alike here.\<close>

definition parsed_scheme :: "(string \<Rightarrow> bool) \<Rightarrow> string \<Rightarrow> string option" where
  "parsed_scheme authority_ok raw =
     (let u = takeWhile (\<lambda>c. c \<noteq> CHR ''#'') raw;
          fragment = drop 1 (dropWhile (\<lambda>c. c \<noteq> CHR ''#'') raw)
      in if \<exists>c \<in> set u. byte c < 0x20 \<or> byte c = 0x7F then None
         else case get_scheme [] u of
           None \<Rightarrow> None
         | Some (scheme, rest) \<Rightarrow>
             if scheme = [] \<or> \<not> url_rest_ok authority_ok rest \<or> \<not> valid_escapes fragment then None
             else Some (map lower scheme))"

definition urlScheme :: "(string \<Rightarrow> bool) \<Rightarrow> string \<Rightarrow> string option" where
  "urlScheme authority_ok raw =
     (if raw = [] then None else map_option (take maxURLSchemeBytes) (parsed_scheme authority_ok raw))"

section \<open>Slices of structs\<close>

text \<open>
  An array is decoded into the elements the slice already has, those beyond its length included:
  a member given twice sees what the first one left. The pair is the slice and what its array holds
  behind it.
\<close>

type_synonym 'a backed = "('a list \<times> 'a list) option"

definition visible :: "'a backed \<Rightarrow> 'a list" where
  "visible b = (case b of None \<Rightarrow> [] | Some (xs, _) \<Rightarrow> xs)"

fun decode_over :: "(json \<Rightarrow> 'a \<Rightarrow> 'a option) \<Rightarrow> 'a \<Rightarrow> json list \<Rightarrow> 'a list \<Rightarrow> ('a list \<times> 'a list) option" where
  "decode_over elem zero [] old = Some ([], old)"
| "decode_over elem zero (v # vs) old =
     (case elem v (case old of x # _ \<Rightarrow> x | [] \<Rightarrow> zero) of
        None \<Rightarrow> None
      | Some y \<Rightarrow> map_option (map_prod (Cons y) id) (decode_over elem zero vs (drop 1 old)))"

definition backed_field ::
  "(json \<Rightarrow> 'a \<Rightarrow> 'a option) \<Rightarrow> 'a \<Rightarrow> ('s \<Rightarrow> 'a backed) \<Rightarrow> (('a backed \<Rightarrow> 'a backed) \<Rightarrow> 's \<Rightarrow> 's)
     \<Rightarrow> json \<Rightarrow> 's \<Rightarrow> 's option" where
  "backed_field elem zero get upd v s =
     (case v of
        JNull \<Rightarrow> Some (upd (\<lambda>_. None) s)
      | JArray vs \<Rightarrow>
          map_option (\<lambda>b. upd (\<lambda>_. Some (if vs = [] then ([], []) else b)) s)
            (decode_over elem zero vs (case get s of None \<Rightarrow> [] | Some (xs, spare) \<Rightarrow> xs @ spare))
      | _ \<Rightarrow> None)"

section \<open>Payloads\<close>

text \<open>A payload is the object \<open>json.Marshal\<close> makes of a generated struct: its members in field order.\<close>

type_synonym sanitizer = "cdpCommand \<Rightarrow> members option"

abbreviation jint :: "int \<Rightarrow> json" where
  "jint i \<equiv> JNumber (IntLit i)"

definition opt_member :: "('a \<Rightarrow> json) \<Rightarrow> string \<Rightarrow> 'a option \<Rightarrow> members" where
  "opt_member enc name v = (case v of None \<Rightarrow> [] | Some x \<Rightarrow> [(name, enc x)])"

text \<open>
  A schema lists the members a generated struct can have, in order, with the kind of each and
  whether it is always there.
\<close>

datatype member_kind = KInt | KFloat | KBool | KText | KEnum "string list" | KEnums "string list"

type_synonym schema = "(string \<times> member_kind \<times> bool) list"

fun has_kind :: "member_kind \<Rightarrow> json \<Rightarrow> bool" where
  "has_kind KInt (JNumber (IntLit i)) = True"
| "has_kind KFloat (JNumber n) = True"
| "has_kind KBool (JBool b) = True"
| "has_kind KText (JString s) = (length s \<le> 3 * maxOpaqueIDBytes)"
| "has_kind (KEnum vs) (JString s) = (s \<in> set vs)"
| "has_kind (KEnums vs) (JArray js) = (distinct js \<and> (\<forall>j \<in> set js. \<exists>v \<in> set vs. j = JString v))"
| "has_kind _ _ = False"

fun fits :: "schema \<Rightarrow> members \<Rightarrow> bool" where
  "fits [] ms \<longleftrightarrow> ms = []"
| "fits ((name, kind, required) # sch) ms \<longleftrightarrow>
     (\<not> required \<and> fits sch ms) \<or>
     (case ms of (k, v) # ms' \<Rightarrow> k = name \<and> has_kind kind v \<and> fits sch ms' | [] \<Rightarrow> False)"

lemma fits_required: "has_kind kind v \<Longrightarrow> fits sch ms \<Longrightarrow> fits ((name, kind, r) # sch) ((name, v) # ms)"
  by simp

lemma fits_optional:
  "(\<And>x. v = Some x \<Longrightarrow> has_kind kind (enc x)) \<Longrightarrow> fits sch ms
   \<Longrightarrow> fits ((name, kind, False) # sch) (opt_member enc name v @ ms)"
  by (cases v) (auto simp: opt_member_def)

lemma fits_optional_last:
  "(\<And>x. v = Some x \<Longrightarrow> has_kind kind (enc x)) \<Longrightarrow> fits [(name, kind, False)] (opt_member enc name v)"
  using fits_optional[of v kind enc "[]" "[]" name] by simp

subsection \<open>Bounded texts\<close>

lemma length_to_valid: "length (to_valid_utf8 s) \<le> 3 * length s"
proof (induction s rule: to_valid_utf8.induct)
  case (1 s)
  show ?case
  proof (cases "s = []")
    case False
    let ?n = "rune_size s"
    have n: "0 < ?n" "?n \<le> length s" using rune_size_pos[OF False] rune_size_le by auto
    have "length (to_valid_utf8 (drop ?n s)) \<le> 3 * (length s - ?n)" using 1 False by simp
    moreover have "length (to_valid_utf8 s) \<le> 3 * ?n + length (to_valid_utf8 (drop ?n s))"
      using False n by (subst to_valid_utf8.simps) auto
    ultimately show ?thesis using n by linarith
  qed simp
qed

lemma text_ok: "length s \<le> maxOpaqueIDBytes \<Longrightarrow> has_kind KText (jstr s)"
  using length_to_valid[of s] by (simp add: jstr_def)

lemma clipID_short: "length (clipID v) \<le> maxOpaqueIDBytes"
  by (simp add: clipID_def)

lemma clipped_ok [simp]: "has_kind KText (jstr (clipID v))"
  by (rule text_ok, rule clipID_short)

lemma clipIDPtr_ok: "clipIDPtr v = Some x \<Longrightarrow> has_kind KText (jstr x)"
  by (auto simp: clipIDPtr_def)

lemma sessionID_ok: "sessionID c = Some x \<Longrightarrow> has_kind KText (jstr x)"
  by (auto simp: sessionID_def clipIDPtr_def split: if_splits)

lemma connID_ok: "connID c = Some x \<Longrightarrow> has_kind KText (jstr x)"
  by (auto simp: connID_def clipIDPtr_def split: if_splits)

lemma namedKey_ok: "namedKey k = Some x \<Longrightarrow> has_kind KText (jstr x)"
proof -
  assume "namedKey k = Some x"
  then have "x \<in> set namedKeys" by (auto simp: namedKey_def split: option.splits if_splits)
  moreover have "\<forall>x \<in> set namedKeys. length x \<le> maxOpaqueIDBytes"
    by (simp add: namedKeys_def maxOpaqueIDBytes_def)
  ultimately show ?thesis using text_ok by blast
qed

lemma urlScheme_ok: "urlScheme a u = Some x \<Longrightarrow> has_kind KText (jstr x)"
  by (rule text_ok) (auto simp: urlScheme_def maxURLSchemeBytes_def maxOpaqueIDBytes_def split: if_splits)

text \<open>Vocabulary words are ASCII, so they are encoded as they are.\<close>

lemma enumOf_ok: "''other'' \<in> set vs \<Longrightarrow> has_kind (KEnum vs) (JString (enumOf vs v))"
  by (simp add: enumOf_def unknownEnumValue_def)

lemma optionalEnumOf_ok:
  "''other'' \<in> set vs \<Longrightarrow> optionalEnumOf vs v = Some x \<Longrightarrow> has_kind (KEnum vs) (JString x)"
  by (auto simp: optionalEnumOf_def enumOf_ok simp del: has_kind.simps split: option.splits if_splits)

lemmas vocabulary_defs = BrowserCdpMouseEventType_def BrowserCdpKeyEventType_def BrowserCdpTouchEventType_def
  BrowserCdpDragEventType_def BrowserCdpWebLifecycleState_def BrowserCdpMouseButton_def BrowserCdpPointerType_def
  BrowserCdpGestureSourceType_def BrowserCdpScreenshotFormat_def BrowserCdpSnapshotFormat_def
  BrowserCdpScreencastFormat_def BrowserCdpPdfTransferMode_def BrowserCdpWindowState_def
  BrowserCdpTransitionType_def BrowserCdpReferrerPolicy_def

lemma event_types_ok [simp]:
  "has_kind (KEnum BrowserCdpMouseEventType) (JString (mouseEventType v))"
  "has_kind (KEnum BrowserCdpKeyEventType) (JString (keyEventType v))"
  "has_kind (KEnum BrowserCdpTouchEventType) (JString (touchEventType v))"
  "has_kind (KEnum BrowserCdpDragEventType) (JString (dragEventType v))"
  "has_kind (KEnum BrowserCdpWebLifecycleState) (JString (webLifecycleState v))"
  unfolding mouseEventType_def keyEventType_def touchEventType_def dragEventType_def webLifecycleState_def
  by (rule enumOf_ok, simp add: vocabulary_defs)+

lemma optional_enums_ok:
  "mouseButton b = Some x \<Longrightarrow> has_kind (KEnum BrowserCdpMouseButton) (JString x)"
  "pointerType b = Some x \<Longrightarrow> has_kind (KEnum BrowserCdpPointerType) (JString x)"
  "gestureSourceType b = Some x \<Longrightarrow> has_kind (KEnum BrowserCdpGestureSourceType) (JString x)"
  "screenshotFormat b = Some x \<Longrightarrow> has_kind (KEnum BrowserCdpScreenshotFormat) (JString x)"
  "snapshotFormat b = Some x \<Longrightarrow> has_kind (KEnum BrowserCdpSnapshotFormat) (JString x)"
  "screencastFormat b = Some x \<Longrightarrow> has_kind (KEnum BrowserCdpScreencastFormat) (JString x)"
  "pdfTransferMode b = Some x \<Longrightarrow> has_kind (KEnum BrowserCdpPdfTransferMode) (JString x)"
  "windowState b = Some x \<Longrightarrow> has_kind (KEnum BrowserCdpWindowState) (JString x)"
  "transitionType b = Some x \<Longrightarrow> has_kind (KEnum BrowserCdpTransitionType) (JString x)"
  "referrerPolicy b = Some x \<Longrightarrow> has_kind (KEnum BrowserCdpReferrerPolicy) (JString x)"
  unfolding mouseButton_def pointerType_def gestureSourceType_def screenshotFormat_def snapshotFormat_def
    screencastFormat_def pdfTransferMode_def windowState_def transitionType_def referrerPolicy_def
  by (rule optionalEnumOf_ok[rotated], assumption, simp add: vocabulary_defs)+

lemma scalar_kinds:
  "has_kind KInt (jint i)" "has_kind KFloat (JNumber n)" "has_kind KBool (JBool b)"
  "has_kind (KEnum [m]) (JString m)"
  by simp_all

lemma fits_Nil: "fits [] []"
  by simp

lemmas text_kinds = sessionID_ok connID_ok clipIDPtr_ok namedKey_ok urlScheme_ok optional_enums_ok

section \<open>Blanking arguments\<close>

text \<open>
  What an event may depend on is stated by rewriting a document: a member no field takes is dropped,
  a member listed in \<open>vs\<close> is replaced by what may be seen of it, all others stay.
\<close>

type_synonym redactions = "(string \<times> (json \<Rightarrow> json)) list"

fun find_name :: "string list \<Rightarrow> string \<Rightarrow> string option" where
  "find_name [] k = None"
| "find_name (n # ns) k = (if names_match n k then Some n else find_name ns k)"

definition redact :: "redactions \<Rightarrow> string \<Rightarrow> json \<Rightarrow> json" where
  "redact vs n = (case map_of vs n of Some f \<Rightarrow> f | None \<Rightarrow> (\<lambda>v. v))"

definition blank_members :: "string list \<Rightarrow> redactions \<Rightarrow> members \<Rightarrow> members" where
  "blank_members names vs ms =
     concat (map (\<lambda>(k, v). case find_name names k of None \<Rightarrow> [] | Some n \<Rightarrow> [(k, redact vs n v)]) ms)"

fun blank_struct :: "string list \<Rightarrow> redactions \<Rightarrow> json \<Rightarrow> json" where
  "blank_struct names vs (JObject ms) = JObject (blank_members names vs ms)"
| "blank_struct names vs v = v"

lemma blank_struct_null [simp]: "blank_struct names vs v = JNull \<longleftrightarrow> v = JNull"
  by (cases v) simp_all

text \<open>\<open>h\<close> does to the decoded struct what the blanking does to the document.\<close>

definition tracks :: "('s \<Rightarrow> 's) \<Rightarrow> redactions \<Rightarrow> 's struct_fields \<Rightarrow> bool" where
  "tracks h vs fs \<longleftrightarrow> (\<forall>(n, d) \<in> set fs. \<forall>v s. d (redact vs n v) (h s) = map_option h (d v s))"

lemma find_field_name:
  "find_field fs k = Some d \<Longrightarrow> \<exists>n. find_name (map fst fs) k = Some n \<and> (n, d) \<in> set fs"
  by (induction fs k rule: find_field.induct) (auto split: if_splits)

lemma find_field_noname: "find_field fs k = None \<Longrightarrow> find_name (map fst fs) k = None"
  by (induction fs k rule: find_field.induct) (auto split: if_splits)

lemma decode_blank_members:
  assumes "tracks h vs fs"
  shows "decode_members fs (blank_members (map fst fs) vs ms) (h s) = map_option h (decode_members fs ms s)"
proof (induction ms arbitrary: s)
  case Nil
  then show ?case by (simp add: blank_members_def)
next
  case (Cons m ms)
  obtain k v where m: "m = (k, v)" by (cases m)
  show ?case
  proof (cases "find_field fs k")
    case None
    with find_field_noname[OF None] Cons show ?thesis by (simp add: m blank_members_def)
  next
    case (Some d)
    obtain n where n: "find_name (map fst fs) k = Some n" "(n, d) \<in> set fs"
      using find_field_name[OF Some] by blast
    have "d (redact vs n v) (h s) = map_option h (d v s)" using assms n(2) by (auto simp: tracks_def)
    with Some n Cons show ?thesis by (cases "d v s") (simp_all add: m blank_members_def)
  qed
qed

lemma decode_blank:
  assumes "tracks h vs fs"
  shows "decode_struct fs (blank_struct (map fst fs) vs v) (h s) = map_option h (decode_struct fs v s)"
  using decode_blank_members[OF assms] by (cases v) simp_all

lemma decodeParams_blank:
  assumes "tracks h vs fs" "h zero = zero"
  shows "decodeParams fs zero (map_option (blank_struct (map fst fs) vs) raw) =
    map_option h (decodeParams fs zero raw)"
  using decode_blank[OF assms(1), where s = zero] assms(2) by (cases raw) (simp_all add: decodeParams_def)

text \<open>With nothing to redact only the members without a field change.\<close>

lemma tracks_id: "tracks (\<lambda>s. s) [] fs"
  by (auto simp: tracks_def redact_def option.map_ident)

text \<open>A sanitizer that blanking its arguments does not change.\<close>

definition blind :: "sanitizer \<Rightarrow> string list \<Rightarrow> redactions \<Rightarrow> bool" where
  "blind f names vs \<longleftrightarrow>
     (\<forall>cmd. f (cmd\<lparr>cmd_Params := map_option (blank_struct names vs) (cmd_Params cmd)\<rparr>) = f cmd)"

lemma cmd_params_ignored [simp]:
  "sessionID (cmd\<lparr>cmd_Params := p\<rparr>) = sessionID cmd" "connID (cmd\<lparr>cmd_Params := p\<rparr>) = connID cmd"
  by (simp_all add: sessionID_def connID_def)

lemma blindI:
  assumes "\<And>cmd. f cmd = map_option (out cmd) (decodeParams fs zero (cmd_Params cmd))"
    and "tracks h vs fs" "h zero = zero"
    and "\<And>cmd p q. out (cmd\<lparr>cmd_Params := p\<rparr>) (h q) = out cmd q"
  shows "blind f (map fst fs) vs"
  using assms by (simp add: blind_def decodeParams_blank option.map_comp comp_def)

lemma blind_plainI:
  assumes "\<And>cmd. f cmd = map_option (out cmd) (decodeParams fs zero (cmd_Params cmd))"
    and "\<And>cmd p q. out (cmd\<lparr>cmd_Params := p\<rparr>) q = out cmd q"
  shows "blind f (map fst fs) []"
proof (rule blindI[where out = out and h = "\<lambda>s. s"])
  show "f cmd = map_option (out cmd) (decodeParams fs zero (cmd_Params cmd))" for cmd by (rule assms(1))
  show "tracks (\<lambda>s. s) [] fs" by (rule tracks_id)
  show "out (cmd\<lparr>cmd_Params := p\<rparr>) q = out cmd q" for cmd p q by (rule assms(2))
qed simp

lemma blind_constI:
  assumes "\<And>cmd p. f (cmd\<lparr>cmd_Params := p\<rparr>) = f cmd"
  shows "blind f names vs"
  using assms by (simp add: blind_def)

subsection \<open>What may be seen of a secret\<close>

text \<open>A text of the same number of runes; one that is empty exactly when the original is.\<close>

definition same_length :: "string \<Rightarrow> string" where
  "same_length s = replicate (rune_count s) CHR ''x''"

definition same_presence :: "string \<Rightarrow> string" where
  "same_presence s = (if s = [] then [] else ''x'')"

definition only_named :: "string \<Rightarrow> string" where
  "only_named k = (if k \<in> set namedKeys then k else [])"

definition only_scheme :: "(string \<Rightarrow> bool) \<Rightarrow> string \<Rightarrow> string" where
  "only_scheme authority_ok u = (case urlScheme authority_ok u of None \<Rightarrow> [] | Some s \<Rightarrow> s @ '':'')"

fun on_text :: "(string \<Rightarrow> string) \<Rightarrow> json \<Rightarrow> json" where
  "on_text f (JString s) = JString (f s)"
| "on_text f v = v"

fun on_elements :: "(json \<Rightarrow> json) \<Rightarrow> json \<Rightarrow> json" where
  "on_elements f (JArray vs) = JArray (map f vs)"
| "on_elements f v = v"

lemma on_null [simp]: "on_text f v = JNull \<longleftrightarrow> v = JNull" "on_elements g v = JNull \<longleftrightarrow> v = JNull"
  by (cases v; simp)+

lemma as_string_on_text [simp]: "as_string (on_text f v) = map_option f (as_string v)"
  by (cases v) simp_all

lemma string_elem_on_text: "f [] = [] \<Longrightarrow> string_elem (on_text f v) = map_option f (string_elem v)"
  by (cases v) simp_all

lemma map_all_on: "(\<And>v. g (f v) = map_option h (g v)) \<Longrightarrow> map_all g (map f vs) = map_option (map h) (map_all g vs)"
  by (induction vs) (auto simp: option.map_comp comp_def split: option.split)

lemma as_slice_on:
  "(\<And>v. g (f v) = map_option h (g v)) \<Longrightarrow> as_slice g (on_elements f v) = map_option (map h) (as_slice g v)"
  by (cases v) (simp_all add: map_all_on)

lemma decode_over_on:
  assumes "\<And>v s. elem (b v) (h s) = map_option h (elem v s)" "h zero = zero"
  shows "decode_over elem zero (map b vs) (map h old) =
    map_option (map_prod (map h) (map h)) (decode_over elem zero vs old)"
proof (induction vs arbitrary: old)
  case (Cons v vs)
  let ?x = "case old of x # _ \<Rightarrow> x | [] \<Rightarrow> zero"
  have x: "(case map h old of x # _ \<Rightarrow> x | [] \<Rightarrow> zero) = h ?x" using assms(2) by (cases old) simp_all
  have d: "drop 1 (map h old) = map h (drop 1 old)" by (simp add: drop_map)
  show ?case
    unfolding list.map decode_over.simps x d Cons.IH assms(1)
    by (cases "elem v ?x") (simp_all add: option.map_comp comp_def prod.map_comp map_prod_def case_prod_beta)
qed simp

lemma visible_map [simp]: "visible (map_option (map_prod (map f) g) b) = map f (visible b)"
  by (cases b) (auto simp: visible_def split: prod.split)

lemma rune_count_same_length [simp]: "rune_count (same_length s) = rune_count s"
proof -
  have "rune_count (replicate n CHR ''x'') = n" for n
    by (induction n) (subst rune_count.simps, simp add: rune_size_ascii byte_def)+
  then show ?thesis by (simp add: same_length_def)
qed

lemma same_length_Nil [simp]: "same_length [] = []"
  by (simp add: same_length_def rune_count.simps)

lemma runeLen_same_length [simp]: "runeLen (map_option same_length s) = runeLen s"
  by (cases s) (simp_all add: runeLen_def)

lemma present_same_presence [simp]: "present (map_option same_presence s) = present s"
  by (cases s) (simp_all add: present_def same_presence_def)

definition only_category :: "string \<Rightarrow> string" where
  "only_category m = (if m = [] then [] else mime_category m)"

abbreviation lower_word :: "string \<Rightarrow> bool" where
  "lower_word s \<equiv> \<forall>c \<in> set s. 0x61 \<le> byte c \<and> byte c \<le> 0x7A"

lemma strip_any_absent: "(\<And>p. p \<in> set ps \<Longrightarrow> \<exists>c \<in> set p. c \<notin> set s) \<Longrightarrow> strip_any ps s = None"
proof (induction ps)
  case (Cons p ps)
  obtain c where "c \<in> set p" "c \<notin> set s" using Cons.prems[of p] by auto
  then have "\<not> has_prefix p s" by (metis has_prefix_def in_set_takeD)
  with Cons show ?case by simp
qed simp

lemma trim_word: "lower_word s \<Longrightarrow> trim_space s = s"
proof -
  assume w: "lower_word s"
  have "\<forall>p \<in> set go_spaces. \<exists>c \<in> set p. \<not> (0x61 \<le> byte c \<and> byte c \<le> 0x7A)"
    by (simp add: go_spaces_def byte_def)
  with w have g: "\<exists>c \<in> set p. c \<notin> set s" if "p \<in> set go_spaces" for p using that by blast
  have l: "trim_by go_spaces s = s" by (rule trim_by_id, rule strip_any_absent) (rule g)
  have r: "trim_by (map rev go_spaces) (rev s) = rev s"
    by (rule trim_by_id, rule strip_any_absent) (use g in auto)
  show ?thesis by (simp add: trim_space_def l r)
qed

lemma to_lower_word: "lower_word s \<Longrightarrow> to_lower s = s"
proof (induction s rule: to_lower.induct)
  case (2 c s)
  have "c \<noteq> CHR 0xC4" "c \<noteq> CHR 0xE2" using 2(4) by (auto simp: byte_def)
  moreover have "lower c = c" using 2(4) by (simp add: lower_def)
  ultimately show ?case using 2 by simp
qed simp

lemma mime_words: "\<forall>c \<in> set (''other'' # mimeCategories). lower_word c \<and> CHR ''/'' \<notin> set c"
  by (simp add: mimeCategories_def byte_def)

lemma mime_category_word:
  assumes "lower_word c" "CHR ''/'' \<notin> set c"
  shows "mime_category c = (if c \<in> set mimeCategories then c else ''other'')"
proof -
  have t: "takeWhile (\<lambda>c. c \<noteq> CHR ''/'') c = c"
    unfolding takeWhile_eq_all_conv using assms(2) by blast
  show ?thesis
    unfolding mime_category_def Let_def t trim_word[OF assms(1)] to_lower_word[OF assms(1)] by (rule refl)
qed

lemma mime_category_range: "mime_category m \<in> set (''other'' # mimeCategories)"
  unfolding mime_category_def Let_def by simp

lemma mime_category_only_category [simp]: "mime_category (only_category m) = mime_category m"
proof (cases "m = []")
  case False
  obtain c where c: "mime_category m = c" by blast
  have r: "c \<in> set (''other'' # mimeCategories)" using mime_category_range[of m] unfolding c .
  have "mime_category c = (if c \<in> set mimeCategories then c else ''other'')"
    using mime_words r mime_category_word by blast
  moreover have "c \<in> set mimeCategories \<or> c = ''other''" using r by auto
  ultimately have "mime_category c = c" by (elim disjE) simp_all
  with False c show ?thesis by (simp add: only_category_def)
qed (simp add: only_category_def)

lemma namedKey_only_named [simp]: "namedKey (map_option only_named k) = namedKey k"
  by (cases k) (simp_all add: namedKey_def only_named_def namedKeys_def)

lemma slice_len_map [simp]: "slice_len (map_option (map f) s) = slice_len s"
  by (cases s) (simp_all add: slice_len_def)

lemma count_of_map [simp]: "count_of (map_option (map f) s) = count_of s"
  by (simp add: count_of_def)

subsection \<open>A scheme is all that is seen of a URL\<close>

definition scheme_char :: "char \<Rightarrow> bool" where
  "scheme_char c \<longleftrightarrow> is_letter c \<or> is_digit c \<or> c \<in> set ''+-.''"

lemma get_scheme_chars:
  "get_scheme seen u = Some (scheme, rest) \<Longrightarrow> scheme \<noteq> [] \<Longrightarrow> (\<forall>c \<in> set seen. scheme_char c)
   \<Longrightarrow> (seen \<noteq> [] \<longrightarrow> is_letter (hd seen))
   \<Longrightarrow> (\<forall>c \<in> set scheme. scheme_char c) \<and> is_letter (hd scheme)"
  by (induction seen u rule: get_scheme.induct) (auto simp: scheme_char_def hd_append split: if_splits)

lemma byte_char_of: "n < 256 \<Longrightarrow> byte (char_of n) = n"
  by (simp add: byte_def)

lemma byte_inject: "c = d \<longleftrightarrow> byte c = byte d"
  by (simp add: byte_def)

lemma byte_lower: "byte (lower c) = (if 0x41 \<le> byte c \<and> byte c \<le> 0x5A then byte c + 0x20 else byte c)"
  by (simp add: lower_def byte_char_of)

lemma punctuation_byte: "c \<in> set ''+-.'' \<longleftrightarrow> byte c \<in> {0x2B, 0x2D, 0x2E}"
  by (auto simp: byte_inject[of c]) (simp_all add: byte_def)

lemma lower_char:
  assumes "scheme_char c"
  shows "scheme_char (lower c)" and "lower (lower c) = lower c"
    and "\<not> byte (lower c) < 0x20" and "byte (lower c) \<noteq> 0x7F"
    and "lower c \<noteq> CHR ''#''" and "lower c \<noteq> CHR '':''"
proof -
  have hash: "byte CHR ''#'' = 0x23" "byte CHR '':'' = 0x3A" by (simp_all add: byte_def)
  show "scheme_char (lower c)" "lower (lower c) = lower c" "\<not> byte (lower c) < 0x20" "byte (lower c) \<noteq> 0x7F"
    using assms
    unfolding scheme_char_def is_letter_def is_digit_def punctuation_byte byte_inject[of "lower (lower c)"] byte_lower
    by auto
  show "lower c \<noteq> CHR ''#''" "lower c \<noteq> CHR '':''"
    using assms
    unfolding scheme_char_def is_letter_def is_digit_def punctuation_byte byte_inject[of "lower c"] byte_lower hash
    by auto
qed

lemma letter_lower: "is_letter c \<Longrightarrow> is_letter (lower c)"
  unfolding is_letter_def byte_lower by auto

lemma get_scheme_self:
  assumes "\<forall>c \<in> set s. scheme_char c" "seen @ s \<noteq> []" "seen = [] \<longrightarrow> is_letter (hd s)"
  shows "get_scheme seen (s @ '':'') = Some (seen @ s, [])"
  using assms
proof (induction s arbitrary: seen)
  case Nil
  have "\<not> is_letter CHR '':''" "\<not> is_digit CHR '':''" by (simp_all add: is_letter_def is_digit_def byte_def)
  with Nil show ?case by simp
next
  case (Cons c s)
  have "get_scheme (seen @ [c]) (s @ '':'') = Some ((seen @ [c]) @ s, [])"
    using Cons.prems by (intro Cons.IH) auto
  moreover have "is_letter c \<or> seen \<noteq> [] \<and> (is_digit c \<or> c \<in> set ''+-.'')"
    using Cons.prems by (auto simp: scheme_char_def)
  ultimately show ?case by auto
qed

lemma parsed_scheme_self:
  assumes "\<forall>c \<in> set s. scheme_char c \<and> lower c = c" "s \<noteq> []" "is_letter (hd s)"
  shows "parsed_scheme authority_ok (s @ '':'') = Some s"
proof -
  have c: "\<not> byte c < 0x20 \<and> byte c \<noteq> 0x7F \<and> c \<noteq> CHR ''#''" if "c \<in> set (s @ '':'')" for c
    using that assms(1) lower_char(3-5)[of c] by (auto simp: byte_def)
  have t: "takeWhile (\<lambda>c. c \<noteq> CHR ''#'') (s @ '':'') = s @ '':''"
    "dropWhile (\<lambda>c. c \<noteq> CHR ''#'') (s @ '':'') = []"
    using c by (simp_all only: takeWhile_eq_all_conv dropWhile_eq_Nil_conv) blast+
  have n: "\<not> (\<exists>c \<in> set (s @ '':''). byte c < 0x20 \<or> byte c = 0x7F)" using c by blast
  have g: "get_scheme [] (s @ '':'') = Some (s, [])" using get_scheme_self[of s "[]"] assms by simp
  have l: "map lower s = s" using assms(1) by (simp add: map_idI)
  show ?thesis
    unfolding parsed_scheme_def Let_def t if_not_P[OF n] g by (simp add: assms(2) l url_rest_ok_def)
qed

lemma urlScheme_chars:
  assumes "urlScheme authority_ok u = Some s"
  shows "(\<forall>c \<in> set s. scheme_char c \<and> lower c = c) \<and> s \<noteq> [] \<and> is_letter (hd s) \<and> length s \<le> maxURLSchemeBytes"
proof -
  obtain v scheme rest where g: "get_scheme [] v = Some (scheme, rest)" "scheme \<noteq> []"
      and s: "s = take maxURLSchemeBytes (map lower scheme)"
    using assms
    by (auto simp: urlScheme_def parsed_scheme_def Let_def split: if_splits option.splits)
  have ok: "\<forall>c \<in> set scheme. scheme_char c" "is_letter (hd scheme)"
    using get_scheme_chars[OF g] by auto
  have sub: "set s \<subseteq> lower ` set scheme" using set_take_subset unfolding s by fastforce
  have "scheme_char c \<and> lower c = c" if c: "c \<in> set s" for c
  proof -
    obtain d where "d \<in> set scheme" "c = lower d" using sub c by blast
    with ok(1) lower_char(1,2)[of d] show ?thesis by simp
  qed
  moreover have "s \<noteq> []" "is_letter (hd s)" "length s \<le> maxURLSchemeBytes"
    using g(2) ok(2) letter_lower by (cases scheme; simp add: s maxURLSchemeBytes_def)+
  ultimately show ?thesis by blast
qed

lemma only_scheme_Nil [simp]: "only_scheme authority_ok [] = []"
  by (simp add: only_scheme_def urlScheme_def)

lemma urlScheme_only_scheme [simp]: "urlScheme authority_ok (only_scheme authority_ok u) = urlScheme authority_ok u"
proof (cases "urlScheme authority_ok u")
  case None
  then show ?thesis by (simp add: only_scheme_def urlScheme_def)
next
  case (Some s)
  note c = urlScheme_chars[OF Some]
  have "parsed_scheme authority_ok (s @ '':'') = Some s" by (rule parsed_scheme_self) (use c in auto)
  with c Some show ?thesis by (simp add: only_scheme_def urlScheme_def)
qed

declare fits.simps [simp del] has_kind.simps [simp del]

lemmas fits_intros = fits_required fits_optional fits_optional_last fits_Nil scalar_kinds

end
