(* ===== verification/Egress.thy ===== *)
theory Egress
  imports CdpCommand
begin

text \<open>
  The egress allowlist as the VM sees it: the flag that survives restarts
  (\<open>lib/egresspolicy/egresspolicy.go\<close> over \<open>lib/statefile/statefile.go\<close>, with its endpoints in
  \<open>cmd/api/api/egress_policy.go\<close>) and the gate of the DevTools proxy that refuses to give a browser
  context its own proxy (\<open>lib/devtoolsproxy/egressgate.go\<close>).
\<close>

section \<open>State files\<close>

text \<open>
  \<open>WriteJSON\<close> writes a temporary file and renames it. The file system is the two files; \<open>write_end\<close>
  is where the write stops, by an error or by the death of the process: a temporary file may be
  left with any content, and the process may die after the rename, before it returns.
\<close>

record state_files =
  sf_path :: jfile
  sf_tmp :: jfile

datatype write_end = NoDirectory | TmpLeft jfile | NotRenamed | Renamed

definition WriteJSON :: "write_end \<Rightarrow> json \<Rightarrow> state_files \<Rightarrow> state_files \<times> bool" where
  "WriteJSON w v fs =
     (case w of
        NoDirectory \<Rightarrow> (fs, False)
      | TmpLeft junk \<Rightarrow> (fs\<lparr>sf_tmp := junk\<rparr>, False)
      | NotRenamed \<Rightarrow> (fs\<lparr>sf_tmp := JsonText v\<rparr>, False)
      | Renamed \<Rightarrow> (fs\<lparr>sf_path := JsonText v, sf_tmp := Missing\<rparr>, True))"

section \<open>The policy\<close>

record persisted =
  ps_Filtered :: bool

definition persisted_fields :: "persisted struct_fields" where
  "persisted_fields = [(''filtered'', plain_field as_bool ps_Filtered_update)]"

definition marshal_persisted :: "persisted \<Rightarrow> json" where
  "marshal_persisted p = JObject [(''filtered'', JBool (ps_Filtered p))]"

text \<open>\<open>Load\<close>: an absent file is unfiltered, one that cannot be read or decoded is filtered.\<close>

definition Load :: "state_files \<Rightarrow> bool" where
  "Load fs =
     (case sf_path fs of
        Missing \<Rightarrow> False
      | JsonText j \<Rightarrow>
          (case decode_struct persisted_fields j \<lparr>ps_Filtered = False\<rparr> of
             None \<Rightarrow> True
           | Some p \<Rightarrow> ps_Filtered p)
      | _ \<Rightarrow> True)"

record egress_state =
  eg_files :: state_files
  eg_filtered :: bool

definition egress_Load :: "state_files \<Rightarrow> egress_state" where
  "egress_Load fs = \<lparr>eg_files = fs, eg_filtered = Load fs\<rparr>"

text \<open>The nil state is the \<open>None\<close> of the caller.\<close>

definition Filtered :: "egress_state option \<Rightarrow> bool" where
  "Filtered s = (case s of None \<Rightarrow> False | Some s \<Rightarrow> eg_filtered s)"

definition SetFiltered :: "write_end \<Rightarrow> bool \<Rightarrow> egress_state \<Rightarrow> egress_state \<times> bool" where
  "SetFiltered w filtered s =
     (let (fs, ok) = WriteJSON w (marshal_persisted \<lparr>ps_Filtered = filtered\<rparr>) (eg_files s) in
      if \<not> ok then (s\<lparr>eg_files := fs\<rparr>, False)
      else (s\<lparr>eg_files := fs, eg_filtered := filtered\<rparr>, True))"

datatype egress_reply = EgressOk bool | EgressBadRequest | EgressInternal

definition GetNetworkEgressPolicy :: "egress_state \<Rightarrow> egress_reply" where
  "GetNetworkEgressPolicy s = EgressOk (Filtered (Some s))"

definition PutNetworkEgressPolicy ::
  "write_end \<Rightarrow> bool option \<Rightarrow> egress_state \<Rightarrow> egress_reply \<times> egress_state" where
  "PutNetworkEgressPolicy w body s =
     (case body of
        None \<Rightarrow> (EgressBadRequest, s)
      | Some filtered \<Rightarrow>
          (let (s, ok) = SetFiltered w filtered s in
           (if ok then EgressOk filtered else EgressInternal, s)))"

text \<open>
  A history of the process: requests that return, requests in which it dies at some point of the
  write and is restarted, and plain restarts. The ghost component is the set of values the policy
  may have: what was last acknowledged, and what unacknowledged requests since may have left.
\<close>

datatype egress_op = EPut write_end bool | EDies write_end bool | ERestart

fun egress_run :: "egress_state \<times> bool set \<Rightarrow> egress_op \<Rightarrow> egress_state \<times> bool set" where
  "egress_run (s, vs) (EPut w b) =
     (let (r, s') = PutNetworkEgressPolicy w (Some b) s in (s', if r = EgressOk b then {b} else vs))"
| "egress_run (s, vs) (EDies w b) =
     (egress_Load (eg_files (fst (SetFiltered w b s))), insert b vs)"
| "egress_run (s, vs) ERestart = (egress_Load (eg_files s), vs)"

section \<open>The gate\<close>

definition targetCreateBrowserContext :: string where
  "targetCreateBrowserContext = ''Target.createBrowserContext''"

definition contextProxyParams :: "string list" where
  "contextProxyParams = [''proxyServer'', ''proxyBypassList'']"

definition cdpInvalidParams :: int where
  "cdpInvalidParams = - 32602"

record cdpError =
  err_Code :: int
  err_Message :: string

record cdpErrorResponse =
  er_ID :: int
  er_SessionID :: string
  er_Error :: cdpError

record refusal =
  rf_reason :: string
  rf_message :: string

definition no_refusal :: refusal where
  "no_refusal = \<lparr>rf_reason = [], rf_message = []\<rparr>"

definition refuses :: "refusal \<Rightarrow> bool" where
  "refuses r \<longleftrightarrow> rf_message r \<noteq> []"

definition unreadable_params :: refusal where
  "unreadable_params =
     \<lparr>rf_reason = ''unreadable_params'',
      rf_message = targetCreateBrowserContext
        @ '': the parameters could not be read, so they could not be checked''
        @ '' against the browser's egress allowlist. Send parameters as an object.''\<rparr>"

definition proxy_refusal :: "string \<Rightarrow> refusal" where
  "proxy_refusal name =
     \<lparr>rf_reason = name,
      rf_message = targetCreateBrowserContext @ '': '' @ name
        @ '' is not allowed on a browser with an egress allowlist, because the context would reach destinations directly''
        @ '' instead of through the proxy that enforces network.allowed_hosts. Create the context without a proxy,''
        @ '' or create the browser without network.allowed_hosts.''\<rparr>"

fun proxy_param :: "members \<Rightarrow> string list \<Rightarrow> refusal" where
  "proxy_param params [] = no_refusal"
| "proxy_param params (name # names) =
     (case map_of params name of
        Some value \<Rightarrow> if value \<noteq> JNull then proxy_refusal name else proxy_param params names
      | None \<Rightarrow> proxy_param params names)"

definition refusalFor :: "json option \<Rightarrow> refusal" where
  "refusalFor rawParams =
     (case rawParams of
        None \<Rightarrow> no_refusal
      | Some v \<Rightarrow>
          if v = JNull then no_refusal
          else (case raw_map v of
                  None \<Rightarrow> unreadable_params
                | Some params \<Rightarrow> proxy_param params contextProxyParams))"

text \<open>
  \<open>commandID\<close>. A literal that is an \<open>int64\<close> is the id; any other number goes through \<open>float64\<close>.
  The bound of the code is \<open>math.MaxInt64\<close> as a \<open>float64\<close>, which is \<open>2 ^ 63\<close>; the conversion of
  that value to \<open>int64\<close> depends on the machine and is the parameter \<open>oob\<close>.
\<close>

definition commandID :: "int \<Rightarrow> json option \<Rightarrow> int option" where
  "commandID oob raw =
     (case raw of
        Some (JNumber n) \<Rightarrow>
          (case as_int (JNumber n) of
             Some i \<Rightarrow> Some i
           | None \<Rightarrow>
               if float_overflow n then None
               else (case f64_int n of
                       None \<Rightarrow> None
                     | Some v \<Rightarrow>
                         if v < - (2 ^ 63) \<or> 2 ^ 63 < v then None
                         else Some (if v < 2 ^ 63 then v else oob)))
      | _ \<Rightarrow> None)"

definition commandSessionID :: "json option \<Rightarrow> string" where
  "commandSessionID raw = (case raw of Some (JString s) \<Rightarrow> s | _ \<Rightarrow> [])"

text \<open>\<open>refuse\<close>: whether the frame is held back, and the reply, if there is one.\<close>

definition refuse ::
  "int \<Rightarrow> bool option \<Rightarrow> bool \<Rightarrow> frame_text \<Rightarrow> cdpErrorResponse option \<times> bool" where
  "refuse oob filtered is_text msg =
     (if filtered \<noteq> Some True \<or> \<not> is_text then (None, False)
      else case msg of
        NotJson \<Rightarrow> (None, False)
      | Json j \<Rightarrow>
          if probe_method j \<noteq> Some targetCreateBrowserContext then (None, False)
          else (case raw_map j of
                  None \<Rightarrow> (None, True)
                | Some envelope \<Rightarrow>
                    (let ref = refusalFor (map_of envelope ''params'') in
                     if \<not> refuses ref then (None, False)
                     else (case commandID oob (map_of envelope ''id'') of
                             None \<Rightarrow> (None, True)
                           | Some i \<Rightarrow>
                               (Some \<lparr>er_ID = i, er_SessionID = commandSessionID (map_of envelope ''sessionId''),
                                  er_Error = \<lparr>err_Code = cdpInvalidParams, err_Message = rf_message ref\<rparr>\<rparr>,
                                True)))))"

section \<open>The stored policy\<close>

lemma Load_written: "Load (fs\<lparr>sf_path := JsonText (marshal_persisted p), sf_tmp := t\<rparr>) = ps_Filtered p"
  by (simp add: Load_def marshal_persisted_def persisted_fields_def plain_field_def)

lemma Load_path: "sf_path fs = sf_path fs' \<Longrightarrow> Load fs = Load fs'"
  by (simp add: Load_def)

lemma SetFiltered_facts:
  assumes "SetFiltered w b s = (s', ok)"
  shows "ok \<longleftrightarrow> w = Renamed"
    and "ok \<Longrightarrow> eg_filtered s' = b \<and> Load (eg_files s') = b"
    and "\<not> ok \<Longrightarrow> eg_filtered s' = eg_filtered s \<and> Load (eg_files s') = Load (eg_files s)"
  using assms Load_written[where fs = "eg_files s" and p = "\<lparr>ps_Filtered = b\<rparr>" and t = Missing]
  by (auto simp: SetFiltered_def WriteJSON_def Let_def split: write_end.splits intro!: Load_path)

text \<open>
  C25. The egress policy is durable. After any history of requests, crashes at any point of a write
  and restarts, the policy in memory is the one a restart would load; and it is the last value
  acknowledged, or one that a request cut off by a crash since then asked for. A refused request
  changes neither.
\<close>

theorem egress_policy_durable:
  assumes "foldl egress_run (egress_Load fs0, {Load fs0}) ops = (s, vs)"
  shows "eg_filtered s = Load (eg_files s) \<and> eg_filtered s \<in> vs"
proof -
  have step: "eg_filtered (fst (egress_run x op)) = Load (eg_files (fst (egress_run x op))) \<and>
      eg_filtered (fst (egress_run x op)) \<in> snd (egress_run x op)"
    if "eg_filtered (fst x) = Load (eg_files (fst x)) \<and> eg_filtered (fst x) \<in> snd x" for x op
  proof -
    obtain s vs where x: "x = (s, vs)" by (cases x)
    have "eg_filtered s = Load (eg_files s)" "eg_filtered s \<in> vs"
      using that unfolding x fst_conv snd_conv by (rule conjunct1, rule conjunct2)
    then have loads: "Load (eg_files s) \<in> vs" by (rule subst)
    show ?thesis
    proof (cases op)
      case (EPut w b)
      obtain s' ok where f: "SetFiltered w b s = (s', ok)" by fastforce
      have p: "PutNetworkEgressPolicy w (Some b) s = (if ok then EgressOk b else EgressInternal, s')"
        by (simp add: PutNetworkEgressPolicy_def f)
      show ?thesis
      proof (cases ok)
        case True
        with SetFiltered_facts(2)[OF f] show ?thesis by (simp add: x EPut p)
      next
        case False
        with SetFiltered_facts(3)[OF f] that show ?thesis by (auto simp: x EPut p)
      qed
    next
      case (EDies w b)
      obtain s' ok where f: "SetFiltered w b s = (s', ok)" by fastforce
      have "Load (eg_files s') \<in> insert b vs"
        using loads SetFiltered_facts(2,3)[OF f] by (cases ok) simp_all
      then show ?thesis by (simp add: x EDies f egress_Load_def)
    next
      case ERestart
      with loads show ?thesis by (simp add: x egress_Load_def)
    qed
  qed
  have run: "eg_filtered (fst (foldl egress_run x ops)) = Load (eg_files (fst (foldl egress_run x ops))) \<and>
      eg_filtered (fst (foldl egress_run x ops)) \<in> snd (foldl egress_run x ops)"
    if "eg_filtered (fst x) = Load (eg_files (fst x)) \<and> eg_filtered (fst x) \<in> snd x" for x
    using foldl_inv[where f = egress_run and xs = ops
        and I = "\<lambda>x. eg_filtered (fst x) = Load (eg_files (fst x)) \<and> eg_filtered (fst x) \<in> snd x", OF step that]
    by blast
  have "eg_filtered (fst (egress_Load fs0, {Load fs0})) = Load (eg_files (fst (egress_Load fs0, {Load fs0}))) \<and>
      eg_filtered (fst (egress_Load fs0, {Load fs0})) \<in> snd (egress_Load fs0, {Load fs0})"
    by (simp add: egress_Load_def)
  from run[OF this] show ?thesis unfolding assms fst_conv snd_conv .
qed

definition no_files :: state_files where
  "no_files = \<lparr>sf_path = Missing, sf_tmp = Missing\<rparr>"

lemma egress_policy_durable_witness:
  "eg_filtered (fst (foldl egress_run (egress_Load no_files, {Load no_files})
     [EPut Renamed True, EDies (TmpLeft BadText) False, ERestart]))"
proof -
  let ?r = "foldl egress_run (egress_Load no_files, {Load no_files})
     [EPut Renamed True, EDies (TmpLeft BadText) False, ERestart]"
  obtain s vs where r: "?r = (s, vs)" by fastforce
  have "sf_path (eg_files s) = JsonText (marshal_persisted \<lparr>ps_Filtered = True\<rparr>)"
    using r by (auto simp: PutNetworkEgressPolicy_def SetFiltered_def WriteJSON_def egress_Load_def no_files_def)
  then have "Load (eg_files s)" using Load_written[where fs = "eg_files s" and p = "\<lparr>ps_Filtered = True\<rparr>" and t = Missing]
    by (simp add: Load_def)
  with egress_policy_durable[OF r] r show ?thesis by simp
qed

section \<open>What the gate refuses\<close>

lemma refuses_simps [simp]:
  "\<not> refuses no_refusal" "refuses unreadable_params" "refuses (proxy_refusal name)"
  by (simp_all add: refuses_def no_refusal_def unreadable_params_def proxy_refusal_def targetCreateBrowserContext_def)

lemma refuses_proxy_param:
  "refuses (proxy_param params names) \<longleftrightarrow> (\<exists>n \<in> set names. \<exists>v. map_of params n = Some v \<and> v \<noteq> JNull)"
  by (induction names) (auto split: option.splits)

text \<open>The arguments that choose a proxy, or that are not readable as arguments.\<close>

definition chooses_proxy :: "json \<Rightarrow> bool" where
  "chooses_proxy p \<longleftrightarrow>
     (case p of
        JNull \<Rightarrow> False
      | JObject ms \<Rightarrow> \<exists>n \<in> set contextProxyParams. \<exists>v. map_of (rev ms) n = Some v \<and> v \<noteq> JNull
      | _ \<Rightarrow> True)"

lemma refuses_refusalFor: "refuses (refusalFor raw) \<longleftrightarrow> (\<exists>p. raw = Some p \<and> chooses_proxy p)"
proof (cases raw)
  case (Some p)
  then show ?thesis
    by (cases p) (auto simp: refusalFor_def chooses_proxy_def refuses_proxy_param map_of_put_all)
qed (simp add: refusalFor_def)

lemma probe_exact:
  assumes "\<forall>k \<in> set (map fst ms). names_match ''method'' k \<longrightarrow> k = ''method''" "distinct (map fst ms)"
  shows "probe_method (JObject ms) = Some targetCreateBrowserContext \<longleftrightarrow>
    map_of ms ''method'' = Some (JString targetCreateBrowserContext)"
proof -
  have "map_option probe_Method (decode_members probe_fields ms \<lparr>probe_Method = m\<rparr>) =
      (case map_of ms ''method'' of None \<Rightarrow> Some m | Some JNull \<Rightarrow> Some m | Some v \<Rightarrow> as_string v)" for m
    using assms
  proof (induction ms arbitrary: m)
    case Nil
    then show ?case by simp
  next
    case (Cons kv ms)
    obtain k v where kv: "kv = (k, v)" by (cases kv)
    have prems: "\<forall>k \<in> set (map fst ms). names_match ''method'' k \<longrightarrow> k = ''method''" "distinct (map fst ms)"
      using Cons.prems by auto
    note IH = Cons.IH[OF prems]
    show ?case
    proof (cases "names_match ''method'' k")
      case False
      then have "find_field probe_fields k = None" by (simp add: probe_fields_def)
      moreover have "k \<noteq> ''method''" using False by auto
      ultimately show ?thesis using IH[of m] by (simp add: kv)
    next
      case True
      then have k: "k = ''method''" using Cons.prems(1) kv by auto
      then have "map_of ms ''method'' = None" using Cons.prems(2) kv by (auto simp: map_of_eq_None_iff)
      with IH show ?thesis
        by (cases v) (simp_all add: kv k probe_fields_def plain_field_def)
    qed
  qed
  from this[of "[]"] show ?thesis
    by (auto simp: probe_method_def targetCreateBrowserContext_def split: option.splits json.splits)
qed

text \<open>
  C26. The gate on readable frames. For a text frame that is an object with distinct member names,
  none of which differs from \<open>method\<close> by case only, a filtered session refuses it exactly when it
  names \<open>Target.createBrowserContext\<close> and its parameters choose a proxy or are not an object;
  whatever the other members hold. Without a policy, on an unfiltered session and for binary
  frames nothing is refused.
\<close>

theorem gate_refuses_exactly:
  assumes "distinct (map fst ms)" "\<forall>k \<in> set (map fst ms). names_match ''method'' k \<longrightarrow> k = ''method''"
  shows "snd (refuse oob filtered is_text (Json (JObject ms))) \<longleftrightarrow>
    filtered = Some True \<and> is_text \<and>
    map_of ms ''method'' = Some (JString targetCreateBrowserContext) \<and>
    (\<exists>p. map_of ms ''params'' = Some p \<and> chooses_proxy p)"
proof -
  have env: "map_of (put_all ms []) = map_of ms"
    using map_of_rev_distinct[OF assms(1)] by (simp add: map_of_put_all)
  show ?thesis
    using probe_exact[OF assms(2,1)] refuses_refusalFor[of "map_of ms ''params''"]
    by (auto simp: refuse_def Let_def env split: option.splits)
qed

definition proxy_frame :: members where
  "proxy_frame = [(''id'', JNumber (IntLit 7)), (''method'', JString targetCreateBrowserContext),
     (''params'', JObject [(''proxyServer'', JString [])])]"

lemma proxy_frame_ok:
  "distinct (map fst proxy_frame)" "\<forall>k \<in> set (map fst proxy_frame). names_match ''method'' k \<longrightarrow> k = ''method''"
  by (simp_all add: proxy_frame_def names_match_def upper_def byte_def)

lemma gate_refuses_exactly_witness:
  "snd (refuse 0 (Some True) True (Json (JObject proxy_frame))) \<and>
   \<not> snd (refuse 0 (Some False) True (Json (JObject proxy_frame)))"
  using gate_refuses_exactly[OF proxy_frame_ok, of 0 _ True]
  by (simp add: proxy_frame_def chooses_proxy_def contextProxyParams_def)

text \<open>
  The reply to a refused command. Whenever the gate answers, the answer carries the id of the
  command when that is an \<open>int64\<close> literal, the session it named, the InvalidParams code and an
  explanation; it never answers a frame it forwards; and a frame it refuses without an answer has
  no id that is an \<open>int64\<close> literal.
\<close>

theorem gate_reply:
  assumes "refuse oob filtered is_text (Json (JObject ms)) = (reply, refused)"
  shows "(\<not> refused \<longrightarrow> reply = None) \<and>
    (\<forall>i. refused \<and> map_of (rev ms) ''id'' = Some (JNumber (IntLit i)) \<and> int64_ok i \<longrightarrow>
       (\<exists>e. reply = Some \<lparr>er_ID = i, er_SessionID = commandSessionID (map_of (rev ms) ''sessionId''), er_Error = e\<rparr> \<and>
          err_Code e = cdpInvalidParams \<and> err_Message e \<noteq> []))"
  using assms by (auto simp: refuse_def Let_def map_of_put_all commandID_def refuses_def split: if_splits option.splits)

lemma gate_reply_witness:
  "\<exists>e. fst (refuse 0 (Some True) True (Json (JObject proxy_frame))) =
     Some \<lparr>er_ID = 7, er_SessionID = [], er_Error = e\<rparr>"
proof -
  obtain reply refused where r: "refuse 0 (Some True) True (Json (JObject proxy_frame)) = (reply, refused)"
    by fastforce
  have "refused"
    using r probe_exact[OF proxy_frame_ok(2,1)] refuses_refusalFor[of "map_of proxy_frame ''params''"]
    by (auto simp: refuse_def Let_def map_of_put_all map_of_rev_distinct[OF proxy_frame_ok(1)]
        proxy_frame_def chooses_proxy_def contextProxyParams_def split: option.splits)
  with gate_reply[OF r] have "\<exists>e. reply = Some \<lparr>er_ID = 7, er_SessionID = [], er_Error = e\<rparr>"
    by (auto simp: proxy_frame_def int64_ok_def commandSessionID_def)
  with r show ?thesis by simp
qed

text \<open>
  C27. A member that differs from \<open>method\<close> by case only defeats the gate. The probe matches member
  names ignoring case and the last match wins, while the browser reads the member named exactly
  \<open>method\<close>: the same proxy-choosing frame is refused as it stands and forwarded, on a filtered
  session, once any member \<open>Method\<close> with another string follows.
\<close>

theorem gate_case_variant_bypass:
  assumes "m \<noteq> targetCreateBrowserContext"
  shows "snd (refuse oob (Some True) True (Json (JObject proxy_frame))) \<and>
    refuse oob (Some True) True (Json (JObject (proxy_frame @ [(''Method'', JString m)]))) = (None, False)"
proof
  have "probe_method (JObject proxy_frame) = Some targetCreateBrowserContext"
    using probe_exact[OF proxy_frame_ok(2,1)] by (simp add: proxy_frame_def)
  moreover have "refuses (refusalFor (map_of (put_all proxy_frame []) ''params''))"
    by (simp add: refuses_refusalFor map_of_put_all map_of_rev_distinct[OF proxy_frame_ok(1)])
      (simp add: proxy_frame_def chooses_proxy_def contextProxyParams_def)
  ultimately show "snd (refuse oob (Some True) True (Json (JObject proxy_frame)))"
    by (simp add: refuse_def Let_def split: option.split)
  have no: "find_field probe_fields ''id'' = None" "find_field probe_fields ''params'' = None"
    by (simp_all add: probe_fields_def names_match_def upper_def byte_def)
  have "names_match ''method'' ''Method''" by code_simp
  then have yes: "find_field probe_fields k = Some (plain_field as_string probe_Method_update)"
    if "k = ''method'' \<or> k = ''Method''" for k
    using that by (auto simp: probe_fields_def)
  have "probe_method (JObject (proxy_frame @ [(''Method'', JString m)])) = Some m"
    by (simp add: probe_method_def proxy_frame_def no yes[of "''method''"] yes[of "''Method''"] plain_field_def)
  with assms show "refuse oob (Some True) True (Json (JObject (proxy_frame @ [(''Method'', JString m)]))) = (None, False)"
    by (simp add: refuse_def)
qed

lemma gate_case_variant_bypass_witness:
  "refuse 0 (Some True) True (Json (JObject (proxy_frame @ [(''Method'', JString ''Browser.getVersion'')]))) = (None, False)"
  using gate_case_variant_bypass[of "''Browser.getVersion''" 0] by (simp add: targetCreateBrowserContext_def)

text \<open>
  The bound of \<open>commandID\<close> is inclusive at \<open>2 ^ 63\<close>, one above the largest \<open>int64\<close>: such an id is
  not refused an answer, the answer carries whatever the conversion yields.
\<close>

lemma commandID_two63: "commandID oob (Some (JNumber (IntLit 9223372036854775808))) = Some oob"
proof -
  have "bits (2 ^ 63) = 64"
  proof -
    have "(2::nat) ^ (bits (2 ^ 63) - 1) \<le> 2 ^ 63" "(2::nat) ^ 63 < 2 ^ bits (2 ^ 63)"
      using bits_bounds[of "2 ^ 63"] by simp_all
    then have "bits (2 ^ 63) - 1 \<le> 63" "63 < bits (2 ^ 63)"
      by (simp_all only: power_increasing_iff power_strict_increasing_iff one_less_numeral_iff semiring_norm)
    then show ?thesis by linarith
  qed
  moreover have "bits 1 = 1" by (simp add: bits.simps)
  ultimately have "f64_exponent (2 ^ 63) 1 = 11" by (simp add: f64_exponent_def scaled_def)
  then have "f64_nat (2 ^ 63) 1 = Some (2 ^ 63)" by (simp add: f64_nat_def scaled_def round_half_even_def)
  then have "f64_int (IntLit 9223372036854775808) = Some 9223372036854775808" by simp
  moreover have "\<not> float_overflow (IntLit 9223372036854775808)" by (simp add: float_limit_def)
  ultimately show ?thesis
    by (simp add: commandID_def int64_ok_def del: f64_int.simps float_overflow.simps)
qed

end
