(* ===== verification/CdpInput.thy ===== *)
theory CdpInput
  imports CdpCommand
begin

text \<open>
  The sanitizers of the input commands (\<open>lib/devtoolsproxy/cdpparams.go\<close>): the struct each command
  decodes its arguments into, and the payload made of it, member by member in the order of the
  generated struct (\<open>lib/oapi/oapi.go\<close>). For each sanitizer two facts are shown: the payload fits
  the schema of the generated struct, and blanking what must not leave the machine changes nothing.
\<close>

record inputDispatchMouseEventParams =
  mouse_Type :: string
  mouse_X :: "jnum option"
  mouse_Y :: "jnum option"
  mouse_Modifiers :: "int option"
  mouse_Button :: "string option"
  mouse_Buttons :: "int option"
  mouse_ClickCount :: "int option"
  mouse_Force :: "jnum option"
  mouse_TangentialPressure :: "jnum option"
  mouse_TiltX :: "jnum option"
  mouse_TiltY :: "jnum option"
  mouse_Twist :: "int option"
  mouse_DeltaX :: "jnum option"
  mouse_DeltaY :: "jnum option"
  mouse_PointerType :: "string option"

definition inputDispatchMouseEventParams_fields :: "inputDispatchMouseEventParams struct_fields" where
  "inputDispatchMouseEventParams_fields =
     [(''type'', plain_field as_string mouse_Type_update),
      (''x'', ptr_field as_float mouse_X_update), (''y'', ptr_field as_float mouse_Y_update),
      (''modifiers'', ptr_field as_int mouse_Modifiers_update),
      (''button'', ptr_field as_string mouse_Button_update),
      (''buttons'', ptr_field as_int mouse_Buttons_update),
      (''clickCount'', ptr_field as_int mouse_ClickCount_update),
      (''force'', ptr_field as_float mouse_Force_update),
      (''tangentialPressure'', ptr_field as_float mouse_TangentialPressure_update),
      (''tiltX'', ptr_field as_float mouse_TiltX_update),
      (''tiltY'', ptr_field as_float mouse_TiltY_update),
      (''twist'', ptr_field as_int mouse_Twist_update),
      (''deltaX'', ptr_field as_float mouse_DeltaX_update),
      (''deltaY'', ptr_field as_float mouse_DeltaY_update),
      (''pointerType'', ptr_field as_string mouse_PointerType_update)]"

definition zero_inputDispatchMouseEventParams :: inputDispatchMouseEventParams where
  "zero_inputDispatchMouseEventParams =
     \<lparr>mouse_Type = [], mouse_X = None, mouse_Y = None, mouse_Modifiers = None,
      mouse_Button = None, mouse_Buttons = None, mouse_ClickCount = None, mouse_Force = None,
      mouse_TangentialPressure = None, mouse_TiltX = None, mouse_TiltY = None, mouse_Twist = None,
      mouse_DeltaX = None, mouse_DeltaY = None, mouse_PointerType = None\<rparr>"

definition dataInputDispatchMouseEvent :: "cdpCommand \<Rightarrow> inputDispatchMouseEventParams \<Rightarrow> members" where
  "dataInputDispatchMouseEvent cmd p =
     opt_member JString ''button'' (mouseButton (mouse_Button p)) @
     opt_member jint ''buttons'' (mouse_Buttons p) @
     opt_member jint ''click_count'' (mouse_ClickCount p) @
     opt_member jint ''command_id'' (cmd_ID cmd) @ opt_member jstr ''connection_id'' (connID cmd) @
     opt_member JNumber ''delta_x'' (mouse_DeltaX p) @
     opt_member JNumber ''delta_y'' (mouse_DeltaY p) @
     (''event_type'', JString (mouseEventType (mouse_Type p))) #
     opt_member JNumber ''force'' (mouse_Force p) @
     (''method'', JString ''Input.dispatchMouseEvent'') #
     opt_member jint ''modifiers'' (mouse_Modifiers p) @
     opt_member JString ''pointer_type'' (pointerType (mouse_PointerType p)) @
     opt_member jstr ''session_id'' (sessionID cmd) @
     opt_member JNumber ''tangential_pressure'' (mouse_TangentialPressure p) @
     opt_member JNumber ''tilt_x'' (mouse_TiltX p) @
     opt_member JNumber ''tilt_y'' (mouse_TiltY p) @ opt_member jint ''twist'' (mouse_Twist p) @
     opt_member JNumber ''x'' (mouse_X p) @ opt_member JNumber ''y'' (mouse_Y p)"

definition sanitizeInputDispatchMouseEvent :: sanitizer where
  "sanitizeInputDispatchMouseEvent cmd =
     map_option (dataInputDispatchMouseEvent cmd)
       (decodeParams inputDispatchMouseEventParams_fields zero_inputDispatchMouseEventParams (cmd_Params cmd))"

definition BrowserCdpInputDispatchMouseEventCommandData :: schema where
  "BrowserCdpInputDispatchMouseEventCommandData =
     [(''button'', KEnum BrowserCdpMouseButton, False), (''buttons'', KInt, False),
      (''click_count'', KInt, False), (''command_id'', KInt, False),
      (''connection_id'', KText, False), (''delta_x'', KFloat, False),
      (''delta_y'', KFloat, False), (''event_type'', KEnum BrowserCdpMouseEventType, True),
      (''force'', KFloat, False), (''method'', KEnum [''Input.dispatchMouseEvent''], True),
      (''modifiers'', KInt, False), (''pointer_type'', KEnum BrowserCdpPointerType, False),
      (''session_id'', KText, False), (''tangential_pressure'', KFloat, False),
      (''tilt_x'', KFloat, False), (''tilt_y'', KFloat, False), (''twist'', KInt, False),
      (''x'', KFloat, False), (''y'', KFloat, False)]"

lemma InputDispatchMouseEvent_fits: "sanitizeInputDispatchMouseEvent cmd = Some ms \<Longrightarrow> fits BrowserCdpInputDispatchMouseEventCommandData ms"
  by (auto simp: sanitizeInputDispatchMouseEvent_def dataInputDispatchMouseEvent_def BrowserCdpInputDispatchMouseEventCommandData_def
      intro!: fits_intros intro: text_kinds split: if_splits)

lemma InputDispatchMouseEvent_blind: "blind sanitizeInputDispatchMouseEvent (map fst inputDispatchMouseEventParams_fields) []"
  by (rule blind_plainI[where out = dataInputDispatchMouseEvent and zero = zero_inputDispatchMouseEventParams]) (simp_all add: sanitizeInputDispatchMouseEvent_def dataInputDispatchMouseEvent_def)

record inputDispatchKeyEventParams =
  keyev_Type :: string
  keyev_Modifiers :: "int option"
  keyev_Text :: "string option"
  keyev_Key :: "string option"
  keyev_Location :: "int option"
  keyev_AutoRepeat :: "bool option"
  keyev_IsKeypad :: "bool option"
  keyev_IsSystemKey :: "bool option"
  keyev_Commands :: "string list option"

definition inputDispatchKeyEventParams_fields :: "inputDispatchKeyEventParams struct_fields" where
  "inputDispatchKeyEventParams_fields =
     [(''type'', plain_field as_string keyev_Type_update),
      (''modifiers'', ptr_field as_int keyev_Modifiers_update),
      (''text'', ptr_field as_string keyev_Text_update),
      (''key'', ptr_field as_string keyev_Key_update),
      (''location'', ptr_field as_int keyev_Location_update),
      (''autoRepeat'', ptr_field as_bool keyev_AutoRepeat_update),
      (''isKeypad'', ptr_field as_bool keyev_IsKeypad_update),
      (''isSystemKey'', ptr_field as_bool keyev_IsSystemKey_update),
      (''commands'', slice_field string_elem keyev_Commands_update)]"

definition zero_inputDispatchKeyEventParams :: inputDispatchKeyEventParams where
  "zero_inputDispatchKeyEventParams =
     \<lparr>keyev_Type = [], keyev_Modifiers = None, keyev_Text = None, keyev_Key = None,
      keyev_Location = None, keyev_AutoRepeat = None, keyev_IsKeypad = None,
      keyev_IsSystemKey = None, keyev_Commands = None\<rparr>"

definition dataInputDispatchKeyEvent :: "cdpCommand \<Rightarrow> inputDispatchKeyEventParams \<Rightarrow> members" where
  "dataInputDispatchKeyEvent cmd p =
     opt_member JBool ''auto_repeat'' (keyev_AutoRepeat p) @
     opt_member jint ''command_count'' (if keyev_Commands p = None then None else count_of (keyev_Commands p)) @
     opt_member jint ''command_id'' (cmd_ID cmd) @ opt_member jstr ''connection_id'' (connID cmd) @
     (''event_type'', JString (keyEventType (keyev_Type p))) #
     opt_member JBool ''is_keypad'' (keyev_IsKeypad p) @
     opt_member JBool ''is_system_key'' (keyev_IsSystemKey p) @
     opt_member jint ''location'' (keyev_Location p) @
     (''method'', JString ''Input.dispatchKeyEvent'') #
     opt_member jint ''modifiers'' (keyev_Modifiers p) @
     opt_member jstr ''named_key'' (namedKey (keyev_Key p)) @
     opt_member jstr ''session_id'' (sessionID cmd) @
     opt_member jint ''text_length'' (runeLen (keyev_Text p))"

definition sanitizeInputDispatchKeyEvent :: sanitizer where
  "sanitizeInputDispatchKeyEvent cmd =
     map_option (dataInputDispatchKeyEvent cmd)
       (decodeParams inputDispatchKeyEventParams_fields zero_inputDispatchKeyEventParams (cmd_Params cmd))"

definition BrowserCdpInputDispatchKeyEventCommandData :: schema where
  "BrowserCdpInputDispatchKeyEventCommandData =
     [(''auto_repeat'', KBool, False), (''command_count'', KInt, False),
      (''command_id'', KInt, False), (''connection_id'', KText, False),
      (''event_type'', KEnum BrowserCdpKeyEventType, True), (''is_keypad'', KBool, False),
      (''is_system_key'', KBool, False), (''location'', KInt, False),
      (''method'', KEnum [''Input.dispatchKeyEvent''], True), (''modifiers'', KInt, False),
      (''named_key'', KText, False), (''session_id'', KText, False),
      (''text_length'', KInt, False)]"

definition inputDispatchKeyEventParams_redactions :: redactions where
  "inputDispatchKeyEventParams_redactions =
     [(''text'', on_text same_length), (''key'', on_text only_named),
      (''commands'', on_elements (on_text (\<lambda>_. [])))]"

definition blank_inputDispatchKeyEventParams :: "inputDispatchKeyEventParams \<Rightarrow> inputDispatchKeyEventParams" where
  "blank_inputDispatchKeyEventParams p =
     p\<lparr>keyev_Text := map_option same_length (keyev_Text p), keyev_Key := map_option only_named (keyev_Key p), keyev_Commands := map_option (map (\<lambda>_. [])) (keyev_Commands p)\<rparr>"

lemma tracks_inputDispatchKeyEventParams:
  "tracks blank_inputDispatchKeyEventParams inputDispatchKeyEventParams_redactions inputDispatchKeyEventParams_fields"
  by (auto simp: tracks_def redact_def inputDispatchKeyEventParams_redactions_def blank_inputDispatchKeyEventParams_def inputDispatchKeyEventParams_fields_def
      field_defs option.map_comp comp_def string_elem_on_text as_slice_on
      intro!: option.map_cong)

lemma InputDispatchKeyEvent_fits: "sanitizeInputDispatchKeyEvent cmd = Some ms \<Longrightarrow> fits BrowserCdpInputDispatchKeyEventCommandData ms"
  by (auto simp: sanitizeInputDispatchKeyEvent_def dataInputDispatchKeyEvent_def BrowserCdpInputDispatchKeyEventCommandData_def
      intro!: fits_intros intro: text_kinds split: if_splits)

lemma InputDispatchKeyEvent_blind: "blind sanitizeInputDispatchKeyEvent (map fst inputDispatchKeyEventParams_fields) inputDispatchKeyEventParams_redactions"
  by (rule blindI[where out = "dataInputDispatchKeyEvent" and zero = zero_inputDispatchKeyEventParams and h = "blank_inputDispatchKeyEventParams"])
    (simp_all add: sanitizeInputDispatchKeyEvent_def dataInputDispatchKeyEvent_def tracks_inputDispatchKeyEventParams blank_inputDispatchKeyEventParams_def zero_inputDispatchKeyEventParams_def)

record inputInsertTextParams =
  insert_Text :: string

definition inputInsertTextParams_fields :: "inputInsertTextParams struct_fields" where
  "inputInsertTextParams_fields =
     [(''text'', plain_field as_string insert_Text_update)]"

definition zero_inputInsertTextParams :: inputInsertTextParams where
  "zero_inputInsertTextParams =
     \<lparr>insert_Text = []\<rparr>"

definition dataInputInsertText :: "cdpCommand \<Rightarrow> inputInsertTextParams \<Rightarrow> members" where
  "dataInputInsertText cmd p =
     opt_member jint ''command_id'' (cmd_ID cmd) @ opt_member jstr ''connection_id'' (connID cmd) @
     (''method'', JString ''Input.insertText'') # opt_member jstr ''session_id'' (sessionID cmd) @
     [(''text_length'', jint (int (rune_count (insert_Text p))))]"

definition sanitizeInputInsertText :: sanitizer where
  "sanitizeInputInsertText cmd =
     map_option (dataInputInsertText cmd)
       (decodeParams inputInsertTextParams_fields zero_inputInsertTextParams (cmd_Params cmd))"

definition BrowserCdpInputInsertTextCommandData :: schema where
  "BrowserCdpInputInsertTextCommandData =
     [(''command_id'', KInt, False), (''connection_id'', KText, False),
      (''method'', KEnum [''Input.insertText''], True), (''session_id'', KText, False),
      (''text_length'', KInt, True)]"

definition inputInsertTextParams_redactions :: redactions where
  "inputInsertTextParams_redactions =
     [(''text'', on_text same_length)]"

definition blank_inputInsertTextParams :: "inputInsertTextParams \<Rightarrow> inputInsertTextParams" where
  "blank_inputInsertTextParams p =
     p\<lparr>insert_Text := same_length (insert_Text p)\<rparr>"

lemma tracks_inputInsertTextParams:
  "tracks blank_inputInsertTextParams inputInsertTextParams_redactions inputInsertTextParams_fields"
  by (auto simp: tracks_def redact_def inputInsertTextParams_redactions_def blank_inputInsertTextParams_def inputInsertTextParams_fields_def
      field_defs option.map_comp comp_def string_elem_on_text as_slice_on
      intro!: option.map_cong)

lemma InputInsertText_fits: "sanitizeInputInsertText cmd = Some ms \<Longrightarrow> fits BrowserCdpInputInsertTextCommandData ms"
  by (auto simp: sanitizeInputInsertText_def dataInputInsertText_def BrowserCdpInputInsertTextCommandData_def
      intro!: fits_intros intro: text_kinds split: if_splits)

lemma InputInsertText_blind: "blind sanitizeInputInsertText (map fst inputInsertTextParams_fields) inputInsertTextParams_redactions"
  by (rule blindI[where out = "dataInputInsertText" and zero = zero_inputInsertTextParams and h = "blank_inputInsertTextParams"])
    (simp_all add: sanitizeInputInsertText_def dataInputInsertText_def tracks_inputInsertTextParams blank_inputInsertTextParams_def zero_inputInsertTextParams_def)

record inputImeSetCompositionParams =
  ime_Text :: string
  ime_SelectionStart :: "int option"
  ime_SelectionEnd :: "int option"
  ime_ReplacementStart :: "int option"
  ime_ReplacementEnd :: "int option"

definition inputImeSetCompositionParams_fields :: "inputImeSetCompositionParams struct_fields" where
  "inputImeSetCompositionParams_fields =
     [(''text'', plain_field as_string ime_Text_update),
      (''selectionStart'', ptr_field as_int ime_SelectionStart_update),
      (''selectionEnd'', ptr_field as_int ime_SelectionEnd_update),
      (''replacementStart'', ptr_field as_int ime_ReplacementStart_update),
      (''replacementEnd'', ptr_field as_int ime_ReplacementEnd_update)]"

definition zero_inputImeSetCompositionParams :: inputImeSetCompositionParams where
  "zero_inputImeSetCompositionParams =
     \<lparr>ime_Text = [], ime_SelectionStart = None, ime_SelectionEnd = None,
      ime_ReplacementStart = None, ime_ReplacementEnd = None\<rparr>"

definition dataInputImeSetComposition :: "cdpCommand \<Rightarrow> inputImeSetCompositionParams \<Rightarrow> members" where
  "dataInputImeSetComposition cmd p =
     opt_member jint ''command_id'' (cmd_ID cmd) @ opt_member jstr ''connection_id'' (connID cmd) @
     (''method'', JString ''Input.imeSetComposition'') #
     opt_member jint ''replacement_end'' (ime_ReplacementEnd p) @
     opt_member jint ''replacement_start'' (ime_ReplacementStart p) @
     opt_member jint ''selection_end'' (ime_SelectionEnd p) @
     opt_member jint ''selection_start'' (ime_SelectionStart p) @
     opt_member jstr ''session_id'' (sessionID cmd) @
     [(''text_length'', jint (int (rune_count (ime_Text p))))]"

definition sanitizeInputImeSetComposition :: sanitizer where
  "sanitizeInputImeSetComposition cmd =
     map_option (dataInputImeSetComposition cmd)
       (decodeParams inputImeSetCompositionParams_fields zero_inputImeSetCompositionParams (cmd_Params cmd))"

definition BrowserCdpInputImeSetCompositionCommandData :: schema where
  "BrowserCdpInputImeSetCompositionCommandData =
     [(''command_id'', KInt, False), (''connection_id'', KText, False),
      (''method'', KEnum [''Input.imeSetComposition''], True), (''replacement_end'', KInt, False),
      (''replacement_start'', KInt, False), (''selection_end'', KInt, False),
      (''selection_start'', KInt, False), (''session_id'', KText, False),
      (''text_length'', KInt, True)]"

definition inputImeSetCompositionParams_redactions :: redactions where
  "inputImeSetCompositionParams_redactions =
     [(''text'', on_text same_length)]"

definition blank_inputImeSetCompositionParams :: "inputImeSetCompositionParams \<Rightarrow> inputImeSetCompositionParams" where
  "blank_inputImeSetCompositionParams p =
     p\<lparr>ime_Text := same_length (ime_Text p)\<rparr>"

lemma tracks_inputImeSetCompositionParams:
  "tracks blank_inputImeSetCompositionParams inputImeSetCompositionParams_redactions inputImeSetCompositionParams_fields"
  by (auto simp: tracks_def redact_def inputImeSetCompositionParams_redactions_def blank_inputImeSetCompositionParams_def inputImeSetCompositionParams_fields_def
      field_defs option.map_comp comp_def string_elem_on_text as_slice_on
      intro!: option.map_cong)

lemma InputImeSetComposition_fits: "sanitizeInputImeSetComposition cmd = Some ms \<Longrightarrow> fits BrowserCdpInputImeSetCompositionCommandData ms"
  by (auto simp: sanitizeInputImeSetComposition_def dataInputImeSetComposition_def BrowserCdpInputImeSetCompositionCommandData_def
      intro!: fits_intros intro: text_kinds split: if_splits)

lemma InputImeSetComposition_blind: "blind sanitizeInputImeSetComposition (map fst inputImeSetCompositionParams_fields) inputImeSetCompositionParams_redactions"
  by (rule blindI[where out = "dataInputImeSetComposition" and zero = zero_inputImeSetCompositionParams and h = "blank_inputImeSetCompositionParams"])
    (simp_all add: sanitizeInputImeSetComposition_def dataInputImeSetComposition_def tracks_inputImeSetCompositionParams blank_inputImeSetCompositionParams_def zero_inputImeSetCompositionParams_def)

record touchPoint =
  tp_X :: "jnum option"
  tp_Y :: "jnum option"
  tp_RadiusX :: "jnum option"
  tp_RadiusY :: "jnum option"
  tp_RotationAngle :: "jnum option"
  tp_Force :: "jnum option"
  tp_TangentialPressure :: "jnum option"
  tp_TiltX :: "jnum option"
  tp_TiltY :: "jnum option"
  tp_Twist :: "int option"

definition touchPoint_fields :: "touchPoint struct_fields" where
  "touchPoint_fields =
     [(''x'', ptr_field as_float tp_X_update), (''y'', ptr_field as_float tp_Y_update),
      (''radiusX'', ptr_field as_float tp_RadiusX_update),
      (''radiusY'', ptr_field as_float tp_RadiusY_update),
      (''rotationAngle'', ptr_field as_float tp_RotationAngle_update),
      (''force'', ptr_field as_float tp_Force_update),
      (''tangentialPressure'', ptr_field as_float tp_TangentialPressure_update),
      (''tiltX'', ptr_field as_float tp_TiltX_update),
      (''tiltY'', ptr_field as_float tp_TiltY_update),
      (''twist'', ptr_field as_int tp_Twist_update)]"

definition zero_touchPoint :: touchPoint where
  "zero_touchPoint =
     \<lparr>tp_X = None, tp_Y = None, tp_RadiusX = None, tp_RadiusY = None,
      tp_RotationAngle = None, tp_Force = None, tp_TangentialPressure = None, tp_TiltX = None,
      tp_TiltY = None, tp_Twist = None\<rparr>"

record inputDispatchTouchEventParams =
  touch_Type :: string
  touch_TouchPoints :: "touchPoint backed"
  touch_Modifiers :: "int option"

definition inputDispatchTouchEventParams_fields :: "inputDispatchTouchEventParams struct_fields" where
  "inputDispatchTouchEventParams_fields =
     [(''type'', plain_field as_string touch_Type_update),
      (''touchPoints'', backed_field (decode_struct touchPoint_fields) zero_touchPoint touch_TouchPoints touch_TouchPoints_update),
      (''modifiers'', ptr_field as_int touch_Modifiers_update)]"

definition zero_inputDispatchTouchEventParams :: inputDispatchTouchEventParams where
  "zero_inputDispatchTouchEventParams =
     \<lparr>touch_Type = [], touch_TouchPoints = None, touch_Modifiers = None\<rparr>"

text \<open>The first point stands in for the gesture.\<close>

definition primary_point :: "(touchPoint \<Rightarrow> 'a option) \<Rightarrow> inputDispatchTouchEventParams \<Rightarrow> 'a option" where
  "primary_point get p =
     (case visible (touch_TouchPoints p) of primary # _ \<Rightarrow> get primary | [] \<Rightarrow> None)"

definition dataInputDispatchTouchEvent :: "cdpCommand \<Rightarrow> inputDispatchTouchEventParams \<Rightarrow> members" where
  "dataInputDispatchTouchEvent cmd p =
     opt_member jint ''command_id'' (cmd_ID cmd) @ opt_member jstr ''connection_id'' (connID cmd) @
     (''event_type'', JString (touchEventType (touch_Type p))) #
     opt_member JNumber ''force'' (primary_point tp_Force p) @
     (''method'', JString ''Input.dispatchTouchEvent'') #
     opt_member jint ''modifiers'' (touch_Modifiers p) @
     opt_member JNumber ''radius_x'' (primary_point tp_RadiusX p) @
     opt_member JNumber ''radius_y'' (primary_point tp_RadiusY p) @
     opt_member JNumber ''rotation_angle'' (primary_point tp_RotationAngle p) @
     opt_member jstr ''session_id'' (sessionID cmd) @
     opt_member JNumber ''tangential_pressure'' (primary_point tp_TangentialPressure p) @
     opt_member JNumber ''tilt_x'' (primary_point tp_TiltX p) @
     opt_member JNumber ''tilt_y'' (primary_point tp_TiltY p) @
     (''touch_point_count'', jint (int (length (visible (touch_TouchPoints p))))) #
     opt_member jint ''twist'' (primary_point tp_Twist p) @
     opt_member JNumber ''x'' (primary_point tp_X p) @
     opt_member JNumber ''y'' (primary_point tp_Y p)"

definition sanitizeInputDispatchTouchEvent :: sanitizer where
  "sanitizeInputDispatchTouchEvent cmd =
     map_option (dataInputDispatchTouchEvent cmd)
       (decodeParams inputDispatchTouchEventParams_fields zero_inputDispatchTouchEventParams (cmd_Params cmd))"

definition BrowserCdpInputDispatchTouchEventCommandData :: schema where
  "BrowserCdpInputDispatchTouchEventCommandData =
     [(''command_id'', KInt, False), (''connection_id'', KText, False),
      (''event_type'', KEnum BrowserCdpTouchEventType, True), (''force'', KFloat, False),
      (''method'', KEnum [''Input.dispatchTouchEvent''], True), (''modifiers'', KInt, False),
      (''radius_x'', KFloat, False), (''radius_y'', KFloat, False),
      (''rotation_angle'', KFloat, False), (''session_id'', KText, False),
      (''tangential_pressure'', KFloat, False), (''tilt_x'', KFloat, False),
      (''tilt_y'', KFloat, False), (''touch_point_count'', KInt, True), (''twist'', KInt, False),
      (''x'', KFloat, False), (''y'', KFloat, False)]"

lemma InputDispatchTouchEvent_fits: "sanitizeInputDispatchTouchEvent cmd = Some ms \<Longrightarrow> fits BrowserCdpInputDispatchTouchEventCommandData ms"
  by (auto simp: sanitizeInputDispatchTouchEvent_def dataInputDispatchTouchEvent_def BrowserCdpInputDispatchTouchEventCommandData_def
      intro!: fits_intros intro: text_kinds split: if_splits)

lemma InputDispatchTouchEvent_blind: "blind sanitizeInputDispatchTouchEvent (map fst inputDispatchTouchEventParams_fields) []"
  by (rule blind_plainI[where out = dataInputDispatchTouchEvent and zero = zero_inputDispatchTouchEventParams]) (simp_all add: sanitizeInputDispatchTouchEvent_def dataInputDispatchTouchEvent_def)

record dragDataItem =
  item_MimeType :: string

definition dragDataItem_fields :: "dragDataItem struct_fields" where
  "dragDataItem_fields =
     [(''mimeType'', plain_field as_string item_MimeType_update)]"

definition zero_dragDataItem :: dragDataItem where
  "zero_dragDataItem =
     \<lparr>item_MimeType = []\<rparr>"

record dragData =
  dd_Items :: "dragDataItem backed"
  dd_Files :: "string list option"
  dd_DragOperationsMask :: "int option"

definition dragData_fields :: "dragData struct_fields" where
  "dragData_fields =
     [
      (''items'', backed_field (decode_struct dragDataItem_fields) zero_dragDataItem dd_Items dd_Items_update),
      (''files'', slice_field string_elem dd_Files_update),
      (''dragOperationsMask'', ptr_field as_int dd_DragOperationsMask_update)]"

definition zero_dragData :: dragData where
  "zero_dragData =
     \<lparr>dd_Items = None, dd_Files = None, dd_DragOperationsMask = None\<rparr>"

text \<open>Of the drag data only the categories and the numbers of items and files show.\<close>

definition dragData_redactions :: redactions where
  "dragData_redactions =
     [(''items'', on_elements (blank_struct (map fst dragDataItem_fields) [(''mimeType'', on_text only_category)])),
      (''files'', on_elements (on_text (\<lambda>_. [])))]"

definition blank_dragDataItem :: "dragDataItem \<Rightarrow> dragDataItem" where
  "blank_dragDataItem i = i\<lparr>item_MimeType := only_category (item_MimeType i)\<rparr>"

definition blank_dragData :: "dragData \<Rightarrow> dragData" where
  "blank_dragData d =
     d\<lparr>dd_Items := map_option (map_prod (map blank_dragDataItem) (map blank_dragDataItem)) (dd_Items d),
       dd_Files := map_option (map (\<lambda>_. [])) (dd_Files d)\<rparr>"

lemma tracks_dragDataItem: "tracks blank_dragDataItem [(''mimeType'', on_text only_category)] dragDataItem_fields"
  by (auto simp: tracks_def redact_def dragDataItem_fields_def blank_dragDataItem_def only_category_def
      plain_field_def option.map_comp comp_def)

lemma dragDataItem_on:
  "decode_over (decode_struct dragDataItem_fields) zero_dragDataItem
     (map (blank_struct (map fst dragDataItem_fields) [(''mimeType'', on_text only_category)]) vs)
     (map blank_dragDataItem old) =
   map_option (map_prod (map blank_dragDataItem) (map blank_dragDataItem))
     (decode_over (decode_struct dragDataItem_fields) zero_dragDataItem vs old)"
proof (rule decode_over_on)
  show "decode_struct dragDataItem_fields
      (blank_struct (map fst dragDataItem_fields) [(''mimeType'', on_text only_category)] v) (blank_dragDataItem s) =
    map_option blank_dragDataItem (decode_struct dragDataItem_fields v s)" for v s
    by (rule decode_blank, rule tracks_dragDataItem)
qed (simp add: blank_dragDataItem_def zero_dragDataItem_def only_category_def)

lemma dragData_items:
  "backed_field (decode_struct dragDataItem_fields) zero_dragDataItem dd_Items dd_Items_update
     (on_elements (blank_struct (map fst dragDataItem_fields) [(''mimeType'', on_text only_category)]) v)
     (blank_dragData s) =
   map_option blank_dragData
     (backed_field (decode_struct dragDataItem_fields) zero_dragDataItem dd_Items dd_Items_update v s)"
proof (cases v)
  case (JArray vs)
  have old: "(case dd_Items (blank_dragData s) of None \<Rightarrow> [] | Some (xs, spare) \<Rightarrow> xs @ spare) =
      map blank_dragDataItem (case dd_Items s of None \<Rightarrow> [] | Some (xs, spare) \<Rightarrow> xs @ spare)"
    by (simp add: blank_dragData_def split: option.split)
  show ?thesis
    unfolding JArray on_elements.simps backed_field_def json.case old dragDataItem_on
    by (auto simp: option.map_comp comp_def blank_dragData_def intro!: option.map_cong)
qed (simp_all add: backed_field_def blank_dragData_def)

lemma tracks_dragData: "tracks blank_dragData dragData_redactions dragData_fields"
proof -
  have "slice_field string_elem dd_Files_update (on_elements (on_text (\<lambda>_. [])) v) (blank_dragData s) =
      map_option blank_dragData (slice_field string_elem dd_Files_update v s)" for v s
    by (auto simp: blank_dragData_def field_defs option.map_comp comp_def string_elem_on_text as_slice_on
        intro!: option.map_cong)
  moreover have "ptr_field as_int dd_DragOperationsMask_update v (blank_dragData s) =
      map_option blank_dragData (ptr_field as_int dd_DragOperationsMask_update v s)" for v s
    by (auto simp: blank_dragData_def field_defs option.map_comp comp_def intro!: option.map_cong)
  ultimately show ?thesis
    by (simp add: tracks_def dragData_fields_def dragData_redactions_def redact_def dragData_items)
qed

record inputDispatchDragEventParams =
  drag_Type :: string
  drag_X :: "jnum option"
  drag_Y :: "jnum option"
  drag_Modifiers :: "int option"
  drag_Data :: dragData

definition inputDispatchDragEventParams_fields :: "inputDispatchDragEventParams struct_fields" where
  "inputDispatchDragEventParams_fields =
     [(''type'', plain_field as_string drag_Type_update),
      (''x'', ptr_field as_float drag_X_update), (''y'', ptr_field as_float drag_Y_update),
      (''modifiers'', ptr_field as_int drag_Modifiers_update),
      (''data'', nested_field dragData_fields drag_Data drag_Data_update)]"

definition zero_inputDispatchDragEventParams :: inputDispatchDragEventParams where
  "zero_inputDispatchDragEventParams =
     \<lparr>drag_Type = [], drag_X = None, drag_Y = None, drag_Modifiers = None,
      drag_Data = zero_dragData\<rparr>"

text \<open>\<open>mimeCategoriesOf\<close>: the categories of the items, each once, sorted.\<close>

definition mimeCategoriesOf :: "dragDataItem list \<Rightarrow> string list" where
  "mimeCategoriesOf items = sort (remdups (map (\<lambda>item. mime_category (item_MimeType item)) items))"

lemma mimeCategoriesOf_ok:
  "has_kind (KEnums BrowserCdpDragMimeCategory) (JArray (map JString (mimeCategoriesOf items)))"
proof -
  have "set (''other'' # mimeCategories) \<subseteq> set BrowserCdpDragMimeCategory"
    by (simp add: mimeCategories_def BrowserCdpDragMimeCategory_def)
  then have "mime_category m \<in> set BrowserCdpDragMimeCategory" for m
    using mime_category_range by blast
  then show ?thesis
    by (auto simp: has_kind.simps mimeCategoriesOf_def distinct_map inj_on_def)
qed

lemma mimeCategoriesOf_blank [simp]: "mimeCategoriesOf (map blank_dragDataItem items) = mimeCategoriesOf items"
  by (simp add: mimeCategoriesOf_def blank_dragDataItem_def comp_def)

definition dataInputDispatchDragEvent :: "cdpCommand \<Rightarrow> inputDispatchDragEventParams \<Rightarrow> members" where
  "dataInputDispatchDragEvent cmd p =
     (let cats = mimeCategoriesOf (visible (dd_Items (drag_Data p))) in
     opt_member jint ''command_id'' (cmd_ID cmd) @ opt_member jstr ''connection_id'' (connID cmd) @
     opt_member jint ''drag_file_count'' (count_of (dd_Files (drag_Data p))) @
     opt_member jint ''drag_item_count'' (Some (int (length (visible (dd_Items (drag_Data p)))))) @
     opt_member (JArray \<circ> map JString) ''drag_mime_categories'' (if cats = [] then None else Some cats) @
     opt_member jint ''drag_operations_mask'' (dd_DragOperationsMask (drag_Data p)) @
     (''event_type'', JString (dragEventType (drag_Type p))) #
     (''method'', JString ''Input.dispatchDragEvent'') #
     opt_member jint ''modifiers'' (drag_Modifiers p) @
     opt_member jstr ''session_id'' (sessionID cmd) @ opt_member JNumber ''x'' (drag_X p) @
     opt_member JNumber ''y'' (drag_Y p))"

definition sanitizeInputDispatchDragEvent :: sanitizer where
  "sanitizeInputDispatchDragEvent cmd =
     map_option (dataInputDispatchDragEvent cmd)
       (decodeParams inputDispatchDragEventParams_fields zero_inputDispatchDragEventParams (cmd_Params cmd))"

definition BrowserCdpInputDispatchDragEventCommandData :: schema where
  "BrowserCdpInputDispatchDragEventCommandData =
     [(''command_id'', KInt, False), (''connection_id'', KText, False),
      (''drag_file_count'', KInt, False), (''drag_item_count'', KInt, False),
      (''drag_mime_categories'', KEnums BrowserCdpDragMimeCategory, False),
      (''drag_operations_mask'', KInt, False),
      (''event_type'', KEnum BrowserCdpDragEventType, True),
      (''method'', KEnum [''Input.dispatchDragEvent''], True), (''modifiers'', KInt, False),
      (''session_id'', KText, False), (''x'', KFloat, False), (''y'', KFloat, False)]"

definition inputDispatchDragEventParams_redactions :: redactions where
  "inputDispatchDragEventParams_redactions =
     [(''data'', blank_struct (map fst dragData_fields) dragData_redactions)]"

definition blank_inputDispatchDragEventParams :: "inputDispatchDragEventParams \<Rightarrow> inputDispatchDragEventParams" where
  "blank_inputDispatchDragEventParams p =
     p\<lparr>drag_Data := blank_dragData (drag_Data p)\<rparr>"

lemma tracks_inputDispatchDragEventParams:
  "tracks blank_inputDispatchDragEventParams inputDispatchDragEventParams_redactions inputDispatchDragEventParams_fields"
  by (auto simp: tracks_def redact_def inputDispatchDragEventParams_redactions_def blank_inputDispatchDragEventParams_def inputDispatchDragEventParams_fields_def
      field_defs option.map_comp comp_def string_elem_on_text as_slice_on decode_blank[OF tracks_dragData]
      intro!: option.map_cong)

lemma InputDispatchDragEvent_fits: "sanitizeInputDispatchDragEvent cmd = Some ms \<Longrightarrow> fits BrowserCdpInputDispatchDragEventCommandData ms"
  by (auto simp: sanitizeInputDispatchDragEvent_def dataInputDispatchDragEvent_def BrowserCdpInputDispatchDragEventCommandData_def Let_def comp_def
      intro!: fits_intros intro: text_kinds mimeCategoriesOf_ok split: if_splits)

lemma InputDispatchDragEvent_blind: "blind sanitizeInputDispatchDragEvent (map fst inputDispatchDragEventParams_fields) inputDispatchDragEventParams_redactions"
  by (rule blindI[where out = "dataInputDispatchDragEvent" and zero = zero_inputDispatchDragEventParams and h = "blank_inputDispatchDragEventParams"])
    (simp_all add: sanitizeInputDispatchDragEvent_def dataInputDispatchDragEvent_def tracks_inputDispatchDragEventParams blank_inputDispatchDragEventParams_def zero_inputDispatchDragEventParams_def
      zero_dragData_def blank_dragData_def Let_def)

definition sanitizeInputCancelDragging :: sanitizer where
  "sanitizeInputCancelDragging cmd = Some (
     opt_member jint ''command_id'' (cmd_ID cmd) @ opt_member jstr ''connection_id'' (connID cmd) @
     (''method'', JString ''Input.cancelDragging'') #
     opt_member jstr ''session_id'' (sessionID cmd))"

definition BrowserCdpInputCancelDraggingCommandData :: schema where
  "BrowserCdpInputCancelDraggingCommandData =
     [(''command_id'', KInt, False), (''connection_id'', KText, False),
      (''method'', KEnum [''Input.cancelDragging''], True), (''session_id'', KText, False)]"

lemma InputCancelDragging_fits: "sanitizeInputCancelDragging cmd = Some ms \<Longrightarrow> fits BrowserCdpInputCancelDraggingCommandData ms"
  by (auto simp: sanitizeInputCancelDragging_def BrowserCdpInputCancelDraggingCommandData_def intro!: fits_intros intro: text_kinds split: if_splits)

lemma InputCancelDragging_blind: "blind sanitizeInputCancelDragging names vs"
  by (rule blind_constI) (simp add: sanitizeInputCancelDragging_def)

record inputEmulateTouchFromMouseEventParams =
  emu_Type :: string
  emu_X :: "jnum option"
  emu_Y :: "jnum option"
  emu_Button :: "string option"
  emu_Modifiers :: "int option"
  emu_ClickCount :: "int option"
  emu_DeltaX :: "jnum option"
  emu_DeltaY :: "jnum option"

definition inputEmulateTouchFromMouseEventParams_fields :: "inputEmulateTouchFromMouseEventParams struct_fields" where
  "inputEmulateTouchFromMouseEventParams_fields =
     [(''type'', plain_field as_string emu_Type_update), (''x'', ptr_field as_float emu_X_update),
      (''y'', ptr_field as_float emu_Y_update),
      (''button'', ptr_field as_string emu_Button_update),
      (''modifiers'', ptr_field as_int emu_Modifiers_update),
      (''clickCount'', ptr_field as_int emu_ClickCount_update),
      (''deltaX'', ptr_field as_float emu_DeltaX_update),
      (''deltaY'', ptr_field as_float emu_DeltaY_update)]"

definition zero_inputEmulateTouchFromMouseEventParams :: inputEmulateTouchFromMouseEventParams where
  "zero_inputEmulateTouchFromMouseEventParams =
     \<lparr>emu_Type = [], emu_X = None, emu_Y = None, emu_Button = None, emu_Modifiers = None,
      emu_ClickCount = None, emu_DeltaX = None, emu_DeltaY = None\<rparr>"

definition dataInputEmulateTouchFromMouseEvent :: "cdpCommand \<Rightarrow> inputEmulateTouchFromMouseEventParams \<Rightarrow> members" where
  "dataInputEmulateTouchFromMouseEvent cmd p =
     opt_member JString ''button'' (mouseButton (emu_Button p)) @
     opt_member jint ''click_count'' (emu_ClickCount p) @
     opt_member jint ''command_id'' (cmd_ID cmd) @ opt_member jstr ''connection_id'' (connID cmd) @
     opt_member JNumber ''delta_x'' (emu_DeltaX p) @
     opt_member JNumber ''delta_y'' (emu_DeltaY p) @
     (''event_type'', JString (mouseEventType (emu_Type p))) #
     (''method'', JString ''Input.emulateTouchFromMouseEvent'') #
     opt_member jint ''modifiers'' (emu_Modifiers p) @
     opt_member jstr ''session_id'' (sessionID cmd) @ opt_member JNumber ''x'' (emu_X p) @
     opt_member JNumber ''y'' (emu_Y p)"

definition sanitizeInputEmulateTouchFromMouseEvent :: sanitizer where
  "sanitizeInputEmulateTouchFromMouseEvent cmd =
     map_option (dataInputEmulateTouchFromMouseEvent cmd)
       (decodeParams inputEmulateTouchFromMouseEventParams_fields zero_inputEmulateTouchFromMouseEventParams (cmd_Params cmd))"

definition BrowserCdpInputEmulateTouchFromMouseEventCommandData :: schema where
  "BrowserCdpInputEmulateTouchFromMouseEventCommandData =
     [(''button'', KEnum BrowserCdpMouseButton, False), (''click_count'', KInt, False),
      (''command_id'', KInt, False), (''connection_id'', KText, False),
      (''delta_x'', KFloat, False), (''delta_y'', KFloat, False),
      (''event_type'', KEnum BrowserCdpMouseEventType, True),
      (''method'', KEnum [''Input.emulateTouchFromMouseEvent''], True),
      (''modifiers'', KInt, False), (''session_id'', KText, False), (''x'', KFloat, False),
      (''y'', KFloat, False)]"

lemma InputEmulateTouchFromMouseEvent_fits: "sanitizeInputEmulateTouchFromMouseEvent cmd = Some ms \<Longrightarrow> fits BrowserCdpInputEmulateTouchFromMouseEventCommandData ms"
  by (auto simp: sanitizeInputEmulateTouchFromMouseEvent_def dataInputEmulateTouchFromMouseEvent_def BrowserCdpInputEmulateTouchFromMouseEventCommandData_def
      intro!: fits_intros intro: text_kinds split: if_splits)

lemma InputEmulateTouchFromMouseEvent_blind: "blind sanitizeInputEmulateTouchFromMouseEvent (map fst inputEmulateTouchFromMouseEventParams_fields) []"
  by (rule blind_plainI[where out = dataInputEmulateTouchFromMouseEvent and zero = zero_inputEmulateTouchFromMouseEventParams]) (simp_all add: sanitizeInputEmulateTouchFromMouseEvent_def dataInputEmulateTouchFromMouseEvent_def)

record inputSynthesizePinchGestureParams =
  pinch_X :: "jnum option"
  pinch_Y :: "jnum option"
  pinch_ScaleFactor :: "jnum option"
  pinch_RelativeSpeed :: "int option"
  pinch_GestureSourceType :: "string option"

definition inputSynthesizePinchGestureParams_fields :: "inputSynthesizePinchGestureParams struct_fields" where
  "inputSynthesizePinchGestureParams_fields =
     [(''x'', ptr_field as_float pinch_X_update), (''y'', ptr_field as_float pinch_Y_update),
      (''scaleFactor'', ptr_field as_float pinch_ScaleFactor_update),
      (''relativeSpeed'', ptr_field as_int pinch_RelativeSpeed_update),
      (''gestureSourceType'', ptr_field as_string pinch_GestureSourceType_update)]"

definition zero_inputSynthesizePinchGestureParams :: inputSynthesizePinchGestureParams where
  "zero_inputSynthesizePinchGestureParams =
     \<lparr>pinch_X = None, pinch_Y = None, pinch_ScaleFactor = None, pinch_RelativeSpeed = None,
      pinch_GestureSourceType = None\<rparr>"

definition dataInputSynthesizePinchGesture :: "cdpCommand \<Rightarrow> inputSynthesizePinchGestureParams \<Rightarrow> members" where
  "dataInputSynthesizePinchGesture cmd p =
     opt_member jint ''command_id'' (cmd_ID cmd) @ opt_member jstr ''connection_id'' (connID cmd) @
     opt_member JString ''gesture_source_type'' (gestureSourceType (pinch_GestureSourceType p)) @
     (''method'', JString ''Input.synthesizePinchGesture'') #
     opt_member jint ''relative_speed'' (pinch_RelativeSpeed p) @
     opt_member JNumber ''scale_factor'' (pinch_ScaleFactor p) @
     opt_member jstr ''session_id'' (sessionID cmd) @ opt_member JNumber ''x'' (pinch_X p) @
     opt_member JNumber ''y'' (pinch_Y p)"

definition sanitizeInputSynthesizePinchGesture :: sanitizer where
  "sanitizeInputSynthesizePinchGesture cmd =
     map_option (dataInputSynthesizePinchGesture cmd)
       (decodeParams inputSynthesizePinchGestureParams_fields zero_inputSynthesizePinchGestureParams (cmd_Params cmd))"

definition BrowserCdpInputSynthesizePinchGestureCommandData :: schema where
  "BrowserCdpInputSynthesizePinchGestureCommandData =
     [(''command_id'', KInt, False), (''connection_id'', KText, False),
      (''gesture_source_type'', KEnum BrowserCdpGestureSourceType, False),
      (''method'', KEnum [''Input.synthesizePinchGesture''], True),
      (''relative_speed'', KInt, False), (''scale_factor'', KFloat, False),
      (''session_id'', KText, False), (''x'', KFloat, False), (''y'', KFloat, False)]"

lemma InputSynthesizePinchGesture_fits: "sanitizeInputSynthesizePinchGesture cmd = Some ms \<Longrightarrow> fits BrowserCdpInputSynthesizePinchGestureCommandData ms"
  by (auto simp: sanitizeInputSynthesizePinchGesture_def dataInputSynthesizePinchGesture_def BrowserCdpInputSynthesizePinchGestureCommandData_def
      intro!: fits_intros intro: text_kinds split: if_splits)

lemma InputSynthesizePinchGesture_blind: "blind sanitizeInputSynthesizePinchGesture (map fst inputSynthesizePinchGestureParams_fields) []"
  by (rule blind_plainI[where out = dataInputSynthesizePinchGesture and zero = zero_inputSynthesizePinchGestureParams]) (simp_all add: sanitizeInputSynthesizePinchGesture_def dataInputSynthesizePinchGesture_def)

record inputSynthesizeScrollGestureParams =
  scroll_X :: "jnum option"
  scroll_Y :: "jnum option"
  scroll_XDistance :: "jnum option"
  scroll_YDistance :: "jnum option"
  scroll_XOverscroll :: "jnum option"
  scroll_YOverscroll :: "jnum option"
  scroll_PreventFling :: "bool option"
  scroll_Speed :: "int option"
  scroll_GestureSourceType :: "string option"
  scroll_RepeatCount :: "int option"
  scroll_RepeatDelayMs :: "int option"

definition inputSynthesizeScrollGestureParams_fields :: "inputSynthesizeScrollGestureParams struct_fields" where
  "inputSynthesizeScrollGestureParams_fields =
     [(''x'', ptr_field as_float scroll_X_update), (''y'', ptr_field as_float scroll_Y_update),
      (''xDistance'', ptr_field as_float scroll_XDistance_update),
      (''yDistance'', ptr_field as_float scroll_YDistance_update),
      (''xOverscroll'', ptr_field as_float scroll_XOverscroll_update),
      (''yOverscroll'', ptr_field as_float scroll_YOverscroll_update),
      (''preventFling'', ptr_field as_bool scroll_PreventFling_update),
      (''speed'', ptr_field as_int scroll_Speed_update),
      (''gestureSourceType'', ptr_field as_string scroll_GestureSourceType_update),
      (''repeatCount'', ptr_field as_int scroll_RepeatCount_update),
      (''repeatDelayMs'', ptr_field as_int scroll_RepeatDelayMs_update)]"

definition zero_inputSynthesizeScrollGestureParams :: inputSynthesizeScrollGestureParams where
  "zero_inputSynthesizeScrollGestureParams =
     \<lparr>scroll_X = None, scroll_Y = None, scroll_XDistance = None, scroll_YDistance = None,
      scroll_XOverscroll = None, scroll_YOverscroll = None, scroll_PreventFling = None,
      scroll_Speed = None, scroll_GestureSourceType = None, scroll_RepeatCount = None,
      scroll_RepeatDelayMs = None\<rparr>"

definition dataInputSynthesizeScrollGesture :: "cdpCommand \<Rightarrow> inputSynthesizeScrollGestureParams \<Rightarrow> members" where
  "dataInputSynthesizeScrollGesture cmd p =
     opt_member jint ''command_id'' (cmd_ID cmd) @ opt_member jstr ''connection_id'' (connID cmd) @
     opt_member JString ''gesture_source_type'' (gestureSourceType (scroll_GestureSourceType p)) @
     (''method'', JString ''Input.synthesizeScrollGesture'') #
     opt_member JBool ''prevent_fling'' (scroll_PreventFling p) @
     opt_member jint ''repeat_count'' (scroll_RepeatCount p) @
     opt_member jint ''repeat_delay_ms'' (scroll_RepeatDelayMs p) @
     opt_member jstr ''session_id'' (sessionID cmd) @ opt_member jint ''speed'' (scroll_Speed p) @
     opt_member JNumber ''x'' (scroll_X p) @
     opt_member JNumber ''x_distance'' (scroll_XDistance p) @
     opt_member JNumber ''x_overscroll'' (scroll_XOverscroll p) @
     opt_member JNumber ''y'' (scroll_Y p) @
     opt_member JNumber ''y_distance'' (scroll_YDistance p) @
     opt_member JNumber ''y_overscroll'' (scroll_YOverscroll p)"

definition sanitizeInputSynthesizeScrollGesture :: sanitizer where
  "sanitizeInputSynthesizeScrollGesture cmd =
     map_option (dataInputSynthesizeScrollGesture cmd)
       (decodeParams inputSynthesizeScrollGestureParams_fields zero_inputSynthesizeScrollGestureParams (cmd_Params cmd))"

definition BrowserCdpInputSynthesizeScrollGestureCommandData :: schema where
  "BrowserCdpInputSynthesizeScrollGestureCommandData =
     [(''command_id'', KInt, False), (''connection_id'', KText, False),
      (''gesture_source_type'', KEnum BrowserCdpGestureSourceType, False),
      (''method'', KEnum [''Input.synthesizeScrollGesture''], True),
      (''prevent_fling'', KBool, False), (''repeat_count'', KInt, False),
      (''repeat_delay_ms'', KInt, False), (''session_id'', KText, False), (''speed'', KInt, False),
      (''x'', KFloat, False), (''x_distance'', KFloat, False), (''x_overscroll'', KFloat, False),
      (''y'', KFloat, False), (''y_distance'', KFloat, False), (''y_overscroll'', KFloat, False)]"

lemma InputSynthesizeScrollGesture_fits: "sanitizeInputSynthesizeScrollGesture cmd = Some ms \<Longrightarrow> fits BrowserCdpInputSynthesizeScrollGestureCommandData ms"
  by (auto simp: sanitizeInputSynthesizeScrollGesture_def dataInputSynthesizeScrollGesture_def BrowserCdpInputSynthesizeScrollGestureCommandData_def
      intro!: fits_intros intro: text_kinds split: if_splits)

lemma InputSynthesizeScrollGesture_blind: "blind sanitizeInputSynthesizeScrollGesture (map fst inputSynthesizeScrollGestureParams_fields) []"
  by (rule blind_plainI[where out = dataInputSynthesizeScrollGesture and zero = zero_inputSynthesizeScrollGestureParams]) (simp_all add: sanitizeInputSynthesizeScrollGesture_def dataInputSynthesizeScrollGesture_def)

record inputSynthesizeTapGestureParams =
  tap_X :: "jnum option"
  tap_Y :: "jnum option"
  tap_Duration :: "int option"
  tap_TapCount :: "int option"
  tap_GestureSourceType :: "string option"

definition inputSynthesizeTapGestureParams_fields :: "inputSynthesizeTapGestureParams struct_fields" where
  "inputSynthesizeTapGestureParams_fields =
     [(''x'', ptr_field as_float tap_X_update), (''y'', ptr_field as_float tap_Y_update),
      (''duration'', ptr_field as_int tap_Duration_update),
      (''tapCount'', ptr_field as_int tap_TapCount_update),
      (''gestureSourceType'', ptr_field as_string tap_GestureSourceType_update)]"

definition zero_inputSynthesizeTapGestureParams :: inputSynthesizeTapGestureParams where
  "zero_inputSynthesizeTapGestureParams =
     \<lparr>tap_X = None, tap_Y = None, tap_Duration = None, tap_TapCount = None,
      tap_GestureSourceType = None\<rparr>"

definition dataInputSynthesizeTapGesture :: "cdpCommand \<Rightarrow> inputSynthesizeTapGestureParams \<Rightarrow> members" where
  "dataInputSynthesizeTapGesture cmd p =
     opt_member jint ''command_id'' (cmd_ID cmd) @ opt_member jstr ''connection_id'' (connID cmd) @
     opt_member jint ''duration'' (tap_Duration p) @
     opt_member JString ''gesture_source_type'' (gestureSourceType (tap_GestureSourceType p)) @
     (''method'', JString ''Input.synthesizeTapGesture'') #
     opt_member jstr ''session_id'' (sessionID cmd) @
     opt_member jint ''tap_count'' (tap_TapCount p) @ opt_member JNumber ''x'' (tap_X p) @
     opt_member JNumber ''y'' (tap_Y p)"

definition sanitizeInputSynthesizeTapGesture :: sanitizer where
  "sanitizeInputSynthesizeTapGesture cmd =
     map_option (dataInputSynthesizeTapGesture cmd)
       (decodeParams inputSynthesizeTapGestureParams_fields zero_inputSynthesizeTapGestureParams (cmd_Params cmd))"

definition BrowserCdpInputSynthesizeTapGestureCommandData :: schema where
  "BrowserCdpInputSynthesizeTapGestureCommandData =
     [(''command_id'', KInt, False), (''connection_id'', KText, False),
      (''duration'', KInt, False),
      (''gesture_source_type'', KEnum BrowserCdpGestureSourceType, False),
      (''method'', KEnum [''Input.synthesizeTapGesture''], True), (''session_id'', KText, False),
      (''tap_count'', KInt, False), (''x'', KFloat, False), (''y'', KFloat, False)]"

lemma InputSynthesizeTapGesture_fits: "sanitizeInputSynthesizeTapGesture cmd = Some ms \<Longrightarrow> fits BrowserCdpInputSynthesizeTapGestureCommandData ms"
  by (auto simp: sanitizeInputSynthesizeTapGesture_def dataInputSynthesizeTapGesture_def BrowserCdpInputSynthesizeTapGestureCommandData_def
      intro!: fits_intros intro: text_kinds split: if_splits)

lemma InputSynthesizeTapGesture_blind: "blind sanitizeInputSynthesizeTapGesture (map fst inputSynthesizeTapGestureParams_fields) []"
  by (rule blind_plainI[where out = dataInputSynthesizeTapGesture and zero = zero_inputSynthesizeTapGestureParams]) (simp_all add: sanitizeInputSynthesizeTapGesture_def dataInputSynthesizeTapGesture_def)

end
