(* ===== verification/CdpPage.thy ===== *)
theory CdpPage
  imports CdpCommand
begin

text \<open>
  The sanitizers of the DOM and page commands (\<open>lib/devtoolsproxy/cdpparams.go\<close>), with the same two
  facts for each as for the input commands.
\<close>

record domNodeRef =
  node_NodeId :: "int option"
  node_BackendNodeId :: "int option"
  node_ObjectId :: "string option"

definition domNodeRef_fields :: "('a domNodeRef_scheme) struct_fields" where
  "domNodeRef_fields =
     [(''nodeId'', ptr_field as_int node_NodeId_update),
      (''backendNodeId'', ptr_field as_int node_BackendNodeId_update),
      (''objectId'', ptr_field as_string node_ObjectId_update)]"

definition zero_domNodeRef :: domNodeRef where
  "zero_domNodeRef =
     \<lparr>node_NodeId = None, node_BackendNodeId = None, node_ObjectId = None\<rparr>"

record domSetFileInputFilesParams = domNodeRef +
  fileinput_Files :: "string list option"

definition domSetFileInputFilesParams_fields :: "domSetFileInputFilesParams struct_fields" where
  "domSetFileInputFilesParams_fields =
     domNodeRef_fields @ [(''files'', slice_field string_elem fileinput_Files_update)]"

definition zero_domSetFileInputFilesParams :: domSetFileInputFilesParams where
  "zero_domSetFileInputFilesParams =
     \<lparr>node_NodeId = None, node_BackendNodeId = None, node_ObjectId = None,
      fileinput_Files = None\<rparr>"

definition dataDomSetFileInputFiles :: "cdpCommand \<Rightarrow> domSetFileInputFilesParams \<Rightarrow> members" where
  "dataDomSetFileInputFiles cmd p =
     opt_member jint ''backend_node_id'' (node_BackendNodeId p) @
     opt_member jint ''command_id'' (cmd_ID cmd) @ opt_member jstr ''connection_id'' (connID cmd) @
     (''file_count'', jint (slice_len (fileinput_Files p))) #
     (''method'', JString ''DOM.setFileInputFiles'') #
     opt_member jint ''node_id'' (node_NodeId p) @
     opt_member jstr ''object_id'' (clipIDPtr (node_ObjectId p)) @
     opt_member jstr ''session_id'' (sessionID cmd)"

definition sanitizeDomSetFileInputFiles :: sanitizer where
  "sanitizeDomSetFileInputFiles cmd =
     map_option (dataDomSetFileInputFiles cmd)
       (decodeParams domSetFileInputFilesParams_fields zero_domSetFileInputFilesParams (cmd_Params cmd))"

definition BrowserCdpDomSetFileInputFilesCommandData :: schema where
  "BrowserCdpDomSetFileInputFilesCommandData =
     [(''backend_node_id'', KInt, False), (''command_id'', KInt, False),
      (''connection_id'', KText, False), (''file_count'', KInt, True),
      (''method'', KEnum [''DOM.setFileInputFiles''], True), (''node_id'', KInt, False),
      (''object_id'', KText, False), (''session_id'', KText, False)]"

definition domSetFileInputFilesParams_redactions :: redactions where
  "domSetFileInputFilesParams_redactions =
     [(''files'', on_elements (on_text (\<lambda>_. [])))]"

definition blank_domSetFileInputFilesParams :: "domSetFileInputFilesParams \<Rightarrow> domSetFileInputFilesParams" where
  "blank_domSetFileInputFilesParams p =
     p\<lparr>fileinput_Files := map_option (map (\<lambda>_. [])) (fileinput_Files p)\<rparr>"

lemma tracks_domSetFileInputFilesParams:
  "tracks blank_domSetFileInputFilesParams domSetFileInputFilesParams_redactions domSetFileInputFilesParams_fields"
  by (auto simp: tracks_def redact_def domSetFileInputFilesParams_redactions_def blank_domSetFileInputFilesParams_def domSetFileInputFilesParams_fields_def domNodeRef_fields_def
      field_defs option.map_comp comp_def string_elem_on_text as_slice_on
      intro!: option.map_cong)

lemma DomSetFileInputFiles_fits: "sanitizeDomSetFileInputFiles cmd = Some ms \<Longrightarrow> fits BrowserCdpDomSetFileInputFilesCommandData ms"
  by (auto simp: sanitizeDomSetFileInputFiles_def dataDomSetFileInputFiles_def BrowserCdpDomSetFileInputFilesCommandData_def
      intro!: fits_intros intro: text_kinds split: if_splits)

lemma DomSetFileInputFiles_blind: "blind sanitizeDomSetFileInputFiles (map fst domSetFileInputFilesParams_fields) domSetFileInputFilesParams_redactions"
  by (rule blindI[where out = "dataDomSetFileInputFiles" and zero = zero_domSetFileInputFilesParams and h = "blank_domSetFileInputFilesParams"])
    (simp_all add: sanitizeDomSetFileInputFiles_def dataDomSetFileInputFiles_def tracks_domSetFileInputFilesParams blank_domSetFileInputFilesParams_def zero_domSetFileInputFilesParams_def)

definition dataDomFocus :: "cdpCommand \<Rightarrow> domNodeRef \<Rightarrow> members" where
  "dataDomFocus cmd p =
     opt_member jint ''backend_node_id'' (node_BackendNodeId p) @
     opt_member jint ''command_id'' (cmd_ID cmd) @ opt_member jstr ''connection_id'' (connID cmd) @
     (''method'', JString ''DOM.focus'') # opt_member jint ''node_id'' (node_NodeId p) @
     opt_member jstr ''object_id'' (clipIDPtr (node_ObjectId p)) @
     opt_member jstr ''session_id'' (sessionID cmd)"

definition sanitizeDomFocus :: sanitizer where
  "sanitizeDomFocus cmd =
     map_option (dataDomFocus cmd)
       (decodeParams domNodeRef_fields zero_domNodeRef (cmd_Params cmd))"

definition BrowserCdpDomFocusCommandData :: schema where
  "BrowserCdpDomFocusCommandData =
     [(''backend_node_id'', KInt, False), (''command_id'', KInt, False),
      (''connection_id'', KText, False), (''method'', KEnum [''DOM.focus''], True),
      (''node_id'', KInt, False), (''object_id'', KText, False), (''session_id'', KText, False)]"

lemma DomFocus_fits: "sanitizeDomFocus cmd = Some ms \<Longrightarrow> fits BrowserCdpDomFocusCommandData ms"
  by (auto simp: sanitizeDomFocus_def dataDomFocus_def BrowserCdpDomFocusCommandData_def
      intro!: fits_intros intro: text_kinds split: if_splits)

lemma DomFocus_blind: "blind sanitizeDomFocus (map fst (domNodeRef_fields :: domNodeRef struct_fields)) []"
  by (rule blind_plainI[where out = dataDomFocus and zero = zero_domNodeRef]) (simp_all add: sanitizeDomFocus_def dataDomFocus_def)

record rect =
  rect_X :: "jnum option"
  rect_Y :: "jnum option"
  rect_Width :: "jnum option"
  rect_Height :: "jnum option"

definition rect_fields :: "rect struct_fields" where
  "rect_fields =
     [(''x'', ptr_field as_float rect_X_update), (''y'', ptr_field as_float rect_Y_update),
      (''width'', ptr_field as_float rect_Width_update),
      (''height'', ptr_field as_float rect_Height_update)]"

definition zero_rect :: rect where
  "zero_rect =
     \<lparr>rect_X = None, rect_Y = None, rect_Width = None, rect_Height = None\<rparr>"

record domScrollIntoViewIfNeededParams = domNodeRef +
  intoview_Rect :: "rect option"

definition domScrollIntoViewIfNeededParams_fields :: "domScrollIntoViewIfNeededParams struct_fields" where
  "domScrollIntoViewIfNeededParams_fields =
     domNodeRef_fields @ [
      (''rect'', nested_ptr_field rect_fields zero_rect intoview_Rect intoview_Rect_update)]"

definition zero_domScrollIntoViewIfNeededParams :: domScrollIntoViewIfNeededParams where
  "zero_domScrollIntoViewIfNeededParams =
     \<lparr>node_NodeId = None, node_BackendNodeId = None, node_ObjectId = None,
      intoview_Rect = None\<rparr>"

definition dataDomScrollIntoViewIfNeeded :: "cdpCommand \<Rightarrow> domScrollIntoViewIfNeededParams \<Rightarrow> members" where
  "dataDomScrollIntoViewIfNeeded cmd p =
     opt_member jint ''backend_node_id'' (node_BackendNodeId p) @
     opt_member jint ''command_id'' (cmd_ID cmd) @ opt_member jstr ''connection_id'' (connID cmd) @
     (''method'', JString ''DOM.scrollIntoViewIfNeeded'') #
     opt_member jint ''node_id'' (node_NodeId p) @
     opt_member jstr ''object_id'' (clipIDPtr (node_ObjectId p)) @
     opt_member JNumber ''rect_height'' (Option.bind (intoview_Rect p) rect_Height) @
     opt_member JNumber ''rect_width'' (Option.bind (intoview_Rect p) rect_Width) @
     opt_member JNumber ''rect_x'' (Option.bind (intoview_Rect p) rect_X) @
     opt_member JNumber ''rect_y'' (Option.bind (intoview_Rect p) rect_Y) @
     opt_member jstr ''session_id'' (sessionID cmd)"

definition sanitizeDomScrollIntoViewIfNeeded :: sanitizer where
  "sanitizeDomScrollIntoViewIfNeeded cmd =
     map_option (dataDomScrollIntoViewIfNeeded cmd)
       (decodeParams domScrollIntoViewIfNeededParams_fields zero_domScrollIntoViewIfNeededParams (cmd_Params cmd))"

definition BrowserCdpDomScrollIntoViewIfNeededCommandData :: schema where
  "BrowserCdpDomScrollIntoViewIfNeededCommandData =
     [(''backend_node_id'', KInt, False), (''command_id'', KInt, False),
      (''connection_id'', KText, False),
      (''method'', KEnum [''DOM.scrollIntoViewIfNeeded''], True), (''node_id'', KInt, False),
      (''object_id'', KText, False), (''rect_height'', KFloat, False),
      (''rect_width'', KFloat, False), (''rect_x'', KFloat, False), (''rect_y'', KFloat, False),
      (''session_id'', KText, False)]"

lemma DomScrollIntoViewIfNeeded_fits: "sanitizeDomScrollIntoViewIfNeeded cmd = Some ms \<Longrightarrow> fits BrowserCdpDomScrollIntoViewIfNeededCommandData ms"
  by (auto simp: sanitizeDomScrollIntoViewIfNeeded_def dataDomScrollIntoViewIfNeeded_def BrowserCdpDomScrollIntoViewIfNeededCommandData_def
      intro!: fits_intros intro: text_kinds split: if_splits)

lemma DomScrollIntoViewIfNeeded_blind: "blind sanitizeDomScrollIntoViewIfNeeded (map fst domScrollIntoViewIfNeededParams_fields) []"
  by (rule blind_plainI[where out = dataDomScrollIntoViewIfNeeded and zero = zero_domScrollIntoViewIfNeededParams]) (simp_all add: sanitizeDomScrollIntoViewIfNeeded_def dataDomScrollIntoViewIfNeeded_def)

definition sanitizePageBringToFront :: sanitizer where
  "sanitizePageBringToFront cmd = Some (
     opt_member jint ''command_id'' (cmd_ID cmd) @ opt_member jstr ''connection_id'' (connID cmd) @
     (''method'', JString ''Page.bringToFront'') # opt_member jstr ''session_id'' (sessionID cmd))"

definition BrowserCdpPageBringToFrontCommandData :: schema where
  "BrowserCdpPageBringToFrontCommandData =
     [(''command_id'', KInt, False), (''connection_id'', KText, False),
      (''method'', KEnum [''Page.bringToFront''], True), (''session_id'', KText, False)]"

lemma PageBringToFront_fits: "sanitizePageBringToFront cmd = Some ms \<Longrightarrow> fits BrowserCdpPageBringToFrontCommandData ms"
  by (auto simp: sanitizePageBringToFront_def BrowserCdpPageBringToFrontCommandData_def intro!: fits_intros intro: text_kinds split: if_splits)

lemma PageBringToFront_blind: "blind sanitizePageBringToFront names vs"
  by (rule blind_constI) (simp add: sanitizePageBringToFront_def)

record viewport =
  vp_X :: "jnum option"
  vp_Y :: "jnum option"
  vp_Width :: "jnum option"
  vp_Height :: "jnum option"
  vp_Scale :: "jnum option"

definition viewport_fields :: "viewport struct_fields" where
  "viewport_fields =
     [(''x'', ptr_field as_float vp_X_update), (''y'', ptr_field as_float vp_Y_update),
      (''width'', ptr_field as_float vp_Width_update),
      (''height'', ptr_field as_float vp_Height_update),
      (''scale'', ptr_field as_float vp_Scale_update)]"

definition zero_viewport :: viewport where
  "zero_viewport =
     \<lparr>vp_X = None, vp_Y = None, vp_Width = None, vp_Height = None, vp_Scale = None\<rparr>"

record pageCaptureScreenshotParams =
  shot_Format :: "string option"
  shot_Quality :: "int option"
  shot_Clip :: "viewport option"
  shot_FromSurface :: "bool option"
  shot_CaptureBeyondViewport :: "bool option"
  shot_OptimizeForSpeed :: "bool option"

definition pageCaptureScreenshotParams_fields :: "pageCaptureScreenshotParams struct_fields" where
  "pageCaptureScreenshotParams_fields =
     [(''format'', ptr_field as_string shot_Format_update),
      (''quality'', ptr_field as_int shot_Quality_update),
      (''clip'', nested_ptr_field viewport_fields zero_viewport shot_Clip shot_Clip_update),
      (''fromSurface'', ptr_field as_bool shot_FromSurface_update),
      (''captureBeyondViewport'', ptr_field as_bool shot_CaptureBeyondViewport_update),
      (''optimizeForSpeed'', ptr_field as_bool shot_OptimizeForSpeed_update)]"

definition zero_pageCaptureScreenshotParams :: pageCaptureScreenshotParams where
  "zero_pageCaptureScreenshotParams =
     \<lparr>shot_Format = None, shot_Quality = None, shot_Clip = None, shot_FromSurface = None,
      shot_CaptureBeyondViewport = None, shot_OptimizeForSpeed = None\<rparr>"

definition dataPageCaptureScreenshot :: "cdpCommand \<Rightarrow> pageCaptureScreenshotParams \<Rightarrow> members" where
  "dataPageCaptureScreenshot cmd p =
     opt_member JBool ''capture_beyond_viewport'' (shot_CaptureBeyondViewport p) @
     opt_member JNumber ''clip_height'' (Option.bind (shot_Clip p) vp_Height) @
     opt_member JNumber ''clip_scale'' (Option.bind (shot_Clip p) vp_Scale) @
     opt_member JNumber ''clip_width'' (Option.bind (shot_Clip p) vp_Width) @
     opt_member JNumber ''clip_x'' (Option.bind (shot_Clip p) vp_X) @
     opt_member JNumber ''clip_y'' (Option.bind (shot_Clip p) vp_Y) @
     opt_member jint ''command_id'' (cmd_ID cmd) @ opt_member jstr ''connection_id'' (connID cmd) @
     opt_member JString ''format'' (screenshotFormat (shot_Format p)) @
     opt_member JBool ''from_surface'' (shot_FromSurface p) @
     (''method'', JString ''Page.captureScreenshot'') #
     opt_member JBool ''optimize_for_speed'' (shot_OptimizeForSpeed p) @
     opt_member jint ''quality'' (shot_Quality p) @ opt_member jstr ''session_id'' (sessionID cmd)"

definition sanitizePageCaptureScreenshot :: sanitizer where
  "sanitizePageCaptureScreenshot cmd =
     map_option (dataPageCaptureScreenshot cmd)
       (decodeParams pageCaptureScreenshotParams_fields zero_pageCaptureScreenshotParams (cmd_Params cmd))"

definition BrowserCdpPageCaptureScreenshotCommandData :: schema where
  "BrowserCdpPageCaptureScreenshotCommandData =
     [(''capture_beyond_viewport'', KBool, False), (''clip_height'', KFloat, False),
      (''clip_scale'', KFloat, False), (''clip_width'', KFloat, False),
      (''clip_x'', KFloat, False), (''clip_y'', KFloat, False), (''command_id'', KInt, False),
      (''connection_id'', KText, False), (''format'', KEnum BrowserCdpScreenshotFormat, False),
      (''from_surface'', KBool, False), (''method'', KEnum [''Page.captureScreenshot''], True),
      (''optimize_for_speed'', KBool, False), (''quality'', KInt, False),
      (''session_id'', KText, False)]"

lemma PageCaptureScreenshot_fits: "sanitizePageCaptureScreenshot cmd = Some ms \<Longrightarrow> fits BrowserCdpPageCaptureScreenshotCommandData ms"
  by (auto simp: sanitizePageCaptureScreenshot_def dataPageCaptureScreenshot_def BrowserCdpPageCaptureScreenshotCommandData_def
      intro!: fits_intros intro: text_kinds split: if_splits)

lemma PageCaptureScreenshot_blind: "blind sanitizePageCaptureScreenshot (map fst pageCaptureScreenshotParams_fields) []"
  by (rule blind_plainI[where out = dataPageCaptureScreenshot and zero = zero_pageCaptureScreenshotParams]) (simp_all add: sanitizePageCaptureScreenshot_def dataPageCaptureScreenshot_def)

record pageCaptureSnapshotParams =
  snap_Format :: "string option"

definition pageCaptureSnapshotParams_fields :: "pageCaptureSnapshotParams struct_fields" where
  "pageCaptureSnapshotParams_fields =
     [(''format'', ptr_field as_string snap_Format_update)]"

definition zero_pageCaptureSnapshotParams :: pageCaptureSnapshotParams where
  "zero_pageCaptureSnapshotParams =
     \<lparr>snap_Format = None\<rparr>"

definition dataPageCaptureSnapshot :: "cdpCommand \<Rightarrow> pageCaptureSnapshotParams \<Rightarrow> members" where
  "dataPageCaptureSnapshot cmd p =
     opt_member jint ''command_id'' (cmd_ID cmd) @ opt_member jstr ''connection_id'' (connID cmd) @
     opt_member JString ''format'' (snapshotFormat (snap_Format p)) @
     (''method'', JString ''Page.captureSnapshot'') #
     opt_member jstr ''session_id'' (sessionID cmd)"

definition sanitizePageCaptureSnapshot :: sanitizer where
  "sanitizePageCaptureSnapshot cmd =
     map_option (dataPageCaptureSnapshot cmd)
       (decodeParams pageCaptureSnapshotParams_fields zero_pageCaptureSnapshotParams (cmd_Params cmd))"

definition BrowserCdpPageCaptureSnapshotCommandData :: schema where
  "BrowserCdpPageCaptureSnapshotCommandData =
     [(''command_id'', KInt, False), (''connection_id'', KText, False),
      (''format'', KEnum BrowserCdpSnapshotFormat, False),
      (''method'', KEnum [''Page.captureSnapshot''], True), (''session_id'', KText, False)]"

lemma PageCaptureSnapshot_fits: "sanitizePageCaptureSnapshot cmd = Some ms \<Longrightarrow> fits BrowserCdpPageCaptureSnapshotCommandData ms"
  by (auto simp: sanitizePageCaptureSnapshot_def dataPageCaptureSnapshot_def BrowserCdpPageCaptureSnapshotCommandData_def
      intro!: fits_intros intro: text_kinds split: if_splits)

lemma PageCaptureSnapshot_blind: "blind sanitizePageCaptureSnapshot (map fst pageCaptureSnapshotParams_fields) []"
  by (rule blind_plainI[where out = dataPageCaptureSnapshot and zero = zero_pageCaptureSnapshotParams]) (simp_all add: sanitizePageCaptureSnapshot_def dataPageCaptureSnapshot_def)

record pageHandleJavaScriptDialogParams =
  dialog_Accept :: bool
  dialog_PromptText :: "string option"

definition pageHandleJavaScriptDialogParams_fields :: "pageHandleJavaScriptDialogParams struct_fields" where
  "pageHandleJavaScriptDialogParams_fields =
     [(''accept'', plain_field as_bool dialog_Accept_update),
      (''promptText'', ptr_field as_string dialog_PromptText_update)]"

definition zero_pageHandleJavaScriptDialogParams :: pageHandleJavaScriptDialogParams where
  "zero_pageHandleJavaScriptDialogParams =
     \<lparr>dialog_Accept = False, dialog_PromptText = None\<rparr>"

definition dataPageHandleJavaScriptDialog :: "cdpCommand \<Rightarrow> pageHandleJavaScriptDialogParams \<Rightarrow> members" where
  "dataPageHandleJavaScriptDialog cmd p =
     (''accept'', JBool (dialog_Accept p)) # opt_member jint ''command_id'' (cmd_ID cmd) @
     opt_member jstr ''connection_id'' (connID cmd) @
     (''method'', JString ''Page.handleJavaScriptDialog'') #
     opt_member jint ''prompt_text_length'' (runeLen (dialog_PromptText p)) @
     opt_member jstr ''session_id'' (sessionID cmd)"

definition sanitizePageHandleJavaScriptDialog :: sanitizer where
  "sanitizePageHandleJavaScriptDialog cmd =
     map_option (dataPageHandleJavaScriptDialog cmd)
       (decodeParams pageHandleJavaScriptDialogParams_fields zero_pageHandleJavaScriptDialogParams (cmd_Params cmd))"

definition BrowserCdpPageHandleJavaScriptDialogCommandData :: schema where
  "BrowserCdpPageHandleJavaScriptDialogCommandData =
     [(''accept'', KBool, True), (''command_id'', KInt, False), (''connection_id'', KText, False),
      (''method'', KEnum [''Page.handleJavaScriptDialog''], True),
      (''prompt_text_length'', KInt, False), (''session_id'', KText, False)]"

definition pageHandleJavaScriptDialogParams_redactions :: redactions where
  "pageHandleJavaScriptDialogParams_redactions =
     [(''promptText'', on_text same_length)]"

definition blank_pageHandleJavaScriptDialogParams :: "pageHandleJavaScriptDialogParams \<Rightarrow> pageHandleJavaScriptDialogParams" where
  "blank_pageHandleJavaScriptDialogParams p =
     p\<lparr>dialog_PromptText := map_option same_length (dialog_PromptText p)\<rparr>"

lemma tracks_pageHandleJavaScriptDialogParams:
  "tracks blank_pageHandleJavaScriptDialogParams pageHandleJavaScriptDialogParams_redactions pageHandleJavaScriptDialogParams_fields"
  by (auto simp: tracks_def redact_def pageHandleJavaScriptDialogParams_redactions_def blank_pageHandleJavaScriptDialogParams_def pageHandleJavaScriptDialogParams_fields_def
      field_defs option.map_comp comp_def string_elem_on_text as_slice_on
      intro!: option.map_cong)

lemma PageHandleJavaScriptDialog_fits: "sanitizePageHandleJavaScriptDialog cmd = Some ms \<Longrightarrow> fits BrowserCdpPageHandleJavaScriptDialogCommandData ms"
  by (auto simp: sanitizePageHandleJavaScriptDialog_def dataPageHandleJavaScriptDialog_def BrowserCdpPageHandleJavaScriptDialogCommandData_def
      intro!: fits_intros intro: text_kinds split: if_splits)

lemma PageHandleJavaScriptDialog_blind: "blind sanitizePageHandleJavaScriptDialog (map fst pageHandleJavaScriptDialogParams_fields) pageHandleJavaScriptDialogParams_redactions"
  by (rule blindI[where out = "dataPageHandleJavaScriptDialog" and zero = zero_pageHandleJavaScriptDialogParams and h = "blank_pageHandleJavaScriptDialogParams"])
    (simp_all add: sanitizePageHandleJavaScriptDialog_def dataPageHandleJavaScriptDialog_def tracks_pageHandleJavaScriptDialogParams blank_pageHandleJavaScriptDialogParams_def zero_pageHandleJavaScriptDialogParams_def)

record pageNavigateParams =
  nav_Url :: string
  nav_Referrer :: "string option"
  nav_TransitionType :: "string option"
  nav_FrameId :: "string option"
  nav_ReferrerPolicy :: "string option"

definition pageNavigateParams_fields :: "pageNavigateParams struct_fields" where
  "pageNavigateParams_fields =
     [(''url'', plain_field as_string nav_Url_update),
      (''referrer'', ptr_field as_string nav_Referrer_update),
      (''transitionType'', ptr_field as_string nav_TransitionType_update),
      (''frameId'', ptr_field as_string nav_FrameId_update),
      (''referrerPolicy'', ptr_field as_string nav_ReferrerPolicy_update)]"

definition zero_pageNavigateParams :: pageNavigateParams where
  "zero_pageNavigateParams =
     \<lparr>nav_Url = [], nav_Referrer = None, nav_TransitionType = None, nav_FrameId = None,
      nav_ReferrerPolicy = None\<rparr>"

definition dataPageNavigate :: "(string \<Rightarrow> bool) \<Rightarrow> cdpCommand \<Rightarrow> pageNavigateParams \<Rightarrow> members" where
  "dataPageNavigate authority_ok cmd p =
     opt_member jint ''command_id'' (cmd_ID cmd) @ opt_member jstr ''connection_id'' (connID cmd) @
     opt_member jstr ''frame_id'' (clipIDPtr (nav_FrameId p)) @
     (''method'', JString ''Page.navigate'') #
     opt_member JString ''referrer_policy'' (referrerPolicy (nav_ReferrerPolicy p)) @
     opt_member JBool ''referrer_present'' (Some (present (nav_Referrer p))) @
     opt_member jstr ''session_id'' (sessionID cmd) @
     opt_member JString ''transition_type'' (transitionType (nav_TransitionType p)) @
     opt_member jstr ''url_scheme'' (urlScheme authority_ok (nav_Url p))"

definition sanitizePageNavigate :: "(string \<Rightarrow> bool) \<Rightarrow> sanitizer" where
  "sanitizePageNavigate authority_ok cmd =
     map_option (dataPageNavigate authority_ok cmd)
       (decodeParams pageNavigateParams_fields zero_pageNavigateParams (cmd_Params cmd))"

definition BrowserCdpPageNavigateCommandData :: schema where
  "BrowserCdpPageNavigateCommandData =
     [(''command_id'', KInt, False), (''connection_id'', KText, False),
      (''frame_id'', KText, False), (''method'', KEnum [''Page.navigate''], True),
      (''referrer_policy'', KEnum BrowserCdpReferrerPolicy, False),
      (''referrer_present'', KBool, False), (''session_id'', KText, False),
      (''transition_type'', KEnum BrowserCdpTransitionType, False),
      (''url_scheme'', KText, False)]"

definition pageNavigateParams_redactions :: "(string \<Rightarrow> bool) \<Rightarrow> redactions" where
  "pageNavigateParams_redactions authority_ok =
     [(''url'', on_text (only_scheme authority_ok)), (''referrer'', on_text same_presence)]"

definition blank_pageNavigateParams :: "(string \<Rightarrow> bool) \<Rightarrow> pageNavigateParams \<Rightarrow> pageNavigateParams" where
  "blank_pageNavigateParams authority_ok p =
     p\<lparr>nav_Url := only_scheme authority_ok (nav_Url p), nav_Referrer := map_option same_presence (nav_Referrer p)\<rparr>"

lemma tracks_pageNavigateParams:
  "tracks (blank_pageNavigateParams authority_ok) (pageNavigateParams_redactions authority_ok) pageNavigateParams_fields"
  by (auto simp: tracks_def redact_def pageNavigateParams_redactions_def blank_pageNavigateParams_def pageNavigateParams_fields_def
      field_defs option.map_comp comp_def string_elem_on_text as_slice_on
      intro!: option.map_cong)

lemma PageNavigate_fits: "sanitizePageNavigate authority_ok cmd = Some ms \<Longrightarrow> fits BrowserCdpPageNavigateCommandData ms"
  by (auto simp: sanitizePageNavigate_def dataPageNavigate_def BrowserCdpPageNavigateCommandData_def
      intro!: fits_intros intro: text_kinds split: if_splits)

lemma PageNavigate_blind: "blind (sanitizePageNavigate authority_ok) (map fst pageNavigateParams_fields) (pageNavigateParams_redactions authority_ok)"
  by (rule blindI[where out = "dataPageNavigate authority_ok" and zero = zero_pageNavigateParams and h = "blank_pageNavigateParams authority_ok"])
    (simp_all add: sanitizePageNavigate_def dataPageNavigate_def tracks_pageNavigateParams blank_pageNavigateParams_def zero_pageNavigateParams_def)

record pageNavigateToHistoryEntryParams =
  hist_EntryId :: int

definition pageNavigateToHistoryEntryParams_fields :: "pageNavigateToHistoryEntryParams struct_fields" where
  "pageNavigateToHistoryEntryParams_fields =
     [(''entryId'', plain_field as_int hist_EntryId_update)]"

definition zero_pageNavigateToHistoryEntryParams :: pageNavigateToHistoryEntryParams where
  "zero_pageNavigateToHistoryEntryParams =
     \<lparr>hist_EntryId = 0\<rparr>"

definition dataPageNavigateToHistoryEntry :: "cdpCommand \<Rightarrow> pageNavigateToHistoryEntryParams \<Rightarrow> members" where
  "dataPageNavigateToHistoryEntry cmd p =
     opt_member jint ''command_id'' (cmd_ID cmd) @ opt_member jstr ''connection_id'' (connID cmd) @
     (''entry_id'', jint (hist_EntryId p)) #
     (''method'', JString ''Page.navigateToHistoryEntry'') #
     opt_member jstr ''session_id'' (sessionID cmd)"

definition sanitizePageNavigateToHistoryEntry :: sanitizer where
  "sanitizePageNavigateToHistoryEntry cmd =
     map_option (dataPageNavigateToHistoryEntry cmd)
       (decodeParams pageNavigateToHistoryEntryParams_fields zero_pageNavigateToHistoryEntryParams (cmd_Params cmd))"

definition BrowserCdpPageNavigateToHistoryEntryCommandData :: schema where
  "BrowserCdpPageNavigateToHistoryEntryCommandData =
     [(''command_id'', KInt, False), (''connection_id'', KText, False), (''entry_id'', KInt, True),
      (''method'', KEnum [''Page.navigateToHistoryEntry''], True), (''session_id'', KText, False)]"

lemma PageNavigateToHistoryEntry_fits: "sanitizePageNavigateToHistoryEntry cmd = Some ms \<Longrightarrow> fits BrowserCdpPageNavigateToHistoryEntryCommandData ms"
  by (auto simp: sanitizePageNavigateToHistoryEntry_def dataPageNavigateToHistoryEntry_def BrowserCdpPageNavigateToHistoryEntryCommandData_def
      intro!: fits_intros intro: text_kinds split: if_splits)

lemma PageNavigateToHistoryEntry_blind: "blind sanitizePageNavigateToHistoryEntry (map fst pageNavigateToHistoryEntryParams_fields) []"
  by (rule blind_plainI[where out = dataPageNavigateToHistoryEntry and zero = zero_pageNavigateToHistoryEntryParams]) (simp_all add: sanitizePageNavigateToHistoryEntry_def dataPageNavigateToHistoryEntry_def)

record pageReloadParams =
  reload_IgnoreCache :: "bool option"
  reload_ScriptToEvaluateOnLoad :: "string option"
  reload_LoaderId :: "string option"

definition pageReloadParams_fields :: "pageReloadParams struct_fields" where
  "pageReloadParams_fields =
     [(''ignoreCache'', ptr_field as_bool reload_IgnoreCache_update),
      (''scriptToEvaluateOnLoad'', ptr_field as_string reload_ScriptToEvaluateOnLoad_update),
      (''loaderId'', ptr_field as_string reload_LoaderId_update)]"

definition zero_pageReloadParams :: pageReloadParams where
  "zero_pageReloadParams =
     \<lparr>reload_IgnoreCache = None, reload_ScriptToEvaluateOnLoad = None,
      reload_LoaderId = None\<rparr>"

definition dataPageReload :: "cdpCommand \<Rightarrow> pageReloadParams \<Rightarrow> members" where
  "dataPageReload cmd p =
     opt_member jint ''command_id'' (cmd_ID cmd) @ opt_member jstr ''connection_id'' (connID cmd) @
     opt_member JBool ''ignore_cache'' (reload_IgnoreCache p) @
     opt_member jstr ''loader_id'' (clipIDPtr (reload_LoaderId p)) @
     (''method'', JString ''Page.reload'') #
     opt_member jint ''script_length'' (runeLen (reload_ScriptToEvaluateOnLoad p)) @
     opt_member jstr ''session_id'' (sessionID cmd)"

definition sanitizePageReload :: sanitizer where
  "sanitizePageReload cmd =
     map_option (dataPageReload cmd)
       (decodeParams pageReloadParams_fields zero_pageReloadParams (cmd_Params cmd))"

definition BrowserCdpPageReloadCommandData :: schema where
  "BrowserCdpPageReloadCommandData =
     [(''command_id'', KInt, False), (''connection_id'', KText, False),
      (''ignore_cache'', KBool, False), (''loader_id'', KText, False),
      (''method'', KEnum [''Page.reload''], True), (''script_length'', KInt, False),
      (''session_id'', KText, False)]"

definition pageReloadParams_redactions :: redactions where
  "pageReloadParams_redactions =
     [(''scriptToEvaluateOnLoad'', on_text same_length)]"

definition blank_pageReloadParams :: "pageReloadParams \<Rightarrow> pageReloadParams" where
  "blank_pageReloadParams p =
     p\<lparr>reload_ScriptToEvaluateOnLoad := map_option same_length (reload_ScriptToEvaluateOnLoad p)\<rparr>"

lemma tracks_pageReloadParams:
  "tracks blank_pageReloadParams pageReloadParams_redactions pageReloadParams_fields"
  by (auto simp: tracks_def redact_def pageReloadParams_redactions_def blank_pageReloadParams_def pageReloadParams_fields_def
      field_defs option.map_comp comp_def string_elem_on_text as_slice_on
      intro!: option.map_cong)

lemma PageReload_fits: "sanitizePageReload cmd = Some ms \<Longrightarrow> fits BrowserCdpPageReloadCommandData ms"
  by (auto simp: sanitizePageReload_def dataPageReload_def BrowserCdpPageReloadCommandData_def
      intro!: fits_intros intro: text_kinds split: if_splits)

lemma PageReload_blind: "blind sanitizePageReload (map fst pageReloadParams_fields) pageReloadParams_redactions"
  by (rule blindI[where out = "dataPageReload" and zero = zero_pageReloadParams and h = "blank_pageReloadParams"])
    (simp_all add: sanitizePageReload_def dataPageReload_def tracks_pageReloadParams blank_pageReloadParams_def zero_pageReloadParams_def)

record pagePrintToPDFParams =
  pdf_Landscape :: "bool option"
  pdf_DisplayHeaderFooter :: "bool option"
  pdf_PrintBackground :: "bool option"
  pdf_Scale :: "jnum option"
  pdf_PaperWidth :: "jnum option"
  pdf_PaperHeight :: "jnum option"
  pdf_PageRanges :: "string option"
  pdf_HeaderTemplate :: "string option"
  pdf_FooterTemplate :: "string option"
  pdf_MarginTop :: "jnum option"
  pdf_MarginBottom :: "jnum option"
  pdf_MarginLeft :: "jnum option"
  pdf_MarginRight :: "jnum option"
  pdf_PreferCSSPageSize :: "bool option"
  pdf_TransferMode :: "string option"
  pdf_GenerateTaggedPDF :: "bool option"
  pdf_GenerateDocumentOutline :: "bool option"

definition pagePrintToPDFParams_fields :: "pagePrintToPDFParams struct_fields" where
  "pagePrintToPDFParams_fields =
     [(''landscape'', ptr_field as_bool pdf_Landscape_update),
      (''displayHeaderFooter'', ptr_field as_bool pdf_DisplayHeaderFooter_update),
      (''printBackground'', ptr_field as_bool pdf_PrintBackground_update),
      (''scale'', ptr_field as_float pdf_Scale_update),
      (''paperWidth'', ptr_field as_float pdf_PaperWidth_update),
      (''paperHeight'', ptr_field as_float pdf_PaperHeight_update),
      (''pageRanges'', ptr_field as_string pdf_PageRanges_update),
      (''headerTemplate'', ptr_field as_string pdf_HeaderTemplate_update),
      (''footerTemplate'', ptr_field as_string pdf_FooterTemplate_update),
      (''marginTop'', ptr_field as_float pdf_MarginTop_update),
      (''marginBottom'', ptr_field as_float pdf_MarginBottom_update),
      (''marginLeft'', ptr_field as_float pdf_MarginLeft_update),
      (''marginRight'', ptr_field as_float pdf_MarginRight_update),
      (''preferCSSPageSize'', ptr_field as_bool pdf_PreferCSSPageSize_update),
      (''transferMode'', ptr_field as_string pdf_TransferMode_update),
      (''generateTaggedPDF'', ptr_field as_bool pdf_GenerateTaggedPDF_update),
      (''generateDocumentOutline'', ptr_field as_bool pdf_GenerateDocumentOutline_update)]"

definition zero_pagePrintToPDFParams :: pagePrintToPDFParams where
  "zero_pagePrintToPDFParams =
     \<lparr>pdf_Landscape = None, pdf_DisplayHeaderFooter = None, pdf_PrintBackground = None,
      pdf_Scale = None, pdf_PaperWidth = None, pdf_PaperHeight = None, pdf_PageRanges = None,
      pdf_HeaderTemplate = None, pdf_FooterTemplate = None, pdf_MarginTop = None,
      pdf_MarginBottom = None, pdf_MarginLeft = None, pdf_MarginRight = None,
      pdf_PreferCSSPageSize = None, pdf_TransferMode = None, pdf_GenerateTaggedPDF = None,
      pdf_GenerateDocumentOutline = None\<rparr>"

definition dataPagePrintToPDF :: "cdpCommand \<Rightarrow> pagePrintToPDFParams \<Rightarrow> members" where
  "dataPagePrintToPDF cmd p =
     opt_member jint ''command_id'' (cmd_ID cmd) @ opt_member jstr ''connection_id'' (connID cmd) @
     opt_member JBool ''display_header_footer'' (pdf_DisplayHeaderFooter p) @
     opt_member JBool ''footer_template_present'' (Some (present (pdf_FooterTemplate p))) @
     opt_member JBool ''generate_document_outline'' (pdf_GenerateDocumentOutline p) @
     opt_member JBool ''generate_tagged_pdf'' (pdf_GenerateTaggedPDF p) @
     opt_member JBool ''header_template_present'' (Some (present (pdf_HeaderTemplate p))) @
     opt_member JBool ''landscape'' (pdf_Landscape p) @
     opt_member JNumber ''margin_bottom'' (pdf_MarginBottom p) @
     opt_member JNumber ''margin_left'' (pdf_MarginLeft p) @
     opt_member JNumber ''margin_right'' (pdf_MarginRight p) @
     opt_member JNumber ''margin_top'' (pdf_MarginTop p) @
     (''method'', JString ''Page.printToPDF'') #
     opt_member JBool ''page_ranges_present'' (Some (present (pdf_PageRanges p))) @
     opt_member JNumber ''paper_height'' (pdf_PaperHeight p) @
     opt_member JNumber ''paper_width'' (pdf_PaperWidth p) @
     opt_member JBool ''prefer_css_page_size'' (pdf_PreferCSSPageSize p) @
     opt_member JBool ''print_background'' (pdf_PrintBackground p) @
     opt_member JNumber ''scale'' (pdf_Scale p) @ opt_member jstr ''session_id'' (sessionID cmd) @
     opt_member JString ''transfer_mode'' (pdfTransferMode (pdf_TransferMode p))"

definition sanitizePagePrintToPDF :: sanitizer where
  "sanitizePagePrintToPDF cmd =
     map_option (dataPagePrintToPDF cmd)
       (decodeParams pagePrintToPDFParams_fields zero_pagePrintToPDFParams (cmd_Params cmd))"

definition BrowserCdpPagePrintToPdfCommandData :: schema where
  "BrowserCdpPagePrintToPdfCommandData =
     [(''command_id'', KInt, False), (''connection_id'', KText, False),
      (''display_header_footer'', KBool, False), (''footer_template_present'', KBool, False),
      (''generate_document_outline'', KBool, False), (''generate_tagged_pdf'', KBool, False),
      (''header_template_present'', KBool, False), (''landscape'', KBool, False),
      (''margin_bottom'', KFloat, False), (''margin_left'', KFloat, False),
      (''margin_right'', KFloat, False), (''margin_top'', KFloat, False),
      (''method'', KEnum [''Page.printToPDF''], True), (''page_ranges_present'', KBool, False),
      (''paper_height'', KFloat, False), (''paper_width'', KFloat, False),
      (''prefer_css_page_size'', KBool, False), (''print_background'', KBool, False),
      (''scale'', KFloat, False), (''session_id'', KText, False),
      (''transfer_mode'', KEnum BrowserCdpPdfTransferMode, False)]"

definition pagePrintToPDFParams_redactions :: redactions where
  "pagePrintToPDFParams_redactions =
     [(''pageRanges'', on_text same_presence), (''headerTemplate'', on_text same_presence),
      (''footerTemplate'', on_text same_presence)]"

definition blank_pagePrintToPDFParams :: "pagePrintToPDFParams \<Rightarrow> pagePrintToPDFParams" where
  "blank_pagePrintToPDFParams p =
     p\<lparr>pdf_PageRanges := map_option same_presence (pdf_PageRanges p), pdf_HeaderTemplate := map_option same_presence (pdf_HeaderTemplate p), pdf_FooterTemplate := map_option same_presence (pdf_FooterTemplate p)\<rparr>"

lemma tracks_pagePrintToPDFParams:
  "tracks blank_pagePrintToPDFParams pagePrintToPDFParams_redactions pagePrintToPDFParams_fields"
  by (auto simp: tracks_def redact_def pagePrintToPDFParams_redactions_def blank_pagePrintToPDFParams_def pagePrintToPDFParams_fields_def
      field_defs option.map_comp comp_def string_elem_on_text as_slice_on
      intro!: option.map_cong)

lemma PagePrintToPDF_fits: "sanitizePagePrintToPDF cmd = Some ms \<Longrightarrow> fits BrowserCdpPagePrintToPdfCommandData ms"
  by (auto simp: sanitizePagePrintToPDF_def dataPagePrintToPDF_def BrowserCdpPagePrintToPdfCommandData_def
      intro!: fits_intros intro: text_kinds split: if_splits)

lemma PagePrintToPDF_blind: "blind sanitizePagePrintToPDF (map fst pagePrintToPDFParams_fields) pagePrintToPDFParams_redactions"
  by (rule blindI[where out = "dataPagePrintToPDF" and zero = zero_pagePrintToPDFParams and h = "blank_pagePrintToPDFParams"])
    (simp_all add: sanitizePagePrintToPDF_def dataPagePrintToPDF_def tracks_pagePrintToPDFParams blank_pagePrintToPDFParams_def zero_pagePrintToPDFParams_def)

record pageStartScreencastParams =
  cast_Format :: "string option"
  cast_Quality :: "int option"
  cast_MaxWidth :: "int option"
  cast_MaxHeight :: "int option"
  cast_EveryNthFrame :: "int option"

definition pageStartScreencastParams_fields :: "pageStartScreencastParams struct_fields" where
  "pageStartScreencastParams_fields =
     [(''format'', ptr_field as_string cast_Format_update),
      (''quality'', ptr_field as_int cast_Quality_update),
      (''maxWidth'', ptr_field as_int cast_MaxWidth_update),
      (''maxHeight'', ptr_field as_int cast_MaxHeight_update),
      (''everyNthFrame'', ptr_field as_int cast_EveryNthFrame_update)]"

definition zero_pageStartScreencastParams :: pageStartScreencastParams where
  "zero_pageStartScreencastParams =
     \<lparr>cast_Format = None, cast_Quality = None, cast_MaxWidth = None, cast_MaxHeight = None,
      cast_EveryNthFrame = None\<rparr>"

definition dataPageStartScreencast :: "cdpCommand \<Rightarrow> pageStartScreencastParams \<Rightarrow> members" where
  "dataPageStartScreencast cmd p =
     opt_member jint ''command_id'' (cmd_ID cmd) @ opt_member jstr ''connection_id'' (connID cmd) @
     opt_member jint ''every_nth_frame'' (cast_EveryNthFrame p) @
     opt_member JString ''format'' (screencastFormat (cast_Format p)) @
     opt_member jint ''max_height'' (cast_MaxHeight p) @
     opt_member jint ''max_width'' (cast_MaxWidth p) @
     (''method'', JString ''Page.startScreencast'') #
     opt_member jint ''quality'' (cast_Quality p) @ opt_member jstr ''session_id'' (sessionID cmd)"

definition sanitizePageStartScreencast :: sanitizer where
  "sanitizePageStartScreencast cmd =
     map_option (dataPageStartScreencast cmd)
       (decodeParams pageStartScreencastParams_fields zero_pageStartScreencastParams (cmd_Params cmd))"

definition BrowserCdpPageStartScreencastCommandData :: schema where
  "BrowserCdpPageStartScreencastCommandData =
     [(''command_id'', KInt, False), (''connection_id'', KText, False),
      (''every_nth_frame'', KInt, False), (''format'', KEnum BrowserCdpScreencastFormat, False),
      (''max_height'', KInt, False), (''max_width'', KInt, False),
      (''method'', KEnum [''Page.startScreencast''], True), (''quality'', KInt, False),
      (''session_id'', KText, False)]"

lemma PageStartScreencast_fits: "sanitizePageStartScreencast cmd = Some ms \<Longrightarrow> fits BrowserCdpPageStartScreencastCommandData ms"
  by (auto simp: sanitizePageStartScreencast_def dataPageStartScreencast_def BrowserCdpPageStartScreencastCommandData_def
      intro!: fits_intros intro: text_kinds split: if_splits)

lemma PageStartScreencast_blind: "blind sanitizePageStartScreencast (map fst pageStartScreencastParams_fields) []"
  by (rule blind_plainI[where out = dataPageStartScreencast and zero = zero_pageStartScreencastParams]) (simp_all add: sanitizePageStartScreencast_def dataPageStartScreencast_def)

definition sanitizePageStopScreencast :: sanitizer where
  "sanitizePageStopScreencast cmd = Some (
     opt_member jint ''command_id'' (cmd_ID cmd) @ opt_member jstr ''connection_id'' (connID cmd) @
     (''method'', JString ''Page.stopScreencast'') #
     opt_member jstr ''session_id'' (sessionID cmd))"

definition BrowserCdpPageStopScreencastCommandData :: schema where
  "BrowserCdpPageStopScreencastCommandData =
     [(''command_id'', KInt, False), (''connection_id'', KText, False),
      (''method'', KEnum [''Page.stopScreencast''], True), (''session_id'', KText, False)]"

lemma PageStopScreencast_fits: "sanitizePageStopScreencast cmd = Some ms \<Longrightarrow> fits BrowserCdpPageStopScreencastCommandData ms"
  by (auto simp: sanitizePageStopScreencast_def BrowserCdpPageStopScreencastCommandData_def intro!: fits_intros intro: text_kinds split: if_splits)

lemma PageStopScreencast_blind: "blind sanitizePageStopScreencast names vs"
  by (rule blind_constI) (simp add: sanitizePageStopScreencast_def)

definition sanitizePageStopLoading :: sanitizer where
  "sanitizePageStopLoading cmd = Some (
     opt_member jint ''command_id'' (cmd_ID cmd) @ opt_member jstr ''connection_id'' (connID cmd) @
     (''method'', JString ''Page.stopLoading'') # opt_member jstr ''session_id'' (sessionID cmd))"

definition BrowserCdpPageStopLoadingCommandData :: schema where
  "BrowserCdpPageStopLoadingCommandData =
     [(''command_id'', KInt, False), (''connection_id'', KText, False),
      (''method'', KEnum [''Page.stopLoading''], True), (''session_id'', KText, False)]"

lemma PageStopLoading_fits: "sanitizePageStopLoading cmd = Some ms \<Longrightarrow> fits BrowserCdpPageStopLoadingCommandData ms"
  by (auto simp: sanitizePageStopLoading_def BrowserCdpPageStopLoadingCommandData_def intro!: fits_intros intro: text_kinds split: if_splits)

lemma PageStopLoading_blind: "blind sanitizePageStopLoading names vs"
  by (rule blind_constI) (simp add: sanitizePageStopLoading_def)

definition sanitizePageClose :: sanitizer where
  "sanitizePageClose cmd = Some (
     opt_member jint ''command_id'' (cmd_ID cmd) @ opt_member jstr ''connection_id'' (connID cmd) @
     (''method'', JString ''Page.close'') # opt_member jstr ''session_id'' (sessionID cmd))"

definition BrowserCdpPageCloseCommandData :: schema where
  "BrowserCdpPageCloseCommandData =
     [(''command_id'', KInt, False), (''connection_id'', KText, False),
      (''method'', KEnum [''Page.close''], True), (''session_id'', KText, False)]"

lemma PageClose_fits: "sanitizePageClose cmd = Some ms \<Longrightarrow> fits BrowserCdpPageCloseCommandData ms"
  by (auto simp: sanitizePageClose_def BrowserCdpPageCloseCommandData_def intro!: fits_intros intro: text_kinds split: if_splits)

lemma PageClose_blind: "blind sanitizePageClose names vs"
  by (rule blind_constI) (simp add: sanitizePageClose_def)

record pageSetWebLifecycleStateParams =
  life_State :: string

definition pageSetWebLifecycleStateParams_fields :: "pageSetWebLifecycleStateParams struct_fields" where
  "pageSetWebLifecycleStateParams_fields =
     [(''state'', plain_field as_string life_State_update)]"

definition zero_pageSetWebLifecycleStateParams :: pageSetWebLifecycleStateParams where
  "zero_pageSetWebLifecycleStateParams =
     \<lparr>life_State = []\<rparr>"

definition dataPageSetWebLifecycleState :: "cdpCommand \<Rightarrow> pageSetWebLifecycleStateParams \<Rightarrow> members" where
  "dataPageSetWebLifecycleState cmd p =
     opt_member jint ''command_id'' (cmd_ID cmd) @ opt_member jstr ''connection_id'' (connID cmd) @
     (''method'', JString ''Page.setWebLifecycleState'') #
     opt_member jstr ''session_id'' (sessionID cmd) @
     [(''state'', JString (webLifecycleState (life_State p)))]"

definition sanitizePageSetWebLifecycleState :: sanitizer where
  "sanitizePageSetWebLifecycleState cmd =
     map_option (dataPageSetWebLifecycleState cmd)
       (decodeParams pageSetWebLifecycleStateParams_fields zero_pageSetWebLifecycleStateParams (cmd_Params cmd))"

definition BrowserCdpPageSetWebLifecycleStateCommandData :: schema where
  "BrowserCdpPageSetWebLifecycleStateCommandData =
     [(''command_id'', KInt, False), (''connection_id'', KText, False),
      (''method'', KEnum [''Page.setWebLifecycleState''], True), (''session_id'', KText, False),
      (''state'', KEnum BrowserCdpWebLifecycleState, True)]"

lemma PageSetWebLifecycleState_fits: "sanitizePageSetWebLifecycleState cmd = Some ms \<Longrightarrow> fits BrowserCdpPageSetWebLifecycleStateCommandData ms"
  by (auto simp: sanitizePageSetWebLifecycleState_def dataPageSetWebLifecycleState_def BrowserCdpPageSetWebLifecycleStateCommandData_def
      intro!: fits_intros intro: text_kinds split: if_splits)

lemma PageSetWebLifecycleState_blind: "blind sanitizePageSetWebLifecycleState (map fst pageSetWebLifecycleStateParams_fields) []"
  by (rule blind_plainI[where out = dataPageSetWebLifecycleState and zero = zero_pageSetWebLifecycleStateParams]) (simp_all add: sanitizePageSetWebLifecycleState_def dataPageSetWebLifecycleState_def)

end
