(* ===== verification/CdpTarget.thy ===== *)
theory CdpTarget
  imports CdpCommand
begin

text \<open>
  The sanitizers of the target, browser and autofill commands (\<open>lib/devtoolsproxy/cdpparams.go\<close>),
  with the same two facts for each as for the input commands.
\<close>

record targetIdParams =
  tid_TargetId :: string

definition targetIdParams_fields :: "targetIdParams struct_fields" where
  "targetIdParams_fields =
     [(''targetId'', plain_field as_string tid_TargetId_update)]"

definition zero_targetIdParams :: targetIdParams where
  "zero_targetIdParams =
     \<lparr>tid_TargetId = []\<rparr>"

record targetOpenDevToolsParams =
  devt_TargetId :: string
  devt_PanelId :: string

definition targetOpenDevToolsParams_fields :: "targetOpenDevToolsParams struct_fields" where
  "targetOpenDevToolsParams_fields =
     [(''targetId'', plain_field as_string devt_TargetId_update),
      (''panelId'', plain_field as_string devt_PanelId_update)]"

definition zero_targetOpenDevToolsParams :: targetOpenDevToolsParams where
  "zero_targetOpenDevToolsParams =
     \<lparr>devt_TargetId = [], devt_PanelId = []\<rparr>"

definition dataTargetActivateTarget :: "cdpCommand \<Rightarrow> targetIdParams \<Rightarrow> members" where
  "dataTargetActivateTarget cmd p =
     opt_member jint ''command_id'' (cmd_ID cmd) @ opt_member jstr ''connection_id'' (connID cmd) @
     (''method'', JString ''Target.activateTarget'') #
     opt_member jstr ''session_id'' (sessionID cmd) @
     [(''target_id'', jstr (clipID (tid_TargetId p)))]"

definition sanitizeTargetActivateTarget :: sanitizer where
  "sanitizeTargetActivateTarget cmd =
     map_option (dataTargetActivateTarget cmd)
       (decodeParams targetIdParams_fields zero_targetIdParams (cmd_Params cmd))"

definition BrowserCdpTargetActivateTargetCommandData :: schema where
  "BrowserCdpTargetActivateTargetCommandData =
     [(''command_id'', KInt, False), (''connection_id'', KText, False),
      (''method'', KEnum [''Target.activateTarget''], True), (''session_id'', KText, False),
      (''target_id'', KText, True)]"

lemma TargetActivateTarget_fits: "sanitizeTargetActivateTarget cmd = Some ms \<Longrightarrow> fits BrowserCdpTargetActivateTargetCommandData ms"
  by (auto simp: sanitizeTargetActivateTarget_def dataTargetActivateTarget_def BrowserCdpTargetActivateTargetCommandData_def
      intro!: fits_intros intro: text_kinds split: if_splits)

lemma TargetActivateTarget_blind: "blind sanitizeTargetActivateTarget (map fst targetIdParams_fields) []"
  by (rule blind_plainI[where out = dataTargetActivateTarget and zero = zero_targetIdParams]) (simp_all add: sanitizeTargetActivateTarget_def dataTargetActivateTarget_def)

definition dataTargetCloseTarget :: "cdpCommand \<Rightarrow> targetIdParams \<Rightarrow> members" where
  "dataTargetCloseTarget cmd p =
     opt_member jint ''command_id'' (cmd_ID cmd) @ opt_member jstr ''connection_id'' (connID cmd) @
     (''method'', JString ''Target.closeTarget'') #
     opt_member jstr ''session_id'' (sessionID cmd) @
     [(''target_id'', jstr (clipID (tid_TargetId p)))]"

definition sanitizeTargetCloseTarget :: sanitizer where
  "sanitizeTargetCloseTarget cmd =
     map_option (dataTargetCloseTarget cmd)
       (decodeParams targetIdParams_fields zero_targetIdParams (cmd_Params cmd))"

definition BrowserCdpTargetCloseTargetCommandData :: schema where
  "BrowserCdpTargetCloseTargetCommandData =
     [(''command_id'', KInt, False), (''connection_id'', KText, False),
      (''method'', KEnum [''Target.closeTarget''], True), (''session_id'', KText, False),
      (''target_id'', KText, True)]"

lemma TargetCloseTarget_fits: "sanitizeTargetCloseTarget cmd = Some ms \<Longrightarrow> fits BrowserCdpTargetCloseTargetCommandData ms"
  by (auto simp: sanitizeTargetCloseTarget_def dataTargetCloseTarget_def BrowserCdpTargetCloseTargetCommandData_def
      intro!: fits_intros intro: text_kinds split: if_splits)

lemma TargetCloseTarget_blind: "blind sanitizeTargetCloseTarget (map fst targetIdParams_fields) []"
  by (rule blind_plainI[where out = dataTargetCloseTarget and zero = zero_targetIdParams]) (simp_all add: sanitizeTargetCloseTarget_def dataTargetCloseTarget_def)

definition dataTargetOpenDevTools :: "cdpCommand \<Rightarrow> targetOpenDevToolsParams \<Rightarrow> members" where
  "dataTargetOpenDevTools cmd p =
     opt_member jint ''command_id'' (cmd_ID cmd) @ opt_member jstr ''connection_id'' (connID cmd) @
     (''method'', JString ''Target.openDevTools'') #
     opt_member jstr ''panel_id'' (if devt_PanelId p = [] then None else Some (clipID (devt_PanelId p))) @
     opt_member jstr ''session_id'' (sessionID cmd) @
     [(''target_id'', jstr (clipID (devt_TargetId p)))]"

definition sanitizeTargetOpenDevTools :: sanitizer where
  "sanitizeTargetOpenDevTools cmd =
     map_option (dataTargetOpenDevTools cmd)
       (decodeParams targetOpenDevToolsParams_fields zero_targetOpenDevToolsParams (cmd_Params cmd))"

definition BrowserCdpTargetOpenDevToolsCommandData :: schema where
  "BrowserCdpTargetOpenDevToolsCommandData =
     [(''command_id'', KInt, False), (''connection_id'', KText, False),
      (''method'', KEnum [''Target.openDevTools''], True), (''panel_id'', KText, False),
      (''session_id'', KText, False), (''target_id'', KText, True)]"

lemma TargetOpenDevTools_fits: "sanitizeTargetOpenDevTools cmd = Some ms \<Longrightarrow> fits BrowserCdpTargetOpenDevToolsCommandData ms"
  by (auto simp: sanitizeTargetOpenDevTools_def dataTargetOpenDevTools_def BrowserCdpTargetOpenDevToolsCommandData_def
      intro!: fits_intros intro: text_kinds split: if_splits)

lemma TargetOpenDevTools_blind: "blind sanitizeTargetOpenDevTools (map fst targetOpenDevToolsParams_fields) []"
  by (rule blind_plainI[where out = dataTargetOpenDevTools and zero = zero_targetOpenDevToolsParams]) (simp_all add: sanitizeTargetOpenDevTools_def dataTargetOpenDevTools_def)

record targetCreateTargetParams =
  ct_Url :: string
  ct_Left :: "int option"
  ct_Top :: "int option"
  ct_Width :: "int option"
  ct_Height :: "int option"
  ct_WindowState :: "string option"
  ct_BrowserContextId :: "string option"
  ct_EnableBeginFrameControl :: "bool option"
  ct_NewWindow :: "bool option"
  ct_Background :: "bool option"
  ct_ForTab :: "bool option"
  ct_Hidden :: "bool option"
  ct_Focus :: "bool option"

definition targetCreateTargetParams_fields :: "targetCreateTargetParams struct_fields" where
  "targetCreateTargetParams_fields =
     [(''url'', plain_field as_string ct_Url_update), (''left'', ptr_field as_int ct_Left_update),
      (''top'', ptr_field as_int ct_Top_update), (''width'', ptr_field as_int ct_Width_update),
      (''height'', ptr_field as_int ct_Height_update),
      (''windowState'', ptr_field as_string ct_WindowState_update),
      (''browserContextId'', ptr_field as_string ct_BrowserContextId_update),
      (''enableBeginFrameControl'', ptr_field as_bool ct_EnableBeginFrameControl_update),
      (''newWindow'', ptr_field as_bool ct_NewWindow_update),
      (''background'', ptr_field as_bool ct_Background_update),
      (''forTab'', ptr_field as_bool ct_ForTab_update),
      (''hidden'', ptr_field as_bool ct_Hidden_update),
      (''focus'', ptr_field as_bool ct_Focus_update)]"

definition zero_targetCreateTargetParams :: targetCreateTargetParams where
  "zero_targetCreateTargetParams =
     \<lparr>ct_Url = [], ct_Left = None, ct_Top = None, ct_Width = None, ct_Height = None,
      ct_WindowState = None, ct_BrowserContextId = None, ct_EnableBeginFrameControl = None,
      ct_NewWindow = None, ct_Background = None, ct_ForTab = None, ct_Hidden = None,
      ct_Focus = None\<rparr>"

definition dataTargetCreateTarget :: "(string \<Rightarrow> bool) \<Rightarrow> cdpCommand \<Rightarrow> targetCreateTargetParams \<Rightarrow> members" where
  "dataTargetCreateTarget authority_ok cmd p =
     opt_member JBool ''background'' (ct_Background p) @
     opt_member jstr ''browser_context_id'' (clipIDPtr (ct_BrowserContextId p)) @
     opt_member jint ''command_id'' (cmd_ID cmd) @ opt_member jstr ''connection_id'' (connID cmd) @
     opt_member JBool ''enable_begin_frame_control'' (ct_EnableBeginFrameControl p) @
     opt_member JBool ''focus'' (ct_Focus p) @ opt_member JBool ''for_tab'' (ct_ForTab p) @
     opt_member jint ''height'' (ct_Height p) @ opt_member JBool ''hidden'' (ct_Hidden p) @
     opt_member jint ''left'' (ct_Left p) @ (''method'', JString ''Target.createTarget'') #
     opt_member JBool ''new_window'' (ct_NewWindow p) @
     opt_member jstr ''session_id'' (sessionID cmd) @ opt_member jint ''top'' (ct_Top p) @
     opt_member jstr ''url_scheme'' (urlScheme authority_ok (ct_Url p)) @
     opt_member jint ''width'' (ct_Width p) @
     opt_member JString ''window_state'' (windowState (ct_WindowState p))"

definition sanitizeTargetCreateTarget :: "(string \<Rightarrow> bool) \<Rightarrow> sanitizer" where
  "sanitizeTargetCreateTarget authority_ok cmd =
     map_option (dataTargetCreateTarget authority_ok cmd)
       (decodeParams targetCreateTargetParams_fields zero_targetCreateTargetParams (cmd_Params cmd))"

definition BrowserCdpTargetCreateTargetCommandData :: schema where
  "BrowserCdpTargetCreateTargetCommandData =
     [(''background'', KBool, False), (''browser_context_id'', KText, False),
      (''command_id'', KInt, False), (''connection_id'', KText, False),
      (''enable_begin_frame_control'', KBool, False), (''focus'', KBool, False),
      (''for_tab'', KBool, False), (''height'', KInt, False), (''hidden'', KBool, False),
      (''left'', KInt, False), (''method'', KEnum [''Target.createTarget''], True),
      (''new_window'', KBool, False), (''session_id'', KText, False), (''top'', KInt, False),
      (''url_scheme'', KText, False), (''width'', KInt, False),
      (''window_state'', KEnum BrowserCdpWindowState, False)]"

definition targetCreateTargetParams_redactions :: "(string \<Rightarrow> bool) \<Rightarrow> redactions" where
  "targetCreateTargetParams_redactions authority_ok =
     [(''url'', on_text (only_scheme authority_ok))]"

definition blank_targetCreateTargetParams :: "(string \<Rightarrow> bool) \<Rightarrow> targetCreateTargetParams \<Rightarrow> targetCreateTargetParams" where
  "blank_targetCreateTargetParams authority_ok p =
     p\<lparr>ct_Url := only_scheme authority_ok (ct_Url p)\<rparr>"

lemma tracks_targetCreateTargetParams:
  "tracks (blank_targetCreateTargetParams authority_ok) (targetCreateTargetParams_redactions authority_ok) targetCreateTargetParams_fields"
  by (auto simp: tracks_def redact_def targetCreateTargetParams_redactions_def blank_targetCreateTargetParams_def targetCreateTargetParams_fields_def
      field_defs option.map_comp comp_def string_elem_on_text as_slice_on
      intro!: option.map_cong)

lemma TargetCreateTarget_fits: "sanitizeTargetCreateTarget authority_ok cmd = Some ms \<Longrightarrow> fits BrowserCdpTargetCreateTargetCommandData ms"
  by (auto simp: sanitizeTargetCreateTarget_def dataTargetCreateTarget_def BrowserCdpTargetCreateTargetCommandData_def
      intro!: fits_intros intro: text_kinds split: if_splits)

lemma TargetCreateTarget_blind: "blind (sanitizeTargetCreateTarget authority_ok) (map fst targetCreateTargetParams_fields) (targetCreateTargetParams_redactions authority_ok)"
  by (rule blindI[where out = "dataTargetCreateTarget authority_ok" and zero = zero_targetCreateTargetParams and h = "blank_targetCreateTargetParams authority_ok"])
    (simp_all add: sanitizeTargetCreateTarget_def dataTargetCreateTarget_def tracks_targetCreateTargetParams blank_targetCreateTargetParams_def zero_targetCreateTargetParams_def)

record targetCreateBrowserContextParams =
  cbc_DisposeOnDetach :: "bool option"
  cbc_ProxyServer :: "string option"
  cbc_ProxyBypassList :: "string option"
  cbc_OriginsWithUniversalNetworkAccess :: "string list option"

definition targetCreateBrowserContextParams_fields :: "targetCreateBrowserContextParams struct_fields" where
  "targetCreateBrowserContextParams_fields =
     [(''disposeOnDetach'', ptr_field as_bool cbc_DisposeOnDetach_update),
      (''proxyServer'', ptr_field as_string cbc_ProxyServer_update),
      (''proxyBypassList'', ptr_field as_string cbc_ProxyBypassList_update),
      (''originsWithUniversalNetworkAccess'', slice_field string_elem cbc_OriginsWithUniversalNetworkAccess_update)]"

definition zero_targetCreateBrowserContextParams :: targetCreateBrowserContextParams where
  "zero_targetCreateBrowserContextParams =
     \<lparr>cbc_DisposeOnDetach = None, cbc_ProxyServer = None, cbc_ProxyBypassList = None,
      cbc_OriginsWithUniversalNetworkAccess = None\<rparr>"

definition dataTargetCreateBrowserContext :: "cdpCommand \<Rightarrow> targetCreateBrowserContextParams \<Rightarrow> members" where
  "dataTargetCreateBrowserContext cmd p =
     opt_member jint ''command_id'' (cmd_ID cmd) @ opt_member jstr ''connection_id'' (connID cmd) @
     opt_member JBool ''dispose_on_detach'' (cbc_DisposeOnDetach p) @
     (''method'', JString ''Target.createBrowserContext'') #
     opt_member JBool ''proxy_bypass_list_present'' (Some (present (cbc_ProxyBypassList p))) @
     opt_member JBool ''proxy_server_present'' (Some (present (cbc_ProxyServer p))) @
     opt_member jstr ''session_id'' (sessionID cmd) @
     opt_member jint ''universal_network_access_origin_count'' (count_of (cbc_OriginsWithUniversalNetworkAccess p))"

definition sanitizeTargetCreateBrowserContext :: sanitizer where
  "sanitizeTargetCreateBrowserContext cmd =
     map_option (dataTargetCreateBrowserContext cmd)
       (decodeParams targetCreateBrowserContextParams_fields zero_targetCreateBrowserContextParams (cmd_Params cmd))"

definition BrowserCdpTargetCreateBrowserContextCommandData :: schema where
  "BrowserCdpTargetCreateBrowserContextCommandData =
     [(''command_id'', KInt, False), (''connection_id'', KText, False),
      (''dispose_on_detach'', KBool, False),
      (''method'', KEnum [''Target.createBrowserContext''], True),
      (''proxy_bypass_list_present'', KBool, False), (''proxy_server_present'', KBool, False),
      (''session_id'', KText, False), (''universal_network_access_origin_count'', KInt, False)]"

definition targetCreateBrowserContextParams_redactions :: redactions where
  "targetCreateBrowserContextParams_redactions =
     [(''proxyServer'', on_text same_presence), (''proxyBypassList'', on_text same_presence),
      (''originsWithUniversalNetworkAccess'', on_elements (on_text (\<lambda>_. [])))]"

definition blank_targetCreateBrowserContextParams :: "targetCreateBrowserContextParams \<Rightarrow> targetCreateBrowserContextParams" where
  "blank_targetCreateBrowserContextParams p =
     p\<lparr>cbc_ProxyServer := map_option same_presence (cbc_ProxyServer p), cbc_ProxyBypassList := map_option same_presence (cbc_ProxyBypassList p), cbc_OriginsWithUniversalNetworkAccess := map_option (map (\<lambda>_. [])) (cbc_OriginsWithUniversalNetworkAccess p)\<rparr>"

lemma tracks_targetCreateBrowserContextParams:
  "tracks blank_targetCreateBrowserContextParams targetCreateBrowserContextParams_redactions targetCreateBrowserContextParams_fields"
  by (auto simp: tracks_def redact_def targetCreateBrowserContextParams_redactions_def blank_targetCreateBrowserContextParams_def targetCreateBrowserContextParams_fields_def
      field_defs option.map_comp comp_def string_elem_on_text as_slice_on
      intro!: option.map_cong)

lemma TargetCreateBrowserContext_fits: "sanitizeTargetCreateBrowserContext cmd = Some ms \<Longrightarrow> fits BrowserCdpTargetCreateBrowserContextCommandData ms"
  by (auto simp: sanitizeTargetCreateBrowserContext_def dataTargetCreateBrowserContext_def BrowserCdpTargetCreateBrowserContextCommandData_def
      intro!: fits_intros intro: text_kinds split: if_splits)

lemma TargetCreateBrowserContext_blind: "blind sanitizeTargetCreateBrowserContext (map fst targetCreateBrowserContextParams_fields) targetCreateBrowserContextParams_redactions"
  by (rule blindI[where out = "dataTargetCreateBrowserContext" and zero = zero_targetCreateBrowserContextParams and h = "blank_targetCreateBrowserContextParams"])
    (simp_all add: sanitizeTargetCreateBrowserContext_def dataTargetCreateBrowserContext_def tracks_targetCreateBrowserContextParams blank_targetCreateBrowserContextParams_def zero_targetCreateBrowserContextParams_def)

record browserContextIdParams =
  bc_BrowserContextId :: string

definition browserContextIdParams_fields :: "browserContextIdParams struct_fields" where
  "browserContextIdParams_fields =
     [(''browserContextId'', plain_field as_string bc_BrowserContextId_update)]"

definition zero_browserContextIdParams :: browserContextIdParams where
  "zero_browserContextIdParams =
     \<lparr>bc_BrowserContextId = []\<rparr>"

definition dataTargetDisposeBrowserContext :: "cdpCommand \<Rightarrow> browserContextIdParams \<Rightarrow> members" where
  "dataTargetDisposeBrowserContext cmd p =
     (''browser_context_id'', jstr (clipID (bc_BrowserContextId p))) #
     opt_member jint ''command_id'' (cmd_ID cmd) @ opt_member jstr ''connection_id'' (connID cmd) @
     (''method'', JString ''Target.disposeBrowserContext'') #
     opt_member jstr ''session_id'' (sessionID cmd)"

definition sanitizeTargetDisposeBrowserContext :: sanitizer where
  "sanitizeTargetDisposeBrowserContext cmd =
     map_option (dataTargetDisposeBrowserContext cmd)
       (decodeParams browserContextIdParams_fields zero_browserContextIdParams (cmd_Params cmd))"

definition BrowserCdpTargetDisposeBrowserContextCommandData :: schema where
  "BrowserCdpTargetDisposeBrowserContextCommandData =
     [(''browser_context_id'', KText, True), (''command_id'', KInt, False),
      (''connection_id'', KText, False),
      (''method'', KEnum [''Target.disposeBrowserContext''], True),
      (''session_id'', KText, False)]"

lemma TargetDisposeBrowserContext_fits: "sanitizeTargetDisposeBrowserContext cmd = Some ms \<Longrightarrow> fits BrowserCdpTargetDisposeBrowserContextCommandData ms"
  by (auto simp: sanitizeTargetDisposeBrowserContext_def dataTargetDisposeBrowserContext_def BrowserCdpTargetDisposeBrowserContextCommandData_def
      intro!: fits_intros intro: text_kinds split: if_splits)

lemma TargetDisposeBrowserContext_blind: "blind sanitizeTargetDisposeBrowserContext (map fst browserContextIdParams_fields) []"
  by (rule blind_plainI[where out = dataTargetDisposeBrowserContext and zero = zero_browserContextIdParams]) (simp_all add: sanitizeTargetDisposeBrowserContext_def dataTargetDisposeBrowserContext_def)

record browserCancelDownloadParams =
  dl_Guid :: string
  dl_BrowserContextId :: "string option"

definition browserCancelDownloadParams_fields :: "browserCancelDownloadParams struct_fields" where
  "browserCancelDownloadParams_fields =
     [(''guid'', plain_field as_string dl_Guid_update),
      (''browserContextId'', ptr_field as_string dl_BrowserContextId_update)]"

definition zero_browserCancelDownloadParams :: browserCancelDownloadParams where
  "zero_browserCancelDownloadParams =
     \<lparr>dl_Guid = [], dl_BrowserContextId = None\<rparr>"

definition dataBrowserCancelDownload :: "cdpCommand \<Rightarrow> browserCancelDownloadParams \<Rightarrow> members" where
  "dataBrowserCancelDownload cmd p =
     opt_member jstr ''browser_context_id'' (clipIDPtr (dl_BrowserContextId p)) @
     opt_member jint ''command_id'' (cmd_ID cmd) @ opt_member jstr ''connection_id'' (connID cmd) @
     (''download_guid'', jstr (clipID (dl_Guid p))) #
     (''method'', JString ''Browser.cancelDownload'') #
     opt_member jstr ''session_id'' (sessionID cmd)"

definition sanitizeBrowserCancelDownload :: sanitizer where
  "sanitizeBrowserCancelDownload cmd =
     map_option (dataBrowserCancelDownload cmd)
       (decodeParams browserCancelDownloadParams_fields zero_browserCancelDownloadParams (cmd_Params cmd))"

definition BrowserCdpBrowserCancelDownloadCommandData :: schema where
  "BrowserCdpBrowserCancelDownloadCommandData =
     [(''browser_context_id'', KText, False), (''command_id'', KInt, False),
      (''connection_id'', KText, False), (''download_guid'', KText, True),
      (''method'', KEnum [''Browser.cancelDownload''], True), (''session_id'', KText, False)]"

lemma BrowserCancelDownload_fits: "sanitizeBrowserCancelDownload cmd = Some ms \<Longrightarrow> fits BrowserCdpBrowserCancelDownloadCommandData ms"
  by (auto simp: sanitizeBrowserCancelDownload_def dataBrowserCancelDownload_def BrowserCdpBrowserCancelDownloadCommandData_def
      intro!: fits_intros intro: text_kinds split: if_splits)

lemma BrowserCancelDownload_blind: "blind sanitizeBrowserCancelDownload (map fst browserCancelDownloadParams_fields) []"
  by (rule blind_plainI[where out = dataBrowserCancelDownload and zero = zero_browserCancelDownloadParams]) (simp_all add: sanitizeBrowserCancelDownload_def dataBrowserCancelDownload_def)

definition sanitizeBrowserClose :: sanitizer where
  "sanitizeBrowserClose cmd = Some (
     opt_member jint ''command_id'' (cmd_ID cmd) @ opt_member jstr ''connection_id'' (connID cmd) @
     (''method'', JString ''Browser.close'') # opt_member jstr ''session_id'' (sessionID cmd))"

definition BrowserCdpBrowserCloseCommandData :: schema where
  "BrowserCdpBrowserCloseCommandData =
     [(''command_id'', KInt, False), (''connection_id'', KText, False),
      (''method'', KEnum [''Browser.close''], True), (''session_id'', KText, False)]"

lemma BrowserClose_fits: "sanitizeBrowserClose cmd = Some ms \<Longrightarrow> fits BrowserCdpBrowserCloseCommandData ms"
  by (auto simp: sanitizeBrowserClose_def BrowserCdpBrowserCloseCommandData_def intro!: fits_intros intro: text_kinds split: if_splits)

lemma BrowserClose_blind: "blind sanitizeBrowserClose names vs"
  by (rule blind_constI) (simp add: sanitizeBrowserClose_def)

record windowBounds =
  wb_Left :: "int option"
  wb_Top :: "int option"
  wb_Width :: "int option"
  wb_Height :: "int option"
  wb_WindowState :: "string option"

definition windowBounds_fields :: "windowBounds struct_fields" where
  "windowBounds_fields =
     [(''left'', ptr_field as_int wb_Left_update), (''top'', ptr_field as_int wb_Top_update),
      (''width'', ptr_field as_int wb_Width_update),
      (''height'', ptr_field as_int wb_Height_update),
      (''windowState'', ptr_field as_string wb_WindowState_update)]"

definition zero_windowBounds :: windowBounds where
  "zero_windowBounds =
     \<lparr>wb_Left = None, wb_Top = None, wb_Width = None, wb_Height = None,
      wb_WindowState = None\<rparr>"

record browserSetWindowBoundsParams =
  swb_WindowId :: int
  swb_Bounds :: windowBounds

definition browserSetWindowBoundsParams_fields :: "browserSetWindowBoundsParams struct_fields" where
  "browserSetWindowBoundsParams_fields =
     [(''windowId'', plain_field as_int swb_WindowId_update),
      (''bounds'', nested_field windowBounds_fields swb_Bounds swb_Bounds_update)]"

definition zero_browserSetWindowBoundsParams :: browserSetWindowBoundsParams where
  "zero_browserSetWindowBoundsParams =
     \<lparr>swb_WindowId = 0, swb_Bounds = zero_windowBounds\<rparr>"

definition dataBrowserSetWindowBounds :: "cdpCommand \<Rightarrow> browserSetWindowBoundsParams \<Rightarrow> members" where
  "dataBrowserSetWindowBounds cmd p =
     opt_member jint ''command_id'' (cmd_ID cmd) @ opt_member jstr ''connection_id'' (connID cmd) @
     opt_member jint ''height'' (wb_Height (swb_Bounds p)) @
     opt_member jint ''left'' (wb_Left (swb_Bounds p)) @
     (''method'', JString ''Browser.setWindowBounds'') #
     opt_member jstr ''session_id'' (sessionID cmd) @
     opt_member jint ''top'' (wb_Top (swb_Bounds p)) @
     opt_member jint ''width'' (wb_Width (swb_Bounds p)) @ (''window_id'', jint (swb_WindowId p)) #
     opt_member JString ''window_state'' (windowState (wb_WindowState (swb_Bounds p)))"

definition sanitizeBrowserSetWindowBounds :: sanitizer where
  "sanitizeBrowserSetWindowBounds cmd =
     map_option (dataBrowserSetWindowBounds cmd)
       (decodeParams browserSetWindowBoundsParams_fields zero_browserSetWindowBoundsParams (cmd_Params cmd))"

definition BrowserCdpBrowserSetWindowBoundsCommandData :: schema where
  "BrowserCdpBrowserSetWindowBoundsCommandData =
     [(''command_id'', KInt, False), (''connection_id'', KText, False), (''height'', KInt, False),
      (''left'', KInt, False), (''method'', KEnum [''Browser.setWindowBounds''], True),
      (''session_id'', KText, False), (''top'', KInt, False), (''width'', KInt, False),
      (''window_id'', KInt, True), (''window_state'', KEnum BrowserCdpWindowState, False)]"

lemma BrowserSetWindowBounds_fits: "sanitizeBrowserSetWindowBounds cmd = Some ms \<Longrightarrow> fits BrowserCdpBrowserSetWindowBoundsCommandData ms"
  by (auto simp: sanitizeBrowserSetWindowBounds_def dataBrowserSetWindowBounds_def BrowserCdpBrowserSetWindowBoundsCommandData_def
      intro!: fits_intros intro: text_kinds split: if_splits)

lemma BrowserSetWindowBounds_blind: "blind sanitizeBrowserSetWindowBounds (map fst browserSetWindowBoundsParams_fields) []"
  by (rule blind_plainI[where out = dataBrowserSetWindowBounds and zero = zero_browserSetWindowBoundsParams]) (simp_all add: sanitizeBrowserSetWindowBounds_def dataBrowserSetWindowBounds_def)

record browserSetContentsSizeParams =
  scs_WindowId :: int
  scs_Width :: "int option"
  scs_Height :: "int option"

definition browserSetContentsSizeParams_fields :: "browserSetContentsSizeParams struct_fields" where
  "browserSetContentsSizeParams_fields =
     [(''windowId'', plain_field as_int scs_WindowId_update),
      (''width'', ptr_field as_int scs_Width_update),
      (''height'', ptr_field as_int scs_Height_update)]"

definition zero_browserSetContentsSizeParams :: browserSetContentsSizeParams where
  "zero_browserSetContentsSizeParams =
     \<lparr>scs_WindowId = 0, scs_Width = None, scs_Height = None\<rparr>"

definition dataBrowserSetContentsSize :: "cdpCommand \<Rightarrow> browserSetContentsSizeParams \<Rightarrow> members" where
  "dataBrowserSetContentsSize cmd p =
     opt_member jint ''command_id'' (cmd_ID cmd) @ opt_member jstr ''connection_id'' (connID cmd) @
     opt_member jint ''height'' (scs_Height p) @
     (''method'', JString ''Browser.setContentsSize'') #
     opt_member jstr ''session_id'' (sessionID cmd) @ opt_member jint ''width'' (scs_Width p) @
     [(''window_id'', jint (scs_WindowId p))]"

definition sanitizeBrowserSetContentsSize :: sanitizer where
  "sanitizeBrowserSetContentsSize cmd =
     map_option (dataBrowserSetContentsSize cmd)
       (decodeParams browserSetContentsSizeParams_fields zero_browserSetContentsSizeParams (cmd_Params cmd))"

definition BrowserCdpBrowserSetContentsSizeCommandData :: schema where
  "BrowserCdpBrowserSetContentsSizeCommandData =
     [(''command_id'', KInt, False), (''connection_id'', KText, False), (''height'', KInt, False),
      (''method'', KEnum [''Browser.setContentsSize''], True), (''session_id'', KText, False),
      (''width'', KInt, False), (''window_id'', KInt, True)]"

lemma BrowserSetContentsSize_fits: "sanitizeBrowserSetContentsSize cmd = Some ms \<Longrightarrow> fits BrowserCdpBrowserSetContentsSizeCommandData ms"
  by (auto simp: sanitizeBrowserSetContentsSize_def dataBrowserSetContentsSize_def BrowserCdpBrowserSetContentsSizeCommandData_def
      intro!: fits_intros intro: text_kinds split: if_splits)

lemma BrowserSetContentsSize_blind: "blind sanitizeBrowserSetContentsSize (map fst browserSetContentsSizeParams_fields) []"
  by (rule blind_plainI[where out = dataBrowserSetContentsSize and zero = zero_browserSetContentsSizeParams]) (simp_all add: sanitizeBrowserSetContentsSize_def dataBrowserSetContentsSize_def)

record autofillAddress =
  addr_Fields :: "unit list option"

definition autofillAddress_fields :: "autofillAddress struct_fields" where
  "autofillAddress_fields =
     [(''fields'', slice_field unit_elem addr_Fields_update)]"

definition zero_autofillAddress :: autofillAddress where
  "zero_autofillAddress =
     \<lparr>addr_Fields = None\<rparr>"

text \<open>Of a card only that it is there shows, of an address the number of its fields.\<close>

definition filled :: "json \<Rightarrow> json" where
  "filled v = (if v = JNull then JNull else JBool True)"

definition autofillAddress_redactions :: redactions where
  "autofillAddress_redactions = [(''fields'', on_elements (blank_struct [] []))]"

lemma tracks_autofillAddress: "tracks id autofillAddress_redactions autofillAddress_fields"
proof -
  have "unit_elem (blank_struct [] [] v) = map_option id (unit_elem v)" for v by (cases v) simp_all
  then have "as_slice unit_elem (on_elements (blank_struct [] []) v) = map_option (map id) (as_slice unit_elem v)" for v
    by (rule as_slice_on)
  then have "as_slice unit_elem (on_elements (blank_struct [] []) v) = as_slice unit_elem v" for v
    by (simp add: list.map_id0 option.map_id)
  then show ?thesis
    by (simp add: tracks_def redact_def autofillAddress_fields_def autofillAddress_redactions_def field_defs
        option.map_id)
qed

lemma decode_autofillAddress:
  "decode_struct autofillAddress_fields
     (blank_struct (map fst autofillAddress_fields) autofillAddress_redactions v) s =
   decode_struct autofillAddress_fields v s"
  using decode_blank[OF tracks_autofillAddress, of v s] by (simp add: option.map_id)

record autofillTriggerParams =
  auto_FieldId :: int
  auto_FrameId :: "string option"
  auto_Card :: "json option"
  auto_Address :: "autofillAddress option"

definition autofillTriggerParams_fields :: "autofillTriggerParams struct_fields" where
  "autofillTriggerParams_fields =
     [(''fieldId'', plain_field as_int auto_FieldId_update),
      (''frameId'', ptr_field as_string auto_FrameId_update),
      (''card'', raw_field auto_Card_update),
      (''address'', nested_ptr_field autofillAddress_fields zero_autofillAddress auto_Address auto_Address_update)]"

definition zero_autofillTriggerParams :: autofillTriggerParams where
  "zero_autofillTriggerParams =
     \<lparr>auto_FieldId = 0, auto_FrameId = None, auto_Card = None, auto_Address = None\<rparr>"

text \<open>Which of the two was filled: a card shows nothing else, an address the number of its fields.\<close>

definition autofill_card :: "autofillTriggerParams \<Rightarrow> bool" where
  "autofill_card p \<longleftrightarrow> (case auto_Card p of None \<Rightarrow> False | Some v \<Rightarrow> v \<noteq> JNull)"

definition autofill_mode :: "autofillTriggerParams \<Rightarrow> string option" where
  "autofill_mode p =
     (if autofill_card p then Some ''card'' else if auto_Address p \<noteq> None then Some ''address'' else None)"

definition autofill_address_count :: "autofillTriggerParams \<Rightarrow> int option" where
  "autofill_address_count p =
     (if autofill_card p then None
      else case auto_Address p of None \<Rightarrow> None | Some a \<Rightarrow> count_of (addr_Fields a))"

lemma autofill_filled [simp]:
  "autofill_mode (q\<lparr>auto_Card := map_option filled (auto_Card q)\<rparr>) = autofill_mode q"
  "autofill_address_count (q\<lparr>auto_Card := map_option filled (auto_Card q)\<rparr>) = autofill_address_count q"
  by (cases "auto_Card q"; simp add: autofill_mode_def autofill_address_count_def autofill_card_def filled_def)+

lemma autofill_mode_ok: "autofill_mode p = Some x \<Longrightarrow> has_kind (KEnum BrowserCdpAutofillMode) (JString x)"
  by (auto simp: autofill_mode_def has_kind.simps BrowserCdpAutofillMode_def split: if_splits)

definition dataAutofillTrigger :: "cdpCommand \<Rightarrow> autofillTriggerParams \<Rightarrow> members" where
  "dataAutofillTrigger cmd p =
     opt_member jint ''address_field_count'' (autofill_address_count p) @
     opt_member jint ''command_id'' (cmd_ID cmd) @ opt_member jstr ''connection_id'' (connID cmd) @
     (''field_id'', jint (auto_FieldId p)) #
     opt_member jstr ''frame_id'' (clipIDPtr (auto_FrameId p)) @
     (''method'', JString ''Autofill.trigger'') # opt_member JString ''mode'' (autofill_mode p) @
     opt_member jstr ''session_id'' (sessionID cmd)"

definition sanitizeAutofillTrigger :: sanitizer where
  "sanitizeAutofillTrigger cmd =
     map_option (dataAutofillTrigger cmd)
       (decodeParams autofillTriggerParams_fields zero_autofillTriggerParams (cmd_Params cmd))"

definition BrowserCdpAutofillTriggerCommandData :: schema where
  "BrowserCdpAutofillTriggerCommandData =
     [(''address_field_count'', KInt, False), (''command_id'', KInt, False),
      (''connection_id'', KText, False), (''field_id'', KInt, True), (''frame_id'', KText, False),
      (''method'', KEnum [''Autofill.trigger''], True),
      (''mode'', KEnum BrowserCdpAutofillMode, False), (''session_id'', KText, False)]"

definition autofillTriggerParams_redactions :: redactions where
  "autofillTriggerParams_redactions =
     [(''card'', filled),
      (''address'', blank_struct (map fst autofillAddress_fields) autofillAddress_redactions)]"

definition blank_autofillTriggerParams :: "autofillTriggerParams \<Rightarrow> autofillTriggerParams" where
  "blank_autofillTriggerParams p =
     p\<lparr>auto_Card := map_option filled (auto_Card p)\<rparr>"

lemma tracks_autofillTriggerParams:
  "tracks blank_autofillTriggerParams autofillTriggerParams_redactions autofillTriggerParams_fields"
  by (auto simp: tracks_def redact_def autofillTriggerParams_redactions_def blank_autofillTriggerParams_def autofillTriggerParams_fields_def
      field_defs option.map_comp comp_def string_elem_on_text as_slice_on decode_autofillAddress filled_def
      intro!: option.map_cong)

lemma AutofillTrigger_fits: "sanitizeAutofillTrigger cmd = Some ms \<Longrightarrow> fits BrowserCdpAutofillTriggerCommandData ms"
  by (auto simp: sanitizeAutofillTrigger_def dataAutofillTrigger_def BrowserCdpAutofillTriggerCommandData_def
      intro!: fits_intros intro: text_kinds autofill_mode_ok split: if_splits)

lemma AutofillTrigger_blind: "blind sanitizeAutofillTrigger (map fst autofillTriggerParams_fields) autofillTriggerParams_redactions"
  by (rule blindI[where out = "dataAutofillTrigger" and zero = zero_autofillTriggerParams and h = "blank_autofillTriggerParams"])
    (simp_all add: sanitizeAutofillTrigger_def dataAutofillTrigger_def tracks_autofillTriggerParams blank_autofillTriggerParams_def zero_autofillTriggerParams_def)

end
