(* ===== verification/CdpParams.thy ===== *)
theory CdpParams
  imports CdpInput CdpPage CdpTarget Events
begin

text \<open>
  From a client frame to a \<open>cdp_command\<close> event (\<open>lib/devtoolsproxy/cdpparams.go\<close>,
  \<open>lib/devtoolsproxy/cdpcommand.go\<close>): the table of supported methods, the admission test and the
  event. Shown here: the payload of every event fits the schema of its method and is small, and an
  event does not depend on what the sanitizers are to keep in the machine.
\<close>

section \<open>Tables\<close>

text \<open>The three tables have one entry for each method, in the order of the source.\<close>

definition sanitizers :: "(string \<Rightarrow> bool) \<Rightarrow> (string \<times> sanitizer) list" where
  "sanitizers authority_ok =
     [(''Input.dispatchMouseEvent'', sanitizeInputDispatchMouseEvent),
      (''Input.dispatchKeyEvent'', sanitizeInputDispatchKeyEvent),
      (''Input.insertText'', sanitizeInputInsertText),
      (''Input.imeSetComposition'', sanitizeInputImeSetComposition),
      (''Input.dispatchTouchEvent'', sanitizeInputDispatchTouchEvent),
      (''Input.dispatchDragEvent'', sanitizeInputDispatchDragEvent),
      (''Input.cancelDragging'', sanitizeInputCancelDragging),
      (''Input.emulateTouchFromMouseEvent'', sanitizeInputEmulateTouchFromMouseEvent),
      (''Input.synthesizePinchGesture'', sanitizeInputSynthesizePinchGesture),
      (''Input.synthesizeScrollGesture'', sanitizeInputSynthesizeScrollGesture),
      (''Input.synthesizeTapGesture'', sanitizeInputSynthesizeTapGesture),
      (''DOM.setFileInputFiles'', sanitizeDomSetFileInputFiles),
      (''DOM.focus'', sanitizeDomFocus),
      (''DOM.scrollIntoViewIfNeeded'', sanitizeDomScrollIntoViewIfNeeded),
      (''Page.bringToFront'', sanitizePageBringToFront),
      (''Page.captureScreenshot'', sanitizePageCaptureScreenshot),
      (''Page.captureSnapshot'', sanitizePageCaptureSnapshot),
      (''Page.handleJavaScriptDialog'', sanitizePageHandleJavaScriptDialog),
      (''Page.navigate'', sanitizePageNavigate authority_ok),
      (''Page.navigateToHistoryEntry'', sanitizePageNavigateToHistoryEntry),
      (''Page.reload'', sanitizePageReload),
      (''Page.printToPDF'', sanitizePagePrintToPDF),
      (''Page.startScreencast'', sanitizePageStartScreencast),
      (''Page.stopScreencast'', sanitizePageStopScreencast),
      (''Page.stopLoading'', sanitizePageStopLoading),
      (''Page.close'', sanitizePageClose),
      (''Page.setWebLifecycleState'', sanitizePageSetWebLifecycleState),
      (''Target.activateTarget'', sanitizeTargetActivateTarget),
      (''Target.closeTarget'', sanitizeTargetCloseTarget),
      (''Target.createTarget'', sanitizeTargetCreateTarget authority_ok),
      (''Target.createBrowserContext'', sanitizeTargetCreateBrowserContext),
      (''Target.disposeBrowserContext'', sanitizeTargetDisposeBrowserContext),
      (''Target.openDevTools'', sanitizeTargetOpenDevTools),
      (''Browser.cancelDownload'', sanitizeBrowserCancelDownload),
      (''Browser.close'', sanitizeBrowserClose),
      (''Browser.setWindowBounds'', sanitizeBrowserSetWindowBounds),
      (''Browser.setContentsSize'', sanitizeBrowserSetContentsSize),
      (''Autofill.trigger'', sanitizeAutofillTrigger)]"

text \<open>\<open>commandParams\<close>: the members the argument struct of each method names.\<close>

definition commandParams :: "(string \<times> string list) list" where
  "commandParams =
     [(''Input.dispatchMouseEvent'', map fst inputDispatchMouseEventParams_fields),
      (''Input.dispatchKeyEvent'', map fst inputDispatchKeyEventParams_fields),
      (''Input.insertText'', map fst inputInsertTextParams_fields),
      (''Input.imeSetComposition'', map fst inputImeSetCompositionParams_fields),
      (''Input.dispatchTouchEvent'', map fst inputDispatchTouchEventParams_fields),
      (''Input.dispatchDragEvent'', map fst inputDispatchDragEventParams_fields),
      (''Input.cancelDragging'', []),
      (''Input.emulateTouchFromMouseEvent'', map fst inputEmulateTouchFromMouseEventParams_fields),
      (''Input.synthesizePinchGesture'', map fst inputSynthesizePinchGestureParams_fields),
      (''Input.synthesizeScrollGesture'', map fst inputSynthesizeScrollGestureParams_fields),
      (''Input.synthesizeTapGesture'', map fst inputSynthesizeTapGestureParams_fields),
      (''DOM.setFileInputFiles'', map fst domSetFileInputFilesParams_fields),
      (''DOM.focus'', map fst (domNodeRef_fields :: domNodeRef struct_fields)),
      (''DOM.scrollIntoViewIfNeeded'', map fst domScrollIntoViewIfNeededParams_fields),
      (''Page.bringToFront'', []),
      (''Page.captureScreenshot'', map fst pageCaptureScreenshotParams_fields),
      (''Page.captureSnapshot'', map fst pageCaptureSnapshotParams_fields),
      (''Page.handleJavaScriptDialog'', map fst pageHandleJavaScriptDialogParams_fields),
      (''Page.navigate'', map fst pageNavigateParams_fields),
      (''Page.navigateToHistoryEntry'', map fst pageNavigateToHistoryEntryParams_fields),
      (''Page.reload'', map fst pageReloadParams_fields),
      (''Page.printToPDF'', map fst pagePrintToPDFParams_fields),
      (''Page.startScreencast'', map fst pageStartScreencastParams_fields),
      (''Page.stopScreencast'', []),
      (''Page.stopLoading'', []),
      (''Page.close'', []),
      (''Page.setWebLifecycleState'', map fst pageSetWebLifecycleStateParams_fields),
      (''Target.activateTarget'', map fst targetIdParams_fields),
      (''Target.closeTarget'', map fst targetIdParams_fields),
      (''Target.createTarget'', map fst targetCreateTargetParams_fields),
      (''Target.createBrowserContext'', map fst targetCreateBrowserContextParams_fields),
      (''Target.disposeBrowserContext'', map fst browserContextIdParams_fields),
      (''Target.openDevTools'', map fst targetOpenDevToolsParams_fields),
      (''Browser.cancelDownload'', map fst browserCancelDownloadParams_fields),
      (''Browser.close'', []),
      (''Browser.setWindowBounds'', map fst browserSetWindowBoundsParams_fields),
      (''Browser.setContentsSize'', map fst browserSetContentsSizeParams_fields),
      (''Autofill.trigger'', map fst autofillTriggerParams_fields)]"

text \<open>What of the named arguments must not show, as a rewriting of the argument document.\<close>

definition redactions_of :: "(string \<Rightarrow> bool) \<Rightarrow> (string \<times> redactions) list" where
  "redactions_of authority_ok =
     [(''Input.dispatchMouseEvent'', []),
      (''Input.dispatchKeyEvent'', inputDispatchKeyEventParams_redactions),
      (''Input.insertText'', inputInsertTextParams_redactions),
      (''Input.imeSetComposition'', inputImeSetCompositionParams_redactions),
      (''Input.dispatchTouchEvent'', []),
      (''Input.dispatchDragEvent'', inputDispatchDragEventParams_redactions),
      (''Input.cancelDragging'', []),
      (''Input.emulateTouchFromMouseEvent'', []),
      (''Input.synthesizePinchGesture'', []),
      (''Input.synthesizeScrollGesture'', []),
      (''Input.synthesizeTapGesture'', []),
      (''DOM.setFileInputFiles'', domSetFileInputFilesParams_redactions),
      (''DOM.focus'', []),
      (''DOM.scrollIntoViewIfNeeded'', []),
      (''Page.bringToFront'', []),
      (''Page.captureScreenshot'', []),
      (''Page.captureSnapshot'', []),
      (''Page.handleJavaScriptDialog'', pageHandleJavaScriptDialogParams_redactions),
      (''Page.navigate'', pageNavigateParams_redactions authority_ok),
      (''Page.navigateToHistoryEntry'', []),
      (''Page.reload'', pageReloadParams_redactions),
      (''Page.printToPDF'', pagePrintToPDFParams_redactions),
      (''Page.startScreencast'', []),
      (''Page.stopScreencast'', []),
      (''Page.stopLoading'', []),
      (''Page.close'', []),
      (''Page.setWebLifecycleState'', []),
      (''Target.activateTarget'', []),
      (''Target.closeTarget'', []),
      (''Target.createTarget'', targetCreateTargetParams_redactions authority_ok),
      (''Target.createBrowserContext'', targetCreateBrowserContextParams_redactions),
      (''Target.disposeBrowserContext'', []),
      (''Target.openDevTools'', []),
      (''Browser.cancelDownload'', []),
      (''Browser.close'', []),
      (''Browser.setWindowBounds'', []),
      (''Browser.setContentsSize'', []),
      (''Autofill.trigger'', autofillTriggerParams_redactions)]"

text \<open>The generated struct of each method.\<close>

definition payload_schemas :: "(string \<times> schema) list" where
  "payload_schemas =
     [(''Input.dispatchMouseEvent'', BrowserCdpInputDispatchMouseEventCommandData),
      (''Input.dispatchKeyEvent'', BrowserCdpInputDispatchKeyEventCommandData),
      (''Input.insertText'', BrowserCdpInputInsertTextCommandData),
      (''Input.imeSetComposition'', BrowserCdpInputImeSetCompositionCommandData),
      (''Input.dispatchTouchEvent'', BrowserCdpInputDispatchTouchEventCommandData),
      (''Input.dispatchDragEvent'', BrowserCdpInputDispatchDragEventCommandData),
      (''Input.cancelDragging'', BrowserCdpInputCancelDraggingCommandData),
      (''Input.emulateTouchFromMouseEvent'', BrowserCdpInputEmulateTouchFromMouseEventCommandData),
      (''Input.synthesizePinchGesture'', BrowserCdpInputSynthesizePinchGestureCommandData),
      (''Input.synthesizeScrollGesture'', BrowserCdpInputSynthesizeScrollGestureCommandData),
      (''Input.synthesizeTapGesture'', BrowserCdpInputSynthesizeTapGestureCommandData),
      (''DOM.setFileInputFiles'', BrowserCdpDomSetFileInputFilesCommandData),
      (''DOM.focus'', BrowserCdpDomFocusCommandData),
      (''DOM.scrollIntoViewIfNeeded'', BrowserCdpDomScrollIntoViewIfNeededCommandData),
      (''Page.bringToFront'', BrowserCdpPageBringToFrontCommandData),
      (''Page.captureScreenshot'', BrowserCdpPageCaptureScreenshotCommandData),
      (''Page.captureSnapshot'', BrowserCdpPageCaptureSnapshotCommandData),
      (''Page.handleJavaScriptDialog'', BrowserCdpPageHandleJavaScriptDialogCommandData),
      (''Page.navigate'', BrowserCdpPageNavigateCommandData),
      (''Page.navigateToHistoryEntry'', BrowserCdpPageNavigateToHistoryEntryCommandData),
      (''Page.reload'', BrowserCdpPageReloadCommandData),
      (''Page.printToPDF'', BrowserCdpPagePrintToPdfCommandData),
      (''Page.startScreencast'', BrowserCdpPageStartScreencastCommandData),
      (''Page.stopScreencast'', BrowserCdpPageStopScreencastCommandData),
      (''Page.stopLoading'', BrowserCdpPageStopLoadingCommandData),
      (''Page.close'', BrowserCdpPageCloseCommandData),
      (''Page.setWebLifecycleState'', BrowserCdpPageSetWebLifecycleStateCommandData),
      (''Target.activateTarget'', BrowserCdpTargetActivateTargetCommandData),
      (''Target.closeTarget'', BrowserCdpTargetCloseTargetCommandData),
      (''Target.createTarget'', BrowserCdpTargetCreateTargetCommandData),
      (''Target.createBrowserContext'', BrowserCdpTargetCreateBrowserContextCommandData),
      (''Target.disposeBrowserContext'', BrowserCdpTargetDisposeBrowserContextCommandData),
      (''Target.openDevTools'', BrowserCdpTargetOpenDevToolsCommandData),
      (''Browser.cancelDownload'', BrowserCdpBrowserCancelDownloadCommandData),
      (''Browser.close'', BrowserCdpBrowserCloseCommandData),
      (''Browser.setWindowBounds'', BrowserCdpBrowserSetWindowBoundsCommandData),
      (''Browser.setContentsSize'', BrowserCdpBrowserSetContentsSizeCommandData),
      (''Autofill.trigger'', BrowserCdpAutofillTriggerCommandData)]"

definition BrowserCdpCommandMethod :: "string list" where
  "BrowserCdpCommandMethod =
     [''Autofill.trigger'', ''Browser.cancelDownload'', ''Browser.close'',
      ''Browser.setContentsSize'', ''Browser.setWindowBounds'', ''DOM.focus'',
      ''DOM.scrollIntoViewIfNeeded'', ''DOM.setFileInputFiles'', ''Input.cancelDragging'',
      ''Input.dispatchDragEvent'', ''Input.dispatchKeyEvent'', ''Input.dispatchMouseEvent'',
      ''Input.dispatchTouchEvent'', ''Input.emulateTouchFromMouseEvent'',
      ''Input.imeSetComposition'', ''Input.insertText'', ''Input.synthesizePinchGesture'',
      ''Input.synthesizeScrollGesture'', ''Input.synthesizeTapGesture'', ''Page.bringToFront'',
      ''Page.captureScreenshot'', ''Page.captureSnapshot'', ''Page.close'',
      ''Page.handleJavaScriptDialog'', ''Page.navigate'', ''Page.navigateToHistoryEntry'',
      ''Page.printToPDF'', ''Page.reload'', ''Page.setWebLifecycleState'',
      ''Page.startScreencast'', ''Page.stopLoading'', ''Page.stopScreencast'',
      ''Target.activateTarget'', ''Target.closeTarget'', ''Target.createBrowserContext'',
      ''Target.createTarget'', ''Target.disposeBrowserContext'', ''Target.openDevTools'']"

section \<open>Events\<close>

definition supportedMethod :: "(string \<Rightarrow> bool) \<Rightarrow> frame_text \<Rightarrow> string option" where
  "supportedMethod authority_ok msg =
     (case msg of
        NotJson \<Rightarrow> None
      | Json j \<Rightarrow>
          (case probe_method j of
             None \<Rightarrow> None
           | Some m \<Rightarrow> if map_of (sanitizers authority_ok) m = None then None else Some m))"

definition zero_cdpCommand :: "string \<Rightarrow> cdpCommand" where
  "zero_cdpCommand connectionID =
     \<lparr>cmd_ID = None, cmd_Method = [], cmd_SessionID = [], cmd_Params = None, cmd_connectionID = connectionID\<rparr>"

text \<open>\<open>render\<close> is the text \<open>json.Marshal\<close> makes of a payload; it cannot fail on one.\<close>

definition cdpCommandEvent ::
  "(json \<Rightarrow> string) \<Rightarrow> (string \<Rightarrow> bool) \<Rightarrow> frame_text \<Rightarrow> int \<Rightarrow> string \<Rightarrow> string \<Rightarrow> Event option" where
  "cdpCommandEvent render authority_ok msg ts connectionID method =
     (case map_of (sanitizers authority_ok) method of
        None \<Rightarrow> None
      | Some sanitize \<Rightarrow>
          (case msg of
             NotJson \<Rightarrow> None
           | Json j \<Rightarrow>
               (case decode_struct cdpCommand_fields j (zero_cdpCommand connectionID) of
                  None \<Rightarrow> None
                | Some cmd \<Rightarrow>
                    (case sanitize cmd of
                       None \<Rightarrow> None
                     | Some data \<Rightarrow>
                         Some \<lparr>ev_Ts = ts, ev_Type = ''cdp_command'', ev_Category = Control,
                           ev_Source = \<lparr>src_Event = None, src_Kind = ''kernel_api'', src_Metadata = None\<rparr>,
                           ev_Data = render (JObject data), ev_Truncated = False\<rparr>))))"

section \<open>Facts about all methods at once\<close>

text \<open>Three tables with the same keys in the same order, related entry by entry.\<close>

fun all3 :: "('k \<Rightarrow> 'a \<Rightarrow> 'b \<Rightarrow> 'c \<Rightarrow> bool) \<Rightarrow> ('k \<times> 'a) list \<Rightarrow> ('k \<times> 'b) list \<Rightarrow> ('k \<times> 'c) list \<Rightarrow> bool" where
  "all3 P [] [] [] \<longleftrightarrow> True"
| "all3 P ((k, a) # xs) ((l, b) # ys) ((m, c) # zs) \<longleftrightarrow> k = l \<and> l = m \<and> P k a b c \<and> all3 P xs ys zs"
| "all3 P _ _ _ \<longleftrightarrow> False"

lemma all3_Cons: "P k a b c \<Longrightarrow> all3 P xs ys zs \<Longrightarrow> all3 P ((k, a) # xs) ((k, b) # ys) ((k, c) # zs)"
  by simp

lemma all3_Nil: "all3 P [] [] []"
  by simp

lemma all3_map_of:
  "all3 P xs ys zs \<Longrightarrow> map_of xs k = Some a \<Longrightarrow> \<exists>b c. map_of ys k = Some b \<and> map_of zs k = Some c \<and> P k a b c"
  by (induction P xs ys zs rule: all3.induct) (auto split: if_splits)

lemmas all_fits = InputDispatchMouseEvent_fits InputDispatchKeyEvent_fits InputInsertText_fits
  InputImeSetComposition_fits InputDispatchTouchEvent_fits InputDispatchDragEvent_fits
  InputCancelDragging_fits InputEmulateTouchFromMouseEvent_fits InputSynthesizePinchGesture_fits
  InputSynthesizeScrollGesture_fits InputSynthesizeTapGesture_fits DomSetFileInputFiles_fits
  DomFocus_fits DomScrollIntoViewIfNeeded_fits PageBringToFront_fits PageCaptureScreenshot_fits
  PageCaptureSnapshot_fits PageHandleJavaScriptDialog_fits PageNavigate_fits
  PageNavigateToHistoryEntry_fits PageReload_fits PagePrintToPDF_fits PageStartScreencast_fits
  PageStopScreencast_fits PageStopLoading_fits PageClose_fits PageSetWebLifecycleState_fits
  TargetActivateTarget_fits TargetCloseTarget_fits TargetCreateTarget_fits
  TargetCreateBrowserContext_fits TargetDisposeBrowserContext_fits TargetOpenDevTools_fits
  BrowserCancelDownload_fits BrowserClose_fits BrowserSetWindowBounds_fits
  BrowserSetContentsSize_fits AutofillTrigger_fits

lemmas all_blind = InputDispatchMouseEvent_blind InputDispatchKeyEvent_blind
  InputInsertText_blind InputImeSetComposition_blind InputDispatchTouchEvent_blind
  InputDispatchDragEvent_blind InputCancelDragging_blind InputEmulateTouchFromMouseEvent_blind
  InputSynthesizePinchGesture_blind InputSynthesizeScrollGesture_blind
  InputSynthesizeTapGesture_blind DomSetFileInputFiles_blind DomFocus_blind
  DomScrollIntoViewIfNeeded_blind PageBringToFront_blind PageCaptureScreenshot_blind
  PageCaptureSnapshot_blind PageHandleJavaScriptDialog_blind PageNavigate_blind
  PageNavigateToHistoryEntry_blind PageReload_blind PagePrintToPDF_blind
  PageStartScreencast_blind PageStopScreencast_blind PageStopLoading_blind PageClose_blind
  PageSetWebLifecycleState_blind TargetActivateTarget_blind TargetCloseTarget_blind
  TargetCreateTarget_blind TargetCreateBrowserContext_blind TargetDisposeBrowserContext_blind
  TargetOpenDevTools_blind BrowserCancelDownload_blind BrowserClose_blind
  BrowserSetWindowBounds_blind BrowserSetContentsSize_blind AutofillTrigger_blind

definition conforms :: "string \<Rightarrow> sanitizer \<Rightarrow> string list \<Rightarrow> schema \<Rightarrow> bool" where
  "conforms m f names sch \<longleftrightarrow> (\<forall>cmd ms. f cmd = Some ms \<longrightarrow> fits sch ms)"

lemma conformsI: "(\<And>cmd ms. f cmd = Some ms \<Longrightarrow> fits sch ms) \<Longrightarrow> conforms m f names sch"
  by (simp add: conforms_def)

lemma all_conform: "all3 conforms (sanitizers authority_ok) commandParams payload_schemas"
  unfolding sanitizers_def commandParams_def payload_schemas_def
  by (intro all3_Cons all3_Nil conformsI) (erule all_fits)+

definition blinds :: "string \<Rightarrow> sanitizer \<Rightarrow> string list \<Rightarrow> redactions \<Rightarrow> bool" where
  "blinds m f names vs \<longleftrightarrow> blind f names vs"

lemma all_blinded: "all3 blinds (sanitizers authority_ok) commandParams (redactions_of authority_ok)"
  unfolding sanitizers_def commandParams_def redactions_of_def
  by (intro all3_Cons all3_Nil blinds_def[THEN iffD2] all_blind)

definition max_payload :: nat where
  "max_payload = 20000"

text \<open>A number takes at most 32 bytes, a byte of a string at most 6, as in \<open>\u00e9\<close>.\<close>

fun text_bound :: "json \<Rightarrow> nat" where
  "text_bound JNull = 4"
| "text_bound (JBool _) = 5"
| "text_bound (JNumber _) = 32"
| "text_bound (JString s) = 2 + 6 * length s"
| "text_bound (JArray vs) = 2 + (\<Sum>v\<leftarrow>vs. text_bound v + 1)"
| "text_bound (JObject ms) = 2 + (\<Sum>(k, v)\<leftarrow>ms. 6 * length k + text_bound v + 4)"

fun kind_bound :: "member_kind \<Rightarrow> nat" where
  "kind_bound KInt = 32"
| "kind_bound KFloat = 32"
| "kind_bound KBool = 5"
| "kind_bound KText = 2 + 18 * maxOpaqueIDBytes"
| "kind_bound (KEnum vs) = 2 + (\<Sum>v\<leftarrow>vs. 6 * length v)"
| "kind_bound (KEnums vs) = 2 + (\<Sum>v\<leftarrow>vs. 3 + 6 * length v)"

definition schema_bound :: "schema \<Rightarrow> nat" where
  "schema_bound sch = 2 + (\<Sum>(k, kind, _)\<leftarrow>sch. 6 * length k + kind_bound kind + 4)"

lemmas schema_defs = BrowserCdpInputDispatchMouseEventCommandData_def
  BrowserCdpInputDispatchKeyEventCommandData_def BrowserCdpInputInsertTextCommandData_def
  BrowserCdpInputImeSetCompositionCommandData_def
  BrowserCdpInputDispatchTouchEventCommandData_def
  BrowserCdpInputDispatchDragEventCommandData_def BrowserCdpInputCancelDraggingCommandData_def
  BrowserCdpInputEmulateTouchFromMouseEventCommandData_def
  BrowserCdpInputSynthesizePinchGestureCommandData_def
  BrowserCdpInputSynthesizeScrollGestureCommandData_def
  BrowserCdpInputSynthesizeTapGestureCommandData_def
  BrowserCdpDomSetFileInputFilesCommandData_def BrowserCdpDomFocusCommandData_def
  BrowserCdpDomScrollIntoViewIfNeededCommandData_def BrowserCdpPageBringToFrontCommandData_def
  BrowserCdpPageCaptureScreenshotCommandData_def BrowserCdpPageCaptureSnapshotCommandData_def
  BrowserCdpPageHandleJavaScriptDialogCommandData_def BrowserCdpPageNavigateCommandData_def
  BrowserCdpPageNavigateToHistoryEntryCommandData_def BrowserCdpPageReloadCommandData_def
  BrowserCdpPagePrintToPdfCommandData_def BrowserCdpPageStartScreencastCommandData_def
  BrowserCdpPageStopScreencastCommandData_def BrowserCdpPageStopLoadingCommandData_def
  BrowserCdpPageCloseCommandData_def BrowserCdpPageSetWebLifecycleStateCommandData_def
  BrowserCdpTargetActivateTargetCommandData_def BrowserCdpTargetCloseTargetCommandData_def
  BrowserCdpTargetCreateTargetCommandData_def
  BrowserCdpTargetCreateBrowserContextCommandData_def
  BrowserCdpTargetDisposeBrowserContextCommandData_def
  BrowserCdpTargetOpenDevToolsCommandData_def BrowserCdpBrowserCancelDownloadCommandData_def
  BrowserCdpBrowserCloseCommandData_def BrowserCdpBrowserSetWindowBoundsCommandData_def
  BrowserCdpBrowserSetContentsSizeCommandData_def BrowserCdpAutofillTriggerCommandData_def

lemma schemas_method: "list_all (\<lambda>(m, sch). (''method'', KEnum [m], True) \<in> set sch) payload_schemas"
  by (simp add: payload_schemas_def schema_defs)

lemma schemas_distinct: "list_all (\<lambda>(m, sch). distinct (map fst sch)) payload_schemas"
  by (simp add: payload_schemas_def schema_defs)

lemma schemas_small: "list_all (\<lambda>(m, sch). schema_bound sch \<le> max_payload) payload_schemas"
  by (simp add: payload_schemas_def schema_defs schema_bound_def max_payload_def maxOpaqueIDBytes_def
      vocabulary_defs BrowserCdpDragMimeCategory_def BrowserCdpAutofillMode_def)

lemma methods_known: "list_all (\<lambda>(m, sch). m \<in> set BrowserCdpCommandMethod) payload_schemas"
  by (simp add: payload_schemas_def BrowserCdpCommandMethod_def)

lemma map_of_all: "list_all (\<lambda>(k, v). P k v) xs \<Longrightarrow> map_of xs k = Some v \<Longrightarrow> P k v"
  by (auto simp: list_all_iff dest!: map_of_SomeD)

section \<open>Payloads fit their schemas\<close>

lemma fits_cases:
  assumes "fits ((name, kind, required) # sch) ms"
  obtains "\<not> required" "fits sch ms"
  | v ms' where "ms = (name, v) # ms'" "has_kind kind v" "fits sch ms'"
  using assms by (auto simp: fits.simps split: list.splits)

lemma fits_subset: "fits sch ms \<Longrightarrow> set (map fst ms) \<subseteq> set (map fst sch)"
proof (induction sch arbitrary: ms)
  case (Cons e sch)
  obtain name kind required where e: "e = (name, kind, required)" by (cases e)
  have "fits ((name, kind, required) # sch) ms" using Cons.prems by (simp add: e)
  then show ?case
  proof (rule fits_cases)
    assume "fits sch ms"
    then show ?thesis using Cons.IH[of ms] by auto
  next
    fix v ms' assume m: "ms = (name, v) # ms'" "fits sch ms'"
    then show ?thesis using Cons.IH[of ms'] by (auto simp: e)
  qed
qed (simp add: fits.simps)

lemma fits_distinct: "fits sch ms \<Longrightarrow> distinct (map fst sch) \<Longrightarrow> distinct (map fst ms)"
proof (induction sch arbitrary: ms)
  case (Cons e sch)
  obtain name kind required where e: "e = (name, kind, required)" by (cases e)
  have "fits ((name, kind, required) # sch) ms" using Cons.prems(1) by (simp add: e)
  then show ?case
  proof (rule fits_cases)
    assume "fits sch ms"
    then show ?thesis using Cons.IH[of ms] Cons.prems(2) by simp
  next
    fix v ms' assume m: "ms = (name, v) # ms'" "fits sch ms'"
    then show ?thesis using Cons.IH[of ms'] Cons.prems(2) fits_subset[OF m(2)] by (auto simp: e)
  qed
qed (simp add: fits.simps)

lemma fits_required_member:
  "fits sch ms \<Longrightarrow> (k, kind, True) \<in> set sch \<Longrightarrow> distinct (map fst sch)
   \<Longrightarrow> \<exists>v. map_of ms k = Some v \<and> has_kind kind v"
proof (induction sch arbitrary: ms)
  case (Cons e sch)
  obtain name kind' required where e: "e = (name, kind', required)" by (cases e)
  consider (here) "k = name" "kind' = kind" "required" | (later) "k \<noteq> name" "(k, kind, True) \<in> set sch"
    using Cons.prems(2,3) by (force simp: e)
  note choice = this
  have f: "fits ((name, kind', required) # sch) ms" using Cons.prems(1) by (simp add: e)
  have d: "distinct (map fst sch)" using Cons.prems(3) by simp
  from choice show ?case
  proof cases
    case here
    from f show ?thesis by (rule fits_cases) (use here in simp_all)
  next
    case later
    from f show ?thesis by (rule fits_cases) (use later Cons.IH[OF _ later(2) d] in simp_all)
  qed
qed simp

lemma cdpCommandEvent_cases:
  assumes "cdpCommandEvent render authority_ok msg ts connectionID m = Some ev"
  obtains sanitize j cmd ms sch where
    "map_of (sanitizers authority_ok) m = Some sanitize" "msg = Json j"
    "decode_struct cdpCommand_fields j (zero_cdpCommand connectionID) = Some cmd"
    "sanitize cmd = Some ms" "ev_Data ev = render (JObject ms)" "ev_Truncated ev = False"
    "map_of payload_schemas m = Some sch" "fits sch ms"
proof -
  obtain sanitize j cmd ms where e: "map_of (sanitizers authority_ok) m = Some sanitize" "msg = Json j"
      "decode_struct cdpCommand_fields j (zero_cdpCommand connectionID) = Some cmd"
      "sanitize cmd = Some ms" "ev_Data ev = render (JObject ms)" "ev_Truncated ev = False"
    using assms by (auto simp: cdpCommandEvent_def split: option.splits frame_text.splits)
  moreover obtain sch where "map_of payload_schemas m = Some sch" "fits sch ms"
    using all3_map_of[OF all_conform e(1)] e(4) by (auto simp: conforms_def)
  ultimately show ?thesis using that by blast
qed

text \<open>A typed password, as it arrives and as it is reported.\<close>

definition typed_frame :: json where
  "typed_frame = JObject [(''id'', jint 5), (''method'', JString ''Input.insertText''),
     (''params'', JObject [(''text'', JString ''hunter2'')])]"

lemma typed_event:
  "cdpCommandEvent render authority_ok (Json typed_frame) 9 ''c1'' ''Input.insertText'' =
   Some \<lparr>ev_Ts = 9, ev_Type = ''cdp_command'', ev_Category = Control,
     ev_Source = \<lparr>src_Event = None, src_Kind = ''kernel_api'', src_Metadata = None\<rparr>,
     ev_Data = render (JObject [(''command_id'', jint 5), (''connection_id'', JString ''c1''),
       (''method'', JString ''Input.insertText''), (''text_length'', jint 7)]), ev_Truncated = False\<rparr>"
proof -
  have s: "map_of (sanitizers authority_ok) ''Input.insertText'' = Some sanitizeInputInsertText"
    by (simp add: sanitizers_def)
  have d: "decode_struct cdpCommand_fields typed_frame (zero_cdpCommand ''c1'') =
      Some \<lparr>cmd_ID = Some 5, cmd_Method = ''Input.insertText'', cmd_SessionID = [],
        cmd_Params = Some (JObject [(''text'', JString ''hunter2'')]), cmd_connectionID = ''c1''\<rparr>"
    by (simp add: typed_frame_def cdpCommand_fields_def zero_cdpCommand_def field_defs names_match_def
        upper_def byte_def int64_ok_def)
  have c: "rune_count ''hunter2'' = 7" "jstr ''c1'' = JString ''c1''" by code_simp+
  show ?thesis
    by (simp add: cdpCommandEvent_def s d sanitizeInputInsertText_def decodeParams_def c
        inputInsertTextParams_fields_def zero_inputInsertTextParams_def field_defs dataInputInsertText_def
        opt_member_def connID_def sessionID_def clipIDPtr_def clipID_def maxOpaqueIDBytes_def)
qed

text \<open>
  C28. Every reported payload is an instance of the schema of its method: its members are members of
  the generated struct in their order, each at most once and of its kind, enumerations hold only
  values of the schema, texts are short, every required member is there, the method is one the API
  documents and is named by the payload.
\<close>

theorem cdp_payload_fits_schema:
  assumes "cdpCommandEvent render authority_ok msg ts connectionID m = Some ev"
  shows "\<exists>sch ms. map_of payload_schemas m = Some sch \<and> ev_Data ev = render (JObject ms) \<and> fits sch ms \<and>
    distinct (map fst ms) \<and> map_of ms ''method'' = Some (JString m) \<and> m \<in> set BrowserCdpCommandMethod"
proof -
  obtain ms sch where e: "ev_Data ev = render (JObject ms)" "map_of payload_schemas m = Some sch" "fits sch ms"
    using assms by (rule cdpCommandEvent_cases)
  note sane = map_of_all[OF schemas_method e(2)] map_of_all[OF schemas_distinct e(2)] map_of_all[OF methods_known e(2)]
  obtain v where "map_of ms ''method'' = Some v" "has_kind (KEnum [m]) v"
    using fits_required_member[OF e(3) sane(1,2)] by blast
  then have "map_of ms ''method'' = Some (JString m)" by (cases v) (auto simp: has_kind.simps)
  with e sane(3) fits_distinct[OF e(3) sane(2)] show ?thesis by blast
qed

lemma cdp_payload_fits_schema_witness:
  "\<exists>sch ms. map_of payload_schemas ''Input.insertText'' = Some sch \<and> fits sch ms \<and>
     map_of ms ''method'' = Some (JString ''Input.insertText'')"
  using cdp_payload_fits_schema[OF typed_event] by blast

section \<open>Payloads are small\<close>

lemma sum_list_mono_set:
  assumes "distinct js" "set js \<subseteq> f ` set vs" "\<And>v. g (f v) \<le> h v"
  shows "(\<Sum>j\<leftarrow>js. g j) \<le> (\<Sum>v\<leftarrow>vs. h v :: nat)"
proof -
  have "(\<Sum>j\<leftarrow>js. g j) = (\<Sum>j\<in>set js. g j)" using assms(1) by (rule sum_list_distinct_conv_sum_set)
  also have "\<dots> \<le> (\<Sum>j\<in>f ` set vs. g j)" by (rule sum_mono2) (use assms(2) in auto)
  also have "\<dots> \<le> (\<Sum>v\<in>set vs. g (f v))" using sum_image_le[of "set vs" g f] by (simp add: comp_def)
  also have "\<dots> \<le> (\<Sum>v\<in>set vs. h v)" by (rule sum_mono) (rule assms(3))
  also have "\<dots> \<le> (\<Sum>v\<leftarrow>vs. h v)"
  proof (induction vs)
    case (Cons v vs)
    then show ?case by (cases "v \<in> set vs") (auto simp: insert_absorb)
  qed simp
  finally show ?thesis .
qed

lemma kind_bounded: "has_kind kind v \<Longrightarrow> text_bound v \<le> kind_bound kind"
proof (cases kind)
  case (KEnum vs)
  assume "has_kind kind v"
  then obtain s where s: "v = JString s" "s \<in> set vs" unfolding KEnum by (cases v) (auto simp: has_kind.simps)
  have "6 * length s \<le> (\<Sum>v\<leftarrow>vs. 6 * length v)" by (rule member_le_sum_list) (use s in auto)
  with s show ?thesis by (simp add: KEnum)
next
  case (KEnums vs)
  assume "has_kind kind v"
  then obtain js where js: "v = JArray js" "distinct js" "\<forall>j \<in> set js. \<exists>v \<in> set vs. j = JString v"
    unfolding KEnums by (cases v) (auto simp: has_kind.simps)
  have "(\<Sum>j\<leftarrow>js. text_bound j + 1) \<le> (\<Sum>v\<leftarrow>vs. 3 + 6 * length v)"
    by (rule sum_list_mono_set[where f = JString]) (use js in auto)
  then show ?thesis using js(1) by (simp add: KEnums)
qed (cases v; simp add: has_kind.simps maxOpaqueIDBytes_def)+

lemma fits_bounded: "fits sch ms \<Longrightarrow> text_bound (JObject ms) \<le> schema_bound sch"
proof (induction sch arbitrary: ms)
  case (Cons e sch)
  obtain name kind required where e: "e = (name, kind, required)" by (cases e)
  have "fits ((name, kind, required) # sch) ms" using Cons.prems by (simp add: e)
  then show ?case
  proof (rule fits_cases)
    assume "fits sch ms"
    with Cons.IH[of ms] show ?thesis by (simp add: e schema_bound_def)
  next
    fix v ms' assume m: "ms = (name, v) # ms'" "has_kind kind v" "fits sch ms'"
    with Cons.IH[OF m(3)] kind_bounded[OF m(2)] show ?thesis by (simp add: e m(1) schema_bound_def)
  qed
qed (simp add: fits.simps schema_bound_def)

text \<open>
  C29. A command event is never too large. When rendering keeps to the size of the value (a number
  takes at most 32 bytes, a byte of a string at most 6) the data of an event has at most
  20,000 bytes whatever the client sent, so the stream never replaces it by \<open>null\<close>: an envelope adds
  far less than what is left of the limit.
\<close>

theorem cdp_event_not_truncated:
  assumes "cdpCommandEvent render authority_ok msg ts connectionID m = Some ev"
    and "\<And>j. length (render j) \<le> text_bound j"
    and "\<And>d. marshal \<lparr>env_Seq = seq, env_Event = ev\<rparr> = Some d \<Longrightarrow> length d \<le> length (ev_Data ev) + 10000"
  shows "length (ev_Data ev) \<le> max_payload \<and>
    fst (truncateIfNeeded marshal \<lparr>env_Seq = seq, env_Event = ev\<rparr>) = \<lparr>env_Seq = seq, env_Event = ev\<rparr> \<and>
    \<not> ev_Truncated ev"
proof -
  obtain ms sch where e: "ev_Data ev = render (JObject ms)" "ev_Truncated ev = False"
      "map_of payload_schemas m = Some sch" "fits sch ms"
    using assms(1) by (rule cdpCommandEvent_cases)
  have "length (ev_Data ev) \<le> schema_bound sch"
    using assms(2)[of "JObject ms"] fits_bounded[OF e(4)] unfolding e(1) by (rule le_trans)
  also have "\<dots> \<le> max_payload" by (rule map_of_all[OF schemas_small e(3)])
  finally have small: "length (ev_Data ev) \<le> max_payload" .
  then have "length d \<le> maxS2RecordBytes" if "marshal \<lparr>env_Seq = seq, env_Event = ev\<rparr> = Some d" for d
    using assms(3)[OF that] by (simp add: max_payload_def maxS2RecordBytes_def)
  then have "fst (truncateIfNeeded marshal \<lparr>env_Seq = seq, env_Event = ev\<rparr>) = \<lparr>env_Seq = seq, env_Event = ev\<rparr>"
    by (simp add: truncateIfNeeded_def split: option.split)
  with small e(2) show ?thesis by blast
qed

lemma cdp_event_not_truncated_witness:
  "\<exists>ev. cdpCommandEvent (\<lambda>_. ''{}'') (\<lambda>_. True) (Json typed_frame) 9 ''c1'' ''Input.insertText'' = Some ev \<and>
     fst (truncateIfNeeded (\<lambda>env. Some (ev_Data (env_Event env) @ ''  '')) \<lparr>env_Seq = 1, env_Event = ev\<rparr>) =
       \<lparr>env_Seq = 1, env_Event = ev\<rparr>"
proof -
  have b: "length ''{}'' \<le> text_bound j" for j by (cases j) simp_all
  show ?thesis
    using cdp_event_not_truncated[OF typed_event[of "\<lambda>_. ''{}''" "\<lambda>_. True"] b,
        of "\<lambda>env. Some (ev_Data (env_Event env) @ ''  '')" 1]
    unfolding typed_event by simp
qed

section \<open>Secrets stay\<close>

text \<open>
  The frame without what must not show: of the envelope only the four members the event is made of
  stay, of the arguments only those the command's struct names, and of these the redacted ones are
  replaced by what may be seen of them.
\<close>

definition blank_frame :: "(string \<Rightarrow> bool) \<Rightarrow> string \<Rightarrow> json \<Rightarrow> json" where
  "blank_frame authority_ok m j =
     (case (map_of commandParams m, map_of (redactions_of authority_ok) m) of
        (Some names, Some vs) \<Rightarrow>
          blank_struct (map fst cdpCommand_fields) [(''params'', blank_struct names vs)] j
      | _ \<Rightarrow> j)"

lemma tracks_command:
  "tracks (\<lambda>cmd. cmd\<lparr>cmd_Params := map_option (blank_struct names vs) (cmd_Params cmd)\<rparr>)
     [(''params'', blank_struct names vs)] cdpCommand_fields"
  by (auto simp: tracks_def redact_def cdpCommand_fields_def field_defs option.map_comp comp_def
      intro!: option.map_cong)

lemma envelope_method:
  "find_field probe_fields k = Some d
   \<Longrightarrow> find_name (map fst cdpCommand_fields) k = Some ''method'' \<and> d = plain_field as_string probe_Method_update"
proof -
  assume "find_field probe_fields k = Some d"
  then have k: "fold_name ''method'' = fold_name k" and d: "d = plain_field as_string probe_Method_update"
    by (auto simp: probe_fields_def names_match_def split: if_splits)
  have "fold_name ''id'' \<noteq> fold_name ''method''" by code_simp
  with k d show ?thesis by (simp add: cdpCommand_fields_def names_match_def)
qed

lemma probe_blank:
  "decode_members probe_fields
     (blank_members (map fst cdpCommand_fields) [(''params'', f)] ms) s = decode_members probe_fields ms s"
proof (induction ms arbitrary: s)
  case (Cons kv ms)
  obtain k v where kv: "kv = (k, v)" by (cases kv)
  show ?case
  proof (cases "find_field probe_fields k")
    case None
    with Cons show ?thesis by (simp add: kv blank_members_def split: option.split)
  next
    case (Some d)
    with envelope_method[OF Some] Cons show ?thesis
      by (simp add: kv blank_members_def redact_def split: option.split)
  qed
qed (simp add: blank_members_def)

text \<open>
  C30. An event shows no more of a frame than its blanking: members the code does not name never
  reach it, of typed and composed text, dialog answers and scripts only the number of runes, of keys
  only those that type nothing, of URLs the scheme, of referrers, templates, page ranges and proxies
  whether they are given, of files, editing commands and origins how many, of drag items the kinds,
  of a card that it was filled and of an address the number of its fields. Two frames that blank to
  the same one give the same event. Whether a frame is reported is decided alike.
\<close>

theorem cdp_event_hides_secrets:
  "cdpCommandEvent render authority_ok (Json (blank_frame authority_ok m j)) ts connectionID m =
     cdpCommandEvent render authority_ok (Json j) ts connectionID m \<and>
   supportedMethod authority_ok (Json (blank_frame authority_ok m j)) = supportedMethod authority_ok (Json j)"
proof (cases "(map_of commandParams m, map_of (redactions_of authority_ok) m)")
  case (Pair names_opt vs_opt)
  show ?thesis
  proof (cases "\<exists>names vs. names_opt = Some names \<and> vs_opt = Some vs")
    case True
    then obtain names vs where v: "map_of commandParams m = Some names" "map_of (redactions_of authority_ok) m = Some vs"
      using Pair by auto
    let ?h = "\<lambda>cmd. cmd\<lparr>cmd_Params := map_option (blank_struct names vs) (cmd_Params cmd)\<rparr>"
    have b: "blank_frame authority_ok m j =
        blank_struct (map fst cdpCommand_fields) [(''params'', blank_struct names vs)] j"
      by (simp add: blank_frame_def v)
    have zero: "?h (zero_cdpCommand connectionID) = zero_cdpCommand connectionID"
      by (simp add: zero_cdpCommand_def)
    have decoded: "decode_struct cdpCommand_fields (blank_frame authority_ok m j) (zero_cdpCommand connectionID) =
        map_option ?h (decode_struct cdpCommand_fields j (zero_cdpCommand connectionID))"
      using decode_blank[OF tracks_command, of names vs j "zero_cdpCommand connectionID"] unfolding zero b .
    have same: "sanitize (?h cmd) = sanitize cmd" if "map_of (sanitizers authority_ok) m = Some sanitize" for sanitize cmd
      using all3_map_of[OF all_blinded that] v by (auto simp: blinds_def blind_def)
    have probe: "probe_method (blank_frame authority_ok m j) = probe_method j"
      unfolding b probe_method_def by (cases j) (simp_all add: probe_blank)
    show ?thesis
      by (simp add: cdpCommandEvent_def supportedMethod_def probe decoded same split: option.split)
  next
    case False
    then have "blank_frame authority_ok m j = j" using Pair
      by (auto simp: blank_frame_def split: option.splits)
    then show ?thesis by simp
  qed
qed

end
