(* ===== verification/CdpObserver.thy ===== *)
theory CdpObserver
  imports CdpParams "HOL-Library.Sublist"
begin

text \<open>
  The observer of the DevTools proxy (\<open>lib/devtoolsproxy/cdpobserver.go\<close>): the pump hands it each
  frame Chromium accepted, a bounded queue carries the supported commands to a worker, and the worker
  turns them into events. The pump, the worker and the end of the connection are interleaved steps;
  shown is that the queue stays within both its bounds and that every command is exactly one event
  or one drop.
\<close>

section \<open>The observer\<close>

definition cdpObserverQueueDepth :: nat where
  "cdpObserverQueueDepth = 256"

definition cdpObserverMaxQueuedBytes :: int where
  "cdpObserverMaxQueuedBytes = 8 * 2 ^ 20"

text \<open>A message is what it parses to and its length in bytes.\<close>

record observedFrame =
  of_msg :: frame_text
  of_size :: nat
  of_ts :: int
  of_method :: string

record cdpObserver =
  o_frames :: "observedFrame list"
  o_drained :: bool
  o_queuedBytes :: int
  o_droppedQueued :: int
  o_droppedPanicked :: int
  o_droppedMalformed :: int
  o_excluded :: int

definition newCdpObserver :: cdpObserver where
  "newCdpObserver =
     \<lparr>o_frames = [], o_drained = False, o_queuedBytes = 0, o_droppedQueued = 0, o_droppedPanicked = 0,
      o_droppedMalformed = 0, o_excluded = 0\<rparr>"

text \<open>
  \<open>Observe\<close> up to the \<open>select\<close>: what is to be queued, if anything. \<open>enabled\<close> and \<open>excluded\<close> are the
  answers of the two callbacks.
\<close>

definition Observe_admit ::
  "(string \<Rightarrow> bool) \<Rightarrow> bool \<Rightarrow> string set \<Rightarrow> frame_text \<Rightarrow> nat \<Rightarrow> int \<Rightarrow> cdpObserver
     \<Rightarrow> observedFrame option \<times> cdpObserver" where
  "Observe_admit authority_ok enabled excluded msg len ts ob =
     (if \<not> enabled then (None, ob)
      else case supportedMethod authority_ok msg of
        None \<Rightarrow> (None, ob)
      | Some method \<Rightarrow>
          if method \<in> excluded then (None, ob\<lparr>o_excluded := o_excluded ob + 1\<rparr>)
          else if o_queuedBytes ob + int len > cdpObserverMaxQueuedBytes
          then (None, ob\<lparr>o_droppedQueued := o_droppedQueued ob + 1\<rparr>)
          else (Some \<lparr>of_msg = msg, of_size = len, of_ts = ts, of_method = method\<rparr>,
                ob\<lparr>o_queuedBytes := o_queuedBytes ob + int len\<rparr>))"

text \<open>The \<open>select\<close> of \<open>Observe\<close>: the channel takes the frame or is full.\<close>

definition Observe_send :: "observedFrame \<Rightarrow> cdpObserver \<Rightarrow> cdpObserver" where
  "Observe_send f ob =
     (if length (o_frames ob) < cdpObserverQueueDepth then ob\<lparr>o_frames := o_frames ob @ [f]\<rparr>
      else ob\<lparr>o_queuedBytes := o_queuedBytes ob - int (of_size f), o_droppedQueued := o_droppedQueued ob + 1\<rparr>)"

definition Excluded :: "cdpObserver \<Rightarrow> int" where
  "Excluded ob = o_excluded ob"

definition Dropped_frames :: "cdpObserver \<Rightarrow> int" where
  "Dropped_frames ob =
     o_droppedQueued ob + o_droppedPanicked ob + o_droppedMalformed ob +
     (if o_drained ob then int (length (o_frames ob)) else 0)"

text \<open>
  \<open>handle\<close>: the event that is published, if one is. A panic of a sanitizer or of the publisher is
  counted instead.
\<close>

definition handle ::
  "(observedFrame \<Rightarrow> Event option) \<Rightarrow> bool \<Rightarrow> observedFrame \<Rightarrow> cdpObserver \<Rightarrow> Event option \<times> cdpObserver" where
  "handle event panics f ob =
     (let ob = ob\<lparr>o_queuedBytes := o_queuedBytes ob - int (of_size f)\<rparr> in
      if panics then (None, ob\<lparr>o_droppedPanicked := o_droppedPanicked ob + 1\<rparr>)
      else case event f of
        None \<Rightarrow> (None, ob\<lparr>o_droppedMalformed := o_droppedMalformed ob + 1\<rparr>)
      | Some ev \<Rightarrow> (Some ev, ob))"

definition frame_event ::
  "(json \<Rightarrow> string) \<Rightarrow> (string \<Rightarrow> bool) \<Rightarrow> string \<Rightarrow> observedFrame \<Rightarrow> Event option" where
  "frame_event render authority_ok connectionID f =
     cdpCommandEvent render authority_ok (of_msg f) (of_ts f) connectionID (of_method f)"

section \<open>Pump, worker and connection\<close>

text \<open>
  The worker waits for frames, empties the queue once the connection is done, and stops. \<open>oc_sending\<close>
  is the frame \<open>Observe\<close> is about to queue, \<open>oc_handling\<close> the one the worker has taken.
  \<open>oc_commands\<close> are the commands so far: enabled, supported and not excluded.
\<close>

datatype worker_state = Working | Draining | Stopped

record observed_connection =
  oc_observer :: cdpObserver
  oc_worker :: worker_state
  oc_sending :: "observedFrame option"
  oc_handling :: "observedFrame option"
  oc_published :: "Event list"
  oc_commands :: "observedFrame list"

definition new_connection :: observed_connection where
  "new_connection =
     \<lparr>oc_observer = newCdpObserver, oc_worker = Working, oc_sending = None, oc_handling = None,
      oc_published = [], oc_commands = []\<rparr>"

definition is_command ::
  "(string \<Rightarrow> bool) \<Rightarrow> bool \<Rightarrow> string set \<Rightarrow> frame_text \<Rightarrow> nat \<Rightarrow> int \<Rightarrow> observedFrame list" where
  "is_command authority_ok enabled excluded msg len ts =
     (case supportedMethod authority_ok msg of
        Some m \<Rightarrow> if enabled \<and> m \<notin> excluded
                  then [\<lparr>of_msg = msg, of_size = len, of_ts = ts, of_method = m\<rparr>] else []
      | None \<Rightarrow> [])"


inductive observer_step ::
  "(observedFrame \<Rightarrow> Event option) \<Rightarrow> (string \<Rightarrow> bool) \<Rightarrow> observed_connection \<Rightarrow> observed_connection \<Rightarrow> bool"
  for event authority_ok
where
  observe: "oc_sending c = None \<Longrightarrow>
    Observe_admit authority_ok enabled excluded msg len ts (oc_observer c) = (f, ob) \<Longrightarrow>
    observer_step event authority_ok c
      (c\<lparr>oc_observer := ob, oc_sending := f,
         oc_commands := oc_commands c @ is_command authority_ok enabled excluded msg len ts\<rparr>)"
| send: "oc_sending c = Some f \<Longrightarrow>
    observer_step event authority_ok c
      (c\<lparr>oc_observer := Observe_send f (oc_observer c), oc_sending := None\<rparr>)"
| take: "oc_worker c \<noteq> Stopped \<Longrightarrow> oc_handling c = None \<Longrightarrow> o_frames (oc_observer c) = f # fs \<Longrightarrow>
    observer_step event authority_ok c
      (c\<lparr>oc_observer := (oc_observer c)\<lparr>o_frames := fs\<rparr>, oc_handling := Some f\<rparr>)"
| handled: "oc_handling c = Some f \<Longrightarrow> handle event panics f (oc_observer c) = (ev, ob) \<Longrightarrow>
    observer_step event authority_ok c
      (c\<lparr>oc_observer := ob, oc_handling := None,
         oc_published := oc_published c @ (case ev of None \<Rightarrow> [] | Some e \<Rightarrow> [e])\<rparr>)"
| connection_done: "oc_worker c = Working \<Longrightarrow> oc_handling c = None \<Longrightarrow>
    observer_step event authority_ok c (c\<lparr>oc_worker := Draining\<rparr>)"
| stop: "oc_worker c = Draining \<Longrightarrow> oc_handling c = None \<Longrightarrow> o_frames (oc_observer c) = [] \<Longrightarrow>
    observer_step event authority_ok c
      (c\<lparr>oc_worker := Stopped, oc_observer := (oc_observer c)\<lparr>o_drained := True\<rparr>\<rparr>)"

section \<open>Accounting\<close>

text \<open>The frames between the pump and the stream, oldest first.\<close>

definition in_flight :: "observed_connection \<Rightarrow> observedFrame list" where
  "in_flight c =
     (case oc_handling c of None \<Rightarrow> [] | Some f \<Rightarrow> [f]) @ o_frames (oc_observer c) @
     (case oc_sending c of None \<Rightarrow> [] | Some f \<Rightarrow> [f])"

abbreviation counted_drops :: "cdpObserver \<Rightarrow> int" where
  "counted_drops ob \<equiv> o_droppedQueued ob + o_droppedPanicked ob + o_droppedMalformed ob"

definition books :: "observed_connection \<Rightarrow> bool" where
  "books c \<longleftrightarrow>
     o_queuedBytes (oc_observer c) = (\<Sum>f\<leftarrow>in_flight c. int (of_size f)) \<and>
     o_queuedBytes (oc_observer c) \<le> cdpObserverMaxQueuedBytes \<and>
     length (o_frames (oc_observer c)) \<le> cdpObserverQueueDepth \<and>
     int (length (oc_commands c)) =
       int (length (oc_published c)) + counted_drops (oc_observer c) + int (length (in_flight c)) \<and>
     (oc_worker c = Stopped \<longleftrightarrow> o_drained (oc_observer c)) \<and>
     (oc_worker c = Stopped \<longrightarrow> oc_handling c = None)"

definition ordered :: "(observedFrame \<Rightarrow> Event option) \<Rightarrow> observed_connection \<Rightarrow> bool" where
  "ordered event c \<longleftrightarrow>
     subseq (oc_published c @ List.map_filter event (in_flight c)) (List.map_filter event (oc_commands c))"

lemma books_new: "books new_connection"
  by (simp add: books_def new_connection_def newCdpObserver_def in_flight_def cdpObserverMaxQueuedBytes_def)

lemma ordered_new: "ordered event new_connection"
  by (simp add: ordered_def new_connection_def newCdpObserver_def in_flight_def map_filter_simps)

lemma size_sum_nonneg: "0 \<le> (\<Sum>f\<leftarrow>fs. int (of_size f))"
  by (induction fs) auto

lemma books_step: "observer_step event authority_ok c c' \<Longrightarrow> books c \<Longrightarrow> books c'"
proof (induction rule: observer_step.induct)
  case (observe c enabled excluded msg len ts f ob)
  then show ?case
    by (auto simp: books_def in_flight_def Observe_admit_def is_command_def Let_def
        split: option.splits if_splits)
next
  case (send c f)
  then show ?case
    by (auto simp: books_def in_flight_def Observe_send_def cdpObserverQueueDepth_def)
next
  case (take c f fs)
  then show ?case by (auto simp: books_def in_flight_def)
next
  case (handled c f panics ev ob)
  then show ?case
    by (auto simp: books_def in_flight_def handle_def Let_def split: option.splits if_splits)
next
  case (connection_done c)
  then show ?case by (auto simp: books_def in_flight_def)
next
  case (stop c)
  then show ?case by (auto simp: books_def in_flight_def)
qed

lemma map_filter_append: "List.map_filter f (xs @ ys) = List.map_filter f xs @ List.map_filter f ys"
  by (simp add: List.map_filter_def)

lemma subseq_extend: "subseq xs ys \<Longrightarrow> subseq us vs \<Longrightarrow> subseq (xs @ us) (ys @ vs)"
  by (rule list_emb_append_mono)

lemma ordered_step: "observer_step event authority_ok c c' \<Longrightarrow> ordered event c \<Longrightarrow> ordered event c'"
proof (induction rule: observer_step.induct)
  case (observe c enabled excluded msg len ts f ob)
  let ?new = "is_command authority_ok enabled excluded msg len ts"
  have fs: "o_frames ob = o_frames (oc_observer c)" and f: "f = None \<or> (\<exists>x. f = Some x \<and> ?new = [x])"
    using observe.hyps(2) by (auto simp: Observe_admit_def is_command_def Let_def split: option.splits if_splits)
  let ?c = "c\<lparr>oc_observer := ob, oc_sending := f, oc_commands := oc_commands c @ ?new\<rparr>"
  have "in_flight ?c = in_flight c @ (case f of None \<Rightarrow> [] | Some x \<Rightarrow> [x])"
    using fs observe.hyps(1) by (simp add: in_flight_def)
  moreover have "subseq (case f of None \<Rightarrow> [] | Some x \<Rightarrow> [x]) ?new" using f by auto
  then have "subseq (List.map_filter event (case f of None \<Rightarrow> [] | Some x \<Rightarrow> [x])) (List.map_filter event ?new)"
    using f by (auto simp: map_filter_simps)
  ultimately show ?case
    using observe.prems subseq_extend
    by (auto simp: ordered_def map_filter_append simp flip: append_assoc)
next
  case (send c f)
  let ?c = "c\<lparr>oc_observer := Observe_send f (oc_observer c), oc_sending := None\<rparr>"
  have "in_flight ?c = in_flight c \<or> in_flight ?c @ [f] = in_flight c"
    using send.hyps by (auto simp: in_flight_def Observe_send_def)
  then have "subseq (oc_published c @ List.map_filter event (in_flight ?c))
      (oc_published c @ List.map_filter event (in_flight c))"
    by (auto simp: map_filter_append dest!: sym[of _ "in_flight c"])
  with send.prems show ?case unfolding ordered_def by (auto intro: subseq_order.order_trans)
next
  case (take c f fs)
  then show ?case by (simp add: ordered_def in_flight_def)
next
  case (handled c f panics ev ob)
  let ?c = "c\<lparr>oc_observer := ob, oc_handling := None,
      oc_published := oc_published c @ (case ev of None \<Rightarrow> [] | Some e \<Rightarrow> [e])\<rparr>"
  have fl: "in_flight c = f # in_flight ?c" and ev: "ev = None \<or> ev = event f"
    using handled.hyps by (auto simp: in_flight_def handle_def Let_def split: option.splits if_splits)
  then have "subseq (case ev of None \<Rightarrow> [] | Some e \<Rightarrow> [e]) (List.map_filter event [f])"
    by (cases "event f") (auto simp: map_filter_simps)
  then have "subseq (oc_published c @ (case ev of None \<Rightarrow> [] | Some e \<Rightarrow> [e]) @ List.map_filter event (in_flight ?c))
      (oc_published c @ List.map_filter event [f] @ List.map_filter event (in_flight ?c))"
    by (intro subseq_extend) auto
  moreover have "List.map_filter event (in_flight c) = List.map_filter event [f] @ List.map_filter event (in_flight ?c)"
    unfolding fl map_filter_append[symmetric] by simp
  ultimately show ?case
    using handled.prems unfolding ordered_def by (auto intro: subseq_order.order_trans)
next
  case (connection_done c)
  then show ?case by (simp add: ordered_def in_flight_def)
next
  case (stop c)
  then show ?case by (simp add: ordered_def in_flight_def)
qed

lemma reachable_books:
  "(observer_step event authority_ok)\<^sup>*\<^sup>* new_connection c \<Longrightarrow> books c \<and> ordered event c"
  by (induction rule: rtranclp_induct) (auto intro: books_new ordered_new books_step ordered_step)

text \<open>
  C31. However the pump, the worker and the end of the connection interleave, what waits for
  classification stays within 256 frames and 8 MiB; the events published are events of commands, in
  the order the commands were forwarded; and once the worker has stopped and no frame is being
  queued, every command is counted once, as a published event or in \<open>Dropped\<close>.
\<close>

theorem every_command_published_or_dropped:
  assumes "(observer_step event authority_ok)\<^sup>*\<^sup>* new_connection c"
  shows "length (o_frames (oc_observer c)) \<le> cdpObserverQueueDepth \<and>
    0 \<le> o_queuedBytes (oc_observer c) \<and> o_queuedBytes (oc_observer c) \<le> cdpObserverMaxQueuedBytes \<and>
    subseq (oc_published c) (List.map_filter event (oc_commands c)) \<and>
    (o_drained (oc_observer c) \<and> oc_sending c = None \<longrightarrow>
       int (length (oc_commands c)) = int (length (oc_published c)) + Dropped_frames (oc_observer c))"
proof -
  note inv = reachable_books[OF assms]
  have "length (o_frames (oc_observer c)) \<le> cdpObserverQueueDepth" using inv by (simp add: books_def)
  moreover have "0 \<le> o_queuedBytes (oc_observer c)" "o_queuedBytes (oc_observer c) \<le> cdpObserverMaxQueuedBytes"
    using inv size_sum_nonneg[of "in_flight c"] by (simp_all add: books_def)
  moreover have "subseq (oc_published c) (List.map_filter event (oc_commands c))"
    using inv prefix_imp_subseq[of "oc_published c" "oc_published c @ List.map_filter event (in_flight c)"]
    unfolding ordered_def by (auto intro: subseq_order.order_trans)
  moreover have "int (length (oc_commands c)) = int (length (oc_published c)) + Dropped_frames (oc_observer c)"
    if "o_drained (oc_observer c)" "oc_sending c = None"
    using inv that by (auto simp: books_def Dropped_frames_def in_flight_def)
  ultimately show ?thesis by blast
qed

text \<open>A command is observed, queued, taken, published; the connection ends; a late one is dropped.\<close>

lemma every_command_published_or_dropped_witness:
  "\<exists>c. (observer_step (frame_event (\<lambda>_. ''{}'') (\<lambda>_. True) ''c1'') (\<lambda>_. True))\<^sup>*\<^sup>* new_connection c \<and>
     o_drained (oc_observer c) \<and> oc_sending c = None \<and> length (oc_published c) = 1 \<and>
     length (oc_commands c) = 1 \<and> Dropped_frames (oc_observer c) = 0"
proof -
  let ?ev = "frame_event (\<lambda>_. ''{}'') (\<lambda>_. True) ''c1''"
  let ?step = "observer_step ?ev (\<lambda>_. True)"
  define f where "f = \<lparr>of_msg = Json typed_frame, of_size = 60, of_ts = 9, of_method = ''Input.insertText''\<rparr>"
  have m: "supportedMethod (\<lambda>_. True) (Json typed_frame) = Some ''Input.insertText''"
    by (simp add: supportedMethod_def probe_method_def probe_fields_def typed_frame_def field_defs names_match_def
        upper_def byte_def sanitizers_def)
  obtain ev where ev: "?ev f = Some ev" by (simp add: frame_event_def f_def typed_event)
  define c1 where "c1 = new_connection\<lparr>oc_observer := newCdpObserver\<lparr>o_queuedBytes := 60\<rparr>, oc_sending := Some f, oc_commands := [f]\<rparr>"
  define c2 where "c2 = c1\<lparr>oc_observer := newCdpObserver\<lparr>o_queuedBytes := 60, o_frames := [f]\<rparr>, oc_sending := None\<rparr>"
  define c3 where "c3 = c2\<lparr>oc_observer := newCdpObserver\<lparr>o_queuedBytes := 60\<rparr>, oc_handling := Some f\<rparr>"
  define c4 where "c4 = c3\<lparr>oc_observer := newCdpObserver, oc_handling := None, oc_published := [ev]\<rparr>"
  define c5 where "c5 = c4\<lparr>oc_worker := Draining\<rparr>"
  define c6 where "c6 = c5\<lparr>oc_worker := Stopped, oc_observer := newCdpObserver\<lparr>o_drained := True\<rparr>\<rparr>"
  have s1: "?step new_connection c1"
    using observer_step.observe[of new_connection "\<lambda>_. True" True "{}" "Json typed_frame" 60 9 "Some f" "newCdpObserver\<lparr>o_queuedBytes := 60\<rparr>" ?ev]
    by (simp add: c1_def new_connection_def Observe_admit_def is_command_def m f_def newCdpObserver_def cdpObserverMaxQueuedBytes_def)
  have s2: "?step c1 c2"
    using observer_step.send[of c1 f ?ev "\<lambda>_. True"]
    by (simp add: c2_def c1_def new_connection_def Observe_send_def newCdpObserver_def cdpObserverQueueDepth_def)
  have s3: "?step c2 c3"
    using observer_step.take[of c2 f "[]" ?ev "\<lambda>_. True"]
    by (simp add: c3_def c2_def c1_def new_connection_def newCdpObserver_def)
  have s4: "?step c3 c4"
    using observer_step.handled[of c3 f ?ev False "Some ev" newCdpObserver "\<lambda>_. True"]
    by (simp add: c4_def c3_def c2_def c1_def new_connection_def newCdpObserver_def handle_def ev) (simp add: f_def)
  have s5: "?step c4 c5"
    using observer_step.connection_done[of c4 ?ev "\<lambda>_. True"]
    by (simp add: c5_def c4_def c3_def c2_def c1_def new_connection_def)
  have s6: "?step c5 c6"
    using observer_step.stop[of c5 ?ev "\<lambda>_. True"]
    by (simp add: c6_def c5_def c4_def c3_def c2_def c1_def new_connection_def newCdpObserver_def)
  have r: "?step\<^sup>*\<^sup>* new_connection c6"
    using s1 s2 s3 s4 s5 s6 by (meson rtranclp.rtrancl_refl rtranclp.rtrancl_into_rtrancl)
  have "int (length (oc_commands c6)) = int (length (oc_published c6)) + Dropped_frames (oc_observer c6)"
    using every_command_published_or_dropped[OF r]
    by (simp add: c6_def c5_def c4_def c3_def c2_def c1_def new_connection_def)
  then show ?thesis using r
    by (intro exI[of _ c6]) (simp add: c6_def c5_def c4_def c3_def c2_def c1_def new_connection_def)
qed

end
