(* ===== verification/ComputedState.thy ===== *)
theory ComputedState
  imports GoJson Events "HOL-Library.Multiset"
begin

text \<open>
  The computed page events of the CDP monitor (\<open>lib/cdpmonitor/computed.go\<close>): network idle, layout
  settled and navigation settled. The handlers of CDP messages and the functions of the two debounce
  timers run in any order; a timer function that was started cannot be stopped any more, and events
  are published after the lock is released.
\<close>

section \<open>Navigations\<close>

record navContext =
  nc_sessionID :: string
  nc_targetID :: string
  nc_targetType :: string
  nc_frameID :: string
  nc_loaderID :: string
  nc_url :: string

definition zero_navContext :: navContext where
  "zero_navContext = \<lparr>nc_sessionID = [], nc_targetID = [], nc_targetType = [], nc_frameID = [],
     nc_loaderID = [], nc_url = []\<rparr>"

text \<open>
  \<open>targetMetadata\<close>. \<open>extension_host u\<close> is the host of \<open>u\<close> when \<open>url.Parse\<close> accepts it as a
  \<open>chrome-extension\<close> URL with a host, \<open>bundled\<close> the table of the bundled extensions, whose ids are
  hashes of their paths.
\<close>

type_synonym meta = "(string \<times> string) list"

definition targetMetadata ::
  "(string \<Rightarrow> string option) \<Rightarrow> (string \<Rightarrow> bool) \<Rightarrow> string \<Rightarrow> string \<Rightarrow> string \<Rightarrow> meta" where
  "targetMetadata extension_host bundled targetID targetType url =
     (let metadata = put ''target_type'' targetType (put ''target_id'' targetID []) in
      case extension_host url of
        None \<Rightarrow> metadata
      | Some host \<Rightarrow>
          put ''kernel_extension'' (if bundled host then ''true'' else ''false'') (put ''extension_id'' host metadata))"

definition nav_meta :: "(string \<Rightarrow> string option) \<Rightarrow> (string \<Rightarrow> bool) \<Rightarrow> navContext \<Rightarrow> meta" where
  "nav_meta extension_host bundled ctx =
     put ''cdp_session_id'' (nc_sessionID ctx)
       (targetMetadata extension_host bundled (nc_targetID ctx) (nc_targetType ctx) (nc_url ctx))"

definition marshalNavEventContext :: "navContext \<Rightarrow> int \<Rightarrow> json" where
  "marshalNavEventContext ctx navSeq =
     JObject [(''frame_id'', jstr (nc_frameID ctx)), (''loader_id'', jstr (nc_loaderID ctx)),
       (''nav_seq'', JNumber (IntLit navSeq)), (''session_id'', jstr (nc_sessionID ctx)),
       (''target_id'', jstr (nc_targetID ctx)), (''target_type'', jstr (nc_targetType ctx)),
       (''url'', jstr (nc_url ctx))]"

text \<open>The payload of a navigation is a map, which \<open>json.Marshal\<close> writes in key order.\<close>

definition nav_data :: "navContext \<Rightarrow> int \<Rightarrow> members" where
  "nav_data ctx navSeq =
     put_all [(''session_id'', jstr (nc_sessionID ctx)), (''target_id'', jstr (nc_targetID ctx)),
       (''target_type'', jstr (nc_targetType ctx)), (''frame_id'', jstr (nc_frameID ctx)),
       (''loader_id'', jstr (nc_loaderID ctx)), (''url'', jstr (nc_url ctx)),
       (''nav_seq'', JNumber (IntLit navSeq))] []"

section \<open>State and timers\<close>

record computedState =
  cs_dead :: bool
  cs_navSeq :: int
  cs_navCtx :: navContext
  cs_navData :: members
  cs_navMeta :: meta
  cs_netPending :: int
  cs_netTimer :: "nat option"
  cs_netFired :: bool
  cs_layoutTimer :: "nat option"
  cs_layoutFired :: bool
  cs_pageLoadSeen :: bool
  cs_navDOMLoaded :: bool
  cs_navLayoutSettled :: bool
  cs_navFired :: bool

definition newComputedState :: computedState where
  "newComputedState =
     \<lparr>cs_dead = False, cs_navSeq = 0, cs_navCtx = zero_navContext, cs_navData = [], cs_navMeta = [],
      cs_netPending = 0, cs_netTimer = None, cs_netFired = False, cs_layoutTimer = None,
      cs_layoutFired = False, cs_pageLoadSeen = False, cs_navDOMLoaded = False,
      cs_navLayoutSettled = False, cs_navFired = False\<rparr>"

record nav_event =
  ne_Type :: string
  ne_Category :: category
  ne_Metadata :: meta
  ne_Data :: json
  ne_seq :: int

text \<open>
  A timer function with what it captured, under the number of its timer. Those of armed timers wait,
  the others were started and will run. \<open>rt_outbox\<close> holds the events decided under the lock, one list
  for each goroutine that is to publish them. \<open>rt_decided\<close> and \<open>rt_navs\<close> record all events decided
  and all navigations so far.
\<close>

record runtime =
  rt_state :: computedState
  rt_netArmed :: "(nat \<times> int \<times> meta) list"
  rt_netRunning :: "(nat \<times> int \<times> meta) list"
  rt_layoutArmed :: "(nat \<times> int) list"
  rt_layoutRunning :: "(nat \<times> int) list"
  rt_nextTimer :: nat
  rt_outbox :: "nav_event list list"
  rt_published :: "nav_event list"
  rt_decided :: "nav_event list"
  rt_navs :: "navContext list"

definition new_runtime :: runtime where
  "new_runtime =
     \<lparr>rt_state = newComputedState, rt_netArmed = [], rt_netRunning = [], rt_layoutArmed = [],
      rt_layoutRunning = [], rt_nextTimer = 0, rt_outbox = [], rt_published = [], rt_decided = [], rt_navs = []\<rparr>"

text \<open>\<open>stopTimer\<close>: a timer whose function was started is not affected.\<close>

definition stop_timer :: "nat option \<Rightarrow> (nat \<times> 'f) list \<Rightarrow> (nat \<times> 'f) list" where
  "stop_timer t armed = filter (\<lambda>(i, _). t \<noteq> Some i) armed"

definition on_state :: "(computedState \<Rightarrow> computedState) \<Rightarrow> runtime \<Rightarrow> runtime" where
  "on_state f r = r\<lparr>rt_state := f (rt_state r)\<rparr>"

definition stop_net :: "runtime \<Rightarrow> runtime" where
  "stop_net r = r\<lparr>rt_netArmed := stop_timer (cs_netTimer (rt_state r)) (rt_netArmed r)\<rparr>"

definition stop_layout :: "runtime \<Rightarrow> runtime" where
  "stop_layout r = r\<lparr>rt_layoutArmed := stop_timer (cs_layoutTimer (rt_state r)) (rt_layoutArmed r)\<rparr>"

definition startNetIdleTimer :: "runtime \<Rightarrow> runtime" where
  "startNetIdleTimer r =
     (if cs_dead (rt_state r) then r
      else let r = stop_net r; t = rt_nextTimer r in
        on_state (\<lambda>s. s\<lparr>cs_netTimer := Some t\<rparr>)
          (r\<lparr>rt_netArmed := rt_netArmed r @ [(t, cs_navSeq (rt_state r), cs_navMeta (rt_state r))],
             rt_nextTimer := Suc t\<rparr>))"

definition start_layout :: "runtime \<Rightarrow> runtime" where
  "start_layout r =
     (let r = stop_layout r; t = rt_nextTimer r in
      on_state (\<lambda>s. s\<lparr>cs_layoutTimer := Some t\<rparr>)
        (r\<lparr>rt_layoutArmed := rt_layoutArmed r @ [(t, cs_navSeq (rt_state r))], rt_nextTimer := Suc t\<rparr>))"

section \<open>Operations\<close>

definition computed_stop :: "runtime \<Rightarrow> runtime" where
  "computed_stop r = stop_layout (stop_net (on_state (\<lambda>s. s\<lparr>cs_dead := True\<rparr>) r))"

text \<open>Marshalling the payload of a navigation cannot fail, so its error branch is left out.\<close>

definition resetOnNavigation ::
  "(string \<Rightarrow> string option) \<Rightarrow> (string \<Rightarrow> bool) \<Rightarrow> int \<Rightarrow> navContext \<Rightarrow> runtime \<Rightarrow> runtime" where
  "resetOnNavigation extension_host bundled inflight ctx r =
     (let r = on_state (\<lambda>s. s\<lparr>cs_navSeq := cs_navSeq s + 1, cs_navCtx := ctx,
                cs_navData := nav_data ctx (cs_navSeq s + 1),
                cs_navMeta := nav_meta extension_host bundled ctx\<rparr>) (r\<lparr>rt_navs := rt_navs r @ [ctx]\<rparr>);
          r = on_state (\<lambda>s. s\<lparr>cs_netTimer := None, cs_netPending := inflight, cs_netFired := False\<rparr>) (stop_net r);
          r = (if inflight = 0 then startNetIdleTimer r else r)
      in on_state (\<lambda>s. s\<lparr>cs_layoutTimer := None, cs_layoutFired := False, cs_pageLoadSeen := False,
           cs_navDOMLoaded := False, cs_navLayoutSettled := False, cs_navFired := False\<rparr>) (stop_layout r))"

definition onRequest :: "runtime \<Rightarrow> runtime" where
  "onRequest r =
     (if cs_dead (rt_state r) then r
      else on_state (\<lambda>s. s\<lparr>cs_netTimer := None\<rparr>)
        (stop_net (on_state (\<lambda>s. s\<lparr>cs_netPending := cs_netPending s + 1\<rparr>) r)))"

definition onLoadingFinished :: "runtime \<Rightarrow> runtime" where
  "onLoadingFinished r =
     (if cs_dead (rt_state r) then r
      else let r = on_state (\<lambda>s. s\<lparr>cs_netPending := max 0 (cs_netPending s - 1)\<rparr>) r in
        if 0 < cs_netPending (rt_state r) \<or> cs_netFired (rt_state r) then r else startNetIdleTimer r)"

definition onPageLoad :: "runtime \<Rightarrow> runtime" where
  "onPageLoad r =
     (if cs_dead (rt_state r) then r
      else let r = on_state (\<lambda>s. s\<lparr>cs_pageLoadSeen := True\<rparr>) r in
        if cs_layoutFired (rt_state r) then r else start_layout r)"

definition onLayoutShift :: "runtime \<Rightarrow> runtime" where
  "onLayoutShift r =
     (let s = rt_state r in
      if cs_dead s \<or> cs_layoutFired s \<or> \<not> cs_pageLoadSeen s then r else start_layout r)"

definition nav_event_of :: "string \<Rightarrow> category \<Rightarrow> meta \<Rightarrow> computedState \<Rightarrow> nav_event" where
  "nav_event_of ty cat meta s =
     \<lparr>ne_Type = ty, ne_Category = cat, ne_Metadata = meta,
      ne_Data = marshalNavEventContext (cs_navCtx s) (cs_navSeq s), ne_seq = cs_navSeq s\<rparr>"

definition EventNetworkIdle :: string where "EventNetworkIdle = ''network_idle''"
definition EventLayoutSettled :: string where "EventLayoutSettled = ''page_layout_settled''"
definition EventNavigationSettled :: string where "EventNavigationSettled = ''page_navigation_settled''"

definition decide :: "nav_event list \<Rightarrow> runtime \<Rightarrow> runtime" where
  "decide evs r = r\<lparr>rt_outbox := rt_outbox r @ [evs], rt_decided := rt_decided r @ evs\<rparr>"

definition pendingNavigationSettled :: "computedState \<Rightarrow> computedState \<times> nav_event list" where
  "pendingNavigationSettled s =
     (if \<not> cs_dead s \<and> cs_navDOMLoaded s \<and> cs_navLayoutSettled s \<and> \<not> cs_navFired s
      then (s\<lparr>cs_navFired := True\<rparr>, [nav_event_of EventNavigationSettled Page (cs_navMeta s) s])
      else (s, []))"

definition onDOMContentLoaded :: "runtime \<Rightarrow> runtime" where
  "onDOMContentLoaded r =
     (let (s, evs) = pendingNavigationSettled ((rt_state r)\<lparr>cs_navDOMLoaded := True\<rparr>)
      in decide evs (r\<lparr>rt_state := s\<rparr>))"

text \<open>The functions of the two timers, for the navigation they were armed for.\<close>

definition net_idle_runs :: "int \<Rightarrow> meta \<Rightarrow> runtime \<Rightarrow> runtime" where
  "net_idle_runs navSeq navMeta r =
     (let s = rt_state r in
      if cs_dead s \<or> cs_navSeq s \<noteq> navSeq \<or> cs_netFired s \<or> 0 < cs_netPending s then r
      else decide [nav_event_of EventNetworkIdle Network navMeta s]
             (on_state (\<lambda>s. s\<lparr>cs_netFired := True\<rparr>) r))"

definition emitLayoutSettled :: "int \<Rightarrow> runtime \<Rightarrow> runtime" where
  "emitLayoutSettled navSeq r =
     (let s = rt_state r in
      if cs_dead s \<or> cs_navSeq s \<noteq> navSeq \<or> cs_layoutFired s \<or> \<not> cs_pageLoadSeen s then r
      else let s = s\<lparr>cs_layoutFired := True, cs_navLayoutSettled := True\<rparr>;
               (s', evs) = pendingNavigationSettled s
        in decide (nav_event_of EventLayoutSettled Page (cs_navMeta s) s # evs) (r\<lparr>rt_state := s'\<rparr>))"

text \<open>\<open>navDataWith\<close>: \<open>extra\<close> is controlled by the page; without a state the base is empty.\<close>

definition navSnapshot :: "computedState \<Rightarrow> members \<times> meta" where
  "navSnapshot s = (cs_navData s, cs_navMeta s)"

definition currentNavSeq :: "computedState \<Rightarrow> int" where
  "currentNavSeq s = cs_navSeq s"

definition currentNavCtxFields ::
  "computedState option \<Rightarrow> string \<times> string \<times> string \<times> string \<times> string \<times> string \<times> int" where
  "currentNavCtxFields s =
     (case s of
        None \<Rightarrow> ([], [], [], [], [], [], 0)
      | Some s \<Rightarrow> let ctx = cs_navCtx s in
          (nc_sessionID ctx, nc_targetID ctx, nc_targetType ctx, nc_frameID ctx, nc_loaderID ctx, nc_url ctx, cs_navSeq s))"

definition navDataWith :: "computedState option \<Rightarrow> members \<Rightarrow> json" where
  "navDataWith s extra =
     JObject (case s of None \<Rightarrow> put_all extra [] | Some s \<Rightarrow> put_all (fst (navSnapshot s)) (put_all extra []))"

inductive computed_step ::
  "(string \<Rightarrow> string option) \<Rightarrow> (string \<Rightarrow> bool) \<Rightarrow> runtime \<Rightarrow> runtime \<Rightarrow> bool"
  for extension_host bundled
where
  navigates: "0 \<le> inflight \<Longrightarrow>
    computed_step extension_host bundled r (resetOnNavigation extension_host bundled inflight ctx r)"
| requests: "computed_step extension_host bundled r (onRequest r)"
| finishes: "computed_step extension_host bundled r (onLoadingFinished r)"
| loads: "computed_step extension_host bundled r (onPageLoad r)"
| shifts: "computed_step extension_host bundled r (onLayoutShift r)"
| parses: "computed_step extension_host bundled r (onDOMContentLoaded r)"
| stops: "computed_step extension_host bundled r (computed_stop r)"
| net_fires: "x \<in> set (rt_netArmed r) \<Longrightarrow>
    computed_step extension_host bundled r
      (r\<lparr>rt_netArmed := removeAll x (rt_netArmed r), rt_netRunning := rt_netRunning r @ [x]\<rparr>)"
| layout_fires: "y \<in> set (rt_layoutArmed r) \<Longrightarrow>
    computed_step extension_host bundled r
      (r\<lparr>rt_layoutArmed := removeAll y (rt_layoutArmed r), rt_layoutRunning := rt_layoutRunning r @ [y]\<rparr>)"
| net_runs: "(t, navSeq, navMeta) \<in> set (rt_netRunning r) \<Longrightarrow>
    computed_step extension_host bundled r
      (net_idle_runs navSeq navMeta (r\<lparr>rt_netRunning := removeAll (t, navSeq, navMeta) (rt_netRunning r)\<rparr>))"
| layout_runs: "(t, navSeq) \<in> set (rt_layoutRunning r) \<Longrightarrow>
    computed_step extension_host bundled r
      (emitLayoutSettled navSeq (r\<lparr>rt_layoutRunning := removeAll (t, navSeq) (rt_layoutRunning r)\<rparr>))"
| publishes: "i < length (rt_outbox r) \<Longrightarrow> rt_outbox r ! i = e # es \<Longrightarrow>
    computed_step extension_host bundled r
      (r\<lparr>rt_outbox := (rt_outbox r)[i := es], rt_published := rt_published r @ [e]\<rparr>)"

inductive_cases computed_stepE: "computed_step extension_host bundled r r'"

section \<open>What was decided\<close>

definition ctx_of :: "navContext list \<Rightarrow> int \<Rightarrow> navContext" where
  "ctx_of navs n = (if 1 \<le> n then navs ! nat (n - 1) else zero_navContext)"

definition meta_of :: "(string \<Rightarrow> string option) \<Rightarrow> (string \<Rightarrow> bool) \<Rightarrow> navContext list \<Rightarrow> int \<Rightarrow> meta" where
  "meta_of extension_host bundled navs n =
     (if 1 \<le> n then nav_meta extension_host bundled (ctx_of navs n) else [])"

definition event_of_nav ::
  "(string \<Rightarrow> string option) \<Rightarrow> (string \<Rightarrow> bool) \<Rightarrow> navContext list \<Rightarrow> nav_event \<Rightarrow> bool" where
  "event_of_nav extension_host bundled navs e \<longleftrightarrow>
     0 \<le> ne_seq e \<and> ne_seq e \<le> int (length navs) \<and>
     ne_Metadata e = meta_of extension_host bundled navs (ne_seq e) \<and>
     ne_Data e = marshalNavEventContext (ctx_of navs (ne_seq e)) (ne_seq e)"

definition key_of :: "nav_event \<Rightarrow> string \<times> int" where
  "key_of e = (ne_Type e, ne_seq e)"

definition net_tokens :: "runtime \<Rightarrow> (nat \<times> int \<times> meta) set" where
  "net_tokens r = set (rt_netArmed r) \<union> set (rt_netRunning r)"

definition layout_tokens :: "runtime \<Rightarrow> (nat \<times> int) set" where
  "layout_tokens r = set (rt_layoutArmed r) \<union> set (rt_layoutRunning r)"

definition decided_keys :: "runtime \<Rightarrow> (string \<times> int) set" where
  "decided_keys r = key_of ` set (rt_decided r)"

text \<open>The flags of the state tell which events of the current navigation were decided.\<close>

definition flags_ok :: "runtime \<Rightarrow> bool" where
  "flags_ok r \<longleftrightarrow>
     (let s = rt_state r; n = cs_navSeq s in
      ((EventNetworkIdle, n) \<in> decided_keys r \<longleftrightarrow> cs_netFired s) \<and>
      ((EventLayoutSettled, n) \<in> decided_keys r \<longleftrightarrow> cs_layoutFired s) \<and>
      ((EventNavigationSettled, n) \<in> decided_keys r \<longleftrightarrow> cs_navFired s) \<and>
      cs_navLayoutSettled s = cs_layoutFired s \<and> (cs_navFired s \<longrightarrow> cs_layoutFired s))"

definition history_ok :: "(string \<Rightarrow> string option) \<Rightarrow> (string \<Rightarrow> bool) \<Rightarrow> runtime \<Rightarrow> bool" where
  "history_ok extension_host bundled r \<longleftrightarrow>
     (\<forall>e \<in> set (rt_decided r). event_of_nav extension_host bundled (rt_navs r) e) \<and>
     (\<forall>(t, n, m) \<in> net_tokens r. 0 \<le> n \<and> n \<le> int (length (rt_navs r)) \<and> m = meta_of extension_host bundled (rt_navs r) n) \<and>
     distinct (map key_of (rt_decided r)) \<and>
     (\<forall>n. (EventNavigationSettled, n) \<in> decided_keys r \<longrightarrow> (EventLayoutSettled, n) \<in> decided_keys r) \<and>
     mset (rt_decided r) = mset (rt_published r) + mset (concat (rt_outbox r))"

definition nav_ok :: "(string \<Rightarrow> string option) \<Rightarrow> (string \<Rightarrow> bool) \<Rightarrow> runtime \<Rightarrow> bool" where
  "nav_ok extension_host bundled r \<longleftrightarrow>
     (let s = rt_state r; navs = rt_navs r in
      cs_navSeq s = int (length navs) \<and> cs_navCtx s = ctx_of navs (cs_navSeq s) \<and>
      cs_navMeta s = meta_of extension_host bundled navs (cs_navSeq s) \<and>
      cs_navData s = (if navs = [] then [] else nav_data (cs_navCtx s) (cs_navSeq s)))"

definition events_inv :: "(string \<Rightarrow> string option) \<Rightarrow> (string \<Rightarrow> bool) \<Rightarrow> runtime \<Rightarrow> bool" where
  "events_inv extension_host bundled r \<longleftrightarrow>
     nav_ok extension_host bundled r \<and> flags_ok r \<and> history_ok extension_host bundled r"

lemma event_types_distinct [simp]:
  "EventNetworkIdle \<noteq> EventLayoutSettled" "EventNetworkIdle \<noteq> EventNavigationSettled"
  "EventLayoutSettled \<noteq> EventNavigationSettled" "EventLayoutSettled \<noteq> EventNetworkIdle"
  "EventNavigationSettled \<noteq> EventNetworkIdle" "EventNavigationSettled \<noteq> EventLayoutSettled"
  by (simp_all add: EventNetworkIdle_def EventLayoutSettled_def EventNavigationSettled_def)

text \<open>The parts of the state the events depend on.\<close>

definition same_events :: "runtime \<Rightarrow> runtime \<Rightarrow> bool" where
  "same_events r r' \<longleftrightarrow>
     (let s = rt_state r; s' = rt_state r' in
      cs_navSeq s' = cs_navSeq s \<and> cs_navCtx s' = cs_navCtx s \<and> cs_navMeta s' = cs_navMeta s \<and>
      cs_navData s' = cs_navData s \<and> cs_netFired s' = cs_netFired s \<and> cs_layoutFired s' = cs_layoutFired s \<and>
      cs_navLayoutSettled s' = cs_navLayoutSettled s \<and> cs_navFired s' = cs_navFired s) \<and>
     rt_decided r' = rt_decided r \<and> rt_navs r' = rt_navs r \<and>
     mset (rt_published r') + mset (concat (rt_outbox r')) = mset (rt_published r) + mset (concat (rt_outbox r)) \<and>
     (\<forall>x \<in> net_tokens r'. x \<in> net_tokens r \<or> snd x = (cs_navSeq (rt_state r), cs_navMeta (rt_state r)))"

lemma same_events_refl: "same_events r r"
  by (simp add: same_events_def)

lemma same_events_trans: "same_events a b \<Longrightarrow> same_events b c \<Longrightarrow> same_events a c"
  unfolding same_events_def Let_def by (metis (no_types))

lemma same_events_inv:
  assumes "same_events r r'" "events_inv extension_host bundled r"
  shows "events_inv extension_host bundled r'"
proof -
  have nav: "nav_ok extension_host bundled r" and fl: "flags_ok r" and h: "history_ok extension_host bundled r"
    using assms(2) by (simp_all add: events_inv_def)
  have k: "decided_keys r' = decided_keys r" using assms(1) by (simp add: same_events_def decided_keys_def)
  have "nav_ok extension_host bundled r'" using nav assms(1) by (simp add: nav_ok_def same_events_def Let_def)
  moreover have "flags_ok r'" using fl assms(1) by (simp add: flags_ok_def same_events_def Let_def k)
  moreover have "0 \<le> n \<and> n \<le> int (length (rt_navs r')) \<and> m = meta_of extension_host bundled (rt_navs r') n"
    if "(t, n, m) \<in> net_tokens r'" for t n m
  proof -
    have "(t, n, m) \<in> net_tokens r \<or> (n, m) = (cs_navSeq (rt_state r), cs_navMeta (rt_state r))"
      using assms(1) that by (fastforce simp: same_events_def)
    then show ?thesis using h nav assms(1) by (auto simp: history_ok_def nav_ok_def same_events_def Let_def)
  qed
  then have "history_ok extension_host bundled r'"
    using h assms(1) unfolding history_ok_def k by (auto simp: same_events_def Let_def)
  ultimately show ?thesis by (simp add: events_inv_def)
qed

lemma net_tokens_simps [simp]:
  "net_tokens (on_state f r) = net_tokens r"
  by (simp add: net_tokens_def on_state_def)

lemma stop_timer_subset: "set (stop_timer t xs) \<subseteq> set xs"
  by (auto simp: stop_timer_def)

lemma same_events_state:
  "(\<And>s. cs_navSeq (f s) = cs_navSeq s \<and> cs_navCtx (f s) = cs_navCtx s \<and> cs_navMeta (f s) = cs_navMeta s \<and>
     cs_navData (f s) = cs_navData s \<and> cs_netFired (f s) = cs_netFired s \<and> cs_layoutFired (f s) = cs_layoutFired s \<and>
     cs_navLayoutSettled (f s) = cs_navLayoutSettled s \<and> cs_navFired (f s) = cs_navFired s)
   \<Longrightarrow> same_events r (on_state f r)"
  by (simp add: same_events_def on_state_def net_tokens_def)

lemma same_events_stop: "same_events r (stop_net r)" "same_events r (stop_layout r)"
  using stop_timer_subset by (fastforce simp: same_events_def stop_net_def stop_layout_def net_tokens_def)+

lemma same_events_start: "same_events r (startNetIdleTimer r)" "same_events r (start_layout r)"
proof -
  show "same_events r (startNetIdleTimer r)"
    using stop_timer_subset
    by (fastforce simp: startNetIdleTimer_def Let_def same_events_def stop_net_def on_state_def net_tokens_def)
  show "same_events r (start_layout r)"
    by (simp add: start_layout_def Let_def same_events_def stop_layout_def on_state_def net_tokens_def)
qed

lemmas same_events_intros = same_events_refl same_events_stop same_events_start same_events_state

lemma same_events_simple:
  "same_events r (onRequest r)" "same_events r (onLoadingFinished r)" "same_events r (onPageLoad r)"
  "same_events r (onLayoutShift r)" "same_events r (computed_stop r)"
proof -
  show "same_events r (onRequest r)"
    by (auto simp: onRequest_def intro!: same_events_state
        intro: same_events_trans[OF same_events_trans[OF same_events_state same_events_stop(1)] same_events_state]
          same_events_refl)
  show "same_events r (onLoadingFinished r)"
    by (auto simp: onLoadingFinished_def Let_def intro: same_events_trans[OF same_events_state same_events_start(1)]
          same_events_state same_events_refl)
  show "same_events r (onPageLoad r)"
    by (auto simp: onPageLoad_def Let_def intro: same_events_trans[OF same_events_state same_events_start(2)]
          same_events_state same_events_refl)
  show "same_events r (onLayoutShift r)"
    by (auto simp: onLayoutShift_def Let_def intro: same_events_start(2) same_events_refl)
  show "same_events r (computed_stop r)"
    unfolding computed_stop_def
    by (rule same_events_trans[OF same_events_trans[OF same_events_state same_events_stop(1)] same_events_stop(2)]) simp
qed

lemma history_decide:
  assumes "history_ok extension_host bundled r"
    and "\<And>e. e \<in> set evs \<Longrightarrow> event_of_nav extension_host bundled (rt_navs r) e"
    and "distinct (map key_of evs)" and "key_of ` set evs \<inter> decided_keys r = {}"
    and "\<And>n. (EventNavigationSettled, n) \<in> key_of ` set evs \<Longrightarrow>
      (EventLayoutSettled, n) \<in> decided_keys r \<union> key_of ` set evs"
  shows "history_ok extension_host bundled (decide evs (r\<lparr>rt_state := s\<rparr>))"
proof -
  have k: "decided_keys (decide evs (r\<lparr>rt_state := s\<rparr>)) = decided_keys r \<union> key_of ` set evs"
    by (auto simp: decided_keys_def decide_def)
  show ?thesis
    using assms unfolding history_ok_def k
    by (auto simp: decide_def net_tokens_def decided_keys_def)
qed

lemma event_of_nav_event:
  assumes "nav_ok extension_host bundled r" "meta = cs_navMeta (rt_state r)"
    and "cs_navCtx s = cs_navCtx (rt_state r)" "cs_navSeq s = cs_navSeq (rt_state r)"
  shows "event_of_nav extension_host bundled (rt_navs r) (nav_event_of ty cat meta s)"
  using assms by (simp add: event_of_nav_def nav_event_of_def nav_ok_def Let_def)

lemma key_nav_event [simp]: "key_of (nav_event_of ty cat meta s) = (ty, cs_navSeq s)"
  by (simp add: key_of_def nav_event_of_def)

lemma decided_keys_decide [simp]:
  "decided_keys (decide evs r) = decided_keys r \<union> key_of ` set evs"
  "decided_keys (r\<lparr>rt_state := s\<rparr>) = decided_keys r"
  by (auto simp: decided_keys_def decide_def)

lemma events_inv_dom:
  assumes "events_inv extension_host bundled r"
  shows "events_inv extension_host bundled (onDOMContentLoaded r)"
proof -
  let ?s = "(rt_state r)\<lparr>cs_navDOMLoaded := True\<rparr>"
  note inv = assms[unfolded events_inv_def]
  show ?thesis
  proof (cases "\<not> cs_dead ?s \<and> cs_navDOMLoaded ?s \<and> cs_navLayoutSettled ?s \<and> \<not> cs_navFired ?s")
    case True
    let ?evs = "[nav_event_of EventNavigationSettled Page (cs_navMeta ?s) ?s]"
    have r: "onDOMContentLoaded r = decide ?evs (r\<lparr>rt_state := ?s\<lparr>cs_navFired := True\<rparr>\<rparr>)"
      using True by (simp add: onDOMContentLoaded_def pendingNavigationSettled_def)
    have f: "cs_layoutFired (rt_state r)" "\<not> cs_navFired (rt_state r)"
      using True inv by (auto simp: flags_ok_def Let_def)
    have "history_ok extension_host bundled (onDOMContentLoaded r)"
      unfolding r
      by (rule history_decide) (use inv f in \<open>auto simp: flags_ok_def Let_def intro!: event_of_nav_event\<close>)
    moreover have "flags_ok (onDOMContentLoaded r)"
      unfolding r using inv f by (auto simp: flags_ok_def Let_def decide_def decided_keys_def)
    moreover have "nav_ok extension_host bundled (onDOMContentLoaded r)"
      unfolding r using inv by (simp add: nav_ok_def Let_def decide_def)
    ultimately show ?thesis by (simp add: events_inv_def)
  next
    case False
    then have r: "onDOMContentLoaded r = decide [] (r\<lparr>rt_state := ?s\<rparr>)"
      by (auto simp: onDOMContentLoaded_def pendingNavigationSettled_def)
    have "same_events r (onDOMContentLoaded r)"
      unfolding r by (simp add: same_events_def decide_def net_tokens_def)
    then show ?thesis using assms by (rule same_events_inv)
  qed
qed

lemma events_inv_net_idle:
  assumes "events_inv extension_host bundled r"
    and "n = cs_navSeq (rt_state r) \<longrightarrow> m = cs_navMeta (rt_state r)"
  shows "events_inv extension_host bundled (net_idle_runs n m r)"
proof (cases "cs_dead (rt_state r) \<or> cs_navSeq (rt_state r) \<noteq> n \<or> cs_netFired (rt_state r) \<or> 0 < cs_netPending (rt_state r)")
  case False
  let ?s = "rt_state r"
  note inv = assms(1)[unfolded events_inv_def]
  have r: "net_idle_runs n m r =
      decide [nav_event_of EventNetworkIdle Network (cs_navMeta ?s) ?s] (r\<lparr>rt_state := ?s\<lparr>cs_netFired := True\<rparr>\<rparr>)"
    using False assms(2) by (auto simp: net_idle_runs_def Let_def on_state_def)
  have "history_ok extension_host bundled (net_idle_runs n m r)"
    unfolding r
    by (rule history_decide) (use inv False in \<open>auto simp: flags_ok_def Let_def intro!: event_of_nav_event\<close>)
  moreover have "flags_ok (net_idle_runs n m r)"
    unfolding r using inv by (auto simp: flags_ok_def Let_def decide_def decided_keys_def)
  moreover have "nav_ok extension_host bundled (net_idle_runs n m r)"
    unfolding r using inv by (simp add: nav_ok_def Let_def decide_def)
  ultimately show ?thesis by (simp add: events_inv_def)
qed (use assms in \<open>auto simp: net_idle_runs_def Let_def\<close>)

lemma events_inv_layout:
  assumes "events_inv extension_host bundled r"
  shows "events_inv extension_host bundled (emitLayoutSettled n r)"
proof (cases "cs_dead (rt_state r) \<or> cs_navSeq (rt_state r) \<noteq> n \<or> cs_layoutFired (rt_state r) \<or> \<not> cs_pageLoadSeen (rt_state r)")
  case False
  let ?s = "(rt_state r)\<lparr>cs_layoutFired := True, cs_navLayoutSettled := True\<rparr>"
  let ?e = "nav_event_of EventLayoutSettled Page (cs_navMeta ?s) ?s"
  let ?f = "nav_event_of EventNavigationSettled Page (cs_navMeta ?s) ?s"
  let ?n = "cs_navSeq (rt_state r)"
  have nav: "nav_ok extension_host bundled r" and fl: "flags_ok r" and h: "history_ok extension_host bundled r"
    using assms by (simp_all add: events_inv_def)
  have new: "(EventLayoutSettled, ?n) \<notin> decided_keys r" "(EventNavigationSettled, ?n) \<notin> decided_keys r"
    and net: "(EventNetworkIdle, ?n) \<in> decided_keys r \<longleftrightarrow> cs_netFired (rt_state r)" "\<not> cs_navFired (rt_state r)"
    using fl False by (auto simp: flags_ok_def Let_def)
  have ok: "event_of_nav extension_host bundled (rt_navs r) ?e" "event_of_nav extension_host bundled (rt_navs r) ?f"
    by (rule event_of_nav_event[OF nav]; simp)+
  have keys: "key_of ?e = (EventLayoutSettled, ?n)" "key_of ?f = (EventNavigationSettled, ?n)" by simp_all
  have "emitLayoutSettled n r = decide [?e] (r\<lparr>rt_state := ?s\<rparr>) \<or>
      emitLayoutSettled n r = decide [?e, ?f] (r\<lparr>rt_state := ?s\<lparr>cs_navFired := True\<rparr>\<rparr>)"
    using False
    by (cases "cs_navDOMLoaded (rt_state r) \<and> \<not> cs_navFired (rt_state r)")
      (simp_all add: emitLayoutSettled_def Let_def pendingNavigationSettled_def)
  then consider (alone) "emitLayoutSettled n r = decide [?e] (r\<lparr>rt_state := ?s\<rparr>)"
    | (both) "emitLayoutSettled n r = decide [?e, ?f] (r\<lparr>rt_state := ?s\<lparr>cs_navFired := True\<rparr>\<rparr>)"
    by blast
  then show ?thesis
  proof cases
    case alone
    have "history_ok extension_host bundled (decide [?e] (r\<lparr>rt_state := ?s\<rparr>))"
      by (rule history_decide[OF h]) (use ok new in \<open>simp_all add: keys\<close>)
    moreover have "flags_ok (decide [?e] (r\<lparr>rt_state := ?s\<rparr>))"
      using new net by (simp add: flags_ok_def Let_def decide_def decided_keys_def keys)
    moreover have "nav_ok extension_host bundled (decide [?e] (r\<lparr>rt_state := ?s\<rparr>))"
      using nav by (simp add: nav_ok_def Let_def decide_def)
    ultimately show ?thesis unfolding alone by (simp add: events_inv_def)
  next
    case both
    have "history_ok extension_host bundled (decide [?e, ?f] (r\<lparr>rt_state := ?s\<lparr>cs_navFired := True\<rparr>\<rparr>))"
      by (rule history_decide[OF h]) (use ok new in \<open>auto simp: keys\<close>)
    moreover have "flags_ok (decide [?e, ?f] (r\<lparr>rt_state := ?s\<lparr>cs_navFired := True\<rparr>\<rparr>))"
      using new net by (simp add: flags_ok_def Let_def decide_def decided_keys_def keys)
    moreover have "nav_ok extension_host bundled (decide [?e, ?f] (r\<lparr>rt_state := ?s\<lparr>cs_navFired := True\<rparr>\<rparr>))"
      using nav by (simp add: nav_ok_def Let_def decide_def)
    ultimately show ?thesis unfolding both by (simp add: events_inv_def)
  qed
qed (use assms in \<open>auto simp: emitLayoutSettled_def Let_def\<close>)

lemma ctx_of_append: "n \<le> int (length navs) \<Longrightarrow> ctx_of (navs @ [c]) n = ctx_of navs n"
  by (simp add: ctx_of_def nth_append)

lemma meta_of_append: "n \<le> int (length navs) \<Longrightarrow> meta_of eh bd (navs @ [c]) n = meta_of eh bd navs n"
  by (simp add: meta_of_def ctx_of_append)

lemma decided_below:
  "history_ok extension_host bundled r \<Longrightarrow> int (length (rt_navs r)) < n \<Longrightarrow> (ty, n) \<notin> decided_keys r"
  by (force simp: history_ok_def decided_keys_def key_of_def event_of_nav_def)

lemma events_inv_reset:
  assumes "events_inv extension_host bundled r"
  shows "events_inv extension_host bundled (resetOnNavigation extension_host bundled inflight ctx r)"
proof -
  note inv = assms[unfolded events_inv_def]
  let ?navs = "rt_navs r @ [ctx]"
  let ?n = "cs_navSeq (rt_state r) + 1"
  let ?r = "resetOnNavigation extension_host bundled inflight ctx r"
  have n: "?n = int (length ?navs)" using inv by (simp add: nav_ok_def Let_def)
  have s: "cs_navSeq (rt_state ?r) = ?n" "cs_navCtx (rt_state ?r) = ctx" "cs_navData (rt_state ?r) = nav_data ctx ?n"
      "cs_navMeta (rt_state ?r) = nav_meta extension_host bundled ctx" "rt_navs ?r = ?navs"
      "\<not> cs_netFired (rt_state ?r)" "\<not> cs_layoutFired (rt_state ?r)" "\<not> cs_navFired (rt_state ?r)"
      "\<not> cs_navLayoutSettled (rt_state ?r)" "rt_decided ?r = rt_decided r" "rt_published ?r = rt_published r"
      "rt_outbox ?r = rt_outbox r"
    by (simp_all add: resetOnNavigation_def Let_def on_state_def stop_net_def stop_layout_def startNetIdleTimer_def)
  have ctx: "ctx_of ?navs ?n = ctx" and meta: "meta_of extension_host bundled ?navs ?n = nav_meta extension_host bundled ctx"
    using n by (simp_all add: ctx_of_def meta_of_def nth_append)
  have "nav_ok extension_host bundled ?r"
    unfolding nav_ok_def Let_def s(1-5) ctx meta using n by simp
  moreover have new: "(ty, ?n) \<notin> decided_keys r" for ty
    using inv n by (intro decided_below) auto
  then have "flags_ok ?r"
    unfolding flags_ok_def Let_def s(1) using s(6-10) by (simp add: decided_keys_def)
  moreover have tok: "x \<in> net_tokens r \<or> snd x = (?n, nav_meta extension_host bundled ctx)" if x: "x \<in> net_tokens ?r" for x
    using x
    by (auto simp: resetOnNavigation_def Let_def on_state_def stop_net_def stop_layout_def startNetIdleTimer_def
        net_tokens_def stop_timer_def split: if_splits)
  have "history_ok extension_host bundled ?r"
    unfolding history_ok_def s(5,10-12)
  proof (intro conjI ballI)
    show "event_of_nav extension_host bundled ?navs e" if "e \<in> set (rt_decided r)" for e
      using inv that by (auto simp: history_ok_def event_of_nav_def ctx_of_append meta_of_append)
    show "case x of (t, k, m) \<Rightarrow> 0 \<le> k \<and> k \<le> int (length ?navs) \<and> m = meta_of extension_host bundled ?navs k"
      if "x \<in> net_tokens ?r" for x
      using tok[OF that]
    proof
      assume "x \<in> net_tokens r"
      then have "case x of (t, k, m) \<Rightarrow> 0 \<le> k \<and> k \<le> int (length (rt_navs r)) \<and> m = meta_of extension_host bundled (rt_navs r) k"
        using inv by (auto simp: history_ok_def)
      then show ?thesis by (auto simp: meta_of_append)
    next
      assume "snd x = (?n, nav_meta extension_host bundled ctx)"
      then obtain t where x: "x = (t, ?n, nav_meta extension_host bundled ctx)" by (cases x) auto
      show ?thesis unfolding x prod.case by (intro conjI meta[symmetric]) (use n in simp_all)
    qed
  qed (use inv in \<open>auto simp: history_ok_def decided_keys_def s(10)\<close>)
  ultimately show ?thesis by (simp add: events_inv_def)
qed

lemma history_token:
  "history_ok extension_host bundled r \<Longrightarrow> (t, n, m) \<in> net_tokens r \<Longrightarrow> m = meta_of extension_host bundled (rt_navs r) n"
  unfolding history_ok_def by fast

lemma events_inv_step:
  assumes "computed_step extension_host bundled r r'" "events_inv extension_host bundled r"
  shows "events_inv extension_host bundled r'"
  using assms(1)
proof cases
  case (navigates inflight ctx)
  show ?thesis unfolding navigates by (rule events_inv_reset) (rule assms(2))
next
  case parses
  show ?thesis unfolding parses by (rule events_inv_dom) (rule assms(2))
next
  case (net_fires x)
  have "same_events r r'" using net_fires by (auto simp: same_events_def net_tokens_def)
  then show ?thesis using assms(2) by (rule same_events_inv)
next
  case (layout_fires y)
  have "same_events r r'" using layout_fires by (auto simp: same_events_def net_tokens_def)
  then show ?thesis using assms(2) by (rule same_events_inv)
next
  case (net_runs t n m)
  let ?r = "r\<lparr>rt_netRunning := removeAll (t, n, m) (rt_netRunning r)\<rparr>"
  have "same_events r ?r" by (auto simp: same_events_def net_tokens_def)
  then have "events_inv extension_host bundled ?r" using assms(2) by (rule same_events_inv)
  moreover have "m = meta_of extension_host bundled (rt_navs r) n"
    using assms(2) net_runs(2) by (intro history_token[of _ _ r t]) (simp_all add: events_inv_def net_tokens_def)
  then have "n = cs_navSeq (rt_state ?r) \<longrightarrow> m = cs_navMeta (rt_state ?r)"
    using assms(2) by (simp add: events_inv_def nav_ok_def Let_def)
  ultimately show ?thesis unfolding net_runs(1) by (rule events_inv_net_idle)
next
  case (layout_runs t n)
  let ?r = "r\<lparr>rt_layoutRunning := removeAll (t, n) (rt_layoutRunning r)\<rparr>"
  have "same_events r ?r" by (auto simp: same_events_def net_tokens_def)
  then have "events_inv extension_host bundled ?r" using assms(2) by (rule same_events_inv)
  then show ?thesis unfolding layout_runs(1) by (rule events_inv_layout)
next
  case (publishes i e es)
  have "rt_outbox r = take i (rt_outbox r) @ (e # es) # drop (Suc i) (rt_outbox r)"
    using publishes(2,3) by (metis id_take_nth_drop)
  moreover have "(rt_outbox r)[i := es] = take i (rt_outbox r) @ es # drop (Suc i) (rt_outbox r)"
    using publishes(2) by (rule upd_conv_take_nth_drop)
  ultimately have "mset (concat (rt_outbox r)) = add_mset e (mset (concat ((rt_outbox r)[i := es])))"
    by (metis (no_types, lifting) add_mset_add_single append_Cons concat.simps(2) concat_append mset.simps(2) mset_append
        union_mset_add_mset_right)
  then have "same_events r r'" unfolding publishes(1) by (simp add: same_events_def net_tokens_def)
  then show ?thesis using assms(2) by (rule same_events_inv)
qed (use assms(2) same_events_simple same_events_inv in blast)+

section \<open>No event is lost\<close>

text \<open>
  Unless the state is dead, an event still to come has a timer, armed or with its function started.
  At most one timer of each kind is armed, the one the state knows.
\<close>

definition net_wake :: "runtime \<Rightarrow> bool" where
  "net_wake r \<longleftrightarrow>
     (let s = rt_state r in
      0 \<le> cs_netPending s \<and> 0 \<le> cs_navSeq s \<and>
      (cs_dead s \<or> cs_navSeq s = 0 \<or> 0 < cs_netPending s \<or> cs_netFired s \<or>
       (\<exists>t m. (t, cs_navSeq s, m) \<in> net_tokens r)) \<and>
      length (rt_netArmed r) \<le> 1 \<and> (\<forall>x \<in> set (rt_netArmed r). cs_netTimer s = Some (fst x)))"

definition layout_wake :: "runtime \<Rightarrow> bool" where
  "layout_wake r \<longleftrightarrow>
     (let s = rt_state r in
      (cs_dead s \<or> \<not> cs_pageLoadSeen s \<or> cs_layoutFired s \<or> (\<exists>t. (t, cs_navSeq s) \<in> layout_tokens r)) \<and>
      length (rt_layoutArmed r) \<le> 1 \<and> (\<forall>y \<in> set (rt_layoutArmed r). cs_layoutTimer s = Some (fst y)))"

lemma stop_timer_all:
  "(\<And>x. x \<in> set xs \<Longrightarrow> t = Some (fst x)) \<Longrightarrow> stop_timer t xs = []"
  by (force simp: stop_timer_def filter_empty_conv)

lemma stop_net_armed: "net_wake r \<Longrightarrow> rt_netArmed (stop_net r) = []"
  by (simp add: stop_net_def net_wake_def Let_def stop_timer_all)

lemma stop_layout_armed: "layout_wake r \<Longrightarrow> rt_layoutArmed (stop_layout r) = []"
  by (simp add: stop_layout_def layout_wake_def Let_def stop_timer_all)

lemma pendingNavigationSettled_frame:
  "pendingNavigationSettled s = (s', evs) \<Longrightarrow>
     cs_dead s' = cs_dead s \<and> cs_navSeq s' = cs_navSeq s \<and> cs_netPending s' = cs_netPending s \<and>
     cs_netFired s' = cs_netFired s \<and> cs_netTimer s' = cs_netTimer s \<and> cs_pageLoadSeen s' = cs_pageLoadSeen s \<and>
     cs_layoutFired s' = cs_layoutFired s \<and> cs_layoutTimer s' = cs_layoutTimer s"
  by (auto simp: pendingNavigationSettled_def split: if_splits)

lemmas runtime_defs = resetOnNavigation_def onRequest_def onLoadingFinished_def onPageLoad_def onLayoutShift_def
  onDOMContentLoaded_def computed_stop_def startNetIdleTimer_def start_layout_def net_idle_runs_def
  emitLayoutSettled_def decide_def on_state_def stop_net_def stop_layout_def

lemma only_element: "length xs \<le> 1 \<Longrightarrow> x \<in> set xs \<Longrightarrow> xs = [x]"
  by (cases xs) auto

lemma stop_timer_None [simp]: "stop_timer None xs = xs"
  by (simp add: stop_timer_def)

lemma net_wake_step:
  assumes "computed_step extension_host bundled r r'" "net_wake r"
  shows "net_wake r'"
proof -
  let ?s = "rt_state r"
  have w: "0 \<le> cs_netPending ?s" "0 \<le> cs_navSeq ?s" "length (rt_netArmed r) \<le> 1"
      "\<And>x. x \<in> set (rt_netArmed r) \<Longrightarrow> cs_netTimer ?s = Some (fst x)"
      "cs_dead ?s \<or> cs_navSeq ?s = 0 \<or> 0 < cs_netPending ?s \<or> cs_netFired ?s \<or> (\<exists>t m. (t, cs_navSeq ?s, m) \<in> net_tokens r)"
    using assms(2) by (auto simp: net_wake_def Let_def)
  have st: "stop_timer (cs_netTimer ?s) (rt_netArmed r) = []" using w(4) by (rule stop_timer_all)
  from assms(1) show ?thesis
  proof cases
    case (navigates inflight ctx)
    show ?thesis unfolding navigates(1) using w(2) navigates(2)
      by (cases "inflight = 0"; cases "cs_dead ?s";
          simp add: net_wake_def Let_def runtime_defs st net_tokens_def; blast?)
  next
    case requests
    then show ?thesis using w by (auto simp: net_wake_def Let_def runtime_defs st)
  next
    case finishes
    show ?thesis
    proof (cases "cs_dead ?s \<or> 0 < max 0 (cs_netPending ?s - 1) \<or> cs_netFired ?s")
      case True
      then show ?thesis unfolding finishes using w
        by (auto simp: net_wake_def Let_def onLoadingFinished_def on_state_def net_tokens_def)
    next
      case False
      then show ?thesis unfolding finishes using w(2) by (auto simp: net_wake_def Let_def runtime_defs st net_tokens_def)
    qed
  next
    case loads
    then show ?thesis using w by (auto simp: net_wake_def Let_def runtime_defs net_tokens_def)
  next
    case shifts
    then show ?thesis using w by (auto simp: net_wake_def Let_def runtime_defs net_tokens_def)
  next
    case parses
    obtain s evs where p: "pendingNavigationSettled (?s\<lparr>cs_navDOMLoaded := True\<rparr>) = (s, evs)" by fastforce
    show ?thesis unfolding parses using w pendingNavigationSettled_frame[OF p]
      by (auto simp: net_wake_def Let_def onDOMContentLoaded_def p decide_def net_tokens_def)
  next
    case stops
    then show ?thesis using w by (auto simp: net_wake_def Let_def runtime_defs st)
  next
    case (net_fires x)
    have "rt_netArmed r = [x]" by (rule only_element[OF w(3) net_fires(2)])
    then show ?thesis unfolding net_fires(1) using w by (auto simp: net_wake_def Let_def net_tokens_def)
  next
    case (layout_fires y)
    then show ?thesis using w by (auto simp: net_wake_def Let_def net_tokens_def)
  next
    case (net_runs t n m)
    then show ?thesis using w by (auto simp: net_wake_def Let_def net_idle_runs_def decide_def on_state_def net_tokens_def)
  next
    case (layout_runs t n)
    let ?u = "?s\<lparr>cs_layoutFired := True, cs_navLayoutSettled := True\<rparr>"
    obtain s evs where p: "pendingNavigationSettled ?u = (s, evs)" by fastforce
    show ?thesis unfolding layout_runs(1) using w pendingNavigationSettled_frame[OF p]
      by (auto simp: net_wake_def Let_def emitLayoutSettled_def p decide_def net_tokens_def)
  next
    case (publishes i e es)
    then show ?thesis using w by (auto simp: net_wake_def Let_def net_tokens_def)
  qed
qed

lemma layout_wake_step:
  assumes "computed_step extension_host bundled r r'" "layout_wake r"
  shows "layout_wake r'"
proof -
  let ?s = "rt_state r"
  have w: "length (rt_layoutArmed r) \<le> 1"
      "\<And>x. x \<in> set (rt_layoutArmed r) \<Longrightarrow> cs_layoutTimer ?s = Some (fst x)"
      "cs_dead ?s \<or> \<not> cs_pageLoadSeen ?s \<or> cs_layoutFired ?s \<or> (\<exists>t. (t, cs_navSeq ?s) \<in> layout_tokens r)"
    using assms(2) by (auto simp: layout_wake_def Let_def)
  have st: "stop_timer (cs_layoutTimer ?s) (rt_layoutArmed r) = []" using w(2) by (rule stop_timer_all)
  from assms(1) show ?thesis
  proof cases
    case (navigates inflight ctx)
    show ?thesis unfolding navigates(1)
      by (cases "inflight = 0"; cases "cs_dead ?s") (simp_all add: layout_wake_def Let_def runtime_defs st)
  next
    case requests
    then show ?thesis using w by (auto simp: layout_wake_def Let_def runtime_defs layout_tokens_def)
  next
    case finishes
    then show ?thesis using w by (auto simp: layout_wake_def Let_def runtime_defs layout_tokens_def)
  next
    case loads
    then show ?thesis using w by (auto simp: layout_wake_def Let_def runtime_defs st layout_tokens_def)
  next
    case shifts
    then show ?thesis using w by (auto simp: layout_wake_def Let_def runtime_defs st layout_tokens_def)
  next
    case parses
    obtain s evs where p: "pendingNavigationSettled (?s\<lparr>cs_navDOMLoaded := True\<rparr>) = (s, evs)" by fastforce
    show ?thesis unfolding parses using w pendingNavigationSettled_frame[OF p]
      by (auto simp: layout_wake_def Let_def onDOMContentLoaded_def p decide_def layout_tokens_def)
  next
    case stops
    then show ?thesis using w by (auto simp: layout_wake_def Let_def runtime_defs st)
  next
    case (net_fires x)
    then show ?thesis using w by (auto simp: layout_wake_def Let_def layout_tokens_def)
  next
    case (layout_fires y)
    have "rt_layoutArmed r = [y]" by (rule only_element[OF w(1) layout_fires(2)])
    then show ?thesis unfolding layout_fires(1) using w by (auto simp: layout_wake_def Let_def layout_tokens_def)
  next
    case (net_runs t n m)
    then show ?thesis using w
      by (auto simp: layout_wake_def Let_def net_idle_runs_def decide_def on_state_def layout_tokens_def)
  next
    case (layout_runs t n)
    let ?u = "?s\<lparr>cs_layoutFired := True, cs_navLayoutSettled := True\<rparr>"
    obtain s evs where p: "pendingNavigationSettled ?u = (s, evs)" by fastforce
    show ?thesis unfolding layout_runs(1) using w pendingNavigationSettled_frame[OF p]
      by (auto simp: layout_wake_def Let_def emitLayoutSettled_def p decide_def layout_tokens_def)
  next
    case (publishes i e es)
    then show ?thesis using w by (auto simp: layout_wake_def Let_def layout_tokens_def)
  qed
qed

text \<open>Navigation settled is decided at once with the second of its two conditions.\<close>

definition settled_wake :: "runtime \<Rightarrow> bool" where
  "settled_wake r \<longleftrightarrow>
     (let s = rt_state r in cs_dead s \<or> \<not> cs_navDOMLoaded s \<or> \<not> cs_navLayoutSettled s \<or> cs_navFired s)"

lemma settled_wake_step:
  assumes "computed_step extension_host bundled r r'" "settled_wake r"
  shows "settled_wake r'"
  using assms(1)
proof cases
  case (navigates inflight ctx)
  then show ?thesis by (simp add: settled_wake_def Let_def runtime_defs)
next
  case parses
  then show ?thesis
    by (simp add: settled_wake_def Let_def onDOMContentLoaded_def decide_def pendingNavigationSettled_def)
next
  case (layout_runs t n)
  then show ?thesis using assms(2)
    by (auto simp: settled_wake_def Let_def emitLayoutSettled_def decide_def pendingNavigationSettled_def)
next
  case (net_runs t n m)
  show ?thesis unfolding net_runs(1) using assms(2)
    by (auto simp: settled_wake_def Let_def net_idle_runs_def decide_def on_state_def)
qed (use assms(2) in \<open>auto simp: settled_wake_def Let_def runtime_defs\<close>)

section \<open>Reachable states\<close>

definition wake_inv :: "runtime \<Rightarrow> bool" where
  "wake_inv r \<longleftrightarrow> net_wake r \<and> layout_wake r \<and> settled_wake r"

lemma events_inv_new: "events_inv extension_host bundled new_runtime"
  by (simp add: events_inv_def nav_ok_def flags_ok_def history_ok_def new_runtime_def newComputedState_def Let_def
      ctx_of_def meta_of_def decided_keys_def net_tokens_def)

lemma wake_inv_new: "wake_inv new_runtime"
  by (simp add: wake_inv_def net_wake_def layout_wake_def settled_wake_def new_runtime_def newComputedState_def Let_def)

lemma reachable_events_inv:
  "(computed_step extension_host bundled)\<^sup>*\<^sup>* new_runtime r \<Longrightarrow> events_inv extension_host bundled r"
  by (induction rule: rtranclp_induct) (blast intro: events_inv_new events_inv_step)+

lemma reachable_wake_inv:
  "(computed_step extension_host bundled)\<^sup>*\<^sup>* new_runtime r \<Longrightarrow> wake_inv r"
  by (induction rule: rtranclp_induct)
    (use wake_inv_new net_wake_step layout_wake_step settled_wake_step in \<open>auto simp: wake_inv_def\<close>)

lemma dead_step:
  assumes "computed_step extension_host bundled r r'" "cs_dead (rt_state r)"
  shows "cs_dead (rt_state r') \<and> rt_decided r' = rt_decided r"
  using assms(1)
proof cases
  case (navigates inflight ctx)
  show ?thesis unfolding navigates(1) using assms(2) by (simp add: runtime_defs Let_def)
next
  case parses
  show ?thesis unfolding parses using assms(2)
    by (simp add: onDOMContentLoaded_def decide_def pendingNavigationSettled_def)
next
  case (layout_runs t n)
  show ?thesis unfolding layout_runs(1) using assms(2) by (simp add: emitLayoutSettled_def)
next
  case (net_runs t n m)
  show ?thesis unfolding net_runs(1) using assms(2) by (simp add: net_idle_runs_def)
next
  case requests
  show ?thesis unfolding requests using assms(2) by (simp add: onRequest_def)
next
  case finishes
  show ?thesis unfolding finishes using assms(2) by (simp add: onLoadingFinished_def)
next
  case loads
  show ?thesis unfolding loads using assms(2) by (simp add: onPageLoad_def)
next
  case shifts
  show ?thesis unfolding shifts using assms(2) by (simp add: onLayoutShift_def)
next
  case stops
  show ?thesis unfolding stops by (simp add: computed_stop_def on_state_def stop_net_def stop_layout_def)
qed (use assms(2) in simp_all)

lemma dead_steps:
  "(computed_step extension_host bundled)\<^sup>*\<^sup>* r r' \<Longrightarrow> cs_dead (rt_state r) \<Longrightarrow>
     cs_dead (rt_state r') \<and> rt_decided r' = rt_decided r"
proof (induction rule: rtranclp_induct)
  case (step y z)
  then show ?case using dead_step[OF step.hyps(2)] by simp
qed simp

lemma published_sub:
  assumes "history_ok extension_host bundled r"
  shows "set (rt_published r) \<subseteq> set (rt_decided r) \<and> distinct (map key_of (rt_published r))"
proof -
  have m: "mset (rt_decided r) = mset (rt_published r @ concat (rt_outbox r))"
    using assms by (simp add: history_ok_def)
  have "mset (map key_of (rt_decided r)) = mset (map key_of (rt_published r @ concat (rt_outbox r)))"
    unfolding mset_map m ..
  moreover have "distinct (map key_of (rt_decided r))" using assms by (simp add: history_ok_def)
  ultimately have "distinct (map key_of (rt_published r @ concat (rt_outbox r)))"
    using mset_eq_imp_distinct_iff by blast
  moreover have "set (rt_decided r) = set (rt_published r @ concat (rt_outbox r))"
    using m by (rule mset_eq_setD)
  ultimately show ?thesis by simp
qed

section \<open>Properties\<close>

text \<open> C32. Computed events are exact: in every interleaving of CDP handlers, timers and publications,
  each published event carries the payload and the metadata of one navigation; no kind of event is
  published twice for a navigation; navigation settled comes only to a navigation for which layout
  settled was decided; and once the state is stopped nothing more is ever decided, so that all
  that is still published are the events decided before, each of them at most once.\<close>

theorem computed_events_exact:
  assumes "(computed_step extension_host bundled)\<^sup>*\<^sup>* new_runtime r"
  shows "(\<forall>e \<in> set (rt_published r). event_of_nav extension_host bundled (rt_navs r) e) \<and>
    distinct (map key_of (rt_published r)) \<and>
    (\<forall>e \<in> set (rt_published r). ne_Type e = EventNavigationSettled \<longrightarrow>
       (EventLayoutSettled, ne_seq e) \<in> decided_keys r) \<and>
    (cs_dead (rt_state r) \<longrightarrow>
       (\<forall>r'. (computed_step extension_host bundled)\<^sup>*\<^sup>* r r' \<longrightarrow> rt_decided r' = rt_decided r \<and>
          mset (rt_published r') \<subseteq># mset (rt_published r) + mset (concat (rt_outbox r))))"
proof (intro conjI ballI impI allI)
  have h: "history_ok extension_host bundled r"
    using reachable_events_inv[OF assms] by (simp add: events_inv_def)
  note p = published_sub[OF h]
  show "event_of_nav extension_host bundled (rt_navs r) e" if "e \<in> set (rt_published r)" for e
    using p h that by (auto simp: history_ok_def)
  show "distinct (map key_of (rt_published r))" using p by simp
  show "(EventLayoutSettled, ne_seq e) \<in> decided_keys r"
    if e: "e \<in> set (rt_published r)" "ne_Type e = EventNavigationSettled" for e
  proof -
    have "(EventNavigationSettled, ne_seq e) \<in> decided_keys r"
      using p e unfolding decided_keys_def by (force simp: key_of_def)
    then show ?thesis using h by (simp add: history_ok_def)
  qed
  show "rt_decided r' = rt_decided r"
    if "cs_dead (rt_state r)" "(computed_step extension_host bundled)\<^sup>*\<^sup>* r r'" for r'
    using dead_steps[OF that(2,1)] by simp
  show "mset (rt_published r') \<subseteq># mset (rt_published r) + mset (concat (rt_outbox r))"
    if d: "cs_dead (rt_state r)" "(computed_step extension_host bundled)\<^sup>*\<^sup>* r r'" for r'
  proof -
    have "history_ok extension_host bundled r'"
      using reachable_events_inv[OF rtranclp_trans[OF assms d(2)]] by (simp add: events_inv_def)
    moreover have "rt_decided r' = rt_decided r" using dead_steps[OF d(2,1)] by simp
    ultimately have "mset (rt_published r) + mset (concat (rt_outbox r)) = mset (rt_published r') + mset (concat (rt_outbox r'))"
      using h by (simp only: history_ok_def)
    then show ?thesis by simp
  qed
qed

text \<open> C33. No computed event is lost: while the state is not stopped, a navigation without requests in
  flight that is not yet idle has a timer armed or running that decides network idle, a loaded page
  that is not yet settled has one that decides layout settled (and navigation settled with it when
  the document was parsed), and a parsed document with a settled layout has its navigation settled
  decided; never is more than one timer of a kind armed.\<close>

theorem settled_not_lost:
  assumes "(computed_step extension_host bundled)\<^sup>*\<^sup>* new_runtime r" "\<not> cs_dead (rt_state r)"
  shows "let s = rt_state r; n = cs_navSeq s in
    (1 \<le> n \<and> cs_netPending s = 0 \<and> \<not> cs_netFired s \<longrightarrow>
       (\<exists>t m. (t, n, m) \<in> net_tokens r \<and>
          rt_decided (net_idle_runs n m r) = rt_decided r @ [nav_event_of EventNetworkIdle Network m s])) \<and>
    (cs_pageLoadSeen s \<and> \<not> cs_layoutFired s \<longrightarrow>
       (\<exists>t. (t, n) \<in> layout_tokens r) \<and>
       rt_decided (emitLayoutSettled n r) =
         rt_decided r @ nav_event_of EventLayoutSettled Page (cs_navMeta s) s #
           (if cs_navDOMLoaded s then [nav_event_of EventNavigationSettled Page (cs_navMeta s) s] else [])) \<and>
    (cs_navDOMLoaded s \<and> cs_layoutFired s \<longrightarrow> (EventNavigationSettled, n) \<in> decided_keys r) \<and>
    length (rt_netArmed r) \<le> 1 \<and> length (rt_layoutArmed r) \<le> 1"
proof -
  let ?s = "rt_state r"
  have w: "net_wake r" "layout_wake r" "settled_wake r"
    using reachable_wake_inv[OF assms(1)] by (simp_all add: wake_inv_def)
  have fl: "flags_ok r" using reachable_events_inv[OF assms(1)] by (simp add: events_inv_def)
  have "\<exists>t m. (t, cs_navSeq ?s, m) \<in> net_tokens r \<and>
      rt_decided (net_idle_runs (cs_navSeq ?s) m r) = rt_decided r @ [nav_event_of EventNetworkIdle Network m ?s]"
    if "1 \<le> cs_navSeq ?s" "cs_netPending ?s = 0" "\<not> cs_netFired ?s"
  proof -
    have "\<exists>t m. (t, cs_navSeq ?s, m) \<in> net_tokens r"
      using w(1) assms(2) that unfolding net_wake_def Let_def by auto
    then obtain t m where "(t, cs_navSeq ?s, m) \<in> net_tokens r" by blast
    moreover have "rt_decided (net_idle_runs (cs_navSeq ?s) m r) = rt_decided r @ [nav_event_of EventNetworkIdle Network m ?s]"
      using assms(2) that by (simp add: net_idle_runs_def Let_def decide_def on_state_def)
    ultimately show ?thesis by blast
  qed
  moreover have "\<exists>t. (t, cs_navSeq ?s) \<in> layout_tokens r" if "cs_pageLoadSeen ?s" "\<not> cs_layoutFired ?s"
    using w(2) assms(2) that by (auto simp: layout_wake_def Let_def)
  moreover have "\<not> cs_navFired ?s" if "\<not> cs_layoutFired ?s" using fl that by (auto simp: flags_ok_def Let_def)
  then have "rt_decided (emitLayoutSettled (cs_navSeq ?s) r) =
      rt_decided r @ nav_event_of EventLayoutSettled Page (cs_navMeta ?s) ?s #
        (if cs_navDOMLoaded ?s then [nav_event_of EventNavigationSettled Page (cs_navMeta ?s) ?s] else [])"
    if "cs_pageLoadSeen ?s" "\<not> cs_layoutFired ?s"
    using assms(2) that
    by (simp add: emitLayoutSettled_def Let_def pendingNavigationSettled_def decide_def nav_event_of_def)
  moreover have "(EventNavigationSettled, cs_navSeq ?s) \<in> decided_keys r" if "cs_navDOMLoaded ?s" "cs_layoutFired ?s"
    using w(3) fl assms(2) that by (simp add: settled_wake_def flags_ok_def Let_def)
  moreover have "length (rt_netArmed r) \<le> 1" "length (rt_layoutArmed r) \<le> 1"
    using w(1,2) by (simp_all add: net_wake_def layout_wake_def Let_def)
  ultimately show ?thesis unfolding Let_def by blast
qed

text \<open> C34. A page cannot forge the identity of a navigation: whatever members the page puts into its
  payload, once a navigation was seen the event carries session, target, frame, loader, URL and
  sequence number of the last navigation, and the page's members only under other names. Before the
  first navigation there is nothing to protect the names, and the payload is the page's own.\<close>

theorem nav_identity_unforgeable:
  assumes "(computed_step extension_host bundled)\<^sup>*\<^sup>* new_runtime r"
  shows "\<exists>ms. navDataWith (Some (rt_state r)) extra = JObject ms \<and> map_ok ms \<and>
    (rt_navs r \<noteq> [] \<longrightarrow>
       map_of ms = map_of (rev extra) ++ map_of (nav_data (last (rt_navs r)) (int (length (rt_navs r)))) \<and>
       map_of ms ''session_id'' = Some (jstr (nc_sessionID (last (rt_navs r)))) \<and>
       map_of ms ''target_id'' = Some (jstr (nc_targetID (last (rt_navs r)))) \<and>
       map_of ms ''url'' = Some (jstr (nc_url (last (rt_navs r)))) \<and>
       map_of ms ''nav_seq'' = Some (JNumber (IntLit (int (length (rt_navs r)))))) \<and>
    (rt_navs r = [] \<longrightarrow> map_of ms = map_of (rev extra))"
proof -
  let ?s = "rt_state r" and ?navs = "rt_navs r"
  let ?ms = "put_all (cs_navData ?s) (put_all extra [])"
  have nav: "nav_ok extension_host bundled r"
    using reachable_events_inv[OF assms] by (simp add: events_inv_def)
  have base: "cs_navData ?s = (if ?navs = [] then [] else nav_data (last ?navs) (int (length ?navs)))"
    using nav by (simp add: nav_ok_def Let_def ctx_of_def last_conv_nth nat_diff_distrib Suc_le_eq)
  have ok: "map_ok (nav_data c n)" for c n
    unfolding nav_data_def by (rule map_ok_put_all) simp
  have ms: "map_of ?ms = map_of (rev extra) ++ map_of (nav_data (last ?navs) (int (length ?navs)))" if "?navs \<noteq> []"
    using that ok by (simp add: base map_of_put_all map_of_rev_distinct map_ok_distinct)
  have data: "map_of (nav_data c n) = map_of (rev [(''session_id'', jstr (nc_sessionID c)), (''target_id'', jstr (nc_targetID c)),
       (''target_type'', jstr (nc_targetType c)), (''frame_id'', jstr (nc_frameID c)),
       (''loader_id'', jstr (nc_loaderID c)), (''url'', jstr (nc_url c)), (''nav_seq'', JNumber (IntLit n))])" for c n
    unfolding nav_data_def by (simp only: map_of_put_all map_ok_Nil map_of.simps(1) empty_map_add)
  show ?thesis
  proof (intro exI conjI impI)
    show "navDataWith (Some ?s) extra = JObject ?ms" by (simp add: navDataWith_def navSnapshot_def)
    show "map_ok ?ms" by simp
    show "map_of ?ms = map_of (rev extra)" if "?navs = []"
      using that by (simp add: base map_of_put_all)
  qed (use ms in \<open>simp_all add: data\<close>)
qed

section \<open>Runs\<close>

definition run_ctx :: navContext where
  "run_ctx = \<lparr>nc_sessionID = ''S'', nc_targetID = ''T'', nc_targetType = ''page'', nc_frameID = ''F'',
     nc_loaderID = ''L'', nc_url = ''about:blank''\<rparr>"

text \<open>A page that loads and settles: its events are published one by one.\<close>

definition run_loaded :: runtime where
  "run_loaded = onDOMContentLoaded (onPageLoad (resetOnNavigation (\<lambda>_. None) (\<lambda>_. False) 0 run_ctx new_runtime))"

definition run_fired :: runtime where
  "run_fired = run_loaded\<lparr>rt_layoutArmed := [], rt_layoutRunning := [(1, 1)]\<rparr>"

definition run_settled :: runtime where
  "run_settled = emitLayoutSettled 1 (run_fired\<lparr>rt_layoutRunning := []\<rparr>)"

definition run_event :: "string \<Rightarrow> nav_event" where
  "run_event ty = \<lparr>ne_Type = ty, ne_Category = Page, ne_Metadata = nav_meta (\<lambda>_. None) (\<lambda>_. False) run_ctx,
     ne_Data = marshalNavEventContext run_ctx 1, ne_seq = 1\<rparr>"

definition run_published :: runtime where
  "run_published = run_settled\<lparr>rt_outbox := [[], []],
     rt_published := [run_event EventLayoutSettled, run_event EventNavigationSettled]\<rparr>"

lemma step_to:
  "(computed_step extension_host bundled)\<^sup>*\<^sup>* a b \<Longrightarrow> computed_step extension_host bundled b c \<Longrightarrow> c = d \<Longrightarrow>
     (computed_step extension_host bundled)\<^sup>*\<^sup>* a d"
  by auto

lemma run_loaded_reachable: "(computed_step (\<lambda>_. None) (\<lambda>_. False))\<^sup>*\<^sup>* new_runtime run_loaded"
  unfolding run_loaded_def
  by (rule step_to[OF step_to[OF step_to[OF rtranclp.rtrancl_refl computed_step.navigates refl]
        computed_step.loads refl] computed_step.parses refl]) simp

lemmas run_simps = run_loaded_def run_fired_def runtime_defs Let_def new_runtime_def newComputedState_def
  pendingNavigationSettled_def nav_event_of_def run_event_def

lemma run_loaded_layout: "rt_layoutArmed run_loaded = [(1, 1)]" "rt_layoutRunning run_loaded = []"
  by (simp_all add: run_simps)

lemma run_settled_outbox:
  "rt_outbox run_settled = [[], [run_event EventLayoutSettled, run_event EventNavigationSettled]]"
  "rt_published run_settled = []"
  by (simp_all add: run_settled_def run_simps)

lemma run_published_reachable: "(computed_step (\<lambda>_. None) (\<lambda>_. False))\<^sup>*\<^sup>* new_runtime run_published"
proof -
  let ?step = "computed_step (\<lambda>_. None) (\<lambda>_. False)"
  have "?step\<^sup>*\<^sup>* new_runtime run_fired"
    by (rule step_to[OF run_loaded_reachable computed_step.layout_fires[of "(1, 1)"]])
      (simp_all add: run_loaded_layout run_fired_def)
  then have settled: "?step\<^sup>*\<^sup>* new_runtime run_settled"
    by (rule step_to[OF _ computed_step.layout_runs[of 1 1]]) (simp_all add: run_fired_def run_settled_def)
  let ?mid = "run_settled\<lparr>rt_outbox := [[], [run_event EventNavigationSettled]],
     rt_published := [run_event EventLayoutSettled]\<rparr>"
  have "?step\<^sup>*\<^sup>* new_runtime ?mid"
    by (rule step_to[OF settled computed_step.publishes[of 1]]) (simp_all add: run_settled_outbox)
  then show ?thesis
    by (rule step_to[OF _ computed_step.publishes[of 1]]) (simp_all add: run_published_def)
qed

theorem computed_events_exact_witness:
  "map key_of (rt_published run_published) = [(EventLayoutSettled, 1), (EventNavigationSettled, 1)] \<and>
   distinct (map key_of (rt_published run_published)) \<and>
   (EventLayoutSettled, 1) \<in> decided_keys run_published"
  using computed_events_exact[OF run_published_reachable]
  by (simp add: run_published_def key_of_def run_event_def)

theorem settled_not_lost_witness:
  "cs_pageLoadSeen (rt_state run_loaded) \<and> \<not> cs_layoutFired (rt_state run_loaded) \<and>
   (\<exists>t. (t, cs_navSeq (rt_state run_loaded)) \<in> layout_tokens run_loaded)"
proof -
  have s: "\<not> cs_dead (rt_state run_loaded)" "cs_pageLoadSeen (rt_state run_loaded)"
      "\<not> cs_layoutFired (rt_state run_loaded)"
    by (simp_all add: run_simps)
  show ?thesis using settled_not_lost[OF run_loaded_reachable s(1)] s(2,3) by (simp add: Let_def)
qed

theorem nav_identity_unforgeable_witness:
  "\<exists>ms. navDataWith (Some (rt_state run_loaded)) [(''session_id'', jstr ''forged''), (''x'', JNull)] = JObject ms \<and>
     map_of ms ''session_id'' = Some (jstr ''S'')"
proof -
  have "rt_navs run_loaded = [run_ctx]" by (simp add: run_simps)
  then show ?thesis
    using nav_identity_unforgeable[OF run_loaded_reachable, of "[(''session_id'', jstr ''forged''), (''x'', JNull)]"]
    by (auto simp: run_ctx_def)
qed

end
