(* ===== verification/ResponseDrain.thy ===== *)
theory ResponseDrain
  imports ScaleToZero "HOL-Library.Multiset" "HOL-Library.Word"
begin

text \<open>
  Holds of responses and their connections (\<open>lib/scaletozero/connection.go\<close>, the rest of
  \<open>lib/scaletozero/middleware.go\<close>): a response keeps scale-to-zero off until its handler is done and
  its bytes have left the machine or its connection has ended. Each section under the mutex of a
  connection is one step, each goroutine a task; what the sockets do is an argument of the step. The
  release of a hold by the goroutine that closes it is a step of the controller (\<open>ReleaseRuns\<close>).
\<close>

section \<open>Outcomes and polling\<close>

datatype responseDrainOutcome =
    DrainComplete | CloseAcknowledged | TimeoutHit | IOError | NonTCP | WriteError | SourceReadError
  | DeadlineClearError | ConnectionClosed | ConnectionHijacked | ConnectionReused | AbortError
  | MonitorLimit | GuestTermination

datatype responseCloseState = ClosePending | CloseAck | CloseTerminated

text \<open>The result of a socket call: an error may say that the connection is gone already.\<close>

datatype os_result = OsOk | OsTerminal | OsError

definition isTerminalConnectionError :: "os_result \<Rightarrow> bool" where
  "isTerminalConnectionError e \<longleftrightarrow> e = OsTerminal"

definition responseDrainInitialPollInterval :: int where "responseDrainInitialPollInterval = 1000000"
definition responseDrainMaxPollInterval :: int where "responseDrainMaxPollInterval = 100 * 1000000"
definition responseDrainTimeout :: int where "responseDrainTimeout = 5 * 60 * 1000000000"
definition maxResponseCloseMonitors :: nat where "maxResponseCloseMonitors = 256"

text \<open>
  A round of polling: the time that is left, whether the context is done when the timer fires, and
  what the socket reports. \<open>None\<close> means that the rounds given do not suffice. The last component
  lists the times slept.
\<close>

record poll =
  po_remaining :: int
  po_done :: bool
  po_outbound :: "os_result + int"

datatype wait_result = Waited responseDrainOutcome int | Canceled

fun drain_rounds :: "poll list \<Rightarrow> int \<Rightarrow> int \<Rightarrow> int list \<Rightarrow> (wait_result \<times> int list) option" where
  "drain_rounds [] interval queued slept = None"
| "drain_rounds (p # ps) interval queued slept =
     (if po_remaining p \<le> 0 then Some (Waited TimeoutHit queued, slept)
      else let interval = (if interval > po_remaining p then po_remaining p else interval);
               slept = slept @ [interval] in
        if po_done p then Some (Canceled, slept)
        else (case po_outbound p of
            Inl e \<Rightarrow> Some (Waited IOError 0, slept)
          | Inr q \<Rightarrow>
              if q = 0 then Some (Waited DrainComplete 0, slept)
              else drain_rounds ps (min (interval * 2) responseDrainMaxPollInterval) q slept))"

definition waitForResponseDrain :: "os_result + int \<Rightarrow> poll list \<Rightarrow> (wait_result \<times> int list) option" where
  "waitForResponseDrain first ps =
     (case first of
        Inl e \<Rightarrow> Some (Waited IOError 0, [])
      | Inr q \<Rightarrow> if q = 0 then Some (Waited DrainComplete 0, [])
                 else drain_rounds ps responseDrainInitialPollInterval q [])"

record close_poll =
  cp_outbound :: "os_result + int"
  cp_state :: "os_result + responseCloseState"
  cp_remaining :: int

text \<open>\<open>waitForClosedResponse\<close> returns the error of the socket call beside the outcome.\<close>

fun waitForClosedResponse :: "close_poll list \<Rightarrow> (responseDrainOutcome \<times> int \<times> os_result) option" where
  "waitForClosedResponse [] = None"
| "waitForClosedResponse (p # ps) =
     (case cp_outbound p of
        Inl e \<Rightarrow> Some (IOError, 0, e)
      | Inr queued \<Rightarrow>
          (case cp_state p of
             Inl e \<Rightarrow> Some (IOError, queued, e)
           | Inr st \<Rightarrow>
               if st = CloseTerminated then Some (ConnectionClosed, queued, OsOk)
               else if queued = 0 \<and> st = CloseAck then Some (CloseAcknowledged, 0, OsOk)
               else if cp_remaining p \<le> 0 then Some (TimeoutHit, queued, OsOk)
               else waitForClosedResponse ps))"

definition isSafeClosedResponseOutcome :: "responseDrainOutcome \<Rightarrow> bool" where
  "isSafeClosedResponseOutcome outcome \<longleftrightarrow> outcome = CloseAcknowledged \<or> outcome = ConnectionClosed"

text \<open>The states of TCP that tell a close was acknowledged or the connection is gone.\<close>

definition inspectResponseClose :: "os_result + nat \<Rightarrow> os_result + responseCloseState" where
  "inspectResponseClose info =
     (case info of
        Inl e \<Rightarrow> Inl e
      | Inr st \<Rightarrow> Inr (if st = 5 \<or> st = 6 then CloseAck else if st = 7 then CloseTerminated else ClosePending))"

text \<open>Aborting a socket: the descriptor is released even when closing it fails.\<close>

definition abortSocketWith :: "os_result \<Rightarrow> os_result \<Rightarrow> os_result" where
  "abortSocketWith setLinger closeFD = (if setLinger \<noteq> OsOk then setLinger else OsOk)"

definition abortConnection :: "os_result \<Rightarrow> os_result \<Rightarrow> os_result" where
  "abortConnection setLinger close = (if setLinger \<noteq> OsOk then setLinger else close)"

section \<open>Connections\<close>

datatype conn_state = StateNew | StateActive | StateIdle | StateHijacked

text \<open>
  Requests are named by their number. \<open>dc_drainCancel\<close> is the context of the goroutine that waits
  for the queue; \<open>dc_nextCtx\<close> and \<open>dc_cancelled\<close> name the contexts and tell which are cancelled.
  \<open>dc_ended\<close> records that a socket call told the connection is gone: the code does not keep it.
\<close>

record drainConn =
  dc_pending :: "nat list"
  dc_state :: conn_state
  dc_generation :: "64 word"
  dc_drainCancel :: "nat option"
  dc_closed :: bool
  dc_closing :: bool
  dc_hijackedConn :: bool
  dc_writeTimeout :: int
  dc_writeDeadline :: "int option"
  dc_setDeadline :: bool
  dc_nextCtx :: nat
  dc_cancelled :: "nat list"
  dc_ended :: bool

definition new_drainConn :: drainConn where
  "new_drainConn =
     \<lparr>dc_pending = [], dc_state = StateNew, dc_generation = 0, dc_drainCancel = None, dc_closed = False,
      dc_closing = False, dc_hijackedConn = False, dc_writeTimeout = 0, dc_writeDeadline = None,
      dc_setDeadline = False, dc_nextCtx = 0, dc_cancelled = [], dc_ended = False\<rparr>"

text \<open>
  The goroutines: a request before it is registered and one whose handler runs; a wait for the queue
  of an idle connection; drains about to be completed; the end of a hijack, of an abort and of a
  close, without the mutex; the recovery of a connection that cannot be aborted; the monitor of a
  closed one, before and in its retries and while it completes; and the end of the guest.
\<close>

datatype task =
    Admit nat
  | Handle nat
  | IdleWait nat "64 word"
  | Completing "nat list" responseDrainOutcome
  | HijackEnd "nat list" bool
  | AbortEnd "nat list" responseDrainOutcome
  | CloseEnd "nat list" bool
  | RecoverStart "nat list" responseDrainOutcome
  | Recover "nat list" responseDrainOutcome
  | MonitorStart "nat list" bool "responseDrainOutcome option"
  | MonitorWait "nat list" bool "responseDrainOutcome option"
  | MonitorRetry "nat list" responseDrainOutcome "responseDrainOutcome option"
  | MonitorEnd "nat list" responseDrainOutcome
  | Terminating "nat list" bool

definition configure :: "int \<Rightarrow> drainConn \<Rightarrow> drainConn" where
  "configure timeout c = c\<lparr>dc_writeTimeout := timeout, dc_setDeadline := True\<rparr>"

definition cancel_drain :: "drainConn \<Rightarrow> drainConn" where
  "cancel_drain c =
     (case dc_drainCancel c of
        None \<Rightarrow> c
      | Some ctx \<Rightarrow> c\<lparr>dc_cancelled := dc_cancelled c @ [ctx], dc_drainCancel := None\<rparr>)"

text \<open>\<open>addDrain\<close>: whether the request may go on, and the drains this completes.\<close>

definition addDrain :: "nat \<Rightarrow> drainConn \<Rightarrow> drainConn \<times> bool \<times> task list" where
  "addDrain r c =
     (if dc_hijackedConn c then (c, False, [Completing [r] ConnectionHijacked])
      else if dc_closed c \<or> dc_closing c then (c, False, [Completing [r] ConnectionClosed])
      else (c\<lparr>dc_pending := [r]\<rparr>, True, [Completing (dc_pending c) ConnectionReused]))"

definition activate :: "drainConn \<Rightarrow> drainConn" where
  "activate c =
     (if dc_closed c \<or> dc_hijackedConn c then c
      else cancel_drain (c\<lparr>dc_state := StateActive, dc_generation := dc_generation c + 1\<rparr>))"

definition startIdleDrain :: "drainConn \<Rightarrow> drainConn \<times> task list" where
  "startIdleDrain c =
     (if dc_closed c \<or> dc_closing c \<or> dc_hijackedConn c \<or> dc_pending c = [] then (c, [])
      else let c = cancel_drain (c\<lparr>dc_state := StateIdle, dc_generation := dc_generation c + 1\<rparr>);
               ctx = dc_nextCtx c
        in (c\<lparr>dc_drainCancel := Some ctx, dc_nextCtx := Suc ctx\<rparr>, [IdleWait ctx (dc_generation c)]))"

text \<open>\<open>runIdleDrain\<close> after its wait; \<open>cleared\<close> tells whether the write deadline could be cleared.\<close>

definition runIdleDrain :: "64 word \<Rightarrow> responseDrainOutcome \<Rightarrow> bool \<Rightarrow> drainConn \<Rightarrow> drainConn \<times> task list" where
  "runIdleDrain generation outcome cleared c =
     (if dc_closed c \<or> dc_hijackedConn c \<or> dc_generation c \<noteq> generation \<or> dc_state c \<noteq> StateIdle then (c, [])
      else if outcome = DrainComplete \<and> cleared then
        (c\<lparr>dc_pending := [], dc_drainCancel := None\<rparr>, [Completing (dc_pending c) outcome])
      else let outcome = (if outcome = DrainComplete then DeadlineClearError else outcome) in
        (c\<lparr>dc_closed := True, dc_closing := True, dc_drainCancel := None, dc_pending := []\<rparr>,
         [RecoverStart (dc_pending c) outcome]))"

definition abortNowWithOutcome :: "responseDrainOutcome \<Rightarrow> drainConn \<Rightarrow> drainConn \<times> task list" where
  "abortNowWithOutcome outcome c =
     (if dc_closed c then (c, [])
      else (c\<lparr>dc_closed := True, dc_closing := True, dc_pending := []\<rparr>, [AbortEnd (dc_pending c) outcome]))"

definition hijack :: "drainConn \<Rightarrow> drainConn \<times> task list" where
  "hijack c =
     (if dc_closed c \<or> dc_hijackedConn c then (c, [])
      else (cancel_drain (c\<lparr>dc_hijackedConn := True, dc_state := StateHijacked, dc_generation := dc_generation c + 1,
              dc_writeTimeout := 0, dc_pending := []\<rparr>),
            [HijackEnd (dc_pending c) (dc_setDeadline c)]))"

definition Close :: "drainConn \<Rightarrow> drainConn \<times> task list" where
  "Close c =
     (if dc_closed c then (c, [])
      else (cancel_drain (c\<lparr>dc_closed := True, dc_generation := dc_generation c + 1, dc_pending := []\<rparr>),
            [CloseEnd (dc_pending c) (dc_hijackedConn c)]))"

definition setState :: "conn_state \<Rightarrow> drainConn \<Rightarrow> drainConn \<times> task list" where
  "setState st c =
     (case st of
        StateActive \<Rightarrow> (activate c, [])
      | StateIdle \<Rightarrow> startIdleDrain c
      | StateHijacked \<Rightarrow> hijack c
      | StateNew \<Rightarrow> (c, []))"

section \<open>Writing\<close>

text \<open>
  \<open>writeConfig\<close>: \<open>None\<close> is \<open>net.ErrClosed\<close>; otherwise the write timeout and whether the connection
  was hijacked. A round of \<open>Write\<close> gives the connection as it is then, the time, whether the
  deadline could be set, and the result of the socket: bytes taken and whether it failed.
\<close>

definition responseWriteChunkSize :: nat where "responseWriteChunkSize = 2 ^ 20"

definition writeConfig :: "drainConn \<Rightarrow> (int \<times> bool) option" where
  "writeConfig c =
     (if dc_closed c \<or> dc_closing c then None
      else if dc_hijackedConn c then Some (0, True)
      else Some (dc_writeTimeout c, False))"

definition refreshWriteDeadline :: "int \<Rightarrow> int \<Rightarrow> drainConn \<Rightarrow> int" where
  "refreshWriteDeadline now timeout c =
     (case dc_writeDeadline c of
        Some d \<Rightarrow> if d < now + timeout then d else now + timeout
      | None \<Rightarrow> now + timeout)"

record write_round =
  wr_conn :: drainConn
  wr_now :: int
  wr_deadline_ok :: bool
  wr_n :: nat
  wr_err :: bool

datatype write_result = WriteDone | WriteClosed | WriteFailed | WriteAborted

text \<open>
  One chunk of \<open>Write\<close>: how much the socket took, how the call ends unless it goes on, and the calls
  of the socket with the deadline set before. \<open>WriteAborted\<close> is an error after which the connection
  is aborted, \<open>WriteFailed\<close> the error of a hijacked connection. A socket that takes less than it is
  given reports an error.
\<close>

definition write_chunk :: "write_round \<Rightarrow> string \<Rightarrow> nat \<times> write_result option \<times> (string \<times> int option) list" where
  "write_chunk rd p =
     (case writeConfig (wr_conn rd) of
        None \<Rightarrow> (0, Some WriteClosed, [])
      | Some (timeout, hijacked) \<Rightarrow>
          if hijacked then
            (let n = min (wr_n rd) (length p) in
             (n, Some (if wr_err rd \<or> n \<noteq> length p then WriteFailed else WriteDone), [(take n p, None)]))
          else if 0 < timeout \<and> \<not> wr_deadline_ok rd then (0, Some WriteAborted, [])
          else
            (let deadline = (if 0 < timeout then Some (refreshWriteDeadline (wr_now rd) timeout (wr_conn rd)) else None);
                 chunk = take responseWriteChunkSize p;
                 n = min (wr_n rd) (length chunk)
             in (n, if wr_err rd \<or> n \<noteq> length chunk then Some WriteAborted else None, [(take n chunk, deadline)])))"

fun drain_Write ::
  "write_round list \<Rightarrow> string \<Rightarrow> nat \<Rightarrow> (string \<times> int option) list \<Rightarrow> (nat \<times> write_result \<times> (string \<times> int option) list) option" where
  "drain_Write [] p sent out = (if p = [] then Some (sent, WriteDone, out) else None)"
| "drain_Write (rd # rds) p sent out =
     (if p = [] then Some (sent, WriteDone, out)
      else case write_chunk rd p of
        (n, Some res, calls) \<Rightarrow> Some (sent + n, res, out @ calls)
      | (n, None, calls) \<Rightarrow> drain_Write rds (drop n p) (sent + n) (out @ calls))"

text \<open>Readers as \<open>ReadFrom\<close> sees them: limited readers around a source.\<close>

datatype reader = Source | Limited int reader

fun nextReadFromChunk :: "reader \<Rightarrow> int \<Rightarrow> (int \<times> int list) option" where
  "nextReadFromChunk Source limit = Some (limit, [])"
| "nextReadFromChunk (Limited n r) limit =
     (if n \<le> 0 then None
      else map_option (\<lambda>(l, parents). (l, n # parents)) (nextReadFromChunk r (min limit n)))"

fun reduce_limits :: "int \<Rightarrow> reader \<Rightarrow> reader" where
  "reduce_limits n Source = Source"
| "reduce_limits n (Limited m r) = Limited (m - n) (reduce_limits n r)"

fun anyLimitExhausted :: "reader \<Rightarrow> bool" where
  "anyLimitExhausted Source = False"
| "anyLimitExhausted (Limited m r) = (m = 0 \<or> anyLimitExhausted r)"

text \<open>The error of a round of \<open>ReadFrom\<close>: the end of the source, or a failure of the socket or of the source.\<close>

datatype copy_err = CopyOk | CopyEOF | CopyWriteErr | CopySourceErr

record copy_round =
  cr_conn :: drainConn
  cr_deadline_ok :: bool
  cr_n :: int
  cr_err :: copy_err

datatype copy_result = CopyDone | CopyClosed | CopyHijacked copy_err | CopyAborted | CopyFailed

text \<open>One round of \<open>ReadFrom\<close>: what was copied, how the call ends unless it goes on, and the reader after.\<close>

definition copy_chunk :: "copy_round \<Rightarrow> reader \<Rightarrow> int \<times> copy_result option \<times> reader" where
  "copy_chunk rd r =
     (case writeConfig (cr_conn rd) of
        None \<Rightarrow> (0, Some CopyClosed, r)
      | Some (timeout, hijacked) \<Rightarrow>
          if hijacked then (cr_n rd, Some (CopyHijacked (cr_err rd)), r)
          else if 0 < timeout \<and> \<not> cr_deadline_ok rd then (0, Some CopyAborted, r)
          else
            (case nextReadFromChunk r (int responseWriteChunkSize) of
               None \<Rightarrow> (0, Some CopyDone, r)
             | Some (limit, parents) \<Rightarrow>
                 let n = max 0 (min limit (cr_n rd)); r = reduce_limits n r in
                 (n, if cr_err rd = CopyEOF then Some CopyDone
                     else if cr_err rd = CopyWriteErr then Some CopyAborted
                     else if cr_err rd = CopySourceErr then Some CopyFailed
                     else if 0 < limit - n \<or> anyLimitExhausted r then Some CopyDone
                     else None, r)))"

fun drain_ReadFrom :: "copy_round list \<Rightarrow> reader \<Rightarrow> int \<Rightarrow> (int \<times> copy_result \<times> reader) option" where
  "drain_ReadFrom [] r sent = None"
| "drain_ReadFrom (rd # rds) r sent =
     (case copy_chunk rd r of
        (n, Some res, r) \<Rightarrow> Some (sent + n, res, r)
      | (n, None, r) \<Rightarrow> drain_ReadFrom rds r (sent + n))"

text \<open>What \<open>Write\<close> returns is what the socket took, and nothing is skipped or repeated.\<close>

lemma write_chunk_bytes:
  assumes "write_chunk rd p = (n, res, calls)"
  shows "concat (map fst calls) = take n p" "n \<le> length p" "res = Some WriteDone \<Longrightarrow> n = length p"
    "\<forall>(b, d) \<in> set calls. dc_hijackedConn (wr_conn rd) \<or> length b \<le> responseWriteChunkSize"
    "\<forall>(b, d) \<in> set calls. \<not> dc_hijackedConn (wr_conn rd) \<and> 0 < dc_writeTimeout (wr_conn rd) \<longrightarrow>
       (\<exists>t. d = Some t \<and> t \<le> wr_now rd + dc_writeTimeout (wr_conn rd) \<and>
          (\<forall>u. dc_writeDeadline (wr_conn rd) = Some u \<longrightarrow> t \<le> u))"
  using assms
  by (auto simp: write_chunk_def writeConfig_def refreshWriteDeadline_def Let_def min_def split: if_splits option.splits)

lemma write_bytes:
  "drain_Write rds p sent out = Some (sent', res, out') \<Longrightarrow>
     \<exists>n new. sent' = sent + n \<and> out' = out @ new \<and> concat (map fst new) = take n p \<and> n \<le> length p \<and>
       (res = WriteDone \<longrightarrow> n = length p)"
proof (induction rds p sent out rule: drain_Write.induct)
  case (2 rd rds p sent out)
  obtain n r calls where c: "write_chunk rd p = (n, r, calls)" by (metis prod.exhaust)
  note b = write_chunk_bytes(1-3)[OF c]
  show ?case
  proof (cases "p = [] \<or> r \<noteq> None")
    case True
    then show ?thesis using 2(2) b by (auto simp: c split: if_splits)
  next
    case False
    then have "drain_Write rds (drop n p) (sent + n) (out @ calls) = Some (sent', res, out')"
      using 2(2) by (simp add: c)
    from 2(1)[OF _ c[symmetric] refl _ this] False obtain m new where
      m: "sent' = sent + n + m" "out' = (out @ calls) @ new" "concat (map fst new) = take m (drop n p)"
         "m \<le> length (drop n p)" "res = WriteDone \<longrightarrow> m = length (drop n p)"
      by auto
    have "concat (map fst (calls @ new)) = take (n + m) p" using b(1,2) m(3) by (simp add: take_add)
    then show ?thesis using m b(2) by (intro exI[of _ "n + m"] exI[of _ "calls @ new"]) auto
  qed
qed (auto split: if_splits)

text \<open>Limited readers lose what was copied, and no more than a limit allows is copied.\<close>

fun total_limit :: "reader \<Rightarrow> int option" where
  "total_limit Source = None"
| "total_limit (Limited n r) = Some (case total_limit r of None \<Rightarrow> n | Some m \<Rightarrow> min n m)"

lemma next_chunk_limit:
  "nextReadFromChunk r l = Some (limit, parents) \<Longrightarrow>
     limit \<le> l \<and> (case total_limit r of None \<Rightarrow> limit = l | Some m \<Rightarrow> 0 < m \<and> limit = min l m)"
proof (induction r arbitrary: l parents)
  case (Limited n r)
  obtain ps where n: "0 < n" and r: "nextReadFromChunk r (min l n) = Some (limit, ps)"
    using Limited.prems by (cases "n \<le> 0") auto
  show ?case using Limited.IH[OF r] n by (cases "total_limit r") (simp_all add: min.assoc min_def)
qed simp

lemma total_limit_reduce: "total_limit (reduce_limits n r) = map_option (\<lambda>m. m - n) (total_limit r)"
  by (induction r) (auto split: option.splits)

lemma copy_chunk_limit:
  assumes "copy_chunk rd r = (n, e, r1)" "\<not> dc_hijackedConn (cr_conn rd)" "total_limit r = Some m" "0 \<le> m"
  shows "0 \<le> n \<and> n \<le> m \<and> total_limit r1 = Some (m - n)"
proof (cases "nextReadFromChunk r (int responseWriteChunkSize)")
  case None
  then show ?thesis using assms by (auto simp: copy_chunk_def writeConfig_def split: if_splits)
next
  case (Some lp)
  obtain limit parents where lp: "lp = (limit, parents)" by (cases lp)
  have "0 < m \<and> limit \<le> m" using next_chunk_limit[OF Some[unfolded lp]] assms(3) by simp
  then show ?thesis
    using assms(1-3) unfolding copy_chunk_def Some lp
    by (auto simp: writeConfig_def total_limit_reduce assms(4) Let_def split: if_splits)
qed

lemma copy_limit:
  assumes "drain_ReadFrom rds r sent = Some (sent', res, r')" "\<forall>rd \<in> set rds. \<not> dc_hijackedConn (cr_conn rd)"
    "total_limit r = Some m" "0 \<le> m"
  shows "sent \<le> sent' \<and> sent' \<le> sent + m \<and> total_limit r' = Some (m - (sent' - sent))"
  using assms
proof (induction rds r sent arbitrary: m rule: drain_ReadFrom.induct)
  case (2 rd rds r sent)
  obtain n e r1 where c: "copy_chunk rd r = (n, e, r1)" by (metis prod.exhaust)
  have b: "0 \<le> n" "n \<le> m" "total_limit r1 = Some (m - n)"
    using copy_chunk_limit[OF c _ 2(4,5)] 2(3) by auto
  show ?case
  proof (cases e)
    case None
    have "drain_ReadFrom rds r1 (sent + n) = Some (sent', res, r')" using 2(2) by (simp add: c None)
    from 2(1)[OF c[symmetric] refl None this, of "m - n"] 2(3) b show ?thesis by auto
  qed (use 2(2) b in \<open>auto simp: c\<close>)
qed simp

section \<open>The whole\<close>

text \<open>
  All connections with their goroutines, the counters and the controller. \<open>dw_reqs\<close> gives each
  admitted request its connection and the failure noted for it; \<open>dw_completed\<close> lists the drains
  completed, with the outcome of the connection and the one reported; \<open>dw_recorded\<close> everything
  \<open>recordResponseDrainOutcome\<close> counted.
\<close>

record 'c drain_world =
  dw_conns :: "drainConn list"
  dw_reqs :: "(nat \<times> responseDrainOutcome option) list"
  dw_tasks :: "(nat \<times> task) list"
  dw_completed :: "(nat \<times> responseDrainOutcome \<times> responseDrainOutcome) list"
  dw_recorded :: "responseDrainOutcome list"
  dw_slots :: nat
  dw_failClosed :: int
  dw_monitors :: int
  dw_rejections :: nat
  dw_refused :: "nat list"
  dw_terminated :: bool
  dw_stz :: "'c stz_state"

definition record_outcome :: "responseDrainOutcome \<Rightarrow> 'c drain_world \<Rightarrow> 'c drain_world" where
  "record_outcome out w = w\<lparr>dw_recorded := dw_recorded w @ [out]\<rparr>"

definition ResponseDrainOutcomeCounts :: "'c drain_world \<Rightarrow> responseDrainOutcome \<Rightarrow> 64 word" where
  "ResponseDrainOutcomeCounts w out = of_nat (count_list (dw_recorded w) out)"

text \<open>A connection of the world is changed, or noted to be gone.\<close>

definition set_conn :: "nat \<Rightarrow> drainConn \<Rightarrow> 'c drain_world \<Rightarrow> 'c drain_world" where
  "set_conn k c w = w\<lparr>dw_conns := (dw_conns w)[k := c]\<rparr>"

definition note_ended :: "nat \<Rightarrow> bool \<Rightarrow> 'c drain_world \<Rightarrow> 'c drain_world" where
  "note_ended k gone w =
     w\<lparr>dw_conns := (dw_conns w)[k := (dw_conns w ! k)\<lparr>dc_ended := dc_ended (dw_conns w ! k) \<or> gone\<rparr>]\<rparr>"

definition acquireResponseCloseMonitor :: "'c drain_world \<Rightarrow> 'c drain_world \<times> bool" where
  "acquireResponseCloseMonitor w =
     (if dw_slots w < maxResponseCloseMonitors then (w\<lparr>dw_slots := dw_slots w + 1\<rparr>, True) else (w, False))"

definition releaseResponseCloseMonitor :: "'c drain_world \<Rightarrow> 'c drain_world" where
  "releaseResponseCloseMonitor w = w\<lparr>dw_slots := dw_slots w - 1\<rparr>"

definition add_failClosed :: "int \<Rightarrow> 'c drain_world \<Rightarrow> 'c drain_world" where
  "add_failClosed n w = w\<lparr>dw_failClosed := dw_failClosed w + n\<rparr>"

text \<open>\<open>fail\<close>: the first failure noted for a drain stays.\<close>

definition fail :: "responseDrainOutcome \<Rightarrow> nat \<Rightarrow> 'c drain_world \<Rightarrow> 'c drain_world" where
  "fail out r w =
     (case dw_reqs w ! r of
        (k, None) \<Rightarrow> w\<lparr>dw_reqs := (dw_reqs w)[r := (k, Some out)]\<rparr>
      | (k, Some _) \<Rightarrow> w)"

definition markCurrentFailure :: "nat \<Rightarrow> responseDrainOutcome \<Rightarrow> 'c drain_world \<Rightarrow> 'c drain_world" where
  "markCurrentFailure k out w =
     (let ds = dc_pending (dw_conns w ! k) in if ds = [] then w else fail out (last ds) w)"

text \<open>\<open>complete\<close>: the failure noted earlier is what is reported.\<close>

definition complete ::
  "('c \<Rightarrow> 'c \<times> bool) \<Rightarrow> ('c \<Rightarrow> 'c \<times> bool) \<Rightarrow> nat \<Rightarrow> responseDrainOutcome \<Rightarrow> 'c drain_world \<Rightarrow> 'c drain_world" where
  "complete disable enable r outcome w =
     (let reported = (case snd (dw_reqs w ! r) of Some f \<Rightarrow> f | None \<Rightarrow> outcome);
          w = record_outcome reported w
      in w\<lparr>dw_completed := dw_completed w @ [(r, outcome, reported)],
           dw_stz := stz_step disable enable (dw_stz w) (ConnectionDone r)\<rparr>)"

text \<open>What the sockets and the clock do in one step of a goroutine.\<close>

record env =
  ev_abort :: os_result
  ev_duplicate :: os_result
  ev_cleared :: bool
  ev_expired :: bool
  ev_first :: "os_result + int"
  ev_polls :: "poll list"
  ev_close_polls :: "close_poll list"

definition gone :: "os_result \<Rightarrow> bool" where
  "gone res \<longleftrightarrow> res = OsOk \<or> isTerminalConnectionError res"

definition AbortEnd_runs :: "env \<Rightarrow> nat \<Rightarrow> nat list \<Rightarrow> responseDrainOutcome \<Rightarrow> 'c drain_world \<Rightarrow> 'c drain_world \<times> task list" where
  "AbortEnd_runs ev k ds outcome w =
     (let w = note_ended k (gone (ev_abort ev)) w in
      if ds = [] then (w, [])
      else if gone (ev_abort ev) then (w, [Completing ds outcome])
      else (w, [RecoverStart ds outcome]))"

definition CloseEnd_runs :: "env \<Rightarrow> nat \<Rightarrow> nat list \<Rightarrow> bool \<Rightarrow> 'c drain_world \<Rightarrow> 'c drain_world \<times> task list" where
  "CloseEnd_runs ev k ds hijacked w =
     (if hijacked \<or> ds = [] then (w, [])
      else let (w, acquired) = acquireResponseCloseMonitor w in
        if \<not> acquired then
          let w = w\<lparr>dw_rejections := dw_rejections w + 1\<rparr>; w = note_ended k (gone (ev_abort ev)) w in
          (w, [if gone (ev_abort ev) then Completing ds MonitorLimit else RecoverStart ds MonitorLimit])
        else if ev_duplicate ev = OsOk then (w, [MonitorStart ds False None])
        else let w = releaseResponseCloseMonitor w in
          if isTerminalConnectionError (ev_duplicate ev) then (note_ended k True w, [Completing ds ConnectionClosed])
          else let w = record_outcome AbortError w; w = note_ended k (gone (ev_abort ev)) w in
            (w, [if gone (ev_abort ev) then Completing ds ConnectionClosed else RecoverStart ds ConnectionClosed]))"

text \<open>One round of the loop of \<open>recoverResponseConnection\<close>.\<close>

definition Recover_runs :: "env \<Rightarrow> nat \<Rightarrow> nat list \<Rightarrow> responseDrainOutcome \<Rightarrow> 'c drain_world \<Rightarrow> 'c drain_world \<times> task list" where
  "Recover_runs ev k ds outcome w =
     (let w = note_ended k (gone (ev_abort ev)) w; failedCount = int (length ds) in
      if gone (ev_abort ev) then (add_failClosed (- failedCount) w, [Completing ds outcome])
      else let (w, acquired) = acquireResponseCloseMonitor w;
               w = (if acquired then w else w\<lparr>dw_rejections := dw_rejections w + 1\<rparr>)
        in if acquired \<and> ev_duplicate ev = OsOk then (w, [MonitorStart ds True (Some outcome)])
           else let w = (if acquired then releaseResponseCloseMonitor w else w) in
             if acquired \<and> isTerminalConnectionError (ev_duplicate ev) then
               (add_failClosed (- failedCount) (note_ended k True w), [Completing ds ConnectionClosed])
             else let w = record_outcome AbortError w in
               if ev_expired ev then (record_outcome GuestTermination w, [Terminating ds False])
               else (w, [Recover ds outcome]))"

definition MonitorWait_runs ::
  "env \<Rightarrow> nat \<Rightarrow> nat list \<Rightarrow> bool \<Rightarrow> responseDrainOutcome option \<Rightarrow> 'c drain_world \<Rightarrow> ('c drain_world \<times> task list) option" where
  "MonitorWait_runs ev k ds failed failureOutcome w =
     map_option (\<lambda>(outcome, queued, e).
       if isSafeClosedResponseOutcome outcome then
         (add_failClosed (if failed then - int (length ds) else 0) (note_ended k True w),
          [MonitorEnd ds (case failureOutcome of Some f \<Rightarrow> f | None \<Rightarrow> outcome)])
       else
         (add_failClosed (if failed then 0 else int (length ds)) w, [MonitorRetry ds outcome failureOutcome]))
     (waitForClosedResponse (ev_close_polls ev))"

text \<open>One round of the retries of \<open>monitorClosedResponse\<close>; the inspection does not wait.\<close>

definition MonitorRetry_runs ::
  "env \<Rightarrow> nat \<Rightarrow> nat list \<Rightarrow> responseDrainOutcome \<Rightarrow> responseDrainOutcome option \<Rightarrow> 'c drain_world \<Rightarrow>
     ('c drain_world \<times> task list) option" where
  "MonitorRetry_runs ev k ds outcome failureOutcome w =
     (let failed = int (length ds) in
      if gone (ev_abort ev) then
        Some (add_failClosed (- failed) (note_ended k True w),
              [MonitorEnd ds (case failureOutcome of Some f \<Rightarrow> f | None \<Rightarrow> outcome)])
      else map_option (\<lambda>(current, queued, e).
        if isSafeClosedResponseOutcome current \<or> isTerminalConnectionError e then
          let current = (if isSafeClosedResponseOutcome current then current else ConnectionClosed) in
          (add_failClosed (- failed) (note_ended k True w),
           [MonitorEnd ds (case failureOutcome of Some f \<Rightarrow> f | None \<Rightarrow> current)])
        else let w = record_outcome AbortError w in
          if ev_expired ev then (record_outcome GuestTermination w, [Terminating ds True])
          else (w, [MonitorRetry ds outcome failureOutcome]))
      (waitForClosedResponse (map (\<lambda>p. p\<lparr>cp_remaining := 0\<rparr>) (take 1 (ev_close_polls ev)))))"

definition IdleWait_runs ::
  "env \<Rightarrow> nat \<Rightarrow> nat \<Rightarrow> 64 word \<Rightarrow> 'c drain_world \<Rightarrow> ('c drain_world \<times> task list) option" where
  "IdleWait_runs ev k ctx generation w =
     (case waitForResponseDrain (ev_first ev) (ev_polls ev) of
        None \<Rightarrow> None
      | Some (Canceled, _) \<Rightarrow> if ctx \<in> set (dc_cancelled (dw_conns w ! k)) then Some (w, []) else None
      | Some (Waited outcome _, _) \<Rightarrow>
          let (c, ts) = runIdleDrain generation outcome (ev_cleared ev) (dw_conns w ! k) in Some (set_conn k c w, ts))"

definition Admit_runs :: "nat \<Rightarrow> nat \<Rightarrow> 'c drain_world \<Rightarrow> 'c drain_world \<times> task list" where
  "Admit_runs k r w =
     (let (c, registered, ts) = addDrain r (configure responseDrainTimeout (dw_conns w ! k)) in
      ((set_conn k c w)\<lparr>dw_refused := dw_refused w @ (if registered then [] else [r])\<rparr>, Handle r # ts))"

fun task_runs ::
  "('c \<Rightarrow> 'c \<times> bool) \<Rightarrow> ('c \<Rightarrow> 'c \<times> bool) \<Rightarrow> env \<Rightarrow> nat \<Rightarrow> task \<Rightarrow> 'c drain_world \<Rightarrow> ('c drain_world \<times> task list) option" where
  "task_runs disable enable ev k (Admit r) w = Some (Admit_runs k r w)"
| "task_runs disable enable ev k (Handle r) w =
     Some (w\<lparr>dw_stz := stz_step disable enable (dw_stz w) (HandlerDone r)\<rparr>, [])"
| "task_runs disable enable ev k (IdleWait ctx generation) w = IdleWait_runs ev k ctx generation w"
| "task_runs disable enable ev k (Completing [] outcome) w = Some (w, [])"
| "task_runs disable enable ev k (Completing (r # ds) outcome) w =
     Some (complete disable enable r outcome w, [Completing ds outcome])"
| "task_runs disable enable ev k (HijackEnd ds deadlineSet) w =
     Some (if deadlineSet \<and> \<not> ev_cleared ev then record_outcome DeadlineClearError w else w,
           [Completing ds ConnectionHijacked])"
| "task_runs disable enable ev k (AbortEnd ds outcome) w = Some (AbortEnd_runs ev k ds outcome w)"
| "task_runs disable enable ev k (CloseEnd ds hijacked) w = Some (CloseEnd_runs ev k ds hijacked w)"
| "task_runs disable enable ev k (RecoverStart ds outcome) w =
     Some (add_failClosed (int (length ds)) w, [Recover ds outcome])"
| "task_runs disable enable ev k (Recover ds outcome) w = Some (Recover_runs ev k ds outcome w)"
| "task_runs disable enable ev k (MonitorStart ds failed failureOutcome) w =
     Some (w\<lparr>dw_monitors := dw_monitors w + 1\<rparr>, [MonitorWait ds failed failureOutcome])"
| "task_runs disable enable ev k (MonitorWait ds failed failureOutcome) w =
     MonitorWait_runs ev k ds failed failureOutcome w"
| "task_runs disable enable ev k (MonitorRetry ds outcome failureOutcome) w =
     MonitorRetry_runs ev k ds outcome failureOutcome w"
| "task_runs disable enable ev k (MonitorEnd [] outcome) w =
     Some ((releaseResponseCloseMonitor w)\<lparr>dw_monitors := dw_monitors w - 1\<rparr>, [])"
| "task_runs disable enable ev k (MonitorEnd (r # ds) outcome) w =
     Some (complete disable enable r outcome w, [MonitorEnd ds outcome])"
| "task_runs disable enable ev k (Terminating ds monitor) w =
     Some (w\<lparr>dw_terminated := True\<rparr>, [Terminating ds monitor])"

definition spawn :: "nat \<Rightarrow> task list \<Rightarrow> 'c drain_world \<Rightarrow> 'c drain_world" where
  "spawn k ts w = w\<lparr>dw_tasks := dw_tasks w @ map (Pair k) ts\<rparr>"

definition replace_task :: "nat \<Rightarrow> nat \<Rightarrow> task list \<Rightarrow> 'c drain_world \<Rightarrow> 'c drain_world" where
  "replace_task i k ts w =
     w\<lparr>dw_tasks := take i (dw_tasks w) @ map (Pair k) ts @ drop (Suc i) (dw_tasks w)\<rparr>"

text \<open>
  A request on a tracked connection, up to its registration: refused with an abort of the
  connection when the controller cannot be told, admitted with a fresh hold otherwise.
\<close>

definition request_arrives ::
  "('c \<Rightarrow> 'c \<times> bool) \<Rightarrow> ('c \<Rightarrow> 'c \<times> bool) \<Rightarrow> nat \<Rightarrow> 'c drain_world \<Rightarrow> 'c drain_world" where
  "request_arrives disable enable k w =
     (let r = length (dw_reqs w);
          stz = stz_step disable enable (dw_stz w) (Arrive r);
          w = w\<lparr>dw_stz := stz\<rparr>
      in if map_of (snd stz) r = None then
           let (c, ts) = abortNowWithOutcome ConnectionClosed (dw_conns w ! k) in spawn k ts (set_conn k c w)
         else spawn k [Admit r] (w\<lparr>dw_reqs := dw_reqs w @ [(k, None)]\<rparr>))"

definition new_world :: "'c stz_state \<Rightarrow> 'c drain_world" where
  "new_world stz =
     \<lparr>dw_conns = [], dw_reqs = [], dw_tasks = [], dw_completed = [], dw_recorded = [], dw_slots = 0,
      dw_failClosed = 0, dw_monitors = 0, dw_rejections = 0, dw_refused = [], dw_terminated = False, dw_stz = stz\<rparr>"

inductive drain_step ::
  "('c \<Rightarrow> 'c \<times> bool) \<Rightarrow> ('c \<Rightarrow> 'c \<times> bool) \<Rightarrow> 'c drain_world \<Rightarrow> 'c drain_world \<Rightarrow> bool"
  for disable enable
where
  accepts: "\<not> dw_terminated w \<Longrightarrow>
    drain_step disable enable w (w\<lparr>dw_conns := dw_conns w @ [new_drainConn]\<rparr>)"
| arrives: "\<not> dw_terminated w \<Longrightarrow> k < length (dw_conns w) \<Longrightarrow>
    drain_step disable enable w (request_arrives disable enable k w)"
| changes: "\<not> dw_terminated w \<Longrightarrow> k < length (dw_conns w) \<Longrightarrow> setState st (dw_conns w ! k) = (c, ts) \<Longrightarrow>
    drain_step disable enable w (spawn k ts (set_conn k c w))"
| closes: "\<not> dw_terminated w \<Longrightarrow> k < length (dw_conns w) \<Longrightarrow> Close (dw_conns w ! k) = (c, ts) \<Longrightarrow>
    drain_step disable enable w (spawn k ts (set_conn k c w))"
| write_fails: "\<not> dw_terminated w \<Longrightarrow> k < length (dw_conns w) \<Longrightarrow>
    abortNowWithOutcome WriteError (dw_conns w ! k) = (c, ts) \<Longrightarrow>
    drain_step disable enable w (spawn k ts (set_conn k c w))"
| source_fails: "\<not> dw_terminated w \<Longrightarrow> k < length (dw_conns w) \<Longrightarrow>
    drain_step disable enable w (markCurrentFailure k SourceReadError w)"
| sets_deadline: "\<not> dw_terminated w \<Longrightarrow> k < length (dw_conns w) \<Longrightarrow>
    drain_step disable enable w (set_conn k ((dw_conns w ! k)\<lparr>dc_writeDeadline := d\<rparr>) w)"
| runs: "\<not> dw_terminated w \<Longrightarrow> i < length (dw_tasks w) \<Longrightarrow> dw_tasks w ! i = (k, t) \<Longrightarrow>
    task_runs disable enable ev k t w = Some (w', ts) \<Longrightarrow>
    drain_step disable enable w (replace_task i k ts w')"
| controls: "\<not> dw_terminated w \<Longrightarrow>
    oper \<in> {PinOp, UnpinOp} \<union> range TimerFires \<union> range TimerRuns \<union> range ReleaseRuns \<Longrightarrow>
    drain_step disable enable w (w\<lparr>dw_stz := stz_step disable enable (dw_stz w) oper\<rparr>)"

inductive_cases drain_stepE: "drain_step disable enable w w'"

section \<open>Where every drain is\<close>

fun task_drains :: "task \<Rightarrow> nat list" where
  "task_drains (Admit r) = [r]"
| "task_drains (Handle r) = []"
| "task_drains (IdleWait ctx generation) = []"
| "task_drains (Completing ds out) = ds"
| "task_drains (HijackEnd ds b) = ds"
| "task_drains (AbortEnd ds out) = ds"
| "task_drains (CloseEnd ds b) = ds"
| "task_drains (RecoverStart ds out) = ds"
| "task_drains (Recover ds out) = ds"
| "task_drains (MonitorStart ds b f) = ds"
| "task_drains (MonitorWait ds b f) = ds"
| "task_drains (MonitorRetry ds out f) = ds"
| "task_drains (MonitorEnd ds out) = ds"
| "task_drains (Terminating ds b) = ds"

fun task_handler :: "task \<Rightarrow> nat list" where
  "task_handler (Admit r) = [r]"
| "task_handler (Handle r) = [r]"
| "task_handler t = []"

fun task_slot :: "task \<Rightarrow> nat" where
  "task_slot (MonitorStart ds b f) = 1"
| "task_slot (MonitorWait ds b f) = 1"
| "task_slot (MonitorRetry ds out f) = 1"
| "task_slot (MonitorEnd ds out) = 1"
| "task_slot (Terminating ds b) = of_bool b"
| "task_slot t = 0"

fun task_monitor :: "task \<Rightarrow> int" where
  "task_monitor (MonitorStart ds b f) = 0"
| "task_monitor t = int (task_slot t)"

fun task_failed :: "task \<Rightarrow> int" where
  "task_failed (Recover ds out) = int (length ds)"
| "task_failed (MonitorStart ds b f) = (if b then int (length ds) else 0)"
| "task_failed (MonitorWait ds b f) = (if b then int (length ds) else 0)"
| "task_failed (MonitorRetry ds out f) = int (length ds)"
| "task_failed (Terminating ds b) = int (length ds)"
| "task_failed t = 0"

definition tasks_of :: "'c drain_world \<Rightarrow> task list" where
  "tasks_of w = map snd (dw_tasks w)"

definition done_drains :: "'c drain_world \<Rightarrow> nat list" where
  "done_drains w = map fst (dw_completed w)"

definition resting :: "'c drain_world \<Rightarrow> nat multiset" where
  "resting w = mset (concat (map dc_pending (dw_conns w))) + mset (done_drains w)"

definition moving :: "task list \<Rightarrow> nat multiset" where
  "moving ts = mset (concat (map task_drains ts))"

definition handlers :: "'c drain_world \<Rightarrow> nat list" where
  "handlers w = concat (map task_handler (tasks_of w))"

text \<open>Every admitted request is waiting, being settled or completed, in one place only; the counters count.\<close>

definition books :: "'c drain_world \<Rightarrow> bool" where
  "books w \<longleftrightarrow>
     resting w + moving (tasks_of w) = mset [0..<length (dw_reqs w)] \<and>
     dw_slots w = sum_list (map task_slot (tasks_of w)) \<and>
     dw_monitors w = sum_list (map task_monitor (tasks_of w)) \<and>
     dw_failClosed w = sum_list (map task_failed (tasks_of w)) \<and>
     dw_slots w \<le> maxResponseCloseMonitors"

text \<open>What the step of a task may do to the rest of the world.\<close>

definition settles :: "'c drain_world \<Rightarrow> task \<Rightarrow> 'c drain_world \<Rightarrow> task list \<Rightarrow> bool" where
  "settles w t w' ts \<longleftrightarrow>
     dw_tasks w' = dw_tasks w \<and> length (dw_reqs w') = length (dw_reqs w) \<and>
     resting w' + moving ts = resting w + mset (task_drains t) \<and>
     dw_slots w' + task_slot t = dw_slots w + sum_list (map task_slot ts) \<and>
     dw_monitors w' + task_monitor t = dw_monitors w + sum_list (map task_monitor ts) \<and>
     dw_failClosed w' + task_failed t = dw_failClosed w + sum_list (map task_failed ts) \<and>
     (dw_slots w \<le> maxResponseCloseMonitors \<longrightarrow> dw_slots w' \<le> maxResponseCloseMonitors)"

lemma mset_concat_update:
  assumes "k < length xs"
  shows "mset (concat (map f (xs[k := y]))) + mset (f (xs ! k)) = mset (concat (map f xs)) + mset (f y)"
proof -
  have "xs = take k xs @ xs ! k # drop (Suc k) xs" using assms by (rule id_take_nth_drop)
  then have "mset (concat (map f xs)) =
      mset (concat (map f (take k xs))) + mset (f (xs ! k)) + mset (concat (map f (drop (Suc k) xs)))"
    by (metis (no_types, lifting) ab_semigroup_add_class.add_ac(1) concat.simps(2) concat_append list.simps(9) map_append mset_append)
  then show ?thesis using assms by (simp add: upd_conv_take_nth_drop)
qed

lemma pending_same:
  assumes "dc_pending y = dc_pending (xs ! k)"
  shows "map dc_pending (xs[k := y]) = map dc_pending xs"
  by (metis assms list_update_id map_update)

lemma resting_simps [simp]:
  "resting (w\<lparr>dw_tasks := a\<rparr>) = resting w" "resting (w\<lparr>dw_recorded := b\<rparr>) = resting w"
  "resting (w\<lparr>dw_slots := n\<rparr>) = resting w" "resting (w\<lparr>dw_failClosed := i\<rparr>) = resting w"
  "resting (w\<lparr>dw_monitors := i\<rparr>) = resting w" "resting (w\<lparr>dw_rejections := n\<rparr>) = resting w"
  "resting (w\<lparr>dw_refused := ds\<rparr>) = resting w" "resting (w\<lparr>dw_terminated := x\<rparr>) = resting w"
  "resting (w\<lparr>dw_stz := st\<rparr>) = resting w" "resting (w\<lparr>dw_reqs := rs\<rparr>) = resting w"
  "resting (note_ended k g w) = resting w"
  by (simp_all add: resting_def done_drains_def note_ended_def pending_same)

lemma moving_simps [simp]:
  "moving [] = {#}" "moving (t # ts) = mset (task_drains t) + moving ts" "moving (a @ b) = moving a + moving b"
  by (simp_all add: moving_def)

lemma world_frames [simp]:
  "dw_tasks (note_ended k g w) = dw_tasks w" "dw_reqs (note_ended k g w) = dw_reqs w"
  "dw_slots (note_ended k g w) = dw_slots w" "dw_monitors (note_ended k g w) = dw_monitors w"
  "dw_failClosed (note_ended k g w) = dw_failClosed w" "dw_completed (note_ended k g w) = dw_completed w"
  "dw_stz (note_ended k g w) = dw_stz w"
  by (simp_all add: note_ended_def)

lemma resting_set_conn:
  assumes "k < length (dw_conns w)"
  shows "resting (set_conn k c w) + mset (dc_pending (dw_conns w ! k)) = resting w + mset (dc_pending c)"
  using mset_concat_update[OF assms, of dc_pending c] by (simp add: resting_def done_drains_def set_conn_def ac_simps)

lemmas task_runs_defs = AbortEnd_runs_def CloseEnd_runs_def Recover_runs_def record_outcome_def add_failClosed_def
  acquireResponseCloseMonitor_def releaseResponseCloseMonitor_def

lemma settles_AbortEnd: "AbortEnd_runs ev k ds outcome w = (w', ts) \<Longrightarrow> settles w (AbortEnd ds outcome) w' ts"
  by (auto simp: AbortEnd_runs_def Let_def settles_def split: if_splits)

lemma settles_CloseEnd: "CloseEnd_runs ev k ds hijacked w = (w', ts) \<Longrightarrow> \<not> hijacked \<or> ds = [] \<Longrightarrow> settles w (CloseEnd ds hijacked) w' ts"
  by (auto simp: task_runs_defs Let_def settles_def split: if_splits)

lemma settles_Recover: "Recover_runs ev k ds outcome w = (w', ts) \<Longrightarrow> settles w (Recover ds outcome) w' ts"
  by (auto simp: task_runs_defs Let_def settles_def split: if_splits)

lemma settles_MonitorWait:
  "MonitorWait_runs ev k ds failed f w = Some (w', ts) \<Longrightarrow> settles w (MonitorWait ds failed f) w' ts"
  by (auto simp: MonitorWait_runs_def add_failClosed_def settles_def split: if_splits prod.splits)

lemma settles_MonitorRetry:
  "MonitorRetry_runs ev k ds outcome f w = Some (w', ts) \<Longrightarrow> settles w (MonitorRetry ds outcome f) w' ts"
  by (auto simp: MonitorRetry_runs_def Let_def task_runs_defs settles_def split: if_splits prod.splits)

text \<open>A connection hands its pending drains to the task it spawns.\<close>

definition hands_over :: "drainConn \<Rightarrow> drainConn \<Rightarrow> task list \<Rightarrow> bool" where
  "hands_over c c' ts \<longleftrightarrow>
     mset (dc_pending c') + moving ts = mset (dc_pending c) \<and>
     (\<forall>t \<in> set ts. task_slot t = 0 \<and> task_monitor t = 0 \<and> task_failed t = 0 \<and> task_handler t = [])"

lemma cancel_drain_frame [simp]:
  "dc_pending (cancel_drain c) = dc_pending c" "dc_closed (cancel_drain c) = dc_closed c"
  "dc_closing (cancel_drain c) = dc_closing c" "dc_hijackedConn (cancel_drain c) = dc_hijackedConn c"
  "dc_ended (cancel_drain c) = dc_ended c" "dc_generation (cancel_drain c) = dc_generation c"
  "dc_state (cancel_drain c) = dc_state c"
  by (simp_all add: cancel_drain_def split: option.splits)

lemma hands_over_simps:
  "setState st c = (c', ts) \<Longrightarrow> hands_over c c' ts"
  "Close c = (c', ts) \<Longrightarrow> hands_over c c' ts"
  "abortNowWithOutcome out c = (c', ts) \<Longrightarrow> hands_over c c' ts"
  "runIdleDrain g out b c = (c', ts) \<Longrightarrow> hands_over c c' ts"
  by (auto simp: hands_over_def setState_def activate_def startIdleDrain_def hijack_def Close_def
      abortNowWithOutcome_def runIdleDrain_def Let_def split: if_splits conn_state.splits)

lemma sum_zero: "\<forall>x \<in> set xs. f x = 0 \<Longrightarrow> sum_list (map f xs) = (0 :: 'a :: comm_monoid_add)"
  by (induction xs) auto

lemma set_conn_frame [simp]:
  "dw_tasks (set_conn k c w) = dw_tasks w" "dw_reqs (set_conn k c w) = dw_reqs w"
  "dw_slots (set_conn k c w) = dw_slots w" "dw_monitors (set_conn k c w) = dw_monitors w"
  "dw_failClosed (set_conn k c w) = dw_failClosed w" "dw_completed (set_conn k c w) = dw_completed w"
  "dw_stz (set_conn k c w) = dw_stz w"
  by (simp_all add: set_conn_def)

lemma resting_hands_over:
  assumes "k < length (dw_conns w)" "hands_over (dw_conns w ! k) c ts"
  shows "resting (set_conn k c w) + moving ts = resting w"
proof -
  have "resting (set_conn k c w) + moving ts + mset (dc_pending (dw_conns w ! k)) =
      resting w + (mset (dc_pending c) + moving ts)"
    using resting_set_conn[OF assms(1), of c] by (simp add: ac_simps)
  also have "\<dots> = resting w + mset (dc_pending (dw_conns w ! k))"
    using assms(2) by (simp add: hands_over_def)
  finally show ?thesis by simp
qed

lemma IdleWait_cases:
  assumes "IdleWait_runs ev k ctx g w = Some (w', ts)"
  obtains (quits) "w' = w" "ts = []"
  | (waited) out c where "runIdleDrain g out (ev_cleared ev) (dw_conns w ! k) = (c, ts)" "w' = set_conn k c w"
proof (cases "waitForResponseDrain (ev_first ev) (ev_polls ev)")
  case None
  then show ?thesis using assms by (simp add: IdleWait_runs_def)
next
  case (Some rs)
  obtain res slept where rs: "rs = (res, slept)" by (cases rs)
  show ?thesis
  proof (cases res)
    case Canceled
    then show ?thesis using assms quits by (simp add: IdleWait_runs_def Some rs split: if_splits)
  next
    case (Waited out q)
    obtain c us where "runIdleDrain g out (ev_cleared ev) (dw_conns w ! k) = (c, us)" by fastforce
    then show ?thesis using assms waited by (simp add: IdleWait_runs_def Some rs Waited)
  qed
qed

text \<open>A task whose connection changes and which hands its drains to the tasks it spawns.\<close>

lemma settles_conn:
  assumes "resting w' + moving ts = resting w + mset (task_drains t)" "dw_tasks w' = dw_tasks w"
    "length (dw_reqs w') = length (dw_reqs w)" "dw_slots w' = dw_slots w" "dw_monitors w' = dw_monitors w"
    "dw_failClosed w' = dw_failClosed w" "task_slot t = 0" "task_monitor t = 0" "task_failed t = 0"
    "\<And>t. t \<in> set ts \<Longrightarrow> task_slot t = 0 \<and> task_monitor t = 0 \<and> task_failed t = 0"
  shows "settles w t w' ts"
  unfolding settles_def using assms
  by (simp add: sum_zero[of ts task_slot] sum_zero[of ts task_monitor] sum_zero[of ts task_failed])

lemma settles_IdleWait:
  assumes "IdleWait_runs ev k ctx g w = Some (w', ts)" "k < length (dw_conns w)"
  shows "settles w (IdleWait ctx g) w' ts"
  using assms(1)
proof (cases rule: IdleWait_cases)
  case quits
  then show ?thesis by (simp add: settles_def)
next
  case (waited out c)
  have h: "hands_over (dw_conns w ! k) c ts" using waited(1) by (rule hands_over_simps)
  show ?thesis
    unfolding waited(2)
    by (rule settles_conn) (use resting_hands_over[OF assms(2) h] h in \<open>auto simp: hands_over_def\<close>)
qed

lemma mset_exchange:
  fixes a :: "'a multiset"
  assumes "a + p = r + c" "c + m = p + n"
  shows "a + m = r + n"
proof -
  have "a + m + p = r + (c + m)" using assms(1) by (metis add.assoc add.commute)
  then have "a + m + p = r + n + p" unfolding assms(2) by (simp add: ac_simps)
  then show ?thesis by simp
qed

lemma settles_Admit:
  assumes "Admit_runs k r w = (w', ts)" "k < length (dw_conns w)"
  shows "settles w (Admit r) w' ts"
proof -
  let ?c = "configure responseDrainTimeout (dw_conns w ! k)"
  obtain c b us where a: "addDrain r ?c = (c, b, us)" by (metis prod.exhaust)
  have w': "w' = (set_conn k c w)\<lparr>dw_refused := dw_refused w @ (if b then [] else [r])\<rparr>" "ts = Handle r # us"
    using assms(1) by (simp_all add: Admit_runs_def a)
  have m: "mset (dc_pending c) + moving us = mset (dc_pending (dw_conns w ! k)) + {#r#}"
    using a by (auto simp: addDrain_def configure_def split: if_splits)
  have z: "task_slot t = 0 \<and> task_monitor t = 0 \<and> task_failed t = 0" if "t \<in> set us" for t
    using a that by (auto simp: addDrain_def split: if_splits)
  show ?thesis
    unfolding w'
    by (rule settles_conn) (use mset_exchange[OF resting_set_conn[OF assms(2)] m] z in auto)
qed

lemma settles_complete:
  assumes "w' = complete disable enable r out w"
  shows "dw_tasks w' = dw_tasks w" "dw_reqs w' = dw_reqs w" "dw_slots w' = dw_slots w"
    "dw_monitors w' = dw_monitors w" "dw_failClosed w' = dw_failClosed w" "resting w' = resting w + {#r#}"
  by (simp_all add: assms complete_def Let_def record_outcome_def resting_def done_drains_def)

lemma task_runs_settles:
  assumes "task_runs disable enable ev k t w = Some (w', ts)" "k < length (dw_conns w)"
    "\<And>ds. t = CloseEnd ds True \<Longrightarrow> ds = []" "\<And>ds out. t = MonitorEnd ds out \<Longrightarrow> 0 < dw_slots w"
  shows "settles w t w' ts"
proof (cases t)
  case (Admit r)
  then show ?thesis using assms(1,2) by (simp add: settles_Admit)
next
  case (Handle r)
  then show ?thesis using assms(1) by (auto simp: settles_def)
next
  case (IdleWait ctx g)
  then show ?thesis using assms(1,2) by (simp add: settles_IdleWait)
next
  case (Completing ds out)
  show ?thesis
  proof (cases ds)
    case (Cons r rs)
    have "w' = complete disable enable r out w" "ts = [Completing rs out]" using assms(1) by (auto simp: Completing Cons)
    then show ?thesis using settles_complete[of w'] by (simp add: settles_def Completing Cons)
  qed (use assms(1) Completing in \<open>simp add: settles_def\<close>)
next
  case (MonitorEnd ds out)
  show ?thesis
  proof (cases ds)
    case Nil
    then show ?thesis using assms(1,4) MonitorEnd by (auto simp: settles_def releaseResponseCloseMonitor_def)
  next
    case (Cons r rs)
    have "w' = complete disable enable r out w" "ts = [MonitorEnd rs out]" using assms(1) by (auto simp: MonitorEnd Cons)
    then show ?thesis using settles_complete[of w'] by (simp add: settles_def MonitorEnd Cons)
  qed
next
  case (CloseEnd ds b)
  have "\<not> b \<or> ds = []" using assms(3) CloseEnd by (cases b) auto
  then show ?thesis using assms(1) CloseEnd by (simp add: settles_CloseEnd)
next
  case (HijackEnd ds b)
  then show ?thesis using assms(1) by (auto simp: settles_def record_outcome_def)
next
  case (RecoverStart ds out)
  then show ?thesis using assms(1) by (auto simp: settles_def add_failClosed_def)
next
  case (MonitorStart ds b f)
  then show ?thesis using assms(1) by (auto simp: settles_def)
next
  case (Terminating ds b)
  then show ?thesis using assms(1) by (auto simp: settles_def)
qed (use assms(1) in \<open>simp_all add: settles_AbortEnd settles_Recover settles_MonitorWait settles_MonitorRetry\<close>)

section \<open>Why every drain was completed\<close>

text \<open>
  A drain is completed when the queue of its connection was seen empty, the connection was hijacked or
  its next request came, when the connection is gone, or when it was never registered.
\<close>

definition settled :: "'c drain_world \<Rightarrow> nat \<Rightarrow> responseDrainOutcome \<Rightarrow> nat \<Rightarrow> bool" where
  "settled w k out r \<longleftrightarrow>
     out \<in> {DrainComplete, ConnectionHijacked, ConnectionReused} \<or> dc_ended (dw_conns w ! k) \<or> r \<in> set (dw_refused w)"

definition conn_ok :: "drainConn \<Rightarrow> bool" where
  "conn_ok c \<longleftrightarrow> (dc_closing c \<longrightarrow> dc_closed c) \<and> (dc_closed c \<or> dc_hijackedConn c \<longrightarrow> dc_pending c = [])"

definition justified :: "'c drain_world \<Rightarrow> nat \<Rightarrow> task \<Rightarrow> bool" where
  "justified w k t \<longleftrightarrow>
     (\<forall>ds out. t = Completing ds out \<longrightarrow> (\<forall>r \<in> set ds. settled w k out r)) \<and>
     (\<forall>ds out. t = MonitorEnd ds out \<longrightarrow> dc_ended (dw_conns w ! k)) \<and>
     (\<forall>ds. t = CloseEnd ds True \<longrightarrow> ds = [])"

definition task_ok :: "'c drain_world \<Rightarrow> nat \<times> task \<Rightarrow> bool" where
  "task_ok w = (\<lambda>(k, t). k < length (dw_conns w) \<and>
     (\<forall>r \<in> set (task_drains t). r < length (dw_reqs w) \<and> fst (dw_reqs w ! r) = k) \<and> justified w k t)"

definition conns_place :: "'c drain_world \<Rightarrow> bool" where
  "conns_place w \<longleftrightarrow>
     (\<forall>k < length (dw_conns w). conn_ok (dw_conns w ! k) \<and>
        (\<forall>r \<in> set (dc_pending (dw_conns w ! k)). r < length (dw_reqs w) \<and> fst (dw_reqs w ! r) = k))"

definition completed_place :: "'c drain_world \<Rightarrow> bool" where
  "completed_place w \<longleftrightarrow>
     (\<forall>(r, out, rep) \<in> set (dw_completed w). r < length (dw_reqs w) \<and> fst (dw_reqs w ! r) < length (dw_conns w) \<and>
        settled w (fst (dw_reqs w ! r)) out r)"

definition place_inv :: "'c drain_world \<Rightarrow> bool" where
  "place_inv w \<longleftrightarrow> conns_place w \<and> completed_place w \<and> (\<forall>x \<in> set (dw_tasks w). task_ok w x)"

text \<open>What never gets lost from one state to the next.\<close>

definition grows :: "'c drain_world \<Rightarrow> 'c drain_world \<Rightarrow> bool" where
  "grows w w' \<longleftrightarrow>
     length (dw_conns w) \<le> length (dw_conns w') \<and>
     (\<forall>k < length (dw_conns w). dc_ended (dw_conns w ! k) \<longrightarrow> dc_ended (dw_conns w' ! k)) \<and>
     set (dw_refused w) \<subseteq> set (dw_refused w') \<and> length (dw_reqs w) \<le> length (dw_reqs w') \<and>
     (\<forall>r < length (dw_reqs w). fst (dw_reqs w' ! r) = fst (dw_reqs w ! r))"

lemma grows_refl [simp]: "grows w w"
  by (simp add: grows_def)

lemma settled_grows: "settled w k out r \<Longrightarrow> k < length (dw_conns w) \<Longrightarrow> grows w w' \<Longrightarrow> settled w' k out r"
  by (auto simp: settled_def grows_def)

lemma task_ok_grows: "task_ok w x \<Longrightarrow> grows w w' \<Longrightarrow> task_ok w' x"
  by (cases x) (fastforce simp: task_ok_def justified_def grows_def settled_def)

lemma completed_grows:
  "completed_place w \<Longrightarrow> grows w w' \<Longrightarrow> dw_completed w' = dw_completed w \<Longrightarrow> completed_place w'"
  by (fastforce simp: completed_place_def grows_def settled_def)

text \<open>The operations of one connection.\<close>

definition conn_change :: "drainConn \<Rightarrow> drainConn \<Rightarrow> task list \<Rightarrow> bool" where
  "conn_change c c' ts \<longleftrightarrow>
     conn_ok c' \<and> dc_ended c' = dc_ended c \<and> set (dc_pending c') \<subseteq> set (dc_pending c) \<and>
     (\<forall>t \<in> set ts. set (task_drains t) \<subseteq> set (dc_pending c) \<and>
        (\<forall>ds out. t = Completing ds out \<longrightarrow> out = DrainComplete) \<and> (\<forall>ds out. t \<noteq> MonitorEnd ds out) \<and>
        (\<forall>ds. t = CloseEnd ds True \<longrightarrow> ds = []))"

lemma conn_change_simps:
  assumes "conn_ok c"
  shows "setState st c = (c', ts) \<Longrightarrow> conn_change c c' ts"
    "Close c = (c', ts) \<Longrightarrow> conn_change c c' ts"
    "abortNowWithOutcome out c = (c', ts) \<Longrightarrow> conn_change c c' ts"
    "runIdleDrain g out b c = (c', ts) \<Longrightarrow> conn_change c c' ts"
  using assms
  by (auto simp: conn_change_def conn_ok_def setState_def activate_def startIdleDrain_def hijack_def Close_def
      abortNowWithOutcome_def runIdleDrain_def Let_def split: if_splits conn_state.splits)

lemma set_conn_nth: "j < length (dw_conns w) \<Longrightarrow> dw_conns (set_conn k c w) ! j = (if j = k then c else dw_conns w ! j)"
  by (simp add: set_conn_def nth_list_update)

lemma set_conn_more [simp]:
  "length (dw_conns (set_conn k c w)) = length (dw_conns w)" "dw_refused (set_conn k c w) = dw_refused w"
  by (simp_all add: set_conn_def)

lemma grows_set_conn: "dc_ended (dw_conns w ! k) \<longrightarrow> dc_ended c \<Longrightarrow> grows w (set_conn k c w)"
  by (auto simp: grows_def set_conn_nth)

lemma conn_change_place:
  assumes w: "place_inv w" and k: "k < length (dw_conns w)" and ch: "conn_change (dw_conns w ! k) c ts"
  shows "grows w (set_conn k c w)" "conns_place (set_conn k c w)" "t \<in> set ts \<Longrightarrow> task_ok (set_conn k c w) (k, t)"
proof -
  show "grows w (set_conn k c w)" using ch by (intro grows_set_conn) (simp add: conn_change_def)
  have home: "r < length (dw_reqs w) \<and> fst (dw_reqs w ! r) = k" if "r \<in> set (dc_pending (dw_conns w ! k))" for r
    using w k that by (auto simp: place_inv_def conns_place_def)
  show "conns_place (set_conn k c w)"
    using w ch home by (auto simp: conns_place_def place_inv_def set_conn_nth conn_change_def)
  assume "t \<in> set ts"
  with ch have t: "set (task_drains t) \<subseteq> set (dc_pending (dw_conns w ! k))"
      "\<And>ds out. t = Completing ds out \<Longrightarrow> out = DrainComplete" "\<And>ds out. t \<noteq> MonitorEnd ds out"
      "\<And>ds. t = CloseEnd ds True \<Longrightarrow> ds = []"
    by (simp_all add: conn_change_def)
  have "justified (set_conn k c w) k t"
    unfolding justified_def settled_def using t(2-4) by simp
  with k t(1) home show "task_ok (set_conn k c w) (k, t)" by (auto simp: task_ok_def)
qed

text \<open>What is said of a world without its tasks.\<close>

lemma place_frame:
  assumes "dw_conns w' = dw_conns w" "dw_reqs w' = dw_reqs w" "dw_refused w' = dw_refused w"
  shows "conns_place w' = conns_place w" "task_ok w' = task_ok w"
    "dw_completed w' = dw_completed w \<Longrightarrow> completed_place w' = completed_place w" "grows w0 w' = grows w0 w"
proof -
  show "conns_place w' = conns_place w" using assms by (simp add: conns_place_def)
  have s: "settled w' = settled w" using assms by (intro ext) (simp add: settled_def)
  show "completed_place w' = completed_place w" if "dw_completed w' = dw_completed w"
    using assms that s by (simp add: completed_place_def)
  have "justified w' = justified w" using assms s by (intro ext) (simp add: justified_def)
  then show "task_ok w' = task_ok w" using assms by (intro ext) (simp add: task_ok_def)
  show "grows w0 w' = grows w0 w" using assms by (simp add: grows_def)
qed

lemma spawn_place:
  "place_inv (spawn k ts w) \<longleftrightarrow> place_inv w \<and> (\<forall>t \<in> set ts. task_ok w (k, t))"
proof -
  have e: "dw_conns (spawn k ts w) = dw_conns w" "dw_reqs (spawn k ts w) = dw_reqs w"
      "dw_refused (spawn k ts w) = dw_refused w" "dw_completed (spawn k ts w) = dw_completed w"
      "dw_tasks (spawn k ts w) = dw_tasks w @ map (Pair k) ts"
    by (simp_all add: spawn_def)
  show ?thesis unfolding place_inv_def place_frame[OF e(1-3)] place_frame(3)[OF e(1-4)] e(5) by auto
qed

lemma conn_op_place:
  assumes w: "place_inv w" and k: "k < length (dw_conns w)" and ch: "conn_change (dw_conns w ! k) c ts"
  shows "place_inv (spawn k ts (set_conn k c w))"
proof -
  note p = conn_change_place[OF assms]
  have "completed_place (set_conn k c w)" by (rule completed_grows[OF _ p(1)]) (use w in \<open>simp_all add: place_inv_def\<close>)
  moreover have "task_ok (set_conn k c w) x" if "x \<in> set (dw_tasks w)" for x
    by (rule task_ok_grows[OF _ p(1)]) (use w that in \<open>simp add: place_inv_def\<close>)
  ultimately have "place_inv (set_conn k c w)" using p(2) by (simp add: place_inv_def)
  then show ?thesis unfolding spawn_place using p(3) by blast
qed

text \<open>The step of a task: the rest of the world grows, and what it spawns is in order.\<close>

definition steps_well :: "'c drain_world \<Rightarrow> nat \<Rightarrow> 'c drain_world \<Rightarrow> task list \<Rightarrow> bool" where
  "steps_well w k w' ts \<longleftrightarrow>
     grows w w' \<and> conns_place w' \<and> completed_place w' \<and> dw_tasks w' = dw_tasks w \<and> (\<forall>t \<in> set ts. task_ok w' (k, t))"

lemma note_ended_nth:
  "j < length (dw_conns w) \<Longrightarrow>
     dw_conns (note_ended k g w) ! j = (if j = k then (dw_conns w ! k)\<lparr>dc_ended := dc_ended (dw_conns w ! k) \<or> g\<rparr> else dw_conns w ! j)"
  by (simp add: note_ended_def nth_list_update)

lemma note_ended_more [simp]:
  "length (dw_conns (note_ended k g w)) = length (dw_conns w)" "dw_refused (note_ended k g w) = dw_refused w"
  by (simp_all add: note_ended_def)

text \<open>Steps that only note the end of the connection, count and record.\<close>

definition same_place :: "'c drain_world \<Rightarrow> nat \<Rightarrow> 'c drain_world \<Rightarrow> bool" where
  "same_place w k w' \<longleftrightarrow>
     (\<exists>g. dw_conns w' = dw_conns (note_ended k g w)) \<and> dw_reqs w' = dw_reqs w \<and> dw_refused w' = dw_refused w \<and>
     dw_completed w' = dw_completed w \<and> dw_tasks w' = dw_tasks w"

lemma same_place_refl [simp]: "same_place w k w"
  by (auto simp: same_place_def note_ended_def intro!: exI[of _ False])

lemma same_place_note [simp]: "same_place w k v \<Longrightarrow> same_place w k (note_ended k g v)"
proof (cases "k < length (dw_conns w)")
  case True
  assume "same_place w k v"
  then obtain h where "dw_conns v = dw_conns (note_ended k h w)" "dw_reqs v = dw_reqs w" "dw_refused v = dw_refused w"
      "dw_completed v = dw_completed w" "dw_tasks v = dw_tasks w"
    by (auto simp: same_place_def)
  then show ?thesis using True by (auto simp: same_place_def note_ended_def intro!: exI[of _ "h \<or> g"])
next
  case False
  assume "same_place w k v"
  then show ?thesis using False by (auto simp: same_place_def note_ended_def list_update_beyond not_less)
qed

lemma count_frames [simp]:
  "dw_conns (record_outcome out v) = dw_conns v" "dw_conns (add_failClosed n v) = dw_conns v"
  "dw_conns (releaseResponseCloseMonitor v) = dw_conns v" "dw_conns (v\<lparr>dw_rejections := m\<rparr>) = dw_conns v"
  "dw_conns (v\<lparr>dw_slots := m\<rparr>) = dw_conns v"
  by (simp_all add: record_outcome_def add_failClosed_def releaseResponseCloseMonitor_def)

lemma same_place_counts [simp]:
  "same_place w k (record_outcome out v) = same_place w k v" "same_place w k (add_failClosed n v) = same_place w k v"
  "same_place w k (releaseResponseCloseMonitor v) = same_place w k v"
  "same_place w k (v\<lparr>dw_rejections := m\<rparr>) = same_place w k v" "same_place w k (v\<lparr>dw_slots := m\<rparr>) = same_place w k v"
  "same_place w k (v\<lparr>dw_monitors := i\<rparr>) = same_place w k v" "same_place w k (v\<lparr>dw_terminated := b\<rparr>) = same_place w k v"
  "same_place w k (v\<lparr>dw_stz := st\<rparr>) = same_place w k v"
  by (simp_all add: same_place_def record_outcome_def add_failClosed_def releaseResponseCloseMonitor_def)

lemma same_place_length: "same_place w k v \<Longrightarrow> length (dw_conns v) = length (dw_conns w)"
  by (auto simp: same_place_def)

lemma note_ended_gone [simp]: "k < length (dw_conns v) \<Longrightarrow> dc_ended (dw_conns (note_ended k True v) ! k)"
  by (simp add: note_ended_nth)

lemma same_place_well:
  assumes "same_place w k w'" "place_inv w" "task_ok w (k, t0)"
    and "\<And>t. t \<in> set ts \<Longrightarrow> set (task_drains t) \<subseteq> set (task_drains t0) \<and> (\<forall>ds. t \<noteq> CloseEnd ds True) \<and>
      (\<forall>ds out. t = Completing ds out \<longrightarrow> out = ConnectionHijacked \<or> dc_ended (dw_conns w' ! k)) \<and>
      (\<forall>ds out. t = MonitorEnd ds out \<longrightarrow> dc_ended (dw_conns w' ! k))"
  shows "steps_well w k w' ts"
proof -
  have k: "k < length (dw_conns w)" using assms(3) by (simp add: task_ok_def)
  obtain g where c: "dw_conns w' = dw_conns (note_ended k g w)" and e: "dw_reqs w' = dw_reqs w"
      "dw_refused w' = dw_refused w" "dw_completed w' = dw_completed w" "dw_tasks w' = dw_tasks w"
    using assms(1) by (auto simp: same_place_def)
  have g: "grows w w'" by (auto simp: grows_def c e note_ended_nth)
  have "conns_place w'" using assms(2) by (auto simp: place_inv_def conns_place_def c e note_ended_nth conn_ok_def)
  moreover have "completed_place w'" by (rule completed_grows[OF _ g]) (use assms(2) e in \<open>simp_all add: place_inv_def\<close>)
  moreover have "task_ok w' (k, t)" if "t \<in> set ts" for t
  proof -
    have "justified w' k t"
      unfolding justified_def settled_def using assms(4)[OF that] by blast
    moreover have "r < length (dw_reqs w') \<and> fst (dw_reqs w' ! r) = k" if "r \<in> set (task_drains t)" for r
      using assms(3) assms(4)[OF \<open>t \<in> set ts\<close>] that by (auto simp: task_ok_def e)
    ultimately show ?thesis using k by (simp add: task_ok_def c)
  qed
  ultimately show ?thesis using g e by (simp add: steps_well_def)
qed

lemma same_place_acquire: "acquireResponseCloseMonitor v = (v', b) \<Longrightarrow> same_place w k v' = same_place w k v"
  by (auto simp: acquireResponseCloseMonitor_def split: if_splits)

lemma acquire_conns: "acquireResponseCloseMonitor v = (v', b) \<Longrightarrow> dw_conns v' = dw_conns v"
  by (auto simp: acquireResponseCloseMonitor_def split: if_splits)

lemma well_AbortEnd:
  assumes "AbortEnd_runs ev k ds outcome w = (w', ts)" "place_inv w" "task_ok w (k, AbortEnd ds outcome)"
  shows "steps_well w k w' ts"
proof (rule same_place_well[OF _ assms(2,3)])
  have "k < length (dw_conns w)" using assms(3) by (simp add: task_ok_def)
  then show "set (task_drains t) \<subseteq> set (task_drains (AbortEnd ds outcome)) \<and> (\<forall>ds. t \<noteq> CloseEnd ds True) \<and>
      (\<forall>ds out. t = Completing ds out \<longrightarrow> out = ConnectionHijacked \<or> dc_ended (dw_conns w' ! k)) \<and>
      (\<forall>ds out. t = MonitorEnd ds out \<longrightarrow> dc_ended (dw_conns w' ! k))" if "t \<in> set ts" for t
    using assms(1) that by (auto simp: AbortEnd_runs_def Let_def split: if_splits)
  show "same_place w k w'" using assms(1) by (auto simp: AbortEnd_runs_def Let_def split: if_splits)
qed

lemma well_CloseEnd:
  assumes "CloseEnd_runs ev k ds b w = (w', ts)" "place_inv w" "task_ok w (k, CloseEnd ds b)"
  shows "steps_well w k w' ts"
proof (rule same_place_well[OF _ assms(2,3)])
  have k: "k < length (dw_conns w)" using assms(3) by (simp add: task_ok_def)
  obtain v a where v: "acquireResponseCloseMonitor w = (v, a)" by fastforce
  have sv: "same_place w k v" by (simp add: same_place_acquire[OF v])
  have kv: "k < length (dw_conns v)" using k acquire_conns[OF v] by simp
  show "same_place w k w'"
    using assms(1) sv by (simp add: CloseEnd_runs_def v Let_def split: if_splits) auto
  show "set (task_drains t) \<subseteq> set (task_drains (CloseEnd ds b)) \<and> (\<forall>ds. t \<noteq> CloseEnd ds True) \<and>
      (\<forall>ds out. t = Completing ds out \<longrightarrow> out = ConnectionHijacked \<or> dc_ended (dw_conns w' ! k)) \<and>
      (\<forall>ds out. t = MonitorEnd ds out \<longrightarrow> dc_ended (dw_conns w' ! k))" if "t \<in> set ts" for t
    using assms(1) that kv by (auto simp: CloseEnd_runs_def v Let_def split: if_splits)
qed

lemma well_Recover:
  assumes "Recover_runs ev k ds outcome w = (w', ts)" "place_inv w" "task_ok w (k, Recover ds outcome)"
  shows "steps_well w k w' ts"
proof (cases "gone (ev_abort ev)")
  case True
  have "k < length (dw_conns w)" using assms(3) by (simp add: task_ok_def)
  then show ?thesis
    by (intro same_place_well[OF _ assms(2,3)]) (use assms(1) True in \<open>auto simp: Recover_runs_def Let_def\<close>)
next
  case False
  have k: "k < length (dw_conns w)" using assms(3) by (simp add: task_ok_def)
  obtain v a where v: "acquireResponseCloseMonitor (note_ended k False w) = (v, a)" by fastforce
  have sv: "same_place w k v" by (simp add: same_place_acquire[OF v])
  have kv: "k < length (dw_conns v)" using k acquire_conns[OF v] by simp
  show ?thesis
  proof (rule same_place_well[OF _ assms(2,3)])
    show "same_place w k w'"
      using assms(1) sv by (simp add: Recover_runs_def False v Let_def split: if_splits) auto
    show "set (task_drains t) \<subseteq> set (task_drains (Recover ds outcome)) \<and> (\<forall>ds. t \<noteq> CloseEnd ds True) \<and>
        (\<forall>ds out. t = Completing ds out \<longrightarrow> out = ConnectionHijacked \<or> dc_ended (dw_conns w' ! k)) \<and>
        (\<forall>ds out. t = MonitorEnd ds out \<longrightarrow> dc_ended (dw_conns w' ! k))" if "t \<in> set ts" for t
      using assms(1) that kv by (auto simp: Recover_runs_def False v Let_def split: if_splits)
  qed
qed

lemma well_MonitorWait:
  assumes "MonitorWait_runs ev k ds failed f w = Some (w', ts)" "place_inv w" "task_ok w (k, MonitorWait ds failed f)"
  shows "steps_well w k w' ts"
proof (rule same_place_well[OF _ assms(2,3)])
  have k: "k < length (dw_conns w)" using assms(3) by (simp add: task_ok_def)
  show "same_place w k w'" using assms(1) by (auto simp: MonitorWait_runs_def split: if_splits)
  show "set (task_drains t) \<subseteq> set (task_drains (MonitorWait ds failed f)) \<and> (\<forall>ds. t \<noteq> CloseEnd ds True) \<and>
      (\<forall>ds out. t = Completing ds out \<longrightarrow> out = ConnectionHijacked \<or> dc_ended (dw_conns w' ! k)) \<and>
      (\<forall>ds out. t = MonitorEnd ds out \<longrightarrow> dc_ended (dw_conns w' ! k))" if "t \<in> set ts" for t
    using assms(1) that k by (auto simp: MonitorWait_runs_def split: if_splits)
qed

lemma well_MonitorRetry:
  assumes "MonitorRetry_runs ev k ds outcome f w = Some (w', ts)" "place_inv w" "task_ok w (k, MonitorRetry ds outcome f)"
  shows "steps_well w k w' ts"
proof (rule same_place_well[OF _ assms(2,3)])
  have k: "k < length (dw_conns w)" using assms(3) by (simp add: task_ok_def)
  show "same_place w k w'" using assms(1) by (auto simp: MonitorRetry_runs_def Let_def split: if_splits)
  show "set (task_drains t) \<subseteq> set (task_drains (MonitorRetry ds outcome f)) \<and> (\<forall>ds. t \<noteq> CloseEnd ds True) \<and>
      (\<forall>ds out. t = Completing ds out \<longrightarrow> out = ConnectionHijacked \<or> dc_ended (dw_conns w' ! k)) \<and>
      (\<forall>ds out. t = MonitorEnd ds out \<longrightarrow> dc_ended (dw_conns w' ! k))" if "t \<in> set ts" for t
    using assms(1) that k by (auto simp: MonitorRetry_runs_def Let_def split: if_splits)
qed

lemma well_IdleWait:
  assumes "IdleWait_runs ev k ctx g w = Some (w', ts)" "place_inv w" "task_ok w (k, IdleWait ctx g)"
  shows "steps_well w k w' ts"
  using assms(1)
proof (cases rule: IdleWait_cases)
  case quits
  then show ?thesis using assms(2) by (simp add: steps_well_def place_inv_def)
next
  case (waited out c)
  have k: "k < length (dw_conns w)" using assms(3) by (simp add: task_ok_def)
  have "conn_ok (dw_conns w ! k)" using assms(2) k by (simp add: place_inv_def conns_place_def)
  note p = conn_change_place[OF assms(2) k conn_change_simps(4)[OF this waited(1)]]
  have "completed_place (set_conn k c w)"
    by (rule completed_grows[OF _ p(1)]) (use assms(2) in \<open>simp_all add: place_inv_def\<close>)
  then show ?thesis unfolding waited(2) using p by (simp add: steps_well_def)
qed

lemma addDrain_facts:
  assumes "addDrain r c = (c', b, ts)" "conn_ok c"
  shows "conn_ok c'" "dc_ended c' = dc_ended c" "b \<Longrightarrow> ts = [Completing (dc_pending c) ConnectionReused] \<and> dc_pending c' = [r]"
    "\<not> b \<Longrightarrow> (ts = [Completing [r] ConnectionHijacked] \<or> ts = [Completing [r] ConnectionClosed]) \<and> c' = c"
  using assms by (auto simp: addDrain_def conn_ok_def split: if_splits)

lemma well_Admit:
  assumes "Admit_runs k r w = (w', ts)" "place_inv w" "task_ok w (k, Admit r)"
  shows "steps_well w k w' ts"
proof -
  let ?c = "configure responseDrainTimeout (dw_conns w ! k)"
  obtain c b us where a: "addDrain r ?c = (c, b, us)" by (metis prod.exhaust)
  let ?w = "set_conn k c w"
  have w': "w' = ?w\<lparr>dw_refused := dw_refused w @ (if b then [] else [r])\<rparr>" "ts = Handle r # us"
    using assms(1) by (simp_all add: Admit_runs_def a)
  have k: "k < length (dw_conns w)" and r: "r < length (dw_reqs w)" "fst (dw_reqs w ! r) = k"
    using assms(3) by (simp_all add: task_ok_def)
  have ok: "conn_ok (dw_conns w ! k)"
    and home: "\<And>q. q \<in> set (dc_pending (dw_conns w ! k)) \<Longrightarrow> q < length (dw_reqs w) \<and> fst (dw_reqs w ! q) = k"
    using assms(2) k by (auto simp: place_inv_def conns_place_def)
  have "conn_ok ?c" using ok by (simp add: conn_ok_def configure_def)
  note f = addDrain_facts[OF a this]
  have fr: "dw_conns w' = dw_conns ?w" "dw_reqs w' = dw_reqs w" "dw_completed w' = dw_completed w" "dw_tasks w' = dw_tasks w"
      "set (dw_refused w) \<subseteq> set (dw_refused w')" "\<not> b \<Longrightarrow> r \<in> set (dw_refused w')"
    by (simp_all add: w')
  have g: "grows w w'" using f(2) fr by (auto simp: grows_def set_conn_nth configure_def)
  have pend: "set (dc_pending c) \<subseteq> insert r (set (dc_pending (dw_conns w ! k)))"
    using f(3,4) by (cases b) (auto simp: configure_def)
  have "conns_place w'"
    using assms(2) f(1) pend home r fr by (auto simp: conns_place_def place_inv_def set_conn_nth)
  moreover have "completed_place w'"
    by (rule completed_grows[OF _ g]) (use assms(2) fr in \<open>simp_all add: place_inv_def\<close>)
  moreover have "task_ok w' (k, t)" if "t \<in> set us" for t
  proof (cases b)
    case True
    then show ?thesis using f(3) that home k fr by (auto simp: task_ok_def justified_def settled_def configure_def)
  next
    case False
    then show ?thesis using f(4) that r k fr by (auto simp: task_ok_def justified_def settled_def)
  qed
  moreover have "task_ok w' (k, Handle r)" using k fr by (simp add: task_ok_def justified_def)
  ultimately show ?thesis using g fr w' by (simp add: steps_well_def)
qed

lemma well_complete:
  assumes "w' = complete disable enable r out w" "place_inv w" "task_ok w (k, t)" "task_drains t = r # ds"
    and "settled w k out r" "set (task_drains t') \<subseteq> set ds" "justified w k t'"
  shows "steps_well w k w' [t']"
proof -
  have e: "dw_conns w' = dw_conns w" "dw_reqs w' = dw_reqs w" "dw_refused w' = dw_refused w" "dw_tasks w' = dw_tasks w"
    and "\<exists>rep. dw_completed w' = dw_completed w @ [(r, out, rep)]"
    by (simp_all add: assms(1) complete_def Let_def record_outcome_def)
  then obtain rep where c: "dw_completed w' = dw_completed w @ [(r, out, rep)]" by blast
  have k: "k < length (dw_conns w)" and r: "r < length (dw_reqs w)" "fst (dw_reqs w ! r) = k"
    using assms(3,4) by (simp_all add: task_ok_def)
  have s: "settled w' = settled w" using e by (intro ext) (simp add: settled_def)
  have "completed_place w'" using assms(2,5) k r by (simp add: completed_place_def place_inv_def c e s)
  moreover have "task_ok w (k, t')" using assms(3,4,6,7) by (auto simp: task_ok_def)
  ultimately show ?thesis
    using assms(2) by (simp add: steps_well_def place_frame[OF e(1-3)] place_inv_def e grows_def)
qed

lemma task_runs_well:
  assumes "task_runs disable enable ev k t w = Some (w', ts)" "place_inv w" "task_ok w (k, t)"
  shows "steps_well w k w' ts"
proof (cases t)
  case (Admit r)
  then show ?thesis using assms by (simp add: well_Admit)
next
  case (Handle r)
  show ?thesis by (rule same_place_well[OF _ assms(2,3)]) (use assms(1) Handle in auto)
next
  case (IdleWait ctx g)
  then show ?thesis using assms by (simp add: well_IdleWait)
next
  case (Completing ds out)
  show ?thesis
  proof (cases ds)
    case Nil
    show ?thesis by (rule same_place_well[OF _ assms(2,3)]) (use assms(1) Completing Nil in auto)
  next
    case (Cons r rs)
    have e: "w' = complete disable enable r out w" "ts = [Completing rs out]" using assms(1) by (auto simp: Completing Cons)
    have "justified w k (Completing (r # rs) out)" using assms(3) by (simp add: task_ok_def Completing Cons)
    then have j: "settled w k out r" "justified w k (Completing rs out)" by (auto simp: justified_def)
    show ?thesis unfolding e(2)
      by (rule well_complete[OF e(1) assms(2,3) _ j(1) _ j(2), where ds = rs]) (simp_all only: Completing Cons task_drains.simps subset_refl)
  qed
next
  case (MonitorEnd ds out)
  show ?thesis
  proof (cases ds)
    case Nil
    show ?thesis by (rule same_place_well[OF _ assms(2,3)]) (use assms(1) MonitorEnd Nil in auto)
  next
    case (Cons r rs)
    have e: "w' = complete disable enable r out w" "ts = [MonitorEnd rs out]" using assms(1) by (auto simp: MonitorEnd Cons)
    have "justified w k (MonitorEnd (r # rs) out)" using assms(3) by (simp add: task_ok_def MonitorEnd Cons)
    then have j: "settled w k out r" "justified w k (MonitorEnd rs out)" by (auto simp: justified_def settled_def)
    show ?thesis unfolding e(2)
      by (rule well_complete[OF e(1) assms(2,3) _ j(1) _ j(2), where ds = rs]) (simp_all only: MonitorEnd Cons task_drains.simps subset_refl)
  qed
next
  case (HijackEnd ds b)
  show ?thesis by (rule same_place_well[OF _ assms(2,3)]) (use assms(1) HijackEnd in auto)
next
  case (AbortEnd ds out)
  then show ?thesis using assms by (simp add: well_AbortEnd)
next
  case (CloseEnd ds b)
  then show ?thesis using assms by (simp add: well_CloseEnd)
next
  case (RecoverStart ds out)
  show ?thesis by (rule same_place_well[OF _ assms(2,3)]) (use assms(1) RecoverStart in auto)
next
  case (Recover ds out)
  then show ?thesis using assms by (simp add: well_Recover)
next
  case (MonitorStart ds b f)
  show ?thesis by (rule same_place_well[OF _ assms(2,3)]) (use assms(1) MonitorStart in auto)
next
  case (MonitorWait ds b f)
  then show ?thesis using assms by (simp add: well_MonitorWait)
next
  case (MonitorRetry ds out f)
  then show ?thesis using assms by (simp add: well_MonitorRetry)
next
  case (Terminating ds b)
  show ?thesis by (rule same_place_well[OF _ assms(2,3)]) (use assms(1) Terminating in auto)
qed

lemma replace_place:
  assumes "steps_well w k w' ts" "place_inv w"
  shows "place_inv (replace_task i k ts w')"
proof -
  have e: "dw_conns (replace_task i k ts w') = dw_conns w'" "dw_reqs (replace_task i k ts w') = dw_reqs w'"
      "dw_refused (replace_task i k ts w') = dw_refused w'" "dw_completed (replace_task i k ts w') = dw_completed w'"
    by (simp_all add: replace_task_def)
  have "set (dw_tasks (replace_task i k ts w')) \<subseteq> set (dw_tasks w') \<union> Pair k ` set ts"
    by (auto simp: replace_task_def dest: in_set_takeD in_set_dropD)
  moreover have "task_ok w' x" if "x \<in> set (dw_tasks w')" for x
    using assms that by (intro task_ok_grows[of w x w']) (simp_all add: steps_well_def place_inv_def)
  ultimately show ?thesis
    using assms(1) unfolding place_inv_def place_frame[OF e(1-3)] place_frame(3)[OF e] steps_well_def by blast
qed

lemma request_admitted:
  "map_of (snd (stz_step disable enable (dw_stz w) (Arrive (length (dw_reqs w))))) (length (dw_reqs w)) \<noteq> None \<Longrightarrow>
     request_arrives disable enable k w =
       spawn k [Admit (length (dw_reqs w))]
         (w\<lparr>dw_stz := stz_step disable enable (dw_stz w) (Arrive (length (dw_reqs w))), dw_reqs := dw_reqs w @ [(k, None)]\<rparr>)"
  by (auto simp: request_arrives_def Let_def)

lemma fail_frame:
  "dw_conns (fail out q w) = dw_conns w" "dw_refused (fail out q w) = dw_refused w"
  "dw_completed (fail out q w) = dw_completed w" "dw_tasks (fail out q w) = dw_tasks w"
  "length (dw_reqs (fail out q w)) = length (dw_reqs w)" "fst (dw_reqs (fail out q w) ! r) = fst (dw_reqs w ! r)"
  "dw_slots (fail out q w) = dw_slots w" "dw_monitors (fail out q w) = dw_monitors w"
  "dw_failClosed (fail out q w) = dw_failClosed w" "dw_stz (fail out q w) = dw_stz w"
proof -
  show "fst (dw_reqs (fail out q w) ! r) = fst (dw_reqs w ! r)"
  proof (cases "q = r \<and> r < length (dw_reqs w)")
    case True
    then show ?thesis by (auto simp: fail_def split: prod.split option.split)
  next
    case False
    then show ?thesis by (cases "q = r") (auto simp: fail_def list_update_beyond not_less split: prod.split option.split)
  qed
qed (simp_all add: fail_def split: prod.split option.split)

lemma place_inv_step:
  assumes "drain_step disable enable w w'" "place_inv w"
  shows "place_inv w'"
  using assms(1)
proof cases
  case accepts
  let ?w = "w\<lparr>dw_conns := dw_conns w @ [new_drainConn]\<rparr>"
  have g: "grows w ?w" by (simp add: grows_def nth_append)
  have "conns_place ?w"
    using assms(2) by (auto simp: conns_place_def place_inv_def nth_append conn_ok_def new_drainConn_def)
  moreover have "completed_place ?w" by (rule completed_grows[OF _ g]) (use assms(2) in \<open>simp_all add: place_inv_def\<close>)
  moreover have "task_ok ?w x" if "x \<in> set (dw_tasks w)" for x
    by (rule task_ok_grows[OF _ g]) (use assms(2) that in \<open>simp add: place_inv_def\<close>)
  ultimately show ?thesis unfolding accepts by (simp add: place_inv_def)
next
  case (arrives k)
  let ?v = "w\<lparr>dw_stz := stz_step disable enable (dw_stz w) (Arrive (length (dw_reqs w)))\<rparr>"
  have v: "place_inv ?v"
    using assms(2) by (simp add: place_inv_def place_frame[of ?v w] place_frame(3)[of ?v w])
  show ?thesis
  proof (cases "map_of (snd (dw_stz ?v)) (length (dw_reqs w)) = None")
    case True
    obtain c ts where a: "abortNowWithOutcome ConnectionClosed (dw_conns w ! k) = (c, ts)" by fastforce
    have "conn_ok (dw_conns w ! k)" using assms(2) arrives by (simp add: place_inv_def conns_place_def)
    then have "place_inv (spawn k ts (set_conn k c ?v))"
      using conn_change_simps(3)[OF _ a] v arrives by (intro conn_op_place) simp_all
    then show ?thesis unfolding arrives using True by (simp add: request_arrives_def Let_def a)
  next
    case False
    let ?u = "?v\<lparr>dw_reqs := dw_reqs w @ [(k, None)]\<rparr>"
    have g: "grows ?v ?u" by (simp add: grows_def nth_append)
    have "conns_place ?u" using v by (auto simp: conns_place_def place_inv_def nth_append less_Suc_eq)
    moreover have "completed_place ?u" by (rule completed_grows[OF _ g]) (use v in \<open>simp_all add: place_inv_def\<close>)
    moreover have "task_ok ?u x" if "x \<in> set (dw_tasks w)" for x
      by (rule task_ok_grows[OF _ g]) (use v that in \<open>simp add: place_inv_def\<close>)
    ultimately have "place_inv ?u" by (simp add: place_inv_def)
    moreover have "task_ok ?u (k, Admit (length (dw_reqs w)))" using arrives by (simp add: task_ok_def justified_def)
    ultimately have "place_inv (spawn k [Admit (length (dw_reqs w))] ?u)" by (simp add: spawn_place)
    moreover have "request_arrives disable enable k w = spawn k [Admit (length (dw_reqs w))] ?u"
      by (rule request_admitted) (use False in simp)
    ultimately show ?thesis unfolding arrives by simp
  qed
next
  case (changes k st c ts)
  have "conn_ok (dw_conns w ! k)" using assms(2) changes by (simp add: place_inv_def conns_place_def)
  then show ?thesis unfolding changes(1) using conn_change_simps(1)[OF _ changes(4)] assms(2) changes by (intro conn_op_place)
next
  case (closes k c ts)
  have "conn_ok (dw_conns w ! k)" using assms(2) closes by (simp add: place_inv_def conns_place_def)
  then show ?thesis unfolding closes(1) using conn_change_simps(2)[OF _ closes(4)] assms(2) closes by (intro conn_op_place)
next
  case (write_fails k c ts)
  have "conn_ok (dw_conns w ! k)" using assms(2) write_fails by (simp add: place_inv_def conns_place_def)
  then show ?thesis unfolding write_fails(1) using conn_change_simps(3)[OF _ write_fails(4)] assms(2) write_fails
    by (intro conn_op_place)
next
  case (source_fails k)
  let ?w = "markCurrentFailure k SourceReadError w"
  have e: "dw_conns ?w = dw_conns w" "dw_refused ?w = dw_refused w" "dw_completed ?w = dw_completed w"
      "dw_tasks ?w = dw_tasks w" "length (dw_reqs ?w) = length (dw_reqs w)"
      "\<And>r. fst (dw_reqs ?w ! r) = fst (dw_reqs w ! r)"
    by (simp_all add: markCurrentFailure_def Let_def fail_frame)
  have g: "grows w ?w" by (simp add: grows_def e)
  have "conns_place ?w" using assms(2) by (simp add: place_inv_def conns_place_def e)
  moreover have "completed_place ?w" by (rule completed_grows[OF _ g]) (use assms(2) e in \<open>simp_all add: place_inv_def\<close>)
  moreover have "task_ok ?w x" if "x \<in> set (dw_tasks w)" for x
    by (rule task_ok_grows[OF _ g]) (use assms(2) that in \<open>simp add: place_inv_def\<close>)
  ultimately show ?thesis unfolding source_fails by (simp add: place_inv_def e)
next
  case (sets_deadline k d)
  let ?c = "(dw_conns w ! k)\<lparr>dc_writeDeadline := d\<rparr>"
  have "conn_ok (dw_conns w ! k)" using assms(2) sets_deadline by (simp add: place_inv_def conns_place_def)
  then have "conn_change (dw_conns w ! k) ?c []" by (simp add: conn_change_def conn_ok_def)
  from conn_op_place[OF assms(2) sets_deadline(3) this] show ?thesis
    unfolding sets_deadline(1) by (simp add: spawn_place)
next
  case (runs i k t ev v ts)
  have "task_ok w (k, t)" using assms(2) runs by (metis nth_mem place_inv_def)
  from task_runs_well[OF runs(5) assms(2) this] show ?thesis unfolding runs(1) using assms(2) by (rule replace_place)
next
  case (controls oper)
  let ?w = "w\<lparr>dw_stz := stz_step disable enable (dw_stz w) oper\<rparr>"
  show ?thesis unfolding controls(1)
    using assms(2) by (simp add: place_inv_def place_frame[of ?w w] place_frame(3)[of ?w w])
qed

section \<open>The books balance\<close>

lemma mset_replace:
  fixes f :: "task \<Rightarrow> nat list"
  assumes "i < length xs" "xs ! i = (k, t)"
  shows "mset (concat (map f (map snd (take i xs @ map (Pair k) ts @ drop (Suc i) xs)))) + mset (f t) =
    mset (concat (map f (map snd xs))) + mset (concat (map f ts))"
proof -
  have "map snd xs = map snd (take i xs) @ t # map snd (drop (Suc i) xs)"
    using id_take_nth_drop[OF assms(1)] assms(2) by (metis list.simps(9) map_append snd_conv)
  then have "mset (concat (map f (map snd xs))) =
      mset (concat (map f (map snd (take i xs)))) + (mset (f t) + mset (concat (map f (map snd (drop (Suc i) xs)))))"
    by (simp del: map_map)
  moreover have "map snd (map (Pair k) ts) = ts" by (simp add: comp_def)
  ultimately show ?thesis by (simp only: map_append concat_append mset_append ac_simps)
qed

lemma sum_list_replace:
  assumes "i < length xs" "xs ! i = (k, t)"
  shows "moving (map snd (take i xs @ map (Pair k) ts @ drop (Suc i) xs)) + mset (task_drains t) = moving (map snd xs) + moving ts"
  unfolding moving_def by (rule mset_replace[OF assms])

lemma sum_list_replace_num:
  fixes f :: "task \<Rightarrow> 'a :: comm_monoid_add"
  assumes "i < length xs" "xs ! i = (k, t)"
  shows "sum_list (map f (map snd (take i xs @ map (Pair k) ts @ drop (Suc i) xs))) + f t =
    sum_list (map f (map snd xs)) + sum_list (map f ts)"
proof -
  have "map snd xs = map snd (take i xs) @ t # map snd (drop (Suc i) xs)"
    using id_take_nth_drop[OF assms(1)] assms(2) by (metis list.simps(9) map_append snd_conv)
  then have "sum_list (map f (map snd xs)) =
      sum_list (map f (map snd (take i xs))) + (f t + sum_list (map f (map snd (drop (Suc i) xs))))"
    by (simp del: map_map)
  moreover have "map snd (map (Pair k) ts) = ts" by (simp add: comp_def)
  ultimately show ?thesis by (simp only: map_append sum_list_append ac_simps)
qed

lemma books_replace:
  assumes st: "settles w t w' ts" and b: "books w" and i: "i < length (dw_tasks w)" "dw_tasks w ! i = (k, t)"
  shows "books (replace_task i k ts w')"
proof -
  let ?w = "replace_task i k ts w'"
  have tk: "tasks_of ?w = map snd (take i (dw_tasks w) @ map (Pair k) ts @ drop (Suc i) (dw_tasks w))"
    using st by (simp add: tasks_of_def replace_task_def settles_def)
  have e: "resting ?w = resting w'" "dw_reqs ?w = dw_reqs w'" "dw_slots ?w = dw_slots w'" "dw_monitors ?w = dw_monitors w'"
      "dw_failClosed ?w = dw_failClosed w'"
    by (simp_all add: replace_task_def)
  have m: "moving (tasks_of ?w) + mset (task_drains t) = moving (tasks_of w) + moving ts"
    unfolding tk by (simp only: sum_list_replace[OF i] tasks_of_def)
  have "resting w' + moving (tasks_of ?w) + mset (task_drains t) = (resting w' + moving ts) + moving (tasks_of w)"
    using m by (simp add: ac_simps)
  also have "\<dots> = resting w + moving (tasks_of w) + mset (task_drains t)"
    using st by (simp add: settles_def ac_simps)
  finally have 1: "resting w' + moving (tasks_of ?w) = resting w + moving (tasks_of w)" by simp
  have n: "sum_list (map f (tasks_of ?w)) + f t = sum_list (map f (tasks_of w)) + sum_list (map f ts)"
    for f :: "task \<Rightarrow> 'x :: comm_monoid_add"
    unfolding tk by (simp only: sum_list_replace_num[OF i] tasks_of_def)
  show ?thesis
    using b st 1 n[of task_slot] n[of task_monitor] n[of task_failed]
    unfolding books_def e settles_def by (elim conjE, intro conjI) (simp_all del: mset_upt)
qed

lemma books_spawn:
  assumes "hands_over (dw_conns w ! k) c ts" "books w" "k < length (dw_conns w)"
  shows "books (spawn k ts (set_conn k c w))"
proof -
  let ?w = "spawn k ts (set_conn k c w)"
  have tk: "tasks_of ?w = tasks_of w @ ts" by (simp add: tasks_of_def spawn_def comp_def)
  have e: "resting ?w = resting (set_conn k c w)" by (simp add: spawn_def)
  have "resting ?w + moving (tasks_of ?w) = resting w + moving (tasks_of w)"
    using resting_hands_over[OF assms(3,1)] by (simp add: e tk ac_simps)
  moreover have "sum_list (map task_slot ts) = 0" "sum_list (map task_monitor ts) = 0" "sum_list (map task_failed ts) = 0"
    using assms(1) by (auto simp: hands_over_def intro!: sum_zero)
  ultimately show ?thesis using assms(2) by (simp add: books_def tk del: mset_upt moving_simps) (simp add: spawn_def)
qed

lemma books_frame:
  assumes "resting w' = resting w" "dw_tasks w' = dw_tasks w" "length (dw_reqs w') = length (dw_reqs w)"
    "dw_slots w' = dw_slots w" "dw_monitors w' = dw_monitors w" "dw_failClosed w' = dw_failClosed w"
  shows "books w' = books w"
  using assms by (simp add: books_def tasks_of_def)

lemma drain_books_step:
  assumes "drain_step disable enable w w'" "books w" "place_inv w"
  shows "books w'"
  using assms(1)
proof cases
  case accepts
  show ?thesis
    unfolding accepts(1) using assms(2) by (subst books_frame[of _ w]) (simp_all add: resting_def done_drains_def new_drainConn_def)
next
  case (arrives k)
  let ?v = "w\<lparr>dw_stz := stz_step disable enable (dw_stz w) (Arrive (length (dw_reqs w)))\<rparr>"
  have v: "books ?v" using assms(2) by (simp add: books_frame[of ?v w])
  show ?thesis
  proof (cases "map_of (snd (dw_stz ?v)) (length (dw_reqs w)) = None")
    case True
    obtain c ts where a: "abortNowWithOutcome ConnectionClosed (dw_conns w ! k) = (c, ts)" by fastforce
    have "books (spawn k ts (set_conn k c ?v))"
      by (rule books_spawn) (use hands_over_simps(3)[OF a] v arrives in simp_all)
    then show ?thesis unfolding arrives using True by (simp add: request_arrives_def Let_def a)
  next
    case False
    let ?n = "length (dw_reqs w)"
    let ?u = "spawn k [Admit ?n] (?v\<lparr>dw_reqs := dw_reqs w @ [(k, None)]\<rparr>)"
    have u: "request_arrives disable enable k w = ?u" by (rule request_admitted) (use False in simp)
    have tk: "tasks_of ?u = tasks_of w @ [Admit ?n]" by (simp add: tasks_of_def spawn_def)
    have "resting ?u = resting w" by (simp add: spawn_def)
    then have "books ?u" using assms(2) by (simp add: books_def tk del: mset_upt) (simp add: spawn_def del: mset_upt)
    then show ?thesis unfolding arrives u .
  qed
next
  case (changes k st c ts)
  then show ?thesis using hands_over_simps(1)[OF changes(4)] assms(2) by (simp add: books_spawn)
next
  case (closes k c ts)
  then show ?thesis using hands_over_simps(2)[OF closes(4)] assms(2) by (simp add: books_spawn)
next
  case (write_fails k c ts)
  then show ?thesis using hands_over_simps(3)[OF write_fails(4)] assms(2) by (simp add: books_spawn)
next
  case (source_fails k)
  have "dw_conns w' = dw_conns w" "dw_completed w' = dw_completed w" "dw_tasks w' = dw_tasks w"
      "length (dw_reqs w') = length (dw_reqs w)" "dw_slots w' = dw_slots w" "dw_monitors w' = dw_monitors w"
      "dw_failClosed w' = dw_failClosed w"
    unfolding source_fails by (simp_all add: markCurrentFailure_def Let_def fail_frame)
  then show ?thesis using assms(2) by (simp add: books_frame[of w' w] resting_def done_drains_def)
next
  case (sets_deadline k d)
  have "resting w' = resting w" unfolding sets_deadline(1)
    using resting_set_conn[OF sets_deadline(3), of "(dw_conns w ! k)\<lparr>dc_writeDeadline := d\<rparr>"] by simp
  then show ?thesis unfolding sets_deadline(1) using assms(2) by (subst books_frame[of _ w]) simp_all
next
  case (runs i k t ev v ts)
  have ok: "task_ok w (k, t)" using assms(3) runs by (metis nth_mem place_inv_def)
  have "task_slot t \<le> dw_slots w"
  proof -
    have "t \<in> set (tasks_of w)" using runs by (metis in_set_conv_nth length_map nth_map snd_conv tasks_of_def)
    then show ?thesis using assms(2) by (simp add: books_def member_le_sum_list)
  qed
  then have "settles w t v ts"
    by (intro task_runs_settles[OF runs(5)]) (use ok in \<open>auto simp: task_ok_def justified_def\<close>)
  then show ?thesis unfolding runs(1) by (rule books_replace[OF _ assms(2) runs(3,4)])
next
  case (controls oper)
  show ?thesis unfolding controls(1) using assms(2) by (subst books_frame[of _ w]) simp_all
qed

section \<open>Holds\<close>

definition running :: "'c drain_world \<Rightarrow> nat multiset" where
  "running w = mset (concat (map task_handler (tasks_of w)))"

definition hold_inv :: "'c drain_world \<Rightarrow> bool" where
  "hold_inv w \<longleftrightarrow>
     (\<forall>r < length (dw_reqs w). \<exists>h. map_of (snd (dw_stz w)) r = Some h \<and>
        connectionDone h = (r \<in> set (done_drains w)) \<and> handlerDone h = (r \<notin># running w)) \<and>
     (\<forall>r \<ge> length (dw_reqs w). map_of (snd (dw_stz w)) r = None) \<and>
     running w \<subseteq># mset [0..<length (dw_reqs w)]"

lemma holds_after:
  "map_of (snd (stz_step disable enable st (HandlerDone r))) q =
     (if q = r then map_option (finish_hold finishHandler) (map_of (snd st) r) else map_of (snd st) q)"
  "map_of (snd (stz_step disable enable st (ConnectionDone r))) q =
     (if q = r then map_option (finish_hold finishConnection) (map_of (snd st) r) else map_of (snd st) q)"
  by (cases st; auto simp: finish_request_def map_of_set_hold split: option.splits)+

lemma finish_flags:
  "handlerDone (finish_hold finishHandler h)" "connectionDone (finish_hold finishHandler h) = connectionDone h"
  "connectionDone (finish_hold finishConnection h)" "handlerDone (finish_hold finishConnection h) = handlerDone h"
  by (simp_all add: finish_hold_def finishHandler_def finishConnection_def finish_def Let_def)

text \<open>The step of a task finishes nothing, the handler of a request, or the connection of one.\<close>

definition finishes ::
  "('c \<Rightarrow> 'c \<times> bool) \<Rightarrow> ('c \<Rightarrow> 'c \<times> bool) \<Rightarrow> 'c drain_world \<Rightarrow> task \<Rightarrow> 'c drain_world \<Rightarrow> task list \<Rightarrow> bool" where
  "finishes disable enable w t w' ts \<longleftrightarrow>
     (dw_stz w' = dw_stz w \<and> done_drains w' = done_drains w \<and> concat (map task_handler ts) = task_handler t) \<or>
     (\<exists>r. t = Handle r \<and> ts = [] \<and> dw_stz w' = stz_step disable enable (dw_stz w) (HandlerDone r) \<and>
        done_drains w' = done_drains w) \<or>
     (\<exists>r \<in> set (task_drains t). task_handler t = [] \<and> concat (map task_handler ts) = [] \<and>
        dw_stz w' = stz_step disable enable (dw_stz w) (ConnectionDone r) \<and> done_drains w' = done_drains w @ [r])"

lemma handlers_addDrain: "addDrain r c = (c', b, us) \<Longrightarrow> concat (map task_handler us) = []"
  by (auto simp: addDrain_def split: if_splits)

lemma handlers_hand_over: "hands_over c c' ts \<Longrightarrow> concat (map task_handler ts) = []"
  by (auto simp: hands_over_def)

lemma same_place_finishes:
  "same_place w k w' \<Longrightarrow> dw_stz w' = dw_stz w \<Longrightarrow> concat (map task_handler ts) = task_handler t \<Longrightarrow> finishes disable enable w t w' ts"
  by (simp add: finishes_def same_place_def done_drains_def)

lemma complete_finishes:
  "w' = complete disable enable r out w \<Longrightarrow> task_drains t = r # ds \<Longrightarrow> task_handler t = [] \<Longrightarrow> task_handler t' = [] \<Longrightarrow>
     finishes disable enable w t w' [t']"
  by (auto simp: finishes_def complete_def Let_def record_outcome_def done_drains_def)

lemma stz_frames [simp]:
  "dw_stz (record_outcome out w) = dw_stz w" "dw_stz (add_failClosed n w) = dw_stz w"
  "dw_stz (releaseResponseCloseMonitor w) = dw_stz w" "dw_completed (record_outcome out w) = dw_completed w"
  "dw_completed (add_failClosed n w) = dw_completed w" "dw_completed (releaseResponseCloseMonitor w) = dw_completed w"
  by (simp_all add: record_outcome_def add_failClosed_def releaseResponseCloseMonitor_def)

lemma acquire_frames:
  "acquireResponseCloseMonitor w = (v, a) \<Longrightarrow> dw_stz v = dw_stz w \<and> dw_completed v = dw_completed w"
  by (auto simp: acquireResponseCloseMonitor_def split: if_splits)

lemma finishes_nothing:
  "dw_stz w' = dw_stz w \<Longrightarrow> dw_completed w' = dw_completed w \<Longrightarrow> concat (map task_handler ts) = task_handler t \<Longrightarrow>
     finishes disable enable w t w' ts"
  by (simp add: finishes_def done_drains_def)

lemma Recover_finishes:
  assumes "Recover_runs ev k ds out w = (w', ts)"
  shows "dw_stz w' = dw_stz w \<and> dw_completed w' = dw_completed w \<and> concat (map task_handler ts) = []"
proof (cases "gone (ev_abort ev)")
  case False
  obtain v a where v: "acquireResponseCloseMonitor (note_ended k False w) = (v, a)" by fastforce
  then show ?thesis using assms acquire_frames[OF v] by (auto simp: Recover_runs_def False v Let_def split: if_splits)
qed (use assms in \<open>auto simp: Recover_runs_def Let_def\<close>)

lemma CloseEnd_finishes:
  assumes "CloseEnd_runs ev k ds b w = (w', ts)"
  shows "dw_stz w' = dw_stz w \<and> dw_completed w' = dw_completed w \<and> concat (map task_handler ts) = []"
proof -
  obtain v a where v: "acquireResponseCloseMonitor w = (v, a)" by fastforce
  show ?thesis using assms acquire_frames[OF v] by (auto simp: CloseEnd_runs_def v Let_def split: if_splits)
qed

lemma task_runs_finishes:
  assumes "task_runs disable enable ev k t w = Some (w', ts)"
  shows "finishes disable enable w t w' ts"
proof (cases t)
  case (Admit r)
  obtain c b us where a: "addDrain r (configure responseDrainTimeout (dw_conns w ! k)) = (c, b, us)" by (metis prod.exhaust)
  show ?thesis
    by (rule finishes_nothing) (use assms Admit handlers_addDrain[OF a] in \<open>auto simp: Admit_runs_def a\<close>)
next
  case (Handle r)
  then show ?thesis using assms by (auto simp: finishes_def done_drains_def)
next
  case (IdleWait ctx g)
  then have "IdleWait_runs ev k ctx g w = Some (w', ts)" using assms by simp
  then show ?thesis
  proof (cases rule: IdleWait_cases)
    case (waited out c)
    show ?thesis unfolding waited(2) IdleWait
      by (rule finishes_nothing) (use handlers_hand_over[OF hands_over_simps(4)[OF waited(1)]] in simp_all)
  qed (simp add: finishes_def IdleWait)
next
  case (Completing ds out)
  show ?thesis
  proof (cases ds)
    case (Cons r rs)
    then have "w' = complete disable enable r out w" "ts = [Completing rs out]" using assms by (auto simp: Completing)
    then show ?thesis by (simp add: complete_finishes Completing Cons)
  qed (use assms Completing in \<open>simp add: finishes_def\<close>)
next
  case (MonitorEnd ds out)
  show ?thesis
  proof (cases ds)
    case (Cons r rs)
    then have "w' = complete disable enable r out w" "ts = [MonitorEnd rs out]" using assms by (auto simp: MonitorEnd)
    then show ?thesis by (simp add: complete_finishes MonitorEnd Cons)
  next
    case Nil
    show ?thesis by (rule finishes_nothing) (use assms MonitorEnd Nil in auto)
  qed
next
  case (HijackEnd ds b)
  show ?thesis by (rule finishes_nothing) (use assms HijackEnd in auto)
next
  case (AbortEnd ds out)
  show ?thesis by (rule finishes_nothing) (use assms AbortEnd in \<open>auto simp: AbortEnd_runs_def Let_def split: if_splits\<close>)
next
  case (CloseEnd ds b)
  then have "CloseEnd_runs ev k ds b w = (w', ts)" using assms by simp
  from CloseEnd_finishes[OF this] show ?thesis by (intro finishes_nothing) (simp_all add: CloseEnd)
next
  case (RecoverStart ds out)
  show ?thesis by (rule finishes_nothing) (use assms RecoverStart in auto)
next
  case (Recover ds out)
  then have "Recover_runs ev k ds out w = (w', ts)" using assms by simp
  from Recover_finishes[OF this] show ?thesis by (intro finishes_nothing) (simp_all add: Recover)
next
  case (MonitorStart ds b f)
  show ?thesis by (rule finishes_nothing) (use assms MonitorStart in auto)
next
  case (MonitorWait ds b f)
  show ?thesis by (rule finishes_nothing) (use assms MonitorWait in \<open>auto simp: MonitorWait_runs_def split: if_splits\<close>)
next
  case (MonitorRetry ds out f)
  show ?thesis
    by (rule finishes_nothing) (use assms MonitorRetry in \<open>auto simp: MonitorRetry_runs_def Let_def split: if_splits\<close>)
next
  case (Terminating ds b)
  show ?thesis by (rule finishes_nothing) (use assms Terminating in auto)
qed

lemma hold_frame:
  assumes "dw_stz w' = dw_stz w" "length (dw_reqs w') = length (dw_reqs w)" "done_drains w' = done_drains w"
    "running w' = running w"
  shows "hold_inv w' = hold_inv w"
  using assms by (simp add: hold_inv_def)

lemma running_spawn:
  "concat (map task_handler ts) = [] \<Longrightarrow> running (spawn k ts (set_conn k c w)) = running w"
  by (simp add: running_def tasks_of_def spawn_def comp_def)

lemma hold_inv_runs:
  assumes fin: "finishes disable enable w t w' ts" and inv: "hold_inv w"
    and i: "i < length (dw_tasks w)" "dw_tasks w ! i = (k, t)" and same: "dw_tasks w' = dw_tasks w" "length (dw_reqs w') = length (dw_reqs w)"
    and range: "\<And>r. r \<in> set (task_drains t) \<Longrightarrow> r < length (dw_reqs w)"
  shows "hold_inv (replace_task i k ts w')"
proof -
  let ?w = "replace_task i k ts w'" and ?n = "length (dw_reqs w)"
  have e: "dw_stz ?w = dw_stz w'" "length (dw_reqs ?w) = ?n" "done_drains ?w = done_drains w'"
    by (simp_all add: replace_task_def same done_drains_def)
  have run: "running ?w + mset (task_handler t) = running w + mset (concat (map task_handler ts))"
    using mset_replace[OF i, of task_handler ts] by (simp add: running_def tasks_of_def replace_task_def same)
  have sub: "running w \<subseteq># mset [0..<?n]" using inv by (simp add: hold_inv_def)
  note h = inv[unfolded hold_inv_def]
  from fin consider (none) "dw_stz w' = dw_stz w" "done_drains w' = done_drains w" "concat (map task_handler ts) = task_handler t"
    | (handler) r where "t = Handle r" "ts = []" "dw_stz w' = stz_step disable enable (dw_stz w) (HandlerDone r)" "done_drains w' = done_drains w"
    | (conn) r where "r \<in> set (task_drains t)" "task_handler t = []" "concat (map task_handler ts) = []"
        "dw_stz w' = stz_step disable enable (dw_stz w) (ConnectionDone r)" "done_drains w' = done_drains w @ [r]"
    unfolding finishes_def by blast
  then show ?thesis
  proof cases
    case none
    then have "running ?w = running w" using run by simp
    then show ?thesis using inv e none by (subst hold_frame[of _ w]) simp_all
  next
    case (handler r)
    have ru: "running w = add_mset r (running ?w)" using run handler by simp
    have c: "count (running w) r \<le> 1"
      using sub mset_subset_eq_count[OF sub, of r] by (simp add: distinct_count_atmost_1[THEN iffD1, OF distinct_upt, rule_format] del: mset_upt split: if_splits)
    then have "count (running ?w) r = 0" using ru by simp
    then have r: "r \<notin># running ?w" by (simp add: count_eq_zero_iff)
    have "r \<in># mset [0..<?n]" using sub ru by (metis mset_subset_eqD union_single_eq_member)
    then have rn: "r < ?n" by simp
    have subs: "running ?w \<subseteq># mset [0..<?n]" using sub ru by (metis mset_subset_eq_add_right add_mset_add_single subset_mset.dual_order.trans mset_subset_eq_add_left)
    show ?thesis
      unfolding hold_inv_def e handler(3,4)
    proof (intro conjI allI impI)
      show "\<exists>h. map_of (snd (stz_step disable enable (dw_stz w) (HandlerDone r))) q = Some h \<and>
          connectionDone h = (q \<in> set (done_drains w)) \<and> handlerDone h = (q \<notin># running ?w)" if lt: "q < ?n" for q
      proof -
        obtain g where g: "map_of (snd (dw_stz w)) q = Some g" "connectionDone g = (q \<in> set (done_drains w))" "handlerDone g = (q \<notin># running w)"
          using h lt by blast
        show ?thesis using g r ru by (cases "q = r") (simp_all add: holds_after finish_flags del: stz_step.simps)
      qed
      show "map_of (snd (stz_step disable enable (dw_stz w) (HandlerDone r))) q = None" if "?n \<le> q" for q
        using h that by (simp add: holds_after del: stz_step.simps)
    qed (rule subs)
  next
    case (conn r)
    have ru: "running ?w = running w" using run conn by simp
    show ?thesis
      unfolding hold_inv_def e conn(4,5) ru
    proof (intro conjI allI impI)
      show "\<exists>h. map_of (snd (stz_step disable enable (dw_stz w) (ConnectionDone r))) q = Some h \<and>
          connectionDone h = (q \<in> set (done_drains w @ [r])) \<and> handlerDone h = (q \<notin># running w)" if lt: "q < ?n" for q
      proof -
        obtain g where g: "map_of (snd (dw_stz w)) q = Some g" "connectionDone g = (q \<in> set (done_drains w))" "handlerDone g = (q \<notin># running w)"
          using h lt by blast
        show ?thesis using g by (cases "q = r") (simp_all add: holds_after finish_flags del: stz_step.simps)
      qed
      show "map_of (snd (stz_step disable enable (dw_stz w) (ConnectionDone r))) q = None" if "?n \<le> q" for q
        using h that by (simp add: holds_after del: stz_step.simps)
    qed (rule sub)
  qed
qed

lemma holds_Arrive:
  assumes "map_of (snd st) r = None"
  shows "snd (stz_step disable enable st (Arrive r)) = snd st \<or>
    snd (stz_step disable enable st (Arrive r)) = (r, newResponseHold) # snd st"
  using assms by (cases st) (auto split: prod.splits)

text \<open>The controller's own operations keep what holds have seen of handlers and connections.\<close>

definition hold_flags :: "(nat \<times> responseHold) list \<Rightarrow> nat \<Rightarrow> (bool \<times> bool) option" where
  "hold_flags holds q = map_option (\<lambda>h. (handlerDone h, connectionDone h)) (map_of holds q)"

lemma holds_control:
  "oper \<in> {PinOp, UnpinOp} \<union> range TimerFires \<union> range TimerRuns \<union> range ReleaseRuns \<Longrightarrow>
     hold_flags (snd (stz_step disable enable st oper)) = hold_flags (snd st)"
  by (cases st; cases "fst st")
    (auto simp: fun_eq_iff release_runs_def hold_flags_def map_of_set_hold split: option.split)

lemma hold_inv_flags:
  "hold_inv w \<longleftrightarrow>
     (\<forall>r < length (dw_reqs w). hold_flags (snd (dw_stz w)) r = Some (r \<notin># running w, r \<in> set (done_drains w))) \<and>
     (\<forall>r \<ge> length (dw_reqs w). hold_flags (snd (dw_stz w)) r = None) \<and>
     running w \<subseteq># mset [0..<length (dw_reqs w)]"
  by (auto simp: hold_inv_def hold_flags_def)

lemma hold_inv_snd:
  assumes "hold_flags (snd (dw_stz w')) = hold_flags (snd (dw_stz w))" "length (dw_reqs w') = length (dw_reqs w)"
    "done_drains w' = done_drains w" "running w' = running w"
  shows "hold_inv w' = hold_inv w"
  unfolding hold_inv_flags assms ..

lemma done_bounded: "books w \<Longrightarrow> r \<in> set (done_drains w) \<Longrightarrow> r < length (dw_reqs w)"
proof -
  assume b: "books w" and r: "r \<in> set (done_drains w)"
  have "r \<in># resting w + moving (tasks_of w)" using r by (simp add: resting_def)
  then have "r \<in># mset [0..<length (dw_reqs w)]" using b by (simp only: books_def)
  then show ?thesis by simp
qed

lemma hold_inv_step:
  assumes "drain_step disable enable w w'" "hold_inv w" "place_inv w" "books w"
  shows "hold_inv w'"
  using assms(1)
proof cases
  case accepts
  show ?thesis unfolding accepts using assms(2)
    by (subst hold_frame[of _ w]) (simp_all add: done_drains_def running_def tasks_of_def)
next
  case (arrives k)
  let ?n = "length (dw_reqs w)"
  let ?stz = "stz_step disable enable (dw_stz w) (Arrive ?n)"
  have none: "map_of (snd (dw_stz w)) ?n = None" using assms(2) by (simp add: hold_inv_def)
  show ?thesis
  proof (cases "map_of (snd ?stz) ?n = None")
    case True
    then have s: "snd ?stz = snd (dw_stz w)" using holds_Arrive[OF none, of disable enable] by auto
    obtain c ts where a: "abortNowWithOutcome ConnectionClosed (dw_conns w ! k) = (c, ts)" by fastforce
    have w': "w' = spawn k ts (set_conn k c (w\<lparr>dw_stz := ?stz\<rparr>))"
      unfolding arrives(1) using True by (simp add: request_arrives_def Let_def a)
    have "running w' = running w"
      unfolding w' running_spawn[OF handlers_hand_over[OF hands_over_simps(3)[OF a]]]
      by (simp add: running_def tasks_of_def)
    moreover have "snd (dw_stz w') = snd (dw_stz w)" "done_drains w' = done_drains w" "length (dw_reqs w') = ?n"
      unfolding w' by (simp_all add: s spawn_def done_drains_def)
    ultimately show ?thesis using assms(2) by (simp add: hold_inv_snd[of w' w])
  next
    case False
    have s: "snd ?stz = (?n, newResponseHold) # snd (dw_stz w)" using holds_Arrive[OF none, of disable enable] False none by auto
    have w': "w' = spawn k [Admit ?n] (w\<lparr>dw_stz := ?stz, dw_reqs := dw_reqs w @ [(k, None)]\<rparr>)"
      unfolding arrives(1) by (rule request_admitted) (rule False)
    have e: "snd (dw_stz w') = (?n, newResponseHold) # snd (dw_stz w)" "length (dw_reqs w') = Suc ?n"
        "done_drains w' = done_drains w" "running w' = add_mset ?n (running w)"
      unfolding w' by (simp_all add: s spawn_def done_drains_def running_def tasks_of_def)
    have nd: "?n \<notin> set (done_drains w)" using done_bounded[OF assms(4)] by blast
    note h = assms(2)[unfolded hold_inv_def]
    show ?thesis
      unfolding hold_inv_def e
    proof (intro conjI allI impI)
      show "\<exists>h. map_of ((?n, newResponseHold) # snd (dw_stz w)) q = Some h \<and> connectionDone h = (q \<in> set (done_drains w)) \<and>
          handlerDone h = (q \<notin># add_mset ?n (running w))" if "q < Suc ?n" for q
      proof (cases "q = ?n")
        case True
        then show ?thesis using nd by (simp add: newResponseHold_def)
      next
        case False
        then show ?thesis using h that by simp
      qed
      show "map_of ((?n, newResponseHold) # snd (dw_stz w)) q = None" if "Suc ?n \<le> q" for q using h that by simp
      have "add_mset ?n (running w) \<subseteq># add_mset ?n (mset [0..<?n])" using h by (simp del: mset_upt)
      then show "add_mset ?n (running w) \<subseteq># mset [0..<Suc ?n]" by (simp del: mset_upt)
    qed
  qed
next
  case (changes k st c ts)
  show ?thesis unfolding changes(1) using assms(2) running_spawn[OF handlers_hand_over[OF hands_over_simps(1)[OF changes(4)]]]
    by (subst hold_frame[of _ w]) (simp_all add: spawn_def done_drains_def)
next
  case (closes k c ts)
  show ?thesis unfolding closes(1) using assms(2) running_spawn[OF handlers_hand_over[OF hands_over_simps(2)[OF closes(4)]]]
    by (subst hold_frame[of _ w]) (simp_all add: spawn_def done_drains_def)
next
  case (write_fails k c ts)
  show ?thesis unfolding write_fails(1) using assms(2) running_spawn[OF handlers_hand_over[OF hands_over_simps(3)[OF write_fails(4)]]]
    by (subst hold_frame[of _ w]) (simp_all add: spawn_def done_drains_def)
next
  case (source_fails k)
  show ?thesis unfolding source_fails(1) using assms(2)
    by (subst hold_frame[of _ w]) (simp_all add: markCurrentFailure_def Let_def fail_frame done_drains_def running_def tasks_of_def)
next
  case (sets_deadline k d)
  show ?thesis unfolding sets_deadline(1) using assms(2)
    by (subst hold_frame[of _ w]) (simp_all add: done_drains_def running_def tasks_of_def)
next
  case (runs i k t ev v ts)
  have ok: "task_ok w (k, t)" using assms(3) runs by (metis nth_mem place_inv_def)
  have "steps_well w k v ts" by (rule task_runs_well[OF runs(5) assms(3) ok])
  then have tk: "dw_tasks v = dw_tasks w" by (simp add: steps_well_def)
  have "task_slot t \<le> dw_slots w"
  proof -
    have "t \<in> set (tasks_of w)" using runs by (metis in_set_conv_nth length_map nth_map snd_conv tasks_of_def)
    then show ?thesis using assms(4) by (simp add: books_def member_le_sum_list)
  qed
  then have "settles w t v ts"
    by (intro task_runs_settles[OF runs(5)]) (use ok in \<open>auto simp: task_ok_def justified_def\<close>)
  then have len: "length (dw_reqs v) = length (dw_reqs w)" by (simp add: settles_def)
  show ?thesis unfolding runs(1)
    by (rule hold_inv_runs[OF task_runs_finishes[OF runs(5)] assms(2) runs(3,4) tk len])
      (use ok in \<open>simp add: task_ok_def\<close>)
next
  case (controls oper)
  show ?thesis unfolding controls(1) using assms(2) holds_control[OF controls(3)]
    by (subst hold_inv_snd[of _ w]) (simp_all add: done_drains_def running_def tasks_of_def)
qed

section \<open>Reachable worlds\<close>

text \<open>The state of the controller only changes by its own operations.\<close>

lemma stz_of_step:
  assumes "drain_step disable enable w w'"
  shows "dw_stz w' = dw_stz w \<or> (\<exists>oper. dw_stz w' = stz_step disable enable (dw_stz w) oper)"
  using assms
proof cases
  case (arrives k)
  have "dw_stz w' = stz_step disable enable (dw_stz w) (Arrive (length (dw_reqs w)))"
    unfolding arrives(1) by (simp add: request_arrives_def Let_def spawn_def split: prod.split)
  then show ?thesis by blast
next
  case (runs i k t ev v ts)
  have "dw_stz w' = dw_stz v" unfolding runs(1) by (simp add: replace_task_def)
  then show ?thesis using task_runs_finishes[OF runs(5)] unfolding finishes_def by metis
next
  case (source_fails k)
  show ?thesis unfolding source_fails(1) by (simp add: markCurrentFailure_def Let_def fail_frame)
next
  case (controls oper)
  show ?thesis unfolding controls(1) by auto
qed (simp_all add: spawn_def)

definition drain_inv :: "unikraftController drain_world \<Rightarrow> bool" where
  "drain_inv w \<longleftrightarrow> place_inv w \<and> books w \<and> hold_inv w \<and>
     safe uk_kept (fst (dw_stz w)) \<and> holds_ok (fst (fst (dw_stz w))) (snd (dw_stz w))"

lemma drain_inv_new: "drain_inv (new_world (stz_start cd c0))"
  by (simp add: drain_inv_def place_inv_def conns_place_def completed_place_def books_def hold_inv_def
      new_world_def resting_def done_drains_def tasks_of_def running_def safe_def holds_ok_def weights_def
      stz_start_def NewDebouncedControllerWithCooldown_def maxResponseCloseMonitors_def)

lemma drain_inv_step:
  assumes "drain_step uk_Disable uk_Enable w w'" "drain_inv w"
  shows "drain_inv w'"
proof -
  note i = assms(2)[unfolded drain_inv_def]
  have "safe uk_kept (fst (dw_stz w')) \<and> holds_ok (fst (fst (dw_stz w'))) (snd (dw_stz w'))"
    using stz_of_step[OF assms(1)] i unikraft.safe_step holds_ok_step by metis
  then show ?thesis
    using i place_inv_step[OF assms(1)] drain_books_step[OF assms(1)] hold_inv_step[OF assms(1)] by (simp add: drain_inv_def)
qed

lemma reachable_drain_inv:
  "(drain_step uk_Disable uk_Enable)\<^sup>*\<^sup>* (new_world (stz_start cd c0)) w \<Longrightarrow> drain_inv w"
  by (induction rule: rtranclp_induct) (blast intro: drain_inv_new drain_inv_step)+

definition finished :: "'c drain_world \<Rightarrow> nat \<Rightarrow> bool" where
  "finished w r \<longleftrightarrow> r \<notin># running w \<and> r \<in> set (done_drains w)"

lemma held_while_unfinished:
  assumes "drain_inv w" "r < length (dw_reqs w)" "dw_stz w = ((d, c), holds)"
  shows "(\<exists>h. map_of holds r = Some h \<and> released h = finished w r) \<and> (\<not> finished w r \<longrightarrow> disabled d \<and> uk_kept c)"
proof -
  have hi: "hold_inv w" and s: "safe uk_kept (d, c)" and ho: "holds_ok d holds"
    using assms(1,3) by (simp_all add: drain_inv_def)
  obtain h where h: "map_of holds r = Some h" "connectionDone h = (r \<in> set (done_drains w))" "handlerDone h = (r \<notin># running w)"
    using hi assms(2,3) unfolding hold_inv_def by auto
  have "released h \<longleftrightarrow> \<not> hold_open h" using hold_ok_of[OF ho h(1)] by (simp add: hold_ok_def)
  then have rel: "released h = finished w r" using h by (auto simp: hold_open_def finished_def)
  moreover have "disabled d \<and> uk_kept c" if "\<not> finished w r"
  proof -
    have "hold_open h" using h that by (auto simp: hold_open_def finished_def)
    then have "0 < activeCount d" using open_holds_pos[OF map_of_SomeD[OF h(1)]] ho by (simp add: holds_ok_def)
    then show ?thesis using s by (auto simp: safe_def)
  qed
  ultimately show ?thesis using h(1) by blast
qed

text \<open> C15. A response keeps the machine awake until it has left it. In every interleaving of connections,
  requests, goroutines, socket failures and controller operations, every admitted request is in one
  place only: registered with its connection, being settled, or completed once; its hold is released
  exactly when its handler has returned and it was completed, and until then the controller takes
  scale-to-zero for disabled and the control file, where there is one, disables it, unless the last call that opened the
  file failed to write it after truncating it, which leaves it empty. A request is completed only when its queue was seen empty, its connection
  was hijacked or took the next request, when the connection is gone, or when it was never
  registered. The close monitors never exceed their limit, and the counters count what they say.\<close>

theorem responses_settle:
  assumes "(drain_step uk_Disable uk_Enable)\<^sup>*\<^sup>* (new_world (stz_start cd c0)) w" "dw_stz w = ((d, c), holds)"
  shows "mset (concat (map dc_pending (dw_conns w)) @ concat (map task_drains (tasks_of w)) @ done_drains w) =
      mset [0..<length (dw_reqs w)] \<and>
    (\<forall>r < length (dw_reqs w).
       (\<exists>h. map_of holds r = Some h \<and> released h = finished w r) \<and> 
       (\<not> finished w r \<longrightarrow> disabled d \<and> (uk_off c \<or> uk_value c = [] \<and> uk_torn c))) \<and>
    (\<forall>(r, out, rep) \<in> set (dw_completed w). settled w (fst (dw_reqs w ! r)) out r) \<and>
    dw_slots w = length (filter (\<lambda>t. task_slot t = 1) (tasks_of w)) \<and> dw_slots w \<le> 256 \<and>
    dw_failClosed w = sum_list (map task_failed (tasks_of w))"
proof -
  have inv: "drain_inv w" by (rule reachable_drain_inv[OF assms(1)])
  have b: "books w" and p: "place_inv w" using inv by (simp_all add: drain_inv_def)
  have "mset (concat (map dc_pending (dw_conns w)) @ concat (map task_drains (tasks_of w)) @ done_drains w) =
      resting w + moving (tasks_of w)"
    by (simp add: resting_def moving_def ac_simps)
  also have "\<dots> = mset [0..<length (dw_reqs w)]" using b by (simp only: books_def)
  finally have m: "mset (concat (map dc_pending (dw_conns w)) @ concat (map task_drains (tasks_of w)) @ done_drains w) =
      mset [0..<length (dw_reqs w)]" .
  have "sum_list (map task_slot ts) = length (filter (\<lambda>t. task_slot t = 1) ts)" for ts
  proof (induction ts)
    case (Cons t ts)
    have "task_slot t = 0 \<or> task_slot t = 1" by (cases t) auto
    with Cons show ?case by auto
  qed simp
  then have slots: "dw_slots w = length (filter (\<lambda>t. task_slot t = 1) (tasks_of w))" "dw_slots w \<le> 256"
      "dw_failClosed w = sum_list (map task_failed (tasks_of w))"
    using b by (simp_all add: books_def maxResponseCloseMonitors_def)
  have comp: "\<forall>(r, out, rep) \<in> set (dw_completed w). settled w (fst (dw_reqs w ! r)) out r"
    using p by (auto simp: place_inv_def completed_place_def)
  show ?thesis using m comp slots held_while_unfinished[OF inv _ assms(2)] unfolding uk_kept_def by blast
qed

section \<open>A run\<close>

definition quiet_env :: env where
  "quiet_env = \<lparr>ev_abort = OsOk, ev_duplicate = OsOk, ev_cleared = True, ev_expired = False, ev_first = Inr 0,
     ev_polls = [], ev_close_polls = []\<rparr>"

definition run_task :: "nat \<Rightarrow> unikraftController drain_world \<Rightarrow> unikraftController drain_world" where
  "run_task i w =
     (case dw_tasks w ! i of (k, t) \<Rightarrow>
        (case task_runs uk_Disable uk_Enable quiet_env k t w of None \<Rightarrow> w | Some (w', ts) \<Rightarrow> replace_task i k ts w'))"

abbreviation drain_reaches :: "unikraftController drain_world \<Rightarrow> unikraftController drain_world \<Rightarrow> bool" where
  "drain_reaches \<equiv> (drain_step uk_Disable uk_Enable)\<^sup>*\<^sup>*"

lemma run_task_reaches:
  assumes "drain_reaches w0 w" "\<not> dw_terminated w" "i < length (dw_tasks w)"
  shows "drain_reaches w0 (run_task i w)"
proof -
  obtain k t where t: "dw_tasks w ! i = (k, t)" by fastforce
  show ?thesis
  proof (cases "task_runs uk_Disable uk_Enable quiet_env k t w")
    case (Some wt)
    obtain w' ts where "wt = (w', ts)" by fastforce
    then have "drain_step uk_Disable uk_Enable w (run_task i w)"
      using drain_step.runs[OF assms(2,3) t] Some by (simp add: run_task_def t)
    with assms(1) show ?thesis by simp
  qed (simp add: run_task_def t assms(1))
qed

text \<open>One request is served, its connection becomes idle with an empty queue, and its hold is released.\<close>

definition served_start :: "unikraftController drain_world" where
  "served_start = (new_world (stz_start 5 uk_example))\<lparr>dw_conns := [new_drainConn]\<rparr>"

definition served_handled :: "unikraftController drain_world" where
  "served_handled = run_task 0 (run_task 0 (run_task 0 (request_arrives uk_Disable uk_Enable 0 served_start)))"

definition served_idle :: "unikraftController drain_world" where
  "served_idle = (case setState StateIdle (dw_conns served_handled ! 0) of (c, ts) \<Rightarrow> spawn 0 ts (set_conn 0 c served_handled))"

definition served_done :: "unikraftController drain_world" where
  "served_done = run_task 0 (run_task 0 served_idle)"

lemmas served_simps = run_task_def quiet_env_def request_arrives_def served_start_def new_world_def stz_start_def
  NewDebouncedControllerWithCooldown_def uk_example_def DC_Disable_def stopTimer_def uk_Disable_def uk_write_def
  newResponseHold_def finish_hold_def set_hold_def spawn_def replace_task_def Admit_runs_def addDrain_def configure_def new_drainConn_def set_conn_def
  finish_request_def finishHandler_def finish_def Let_def

lemma served_arrived:
  "request_arrives uk_Disable uk_Enable 0 served_start =
     served_start\<lparr>dw_reqs := [(0, None)], dw_tasks := [(0, Admit 0)],
       dw_stz := stz_step uk_Disable uk_Enable (stz_start 5 uk_example) (Arrive 0)\<rparr>"
  by (simp add: served_simps)

lemma served_arrived_tasks:
  "dw_tasks (request_arrives uk_Disable uk_Enable 0 served_start) = [(0, Admit 0)]"
  "\<not> dw_terminated (request_arrives uk_Disable uk_Enable 0 served_start)"
  unfolding served_arrived by (simp_all add: served_start_def new_world_def)

lemma served_handled_eq:
  "served_handled = served_start\<lparr>dw_reqs := [(0, None)], dw_tasks := [],
     dw_conns := [(configure responseDrainTimeout new_drainConn)\<lparr>dc_pending := [0]\<rparr>],
     dw_stz := stz_step uk_Disable uk_Enable (stz_step uk_Disable uk_Enable (stz_start 5 uk_example) (Arrive 0)) (HandlerDone 0)\<rparr>"
  unfolding served_handled_def served_arrived
  by (simp add: run_task_def replace_task_def Admit_runs_def addDrain_def configure_def new_drainConn_def set_conn_def
      served_start_def new_world_def del: stz_step.simps)

lemma served_handled_tasks:
  "dw_tasks (run_task 0 (request_arrives uk_Disable uk_Enable 0 served_start)) = [(0, Handle 0), (0, Completing [] ConnectionReused)]"
  "dw_tasks (run_task 0 (run_task 0 (request_arrives uk_Disable uk_Enable 0 served_start))) = [(0, Completing [] ConnectionReused)]"
  "\<not> dw_terminated (run_task 0 (request_arrives uk_Disable uk_Enable 0 served_start))"
  "\<not> dw_terminated (run_task 0 (run_task 0 (request_arrives uk_Disable uk_Enable 0 served_start)))"
  unfolding served_arrived
  by (simp_all add: run_task_def replace_task_def Admit_runs_def addDrain_def configure_def new_drainConn_def set_conn_def
      served_start_def new_world_def del: stz_step.simps)

lemma served_idle_eq:
  "dw_tasks served_idle = [(0, IdleWait 0 1)]" "\<not> dw_terminated served_idle" "length (dw_conns served_idle) = 1"
  "dw_reqs served_idle = [(0, None)]" "dw_completed served_idle = []"
  "dc_pending (dw_conns served_idle ! 0) = [0]" "dc_generation (dw_conns served_idle ! 0) = 1"
  "dc_state (dw_conns served_idle ! 0) = StateIdle" "\<not> dc_closed (dw_conns served_idle ! 0)"
  "\<not> dc_hijackedConn (dw_conns served_idle ! 0)"
  unfolding served_idle_def served_handled_eq
  by (simp_all add: setState_def startIdleDrain_def spawn_def set_conn_def configure_def new_drainConn_def served_start_def
      new_world_def cancel_drain_def Let_def del: stz_step.simps)

lemma served_done_eq:
  "dw_completed served_done = [(0, DrainComplete, DrainComplete)]" "dw_reqs served_done = [(0, None)]"
  "running served_done = {#}" "dw_tasks (run_task 0 served_idle) = [(0, Completing [0] DrainComplete)]"
  "\<not> dw_terminated (run_task 0 served_idle)"
  unfolding served_done_def
  by (simp_all add: run_task_def[of _ served_idle] served_idle_eq IdleWait_runs_def quiet_env_def waitForResponseDrain_def
      runIdleDrain_def set_conn_def replace_task_def run_task_def complete_def record_outcome_def Let_def running_def
      tasks_of_def del: stz_step.simps)

lemma served_reaches: "drain_reaches (new_world (stz_start 5 uk_example)) served_done"
proof -
  let ?w0 = "new_world (stz_start 5 uk_example)"
  have "drain_step uk_Disable uk_Enable ?w0 (?w0\<lparr>dw_conns := dw_conns ?w0 @ [new_drainConn]\<rparr>)"
    by (rule drain_step.accepts) (simp add: new_world_def)
  moreover have "?w0\<lparr>dw_conns := dw_conns ?w0 @ [new_drainConn]\<rparr> = served_start" by (simp add: served_start_def new_world_def)
  moreover have "drain_step uk_Disable uk_Enable served_start (request_arrives uk_Disable uk_Enable 0 served_start)"
    by (rule drain_step.arrives) (simp_all add: served_start_def new_world_def)
  ultimately have "drain_reaches ?w0 (request_arrives uk_Disable uk_Enable 0 served_start)" by auto
  then have "drain_reaches ?w0 (run_task 0 (request_arrives uk_Disable uk_Enable 0 served_start))"
    by (rule run_task_reaches) (simp_all add: served_arrived_tasks)
  then have "drain_reaches ?w0 (run_task 0 (run_task 0 (request_arrives uk_Disable uk_Enable 0 served_start)))"
    by (rule run_task_reaches) (simp_all add: served_handled_tasks)
  then have h: "drain_reaches ?w0 served_handled"
    unfolding served_handled_def by (rule run_task_reaches) (simp_all add: served_handled_tasks)
  have "drain_step uk_Disable uk_Enable served_handled served_idle"
    unfolding served_idle_def
    by (cases "setState StateIdle (dw_conns served_handled ! 0)")
      (auto intro!: drain_step.changes simp: served_handled_eq served_start_def new_world_def)
  with h have "drain_reaches ?w0 served_idle" by simp
  then have "drain_reaches ?w0 (run_task 0 served_idle)" by (rule run_task_reaches) (simp_all add: served_idle_eq)
  then show ?thesis unfolding served_done_def by (rule run_task_reaches) (simp_all add: served_done_eq)
qed

theorem responses_settle_witness:
  "case dw_stz served_done of ((d, c), holds) \<Rightarrow>
     finished served_done 0 \<and> (\<exists>h. map_of holds 0 = Some h \<and> released h) \<and>
     settled served_done 0 DrainComplete 0 \<and> dw_slots served_done \<le> 256"
proof -
  obtain d c holds where st: "dw_stz served_done = ((d, c), holds)" by (metis prod.exhaust)
  have "finished served_done 0" by (simp add: finished_def served_done_eq done_drains_def)
  with responses_settle[OF served_reaches st] show ?thesis by (simp add: st served_done_eq)
qed

end
