(* ===== verification/GoFiles.thy ===== *)
theory GoFiles
  imports GoStrings "HOL-Library.Sublist"
begin

text \<open>
  Files as the operating system and Go's \<open>os\<close> and \<open>path/filepath\<close> show them: a tree of directories,
  files and symbolic links, paths as lists of names from the root. A call may be refused
  (\<open>fs_denied\<close>) for lack of permission.
\<close>

section \<open>The tree\<close>

type_synonym path = "string list"

datatype node = DirNode | FileNode string nat | LinkNode string

record files =
  fs_nodes :: "(path \<times> node) list"
  fs_denied :: "path list"

definition fs_get :: "files \<Rightarrow> path \<Rightarrow> node option" where
  "fs_get fs p = map_of (fs_nodes fs) p"

definition fs_del :: "path \<Rightarrow> files \<Rightarrow> files" where
  "fs_del p fs = fs\<lparr>fs_nodes := filter (\<lambda>(q, _). q \<noteq> p) (fs_nodes fs)\<rparr>"

definition fs_set :: "path \<Rightarrow> node \<Rightarrow> files \<Rightarrow> files" where
  "fs_set p n fs = fs\<lparr>fs_nodes := (p, n) # fs_nodes (fs_del p fs)\<rparr>"

definition has_children :: "files \<Rightarrow> path \<Rightarrow> bool" where
  "has_children fs p \<longleftrightarrow> list_ex (\<lambda>(q, _). q \<noteq> [] \<and> butlast q = p) (fs_nodes fs)"

text \<open>Every node but the root lies in a directory.\<close>

definition fs_ok :: "files \<Rightarrow> bool" where
  "fs_ok fs \<longleftrightarrow>
     fs_get fs [] = Some DirNode \<and>
     (\<forall>p. p \<noteq> [] \<and> fs_get fs p \<noteq> None \<longrightarrow> fs_get fs (butlast p) = Some DirNode)"

lemma fs_get_del [simp]: "fs_get (fs_del p fs) q = (if q = p then None else fs_get fs q)"
proof -
  have "map_of (filter (\<lambda>(q, _). q \<noteq> p) xs) q = (if q = p then None else map_of xs q)" for xs :: "(path \<times> node) list"
    by (induction xs) auto
  then show ?thesis by (simp add: fs_get_def fs_del_def)
qed

lemma fs_get_set [simp]: "fs_get (fs_set p n fs) q = (if q = p then Some n else fs_get fs q)"
  using fs_get_del[of p fs q] by (simp add: fs_get_def fs_set_def)

lemma has_children_iff: "has_children fs p \<longleftrightarrow> (\<exists>c. fs_get fs (p @ [c]) \<noteq> None)"
proof
  assume "has_children fs p"
  then obtain q n where q: "(q, n) \<in> set (fs_nodes fs)" "q \<noteq> []" "butlast q = p"
    by (auto simp: has_children_def list_ex_iff)
  then have "q = p @ [last q]" by (metis append_butlast_last_id)
  then show "\<exists>c. fs_get fs (p @ [c]) \<noteq> None"
    using q(1) by (metis fs_get_def map_of_eq_None_iff fst_conv image_eqI)
next
  assume "\<exists>c. fs_get fs (p @ [c]) \<noteq> None"
  then obtain c n where "map_of (fs_nodes fs) (p @ [c]) = Some n" by (auto simp: fs_get_def)
  then have "(p @ [c], n) \<in> set (fs_nodes fs)" by (rule map_of_SomeD)
  then show "has_children fs p" by (force simp: has_children_def list_ex_iff)
qed

section \<open>Looking up paths\<close>

datatype 'a os = OsVal 'a | NotExist | OsFail

abbreviation slash :: char where "slash \<equiv> CHR ''/''"

definition path_comps :: "string \<Rightarrow> string list" where
  "path_comps s = split_byte slash s"

definition is_abs :: "string \<Rightarrow> bool" where
  "is_abs s = has_prefix ''/'' s"

text \<open>
  The walk of the names \<open>cs\<close> from the directory \<open>cur\<close>, following at most \<open>n\<close> links. With \<open>creat\<close> the
  last name need not exist.
\<close>

function walk :: "files \<Rightarrow> bool \<Rightarrow> nat \<Rightarrow> path \<Rightarrow> string list \<Rightarrow> path os" where
  "walk fs creat n cur [] = OsVal cur"
| "walk fs creat n cur (c # cs) =
     (if c = [] \<or> c = ''.'' then walk fs creat n cur cs
      else if c = ''..'' then walk fs creat n (butlast cur) cs
      else case fs_get fs (cur @ [c]) of
        None \<Rightarrow> if creat \<and> cs = [] then OsVal (cur @ [c]) else NotExist
      | Some DirNode \<Rightarrow> walk fs creat n (cur @ [c]) cs
      | Some (FileNode _ _) \<Rightarrow> if cs = [] then OsVal (cur @ [c]) else OsFail
      | Some (LinkNode t) \<Rightarrow>
          (case n of 0 \<Rightarrow> OsFail | Suc m \<Rightarrow> walk fs creat m (if is_abs t then [] else cur) (path_comps t @ cs)))"
  by pat_completeness auto
termination
  by (relation "inv_image (less_than <*lex*> less_than) (\<lambda>(fs, creat, n, cur, cs). (n, length cs))") auto

text \<open>The kernel follows forty links, \<open>filepath.EvalSymlinks\<close> 255.\<close>

definition resolve :: "files \<Rightarrow> path \<Rightarrow> path os" where
  "resolve fs p = walk fs False 40 [] p"

definition EvalSymlinks :: "files \<Rightarrow> path \<Rightarrow> path os" where
  "EvalSymlinks fs p = walk fs False 255 [] p"

text \<open>Where a call that does not follow a last link finds the node: in the directory the parent resolves to.\<close>

definition locate :: "files \<Rightarrow> path \<Rightarrow> path os" where
  "locate fs p =
     (case resolve fs (butlast p) of
        OsVal d \<Rightarrow> if fs_get fs d = Some DirNode then OsVal (d @ [last p]) else OsFail
      | NotExist \<Rightarrow> NotExist
      | OsFail \<Rightarrow> OsFail)"

definition Stat :: "files \<Rightarrow> path \<Rightarrow> node option" where
  "Stat fs p = (case resolve fs p of OsVal q \<Rightarrow> fs_get fs q | _ \<Rightarrow> None)"

definition Lstat :: "files \<Rightarrow> path \<Rightarrow> node option" where
  "Lstat fs p = (if p = [] then Some DirNode else case locate fs p of OsVal q \<Rightarrow> fs_get fs q | _ \<Rightarrow> None)"

definition is_link :: "node option \<Rightarrow> bool" where
  "is_link n \<longleftrightarrow> (\<exists>t. n = Some (LinkNode t))"

lemma is_link_simps [simp, code]:
  "is_link None = False" "is_link (Some DirNode) = False" "is_link (Some (FileNode c m)) = False"
  "is_link (Some (LinkNode t)) = True"
  by (simp_all add: is_link_def)

section \<open>Changing the tree\<close>

definition denied :: "files \<Rightarrow> path \<Rightarrow> bool" where
  "denied fs p \<longleftrightarrow> p \<in> set (fs_denied fs)"

definition Mkdir :: "path \<Rightarrow> files \<Rightarrow> files \<times> bool" where
  "Mkdir p fs =
     (case locate fs p of
        OsVal q \<Rightarrow> if fs_get fs q = None \<and> \<not> denied fs q then (fs_set q DirNode fs, True) else (fs, False)
      | _ \<Rightarrow> (fs, False))"

function MkdirAll :: "path \<Rightarrow> files \<Rightarrow> files \<times> bool" where
  "MkdirAll p fs =
     (case Stat fs p of
        Some n \<Rightarrow> (fs, n = DirNode)
      | None \<Rightarrow>
          if p = [] then (fs, False)
          else let (fs, ok) = MkdirAll (butlast p) fs in
            if \<not> ok then (fs, False)
            else let (fs, ok) = Mkdir p fs in
              if ok then (fs, True) else (fs, Lstat fs p = Some DirNode))"
  by pat_completeness auto
termination
  by (relation "measure (\<lambda>(p, fs). length p)") auto

declare MkdirAll.simps [simp del]

lemma MkdirAll_step:
  "Stat fs p = None \<Longrightarrow> p \<noteq> [] \<Longrightarrow> MkdirAll (butlast p) fs = (fs1, ok1) \<Longrightarrow>
     MkdirAll p fs =
       (if \<not> ok1 then (fs1, False)
        else let (fs2, ok) = Mkdir p fs1 in if ok then (fs2, True) else (fs2, Lstat fs2 p = Some DirNode))"
  by (simp add: MkdirAll.simps[of p])

text \<open>\<open>Remove\<close> tells whether it failed for another reason than that there was nothing.\<close>

definition Remove :: "path \<Rightarrow> files \<Rightarrow> files \<times> bool" where
  "Remove p fs =
     (case locate fs p of
        OsVal q \<Rightarrow>
          (case fs_get fs q of
             None \<Rightarrow> (fs, True)
           | Some n \<Rightarrow> if denied fs q \<or> n = DirNode \<and> has_children fs q then (fs, False) else (fs_del q fs, True))
      | NotExist \<Rightarrow> (fs, True)
      | OsFail \<Rightarrow> (fs, False))"

definition Symlink :: "string \<Rightarrow> path \<Rightarrow> files \<Rightarrow> files \<times> bool" where
  "Symlink target p fs =
     (case locate fs p of
        OsVal q \<Rightarrow>
          if fs_get fs q = None \<and> target \<noteq> [] \<and> \<not> denied fs q then (fs_set q (LinkNode target) fs, True) else (fs, False)
      | _ \<Rightarrow> (fs, False))"

text \<open>Opening for writing with \<open>O_CREATE\<close> and \<open>O_TRUNC\<close>, and writing the content; the mode of a file that exists stays.\<close>

definition write_file :: "path \<Rightarrow> string \<Rightarrow> nat \<Rightarrow> files \<Rightarrow> files \<times> bool" where
  "write_file p content mode fs =
     (case walk fs True 40 [] p of
        OsVal q \<Rightarrow>
          if denied fs q then (fs, False)
          else (case fs_get fs q of
              None \<Rightarrow> (fs_set q (FileNode content mode) fs, True)
            | Some (FileNode _ m) \<Rightarrow> (fs_set q (FileNode content m) fs, True)
            | Some _ \<Rightarrow> (fs, False))
      | _ \<Rightarrow> (fs, False))"

section \<open>Physical paths\<close>

text \<open>A path without links: every prefix is a directory.\<close>

definition physical :: "files \<Rightarrow> path \<Rightarrow> bool" where
  "physical fs p \<longleftrightarrow> (\<forall>k \<le> length p. fs_get fs (take k p) = Some DirNode)"

lemma physical_Nil: "fs_ok fs \<Longrightarrow> physical fs []"
  by (simp add: physical_def fs_ok_def)

lemma physical_snoc: "physical fs (p @ [c]) \<longleftrightarrow> physical fs p \<and> fs_get fs (p @ [c]) = Some DirNode"
  by (auto simp: physical_def le_Suc_eq)

lemma physical_get: "physical fs p \<Longrightarrow> fs_get fs p = Some DirNode"
  by (auto simp: physical_def dest: spec[of _ "length p"])

lemma physical_iff:
  assumes "fs_ok fs"
  shows "physical fs p \<longleftrightarrow> fs_get fs p = Some DirNode"
proof (induction p rule: rev_induct)
  case Nil
  then show ?case using assms by (simp add: physical_def fs_ok_def)
next
  case (snoc c p)
  have "fs_get fs (p @ [c]) = Some DirNode \<Longrightarrow> fs_get fs p = Some DirNode"
    using assms unfolding fs_ok_def by (metis butlast_snoc option.distinct(1) snoc_eq_iff_butlast)
  then show ?case using snoc by (auto simp: physical_snoc)
qed

lemma physical_butlast: "physical fs p \<Longrightarrow> physical fs (butlast p)"
  by (cases p rule: rev_cases) (simp_all add: physical_snoc)

lemma physical_take: "physical fs p \<Longrightarrow> physical fs (take k p)"
  by (auto simp: physical_def min_def)

lemma fs_ok_parent: "fs_ok fs \<Longrightarrow> fs_get fs (p @ [c]) \<noteq> None \<Longrightarrow> fs_get fs p = Some DirNode"
  unfolding fs_ok_def by (metis butlast_snoc snoc_eq_iff_butlast)

section \<open>Walking\<close>

definition normal :: "string list \<Rightarrow> bool" where
  "normal cs \<longleftrightarrow> (\<forall>c \<in> set cs. c \<noteq> [] \<and> c \<noteq> ''.'' \<and> c \<noteq> ''..'')"

lemma normal_simps [simp]:
  "normal []" "normal (c # cs) \<longleftrightarrow> c \<noteq> [] \<and> c \<noteq> ''.'' \<and> c \<noteq> ''..'' \<and> normal cs"
  "normal (a @ b) \<longleftrightarrow> normal a \<and> normal b"
  by (auto simp: normal_def)

lemma normal_take: "normal p \<Longrightarrow> normal (take k p)"
  by (auto simp: normal_def dest: in_set_takeD)

lemma normal_butlast: "normal p \<Longrightarrow> normal (butlast p)"
  by (auto simp: normal_def dest: in_set_butlastD)

declare walk.simps(2) [simp del]

lemma walk_normal:
  "c \<noteq> [] \<Longrightarrow> c \<noteq> ''.'' \<Longrightarrow> c \<noteq> ''..'' \<Longrightarrow> walk fs creat n cur (c # cs) =
     (case fs_get fs (cur @ [c]) of
        None \<Rightarrow> if creat \<and> cs = [] then OsVal (cur @ [c]) else NotExist
      | Some DirNode \<Rightarrow> walk fs creat n (cur @ [c]) cs
      | Some (FileNode _ _) \<Rightarrow> if cs = [] then OsVal (cur @ [c]) else OsFail
      | Some (LinkNode t) \<Rightarrow>
          (case n of 0 \<Rightarrow> OsFail | Suc m \<Rightarrow> walk fs creat m (if is_abs t then [] else cur) (path_comps t @ cs)))"
  by (simp add: walk.simps(2))

lemma walk_skip: "c = [] \<or> c = ''.'' \<Longrightarrow> walk fs creat n cur (c # cs) = walk fs creat n cur cs"
  by (auto simp: walk.simps(2))

lemma walk_up: "walk fs creat n cur (''..'' # cs) = walk fs creat n (butlast cur) cs"
  by (simp add: walk.simps(2))

lemmas walk_cases = walk_normal walk_skip walk_up

text \<open>One case for each thing a name can be.\<close>

lemma walk_induct [case_names nil skip up none dir plain link_end link]:
  fixes P :: "nat \<Rightarrow> path \<Rightarrow> string list \<Rightarrow> bool"
  assumes "\<And>n cur. P n cur []"
    and "\<And>n cur c cs. c = [] \<or> c = ''.'' \<Longrightarrow> P n cur cs \<Longrightarrow> P n cur (c # cs)"
    and "\<And>n cur cs. P n (butlast cur) cs \<Longrightarrow> P n cur (''..'' # cs)"
    and "\<And>n cur c cs. normal [c] \<Longrightarrow> fs_get fs (cur @ [c]) = None \<Longrightarrow> P n cur (c # cs)"
    and "\<And>n cur c cs. normal [c] \<Longrightarrow> fs_get fs (cur @ [c]) = Some DirNode \<Longrightarrow> P n (cur @ [c]) cs \<Longrightarrow> P n cur (c # cs)"
    and "\<And>n cur c cs x m. normal [c] \<Longrightarrow> fs_get fs (cur @ [c]) = Some (FileNode x m) \<Longrightarrow> P n cur (c # cs)"
    and "\<And>cur c cs t. normal [c] \<Longrightarrow> fs_get fs (cur @ [c]) = Some (LinkNode t) \<Longrightarrow> P 0 cur (c # cs)"
    and "\<And>n cur c cs t. normal [c] \<Longrightarrow> fs_get fs (cur @ [c]) = Some (LinkNode t) \<Longrightarrow>
      P n (if is_abs t then [] else cur) (path_comps t @ cs) \<Longrightarrow> P (Suc n) cur (c # cs)"
  shows "P n cur cs"
proof (induction "(n, length cs)" arbitrary: n cur cs rule: wf_induct_rule[OF wf_lex_prod[OF wf_less_than wf_less_than]])
  case (1 n cs cur)
  note IH = 1
  show ?case
  proof (cases cs)
    case (Cons c ds)
    consider (skip) "c = [] \<or> c = ''.''" | (up) "c = ''..''" | (name) "normal [c]" by auto
    then show ?thesis
    proof cases
      case skip
      show ?thesis unfolding Cons by (rule assms(2)[OF skip IH]) (simp add: Cons)
    next
      case up
      show ?thesis unfolding Cons up by (rule assms(3)[OF IH]) (simp add: Cons)
    next
      case name
      show ?thesis
      proof (cases "fs_get fs (cur @ [c])")
        case (Some x)
        show ?thesis
        proof (cases x)
          case DirNode
          show ?thesis unfolding Cons by (rule assms(5)[OF name _ IH]) (simp_all add: Some DirNode Cons)
        next
          case (LinkNode t)
          then show ?thesis unfolding Cons using name Some IH assms(7,8) by (cases n) simp_all
        qed (use Cons name Some assms(6) in simp)
      qed (use Cons name assms(4) in simp)
    qed
  qed (simp add: assms(1))
qed

lemma walk_eqs [simp]:
  "c = [] \<or> c = ''.'' \<Longrightarrow> walk fs creat n cur (c # cs) = walk fs creat n cur cs"
  "walk fs creat n cur (''..'' # cs) = walk fs creat n (butlast cur) cs"
  "normal [c] \<Longrightarrow> fs_get fs (cur @ [c]) = None \<Longrightarrow>
     walk fs creat n cur (c # cs) = (if creat \<and> cs = [] then OsVal (cur @ [c]) else NotExist)"
  "normal [c] \<Longrightarrow> fs_get fs (cur @ [c]) = Some DirNode \<Longrightarrow> walk fs creat n cur (c # cs) = walk fs creat n (cur @ [c]) cs"
  "normal [c] \<Longrightarrow> fs_get fs (cur @ [c]) = Some (FileNode x m) \<Longrightarrow>
     walk fs creat n cur (c # cs) = (if cs = [] then OsVal (cur @ [c]) else OsFail)"
  "normal [c] \<Longrightarrow> fs_get fs (cur @ [c]) = Some (LinkNode t) \<Longrightarrow> walk fs creat 0 cur (c # cs) = OsFail"
  "normal [c] \<Longrightarrow> fs_get fs (cur @ [c]) = Some (LinkNode t) \<Longrightarrow>
     walk fs creat (Suc n) cur (c # cs) = walk fs creat n (if is_abs t then [] else cur) (path_comps t @ cs)"
  by (simp_all add: walk.simps(2))

text \<open>More links allowed give the same result.\<close>

lemma walk_more:
  "walk fs creat n cur cs = OsVal r \<Longrightarrow> n \<le> m \<Longrightarrow> walk fs creat m cur cs = OsVal r"
proof (induction n cur cs arbitrary: m rule: walk_induct[of _ fs])
  case (link n cur c cs t)
  then show ?case by (cases m) simp_all
qed simp_all

text \<open>A walk that succeeds does so on the way, and stands in a directory there.\<close>

lemma walk_split:
  assumes "fs_ok fs"
  shows "walk fs creat n cur (as @ bs) = OsVal r \<Longrightarrow> bs \<noteq> [] \<Longrightarrow> physical fs cur \<Longrightarrow>
     \<exists>q m. m \<le> n \<and> walk fs False n cur as = OsVal q \<and> walk fs creat m q bs = OsVal r \<and> physical fs q"
proof (induction n cur as rule: walk_induct[of _ fs])
  case (up n cur cs)
  then show ?case by (simp add: physical_butlast)
next
  case (dir n cur c cs)
  then show ?case by (simp add: physical_snoc)
next
  case (link n cur c cs t)
  have "walk fs creat n (if is_abs t then [] else cur) ((path_comps t @ cs) @ bs) = OsVal r"
    using link by simp
  moreover have "physical fs (if is_abs t then [] else cur)" using link physical_Nil[OF assms] by simp
  ultimately obtain q m where "m \<le> n" "walk fs False n (if is_abs t then [] else cur) (path_comps t @ cs) = OsVal q"
      "walk fs creat m q bs = OsVal r" "physical fs q"
    using link(3) link(5) by blast
  then show ?case using link(1,2) by (intro exI[of _ q] exI[of _ m]) simp
qed (auto simp: le_Suc_eq)

lemma walk_prefix:
  assumes "fs_ok fs" "walk fs creat n cur (as @ bs) = OsVal r" "bs \<noteq> []" "physical fs cur"
  obtains q m where "m \<le> n" "walk fs False n cur as = OsVal q" "walk fs creat m q bs = OsVal r" "physical fs q"
  using walk_split[OF assms] by blast

text \<open>Walking from a path without links is walking on.\<close>

lemma walk_physical:
  "normal p \<Longrightarrow> physical fs p \<Longrightarrow> walk fs creat n [] (p @ cs) = walk fs creat n p cs"
proof (induction p arbitrary: cs rule: rev_induct)
  case (snoc c p)
  have "walk fs creat n [] (p @ c # cs) = walk fs creat n p (c # cs)" using snoc by (simp add: physical_snoc)
  then show ?case using snoc.prems by (simp add: physical_snoc)
qed simp

lemma resolve_physical: "normal p \<Longrightarrow> physical fs p \<Longrightarrow> resolve fs p = OsVal p"
  using walk_physical[of p fs False 40 "[]"] by (simp add: resolve_def)

lemma walk_then:
  "walk fs False n cur cs = OsVal q \<Longrightarrow> fs_get fs q = Some DirNode \<Longrightarrow> normal [c] \<Longrightarrow>
     fs_get fs (q @ [c]) = Some DirNode \<Longrightarrow> walk fs False n cur (cs @ [c]) = OsVal (q @ [c])"
proof (induction n cur cs rule: walk_induct[of _ fs])
  case (plain n cur d cs x m)
  then show ?case by (cases "cs = []") auto
qed simp_all

text \<open>New nodes do not disturb a walk that succeeds, and what succeeds without a node succeeds with it.\<close>

lemma walk_new:
  "walk fs False n cur cs = OsVal r \<Longrightarrow> fs_get fs x = None \<Longrightarrow> walk (fs_set x nd fs) False n cur cs = OsVal r"
proof (induction n cur cs rule: walk_induct[of _ fs])
  case (dir n cur c cs)
  then have "fs_get (fs_set x nd fs) (cur @ [c]) = Some DirNode" by auto
  then show ?case using dir by simp
next
  case (plain n cur c cs y m)
  then have "fs_get (fs_set x nd fs) (cur @ [c]) = Some (FileNode y m)" by auto
  then show ?case using plain by simp
next
  case (link n cur c cs t)
  then have "fs_get (fs_set x nd fs) (cur @ [c]) = Some (LinkNode t)" by auto
  then show ?case using link by simp
qed simp_all

lemma walk_less:
  "walk (fs_del x fs) False n cur cs = OsVal r \<Longrightarrow> walk fs False n cur cs = OsVal r"
proof (induction n cur cs rule: walk_induct[of _ "fs_del x fs"])
  case (dir n cur c cs)
  then have "fs_get fs (cur @ [c]) = Some DirNode" by (simp split: if_splits)
  then show ?case using dir by simp
next
  case (plain n cur c cs y m)
  then have "fs_get fs (cur @ [c]) = Some (FileNode y m)" by (simp split: if_splits)
  then show ?case using plain by simp
next
  case (link n cur c cs t)
  then have "fs_get fs (cur @ [c]) = Some (LinkNode t)" by (simp split: if_splits)
  then show ?case using link by simp
qed simp_all

lemma walk_result:
  assumes "fs_ok fs"
  shows "walk fs False n cur cs = OsVal r \<Longrightarrow> physical fs cur \<Longrightarrow> normal cur \<Longrightarrow> normal r"
proof (induction n cur cs rule: walk_induct[of _ fs])
  case (up n cur cs)
  then show ?case by (simp add: physical_butlast normal_butlast)
next
  case (dir n cur c cs)
  then show ?case by (simp add: physical_snoc)
next
  case (link n cur c cs t)
  then show ?case using physical_Nil[OF assms] by (simp split: if_splits)
qed (auto split: if_splits)

lemma resolve_normal: "fs_ok fs \<Longrightarrow> resolve fs p = OsVal q \<Longrightarrow> normal q"
  unfolding resolve_def using walk_result physical_Nil normal_simps(1) by blast

text \<open>Changes keep the tree a tree.\<close>

lemma fs_ok_set:
  "fs_ok fs \<Longrightarrow> fs_get fs d = Some DirNode \<Longrightarrow> fs_get fs (d @ [c]) \<noteq> Some DirNode \<Longrightarrow> fs_ok (fs_set (d @ [c]) n fs)"
  unfolding fs_ok_def fs_get_set
  by (metis Nil_is_append_conv butlast_snoc not_Cons_self2 option.distinct(1) option.sel)

lemma fs_ok_del:
  assumes "fs_ok fs" "q \<noteq> []" "\<not> (fs_get fs q = Some DirNode \<and> has_children fs q)"
  shows "fs_ok (fs_del q fs)"
  unfolding fs_ok_def fs_get_del
proof (intro conjI allI impI)
  show "(if [] = q then None else fs_get fs []) = Some DirNode" using assms(1,2) by (simp add: fs_ok_def)
  show "(if butlast p = q then None else fs_get fs (butlast p)) = Some DirNode"
    if p: "p \<noteq> [] \<and> (if p = q then None else fs_get fs p) \<noteq> None" for p
  proof -
    have d: "fs_get fs (butlast p) = Some DirNode" using assms(1) p unfolding fs_ok_def by (metis (mono_tags))
    moreover have "butlast p \<noteq> q"
    proof
      assume b: "butlast p = q"
      have "p = q @ [last p]" using p b by (metis append_butlast_last_id)
      then have "has_children fs q" unfolding has_children_iff using p by (metis (mono_tags))
      then show False using assms(3) d b by simp
    qed
    ultimately show ?thesis by simp
  qed
qed

lemma denied_set [simp]: "fs_denied (fs_set p n fs) = fs_denied fs" "fs_denied (fs_del p fs) = fs_denied fs"
  by (simp_all add: fs_set_def fs_del_def)

end
