(* ===== verification/ZipUtil.thy ===== *)
theory ZipUtil
  imports GoFiles
begin

text \<open>
  Extracting archives (\<open>lib/ziputil/ziputil.go\<close>): \<open>Unzip\<close> and its checks of paths and links, over the
  tree of \<open>GoFiles\<close>. The archive is the list of entries that \<open>archive/zip\<close> reads from the file.
\<close>

section \<open>Paths\<close>

text \<open>\<open>filepath.Clean\<close> of an absolute path and of a relative one, and \<open>filepath.Join\<close> and \<open>filepath.Dir\<close>.\<close>

fun clean_abs :: "path \<Rightarrow> string list \<Rightarrow> path" where
  "clean_abs cur [] = cur"
| "clean_abs cur (c # cs) =
     (if c = [] \<or> c = ''.'' then clean_abs cur cs
      else if c = ''..'' then clean_abs (butlast cur) cs
      else clean_abs (cur @ [c]) cs)"

fun clean_rel :: "string list \<Rightarrow> string list \<Rightarrow> string list" where
  "clean_rel acc [] = acc"
| "clean_rel acc (c # cs) =
     (if c = [] \<or> c = ''.'' then clean_rel acc cs
      else if c = ''..'' then
        (if acc = [] \<or> last acc = ''..'' then clean_rel (acc @ [''..'']) cs else clean_rel (butlast acc) cs)
      else clean_rel (acc @ [c]) cs)"

definition join_path :: "path \<Rightarrow> string \<Rightarrow> path" where
  "join_path dir name = clean_abs dir (path_comps name)"

definition dir_of :: "string \<Rightarrow> string list" where
  "dir_of name =
     (if is_abs name then clean_abs [] (butlast (path_comps name)) else clean_rel [] (butlast (path_comps name)))"

text \<open>A prefix test on the text of the paths: nothing but the root itself lies within the root.\<close>

definition isPathWithinDir :: "path \<Rightarrow> path \<Rightarrow> bool" where
  "isPathWithinDir dir p \<longleftrightarrow> p = dir \<or> dir \<noteq> [] \<and> prefix dir p"

fun resolvePathWithSymlinks :: "files \<Rightarrow> path \<Rightarrow> string list \<Rightarrow> path option" where
  "resolvePathWithSymlinks fs currentPath [] = Some currentPath"
| "resolvePathWithSymlinks fs currentPath (part # parts) =
     (if part = [] \<or> part = ''.'' then resolvePathWithSymlinks fs currentPath parts
      else if part = ''..'' then resolvePathWithSymlinks fs (butlast currentPath) parts
      else case EvalSymlinks fs (currentPath @ [part]) of
        OsVal resolvedPath \<Rightarrow> resolvePathWithSymlinks fs resolvedPath parts
      | NotExist \<Rightarrow> resolvePathWithSymlinks fs (currentPath @ [part]) parts
      | OsFail \<Rightarrow> None)"

section \<open>Extracting\<close>

text \<open>
  \<open>en_opens\<close> and \<open>en_whole\<close> tell whether the entry can be opened and whether its content can be read
  to the end; \<open>en_data\<close> is what can be read.
\<close>

record entry =
  en_name :: string
  en_isdir :: bool
  en_symlink :: bool
  en_mode :: nat
  en_opens :: bool
  en_whole :: bool
  en_data :: string

definition extract_symlink :: "path \<Rightarrow> path \<Rightarrow> path \<Rightarrow> entry \<Rightarrow> files \<Rightarrow> files \<times> bool" where
  "extract_symlink cleanDestDir resolvedParentPath destPath e fs =
     (let targetPath = en_data e in
      if \<not> en_whole e then (fs, False)
      else if \<not> is_abs targetPath \<and>
        (case resolvePathWithSymlinks fs resolvedParentPath (path_comps targetPath) of
           None \<Rightarrow> True
         | Some resolvedTarget \<Rightarrow> \<not> isPathWithinDir cleanDestDir resolvedTarget) then (fs, False)
      else let (fs, ok) = Remove destPath fs in
        if \<not> ok then (fs, False) else Symlink targetPath destPath fs)"

definition extract_file :: "path \<Rightarrow> entry \<Rightarrow> files \<Rightarrow> files \<times> bool" where
  "extract_file destPath e fs =
     (let (fs, ok) = (if is_link (Lstat fs destPath) then Remove destPath fs else (fs, True)) in
      if \<not> ok then (fs, False)
      else let (fs, ok) = write_file destPath (en_data e) (en_mode e) fs in (fs, ok \<and> en_whole e))"

definition extract_entry :: "path \<Rightarrow> entry \<Rightarrow> files \<Rightarrow> files \<times> bool" where
  "extract_entry cleanDestDir e fs =
     (let destPath = join_path cleanDestDir (en_name e) in
      if destPath = cleanDestDir \<or> \<not> isPathWithinDir cleanDestDir destPath then (fs, False)
      else case resolvePathWithSymlinks fs cleanDestDir (dir_of (en_name e)) of
        None \<Rightarrow> (fs, False)
      | Some resolvedParentPath \<Rightarrow>
          if \<not> isPathWithinDir cleanDestDir resolvedParentPath then (fs, False)
          else if en_isdir e then MkdirAll destPath fs
          else let (fs, ok) = MkdirAll (butlast destPath) fs in
            if \<not> ok \<or> \<not> en_opens e then (fs, False)
            else if en_symlink e then extract_symlink cleanDestDir resolvedParentPath destPath e fs
            else extract_file destPath e fs)"

fun extract_all :: "path \<Rightarrow> entry list \<Rightarrow> files \<Rightarrow> files \<times> bool" where
  "extract_all cleanDestDir [] fs = (fs, True)"
| "extract_all cleanDestDir (e # es) fs =
     (let (fs, ok) = extract_entry cleanDestDir e fs in
      if \<not> ok then (fs, False) else extract_all cleanDestDir es fs)"

text \<open>\<open>Unzip\<close> of an archive that could be opened (\<open>Some\<close>), \<open>destDir\<close> being absolute.\<close>

definition Unzip :: "entry list option \<Rightarrow> path \<Rightarrow> files \<Rightarrow> files \<times> bool" where
  "Unzip reader destDir fs =
     (case reader of
        None \<Rightarrow> (fs, False)
      | Some es \<Rightarrow>
          let (fs, ok) = MkdirAll destDir fs in
          if \<not> ok then (fs, False)
          else case EvalSymlinks fs destDir of
            OsVal cleanDestDir \<Rightarrow> extract_all cleanDestDir es fs
          | _ \<Rightarrow> (fs, False))"

section \<open>Resolving agrees with the kernel\<close>

lemma resolve_parts_append:
  "resolvePathWithSymlinks fs cur (as @ bs) =
     (case resolvePathWithSymlinks fs cur as of None \<Rightarrow> None | Some q \<Rightarrow> resolvePathWithSymlinks fs q bs)"
  by (induction as arbitrary: cur) (auto split: os.splits)

lemma Eval_physical:
  "normal p \<Longrightarrow> physical fs p \<Longrightarrow> EvalSymlinks fs (p @ cs) = walk fs False 255 p cs"
  by (simp add: EvalSymlinks_def walk_physical)

lemma resolved_walk:
  assumes "fs_ok fs"
  shows "normal ns \<Longrightarrow> physical fs base \<Longrightarrow> normal base \<Longrightarrow> n \<le> 255 \<Longrightarrow> walk fs False n base ns = OsVal q \<Longrightarrow>
     resolvePathWithSymlinks fs base ns = Some q"
proof (induction ns arbitrary: base n)
  case (Cons c ns)
  show ?case
  proof (cases "ns = []")
    case True
    have "EvalSymlinks fs (base @ [c]) = OsVal q"
      using Cons.prems True walk_more[of fs False n base "[c]" q 255] by (simp add: Eval_physical)
    then show ?thesis using Cons.prems True by simp
  next
    case False
    have "walk fs False n base ([c] @ ns) = OsVal q" using Cons.prems by simp
    then obtain q1 m where w: "m \<le> n" "walk fs False n base [c] = OsVal q1" "walk fs False m q1 ns = OsVal q" "physical fs q1"
      by (rule walk_prefix[OF assms _ False Cons.prems(2)])
    have "EvalSymlinks fs (base @ [c]) = OsVal q1"
      using Cons.prems w walk_more[of fs False n base "[c]" q1 255] by (simp add: Eval_physical)
    moreover have "normal q1" using walk_result[OF assms w(2)] Cons.prems by simp
    then have "resolvePathWithSymlinks fs q1 ns = Some q" using Cons.IH[OF _ w(4) _ _ w(3)] Cons.prems w(1) by simp
    ultimately show ?thesis using Cons.prems by simp
  qed
qed simp

text \<open>Below a name that does not exist nothing is resolved any more.\<close>

lemma missing_parts:
  assumes "physical fs q" "normal q" "normal (c # ds)" "fs_get fs (q @ [c]) = None"
  shows "normal cs \<Longrightarrow> resolvePathWithSymlinks fs (q @ c # ds) cs = Some (q @ c # ds @ cs)"
  using assms(3)
proof (induction cs arbitrary: ds)
  case (Cons x cs)
  have "EvalSymlinks fs (q @ c # ds @ [x]) = NotExist"
    using assms Cons.prems by (simp add: Eval_physical)
  then show ?case using Cons.IH[of "ds @ [x]"] Cons.prems by simp
qed simp

lemma missing_first:
  assumes "physical fs q" "normal q" "normal (c # cs)" "fs_get fs (q @ [c]) = None"
  shows "resolvePathWithSymlinks fs q (c # cs) = Some (q @ c # cs)"
proof -
  have "EvalSymlinks fs (q @ [c]) = NotExist" using assms by (simp add: Eval_physical)
  then show ?thesis using missing_parts[OF assms(1,2), of c "[]" cs] assms(3,4) by simp
qed

section \<open>Nothing outside is touched\<close>

text \<open>The tree below \<open>dest\<close> is all that changed, and it is still a tree.\<close>

definition only_inside :: "path \<Rightarrow> files \<Rightarrow> files \<Rightarrow> bool" where
  "only_inside dest fs fs' \<longleftrightarrow>
     fs_ok fs' \<and> fs_denied fs' = fs_denied fs \<and> (\<forall>x. fs_get fs' x \<noteq> fs_get fs x \<longrightarrow> strict_prefix dest x)"

lemma only_inside_refl: "fs_ok fs \<Longrightarrow> only_inside dest fs fs"
  by (simp add: only_inside_def)

lemma only_inside_trans: "only_inside dest a b \<Longrightarrow> only_inside dest b c \<Longrightarrow> only_inside dest a c"
  unfolding only_inside_def by metis

lemma only_inside_physical:
  assumes "only_inside dest fs fs'" "physical fs p" "prefix p dest"
  shows "physical fs' p"
  unfolding physical_def
proof (intro allI impI)
  fix k assume k: "k \<le> length p"
  have "prefix (take k p) dest" using take_is_prefix assms(3) by (rule prefix_order.trans)
  then have "\<not> strict_prefix dest (take k p)" by auto
  then show "fs_get fs' (take k p) = Some DirNode" using assms(1,2) k unfolding only_inside_def physical_def by metis
qed

text \<open>A node that does not exist, on the way to a path inside, lies strictly inside.\<close>

lemma missing_inside:
  assumes "physical fs dest" "fs_get fs (q @ [c]) = None" "prefix dest (q @ c # cs)"
  shows "strict_prefix dest (q @ [c])"
proof -
  have "prefix (q @ [c]) (q @ c # cs)" by simp
  then have "prefix dest (q @ [c]) \<or> prefix (q @ [c]) dest" using assms(3) prefix_same_cases by blast
  moreover have "\<not> prefix (q @ [c]) dest"
  proof
    assume "prefix (q @ [c]) dest"
    then have "q @ [c] = take (length (q @ [c])) dest" "length (q @ [c]) \<le> length dest"
      by (auto simp: prefix_def)
    then have "fs_get fs (q @ [c]) = Some DirNode" using assms(1) unfolding physical_def by metis
    then show False using assms(2) by simp
  qed
  ultimately show ?thesis by (auto simp: strict_prefix_def)
qed

lemma locate_of:
  "resolve fs p = OsVal q \<Longrightarrow> fs_get fs q = Some DirNode \<Longrightarrow> locate fs (p @ [c]) = OsVal (q @ [c])"
  by (simp add: locate_def)

text \<open>
  \<open>MkdirAll\<close> of a path whose resolution lies inside: it creates only inside, and when it succeeds the
  path stands for a directory from which the rest resolves as before.
\<close>

lemma MkdirAll_inside:
  assumes "fs_ok fs" "physical fs dest" "normal base" "physical fs base" "normal ns"
    and "resolvePathWithSymlinks fs base ns = Some par" "prefix dest par"
  shows "i \<le> length ns \<Longrightarrow> MkdirAll (base @ take i ns) fs = (fs', ok) \<Longrightarrow>
    only_inside dest fs fs' \<and>
    (ok \<longrightarrow> (\<exists>q. resolve fs' (base @ take i ns) = OsVal q \<and> physical fs' q \<and>
       resolvePathWithSymlinks fs' q (drop i ns) = Some par))"
proof (induction i arbitrary: fs' ok)
  case 0
  have "Stat fs base = Some DirNode"
    using resolve_physical[OF assms(3,4)] physical_get[OF assms(4)] by (simp add: Stat_def)
  then have "fs' = fs" "ok" using 0 by (simp_all add: MkdirAll.simps[of base])
  then show ?case using assms resolve_physical[OF assms(3,4)] by (auto intro: only_inside_refl)
next
  case (Suc i)
  let ?P = "base @ take (Suc i) ns" and ?c = "ns ! i" and ?rest = "drop (Suc i) ns"
  have i: "i < length ns" using Suc.prems by simp
  have P: "?P = (base @ take i ns) @ [?c]" using i by (simp add: take_Suc_conv_app_nth)
  have rest: "drop i ns = ?c # ?rest" using i by (rule Cons_nth_drop_Suc[symmetric])
  have nc: "normal (?c # ?rest)" using assms(5) rest normal_simps(3) by (metis append_take_drop_id)
  show ?case
  proof (cases "Stat fs ?P")
    case (Some n)
    then have r: "fs' = fs" "ok = (n = DirNode)" using Suc.prems by (simp_all add: MkdirAll.simps[of ?P])
    obtain q where q: "resolve fs ?P = OsVal q" "fs_get fs q = Some n" using Some by (auto simp: Stat_def split: os.splits)
    have "walk fs False 40 base (take (Suc i) ns) = OsVal q"
      using q(1) walk_physical[OF assms(3,4)] by (simp add: resolve_def)
    then have "resolvePathWithSymlinks fs base (take (Suc i) ns) = Some q"
      using resolved_walk[OF assms(1) _ assms(4,3), of "take (Suc i) ns" 40 q] assms(5) by (simp add: normal_take)
    then have "resolvePathWithSymlinks fs q ?rest = Some par"
      using assms(6) resolve_parts_append[of fs base "take (Suc i) ns" ?rest] by simp
    then show ?thesis using q r assms(1) physical_iff[OF assms(1)] by (auto intro: only_inside_refl)
  next
    case None
    obtain fs1 ok1 where m: "MkdirAll (base @ take i ns) fs = (fs1, ok1)" by fastforce
    have bl: "butlast ?P = base @ take i ns" "?P \<noteq> []" unfolding P by (simp_all only: butlast_snoc) simp
    note IH = Suc.IH[OF _ m]
    have in1: "only_inside dest fs fs1" using IH i by simp
    have ok1: "fs_ok fs1" using in1 by (simp add: only_inside_def)
    have d1: "physical fs1 dest" by (rule only_inside_physical[OF in1 assms(2)]) simp
    show ?thesis
    proof (cases ok1)
      case False
      then have "fs' = fs1" "\<not> ok" using Suc.prems(2) MkdirAll_step[OF None bl(2) m[folded bl(1)]] by simp_all
      then show ?thesis using in1 by simp
    next
      case True
      then obtain q where q: "resolve fs1 (base @ take i ns) = OsVal q" "physical fs1 q"
          "resolvePathWithSymlinks fs1 q (?c # ?rest) = Some par"
        using IH i rest by auto
      have nq: "normal q" by (rule resolve_normal[OF ok1 q(1)])
      have loc: "locate fs1 ?P = OsVal (q @ [?c])" unfolding P by (rule locate_of[OF q(1) physical_get[OF q(2)]])
      have run: "MkdirAll ?P fs = (let (fs2, b) = Mkdir ?P fs1 in if b then (fs2, True) else (fs2, Lstat fs2 ?P = Some DirNode))"
        using MkdirAll_step[OF None bl(2) m[folded bl(1)]] True by simp
      show ?thesis
      proof (cases "fs_get fs1 (q @ [?c]) = None \<and> \<not> denied fs1 (q @ [?c])")
        case True
        let ?fs2 = "fs_set (q @ [?c]) DirNode fs1"
        have r: "fs' = ?fs2" "ok" using Suc.prems(2) True loc by (simp_all add: run Mkdir_def)
        have par: "par = q @ ?c # ?rest" using missing_first[OF q(2) nq nc] True q(3) by simp
        have sp: "strict_prefix dest (q @ [?c])"
          by (rule missing_inside[OF d1, of q ?c ?rest]) (use True par assms(7) in simp_all)
        have ok2: "fs_ok ?fs2" by (rule fs_ok_set[OF ok1 physical_get[OF q(2)]]) (use True in simp)
        have "only_inside dest fs1 ?fs2" using ok2 sp by (auto simp: only_inside_def)
        then have in2: "only_inside dest fs ?fs2" by (rule only_inside_trans[OF in1])
        have ph: "physical ?fs2 (q @ [?c])" using physical_iff[OF ok2] by simp
        have ph0: "physical ?fs2 q" using ph by (simp add: physical_snoc)
        have "walk ?fs2 False 40 [] (base @ take i ns) = OsVal q"
          using q(1) True unfolding resolve_def by (intro walk_new) simp_all
        have res: "resolve ?fs2 ?P = OsVal (q @ [?c])"
          unfolding P resolve_def
          by (rule walk_then[OF _ physical_get[OF ph0]]) (use \<open>walk ?fs2 False 40 [] (base @ take i ns) = OsVal q\<close> nc in simp_all)
        have "resolvePathWithSymlinks ?fs2 (q @ [?c]) ?rest = Some par"
        proof (cases ?rest)
          case Nil
          then show ?thesis using par by simp
        next
          case (Cons x xs)
          have "fs_get fs1 (q @ [?c, x]) = None"
            using True fs_ok_parent[OF ok1, of "q @ [?c]" x] by (cases "fs_get fs1 (q @ [?c, x])") simp_all
          then have "fs_get ?fs2 ((q @ [?c]) @ [x]) = None" by simp
          from missing_first[OF ph _ _ this, of xs] nc nq Cons par show ?thesis by simp
        qed
        then show ?thesis using in2 r res ph by auto
      next
        case False
        then have r: "fs' = fs1" "ok = (fs_get fs1 (q @ [?c]) = Some DirNode)"
          using Suc.prems(2) loc bl by (auto simp: run Mkdir_def Lstat_def)
        have "resolve fs1 ?P = OsVal (q @ [?c]) \<and> resolvePathWithSymlinks fs1 (q @ [?c]) ?rest = Some par" if ok
        proof -
          have d: "fs_get fs1 (q @ [?c]) = Some DirNode" using that r by simp
          have "EvalSymlinks fs1 (q @ [?c]) = OsVal (q @ [?c])" using d nc by (simp add: Eval_physical nq q(2))
          then have "resolvePathWithSymlinks fs1 (q @ [?c]) ?rest = Some par" using q(3) nc by simp
          moreover have "resolve fs1 ?P = OsVal (q @ [?c])"
            unfolding P resolve_def by (rule walk_then[OF _ physical_get[OF q(2)]]) (use q(1) d nc in \<open>simp_all add: resolve_def\<close>)
          ultimately show ?thesis by simp
        qed
        then show ?thesis using in1 r physical_iff[OF ok1] by auto
      qed
    qed
  qed
qed

text \<open>Operations on a name in a directory that, if it resolves at all, resolves inside.\<close>

definition leads_to :: "files \<Rightarrow> path \<Rightarrow> path \<Rightarrow> bool" where
  "leads_to fs dir par \<longleftrightarrow> (\<forall>r. resolve fs dir = OsVal r \<longrightarrow> r = par)"

lemma inside_snoc: "prefix dest par \<Longrightarrow> strict_prefix dest (par @ [c])"
  by (auto simp: strict_prefix_def prefix_def)

lemma locate_leads:
  "leads_to fs dir par \<Longrightarrow> locate fs (dir @ [c]) = OsVal q \<Longrightarrow> q = par @ [c] \<and> fs_get fs par = Some DirNode"
  by (auto simp: leads_to_def locate_def split: os.splits if_splits)

lemma Remove_inside:
  assumes "fs_ok fs" "leads_to fs dir par" "prefix dest par" "Remove (dir @ [c]) fs = (fs', ok)"
  shows "only_inside dest fs fs' \<and> leads_to fs' dir par"
proof (cases "fs' = fs")
  case True
  then show ?thesis using assms(1,2) by (simp add: only_inside_refl)
next
  case False
  then obtain q n where q: "locate fs (dir @ [c]) = OsVal q" "fs_get fs q = Some n" "fs' = fs_del q fs"
      "\<not> (n = DirNode \<and> has_children fs q)"
    using assms(4) by (auto simp: Remove_def split: os.splits option.splits if_splits)
  have p: "q = par @ [c]" using locate_leads[OF assms(2) q(1)] by simp
  have "fs_ok fs'" unfolding q(3) by (rule fs_ok_del[OF assms(1)]) (use p q(2,4) in auto)
  then have "only_inside dest fs fs'" using inside_snoc[OF assms(3)] by (auto simp: only_inside_def q(3) p)
  moreover have "leads_to fs' dir par"
    using assms(2) walk_less[of q fs 40 "[]" dir] by (auto simp: leads_to_def resolve_def q(3))
  ultimately show ?thesis by simp
qed

lemma Symlink_inside:
  assumes "fs_ok fs" "leads_to fs dir par" "prefix dest par" "Symlink t (dir @ [c]) fs = (fs', ok)"
  shows "only_inside dest fs fs'"
proof (cases "fs' = fs")
  case False
  then obtain q where q: "locate fs (dir @ [c]) = OsVal q" "fs_get fs q = None" "fs' = fs_set q (LinkNode t) fs"
    using assms(4) by (auto simp: Symlink_def split: os.splits if_splits)
  have p: "q = par @ [c]" "fs_get fs par = Some DirNode" using locate_leads[OF assms(2) q(1)] by simp_all
  have "fs_ok fs'" unfolding q(3) p(1) by (rule fs_ok_set[OF assms(1) p(2)]) (use q(2) p(1) in simp)
  then show ?thesis using inside_snoc[OF assms(3)] by (auto simp: only_inside_def q(3) p)
qed (use assms(1) in \<open>simp add: only_inside_refl\<close>)

lemma write_inside:
  assumes "fs_ok fs" "leads_to fs dir par" "prefix dest par" "normal [c]" "\<not> is_link (fs_get fs (par @ [c]))"
    and "write_file (dir @ [c]) content mode fs = (fs', ok)"
  shows "only_inside dest fs fs'"
proof (cases "fs' = fs")
  case False
  then obtain q n where q: "walk fs True 40 [] (dir @ [c]) = OsVal q" "fs' = fs_set q (FileNode content n) fs" "fs_get fs q \<noteq> Some DirNode"
    using assms(6) by (auto simp: write_file_def split: os.splits option.splits node.splits if_splits)
  obtain r m where r: "walk fs False 40 [] dir = OsVal r" "walk fs True m r [c] = OsVal q" "physical fs r"
    by (rule walk_prefix[OF assms(1) q(1) _ physical_Nil[OF assms(1)]]) auto
  have "r = par" using assms(2) r(1) by (simp add: leads_to_def resolve_def)
  then have p: "q = par @ [c]"
    using r(2) assms(4,5) by (cases "fs_get fs (par @ [c])"; cases "the (fs_get fs (par @ [c]))") auto
  have "fs_ok fs'" unfolding q(2) p
    by (rule fs_ok_set[OF assms(1)]) (use r(3) q(3) p \<open>r = par\<close> in \<open>simp_all add: physical_get\<close>)
  then show ?thesis using inside_snoc[OF assms(3)] by (auto simp: only_inside_def q(2) p)
qed (use assms(1) in \<open>simp add: only_inside_refl\<close>)

section \<open>Names of entries\<close>

text \<open>
  Names for which \<open>Dir\<close> and \<open>Join\<close> speak of the same directory: no rooted name goes up, and the last
  element is a name, or empty or a dot in a directory's name.
\<close>

definition plain_entry :: "entry \<Rightarrow> bool" where
  "plain_entry e \<longleftrightarrow>
     (let cs = path_comps (en_name e) in
      (is_abs (en_name e) \<longrightarrow> ''..'' \<notin> set cs) \<and> last cs \<noteq> ''..'' \<and> (last cs = [] \<or> last cs = ''.'' \<longrightarrow> en_isdir e))"

lemma clean_abs_append: "clean_abs d (a @ b) = clean_abs (clean_abs d a) b"
  by (induction a arbitrary: d) auto

lemma clean_abs_normal: "normal ns \<Longrightarrow> clean_abs d ns = d @ ns"
  by (induction ns arbitrary: d) auto

lemma clean_abs_down: "''..'' \<notin> set cs \<Longrightarrow> \<exists>ns. normal ns \<and> (\<forall>d. clean_abs d cs = d @ ns)"
proof (induction cs)
  case (Cons c cs)
  then obtain ns where ns: "normal ns" "\<forall>d. clean_abs d cs = d @ ns" by auto
  show ?case
  proof (cases "c = [] \<or> c = ''.''")
    case True
    then show ?thesis using ns by auto
  next
    case False
    then show ?thesis using ns Cons.prems by (intro exI[of _ "c # ns"]) auto
  qed
qed simp

definition ups :: "nat \<Rightarrow> string list" where
  "ups k = replicate k ''..''"

lemma last_ups: "normal ns \<Longrightarrow> ups k @ ns \<noteq> [] \<Longrightarrow> last (ups k @ ns) = ''..'' \<longleftrightarrow> ns = []"
  by (cases ns rule: rev_cases) (auto simp: ups_def)

lemma clean_rel_form:
  "normal ns \<Longrightarrow> \<exists>k' ns'. clean_rel (ups k @ ns) cs = ups k' @ ns' \<and> normal ns' \<and>
     (\<forall>d. clean_abs d (ups k' @ ns') = clean_abs d ((ups k @ ns) @ cs))"
proof (induction cs arbitrary: k ns)
  case (Cons c cs)
  consider (skip) "c = [] \<or> c = ''.''" | (up) "c = ''..''" | (name) "normal [c]" by auto
  then show ?case
  proof cases
    case skip
    then show ?thesis using Cons by (simp add: clean_abs_append)
  next
    case up
    show ?thesis
    proof (cases ns rule: rev_cases)
      case Nil
      have "ups k @ [''..''] = ups (Suc k)" by (simp add: ups_def replicate_append_same)
      moreover have "ups k = [] \<or> last (ups k) = ''..''" by (cases k) (simp_all add: ups_def)
      ultimately have a: "clean_rel (ups k @ ns) (c # cs) = clean_rel (ups (Suc k) @ []) cs" by (simp add: up Nil)
      have "(ups k @ ns) @ c # cs = (ups k @ [''..'']) @ cs" by (simp add: up Nil)
      also have "\<dots> = (ups (Suc k) @ []) @ cs" by (simp add: ups_def replicate_append_same)
      finally show ?thesis unfolding a by (simp only:) (rule Cons.IH, simp)
    next
      case (snoc ms m)
      have "clean_rel (ups k @ ns) (c # cs) = clean_rel (ups k @ ms) cs"
        using Cons.prems by (simp add: up snoc butlast_append)
      moreover have "clean_abs d ((ups k @ ns) @ c # cs) = clean_abs d ((ups k @ ms) @ cs)" for d
        using Cons.prems by (simp add: clean_abs_append up snoc clean_abs_normal butlast_append)
      ultimately show ?thesis using Cons.IH[of ms k] Cons.prems by (simp add: snoc)
    qed
  next
    case name
    then have "clean_rel (ups k @ ns) (c # cs) = clean_rel (ups k @ (ns @ [c])) cs" by simp
    then show ?thesis using Cons.IH[of "ns @ [c]" k] Cons.prems name by simp
  qed
qed auto

lemma resolve_ups:
  "resolvePathWithSymlinks fs d (ups k @ ns) = resolvePathWithSymlinks fs (clean_abs d (ups k)) ns"
proof (induction k arbitrary: d)
  case (Suc k)
  then show ?case by (simp add: ups_def)
qed (simp add: ups_def)

lemma clean_ups: "prefix (clean_abs d (ups k)) d"
proof (induction k arbitrary: d)
  case (Suc k)
  have "prefix (clean_abs (butlast d) (ups k)) (butlast d)" by (rule Suc)
  then show ?case using prefixeq_butlast prefix_order.trans by (fastforce simp: ups_def)
qed (simp add: ups_def)

text \<open>Both views of the directory of an entry start from the same place without links.\<close>

lemma dir_of_form:
  assumes "plain_entry e"
  obtains base ns where "prefix base dest" "normal ns" "clean_abs dest (butlast (path_comps (en_name e))) = base @ ns"
    "\<And>fs. resolvePathWithSymlinks fs dest (dir_of (en_name e)) = resolvePathWithSymlinks fs base ns"
proof (cases "is_abs (en_name e)")
  case True
  then have "''..'' \<notin> set (butlast (path_comps (en_name e)))"
    using assms by (auto simp: plain_entry_def Let_def dest: in_set_butlastD)
  from clean_abs_down[OF this] obtain ns where ns: "normal ns" "\<And>d. clean_abs d (butlast (path_comps (en_name e))) = d @ ns" by blast
  show ?thesis by (rule that[of dest ns]) (use ns True in \<open>simp_all add: dir_of_def\<close>)
next
  case False
  obtain k ns where c: "clean_rel [] (butlast (path_comps (en_name e))) = ups k @ ns" "normal ns"
      "\<And>d. clean_abs d (ups k @ ns) = clean_abs d (butlast (path_comps (en_name e)))"
    using clean_rel_form[of "[]" 0 "butlast (path_comps (en_name e))"] by (auto simp: ups_def)
  show ?thesis
  proof (rule that[of "clean_abs dest (ups k)" ns])
    show "clean_abs dest (butlast (path_comps (en_name e))) = clean_abs dest (ups k) @ ns"
      using c(3)[of dest, symmetric] c(2) by (simp add: clean_abs_append clean_abs_normal)
  qed (use c False in \<open>simp_all add: dir_of_def resolve_ups clean_ups\<close>)
qed

section \<open>Extraction stays inside\<close>

lemma leads_resolved:
  "resolve fs p = OsVal q \<Longrightarrow> resolvePathWithSymlinks fs q [] = Some par \<Longrightarrow> leads_to fs p par"
  by (simp add: leads_to_def)

lemma extract_file_inside:
  assumes "fs_ok fs" "resolve fs dir = OsVal par" "fs_get fs par = Some DirNode" "prefix dest par" "normal [c]"
    and "extract_file (dir @ [c]) e fs = (fs', ok)"
  shows "only_inside dest fs fs'"
proof -
  have l: "leads_to fs dir par" using assms(2) by (simp add: leads_to_def)
  have loc: "locate fs (dir @ [c]) = OsVal (par @ [c])" by (rule locate_of[OF assms(2,3)])
  obtain fs1 ok1 where f1: "(if is_link (Lstat fs (dir @ [c])) then Remove (dir @ [c]) fs else (fs, True)) = (fs1, ok1)"
    by fastforce
  have i1: "only_inside dest fs fs1 \<and> leads_to fs1 dir par"
  proof (cases "is_link (Lstat fs (dir @ [c]))")
    case True
    then show ?thesis using f1 by (intro Remove_inside[OF assms(1) l assms(4)]) simp
  qed (use f1 l assms(1) in \<open>simp add: only_inside_refl\<close>)
  have nl: "\<not> is_link (fs_get fs1 (par @ [c]))" if ok1
    using f1 that loc by (auto simp: Lstat_def Remove_def split: if_splits option.splits)
  show ?thesis
  proof (cases ok1)
    case True
    obtain fs2 ok2 where w: "write_file (dir @ [c]) (en_data e) (en_mode e) fs1 = (fs2, ok2)" by fastforce
    have "fs_ok fs1" using i1 by (simp add: only_inside_def)
    from write_inside[OF this _ assms(4,5) nl[OF True] w] i1 have "only_inside dest fs1 fs2" by simp
    moreover have "fs' = fs2" using assms(6) f1 True w by (simp add: extract_file_def)
    ultimately show ?thesis using i1 only_inside_trans by blast
  qed (use assms(6) f1 i1 in \<open>simp add: extract_file_def\<close>)
qed

lemma extract_symlink_inside:
  assumes "fs_ok fs" "resolve fs dir = OsVal par" "prefix dest par"
    and "extract_symlink dest par' (dir @ [c]) e fs = (fs', ok)"
  shows "only_inside dest fs fs'"
proof (cases "fs' = fs")
  case False
  obtain fs1 ok1 where r: "Remove (dir @ [c]) fs = (fs1, ok1)" by fastforce
  have l: "leads_to fs dir par" using assms(2) by (simp add: leads_to_def)
  note i1 = Remove_inside[OF assms(1) l assms(3) r]
  obtain fs2 ok2 where sy: "Symlink (en_data e) (dir @ [c]) fs1 = (fs2, ok2)" by fastforce
  have "fs_ok fs1" using i1 by (simp add: only_inside_def)
  from Symlink_inside[OF this _ assms(3) sy] i1 have i2: "only_inside dest fs1 fs2" by simp
  have "fs' = fs1 \<or> fs' = fs2" using assms(4) False r sy by (auto simp: extract_symlink_def Let_def split: if_splits)
  then show ?thesis using i1 i2 only_inside_trans by blast
qed (use assms(1) in \<open>simp add: only_inside_refl\<close>)

lemma path_comps_nonempty: "path_comps s \<noteq> []"
  by (simp add: path_comps_def split_byte_nonempty)

lemma extract_entry_inside:
  assumes "fs_ok fs" "physical fs dest" "normal dest" "plain_entry e" "extract_entry dest e fs = (fs', ok)"
  shows "only_inside dest fs fs'"
proof (cases "fs' = fs")
  case False
  let ?p = "join_path dest (en_name e)" and ?c = "last (path_comps (en_name e))"
  obtain base ns where f: "prefix base dest" "normal ns" "clean_abs dest (butlast (path_comps (en_name e))) = base @ ns"
      "\<And>fs. resolvePathWithSymlinks fs dest (dir_of (en_name e)) = resolvePathWithSymlinks fs base ns"
    by (rule dir_of_form[OF assms(4), where dest = dest]) blast
  have b: "normal base" "physical fs base"
    using f(1) assms(3) physical_take[OF assms(2), of "length base"] by (auto simp: prefix_def)
  obtain par where par: "resolvePathWithSymlinks fs base ns = Some par" "isPathWithinDir dest par"
    using assms(5) False f(4) by (auto simp: extract_entry_def Let_def split: if_splits option.splits)
  have pd: "prefix dest par" using par(2) by (auto simp: isPathWithinDir_def)
  have p: "?p = clean_abs (base @ ns) [?c]"
    unfolding join_path_def f(3)[symmetric] clean_abs_append[symmetric]
    using path_comps_nonempty by (simp add: append_butlast_last_id)
  note mk = MkdirAll_inside[OF assms(1,2) b f(2) par(1) pd, of "length ns", simplified]
  have up: "?c \<noteq> ''..''" using assms(4) by (simp add: plain_entry_def Let_def)
  have step: "only_inside dest fs fs1" if "MkdirAll (base @ ns) fs = (fs1, ok1)" for fs1 ok1
    using mk[OF that] by simp
  show ?thesis
  proof (cases "normal [?c]")
    case False
    then have "?p = base @ ns" "en_isdir e" using p up assms(4) by (auto simp: plain_entry_def Let_def)
    then have "MkdirAll (base @ ns) fs = (fs', ok)"
      using assms(5) \<open>fs' \<noteq> fs\<close> f(4) par by (auto simp: extract_entry_def Let_def split: if_splits)
    then show ?thesis by (rule step)
  next
    case True
    then have pc: "?p = (base @ ns) @ [?c]" using p by simp
    obtain fs1 ok1 where m: "MkdirAll (base @ ns) fs = (fs1, ok1)" by fastforce
    have i1: "only_inside dest fs fs1" by (rule step[OF m])
    have ok1: "fs_ok fs1" using i1 by (simp add: only_inside_def)
    have res: "resolve fs1 (base @ ns) = OsVal par \<and> fs_get fs1 par = Some DirNode" if ok1
      using mk[OF m] that by (auto simp: physical_get)
    show ?thesis
    proof (cases "en_isdir e")
      case True
      then have md: "MkdirAll ?p fs = (fs', ok)"
        using assms(5) \<open>fs' \<noteq> fs\<close> f(4) par by (auto simp: extract_entry_def Let_def split: if_splits)
      have none: "Stat fs ?p = None"
        using md \<open>fs' \<noteq> fs\<close> by (cases "Stat fs ?p") (simp_all add: MkdirAll.simps[of ?p])
      have bl: "butlast ?p = base @ ns" "?p \<noteq> []" unfolding pc by (simp_all only: butlast_snoc) simp
      note st = MkdirAll_step[OF none bl(2), unfolded bl(1), OF m]
      show ?thesis
      proof (cases "fs' = fs1")
        case False
        then have o: ok1 and "\<exists>b. Mkdir ?p fs1 = (fs', b)"
          using md st by (auto simp: Let_def split: if_splits prod.splits)
        then obtain b where mkd: "Mkdir ?p fs1 = (fs', b)" by blast
        have loc: "locate fs1 ?p = OsVal (par @ [?c])" unfolding pc by (rule locate_of) (use res[OF o] in simp_all)
        have s: "fs' = fs_set (par @ [?c]) DirNode fs1" "fs_get fs1 (par @ [?c]) = None"
          using mkd False by (auto simp: Mkdir_def loc split: if_splits)
        have "fs_ok fs'" unfolding s(1) by (rule fs_ok_set[OF ok1]) (use res[OF o] s(2) in simp_all)
        then have "only_inside dest fs1 fs'" using inside_snoc[OF pd] by (auto simp: only_inside_def s(1))
        then show ?thesis using i1 only_inside_trans by blast
      qed (use i1 in simp)
    next
      case dir: False
      have bl: "butlast ?p = base @ ns" unfolding pc by (rule butlast_snoc)
      have run: "extract_entry dest e fs =
          (if \<not> ok1 \<or> \<not> en_opens e then (fs1, False)
           else if en_symlink e then extract_symlink dest par ?p e fs1 else extract_file ?p e fs1)"
        using assms(5) \<open>fs' \<noteq> fs\<close> f(4) par m dir bl by (auto simp: extract_entry_def Let_def split: if_splits)
      show ?thesis
      proof (cases "\<not> ok1 \<or> \<not> en_opens e")
        case False
        then have o: ok1 by simp
        have "only_inside dest fs1 fs'"
        proof (cases "en_symlink e")
          case True
          then have "extract_symlink dest par ((base @ ns) @ [?c]) e fs1 = (fs', ok)"
            using run assms(5) False pc by simp
          from extract_symlink_inside[OF ok1 _ pd this] show ?thesis using res[OF o] by simp
        next
          case sym: False
          then have "extract_file ((base @ ns) @ [?c]) e fs1 = (fs', ok)"
            using run assms(5) False pc by simp
          from extract_file_inside[OF ok1 _ _ pd True this] show ?thesis using res[OF o] by simp
        qed
        then show ?thesis using i1 only_inside_trans by blast
      qed (use run assms(5) i1 in simp)
    qed
  qed
qed (use assms(1) in \<open>simp add: only_inside_refl\<close>)

lemma extract_all_inside:
  assumes "fs_ok fs" "physical fs dest" "normal dest" "\<forall>e \<in> set es. plain_entry e" "extract_all dest es fs = (fs', ok)"
  shows "only_inside dest fs fs'"
  using assms
proof (induction es arbitrary: fs)
  case Nil
  then show ?case by (simp add: only_inside_refl)
next
  case (Cons e es)
  obtain fs1 ok1 where e: "extract_entry dest e fs = (fs1, ok1)" by fastforce
  have i: "only_inside dest fs fs1" by (rule extract_entry_inside[OF _ _ _ _ e]) (use Cons.prems in simp_all)
  show ?case
  proof (cases ok1)
    case True
    have "only_inside dest fs1 fs'"
    proof (rule Cons.IH)
      show "fs_ok fs1" using i by (simp add: only_inside_def)
      show "physical fs1 dest" by (rule only_inside_physical[OF i Cons.prems(2)]) simp
    qed (use Cons.prems e True in simp_all)
    then show ?thesis using i only_inside_trans by blast
  qed (use Cons.prems(5) e i in simp)
qed

section \<open>Properties\<close>

text \<open> C39. Extraction stays inside the destination. Whatever the archive holds, links with absolute
  targets, links through links, names that go up and down, entries that overwrite earlier ones, and
  whether or not the extraction succeeds, every node outside the destination directory is as it was,
  the destination is still the same directory, and the tree is still a tree; provided the destination
  is an existing directory named by a normal path, no rooted name goes up and the names of files and
  links end in a name.\<close>

theorem unzip_stays_inside:
  assumes "fs_ok fs" "fs_get fs dest = Some DirNode" "normal dest" "\<forall>e \<in> set es. plain_entry e"
    and "Unzip (Some es) dest fs = (fs', ok)"
  shows "(\<forall>p. \<not> strict_prefix dest p \<longrightarrow> fs_get fs' p = fs_get fs p) \<and> fs_ok fs'"
proof -
  have ph: "physical fs dest" using physical_iff[OF assms(1)] assms(2) by simp
  have "Stat fs dest = Some DirNode" using resolve_physical[OF assms(3) ph] assms(2) by (simp add: Stat_def)
  then have "MkdirAll dest fs = (fs, True)" by (simp add: MkdirAll.simps[of dest])
  moreover have "EvalSymlinks fs dest = OsVal dest" using Eval_physical[OF assms(3) ph, of "[]"] by simp
  ultimately have "extract_all dest es fs = (fs', ok)" using assms(5) by (simp add: Unzip_def)
  from extract_all_inside[OF assms(1) ph assms(3,4) this] show ?thesis by (auto simp: only_inside_def)
qed

text \<open>An archive whose names are not plain.\<close>

definition zip_file :: "string \<Rightarrow> string \<Rightarrow> entry" where
  "zip_file name content = \<lparr>en_name = name, en_isdir = False, en_symlink = False, en_mode = 420, en_opens = True,
     en_whole = True, en_data = content\<rparr>"

definition zip_link :: "string \<Rightarrow> string \<Rightarrow> entry" where
  "zip_link name target = \<lparr>en_name = name, en_isdir = False, en_symlink = True, en_mode = 511, en_opens = True,
     en_whole = True, en_data = target\<rparr>"

definition zip_tree :: files where
  "zip_tree = \<lparr>fs_nodes = [([], DirNode), ([''dst''], DirNode), ([''etc''], DirNode), ([''etc'', ''passwd''], FileNode ''root'' 420)],
     fs_denied = []\<rparr>"

theorem unzip_stays_inside_witness:
  "let es = [zip_link ''a'' ''/etc'', zip_file ''b'' ''new'', zip_file ''a/passwd'' ''forged'']; fs' = fst (Unzip (Some es) [''dst''] zip_tree) in
     (\<forall>e \<in> set es. plain_entry e) \<and> fs_get fs' [''etc'', ''passwd''] = Some (FileNode ''root'' 420)"
proof -
  let ?es = "[zip_link ''a'' ''/etc'', zip_file ''b'' ''new'', zip_file ''a/passwd'' ''forged'']"
  obtain fs' ok where u: "Unzip (Some ?es) [''dst''] zip_tree = (fs', ok)" by fastforce
  have pl: "\<forall>e \<in> set ?es. plain_entry e"
    by (simp add: plain_entry_def zip_link_def zip_file_def path_comps_def is_abs_def has_prefix_def)
  have ok: "fs_ok zip_tree" by (auto simp: fs_ok_def fs_get_def zip_tree_def split: if_splits)
  have "fs_get fs' [''etc'', ''passwd''] = fs_get zip_tree [''etc'', ''passwd'']"
    using unzip_stays_inside[OF ok _ _ pl u] by (simp add: fs_get_def zip_tree_def)
  then show ?thesis using pl u by (simp add: Let_def fs_get_def zip_tree_def)
qed


end
