(* ===== verification/NetworkCounters.thy ===== *)
theory NetworkCounters
  imports Prelude
begin

text \<open>
  The counters of finished network requests (\<open>lib/cdpmonitor/network_metrics.go\<close>). Chrome can report
  the end of a request on more than one session event; the last identities are kept in a ring, so
  that each is counted once. The ring with its set is refined to a bounded queue.
\<close>

section \<open>The counters\<close>

type_synonym request_key = "string \<times> string"

definition no_key :: request_key where "no_key = ([], [])"

definition terminalHistorySize :: nat where "terminalHistorySize = 8192"

record networkCounters =
  nw_resets :: "64 word"
  nw_completed :: "64 word"
  nw_seen :: "request_key set"
  nw_history :: "request_key list"
  nw_next :: nat

definition newNetworkCounters :: networkCounters where
  "newNetworkCounters =
     \<lparr>nw_resets = 0, nw_completed = 0, nw_seen = {},
      nw_history = replicate terminalHistorySize no_key, nw_next = 0\<rparr>"

definition counted_id :: "string \<Rightarrow> string \<Rightarrow> bool" where
  "counted_id sessionID requestID \<longleftrightarrow>
     \<not> (sessionID = [] \<or> requestID = [] \<or> 256 < length sessionID \<or> 256 < length requestID)"

definition terminal :: "string \<Rightarrow> string \<Rightarrow> string \<Rightarrow> networkCounters \<Rightarrow> networkCounters" where
  "terminal sessionID requestID errorText c =
     (if \<not> counted_id sessionID requestID then c
      else let key = (sessionID, requestID) in
        if key \<in> nw_seen c then c
        else let seen = nw_seen c - {nw_history c ! nw_next c};
                 c = c\<lparr>nw_history := (nw_history c)[nw_next c := key],
                       nw_next := (nw_next c + 1) mod terminalHistorySize,
                       nw_seen := insert key seen, nw_completed := nw_completed c + 1\<rparr>
          in if errorText = ''net::ERR_CONNECTION_RESET'' then c\<lparr>nw_resets := nw_resets c + 1\<rparr> else c)"

definition newGeneration :: "networkCounters \<Rightarrow> networkCounters" where
  "newGeneration c =
     c\<lparr>nw_seen := {}, nw_history := replicate (length (nw_history c)) no_key, nw_next := 0\<rparr>"

record NetworkSnapshot =
  ns_Resets :: "64 word"
  ns_Completed :: "64 word"
  ns_Up :: bool

text \<open>
  \<open>connected\<close>: a connection that is open, not cancelled and ready; \<open>capture_sessions\<close>: what
  \<open>CaptureSessions\<close> of its tracker returned; \<open>networkReady\<close>: sessions whose network domain is on.
\<close>

definition counters_snapshot :: "networkCounters \<Rightarrow> NetworkSnapshot" where
  "counters_snapshot c = \<lparr>ns_Resets = nw_resets c, ns_Completed = nw_completed c, ns_Up = False\<rparr>"

definition monitor_NetworkSnapshot ::
  "bool \<Rightarrow> string list \<times> bool \<Rightarrow> (string \<Rightarrow> bool) \<Rightarrow> networkCounters \<Rightarrow> NetworkSnapshot" where
  "monitor_NetworkSnapshot connected capture_sessions networkReady c =
     (let s = counters_snapshot c in
      if \<not> connected then s
      else if \<not> snd capture_sessions then s
      else if \<exists>id \<in> set (fst capture_sessions). \<not> networkReady id then s
      else s\<lparr>ns_Up := True\<rparr>)"

section \<open>The ring is a bounded queue\<close>

definition recent :: "networkCounters \<Rightarrow> request_key list" where
  "recent c = filter (\<lambda>k. k \<noteq> no_key) (rotate (nw_next c) (nw_history c))"

definition counters_ok :: "networkCounters \<Rightarrow> bool" where
  "counters_ok c \<longleftrightarrow>
     length (nw_history c) = terminalHistorySize \<and> nw_next c < terminalHistorySize \<and>
     distinct (recent c) \<and> nw_seen c = set (recent c) \<and>
     rotate (nw_next c) (nw_history c) =
       replicate (terminalHistorySize - length (recent c)) no_key @ recent c"

text \<open>The last \<open>n\<close> elements.\<close>

definition last_n :: "nat \<Rightarrow> 'a list \<Rightarrow> 'a list" where
  "last_n n xs = drop (length xs - n) xs"

lemma rotate_store:
  assumes "i < length h"
  shows "rotate (Suc i mod length h) (h[i := k]) = tl (rotate i h) @ [k]"
proof -
  have "rotate (Suc i mod length h) (h[i := k]) = rotate (Suc i) (h[i := k])"
    using rotate_conv_mod[of "Suc i" "h[i := k]"] by simp
  also have "\<dots> = rotate1 (rotate i (h[i := k]))" by simp
  also have "rotate i (h[i := k]) = k # drop (Suc i) h @ take i h"
    using assms rotate_drop_take[of i "h[i := k]"] Cons_nth_drop_Suc[of i "h[i := k]"]
    by simp
  also have "rotate1 (k # drop (Suc i) h @ take i h) = drop (Suc i) h @ take i h @ [k]" by simp
  also have "\<dots> = (drop (Suc i) h @ take i h) @ [k]" by simp
  also have "drop (Suc i) h @ take i h = tl (rotate i h)"
    using assms rotate_drop_take[of i h] Cons_nth_drop_Suc[OF assms, symmetric] by simp
  finally show ?thesis .
qed

lemma hd_rotate_nth: "i < length h \<Longrightarrow> hd (rotate i h) = h ! i"
  by (subst hd_rotate_conv_nth) auto

lemma counters_ok_new: "counters_ok newNetworkCounters"
  by (simp add: counters_ok_def newNetworkCounters_def recent_def terminalHistorySize_def)

lemma newGeneration_ok:
  "counters_ok c \<Longrightarrow> counters_ok (newGeneration c) \<and> recent (newGeneration c) = []"
  by (simp add: counters_ok_def newGeneration_def recent_def terminalHistorySize_def)

lemma terminal_spec:
  assumes "counters_ok c" "counted_id sid rid" "(sid, rid) \<notin> set (recent c)"
  shows "counters_ok (terminal sid rid err c)"
    and "recent (terminal sid rid err c) = last_n terminalHistorySize (recent c @ [(sid, rid)])"
    and "nw_completed (terminal sid rid err c) = nw_completed c + 1"
    and "nw_resets (terminal sid rid err c) =
           nw_resets c + (if err = ''net::ERR_CONNECTION_RESET'' then 1 else 0)"
proof -
  let ?N = terminalHistorySize and ?k = "(sid, rid)" and ?c = "terminal sid rid err c"
  let ?r = "rotate (nw_next c) (nw_history c)"
  have h: "length (nw_history c) = ?N" "nw_next c < ?N" "distinct (recent c)" "nw_seen c = set (recent c)"
    "?r = replicate (?N - length (recent c)) no_key @ recent c"
    using assms(1) by (simp_all only: counters_ok_def)
  have k: "?k \<noteq> no_key" using assms(2) by (auto simp: counted_id_def no_key_def)
  have nk: "no_key \<notin> set (recent c)" by (simp add: recent_def)
  have le: "length (recent c) \<le> ?N"
    using h(1) length_filter_le[of "\<lambda>k. k \<noteq> no_key" ?r] by (simp add: recent_def)
  have hd: "nw_history c ! nw_next c = hd ?r" using h(1,2) by (simp add: hd_rotate_nth)
  have c: "nw_history ?c = (nw_history c)[nw_next c := ?k]" "nw_next ?c = Suc (nw_next c) mod ?N"
    "nw_seen ?c = insert ?k (nw_seen c - {hd ?r})"
    using assms(2,3) h(4) hd by (simp_all add: terminal_def Let_def)
  have rot: "rotate (nw_next ?c) (nw_history ?c) = tl ?r @ [?k]"
    using rotate_store[of "nw_next c" "nw_history c" ?k] h(1,2) c(1,2) by simp
  have last: "recent ?c = last_n ?N (recent c @ [?k]) \<and>
      tl ?r @ [?k] = replicate (?N - length (recent ?c)) no_key @ recent ?c \<and>
      nw_seen ?c = set (recent ?c) \<and> distinct (recent ?c)"
  proof (cases "length (recent c) = ?N")
    case full: True
    then have r: "?r = recent c" using h(5) by simp
    have ne: "recent c \<noteq> []" using full by (auto simp: terminalHistorySize_def)
    have "no_key \<notin> set (tl (recent c))" using nk ne by (metis list.set_sel(2))
    then have rc: "recent ?c = tl (recent c) @ [?k]"
      unfolding recent_def[of ?c] rot r using k nk by (auto simp: filter_id_conv)
    have "set (tl (recent c)) = set (recent c) - {hd (recent c)}"
      using h(3) ne by (cases "recent c") auto
    then show ?thesis
      using full ne h(3,4) c(3) r rc assms(3) distinct_tl[OF h(3)]
      by (cases "recent c") (auto simp: last_n_def)
  next
    case False
    then have lt: "length (recent c) < ?N" using le by simp
    then obtain z where z: "?N - length (recent c) = Suc z" by (metis Suc_diff_Suc)
    then have r: "?r = no_key # replicate z no_key @ recent c" using h(5) by simp
    have rc: "recent ?c = recent c @ [?k]"
      unfolding recent_def[of ?c] rot r using k nk by (auto simp: filter_id_conv)
    show ?thesis using rc r lt z h(3,4) c(3) assms(3) nk by (auto simp: last_n_def)
  qed
  show "counters_ok ?c"
    unfolding counters_ok_def rot using last c h(1) by (metis (no_types, lifting) terminalHistorySize_def length_list_update mod_less_divisor zero_less_numeral)
  show "recent ?c = last_n ?N (recent c @ [?k])" using last by simp
  show "nw_completed ?c = nw_completed c + 1"
    "nw_resets ?c = nw_resets c + (if err = ''net::ERR_CONNECTION_RESET'' then 1 else 0)"
    using assms(2,3) h(4) by (simp_all add: terminal_def Let_def)
qed

lemma terminal_ignored:
  assumes "counters_ok c" "\<not> counted_id sid rid \<or> (sid, rid) \<in> set (recent c)"
  shows "terminal sid rid err c = c"
  using assms by (auto simp: terminal_def counters_ok_def)

section \<open>Histories\<close>

datatype counter_op = Terminal string string string | Generation

fun apply_counter :: "counter_op \<Rightarrow> networkCounters \<Rightarrow> networkCounters" where
  "apply_counter (Terminal sid rid err) c = terminal sid rid err c"
| "apply_counter Generation c = newGeneration c"

text \<open>What was counted: the identities remembered, the number counted, and of those the resets.\<close>

fun queue_op :: "counter_op \<Rightarrow> request_key list \<times> nat \<times> nat \<Rightarrow> request_key list \<times> nat \<times> nat" where
  "queue_op (Terminal sid rid err) (q, n, r) =
     (if \<not> counted_id sid rid \<or> (sid, rid) \<in> set q then (q, n, r)
      else (last_n terminalHistorySize (q @ [(sid, rid)]), n + 1,
            if err = ''net::ERR_CONNECTION_RESET'' then r + 1 else r))"
| "queue_op Generation (q, n, r) = ([], n, r)"

definition counters_abs :: "networkCounters \<Rightarrow> request_key list \<times> nat \<times> nat \<Rightarrow> bool" where
  "counters_abs c a \<longleftrightarrow>
     counters_ok c \<and> recent c = fst a \<and> nw_completed c = of_nat (fst (snd a)) \<and> nw_resets c = of_nat (snd (snd a))"

lemma counter_op_refines:
  assumes "counters_abs c a"
  shows "counters_abs (apply_counter op c) (queue_op op a)"
proof (cases op)
  case (Terminal sid rid err)
  obtain q n r where a: "a = (q, n, r)" by (cases a)
  have c: "counters_ok c" "recent c = q" "nw_completed c = of_nat n" "nw_resets c = of_nat r"
    using assms a by (simp_all add: counters_abs_def)
  show ?thesis
  proof (cases "\<not> counted_id sid rid \<or> (sid, rid) \<in> set q")
    case True
    then show ?thesis using terminal_ignored[OF c(1)] assms a c(2) Terminal by auto
  next
    case False
    then show ?thesis using terminal_spec[OF c(1), of sid rid err] c a Terminal
      by (auto simp: counters_abs_def)
  qed
next
  case Generation
  then show ?thesis using assms newGeneration_ok[of c]
    by (cases a) (auto simp: counters_abs_def newGeneration_def)
qed

lemma counters_run: "counters_abs c a \<Longrightarrow> counters_abs (fold apply_counter ops c) (fold queue_op ops a)"
proof (induction ops arbitrary: c a)
  case (Cons op ops)
  then show ?case using counter_op_refines[of c a op] by (simp del: split_paired_All)
qed simp

lemma counters_start: "counters_abs newNetworkCounters ([], 0, 0)"
  using counters_ok_new
  by (simp add: counters_abs_def newNetworkCounters_def recent_def)

text \<open>Without a new generation, up to the size of the ring every identity is counted exactly once.\<close>

fun keys_of :: "counter_op list \<Rightarrow> request_key list" where
  "keys_of [] = []"
| "keys_of (Terminal sid rid err # ops) = (if counted_id sid rid then [(sid, rid)] else []) @ keys_of ops"
| "keys_of (Generation # ops) = keys_of ops"

lemma queue_counts:
  assumes "Generation \<notin> set ops" "distinct q" "card (set q \<union> set (keys_of ops)) \<le> terminalHistorySize"
  shows "\<exists>q' r'. fold queue_op ops (q, n, r) = (q', n + card (set (keys_of ops) - set q), r') \<and>
           r \<le> r' \<and> r' \<le> r + card (set (keys_of ops) - set q)"
  using assms
proof (induction ops arbitrary: q n r)
  case Nil
  then show ?case by simp
next
  case (Cons op ops)
  obtain sid rid err where op: "op = Terminal sid rid err" using Cons.prems(1) by (cases op) auto
  let ?k = "(sid, rid)"
  show ?case
  proof (cases "\<not> counted_id sid rid \<or> ?k \<in> set q")
    case True
    then have "set (keys_of (op # ops)) - set q = set (keys_of ops) - set q" using op by auto
    moreover have "card (set q \<union> set (keys_of ops)) \<le> card (set q \<union> set (keys_of (op # ops)))"
      by (rule card_mono) (use op in auto)
    ultimately show ?thesis using Cons.IH[of q n r] Cons.prems True op by auto
  next
    case False
    let ?q = "q @ [?k]"
    have len: "length ?q \<le> terminalHistorySize"
    proof -
      have "length ?q = card (set ?q)" using False Cons.prems(2) by (subst distinct_card) auto
      also have "\<dots> \<le> card (set q \<union> set (keys_of (op # ops)))"
        by (rule card_mono) (use op False in auto)
      finally show ?thesis using Cons.prems(3) by simp
    qed
    then have ln: "last_n terminalHistorySize ?q = ?q" by (simp add: last_n_def)
    have u: "set ?q \<union> set (keys_of ops) = set q \<union> set (keys_of (op # ops))" using op False by auto
    have "set (keys_of (op # ops)) - set q = insert ?k (set (keys_of ops) - set ?q)" using op False by auto
    then have cd: "card (set (keys_of (op # ops)) - set q) = Suc (card (set (keys_of ops) - set ?q))" by simp
    have ih: "\<exists>q' r'. fold queue_op ops (?q, m, s) = (q', m + card (set (keys_of ops) - set ?q), r') \<and>
           s \<le> r' \<and> r' \<le> s + card (set (keys_of ops) - set ?q)" for m s
      by (rule Cons.IH) (use Cons.prems False u in auto)
    show ?thesis using ih[of "n + 1" "if err = ''net::ERR_CONNECTION_RESET'' then r + 1 else r"] False ln op cd
      by (fastforce split: if_splits)
  qed
qed

text \<open>
  C35. After any sequence of reports and reconnections the ring holds the identities a bounded queue
  would hold, its set is the set of these identities, and the totals are the numbers of reports the
  queue did not know; while no more than 8192 different identities were reported and no connection
  was replaced, the total of finished requests is the number of different identities, so a request
  reported twice is counted once, and no more resets than requests are counted.
\<close>

theorem network_counters_refine_queue:
  "counters_abs (fold apply_counter ops newNetworkCounters) (fold queue_op ops ([], 0, 0)) \<and>
   (Generation \<notin> set ops \<and> card (set (keys_of ops)) \<le> terminalHistorySize \<longrightarrow>
      nw_completed (fold apply_counter ops newNetworkCounters) = of_nat (card (set (keys_of ops))) \<and>
      (\<exists>r \<le> card (set (keys_of ops)). nw_resets (fold apply_counter ops newNetworkCounters) = of_nat r))"
proof -
  have run: "counters_abs (fold apply_counter ops newNetworkCounters) (fold queue_op ops ([], 0, 0))"
    by (rule counters_run[OF counters_start])
  have "nw_completed (fold apply_counter ops newNetworkCounters) = of_nat (card (set (keys_of ops))) \<and>
      (\<exists>r \<le> card (set (keys_of ops)). nw_resets (fold apply_counter ops newNetworkCounters) = of_nat r)"
    if few: "Generation \<notin> set ops" "card (set (keys_of ops)) \<le> terminalHistorySize"
  proof -
    obtain q r where "fold queue_op ops ([], 0, 0) = (q, card (set (keys_of ops)), r)"
      "r \<le> card (set (keys_of ops))"
      using queue_counts[of ops "[]" 0 0] few by auto
    with run show ?thesis by (auto simp: counters_abs_def)
  qed
  with run show ?thesis by blast
qed

theorem network_counters_refine_queue_witness:
  "nw_completed (fold apply_counter
      [Terminal ''s'' ''1'' [], Terminal ''s'' ''1'' ''net::ERR_CONNECTION_RESET'', Terminal ''t'' ''1'' []]
      newNetworkCounters) = 2"
proof -
  let ?ops = "[Terminal ''s'' ''1'' [], Terminal ''s'' ''1'' ''net::ERR_CONNECTION_RESET'', Terminal ''t'' ''1'' []]"
  have "card (set (keys_of ?ops)) = 2" by (simp add: counted_id_def card_insert_if)
  then show ?thesis
    using network_counters_refine_queue[of ?ops] by (simp add: terminalHistorySize_def)
qed

end
