(* ===== verification/NetworkMessages.thy ===== *)
theory NetworkMessages
  imports GoJson Events CdpCommand
begin

text \<open>
  What the CDP monitor reads out of the messages of the network domain (\<open>lib/cdpmonitor\<close>: the
  message structs of \<open>cdp_proto.go\<close>, \<open>util.go\<close>, \<open>proxy_error_code.go\<close> and the helpers of \<open>handlers.go\<close>):
  header maps, the codes of branded proxy errors, and response bodies with their limits.
\<close>

section \<open>Messages\<close>

text \<open>A member that is decoded and never read: its type is checked, the value is dropped.\<close>

definition checked :: "(json \<Rightarrow> 'a option) \<Rightarrow> json \<Rightarrow> 's \<Rightarrow> 's option" where
  "checked conv v s = (if v = JNull then Some s else map_option (\<lambda>_. s) (conv v))"

definition unread :: "json \<Rightarrow> 's \<Rightarrow> 's option" where
  "unread v s = Some s"

record cdpNetworkRequest =
  rq_URL :: string
  rq_Method :: string
  rq_Headers :: "json option"
  rq_PostData :: string

definition request_fields :: "cdpNetworkRequest struct_fields" where
  "request_fields =
     [(''url'', plain_field as_string rq_URL_update), (''urlFragment'', checked as_string),
      (''method'', plain_field as_string rq_Method_update), (''headers'', raw_field rq_Headers_update),
      (''postData'', plain_field as_string rq_PostData_update), (''hasPostData'', checked as_bool),
      (''postDataEntries'', unread), (''mixedContentType'', checked as_string),
      (''initialPriority'', checked as_string), (''referrerPolicy'', checked as_string),
      (''isLinkPreload'', checked as_bool), (''trustTokenParams'', unread),
      (''isSameSite'', checked as_bool), (''isAdRelated'', checked as_bool)]"

record cdpNetworkResponse =
  rs_URL :: string
  rs_Status :: int
  rs_StatusText :: string
  rs_Headers :: "json option"
  rs_MimeType :: string

definition zero_response :: cdpNetworkResponse where
  "zero_response = \<lparr>rs_URL = [], rs_Status = 0, rs_StatusText = [], rs_Headers = None, rs_MimeType = []\<rparr>"

definition response_fields :: "cdpNetworkResponse struct_fields" where
  "response_fields =
     [(''url'', plain_field as_string rs_URL_update), (''status'', plain_field as_int rs_Status_update),
      (''statusText'', plain_field as_string rs_StatusText_update), (''headers'', raw_field rs_Headers_update),
      (''headersText'', checked as_string), (''mimeType'', plain_field as_string rs_MimeType_update),
      (''charset'', checked as_string), (''requestHeaders'', unread),
      (''requestHeadersText'', checked as_string), (''connectionReused'', checked as_bool),
      (''connectionId'', checked as_float), (''remoteIPAddress'', checked as_string),
      (''remotePort'', checked as_int), (''fromDiskCache'', checked as_bool),
      (''fromServiceWorker'', checked as_bool), (''fromPrefetchCache'', checked as_bool),
      (''fromEarlyHints'', checked as_bool), (''serviceWorkerRouterInfo'', unread),
      (''encodedDataLength'', checked as_float), (''timing'', unread),
      (''serviceWorkerResponseSource'', checked as_string), (''responseTime'', checked as_float),
      (''cacheStorageCacheName'', checked as_string), (''protocol'', checked as_string),
      (''alternateProtocolUsage'', checked as_string), (''securityState'', checked as_string),
      (''securityDetails'', unread)]"

record willBeSent =
  wb_RequestID :: string
  wb_LoaderID :: string
  wb_DocumentURL :: string
  wb_Request :: cdpNetworkRequest
  wb_Initiator :: "json option"
  wb_RedirectHasExtraInfo :: bool
  wb_RedirectResponse :: "json option"
  wb_Type :: string
  wb_FrameID :: string

definition zero_willBeSent :: willBeSent where
  "zero_willBeSent =
     \<lparr>wb_RequestID = [], wb_LoaderID = [], wb_DocumentURL = [],
      wb_Request = \<lparr>rq_URL = [], rq_Method = [], rq_Headers = None, rq_PostData = []\<rparr>,
      wb_Initiator = None, wb_RedirectHasExtraInfo = False, wb_RedirectResponse = None,
      wb_Type = [], wb_FrameID = []\<rparr>"

definition willBeSent_fields :: "willBeSent struct_fields" where
  "willBeSent_fields =
     [(''requestId'', plain_field as_string wb_RequestID_update),
      (''loaderId'', plain_field as_string wb_LoaderID_update),
      (''documentURL'', plain_field as_string wb_DocumentURL_update),
      (''request'', nested_field request_fields wb_Request wb_Request_update),
      (''timestamp'', checked as_float), (''wallTime'', checked as_float),
      (''initiator'', raw_field wb_Initiator_update),
      (''redirectHasExtraInfo'', plain_field as_bool wb_RedirectHasExtraInfo_update),
      (''redirectResponse'', raw_field wb_RedirectResponse_update),
      (''type'', plain_field as_string wb_Type_update), (''frameId'', plain_field as_string wb_FrameID_update),
      (''hasUserGesture'', checked as_bool), (''renderBlockingBehavior'', checked as_string)]"

record extraInfo =
  xi_RequestID :: string
  xi_Headers :: "json option"

definition extraInfo_fields :: "extraInfo struct_fields" where
  "extraInfo_fields =
     [(''requestId'', plain_field as_string xi_RequestID_update), (''associatedCookies'', unread),
      (''headers'', raw_field xi_Headers_update), (''connectTiming'', unread), (''clientSecurityState'', unread),
      (''siteHasCookieInOtherPartition'', checked as_bool), (''appliedNetworkConditionsId'', checked as_string)]"

record responseReceived =
  rr_RequestID :: string
  rr_LoaderID :: string
  rr_Type :: string
  rr_Response :: cdpNetworkResponse
  rr_HasExtraInfo :: bool
  rr_FrameID :: string

definition responseReceived_fields :: "responseReceived struct_fields" where
  "responseReceived_fields =
     [(''requestId'', plain_field as_string rr_RequestID_update),
      (''loaderId'', plain_field as_string rr_LoaderID_update), (''timestamp'', checked as_float),
      (''type'', plain_field as_string rr_Type_update),
      (''response'', nested_field response_fields rr_Response rr_Response_update),
      (''hasExtraInfo'', plain_field as_bool rr_HasExtraInfo_update),
      (''frameId'', plain_field as_string rr_FrameID_update)]"

record loadingFailed =
  lf_RequestID :: string
  lf_ErrorText :: string
  lf_Canceled :: bool

definition loadingFailed_fields :: "loadingFailed struct_fields" where
  "loadingFailed_fields =
     [(''requestId'', plain_field as_string lf_RequestID_update), (''timestamp'', checked as_float),
      (''type'', checked as_string), (''errorText'', plain_field as_string lf_ErrorText_update),
      (''canceled'', plain_field as_bool lf_Canceled_update), (''blockedReason'', checked as_string),
      (''corsErrorStatus'', unread)]"

definition loadingFinished_fields :: "string struct_fields" where
  "loadingFinished_fields =
     [(''requestId'', plain_field as_string (\<lambda>f. f)), (''timestamp'', checked as_float),
      (''encodedDataLength'', checked as_float)]"

record pageFrame =
  pf_ID :: string
  pf_ParentID :: string
  pf_LoaderID :: string
  pf_URL :: string

definition pageFrame_fields :: "pageFrame struct_fields" where
  "pageFrame_fields =
     [(''id'', plain_field as_string pf_ID_update), (''parentId'', plain_field as_string pf_ParentID_update),
      (''loaderId'', plain_field as_string pf_LoaderID_update), (''name'', checked as_string),
      (''url'', plain_field as_string pf_URL_update), (''urlFragment'', checked as_string),
      (''domainAndRegistry'', checked as_string), (''securityOrigin'', checked as_string),
      (''securityOriginDetails'', unread), (''mimeType'', checked as_string),
      (''unreachableUrl'', checked as_string), (''adFrameStatus'', unread),
      (''secureContextType'', checked as_string), (''crossOriginIsolatedContextType'', checked as_string),
      (''gatedAPIFeatures'', unread)]"

definition frameNavigated_fields :: "pageFrame struct_fields" where
  "frameNavigated_fields =
     [(''frame'', nested_field pageFrame_fields (\<lambda>f. f) (\<lambda>f. f)), (''type'', checked as_string)]"

datatype net_message =
    RequestWillBeSent willBeSent
  | RequestExtraInfo extraInfo
  | ResponseReceived responseReceived
  | LoadingFinished string
  | LoadingFailed loadingFailed
  | FrameNavigated pageFrame

text \<open>\<open>decodeParams\<close> with the cases of \<open>dispatchEvent\<close>; parameters that do not decode are dropped.\<close>

definition decode_message :: "string \<Rightarrow> json option \<Rightarrow> net_message option" where
  "decode_message mthd params =
     (case params of
        None \<Rightarrow> None
      | Some p \<Rightarrow>
          if mthd = ''Network.requestWillBeSent''
          then map_option RequestWillBeSent (decode_struct willBeSent_fields p zero_willBeSent)
          else if mthd = ''Network.requestWillBeSentExtraInfo''
          then map_option RequestExtraInfo (decode_struct extraInfo_fields p \<lparr>xi_RequestID = [], xi_Headers = None\<rparr>)
          else if mthd = ''Network.responseReceived''
          then map_option ResponseReceived (decode_struct responseReceived_fields p
                 \<lparr>rr_RequestID = [], rr_LoaderID = [], rr_Type = [], rr_Response = zero_response,
                  rr_HasExtraInfo = False, rr_FrameID = []\<rparr>)
          else if mthd = ''Network.loadingFinished''
          then map_option LoadingFinished (decode_struct loadingFinished_fields p [])
          else if mthd = ''Network.loadingFailed''
          then map_option LoadingFailed (decode_struct loadingFailed_fields p
                 \<lparr>lf_RequestID = [], lf_ErrorText = [], lf_Canceled = False\<rparr>)
          else if mthd = ''Page.frameNavigated''
          then map_option FrameNavigated (decode_struct frameNavigated_fields p
                 \<lparr>pf_ID = [], pf_ParentID = [], pf_LoaderID = [], pf_URL = []\<rparr>)
          else None)"

definition initiator_type :: "json option \<Rightarrow> string" where
  "initiator_type raw =
     (case raw of
        None \<Rightarrow> []
      | Some v \<Rightarrow> (case decode_struct [(''type'', plain_field as_string (\<lambda>f. f))] v [] of
                   None \<Rightarrow> [] | Some ty \<Rightarrow> ty))"

section \<open>Headers\<close>

text \<open>
  A value decoded into \<open>interface{}\<close>: objects become maps, and a number beyond \<open>float64\<close> becomes nil
  (and makes the whole call report an error, after the rest was decoded).
\<close>

fun any_value :: "json \<Rightarrow> json" where
  "any_value (JNumber n) = (if float_overflow n then JNull else JNumber n)"
| "any_value (JArray vs) = JArray (map any_value vs)"
| "any_value (JObject ms) = JObject (put_all (map (\<lambda>m. (fst m, any_value (snd m))) ms) [])"
| "any_value v = v"

text \<open>\<open>json.Unmarshal\<close> into a nil \<open>map[string]any\<close>: the map, and whether there was no error.\<close>

fun headers_decode :: "json option \<Rightarrow> members option \<times> bool" where
  "headers_decode (Some JNull) = (None, True)"
| "headers_decode (Some (JObject ms)) =
     (Some (put_all (map (\<lambda>m. (fst m, any_value (snd m))) ms) []), floats_ok (JObject ms))"
| "headers_decode _ = (None, False)"

definition headers_found :: "json option \<Rightarrow> members option" where
  "headers_found raw = (let (m, good) = headers_decode raw in if good then m else None)"

section \<open>Branded proxy errors\<close>

definition proxyErrorHeader :: string where "proxyErrorHeader = ''x-kernel-proxy-error''"

text \<open>
  \<open>proxyErrorCode\<close>: the values of the headers of that name, in any case, that are strings. The code
  takes the first it meets, in the order of a Go map, which is any.
\<close>

definition proxyErrorCodes :: "json option \<Rightarrow> string list" where
  "proxyErrorCodes raw =
     (case headers_decode raw of
        (Some hdrs, True) \<Rightarrow>
          List.map_filter (\<lambda>(k, v). if names_match proxyErrorHeader k then as_string v else None) hdrs
      | _ \<Rightarrow> [])"

definition proxyErrorUnknownCode :: string where "proxyErrorUnknownCode = ''unknown''"

definition proxy_error_codes :: "string list" where
  "proxy_error_codes =
     [''destination_blocked'', ''destination_route_unavailable'', ''network_policy_denied'',
      ''origin_response_incomplete'', ''origin_tls_timeout'', ''provider_blacklisted'', ''provider_rejected'',
      ''provider_unreachable'', ''unknown'', ''proxy_unavailable'', ''restricted_route_unavailable'',
      ''upstream_connect_failed'', ''upstream_dns_failure'', ''upstream_timeout'']"

definition code_char :: "char \<Rightarrow> bool" where
  "code_char c \<longleftrightarrow> (0x61 \<le> byte c \<and> byte c \<le> 0x7A) \<or> (0x30 \<le> byte c \<and> byte c \<le> 0x39) \<or> c = CHR ''_''"

definition proxyErrorRawCodeMaxLen :: nat where "proxyErrorRawCodeMaxLen = 64"

text \<open>Every rune outside the class becomes one underscore; a byte that is not UTF-8 counts as a rune.\<close>

function replace_runes :: "string \<Rightarrow> string" where
  "replace_runes [] = []"
| "replace_runes (c # s) =
     (if code_char c then c # replace_runes s
      else CHR ''_'' # replace_runes (drop (rune_size (c # s)) (c # s)))"
  by pat_completeness auto
termination
  using rune_size_pos by (relation "measure length") (auto intro!: diff_less)

definition sanitizeProxyErrorRawCode :: "string \<Rightarrow> string" where
  "sanitizeProxyErrorRawCode s = take proxyErrorRawCodeMaxLen (replace_runes (to_lower s))"

lemma replace_runes_chars: "\<forall>c \<in> set (replace_runes s). code_char c"
  by (induction s rule: replace_runes.induct) (auto simp: code_char_def)

lemma sanitized_code:
  "length (sanitizeProxyErrorRawCode s) \<le> proxyErrorRawCodeMaxLen \<and>
   (\<forall>c \<in> set (sanitizeProxyErrorRawCode s). code_char c)"
  using replace_runes_chars[of "to_lower s"] by (auto simp: sanitizeProxyErrorRawCode_def dest: in_set_takeD)

text \<open>The published code with the raw code: every code in the enumeration but unknown is passed on.\<close>

definition published_code :: "string \<Rightarrow> string \<times> string option" where
  "published_code code =
     (if code = proxyErrorUnknownCode \<or> code \<notin> set proxy_error_codes
      then (proxyErrorUnknownCode, Some (sanitizeProxyErrorRawCode code)) else (code, None))"

lemma published_code_valid: "fst (published_code code) \<in> set proxy_error_codes"
  by (auto simp: published_code_def proxyErrorUnknownCode_def proxy_error_codes_def)

section \<open>Response bodies\<close>

definition has_suffix :: "string \<Rightarrow> string \<Rightarrow> bool" where
  "has_suffix suf s \<longleftrightarrow> has_prefix (rev suf) (rev s)"

definition text_suffixes :: "string list" where
  "text_suffixes = [''+json'', ''+xml'', ''+csv'']"

definition isCapturedMIME :: "string \<Rightarrow> bool" where
  "isCapturedMIME mime \<longleftrightarrow>
     (if mime = [] then False
      else if has_prefix ''text/plain'' mime \<or> has_prefix ''text/html'' mime \<or>
              has_prefix ''text/xml'' mime \<or> has_prefix ''text/csv'' mime then True
      else if has_prefix ''application/json'' mime \<or> has_prefix ''application/xml'' mime \<or>
              has_prefix ''application/x-www-form-urlencoded'' mime \<or> has_prefix ''application/graphql'' mime then True
      else if has_prefix ''application/vnd.'' mime
      then \<exists>textSuffix \<in> set text_suffixes. has_suffix textSuffix (trim_prefix ''application/vnd.'' mime)
      else False)"

definition isTextualResource :: "string \<Rightarrow> string \<Rightarrow> bool" where
  "isTextualResource resourceType mimeType \<longleftrightarrow>
     (if resourceType \<in> {''Font'', ''Image'', ''Media'', ''Stylesheet'', ''Script''} then False
      else isCapturedMIME mimeType)"

definition structuredPrefixes :: "string list" where
  "structuredPrefixes =
     [''application/json'', ''application/xml'', ''application/x-www-form-urlencoded'',
      ''application/graphql'', ''text/xml'', ''text/csv'']"

definition CapturedFieldCap :: int where "CapturedFieldCap = 8 * 1024"

definition bodyCapFor :: "string \<Rightarrow> int" where
  "bodyCapFor mime =
     (if \<exists>p \<in> set structuredPrefixes. has_prefix p mime then CapturedFieldCap
      else if \<exists>suffix \<in> set text_suffixes. has_suffix suffix mime then CapturedFieldCap
      else 4 * 1024)"

subsection \<open>Base64\<close>

text \<open>
  \<open>base64.StdEncoding.DecodeString\<close>: line breaks are skipped, padding is required at the end and only
  there, and the unused bits of the last quantum are not looked at.
\<close>

definition base64_digit :: "char \<Rightarrow> nat option" where
  "base64_digit c =
     (let b = byte c in
      if 0x41 \<le> b \<and> b \<le> 0x5A then Some (b - 0x41)
      else if 0x61 \<le> b \<and> b \<le> 0x7A then Some (b - 0x61 + 26)
      else if 0x30 \<le> b \<and> b \<le> 0x39 then Some (b - 0x30 + 52)
      else if c = CHR ''+'' then Some 62
      else if c = CHR ''/'' then Some 63
      else None)"

definition quantum_bytes :: "nat \<Rightarrow> nat \<Rightarrow> nat \<Rightarrow> nat \<Rightarrow> string" where
  "quantum_bytes a b c d =
     (let v = ((a * 64 + b) * 64 + c) * 64 + d in
      [char_of (v div 65536), char_of (v div 256 mod 256), char_of (v mod 256)])"

fun base64_quanta :: "string \<Rightarrow> string option" where
  "base64_quanta [] = Some []"
| "base64_quanta (w # x # y # z # s) =
     (case (base64_digit w, base64_digit x) of
        (Some a, Some b) \<Rightarrow>
          if y = CHR ''='' then
            (if z = CHR ''='' \<and> s = [] then Some (take 1 (quantum_bytes a b 0 0)) else None)
          else (case base64_digit y of
            None \<Rightarrow> None
          | Some c \<Rightarrow>
              if z = CHR ''='' then (if s = [] then Some (take 2 (quantum_bytes a b c 0)) else None)
              else (case base64_digit z of
                None \<Rightarrow> None
              | Some d \<Rightarrow> map_option (\<lambda>r. quantum_bytes a b c d @ r) (base64_quanta s)))
      | _ \<Rightarrow> None)"
| "base64_quanta _ = None"

definition base64_decode :: "string \<Rightarrow> string option" where
  "base64_decode s = base64_quanta (filter (\<lambda>c. c \<noteq> CHR 0x0A \<and> c \<noteq> CHR 0x0D) s)"

subsection \<open>Fetching\<close>

text \<open>
  \<open>fetchResponseBody\<close>: \<open>reply\<close> is what \<open>Network.getResponseBody\<close> answered. The text of an error is
  its constructor.
\<close>

datatype body_error = SendFailed string | BadResult | BadBase64

record body_result =
  br_body :: string
  br_base64Encoded :: bool

definition body_fields :: "body_result struct_fields" where
  "body_fields =
     [(''body'', plain_field as_string br_body_update), (''base64Encoded'', plain_field as_bool br_base64Encoded_update)]"

definition fetchResponseBody :: "string + json \<Rightarrow> string \<Rightarrow> string \<Rightarrow> body_error + string" where
  "fetchResponseBody reply resourceType mimeType =
     (if \<not> isTextualResource resourceType mimeType then Inr []
      else case reply of
        Inl err \<Rightarrow> Inl (SendFailed err)
      | Inr result \<Rightarrow>
          (case decode_struct body_fields result \<lparr>br_body = [], br_base64Encoded = False\<rparr> of
             None \<Rightarrow> Inl BadResult
           | Some resp \<Rightarrow>
               if br_base64Encoded resp then
                 (case base64_decode (br_body resp) of
                    None \<Rightarrow> Inl BadBase64
                  | Some body \<Rightarrow> Inr (TruncateCaptured body (bodyCapFor mimeType)))
               else Inr (TruncateCaptured (br_body resp) (bodyCapFor mimeType))))"

end
