(* ===== verification/NetworkCapture.thy ===== *)
theory NetworkCapture
  imports NetworkMessages NetworkCounters ComputedState "HOL-Library.AList"
begin

text \<open>
  The network events of the CDP monitor (\<open>lib/cdpmonitor/network_capture.go\<close> and the network handlers
  of \<open>handlers.go\<close>). Chrome reports a request on two unordered streams: the base events, handled one
  message after the other by the goroutine of the connection, and the wire headers (ExtraInfo).
  Every hop of a redirect chain has a goroutine that publishes its request and one that publishes
  its response; a sweeper drops requests that never end; and a change of the capture, or of the
  connection, drains the publishers and clears the tables. A critical section is one step.
\<close>

section \<open>Payloads\<close>

record targetInfo =
  ti_title :: string
  ti_openerID :: string
  ti_targetID :: string
  ti_url :: string
  ti_targetType :: string
  ti_parentFrameID :: string

definition zero_targetInfo :: targetInfo where
  "zero_targetInfo = \<lparr>ti_title = [], ti_openerID = [], ti_targetID = [], ti_url = [],
     ti_targetType = [], ti_parentFrameID = []\<rparr>"

record request_data =
  qd_SessionId :: string
  qd_TargetId :: string
  qd_TargetType :: string
  qd_FrameId :: "string option"
  qd_LoaderId :: "string option"
  qd_Url :: "string option"
  qd_NavSeq :: int
  qd_RequestId :: string
  qd_Method :: string
  qd_DocumentUrl :: string
  qd_Headers :: "members option"
  qd_InitiatorType :: string
  qd_PostData :: "string option"
  qd_ResourceType :: "string option"
  qd_IsRedirect :: "bool option"
  qd_RedirectUrl :: "string option"

record response_data =
  sd_SessionId :: string
  sd_TargetId :: string
  sd_TargetType :: string
  sd_FrameId :: "string option"
  sd_LoaderId :: "string option"
  sd_Url :: "string option"
  sd_NavSeq :: int
  sd_RequestId :: string
  sd_Method :: string
  sd_Status :: int
  sd_Headers :: "members option"
  sd_StatusText :: "string option"
  sd_MimeType :: "string option"
  sd_ResourceType :: "string option"
  sd_Body :: "string option"
  sd_BodyError :: "body_error option"
  sd_RequestHeaders :: "members option"

record failed_data =
  fd_SessionId :: string
  fd_TargetId :: string
  fd_TargetType :: string
  fd_NavSeq :: int
  fd_RequestId :: string
  fd_ErrorText :: string
  fd_Canceled :: bool
  fd_Url :: "string option"
  fd_LoaderId :: "string option"
  fd_FrameId :: "string option"
  fd_ResourceType :: "string option"

record proxy_data =
  pd_SessionId :: string
  pd_TargetId :: string
  pd_TargetType :: string
  pd_NavSeq :: int
  pd_RequestId :: string
  pd_Url :: "string option"
  pd_FrameId :: "string option"
  pd_LoaderId :: "string option"
  pd_Method :: "string option"
  pd_Status :: int
  pd_Code :: string
  pd_RawCode :: "string option"
  pd_ResourceType :: "string option"

record navigation_data =
  vd_SessionId :: string
  vd_TargetId :: string
  vd_TargetType :: string
  vd_Url :: string
  vd_FrameId :: string
  vd_ParentFrameId :: string
  vd_LoaderId :: string

record tab_data =
  td_TargetId :: string
  td_TargetType :: string
  td_Url :: string
  td_Title :: string
  td_OpenerId :: string

datatype net_payload =
    RequestData request_data
  | ResponseData response_data
  | FailedData failed_data
  | ProxyData proxy_data
  | NavigationData navigation_data
  | TabData tab_data

record net_event =
  nv_Ts :: int
  nv_Type :: string
  nv_Category :: category
  nv_Source :: EventSource
  nv_Data :: net_payload

section \<open>State\<close>

text \<open>
  Exchanges, hops and computed states are shared by pointer, so they live in heaps and are named by
  their index. Ghosts: \<open>ex_received\<close>, every ExtraInfo the exchange accepted; \<open>hp_took\<close>, whether the hop
  was given one of them.
\<close>

record networkExchange =
  ex_addedAt :: int
  ex_hops :: "nat list"
  ex_requests :: "json option list"
  ex_terminal :: bool
  ex_publications :: int
  ex_received :: "json option list"

definition new_exchange :: "int \<Rightarrow> networkExchange" where
  "new_exchange now = \<lparr>ex_addedAt = now, ex_hops = [], ex_requests = [], ex_terminal = False,
     ex_publications = 0, ex_received = []\<rparr>"

record networkHop =
  hp_exchange :: nat
  hp_request :: request_data
  hp_source :: EventSource
  hp_observedAt :: int
  hp_known :: bool
  hp_hasExtra :: bool
  hp_requestHeaders :: "json option"
  hp_requestReady :: bool
  hp_requestMatched :: bool
  hp_requestPublished :: bool
  hp_took :: bool

record reqState =
  ns_sessionID :: string
  ns_method :: string
  ns_url :: string
  ns_headers :: "json option"
  ns_postData :: string
  ns_resourceType :: string
  ns_loaderID :: string
  ns_frameID :: string
  ns_navSeq :: int
  ns_countedNavSeq :: int
  ns_countedState :: "nat option"
  ns_status :: int
  ns_statusText :: string
  ns_resHeaders :: "json option"
  ns_mimeType :: string
  ns_addedAt :: int
  ns_hop :: "nat option"

text \<open>The zero time is before every time the clock shows.\<close>

definition zero_reqState :: reqState where
  "zero_reqState = \<lparr>ns_sessionID = [], ns_method = [], ns_url = [], ns_headers = None, ns_postData = [],
     ns_resourceType = [], ns_loaderID = [], ns_frameID = [], ns_navSeq = 0, ns_countedNavSeq = 0,
     ns_countedState = None, ns_status = 0, ns_statusText = [], ns_resHeaders = None, ns_mimeType = [],
     ns_addedAt = - (2 ^ 62), ns_hop = None\<rparr>"

text \<open>The arguments of a call of \<open>emitNetworkResponse\<close>; \<open>rj_id\<close> names the channel it returns.\<close>

record response_job =
  rj_id :: nat
  rj_observedAt :: int
  rj_key :: request_key
  rj_state :: reqState
  rj_info :: targetInfo
  rj_redirect :: bool

record proxy_args =
  pa_observedAt :: int
  pa_source :: EventSource
  pa_info :: targetInfo
  pa_sessionID :: string
  pa_requestID :: string
  pa_code :: string
  pa_status :: int
  pa_navSeq :: int
  pa_method :: string
  pa_resourceType :: string
  pa_url :: "string option"
  pa_frameID :: "string option"
  pa_loaderID :: "string option"

datatype after_act =
    PublishFailed int EventSource failed_data string
  | PublishProxyError proxy_args

text \<open>
  A goroutine is what it does next. A request publisher of hop \<open>h\<close> waits for headers, waits for the
  response of the hop before it, reads the headers, publishes, closes \<open>requestPublished\<close> and ends its
  publication; a response publisher fetches the body, waits for headers, waits for its request,
  reads the headers, publishes, ends its publication and closes its channel.
\<close>

datatype goroutine =
    ReqWait request_key nat "nat option"
  | ReqRedirect request_key nat "nat option"
  | ReqRead request_key nat
  | ReqPublish request_key nat request_data
  | ReqClose request_key nat
  | ReqFinish request_key nat
  | RespFetch response_job
  | RespWait response_job "body_error + string"
  | RespOrder response_job "body_error + string"
  | RespRead response_job "body_error + string"
  | RespPublish response_job response_data EventSource
  | RespFinish response_job
  | RespClose response_job
  | AfterWait nat after_act
  | AfterAct nat after_act

text \<open>What the goroutine of the connection does next in the message it handles.\<close>

datatype handler =
    Idle
  | QueueRequest willBeSent string int targetInfo reqState bool int "nat option"
  | EmitRedirect willBeSent string int targetInfo reqState bool nat "nat option"
  | SpawnRequest string string nat "nat option" bool "nat option"
  | CountRequest nat
  | CheckProxyError responseReceived string int "reqState option"
  | UncountFinished string string int reqState targetInfo
  | EmitFinished string string int reqState targetInfo
  | PublishFailure loadingFailed string int "reqState option"
  | UncountFailed reqState
  | PublishNavigation pageFrame string targetInfo "nat option"
  | ResetNavigation pageFrame string targetInfo "nat option"
  | StopComputed string nat
  | ForgetSession string

text \<open>
  The worker that changes the capture (\<open>applyTelemetry\<close>) or replaces the connection (\<open>clearState\<close>, when
  the flag is set): it drains the publishers, stops the computed states and clears the tables.
\<close>

datatype worker =
    Serving
  | DrainPublishers bool
  | StopStates bool "nat list"

text \<open>The hop an event belongs to.\<close>

datatype subject = OfRequest nat | OfResponse nat | OfFailure nat | OfProxyError nat | OfNone

text \<open>
  Ghosts: \<open>mc_owner\<close>, the session each computed state was made for; \<open>mc_jobs\<close>, all calls of
  \<open>emitNetworkResponse\<close>; \<open>mc_redirects\<close>, which hops were told to wait for which of them; \<open>mc_log\<close>, the
  calls of \<open>publish\<close> in order. \<open>mc_closed\<close>: the channels of these calls that are closed.
\<close>

record netcap =
  mc_clock :: int
  mc_sessions :: "(string \<times> targetInfo) list"
  mc_computedStates :: "(string \<times> nat) list"
  mc_states :: "runtime list"
  mc_owner :: "string list"
  mc_pending :: "(request_key \<times> reqState) list"
  mc_exchanges :: "(request_key \<times> nat) list"
  mc_saturated :: bool
  mc_exheap :: "networkExchange list"
  mc_hopheap :: "networkHop list"
  mc_proxyLast :: "(string \<times> int) list"
  mc_gos :: "goroutine multiset"
  mc_closed :: "nat set"
  mc_jobs :: "response_job list"
  mc_handler :: handler
  mc_began :: int
  mc_worker :: worker
  mc_sweep :: "reqState multiset"
  mc_redirects :: "(nat \<times> nat) list"
  mc_log :: "(subject \<times> net_event) list"

definition new_netcap :: "int \<Rightarrow> netcap" where
  "new_netcap now =
     \<lparr>mc_clock = now, mc_sessions = [], mc_computedStates = [], mc_states = [], mc_owner = [],
      mc_pending = [], mc_exchanges = [], mc_saturated = False, mc_exheap = [], mc_hopheap = [],
      mc_proxyLast = [], mc_gos = {#}, mc_closed = {}, mc_jobs = [], mc_handler = Idle, mc_began = now,
      mc_worker = Serving, mc_sweep = {#}, mc_redirects = [], mc_log = []\<rparr>"

section \<open>Exchanges\<close>

definition maxNetworkExchanges :: nat where "maxNetworkExchanges = 8192"
definition maxExtraInfoPerExchange :: nat where "maxExtraInfoPerExchange = 64"

definition upd_exchange :: "nat \<Rightarrow> (networkExchange \<Rightarrow> networkExchange) \<Rightarrow> netcap \<Rightarrow> netcap" where
  "upd_exchange e f s = s\<lparr>mc_exheap := (mc_exheap s)[e := f (mc_exheap s ! e)]\<rparr>"

definition upd_hop :: "nat \<Rightarrow> (networkHop \<Rightarrow> networkHop) \<Rightarrow> netcap \<Rightarrow> netcap" where
  "upd_hop h f s = s\<lparr>mc_hopheap := (mc_hopheap s)[h := f (mc_hopheap s ! h)]\<rparr>"

definition exchangeLocked :: "request_key \<Rightarrow> netcap \<Rightarrow> nat option \<times> netcap" where
  "exchangeLocked key s =
     (case map_of (mc_exchanges s) key of
        Some e \<Rightarrow> (Some e, s)
      | None \<Rightarrow>
          if mc_saturated s then (None, s)
          else if maxNetworkExchanges \<le> length (mc_exchanges s) then (None, s\<lparr>mc_saturated := True\<rparr>)
          else let e = length (mc_exheap s) in
            (Some e, s\<lparr>mc_exheap := mc_exheap s @ [new_exchange (mc_clock s)],
                       mc_exchanges := AList.update key e (mc_exchanges s)\<rparr>))"

definition info_metadata :: "(string \<Rightarrow> string option) \<Rightarrow> (string \<Rightarrow> bool) \<Rightarrow> targetInfo \<Rightarrow> meta" where
  "info_metadata extension_host bundled info =
     targetMetadata extension_host bundled (ti_targetID info) (ti_targetType info) (ti_url info)"

definition cdp_source :: "meta option \<Rightarrow> EventSource" where
  "cdp_source md = \<lparr>src_Event = None, src_Kind = ''cdp'', src_Metadata = md\<rparr>"

definition queueNetworkRequestLocked ::
  "(string \<Rightarrow> string option) \<Rightarrow> (string \<Rightarrow> bool) \<Rightarrow> request_key \<Rightarrow> request_data \<Rightarrow> targetInfo \<Rightarrow> int \<Rightarrow>
     netcap \<Rightarrow> nat \<times> netcap" where
  "queueNetworkRequestLocked extension_host bundled key request info observedAt s =
     (let (found, s) = exchangeLocked key s;
          (e, s) = (case found of
             Some e \<Rightarrow> (e, s)
           | None \<Rightarrow> (length (mc_exheap s), s\<lparr>mc_exheap := mc_exheap s @ [new_exchange 0]\<rparr>));
          h = length (mc_hopheap s);
          registered = (map_of (mc_exchanges s) key = Some e);
          hop = \<lparr>hp_exchange = e, hp_request = request,
                 hp_source = cdp_source (Some (info_metadata extension_host bundled info)),
                 hp_observedAt = observedAt, hp_known = False, hp_hasExtra = False,
                 hp_requestHeaders = None, hp_requestReady = \<not> registered, hp_requestMatched = False,
                 hp_requestPublished = False, hp_took = False\<rparr>;
          s = s\<lparr>mc_hopheap := mc_hopheap s @ [hop]\<rparr>;
          s = (if registered then upd_exchange e (\<lambda>x. x\<lparr>ex_hops := ex_hops x @ [h]\<rparr>) s else s)
      in (h, upd_exchange e (\<lambda>x. x\<lparr>ex_publications := ex_publications x + 1\<rparr>) s))"

text \<open>\<open>matchHeaders\<close>: its loop over the hops, which stops at the first hop that has to wait.\<close>

fun match_hops :: "nat list \<Rightarrow> json option list \<Rightarrow> networkHop list \<Rightarrow> json option list \<times> networkHop list" where
  "match_hops [] requests heap = (requests, heap)"
| "match_hops (h # hs) requests heap =
     (let hop = heap ! h in
      if \<not> hp_known hop then (requests, heap)
      else if hp_requestMatched hop then match_hops hs requests heap
      else if hp_hasExtra hop then
        (case requests of
           [] \<Rightarrow> (requests, heap)
         | r # rs \<Rightarrow> match_hops hs rs
             (heap[h := hop\<lparr>hp_requestHeaders := r, hp_requestMatched := True, hp_requestReady := True,
                hp_took := True\<rparr>]))
      else match_hops hs requests (heap[h := hop\<lparr>hp_requestMatched := True, hp_requestReady := True\<rparr>]))"

definition matchHeaders :: "nat \<Rightarrow> netcap \<Rightarrow> netcap" where
  "matchHeaders e s =
     (let x = mc_exheap s ! e; (requests, heap) = match_hops (ex_hops x) (ex_requests x) (mc_hopheap s)
      in upd_exchange e (\<lambda>x. x\<lparr>ex_requests := requests\<rparr>) (s\<lparr>mc_hopheap := heap\<rparr>))"

definition handleRequestExtraInfo :: "extraInfo \<Rightarrow> string \<Rightarrow> netcap \<Rightarrow> netcap" where
  "handleRequestExtraInfo p sid s =
     (let (found, s) = exchangeLocked (sid, xi_RequestID p) s in
      case found of
        None \<Rightarrow> s
      | Some e \<Rightarrow>
          if maxExtraInfoPerExchange \<le> length (ex_requests (mc_exheap s ! e)) then s
          else matchHeaders e (upd_exchange e (\<lambda>x. x\<lparr>ex_requests := ex_requests x @ [xi_Headers p],
                 ex_received := ex_received x @ [xi_Headers p]\<rparr>) s))"

definition resolveNetworkHeadersLocked :: "nat option \<Rightarrow> bool \<Rightarrow> netcap \<Rightarrow> netcap" where
  "resolveNetworkHeadersLocked hop hasExtra s =
     (case hop of
        None \<Rightarrow> s
      | Some h \<Rightarrow> matchHeaders (hp_exchange (mc_hopheap s ! h))
          (upd_hop h (\<lambda>x. x\<lparr>hp_known := True, hp_hasExtra := hasExtra\<rparr>) s))"

definition cleanupNetworkExchangeLocked :: "request_key \<Rightarrow> nat \<Rightarrow> netcap \<Rightarrow> netcap" where
  "cleanupNetworkExchangeLocked key e s =
     (let x = mc_exheap s ! e in
      if ex_terminal x \<and> ex_publications x = 0 \<and> map_of (mc_exchanges s) key = Some e
      then s\<lparr>mc_exchanges := AList.delete key (mc_exchanges s)\<rparr> else s)"

definition hop_key :: "networkHop \<Rightarrow> request_key" where
  "hop_key x = (qd_SessionId (hp_request x), qd_RequestId (hp_request x))"

definition resolveFailedHeadersLocked :: "nat option \<Rightarrow> netcap \<Rightarrow> netcap" where
  "resolveFailedHeadersLocked hop s =
     (case hop of
        None \<Rightarrow> s
      | Some h \<Rightarrow>
          let e = hp_exchange (mc_hopheap s ! h);
              s = upd_exchange e (\<lambda>x. x\<lparr>ex_terminal := True\<rparr>) s;
              s = (if hp_known (mc_hopheap s ! h) then s
                   else upd_hop h (\<lambda>x. x\<lparr>hp_known := True, hp_hasExtra := True\<rparr>) s);
              s = matchHeaders e s
          in cleanupNetworkExchangeLocked (hop_key (mc_hopheap s ! h)) e s)"

definition finishNetworkPublication :: "request_key \<Rightarrow> nat \<Rightarrow> netcap \<Rightarrow> netcap" where
  "finishNetworkPublication key e s =
     cleanupNetworkExchangeLocked key e
       (upd_exchange e (\<lambda>x. x\<lparr>ex_publications := ex_publications x - 1\<rparr>) s)"

section \<open>Accounting\<close>

definition upd_state :: "nat \<Rightarrow> (runtime \<Rightarrow> runtime) \<Rightarrow> netcap \<Rightarrow> netcap" where
  "upd_state c f s = s\<lparr>mc_states := (mc_states s)[c := f (mc_states s ! c)]\<rparr>"

definition state_navSeq :: "netcap \<Rightarrow> nat \<Rightarrow> int" where
  "state_navSeq s c = currentNavSeq (rt_state (mc_states s ! c))"

definition finishNetworkRequest :: "reqState \<Rightarrow> netcap \<Rightarrow> netcap" where
  "finishNetworkRequest st s =
     (case ns_countedState st of
        None \<Rightarrow> s
      | Some c \<Rightarrow> if ns_countedNavSeq st = state_navSeq s c then upd_state c onLoadingFinished s else s)"

definition pendingRequestTTL :: int where "pendingRequestTTL = 300000000"

definition expired :: "int \<Rightarrow> int \<Rightarrow> bool" where
  "expired now addedAt \<longleftrightarrow> pendingRequestTTL < now - addedAt"

definition takeExpiredNetworkRequests :: "int \<Rightarrow> netcap \<Rightarrow> netcap" where
  "takeExpiredNetworkRequests now s =
     s\<lparr>mc_sweep := mc_sweep s + mset (map snd (filter (\<lambda>(k, st). expired now (ns_addedAt st)) (mc_pending s))),
       mc_pending := filter (\<lambda>(k, st). \<not> expired now (ns_addedAt st)) (mc_pending s),
       mc_exchanges := filter (\<lambda>(k, e). \<not> expired now (ex_addedAt (mc_exheap s ! e))) (mc_exchanges s)\<rparr>"

section \<open>Publishing\<close>

definition session_info :: "netcap \<Rightarrow> string \<Rightarrow> targetInfo" where
  "session_info s sid = (case map_of (mc_sessions s) sid of Some i \<Rightarrow> i | None \<Rightarrow> zero_targetInfo)"

definition publishEventAt ::
  "(string \<Rightarrow> string option) \<Rightarrow> (string \<Rightarrow> bool) \<Rightarrow> subject \<Rightarrow> int \<Rightarrow> string \<Rightarrow> category \<Rightarrow> EventSource \<Rightarrow>
     string \<Rightarrow> net_payload \<Rightarrow> string \<Rightarrow> netcap \<Rightarrow> netcap" where
  "publishEventAt extension_host bundled subj observedAt eventType cat source sourceEvent data sid s =
     (let src = source\<lparr>src_Event := Some sourceEvent\<rparr>;
          src = (if sid = [] then src
                 else let md = put_all (case src_Metadata src of Some m \<Rightarrow> m | None \<Rightarrow> []) [];
                          md = put ''cdp_session_id'' sid md;
                          md = (if map_of md ''target_id'' \<noteq> None then md
                                else put_all (info_metadata extension_host bundled (session_info s sid)) md)
                   in src\<lparr>src_Metadata := Some md\<rparr>)
      in s\<lparr>mc_log := mc_log s @ [(subj, \<lparr>nv_Ts = observedAt, nv_Type = eventType, nv_Category = cat,
             nv_Source = src, nv_Data = data\<rparr>)]\<rparr>)"

definition opt_str :: "string \<Rightarrow> string option" where
  "opt_str v = (if v = [] then None else Some v)"

definition proxyErrorMinInterval :: int where "proxyErrorMinInterval = 1000000"

definition rate_key :: "string \<Rightarrow> string \<Rightarrow> string \<Rightarrow> string" where
  "rate_key sid code resourceType = sid @ '':'' @ code @ '':'' @ resourceType"

definition proxyErrorRateLimited :: "string \<Rightarrow> string \<Rightarrow> string \<Rightarrow> netcap \<Rightarrow> bool \<times> netcap" where
  "proxyErrorRateLimited sid code resourceType s =
     (let now = mc_clock s; key = rate_key sid code resourceType in
      case map_of (mc_proxyLast s) key of
        Some prev \<Rightarrow> if now - prev < proxyErrorMinInterval then (True, s)
                      else (False, s\<lparr>mc_proxyLast := AList.update key now (mc_proxyLast s)\<rparr>)
      | None \<Rightarrow> (False, s\<lparr>mc_proxyLast := AList.update key now (mc_proxyLast s)\<rparr>))"

text \<open>The limiter and the publication that follows it are one step.\<close>

definition publishProxyError ::
  "(string \<Rightarrow> string option) \<Rightarrow> (string \<Rightarrow> bool) \<Rightarrow> subject \<Rightarrow> proxy_args \<Rightarrow> netcap \<Rightarrow> netcap" where
  "publishProxyError extension_host bundled subj a s =
     (let (code, rawCode) = published_code (pa_code a);
          (limited, s) = proxyErrorRateLimited (pa_sessionID a) code (pa_resourceType a) s
      in if limited then s
         else publishEventAt extension_host bundled subj (pa_observedAt a) ''proxy_error'' Network (pa_source a)
                ''Network.responseReceived''
                (ProxyData \<lparr>pd_SessionId = pa_sessionID a, pd_TargetId = ti_targetID (pa_info a),
                   pd_TargetType = ti_targetType (pa_info a), pd_NavSeq = pa_navSeq a,
                   pd_RequestId = pa_requestID a, pd_Url = pa_url a, pd_FrameId = pa_frameID a,
                   pd_LoaderId = pa_loaderID a, pd_Method = opt_str (pa_method a), pd_Status = pa_status a,
                   pd_Code = code, pd_RawCode = rawCode, pd_ResourceType = opt_str (pa_resourceType a)\<rparr>)
                (pa_sessionID a) s)"

definition run_after ::
  "(string \<Rightarrow> string option) \<Rightarrow> (string \<Rightarrow> bool) \<Rightarrow> nat option \<Rightarrow> after_act \<Rightarrow> netcap \<Rightarrow> netcap" where
  "run_after extension_host bundled hop act s =
     (case act of
        PublishFailed observedAt source data sid \<Rightarrow>
          publishEventAt extension_host bundled (case hop of Some h \<Rightarrow> OfFailure h | None \<Rightarrow> OfNone) observedAt
            ''network_loading_failed'' Network source ''Network.loadingFailed'' (FailedData data) sid s
      | PublishProxyError a \<Rightarrow>
          publishProxyError extension_host bundled (case hop of Some h \<Rightarrow> OfProxyError h | None \<Rightarrow> OfNone) a s)"

definition spawn :: "goroutine \<Rightarrow> netcap \<Rightarrow> netcap" where
  "spawn g s = s\<lparr>mc_gos := add_mset g (mc_gos s)\<rparr>"

definition publishAfterNetworkRequest ::
  "(string \<Rightarrow> string option) \<Rightarrow> (string \<Rightarrow> bool) \<Rightarrow> nat option \<Rightarrow> after_act \<Rightarrow> netcap \<Rightarrow> netcap" where
  "publishAfterNetworkRequest extension_host bundled hop act s =
     (case hop of
        None \<Rightarrow> run_after extension_host bundled None act s
      | Some h \<Rightarrow> spawn (AfterWait h act) s)"

text \<open>\<open>emitNetworkResponse\<close>, up to the start of its goroutine; the channel is named by the job.\<close>

definition emitNetworkResponse ::
  "int \<Rightarrow> request_key \<Rightarrow> reqState \<Rightarrow> targetInfo \<Rightarrow> bool \<Rightarrow> netcap \<Rightarrow> nat \<times> netcap" where
  "emitNetworkResponse observedAt key st info redirect s =
     (let j = length (mc_jobs s);
          job = \<lparr>rj_id = j, rj_observedAt = observedAt, rj_key = key, rj_state = st, rj_info = info,
                 rj_redirect = redirect\<rparr>;
          s = s\<lparr>mc_jobs := mc_jobs s @ [job]\<rparr>;
          s = (case ns_hop st of
             None \<Rightarrow> s
           | Some h \<Rightarrow> upd_exchange (hp_exchange (mc_hopheap s ! h))
               (\<lambda>x. x\<lparr>ex_publications := ex_publications x + 1, ex_terminal := ex_terminal x \<or> \<not> redirect\<rparr>) s)
      in (j, spawn (RespFetch job) s))"

section \<open>Publishers\<close>

definition response_payload :: "response_job \<Rightarrow> body_error + string \<Rightarrow> members option \<Rightarrow> response_data" where
  "response_payload j body requestHeaders =
     (let st = rj_state j in
      \<lparr>sd_SessionId = fst (rj_key j), sd_TargetId = ti_targetID (rj_info j),
       sd_TargetType = ti_targetType (rj_info j), sd_FrameId = Some (ns_frameID st),
       sd_LoaderId = Some (ns_loaderID st), sd_Url = Some (ns_url st), sd_NavSeq = ns_navSeq st,
       sd_RequestId = snd (rj_key j), sd_Method = ns_method st, sd_Status = ns_status st,
       sd_Headers = fst (headers_decode (ns_resHeaders st)), sd_StatusText = opt_str (ns_statusText st),
       sd_MimeType = opt_str (ns_mimeType st), sd_ResourceType = opt_str (ns_resourceType st),
       sd_Body = (case body of Inr b \<Rightarrow> opt_str b | Inl _ \<Rightarrow> None),
       sd_BodyError = (case body of Inl e \<Rightarrow> Some e | Inr _ \<Rightarrow> None),
       sd_RequestHeaders = requestHeaders\<rparr>)"

definition job_subject :: "response_job \<Rightarrow> subject" where
  "job_subject j = (case ns_hop (rj_state j) of Some h \<Rightarrow> OfResponse h | None \<Rightarrow> OfNone)"

text \<open>
  One step of a goroutine: the state and what is left of it; \<open>None\<close> when it has to wait. \<open>timer\<close>: its
  timer, or the cancellation of its context, ends the wait for headers; \<open>reply\<close>: what Chrome answers
  to the request for the body.
\<close>

fun run_go ::
  "(string \<Rightarrow> string option) \<Rightarrow> (string \<Rightarrow> bool) \<Rightarrow> string + json \<Rightarrow> bool \<Rightarrow> goroutine \<Rightarrow> netcap \<Rightarrow>
     (netcap \<times> goroutine option) option" where
  "run_go eh b reply timer (ReqWait key h rp) s =
     (if hp_requestReady (mc_hopheap s ! h) \<or> timer then Some (s, Some (ReqRedirect key h rp)) else None)"
| "run_go eh b reply timer (ReqRedirect key h rp) s =
     (case rp of
        None \<Rightarrow> Some (s, Some (ReqRead key h))
      | Some j \<Rightarrow> if j \<in> mc_closed s then Some (s, Some (ReqRead key h)) else None)"
| "run_go eh b reply timer (ReqRead key h) s =
     (let x = mc_hopheap s ! h in
      Some (s, Some (ReqPublish key h
        (case headers_found (hp_requestHeaders x) of
           None \<Rightarrow> hp_request x
         | Some hdrs \<Rightarrow> (hp_request x)\<lparr>qd_Headers := Some hdrs\<rparr>))))"
| "run_go eh b reply timer (ReqPublish key h payload) s =
     (let x = mc_hopheap s ! h in
      Some (publishEventAt eh b (OfRequest h) (hp_observedAt x) ''network_request'' Network (hp_source x)
              ''Network.requestWillBeSent'' (RequestData payload) (fst key) s, Some (ReqClose key h)))"
| "run_go eh b reply timer (ReqClose key h) s =
     Some (upd_hop h (\<lambda>x. x\<lparr>hp_requestPublished := True\<rparr>) s, Some (ReqFinish key h))"
| "run_go eh b reply timer (ReqFinish key h) s =
     Some (finishNetworkPublication key (hp_exchange (mc_hopheap s ! h)) s, None)"
| "run_go eh b reply timer (RespFetch j) s =
     (let st = rj_state j;
          body = (if rj_redirect j then Inr [] else fetchResponseBody reply (ns_resourceType st) (ns_mimeType st))
      in Some (s, Some (case ns_hop st of None \<Rightarrow> RespRead j body | Some _ \<Rightarrow> RespWait j body)))"
| "run_go eh b reply timer (RespWait j body) s =
     (case ns_hop (rj_state j) of
        None \<Rightarrow> None
      | Some h \<Rightarrow> if hp_requestReady (mc_hopheap s ! h) \<or> timer then Some (s, Some (RespOrder j body)) else None)"
| "run_go eh b reply timer (RespOrder j body) s =
     (case ns_hop (rj_state j) of
        None \<Rightarrow> None
      | Some h \<Rightarrow> if hp_requestPublished (mc_hopheap s ! h) then Some (s, Some (RespRead j body)) else None)"
| "run_go eh b reply timer (RespRead j body) s =
     (case ns_hop (rj_state j) of
        None \<Rightarrow> Some (s, Some (RespPublish j (response_payload j body None)
                  (cdp_source (Some (info_metadata eh b (rj_info j))))))
      | Some h \<Rightarrow> Some (s, Some (RespPublish j
          (response_payload j body (headers_found (hp_requestHeaders (mc_hopheap s ! h))))
          (hp_source (mc_hopheap s ! h)))))"
| "run_go eh b reply timer (RespPublish j payload source) s =
     Some (publishEventAt eh b (job_subject j) (rj_observedAt j) ''network_response'' Network source
             (if rj_redirect j then ''Network.requestWillBeSent'' else ''Network.loadingFinished'')
             (ResponseData payload) (fst (rj_key j)) s, Some (RespFinish j))"
| "run_go eh b reply timer (RespFinish j) s =
     (case ns_hop (rj_state j) of
        None \<Rightarrow> Some (s, Some (RespClose j))
      | Some h \<Rightarrow> Some (finishNetworkPublication (rj_key j) (hp_exchange (mc_hopheap s ! h)) s, Some (RespClose j)))"
| "run_go eh b reply timer (RespClose j) s = Some (s\<lparr>mc_closed := insert (rj_id j) (mc_closed s)\<rparr>, None)"
| "run_go eh b reply timer (AfterWait h act) s =
     (if hp_requestPublished (mc_hopheap s ! h) then Some (s, Some (AfterAct h act)) else None)"
| "run_go eh b reply timer (AfterAct h act) s = Some (run_after eh b (Some h) act s, None)"

section \<open>Handlers\<close>

definition computedFor :: "netcap \<Rightarrow> string \<Rightarrow> nat option" where
  "computedFor s sid = map_of (mc_computedStates s) sid"

definition set_pending :: "request_key \<Rightarrow> reqState \<Rightarrow> netcap \<Rightarrow> netcap" where
  "set_pending key st s = s\<lparr>mc_pending := AList.update key st (mc_pending s)\<rparr>"

definition pending_of :: "request_key \<Rightarrow> netcap \<Rightarrow> reqState" where
  "pending_of key s = (case map_of (mc_pending s) key of Some st \<Rightarrow> st | None \<Rightarrow> zero_reqState)"

text \<open>\<open>handleNetworkRequest\<close> up to the end of its first critical section.\<close>

definition handleNetworkRequest :: "willBeSent \<Rightarrow> string \<Rightarrow> netcap \<Rightarrow> netcap" where
  "handleNetworkRequest p sid s =
     (let observedAt = mc_clock s;
          info = session_info s sid;
          cs = computedFor s sid;
          countedNavSeq = (case cs of None \<Rightarrow> - 1 | Some c \<Rightarrow> state_navSeq s c);
          navSeq = (case cs of None \<Rightarrow> 0 | Some c \<Rightarrow> state_navSeq s c);
          key = (sid, wb_RequestID p);
          existing = pending_of key s;
          isRedirect = (map_of (mc_pending s) key \<noteq> None);
          addedAt = (if isRedirect then ns_addedAt existing else mc_clock s);
          navSeq = (if isRedirect then ns_navSeq existing else navSeq);
          countedNavSeq = (if isRedirect then ns_countedNavSeq existing else countedNavSeq);
          cs = (if isRedirect then ns_countedState existing else cs);
          s = (if isRedirect then resolveNetworkHeadersLocked (ns_hop existing) (wb_RedirectHasExtraInfo p) s else s);
          rq = wb_Request p;
          s = set_pending key \<lparr>ns_sessionID = sid, ns_method = rq_Method rq, ns_url = rq_URL rq,
                ns_headers = rq_Headers rq, ns_postData = rq_PostData rq, ns_resourceType = wb_Type p,
                ns_loaderID = wb_LoaderID p, ns_frameID = wb_FrameID p, ns_navSeq = navSeq,
                ns_countedNavSeq = countedNavSeq, ns_countedState = cs, ns_status = 0, ns_statusText = [],
                ns_resHeaders = None, ns_mimeType = [], ns_addedAt = addedAt, ns_hop = None\<rparr> s
      in s\<lparr>mc_handler := QueueRequest p sid observedAt info existing isRedirect navSeq cs\<rparr>)"

definition request_payload ::
  "willBeSent \<Rightarrow> string \<Rightarrow> targetInfo \<Rightarrow> reqState \<Rightarrow> bool \<Rightarrow> int \<Rightarrow> request_data" where
  "request_payload p sid info existing isRedirect navSeq =
     (let rq = wb_Request p in
      \<lparr>qd_SessionId = sid, qd_TargetId = ti_targetID info, qd_TargetType = ti_targetType info,
       qd_FrameId = Some (wb_FrameID p), qd_LoaderId = Some (wb_LoaderID p), qd_Url = Some (rq_URL rq),
       qd_NavSeq = navSeq, qd_RequestId = wb_RequestID p, qd_Method = rq_Method rq,
       qd_DocumentUrl = wb_DocumentURL p, qd_Headers = fst (headers_decode (rq_Headers rq)),
       qd_InitiatorType = initiator_type (wb_Initiator p), qd_PostData = opt_str (rq_PostData rq),
       qd_ResourceType = opt_str (wb_Type p), qd_IsRedirect = (if isRedirect then Some True else None),
       qd_RedirectUrl = (if isRedirect then Some (ns_url existing) else None)\<rparr>)"

text \<open>The redirect response of a message, when it has one that decodes.\<close>

definition redirect_response :: "willBeSent \<Rightarrow> bool \<Rightarrow> cdpNetworkResponse option" where
  "redirect_response p isRedirect =
     (if \<not> isRedirect then None
      else case wb_RedirectResponse p of
        None \<Rightarrow> None | Some v \<Rightarrow> decode_struct response_fields v zero_response)"

definition with_response :: "cdpNetworkResponse \<Rightarrow> reqState \<Rightarrow> reqState" where
  "with_response r st = st\<lparr>ns_status := rs_Status r, ns_statusText := rs_StatusText r,
     ns_resHeaders := rs_Headers r, ns_mimeType := rs_MimeType r\<rparr>"

definition handleResponseReceived :: "responseReceived \<Rightarrow> string \<Rightarrow> netcap \<Rightarrow> netcap" where
  "handleResponseReceived p sid s =
     (let key = (sid, rr_RequestID p) in
      case map_of (mc_pending s) key of
        None \<Rightarrow> s\<lparr>mc_handler := CheckProxyError p sid (mc_clock s) None\<rparr>
      | Some st \<Rightarrow>
          let st = with_response (rr_Response p) st
          in (set_pending key st (resolveNetworkHeadersLocked (ns_hop st) (rr_HasExtraInfo p) s))
               \<lparr>mc_handler := CheckProxyError p sid (mc_clock s) (Some st)\<rparr>)"

text \<open>The codes \<open>handleResponseReceived\<close> may report, by the header its map iteration meets first.\<close>

definition response_codes :: "responseReceived \<Rightarrow> string list" where
  "response_codes p =
     (if rs_Status (rr_Response p) = 502 \<or> rs_Status (rr_Response p) = 403
      then proxyErrorCodes (rs_Headers (rr_Response p)) else [])"

definition hop_source :: "netcap \<Rightarrow> nat option \<Rightarrow> EventSource" where
  "hop_source s hop = (case hop of None \<Rightarrow> cdp_source None | Some h \<Rightarrow> hp_source (mc_hopheap s ! h))"

definition fallback_navSeq :: "netcap \<Rightarrow> string \<Rightarrow> int" where
  "fallback_navSeq s sid = (case computedFor s sid of None \<Rightarrow> 0 | Some c \<Rightarrow> state_navSeq s c)"

definition proxy_error_args ::
  "responseReceived \<Rightarrow> string \<Rightarrow> int \<Rightarrow> reqState option \<Rightarrow> string \<Rightarrow> netcap \<Rightarrow> proxy_args" where
  "proxy_error_args p sid observedAt found code s =
     (let st = (case found of Some st \<Rightarrow> st | None \<Rightarrow> zero_reqState); r = rr_Response p in
      \<lparr>pa_observedAt = observedAt, pa_source = hop_source s (ns_hop st), pa_info = session_info s sid,
       pa_sessionID = sid, pa_requestID = rr_RequestID p, pa_code = code, pa_status = rs_Status r,
       pa_navSeq = (if found \<noteq> None then ns_navSeq st else fallback_navSeq s sid),
       pa_method = ns_method st,
       pa_resourceType = (if found \<noteq> None then ns_resourceType st else rr_Type p),
       pa_url = opt_str (if found \<noteq> None then ns_url st else rs_URL r),
       pa_frameID = opt_str (if found \<noteq> None then ns_frameID st else rr_FrameID p),
       pa_loaderID = opt_str (if found \<noteq> None then ns_loaderID st else rr_LoaderID p)\<rparr>)"

definition handleLoadingFinished :: "string \<Rightarrow> string \<Rightarrow> netcap \<Rightarrow> netcap" where
  "handleLoadingFinished requestID sid s =
     (let key = (sid, requestID) in
      case map_of (mc_pending s) key of
        None \<Rightarrow> s
      | Some st \<Rightarrow> s\<lparr>mc_pending := AList.delete key (mc_pending s),
                      mc_handler := UncountFinished sid requestID (mc_clock s) st (session_info s sid)\<rparr>)"

definition handleLoadingFailed :: "loadingFailed \<Rightarrow> string \<Rightarrow> netcap \<Rightarrow> netcap" where
  "handleLoadingFailed p sid s =
     (let key = (sid, lf_RequestID p); found = map_of (mc_pending s) key;
          s' = (case found of
             None \<Rightarrow> s
           | Some st \<Rightarrow> resolveFailedHeadersLocked (ns_hop st) (s\<lparr>mc_pending := AList.delete key (mc_pending s)\<rparr>))
      in s'\<lparr>mc_handler := PublishFailure p sid (mc_clock s) found\<rparr>)"

definition failed_payload :: "loadingFailed \<Rightarrow> string \<Rightarrow> reqState option \<Rightarrow> netcap \<Rightarrow> failed_data" where
  "failed_payload p sid found s =
     (let info = session_info s sid in
      \<lparr>fd_SessionId = sid, fd_TargetId = ti_targetID info, fd_TargetType = ti_targetType info,
       fd_NavSeq = (case found of Some st \<Rightarrow> ns_navSeq st | None \<Rightarrow> fallback_navSeq s sid),
       fd_RequestId = lf_RequestID p, fd_ErrorText = lf_ErrorText p, fd_Canceled = lf_Canceled p,
       fd_Url = map_option ns_url found, fd_LoaderId = map_option ns_loaderID found,
       fd_FrameId = map_option ns_frameID found,
       fd_ResourceType = (case found of Some st \<Rightarrow> opt_str (ns_resourceType st) | None \<Rightarrow> None)\<rparr>)"

definition handleFrameNavigated :: "pageFrame \<Rightarrow> string \<Rightarrow> netcap \<Rightarrow> netcap" where
  "handleFrameNavigated f sid s =
     (let info = session_info s sid; tracked = (map_of (mc_sessions s) sid \<noteq> None);
          own = (tracked \<and> (pf_ParentID f = [] \<or> pf_ID f = ti_targetID info));
          info = (if own then info\<lparr>ti_url := pf_URL f\<rparr> else info);
          f = (if ti_targetType info = ''iframe'' \<and> pf_ParentID f = []
               then f\<lparr>pf_ParentID := ti_parentFrameID info\<rparr> else f)
      in s\<lparr>mc_sessions := (if own then AList.update sid info (mc_sessions s) else mc_sessions s),
           mc_handler := PublishNavigation f sid info (computedFor s sid)\<rparr>)"

text \<open>The part of \<open>handleFrameNavigated\<close> under the registry lock: which requests the new document counts.\<close>

definition recount :: "string \<Rightarrow> string \<Rightarrow> nat option \<Rightarrow> int \<Rightarrow> reqState \<Rightarrow> reqState" where
  "recount sid loaderID cs nextSeq st =
     (if ns_sessionID st \<noteq> sid then st
      else if cs \<noteq> None \<and> ns_loaderID st = loaderID
      then st\<lparr>ns_countedNavSeq := nextSeq, ns_countedState := cs\<rparr>
      else st\<lparr>ns_countedNavSeq := - 1\<rparr>)"

definition reset_navigation ::
  "(string \<Rightarrow> string option) \<Rightarrow> (string \<Rightarrow> bool) \<Rightarrow> pageFrame \<Rightarrow> string \<Rightarrow> targetInfo \<Rightarrow> nat option \<Rightarrow> netcap \<Rightarrow> netcap"
where
  "reset_navigation extension_host bundled f sid info cs s =
     (let nextSeq = (case cs of None \<Rightarrow> - 1 | Some c \<Rightarrow> state_navSeq s c + 1);
          inflight = length (filter (\<lambda>(k, st). ns_sessionID st = sid \<and> cs \<noteq> None \<and> ns_loaderID st = pf_LoaderID f)
                       (mc_pending s));
          s = s\<lparr>mc_pending := map (\<lambda>(k, st). (k, recount sid (pf_LoaderID f) cs nextSeq st)) (mc_pending s)\<rparr>
      in case cs of
           None \<Rightarrow> s
         | Some c \<Rightarrow> upd_state c (resetOnNavigation extension_host bundled (int inflight)
             \<lparr>nc_sessionID = sid, nc_targetID = ti_targetID info, nc_targetType = ti_targetType info,
              nc_frameID = pf_ID f, nc_loaderID = pf_LoaderID f, nc_url = pf_URL f\<rparr>) s)"

definition navigation_payload :: "pageFrame \<Rightarrow> string \<Rightarrow> targetInfo \<Rightarrow> navigation_data" where
  "navigation_payload f sid info =
     \<lparr>vd_SessionId = sid, vd_TargetId = ti_targetID info, vd_TargetType = ti_targetType info,
      vd_Url = pf_URL f, vd_FrameId = pf_ID f, vd_ParentFrameId = pf_ParentID f, vd_LoaderId = pf_LoaderID f\<rparr>"

text \<open>A message that passed the filters of \<open>handleSurfaceEvent\<close> and \<open>dispatchEvent\<close>.\<close>

fun receive :: "net_message \<Rightarrow> string \<Rightarrow> netcap \<Rightarrow> netcap" where
  "receive (RequestWillBeSent p) sid s = handleNetworkRequest p sid s"
| "receive (RequestExtraInfo p) sid s = handleRequestExtraInfo p sid s"
| "receive (ResponseReceived p) sid s = handleResponseReceived p sid s"
| "receive (LoadingFinished requestID) sid s = handleLoadingFinished requestID sid s"
| "receive (LoadingFailed p) sid s = handleLoadingFailed p sid s"
| "receive (FrameNavigated f) sid s = handleFrameNavigated f sid s"

definition handleDetachedFromTarget :: "string \<Rightarrow> netcap \<Rightarrow> netcap" where
  "handleDetachedFromTarget sid s =
     s\<lparr>mc_sessions := AList.delete sid (mc_sessions s),
       mc_computedStates := AList.delete sid (mc_computedStates s),
       mc_handler := (case computedFor s sid of
          Some c \<Rightarrow> StopComputed sid c | None \<Rightarrow> ForgetSession sid)\<rparr>"

text \<open>
  The next critical section of the message being handled; \<open>code\<close> is the header value a branded
  response is reported with, if it has one.
\<close>

fun run_handler ::
  "(string \<Rightarrow> string option) \<Rightarrow> (string \<Rightarrow> bool) \<Rightarrow> string option \<Rightarrow> handler \<Rightarrow> netcap \<Rightarrow> netcap" where
  "run_handler eh b code Idle s = s"
| "run_handler eh b code (QueueRequest p sid at info existing isRedirect navSeq cs) s =
     (let key = (sid, wb_RequestID p);
          payload = request_payload p sid info existing isRedirect navSeq;
          requestInfo = (if wb_DocumentURL p \<noteq> [] then info\<lparr>ti_url := wb_DocumentURL p\<rparr> else info);
          (h, s) = queueNetworkRequestLocked eh b key payload requestInfo at s;
          s = set_pending key ((pending_of key s)\<lparr>ns_hop := Some h\<rparr>) s
      in s\<lparr>mc_handler := EmitRedirect p sid at info existing isRedirect h cs\<rparr>)"
| "run_handler eh b code (EmitRedirect p sid at info existing isRedirect h cs) s =
     (case redirect_response p isRedirect of
        None \<Rightarrow> s\<lparr>mc_handler := SpawnRequest sid (wb_RequestID p) h None isRedirect cs\<rparr>
      | Some r \<Rightarrow>
          let (j, s) = emitNetworkResponse at (sid, wb_RequestID p) (with_response r existing) info True s
          in s\<lparr>mc_redirects := (h, j) # mc_redirects s,
               mc_handler := SpawnRequest sid (wb_RequestID p) h (Some j) isRedirect cs\<rparr>)"
| "run_handler eh b code (SpawnRequest sid rid h rp isRedirect cs) s =
     (spawn (ReqWait (sid, rid) h rp) s)
       \<lparr>mc_handler := (case cs of Some c \<Rightarrow> if isRedirect then Idle else CountRequest c | None \<Rightarrow> Idle)\<rparr>"
| "run_handler eh b code (CountRequest c) s = (upd_state c onRequest s)\<lparr>mc_handler := Idle\<rparr>"
| "run_handler eh b code (CheckProxyError p sid at found) s =
     (case code of
        None \<Rightarrow> s\<lparr>mc_handler := Idle\<rparr>
      | Some code \<Rightarrow>
          (publishAfterNetworkRequest eh b (case found of Some st \<Rightarrow> ns_hop st | None \<Rightarrow> None)
             (PublishProxyError (proxy_error_args p sid at found code s)) s)\<lparr>mc_handler := Idle\<rparr>)"
| "run_handler eh b code (UncountFinished sid rid at st info) s =
     (finishNetworkRequest st s)\<lparr>mc_handler := EmitFinished sid rid at st info\<rparr>"
| "run_handler eh b code (EmitFinished sid rid at st info) s =
     (snd (emitNetworkResponse at (sid, rid) st info False s))\<lparr>mc_handler := Idle\<rparr>"
| "run_handler eh b code (PublishFailure p sid at found) s =
     (let hop = (case found of Some st \<Rightarrow> ns_hop st | None \<Rightarrow> None) in
      (publishAfterNetworkRequest eh b hop
         (PublishFailed at (hop_source s hop) (failed_payload p sid found s) sid) s)
        \<lparr>mc_handler := (case found of Some st \<Rightarrow> UncountFailed st | None \<Rightarrow> Idle)\<rparr>)"
| "run_handler eh b code (UncountFailed st) s = (finishNetworkRequest st s)\<lparr>mc_handler := Idle\<rparr>"
| "run_handler eh b code (PublishNavigation f sid info cs) s =
     (publishEventAt eh b OfNone (mc_clock s) ''page_navigation'' Page (cdp_source None) ''Page.frameNavigated''
        (NavigationData (navigation_payload f sid info)) sid s)
       \<lparr>mc_handler := (if pf_ParentID f = [] \<and> ti_targetType info = ''page''
                       then ResetNavigation f sid info cs else Idle)\<rparr>"
| "run_handler eh b code (ResetNavigation f sid info cs) s =
     (reset_navigation eh b f sid info cs s)\<lparr>mc_handler := Idle\<rparr>"
| "run_handler eh b code (StopComputed sid c) s =
     (upd_state c computed_stop s)\<lparr>mc_handler := ForgetSession sid\<rparr>"
| "run_handler eh b code (ForgetSession sid) s =
     s\<lparr>mc_pending := filter (\<lambda>(k, st). ns_sessionID st \<noteq> sid) (mc_pending s),
       mc_exchanges := filter (\<lambda>(k, e). fst k \<noteq> sid) (mc_exchanges s), mc_handler := Idle\<rparr>"

text \<open>Which codes the next section may take.\<close>

definition code_choice :: "handler \<Rightarrow> string option \<Rightarrow> bool" where
  "code_choice pc code \<longleftrightarrow>
     (case pc of
        CheckProxyError p sid at found \<Rightarrow>
          (case code of None \<Rightarrow> response_codes p = [] | Some c \<Rightarrow> c \<in> set (response_codes p))
      | _ \<Rightarrow> code = None)"

section \<open>Sessions and captures\<close>

definition attach_session :: "string \<Rightarrow> targetInfo \<Rightarrow> netcap \<Rightarrow> netcap" where
  "attach_session sid info s =
     (if map_of (mc_sessions s) sid \<noteq> None then s
      else s\<lparr>mc_sessions := AList.update sid info (mc_sessions s)\<rparr>)"

definition target_info_changed :: "string \<Rightarrow> string \<Rightarrow> string \<Rightarrow> netcap \<Rightarrow> netcap" where
  "target_info_changed tid url title s =
     s\<lparr>mc_sessions := map (\<lambda>(k, i). (k, if ti_targetID i = tid then i\<lparr>ti_url := url, ti_title := title\<rparr> else i))
         (mc_sessions s)\<rparr>"

definition preparePageCapture ::
  "(string \<Rightarrow> string option) \<Rightarrow> (string \<Rightarrow> bool) \<Rightarrow> string \<Rightarrow> targetInfo \<Rightarrow> netcap \<Rightarrow> netcap" where
  "preparePageCapture extension_host bundled sid info s =
     (if ti_targetType info \<noteq> ''page'' \<or> map_of (mc_sessions s) sid = None \<or> computedFor s sid \<noteq> None
      then s
      else publishEventAt extension_host bundled OfNone (mc_clock s) ''page_tab_opened'' Page (cdp_source None)
             ''Target.attachedToTarget''
             (TabData \<lparr>td_TargetId = ti_targetID info, td_TargetType = ti_targetType info, td_Url = ti_url info,
                td_Title = ti_title info, td_OpenerId = ti_openerID info\<rparr>) sid
             (s\<lparr>mc_computedStates := AList.update sid (length (mc_states s)) (mc_computedStates s),
                mc_states := mc_states s @ [new_runtime], mc_owner := mc_owner s @ [sid]\<rparr>))"

definition clear_tables :: "netcap \<Rightarrow> netcap" where
  "clear_tables s = s\<lparr>mc_pending := [], mc_exchanges := [], mc_saturated := False, mc_proxyLast := [], mc_worker := Serving\<rparr>"

text \<open>The handler holds the capture lock while it dispatches a message.\<close>

fun dispatching :: "handler \<Rightarrow> bool" where
  "dispatching Idle = False"
| "dispatching (StopComputed sid c) = False"
| "dispatching (ForgetSession sid) = False"
| "dispatching _ = True"

text \<open>
  The clock moves freely, except that a message is handled in less than the five minutes after
  which a request expires. The timers and publications of computed states, and the handlers of page
  events, run at any time: they are the steps of \<open>computed_step\<close> that leave the accounting alone.
\<close>

definition accounting :: "runtime \<Rightarrow> bool \<times> int \<times> int" where
  "accounting r = (cs_dead (rt_state r), cs_navSeq (rt_state r), cs_netPending (rt_state r))"

text \<open>Steps of work already under way.\<close>

inductive net_internal :: "(string \<Rightarrow> string option) \<Rightarrow> (string \<Rightarrow> bool) \<Rightarrow> netcap \<Rightarrow> netcap \<Rightarrow> bool"
  for eh b
where
handles: "mc_handler s \<noteq> Idle \<Longrightarrow> code_choice (mc_handler s) code \<Longrightarrow>
    net_internal eh b s (run_handler eh b code (mc_handler s) s)"
| runs: "mc_gos s = add_mset g gs \<Longrightarrow> run_go eh b reply timer g s = Some (s', rest) \<Longrightarrow>
    net_internal eh b s (s'\<lparr>mc_gos := (case rest of None \<Rightarrow> gs | Some g' \<Rightarrow> add_mset g' gs)\<rparr>)"
| sweeps: "mc_sweep s = add_mset st rest \<Longrightarrow> net_internal eh b s (finishNetworkRequest st (s\<lparr>mc_sweep := rest\<rparr>))"

inductive_cases net_internalE: "net_internal eh b s s'"

inductive net_step :: "(string \<Rightarrow> string option) \<Rightarrow> (string \<Rightarrow> bool) \<Rightarrow> netcap \<Rightarrow> netcap \<Rightarrow> bool"
  for eh b
where
  internal: "net_internal eh b s s' \<Longrightarrow> net_step eh b s s'"
|   ticks: "mc_clock s \<le> t \<Longrightarrow> mc_handler s = Idle \<or> t \<le> mc_began s + pendingRequestTTL \<Longrightarrow>
    net_step eh b s (s\<lparr>mc_clock := t\<rparr>)"
| receives: "mc_handler s = Idle \<Longrightarrow> mc_worker s = Serving \<Longrightarrow>
    sid = [] \<or> map_of (mc_sessions s) sid \<noteq> None \<Longrightarrow> decode_message mthd params = Some m \<Longrightarrow>
    net_step eh b s (receive m sid (s\<lparr>mc_began := mc_clock s\<rparr>))"
| expires: "now \<le> mc_clock s \<Longrightarrow> mc_sweep s = {#} \<Longrightarrow> net_step eh b s (takeExpiredNetworkRequests now s)"
| computes: "c < length (mc_states s) \<Longrightarrow> computed_step eh b (mc_states s ! c) r \<Longrightarrow>
    accounting r = accounting (mc_states s ! c) \<Longrightarrow> net_step eh b s (upd_state c (\<lambda>_. r) s)"
| attaches: "mc_handler s = Idle \<Longrightarrow> mc_worker s \<noteq> DrainPublishers True \<Longrightarrow> (\<forall>l. mc_worker s \<noteq> StopStates True l) \<Longrightarrow>
    net_step eh b s (attach_session sid info s)"
| changes: "mc_handler s = Idle \<Longrightarrow> mc_worker s \<noteq> DrainPublishers True \<Longrightarrow> (\<forall>l. mc_worker s \<noteq> StopStates True l) \<Longrightarrow>
    net_step eh b s (target_info_changed tid url title s)"
| prepares: "mc_worker s = Serving \<or> mc_worker s = DrainPublishers True \<Longrightarrow>
    net_step eh b s (preparePageCapture eh b sid info s)"
| detaches: "mc_handler s = Idle \<Longrightarrow> mc_worker s \<noteq> DrainPublishers True \<Longrightarrow> (\<forall>l. mc_worker s \<noteq> StopStates True l) \<Longrightarrow>
    sid \<noteq> [] \<Longrightarrow> net_step eh b s (handleDetachedFromTarget sid (s\<lparr>mc_began := mc_clock s\<rparr>))"
| recaptures: "mc_worker s = Serving \<Longrightarrow> \<not> dispatching (mc_handler s) \<Longrightarrow>
    net_step eh b s (s\<lparr>mc_worker := DrainPublishers False\<rparr>)"
| reconnects: "mc_worker s = Serving \<Longrightarrow> mc_handler s = Idle \<Longrightarrow>
    net_step eh b s (s\<lparr>mc_worker := DrainPublishers True\<rparr>)"
| drained: "mc_worker s = DrainPublishers all \<Longrightarrow> mc_gos s = {#} \<Longrightarrow>
    net_step eh b s (s\<lparr>mc_worker := StopStates all (map snd (mc_computedStates s)), mc_computedStates := [],
      mc_sessions := (if all then [] else mc_sessions s)\<rparr>)"
| stops_one: "mc_worker s = StopStates all (c # cs) \<Longrightarrow>
    net_step eh b s (upd_state c computed_stop (s\<lparr>mc_worker := StopStates all cs\<rparr>))"
| clears: "mc_worker s = StopStates all [] \<Longrightarrow> net_step eh b s (clear_tables s)"

inductive_cases net_stepE: "net_step eh b s s'"

definition net_reachable :: "(string \<Rightarrow> string option) \<Rightarrow> (string \<Rightarrow> bool) \<Rightarrow> netcap \<Rightarrow> bool" where
  "net_reachable eh b s \<longleftrightarrow> (\<exists>now. (net_step eh b)\<^sup>*\<^sup>* (new_netcap now) s)"

end
