(* ===== verification/NetworkFrame.thy ===== *)
theory NetworkFrame
  imports NetworkCapture
begin

text \<open>
  What each operation of \<open>NetworkCapture\<close> leaves alone, as a collection of rewrite rules; and which parts
  of a hop only the publisher of its request changes.
\<close>

section \<open>What an operation leaves alone\<close>

named_theorems net_frame

lemma upd_exchange_frame [net_frame]:
  "mc_clock (upd_exchange e f s) = mc_clock s" "mc_sessions (upd_exchange e f s) = mc_sessions s"
  "mc_computedStates (upd_exchange e f s) = mc_computedStates s"
  "mc_states (upd_exchange e f s) = mc_states s" "mc_owner (upd_exchange e f s) = mc_owner s"
  "mc_pending (upd_exchange e f s) = mc_pending s" "mc_exchanges (upd_exchange e f s) = mc_exchanges s"
  "mc_saturated (upd_exchange e f s) = mc_saturated s" "mc_hopheap (upd_exchange e f s) = mc_hopheap s"
  "mc_proxyLast (upd_exchange e f s) = mc_proxyLast s" "mc_gos (upd_exchange e f s) = mc_gos s"
  "mc_closed (upd_exchange e f s) = mc_closed s" "mc_jobs (upd_exchange e f s) = mc_jobs s"
  "mc_handler (upd_exchange e f s) = mc_handler s" "mc_began (upd_exchange e f s) = mc_began s"
  "mc_worker (upd_exchange e f s) = mc_worker s" "mc_sweep (upd_exchange e f s) = mc_sweep s"
  "mc_redirects (upd_exchange e f s) = mc_redirects s" "mc_log (upd_exchange e f s) = mc_log s"
  by (simp_all add: upd_exchange_def)

lemma upd_hop_frame [net_frame]:
  "mc_clock (upd_hop h f s) = mc_clock s" "mc_sessions (upd_hop h f s) = mc_sessions s"
  "mc_computedStates (upd_hop h f s) = mc_computedStates s" "mc_states (upd_hop h f s) = mc_states s"
  "mc_owner (upd_hop h f s) = mc_owner s" "mc_pending (upd_hop h f s) = mc_pending s"
  "mc_exchanges (upd_hop h f s) = mc_exchanges s" "mc_saturated (upd_hop h f s) = mc_saturated s"
  "mc_exheap (upd_hop h f s) = mc_exheap s" "mc_proxyLast (upd_hop h f s) = mc_proxyLast s"
  "mc_gos (upd_hop h f s) = mc_gos s" "mc_closed (upd_hop h f s) = mc_closed s"
  "mc_jobs (upd_hop h f s) = mc_jobs s" "mc_handler (upd_hop h f s) = mc_handler s"
  "mc_began (upd_hop h f s) = mc_began s" "mc_worker (upd_hop h f s) = mc_worker s"
  "mc_sweep (upd_hop h f s) = mc_sweep s" "mc_redirects (upd_hop h f s) = mc_redirects s"
  "mc_log (upd_hop h f s) = mc_log s"
  by (simp_all add: upd_hop_def)

lemma upd_state_frame [net_frame]:
  "mc_clock (upd_state c f s) = mc_clock s" "mc_sessions (upd_state c f s) = mc_sessions s"
  "mc_computedStates (upd_state c f s) = mc_computedStates s" "mc_owner (upd_state c f s) = mc_owner s"
  "mc_pending (upd_state c f s) = mc_pending s" "mc_exchanges (upd_state c f s) = mc_exchanges s"
  "mc_saturated (upd_state c f s) = mc_saturated s" "mc_exheap (upd_state c f s) = mc_exheap s"
  "mc_hopheap (upd_state c f s) = mc_hopheap s" "mc_proxyLast (upd_state c f s) = mc_proxyLast s"
  "mc_gos (upd_state c f s) = mc_gos s" "mc_closed (upd_state c f s) = mc_closed s"
  "mc_jobs (upd_state c f s) = mc_jobs s" "mc_handler (upd_state c f s) = mc_handler s"
  "mc_began (upd_state c f s) = mc_began s" "mc_worker (upd_state c f s) = mc_worker s"
  "mc_sweep (upd_state c f s) = mc_sweep s" "mc_redirects (upd_state c f s) = mc_redirects s"
  "mc_log (upd_state c f s) = mc_log s"
  by (simp_all add: upd_state_def)

lemma spawn_frame [net_frame]:
  "mc_clock (spawn g s) = mc_clock s" "mc_sessions (spawn g s) = mc_sessions s"
  "mc_computedStates (spawn g s) = mc_computedStates s" "mc_states (spawn g s) = mc_states s"
  "mc_owner (spawn g s) = mc_owner s" "mc_pending (spawn g s) = mc_pending s"
  "mc_exchanges (spawn g s) = mc_exchanges s" "mc_saturated (spawn g s) = mc_saturated s"
  "mc_exheap (spawn g s) = mc_exheap s" "mc_hopheap (spawn g s) = mc_hopheap s"
  "mc_proxyLast (spawn g s) = mc_proxyLast s" "mc_closed (spawn g s) = mc_closed s"
  "mc_jobs (spawn g s) = mc_jobs s" "mc_handler (spawn g s) = mc_handler s"
  "mc_began (spawn g s) = mc_began s" "mc_worker (spawn g s) = mc_worker s"
  "mc_sweep (spawn g s) = mc_sweep s" "mc_redirects (spawn g s) = mc_redirects s"
  "mc_log (spawn g s) = mc_log s"
  by (simp_all add: spawn_def)

lemma set_pending_frame [net_frame]:
  "mc_clock (set_pending k st s) = mc_clock s" "mc_sessions (set_pending k st s) = mc_sessions s"
  "mc_computedStates (set_pending k st s) = mc_computedStates s"
  "mc_states (set_pending k st s) = mc_states s" "mc_owner (set_pending k st s) = mc_owner s"
  "mc_exchanges (set_pending k st s) = mc_exchanges s" "mc_saturated (set_pending k st s) = mc_saturated s"
  "mc_exheap (set_pending k st s) = mc_exheap s" "mc_hopheap (set_pending k st s) = mc_hopheap s"
  "mc_proxyLast (set_pending k st s) = mc_proxyLast s" "mc_gos (set_pending k st s) = mc_gos s"
  "mc_closed (set_pending k st s) = mc_closed s" "mc_jobs (set_pending k st s) = mc_jobs s"
  "mc_handler (set_pending k st s) = mc_handler s" "mc_began (set_pending k st s) = mc_began s"
  "mc_worker (set_pending k st s) = mc_worker s" "mc_sweep (set_pending k st s) = mc_sweep s"
  "mc_redirects (set_pending k st s) = mc_redirects s" "mc_log (set_pending k st s) = mc_log s"
  by (simp_all add: set_pending_def)

lemma publish_frame [net_frame]:
  "mc_clock (publishEventAt eh b subj at ty cat src ev data sid s) = mc_clock s"
  "mc_sessions (publishEventAt eh b subj at ty cat src ev data sid s) = mc_sessions s"
  "mc_computedStates (publishEventAt eh b subj at ty cat src ev data sid s) = mc_computedStates s"
  "mc_states (publishEventAt eh b subj at ty cat src ev data sid s) = mc_states s"
  "mc_owner (publishEventAt eh b subj at ty cat src ev data sid s) = mc_owner s"
  "mc_pending (publishEventAt eh b subj at ty cat src ev data sid s) = mc_pending s"
  "mc_exchanges (publishEventAt eh b subj at ty cat src ev data sid s) = mc_exchanges s"
  "mc_saturated (publishEventAt eh b subj at ty cat src ev data sid s) = mc_saturated s"
  "mc_exheap (publishEventAt eh b subj at ty cat src ev data sid s) = mc_exheap s"
  "mc_hopheap (publishEventAt eh b subj at ty cat src ev data sid s) = mc_hopheap s"
  "mc_proxyLast (publishEventAt eh b subj at ty cat src ev data sid s) = mc_proxyLast s"
  "mc_gos (publishEventAt eh b subj at ty cat src ev data sid s) = mc_gos s"
  "mc_closed (publishEventAt eh b subj at ty cat src ev data sid s) = mc_closed s"
  "mc_jobs (publishEventAt eh b subj at ty cat src ev data sid s) = mc_jobs s"
  "mc_handler (publishEventAt eh b subj at ty cat src ev data sid s) = mc_handler s"
  "mc_began (publishEventAt eh b subj at ty cat src ev data sid s) = mc_began s"
  "mc_worker (publishEventAt eh b subj at ty cat src ev data sid s) = mc_worker s"
  "mc_sweep (publishEventAt eh b subj at ty cat src ev data sid s) = mc_sweep s"
  "mc_redirects (publishEventAt eh b subj at ty cat src ev data sid s) = mc_redirects s"
  by (simp_all add: publishEventAt_def Let_def)

lemma exchangeLocked_frame [net_frame]:
  "mc_clock (snd (exchangeLocked key s)) = mc_clock s"
  "mc_sessions (snd (exchangeLocked key s)) = mc_sessions s"
  "mc_computedStates (snd (exchangeLocked key s)) = mc_computedStates s"
  "mc_states (snd (exchangeLocked key s)) = mc_states s"
  "mc_owner (snd (exchangeLocked key s)) = mc_owner s"
  "mc_pending (snd (exchangeLocked key s)) = mc_pending s"
  "mc_hopheap (snd (exchangeLocked key s)) = mc_hopheap s"
  "mc_proxyLast (snd (exchangeLocked key s)) = mc_proxyLast s"
  "mc_gos (snd (exchangeLocked key s)) = mc_gos s" "mc_closed (snd (exchangeLocked key s)) = mc_closed s"
  "mc_jobs (snd (exchangeLocked key s)) = mc_jobs s"
  "mc_handler (snd (exchangeLocked key s)) = mc_handler s"
  "mc_began (snd (exchangeLocked key s)) = mc_began s"
  "mc_worker (snd (exchangeLocked key s)) = mc_worker s"
  "mc_sweep (snd (exchangeLocked key s)) = mc_sweep s"
  "mc_redirects (snd (exchangeLocked key s)) = mc_redirects s"
  "mc_log (snd (exchangeLocked key s)) = mc_log s"
  by (simp_all add: exchangeLocked_def Let_def split: option.split)

lemma matchHeaders_frame [net_frame]:
  "mc_clock (matchHeaders e s) = mc_clock s" "mc_sessions (matchHeaders e s) = mc_sessions s"
  "mc_computedStates (matchHeaders e s) = mc_computedStates s" "mc_states (matchHeaders e s) = mc_states s"
  "mc_owner (matchHeaders e s) = mc_owner s" "mc_pending (matchHeaders e s) = mc_pending s"
  "mc_exchanges (matchHeaders e s) = mc_exchanges s" "mc_saturated (matchHeaders e s) = mc_saturated s"
  "mc_proxyLast (matchHeaders e s) = mc_proxyLast s" "mc_gos (matchHeaders e s) = mc_gos s"
  "mc_closed (matchHeaders e s) = mc_closed s" "mc_jobs (matchHeaders e s) = mc_jobs s"
  "mc_handler (matchHeaders e s) = mc_handler s" "mc_began (matchHeaders e s) = mc_began s"
  "mc_worker (matchHeaders e s) = mc_worker s" "mc_sweep (matchHeaders e s) = mc_sweep s"
  "mc_redirects (matchHeaders e s) = mc_redirects s" "mc_log (matchHeaders e s) = mc_log s"
  by (simp_all add: matchHeaders_def Let_def net_frame case_prod_beta)

lemma cleanup_frame [net_frame]:
  "mc_clock (cleanupNetworkExchangeLocked key e s) = mc_clock s"
  "mc_sessions (cleanupNetworkExchangeLocked key e s) = mc_sessions s"
  "mc_computedStates (cleanupNetworkExchangeLocked key e s) = mc_computedStates s"
  "mc_states (cleanupNetworkExchangeLocked key e s) = mc_states s"
  "mc_owner (cleanupNetworkExchangeLocked key e s) = mc_owner s"
  "mc_pending (cleanupNetworkExchangeLocked key e s) = mc_pending s"
  "mc_saturated (cleanupNetworkExchangeLocked key e s) = mc_saturated s"
  "mc_exheap (cleanupNetworkExchangeLocked key e s) = mc_exheap s"
  "mc_hopheap (cleanupNetworkExchangeLocked key e s) = mc_hopheap s"
  "mc_proxyLast (cleanupNetworkExchangeLocked key e s) = mc_proxyLast s"
  "mc_gos (cleanupNetworkExchangeLocked key e s) = mc_gos s"
  "mc_closed (cleanupNetworkExchangeLocked key e s) = mc_closed s"
  "mc_jobs (cleanupNetworkExchangeLocked key e s) = mc_jobs s"
  "mc_handler (cleanupNetworkExchangeLocked key e s) = mc_handler s"
  "mc_began (cleanupNetworkExchangeLocked key e s) = mc_began s"
  "mc_worker (cleanupNetworkExchangeLocked key e s) = mc_worker s"
  "mc_sweep (cleanupNetworkExchangeLocked key e s) = mc_sweep s"
  "mc_redirects (cleanupNetworkExchangeLocked key e s) = mc_redirects s"
  "mc_log (cleanupNetworkExchangeLocked key e s) = mc_log s"
  by (simp_all add: cleanupNetworkExchangeLocked_def Let_def)

lemma finish_publication_frame [net_frame]:
  "mc_clock (finishNetworkPublication key e s) = mc_clock s"
  "mc_sessions (finishNetworkPublication key e s) = mc_sessions s"
  "mc_computedStates (finishNetworkPublication key e s) = mc_computedStates s"
  "mc_states (finishNetworkPublication key e s) = mc_states s"
  "mc_owner (finishNetworkPublication key e s) = mc_owner s"
  "mc_pending (finishNetworkPublication key e s) = mc_pending s"
  "mc_saturated (finishNetworkPublication key e s) = mc_saturated s"
  "mc_hopheap (finishNetworkPublication key e s) = mc_hopheap s"
  "mc_proxyLast (finishNetworkPublication key e s) = mc_proxyLast s"
  "mc_gos (finishNetworkPublication key e s) = mc_gos s"
  "mc_closed (finishNetworkPublication key e s) = mc_closed s"
  "mc_jobs (finishNetworkPublication key e s) = mc_jobs s"
  "mc_handler (finishNetworkPublication key e s) = mc_handler s"
  "mc_began (finishNetworkPublication key e s) = mc_began s"
  "mc_worker (finishNetworkPublication key e s) = mc_worker s"
  "mc_sweep (finishNetworkPublication key e s) = mc_sweep s"
  "mc_redirects (finishNetworkPublication key e s) = mc_redirects s"
  "mc_log (finishNetworkPublication key e s) = mc_log s"
  by (simp_all add: finishNetworkPublication_def net_frame)

lemma finish_request_frame [net_frame]:
  "mc_clock (finishNetworkRequest st s) = mc_clock s"
  "mc_sessions (finishNetworkRequest st s) = mc_sessions s"
  "mc_computedStates (finishNetworkRequest st s) = mc_computedStates s"
  "mc_owner (finishNetworkRequest st s) = mc_owner s"
  "mc_pending (finishNetworkRequest st s) = mc_pending s"
  "mc_exchanges (finishNetworkRequest st s) = mc_exchanges s"
  "mc_saturated (finishNetworkRequest st s) = mc_saturated s"
  "mc_exheap (finishNetworkRequest st s) = mc_exheap s"
  "mc_hopheap (finishNetworkRequest st s) = mc_hopheap s"
  "mc_proxyLast (finishNetworkRequest st s) = mc_proxyLast s"
  "mc_gos (finishNetworkRequest st s) = mc_gos s" "mc_closed (finishNetworkRequest st s) = mc_closed s"
  "mc_jobs (finishNetworkRequest st s) = mc_jobs s" "mc_handler (finishNetworkRequest st s) = mc_handler s"
  "mc_began (finishNetworkRequest st s) = mc_began s" "mc_worker (finishNetworkRequest st s) = mc_worker s"
  "mc_sweep (finishNetworkRequest st s) = mc_sweep s"
  "mc_redirects (finishNetworkRequest st s) = mc_redirects s"
  "mc_log (finishNetworkRequest st s) = mc_log s"
  by (simp_all add: finishNetworkRequest_def net_frame split: option.split)

lemma resolve_frame [net_frame]:
  "mc_clock (resolveNetworkHeadersLocked hop x s) = mc_clock s"
  "mc_sessions (resolveNetworkHeadersLocked hop x s) = mc_sessions s"
  "mc_computedStates (resolveNetworkHeadersLocked hop x s) = mc_computedStates s"
  "mc_states (resolveNetworkHeadersLocked hop x s) = mc_states s"
  "mc_owner (resolveNetworkHeadersLocked hop x s) = mc_owner s"
  "mc_pending (resolveNetworkHeadersLocked hop x s) = mc_pending s"
  "mc_exchanges (resolveNetworkHeadersLocked hop x s) = mc_exchanges s"
  "mc_saturated (resolveNetworkHeadersLocked hop x s) = mc_saturated s"
  "mc_proxyLast (resolveNetworkHeadersLocked hop x s) = mc_proxyLast s"
  "mc_gos (resolveNetworkHeadersLocked hop x s) = mc_gos s"
  "mc_closed (resolveNetworkHeadersLocked hop x s) = mc_closed s"
  "mc_jobs (resolveNetworkHeadersLocked hop x s) = mc_jobs s"
  "mc_handler (resolveNetworkHeadersLocked hop x s) = mc_handler s"
  "mc_began (resolveNetworkHeadersLocked hop x s) = mc_began s"
  "mc_worker (resolveNetworkHeadersLocked hop x s) = mc_worker s"
  "mc_sweep (resolveNetworkHeadersLocked hop x s) = mc_sweep s"
  "mc_redirects (resolveNetworkHeadersLocked hop x s) = mc_redirects s"
  "mc_log (resolveNetworkHeadersLocked hop x s) = mc_log s"
  by (simp_all add: resolveNetworkHeadersLocked_def net_frame split: option.split)

lemma resolve_failed_frame [net_frame]:
  "mc_clock (resolveFailedHeadersLocked hop s) = mc_clock s"
  "mc_sessions (resolveFailedHeadersLocked hop s) = mc_sessions s"
  "mc_computedStates (resolveFailedHeadersLocked hop s) = mc_computedStates s"
  "mc_states (resolveFailedHeadersLocked hop s) = mc_states s"
  "mc_owner (resolveFailedHeadersLocked hop s) = mc_owner s"
  "mc_pending (resolveFailedHeadersLocked hop s) = mc_pending s"
  "mc_saturated (resolveFailedHeadersLocked hop s) = mc_saturated s"
  "mc_proxyLast (resolveFailedHeadersLocked hop s) = mc_proxyLast s"
  "mc_gos (resolveFailedHeadersLocked hop s) = mc_gos s"
  "mc_closed (resolveFailedHeadersLocked hop s) = mc_closed s"
  "mc_jobs (resolveFailedHeadersLocked hop s) = mc_jobs s"
  "mc_handler (resolveFailedHeadersLocked hop s) = mc_handler s"
  "mc_began (resolveFailedHeadersLocked hop s) = mc_began s"
  "mc_worker (resolveFailedHeadersLocked hop s) = mc_worker s"
  "mc_sweep (resolveFailedHeadersLocked hop s) = mc_sweep s"
  "mc_redirects (resolveFailedHeadersLocked hop s) = mc_redirects s"
  "mc_log (resolveFailedHeadersLocked hop s) = mc_log s"
  by (simp_all add: resolveFailedHeadersLocked_def Let_def net_frame case_prod_beta split: option.split)

lemma extra_info_frame [net_frame]:
  "mc_clock (handleRequestExtraInfo p sid s) = mc_clock s"
  "mc_sessions (handleRequestExtraInfo p sid s) = mc_sessions s"
  "mc_computedStates (handleRequestExtraInfo p sid s) = mc_computedStates s"
  "mc_states (handleRequestExtraInfo p sid s) = mc_states s"
  "mc_owner (handleRequestExtraInfo p sid s) = mc_owner s"
  "mc_pending (handleRequestExtraInfo p sid s) = mc_pending s"
  "mc_proxyLast (handleRequestExtraInfo p sid s) = mc_proxyLast s"
  "mc_gos (handleRequestExtraInfo p sid s) = mc_gos s"
  "mc_closed (handleRequestExtraInfo p sid s) = mc_closed s"
  "mc_jobs (handleRequestExtraInfo p sid s) = mc_jobs s"
  "mc_handler (handleRequestExtraInfo p sid s) = mc_handler s"
  "mc_began (handleRequestExtraInfo p sid s) = mc_began s"
  "mc_worker (handleRequestExtraInfo p sid s) = mc_worker s"
  "mc_sweep (handleRequestExtraInfo p sid s) = mc_sweep s"
  "mc_redirects (handleRequestExtraInfo p sid s) = mc_redirects s"
  "mc_log (handleRequestExtraInfo p sid s) = mc_log s"
  by (simp_all add: handleRequestExtraInfo_def Let_def net_frame case_prod_beta split: option.split)

lemma queue_frame [net_frame]:
  "mc_clock (snd (queueNetworkRequestLocked eh b key rq info at s)) = mc_clock s"
  "mc_sessions (snd (queueNetworkRequestLocked eh b key rq info at s)) = mc_sessions s"
  "mc_computedStates (snd (queueNetworkRequestLocked eh b key rq info at s)) = mc_computedStates s"
  "mc_states (snd (queueNetworkRequestLocked eh b key rq info at s)) = mc_states s"
  "mc_owner (snd (queueNetworkRequestLocked eh b key rq info at s)) = mc_owner s"
  "mc_pending (snd (queueNetworkRequestLocked eh b key rq info at s)) = mc_pending s"
  "mc_proxyLast (snd (queueNetworkRequestLocked eh b key rq info at s)) = mc_proxyLast s"
  "mc_gos (snd (queueNetworkRequestLocked eh b key rq info at s)) = mc_gos s"
  "mc_closed (snd (queueNetworkRequestLocked eh b key rq info at s)) = mc_closed s"
  "mc_jobs (snd (queueNetworkRequestLocked eh b key rq info at s)) = mc_jobs s"
  "mc_handler (snd (queueNetworkRequestLocked eh b key rq info at s)) = mc_handler s"
  "mc_began (snd (queueNetworkRequestLocked eh b key rq info at s)) = mc_began s"
  "mc_worker (snd (queueNetworkRequestLocked eh b key rq info at s)) = mc_worker s"
  "mc_sweep (snd (queueNetworkRequestLocked eh b key rq info at s)) = mc_sweep s"
  "mc_redirects (snd (queueNetworkRequestLocked eh b key rq info at s)) = mc_redirects s"
  "mc_log (snd (queueNetworkRequestLocked eh b key rq info at s)) = mc_log s"
  by (simp_all add: queueNetworkRequestLocked_def Let_def net_frame case_prod_beta split: option.split)

lemma rate_frame [net_frame]:
  "mc_clock (snd (proxyErrorRateLimited sid code rt s)) = mc_clock s"
  "mc_sessions (snd (proxyErrorRateLimited sid code rt s)) = mc_sessions s"
  "mc_computedStates (snd (proxyErrorRateLimited sid code rt s)) = mc_computedStates s"
  "mc_states (snd (proxyErrorRateLimited sid code rt s)) = mc_states s"
  "mc_owner (snd (proxyErrorRateLimited sid code rt s)) = mc_owner s"
  "mc_pending (snd (proxyErrorRateLimited sid code rt s)) = mc_pending s"
  "mc_exchanges (snd (proxyErrorRateLimited sid code rt s)) = mc_exchanges s"
  "mc_saturated (snd (proxyErrorRateLimited sid code rt s)) = mc_saturated s"
  "mc_exheap (snd (proxyErrorRateLimited sid code rt s)) = mc_exheap s"
  "mc_hopheap (snd (proxyErrorRateLimited sid code rt s)) = mc_hopheap s"
  "mc_gos (snd (proxyErrorRateLimited sid code rt s)) = mc_gos s"
  "mc_closed (snd (proxyErrorRateLimited sid code rt s)) = mc_closed s"
  "mc_jobs (snd (proxyErrorRateLimited sid code rt s)) = mc_jobs s"
  "mc_handler (snd (proxyErrorRateLimited sid code rt s)) = mc_handler s"
  "mc_began (snd (proxyErrorRateLimited sid code rt s)) = mc_began s"
  "mc_worker (snd (proxyErrorRateLimited sid code rt s)) = mc_worker s"
  "mc_sweep (snd (proxyErrorRateLimited sid code rt s)) = mc_sweep s"
  "mc_redirects (snd (proxyErrorRateLimited sid code rt s)) = mc_redirects s"
  "mc_log (snd (proxyErrorRateLimited sid code rt s)) = mc_log s"
  by (simp_all add: proxyErrorRateLimited_def Let_def split: option.split)

lemma proxy_frame [net_frame]:
  "mc_clock (publishProxyError eh b subj a s) = mc_clock s"
  "mc_sessions (publishProxyError eh b subj a s) = mc_sessions s"
  "mc_computedStates (publishProxyError eh b subj a s) = mc_computedStates s"
  "mc_states (publishProxyError eh b subj a s) = mc_states s"
  "mc_owner (publishProxyError eh b subj a s) = mc_owner s"
  "mc_pending (publishProxyError eh b subj a s) = mc_pending s"
  "mc_exchanges (publishProxyError eh b subj a s) = mc_exchanges s"
  "mc_saturated (publishProxyError eh b subj a s) = mc_saturated s"
  "mc_exheap (publishProxyError eh b subj a s) = mc_exheap s"
  "mc_hopheap (publishProxyError eh b subj a s) = mc_hopheap s"
  "mc_gos (publishProxyError eh b subj a s) = mc_gos s"
  "mc_closed (publishProxyError eh b subj a s) = mc_closed s"
  "mc_jobs (publishProxyError eh b subj a s) = mc_jobs s"
  "mc_handler (publishProxyError eh b subj a s) = mc_handler s"
  "mc_began (publishProxyError eh b subj a s) = mc_began s"
  "mc_worker (publishProxyError eh b subj a s) = mc_worker s"
  "mc_sweep (publishProxyError eh b subj a s) = mc_sweep s"
  "mc_redirects (publishProxyError eh b subj a s) = mc_redirects s"
  by (simp_all add: publishProxyError_def Let_def net_frame case_prod_beta)

lemma run_after_frame [net_frame]:
  "mc_clock (run_after eh b hop act s) = mc_clock s"
  "mc_sessions (run_after eh b hop act s) = mc_sessions s"
  "mc_computedStates (run_after eh b hop act s) = mc_computedStates s"
  "mc_states (run_after eh b hop act s) = mc_states s" "mc_owner (run_after eh b hop act s) = mc_owner s"
  "mc_pending (run_after eh b hop act s) = mc_pending s"
  "mc_exchanges (run_after eh b hop act s) = mc_exchanges s"
  "mc_saturated (run_after eh b hop act s) = mc_saturated s"
  "mc_exheap (run_after eh b hop act s) = mc_exheap s"
  "mc_hopheap (run_after eh b hop act s) = mc_hopheap s" "mc_gos (run_after eh b hop act s) = mc_gos s"
  "mc_closed (run_after eh b hop act s) = mc_closed s" "mc_jobs (run_after eh b hop act s) = mc_jobs s"
  "mc_handler (run_after eh b hop act s) = mc_handler s" "mc_began (run_after eh b hop act s) = mc_began s"
  "mc_worker (run_after eh b hop act s) = mc_worker s" "mc_sweep (run_after eh b hop act s) = mc_sweep s"
  "mc_redirects (run_after eh b hop act s) = mc_redirects s"
  by (simp_all add: run_after_def net_frame split: after_act.split)

lemma after_frame [net_frame]:
  "mc_clock (publishAfterNetworkRequest eh b hop act s) = mc_clock s"
  "mc_sessions (publishAfterNetworkRequest eh b hop act s) = mc_sessions s"
  "mc_computedStates (publishAfterNetworkRequest eh b hop act s) = mc_computedStates s"
  "mc_states (publishAfterNetworkRequest eh b hop act s) = mc_states s"
  "mc_owner (publishAfterNetworkRequest eh b hop act s) = mc_owner s"
  "mc_pending (publishAfterNetworkRequest eh b hop act s) = mc_pending s"
  "mc_exchanges (publishAfterNetworkRequest eh b hop act s) = mc_exchanges s"
  "mc_saturated (publishAfterNetworkRequest eh b hop act s) = mc_saturated s"
  "mc_exheap (publishAfterNetworkRequest eh b hop act s) = mc_exheap s"
  "mc_hopheap (publishAfterNetworkRequest eh b hop act s) = mc_hopheap s"
  "mc_closed (publishAfterNetworkRequest eh b hop act s) = mc_closed s"
  "mc_jobs (publishAfterNetworkRequest eh b hop act s) = mc_jobs s"
  "mc_handler (publishAfterNetworkRequest eh b hop act s) = mc_handler s"
  "mc_began (publishAfterNetworkRequest eh b hop act s) = mc_began s"
  "mc_worker (publishAfterNetworkRequest eh b hop act s) = mc_worker s"
  "mc_sweep (publishAfterNetworkRequest eh b hop act s) = mc_sweep s"
  "mc_redirects (publishAfterNetworkRequest eh b hop act s) = mc_redirects s"
  by (simp_all add: publishAfterNetworkRequest_def net_frame split: option.split)

lemma emit_frame [net_frame]:
  "mc_clock (snd (emitNetworkResponse at key st info redirect s)) = mc_clock s"
  "mc_sessions (snd (emitNetworkResponse at key st info redirect s)) = mc_sessions s"
  "mc_computedStates (snd (emitNetworkResponse at key st info redirect s)) = mc_computedStates s"
  "mc_states (snd (emitNetworkResponse at key st info redirect s)) = mc_states s"
  "mc_owner (snd (emitNetworkResponse at key st info redirect s)) = mc_owner s"
  "mc_pending (snd (emitNetworkResponse at key st info redirect s)) = mc_pending s"
  "mc_exchanges (snd (emitNetworkResponse at key st info redirect s)) = mc_exchanges s"
  "mc_saturated (snd (emitNetworkResponse at key st info redirect s)) = mc_saturated s"
  "mc_hopheap (snd (emitNetworkResponse at key st info redirect s)) = mc_hopheap s"
  "mc_proxyLast (snd (emitNetworkResponse at key st info redirect s)) = mc_proxyLast s"
  "mc_closed (snd (emitNetworkResponse at key st info redirect s)) = mc_closed s"
  "mc_handler (snd (emitNetworkResponse at key st info redirect s)) = mc_handler s"
  "mc_began (snd (emitNetworkResponse at key st info redirect s)) = mc_began s"
  "mc_worker (snd (emitNetworkResponse at key st info redirect s)) = mc_worker s"
  "mc_sweep (snd (emitNetworkResponse at key st info redirect s)) = mc_sweep s"
  "mc_redirects (snd (emitNetworkResponse at key st info redirect s)) = mc_redirects s"
  "mc_log (snd (emitNetworkResponse at key st info redirect s)) = mc_log s"
  by (simp_all add: emitNetworkResponse_def Let_def net_frame case_prod_beta split: option.split)

lemma reset_frame [net_frame]:
  "mc_clock (reset_navigation eh b f sid info cs s) = mc_clock s"
  "mc_sessions (reset_navigation eh b f sid info cs s) = mc_sessions s"
  "mc_computedStates (reset_navigation eh b f sid info cs s) = mc_computedStates s"
  "mc_owner (reset_navigation eh b f sid info cs s) = mc_owner s"
  "mc_exchanges (reset_navigation eh b f sid info cs s) = mc_exchanges s"
  "mc_saturated (reset_navigation eh b f sid info cs s) = mc_saturated s"
  "mc_exheap (reset_navigation eh b f sid info cs s) = mc_exheap s"
  "mc_hopheap (reset_navigation eh b f sid info cs s) = mc_hopheap s"
  "mc_proxyLast (reset_navigation eh b f sid info cs s) = mc_proxyLast s"
  "mc_gos (reset_navigation eh b f sid info cs s) = mc_gos s"
  "mc_closed (reset_navigation eh b f sid info cs s) = mc_closed s"
  "mc_jobs (reset_navigation eh b f sid info cs s) = mc_jobs s"
  "mc_handler (reset_navigation eh b f sid info cs s) = mc_handler s"
  "mc_began (reset_navigation eh b f sid info cs s) = mc_began s"
  "mc_worker (reset_navigation eh b f sid info cs s) = mc_worker s"
  "mc_sweep (reset_navigation eh b f sid info cs s) = mc_sweep s"
  "mc_redirects (reset_navigation eh b f sid info cs s) = mc_redirects s"
  "mc_log (reset_navigation eh b f sid info cs s) = mc_log s"
  by (simp_all add: reset_navigation_def Let_def net_frame case_prod_beta split: option.split)

lemma expire_frame [net_frame]:
  "mc_clock (takeExpiredNetworkRequests now s) = mc_clock s"
  "mc_sessions (takeExpiredNetworkRequests now s) = mc_sessions s"
  "mc_computedStates (takeExpiredNetworkRequests now s) = mc_computedStates s"
  "mc_states (takeExpiredNetworkRequests now s) = mc_states s"
  "mc_owner (takeExpiredNetworkRequests now s) = mc_owner s"
  "mc_saturated (takeExpiredNetworkRequests now s) = mc_saturated s"
  "mc_exheap (takeExpiredNetworkRequests now s) = mc_exheap s"
  "mc_hopheap (takeExpiredNetworkRequests now s) = mc_hopheap s"
  "mc_proxyLast (takeExpiredNetworkRequests now s) = mc_proxyLast s"
  "mc_gos (takeExpiredNetworkRequests now s) = mc_gos s"
  "mc_closed (takeExpiredNetworkRequests now s) = mc_closed s"
  "mc_jobs (takeExpiredNetworkRequests now s) = mc_jobs s"
  "mc_handler (takeExpiredNetworkRequests now s) = mc_handler s"
  "mc_began (takeExpiredNetworkRequests now s) = mc_began s"
  "mc_worker (takeExpiredNetworkRequests now s) = mc_worker s"
  "mc_redirects (takeExpiredNetworkRequests now s) = mc_redirects s"
  "mc_log (takeExpiredNetworkRequests now s) = mc_log s"
  by (simp_all add: takeExpiredNetworkRequests_def)


text \<open>What never changes in a hop, and what only the publisher of its request changes.\<close>

definition hops_same :: "networkHop list \<Rightarrow> networkHop list \<Rightarrow> bool" where
  "hops_same a b \<longleftrightarrow> map hp_requestPublished b = map hp_requestPublished a \<and> map hp_request b = map hp_request a"

lemma hops_same_refl [simp]: "hops_same a a"
  by (simp add: hops_same_def)

lemma hops_same_trans: "hops_same a b \<Longrightarrow> hops_same b c \<Longrightarrow> hops_same a c"
  by (simp add: hops_same_def)

lemma map_update_same: "f x = f (a ! h) \<Longrightarrow> map f (a[h := x]) = map f a"
  by (cases "h < length a") (simp_all add: map_update list_update_same_conv list_update_beyond)

lemma hops_same_update:
  "hp_requestPublished x = hp_requestPublished (a ! h) \<Longrightarrow> hp_request x = hp_request (a ! h) \<Longrightarrow> hops_same a (a[h := x])"
  by (simp add: hops_same_def map_update_same)

lemma match_hops_same: "hops_same a (snd (match_hops hs requests a))"
proof (induction hs requests a rule: match_hops.induct)
  case (2 h hs requests heap)
  let ?m = "\<lambda>r. (heap ! h)\<lparr>hp_requestHeaders := r, hp_requestMatched := True, hp_requestReady := True,
      hp_took := True\<rparr>"
  let ?n = "(heap ! h)\<lparr>hp_requestMatched := True, hp_requestReady := True\<rparr>"
  have m: "hops_same (heap[h := ?m r]) t \<Longrightarrow> hops_same heap t" for r t
    by (rule hops_same_trans[OF hops_same_update]) simp_all
  have n: "hops_same (heap[h := ?n]) t \<Longrightarrow> hops_same heap t" for t
    by (rule hops_same_trans[OF hops_same_update]) simp_all
  show ?case
  proof (cases "hp_known (heap ! h) \<and> \<not> hp_requestMatched (heap ! h)")
    case True
    show ?thesis
    proof (cases "hp_hasExtra (heap ! h)")
      case extra: True
      show ?thesis
      proof (cases requests)
        case (Cons r rs)
        then show ?thesis using 2(2)[of "heap ! h" r rs] True extra m by (simp add: Let_def)
      qed (use True extra in \<open>simp add: Let_def\<close>)
    qed (use 2(3)[of "heap ! h"] True n in \<open>simp add: Let_def\<close>)
  qed (use 2(1)[of "heap ! h"] in \<open>auto simp: Let_def\<close>)
qed simp

lemma matchHeaders_hops: "hops_same (mc_hopheap s) (mc_hopheap (matchHeaders e s))"
  using match_hops_same by (simp add: matchHeaders_def Let_def net_frame case_prod_beta)

lemma resolve_hops: "hops_same (mc_hopheap s) (mc_hopheap (resolveNetworkHeadersLocked hop x s))"
proof (cases hop)
  case (Some h)
  have "hops_same (mc_hopheap s) (mc_hopheap (upd_hop h (\<lambda>x. x\<lparr>hp_known := True, hp_hasExtra := b\<rparr>) s))" for b
    by (simp add: upd_hop_def hops_same_update)
  with Some show ?thesis
    by (simp add: resolveNetworkHeadersLocked_def hops_same_trans[OF _ matchHeaders_hops])
qed (simp add: resolveNetworkHeadersLocked_def)

lemma resolve_failed_hops: "hops_same (mc_hopheap s) (mc_hopheap (resolveFailedHeadersLocked hop s))"
proof (cases hop)
  case (Some h)
  have "hops_same (mc_hopheap s) (mc_hopheap (upd_hop h (\<lambda>x. x\<lparr>hp_known := True, hp_hasExtra := True\<rparr>)
      (upd_exchange e f s)))" for e f
    by (simp add: upd_hop_def net_frame hops_same_update)
  with Some show ?thesis
    by (auto simp: resolveFailedHeadersLocked_def Let_def net_frame
        intro: hops_same_trans[OF _ matchHeaders_hops] matchHeaders_hops
          hops_same_trans[OF _ hops_same_trans[OF _ matchHeaders_hops]])
qed (simp add: resolveFailedHeadersLocked_def)

lemma extra_info_hops: "hops_same (mc_hopheap s) (mc_hopheap (handleRequestExtraInfo p sid s))"
proof -
  have "hops_same (mc_hopheap t) (mc_hopheap (matchHeaders e (upd_exchange e f t)))" for e f t
    using matchHeaders_hops[of "upd_exchange e f t" e] by (simp add: net_frame)
  then have "hops_same (mc_hopheap (snd (exchangeLocked k s)))
      (mc_hopheap (matchHeaders e (upd_exchange e f (snd (exchangeLocked k s)))))" for e f k
    by blast
  then show ?thesis
    by (auto simp: handleRequestExtraInfo_def Let_def net_frame case_prod_beta split: option.split)
qed

end
