(* ===== verification/NetworkOrder.thy ===== *)
theory NetworkOrder
  imports NetworkFrame
begin

text \<open>
  The order in which the publishers of \<open>NetworkCapture\<close> publish, and that they always end. The part
  of the state that decides both is small: the goroutines, the calls under way, which requests were
  published, and which hops can still be settled.
\<close>

section \<open>The protocol\<close>

text \<open>Hop and phase of a publisher of a request; job and phase of a publisher of a response.\<close>

fun req_stage :: "goroutine \<Rightarrow> (nat \<times> nat) option" where
  "req_stage (ReqWait k h rp) = Some (h, 0)"
| "req_stage (ReqRedirect k h rp) = Some (h, 0)"
| "req_stage (ReqRead k h) = Some (h, 1)"
| "req_stage (ReqPublish k h d) = Some (h, 1)"
| "req_stage (ReqClose k h) = Some (h, 2)"
| "req_stage (ReqFinish k h) = Some (h, 3)"
| "req_stage _ = None"

fun resp_stage :: "goroutine \<Rightarrow> (response_job \<times> nat) option" where
  "resp_stage (RespFetch j) = Some (j, 0)"
| "resp_stage (RespWait j b) = Some (j, 1)"
| "resp_stage (RespOrder j b) = Some (j, 2)"
| "resp_stage (RespRead j b) = Some (j, 3)"
| "resp_stage (RespPublish j d src) = Some (j, 4)"
| "resp_stage (RespFinish j) = Some (j, 5)"
| "resp_stage (RespClose j) = Some (j, 6)"
| "resp_stage _ = None"

abbreviation job_hop :: "response_job \<Rightarrow> nat option" where
  "job_hop j \<equiv> ns_hop (rj_state j)"

text \<open>The hop a goroutine is going to settle: by its response or by its failure.\<close>

fun settles :: "goroutine \<Rightarrow> nat option" where
  "settles (RespFetch j) = job_hop j"
| "settles (RespWait j b) = job_hop j"
| "settles (RespOrder j b) = job_hop j"
| "settles (RespRead j b) = job_hop j"
| "settles (RespPublish j d src) = job_hop j"
| "settles (AfterWait h (PublishFailed a b c d)) = Some h"
| "settles (AfterAct h (PublishFailed a b c d)) = Some h"
| "settles _ = None"

text \<open>The hop whose publisher the handler still has to start, and the hop it is about to settle.\<close>

fun owes :: "handler \<Rightarrow> nat option" where
  "owes (EmitRedirect p sid at info existing isRedirect h cs) = Some h"
| "owes (SpawnRequest sid rid h rp isRedirect cs) = Some h"
| "owes _ = None"

fun handler_settles :: "handler \<Rightarrow> nat option" where
  "handler_settles (QueueRequest p sid at info existing isRedirect navSeq cs) = ns_hop existing"
| "handler_settles (EmitRedirect p sid at info existing isRedirect h cs) = ns_hop existing"
| "handler_settles (UncountFinished sid rid at st info) = ns_hop st"
| "handler_settles (EmitFinished sid rid at st info) = ns_hop st"
| "handler_settles (PublishFailure p sid at found) = (case found of Some st \<Rightarrow> ns_hop st | None \<Rightarrow> None)"
| "handler_settles _ = None"

fun handler_hop :: "handler \<Rightarrow> nat option" where
  "handler_hop (CheckProxyError p sid at found) = (case found of Some st \<Rightarrow> ns_hop st | None \<Rightarrow> None)"
| "handler_hop pc = handler_settles pc"

record ord =
  o_log :: "subject list"
  o_gos :: "goroutine multiset"
  o_jobs :: "response_job list"
  o_closed :: "nat set"
  o_red :: "(nat \<times> nat) list"
  o_pc :: handler
  o_pub :: "bool list"
  o_pend :: "nat option list"

definition ord_of :: "netcap \<Rightarrow> ord" where
  "ord_of s =
     \<lparr>o_log = map fst (mc_log s), o_gos = mc_gos s, o_jobs = mc_jobs s, o_closed = mc_closed s,
      o_red = mc_redirects s, o_pc = mc_handler s, o_pub = map hp_requestPublished (mc_hopheap s),
      o_pend = map (ns_hop \<circ> snd) (mc_pending s)\<rparr>"

definition many :: "(goroutine \<Rightarrow> bool) \<Rightarrow> ord \<Rightarrow> nat" where
  "many P o' = size (filter_mset P (o_gos o'))"

definition starting :: "nat \<Rightarrow> goroutine \<Rightarrow> bool" where
  "starting h g \<longleftrightarrow> req_stage g = Some (h, 0) \<or> req_stage g = Some (h, 1)"

definition closing :: "nat \<Rightarrow> goroutine \<Rightarrow> bool" where
  "closing h g \<longleftrightarrow> req_stage g = Some (h, 2)"

definition is_pub :: "ord \<Rightarrow> nat \<Rightarrow> bool" where
  "is_pub o' h \<longleftrightarrow> h < length (o_pub o') \<and> o_pub o' ! h"

text \<open>Each request is published once, by exactly one goroutine.\<close>

definition once_ok :: "ord \<Rightarrow> bool" where
  "once_ok o' \<longleftrightarrow>
     (\<forall>h. of_bool (owes (o_pc o') = Some h) + many (starting h) o' + count_list (o_log o') (OfRequest h) =
          of_bool (h < length (o_pub o'))) \<and>
     (\<forall>h. many (closing h) o' + of_bool (is_pub o' h) = count_list (o_log o') (OfRequest h))"

text \<open>What a goroutine may rely on in its phase.\<close>

definition waits_ok :: "ord \<Rightarrow> nat \<Rightarrow> nat option \<Rightarrow> bool" where
  "waits_ok o' h rp \<longleftrightarrow>
     (case rp of None \<Rightarrow> True
      | Some j \<Rightarrow> j < length (o_jobs o') \<and> (\<forall>h0. job_hop (o_jobs o' ! j) = Some h0 \<longrightarrow> h0 < h)) \<and>
     (\<forall>j. (h, j) \<in> set (o_red o') \<longrightarrow> rp = Some j)"

definition past_ok :: "ord \<Rightarrow> nat \<Rightarrow> bool" where
  "past_ok o' h \<longleftrightarrow> (\<forall>j. (h, j) \<in> set (o_red o') \<longrightarrow> j \<in> o_closed o')"

definition job_ok :: "ord \<Rightarrow> response_job \<Rightarrow> bool" where
  "job_ok o' j \<longleftrightarrow> rj_id j < length (o_jobs o') \<and> o_jobs o' ! rj_id j = j \<and>
     (\<forall>h. job_hop j = Some h \<longrightarrow> h < length (o_pub o'))"

fun go_ok :: "ord \<Rightarrow> goroutine \<Rightarrow> bool" where
  "go_ok o' (ReqWait k h rp) = waits_ok o' h rp"
| "go_ok o' (ReqRedirect k h rp) = waits_ok o' h rp"
| "go_ok o' (ReqRead k h) = past_ok o' h"
| "go_ok o' (ReqPublish k h d) = past_ok o' h"
| "go_ok o' (ReqClose k h) = (h < length (o_pub o'))"
| "go_ok o' (ReqFinish k h) = is_pub o' h"
| "go_ok o' (RespFetch j) = job_ok o' j"
| "go_ok o' (RespWait j b) = (job_ok o' j \<and> job_hop j \<noteq> None)"
| "go_ok o' (RespOrder j b) = (job_ok o' j \<and> job_hop j \<noteq> None)"
| "go_ok o' (RespRead j b) = (job_ok o' j \<and> (\<forall>h. job_hop j = Some h \<longrightarrow> is_pub o' h))"
| "go_ok o' (RespPublish j d src) = (job_ok o' j \<and> (\<forall>h. job_hop j = Some h \<longrightarrow> is_pub o' h))"
| "go_ok o' (RespFinish j) = (job_ok o' j \<and> (\<forall>h. job_hop j = Some h \<longrightarrow> OfResponse h \<in> set (o_log o')))"
| "go_ok o' (RespClose j) = (job_ok o' j \<and> (\<forall>h. job_hop j = Some h \<longrightarrow> OfResponse h \<in> set (o_log o')))"
| "go_ok o' (AfterWait h act) = (h < length (o_pub o'))"
| "go_ok o' (AfterAct h act) = is_pub o' h"

definition running :: "nat \<Rightarrow> goroutine \<Rightarrow> bool" where
  "running j g \<longleftrightarrow> (case resp_stage g of Some (job, n) \<Rightarrow> rj_id job = j | None \<Rightarrow> False)"

definition jobs_ok :: "ord \<Rightarrow> bool" where
  "jobs_ok o' \<longleftrightarrow>
     (\<forall>j. many (running j) o' + of_bool (j \<in> o_closed o') = of_bool (j < length (o_jobs o'))) \<and>
     (\<forall>j \<in> o_closed o'. \<forall>h. job_hop (o_jobs o' ! j) = Some h \<longrightarrow> OfResponse h \<in> set (o_log o'))"

text \<open>A hop is settled at most once, by its response or by its failure.\<close>

definition settle_count :: "nat \<Rightarrow> ord \<Rightarrow> nat" where
  "settle_count h o' =
     count_list (o_log o') (OfResponse h) + count_list (o_log o') (OfFailure h) +
     many (\<lambda>g. settles g = Some h) o' + count_list (o_pend o') (Some h) +
     of_bool (handler_settles (o_pc o') = Some h)"

definition settle_ok :: "ord \<Rightarrow> bool" where
  "settle_ok o' \<longleftrightarrow> (\<forall>h. settle_count h o' \<le> of_bool (h < length (o_pub o')))"

definition refs_ok :: "ord \<Rightarrow> bool" where
  "refs_ok o' \<longleftrightarrow>
     (\<forall>h. handler_hop (o_pc o') = Some h \<longrightarrow> h < length (o_pub o')) \<and>
     (case o_pc o' of
        EmitRedirect p sid at info existing isRedirect h cs \<Rightarrow>
          (\<forall>h0. ns_hop existing = Some h0 \<longrightarrow> h0 < h) \<and> (\<forall>j. (h, j) \<notin> set (o_red o'))
      | SpawnRequest sid rid h rp isRedirect cs \<Rightarrow> waits_ok o' h rp
      | _ \<Rightarrow> True)"

definition red_ok :: "ord \<Rightarrow> bool" where
  "red_ok o' \<longleftrightarrow>
     (\<forall>(h, j) \<in> set (o_red o'). h < length (o_pub o') \<and> j < length (o_jobs o') \<and>
        (OfRequest h \<in> set (o_log o') \<longrightarrow> j \<in> o_closed o'))"

text \<open>What has to stand before an event.\<close>

definition precedes :: "(nat \<times> nat) list \<Rightarrow> response_job list \<Rightarrow> subject \<Rightarrow> subject \<Rightarrow> bool" where
  "precedes red jobs a b \<longleftrightarrow>
     (case b of
        OfResponse h \<Rightarrow> a = OfRequest h
      | OfFailure h \<Rightarrow> a = OfRequest h
      | OfProxyError h \<Rightarrow> a = OfRequest h
      | OfRequest h \<Rightarrow> (\<exists>j h0. (h, j) \<in> set red \<and> job_hop (jobs ! j) = Some h0 \<and> a = OfResponse h0)
      | OfNone \<Rightarrow> False)"

definition log_ok :: "ord \<Rightarrow> bool" where
  "log_ok o' \<longleftrightarrow>
     (\<forall>i < length (o_log o'). \<forall>a. precedes (o_red o') (o_jobs o') a (o_log o' ! i) \<longrightarrow> a \<in> set (take i (o_log o')))"

definition ord_ok :: "ord \<Rightarrow> bool" where
  "ord_ok o' \<longleftrightarrow> once_ok o' \<and> (\<forall>g \<in># o_gos o'. go_ok o' g) \<and> jobs_ok o' \<and> settle_ok o' \<and> refs_ok o' \<and>
     red_ok o' \<and> log_ok o'"

lemma ord_okI:
  "once_ok o' \<Longrightarrow> (\<And>g. g \<in># o_gos o' \<Longrightarrow> go_ok o' g) \<Longrightarrow> jobs_ok o' \<Longrightarrow> settle_ok o' \<Longrightarrow> refs_ok o' \<Longrightarrow>
   red_ok o' \<Longrightarrow> log_ok o' \<Longrightarrow> ord_ok o'"
  by (simp add: ord_ok_def)


lemma once_okD:
  assumes "once_ok a"
  shows "of_bool (owes (o_pc a) = Some h) + many (starting h) a + count_list (o_log a) (OfRequest h) =
           of_bool (h < length (o_pub a))"
    and "many (closing h) a + of_bool (is_pub a h) = count_list (o_log a) (OfRequest h)"
  using assms by (simp_all add: once_ok_def)

lemma many_pos: "g \<in># o_gos a \<Longrightarrow> P g \<Longrightarrow> 0 < many P a"
  by (auto simp: many_def dest!: multi_member_split)

lemma many_zero: "many P a = 0 \<Longrightarrow> g \<in># o_gos a \<Longrightarrow> \<not> P g"
  using many_pos by fastforce

lemma in_log_count: "x \<in> set xs \<longleftrightarrow> 0 < count_list xs x"
  by (metis count_list_0_iff neq0_conv)

lemma is_pub_simps:
  "is_pub (a\<lparr>o_gos := x\<rparr>) h = is_pub a h" "is_pub (a\<lparr>o_log := l\<rparr>) h = is_pub a h"
  "is_pub (a\<lparr>o_pc := pc\<rparr>) h = is_pub a h" "is_pub (a\<lparr>o_closed := c\<rparr>) h = is_pub a h"
  by (simp_all add: is_pub_def)

lemma published_in_log:
  assumes "once_ok a" "is_pub a h"
  shows "OfRequest h \<in> set (o_log a)"
  using once_okD(2)[OF assms(1), of h] assms(2) by (simp add: in_log_count)

text \<open>What holds of a goroutine keeps holding while the state grows.\<close>

definition grows :: "ord \<Rightarrow> ord \<Rightarrow> bool" where
  "grows a b \<longleftrightarrow>
     (\<exists>new. o_jobs b = o_jobs a @ new) \<and> (\<forall>h. is_pub a h \<longrightarrow> is_pub b h) \<and>
     length (o_pub a) \<le> length (o_pub b) \<and> set (o_log a) \<subseteq> set (o_log b) \<and> o_closed a \<subseteq> o_closed b"

lemma job_ok_grows: "grows a b \<Longrightarrow> job_ok a j \<Longrightarrow> job_ok b j"
  by (auto simp: grows_def job_ok_def nth_append)

lemma waits_ok_grows:
  "grows a b \<Longrightarrow> waits_ok a h rp \<Longrightarrow> (\<And>j. (h, j) \<in> set (o_red b) \<Longrightarrow> (h, j) \<in> set (o_red a)) \<Longrightarrow> waits_ok b h rp"
  by (auto simp: grows_def waits_ok_def nth_append split: option.splits)

lemma go_ok_grows:
  assumes "go_ok a g" "grows a b"
    and red: "\<And>h j. starting h g \<Longrightarrow> (h, j) \<in> set (o_red b) \<Longrightarrow> (h, j) \<in> set (o_red a)"
  shows "go_ok b g"
proof -
  have job: "job_ok a j \<Longrightarrow> job_ok b j" for j by (rule job_ok_grows[OF assms(2)])
  have past: "past_ok a h \<Longrightarrow> starting h g \<Longrightarrow> past_ok b h" for h
    using assms(2) red by (auto simp: past_ok_def grows_def)
  have waits: "waits_ok a h rp \<Longrightarrow> starting h g \<Longrightarrow> waits_ok b h rp" for h rp
    by (rule waits_ok_grows[OF assms(2)]) (auto intro: red)
  have pub: "is_pub a h \<Longrightarrow> is_pub b h" "h < length (o_pub a) \<Longrightarrow> h < length (o_pub b)"
    "OfResponse h \<in> set (o_log a) \<Longrightarrow> OfResponse h \<in> set (o_log b)" for h
    using assms(2) by (auto simp: grows_def)
  show ?thesis using assms(1) by (cases g) (auto simp: job past waits pub starting_def)
qed

text \<open>Steps that publish nothing and start nothing: at most a reference to a hop is moved or lost.\<close>

lemma ord_ok_quiet:
  assumes ok: "ord_ok a"
    and same: "o_log b = o_log a" "o_gos b = o_gos a" "o_jobs b = o_jobs a" "o_closed b = o_closed a"
      "o_red b = o_red a" "o_pub b = o_pub a"
    and owes: "owes (o_pc b) = owes (o_pc a)"
    and settle: "\<And>h. count_list (o_pend b) (Some h) + of_bool (handler_settles (o_pc b) = Some h)
         \<le> count_list (o_pend a) (Some h) + of_bool (handler_settles (o_pc a) = Some h)"
    and hop: "\<And>h. handler_hop (o_pc b) = Some h \<Longrightarrow> h < length (o_pub a)"
    and pc: "o_pc b = o_pc a \<or> owes (o_pc b) = None \<or> refs_ok b"
  shows "ord_ok b"
proof (rule ord_okI)
  note o = ok[unfolded ord_ok_def]
  have pub: "is_pub b h = is_pub a h" for h by (simp add: is_pub_def same)
  have many: "many P b = many P a" for P by (simp add: many_def same)
  show "once_ok b" using o by (simp add: once_ok_def same owes many pub)
  have g: "grows a b" by (auto simp: grows_def same pub)
  show "go_ok b g" if "g \<in># o_gos b" for g
    using o that go_ok_grows[OF _ g] by (auto simp: same)
  show "jobs_ok b" using o by (simp add: jobs_ok_def same many)
  show "settle_ok b"
    unfolding settle_ok_def
  proof
    fix h
    have "settle_count h b \<le> settle_count h a" using settle[of h] by (simp add: settle_count_def same many)
    also have "\<dots> \<le> of_bool (h < length (o_pub a))" using o by (simp add: settle_ok_def)
    finally show "settle_count h b \<le> of_bool (h < length (o_pub b))" by (simp add: same)
  qed
  have w: "waits_ok b h rp = waits_ok a h rp" for h rp by (simp add: waits_ok_def same split: option.split)
  show "refs_ok b"
  proof (cases "owes (o_pc b)")
    case None
    then show ?thesis using hop by (cases "o_pc b") (simp_all add: refs_ok_def same)
  next
    case (Some h)
    then have "o_pc b = o_pc a \<or> refs_ok b" using pc by simp
    then show ?thesis
    proof
      assume "o_pc b = o_pc a"
      then show ?thesis using o by (cases "o_pc a") (simp_all add: refs_ok_def same w)
    qed
  qed
  show "red_ok b" using o by (simp add: red_ok_def same)
  show "log_ok b" using o by (simp add: log_ok_def same)
qed

lemma log_ok_append:
  assumes "log_ok a" "o_red b = o_red a" "o_jobs b = o_jobs a" "o_log b = o_log a @ [x]"
    and "\<And>y. precedes (o_red a) (o_jobs a) y x \<Longrightarrow> y \<in> set (o_log a)"
  shows "log_ok b"
  unfolding log_ok_def
proof (intro allI impI)
  fix i y
  assume i: "i < length (o_log b)" and p: "precedes (o_red b) (o_jobs b) y (o_log b ! i)"
  show "y \<in> set (take i (o_log b))"
  proof (cases "i < length (o_log a)")
    case True
    then show ?thesis using assms(1-4) p by (auto simp: log_ok_def nth_append)
  next
    case False
    then have "i = length (o_log a)" using i assms(4) by simp
    then show ?thesis using assms p by simp
  qed
qed

lemma settle_okD: "settle_ok a \<Longrightarrow> settle_count h a \<le> of_bool (h < length (o_pub a))"
  by (simp add: settle_ok_def)

text \<open>Publishing something that belongs to no hop.\<close>

lemma ord_ok_publish_none:
  assumes "ord_ok a"
  shows "ord_ok (a\<lparr>o_log := o_log a @ [OfNone]\<rparr>)"
proof (rule ord_okI)
  let ?b = "a\<lparr>o_log := o_log a @ [OfNone]\<rparr>"
  note o = assms[unfolded ord_ok_def]
  have m: "many P ?b = many P a" "is_pub ?b h = is_pub a h" for P h by (simp_all add: many_def is_pub_def)
  show "once_ok ?b" "jobs_ok ?b" "settle_ok ?b" using o
    by (simp_all add: once_ok_def jobs_ok_def settle_ok_def settle_count_def m)
  have g: "grows a ?b" by (auto simp: grows_def m)
  show "go_ok ?b g" if "g \<in># o_gos ?b" for g using o that go_ok_grows[OF _ g] by auto
  have w: "waits_ok ?b h rp = waits_ok a h rp" for h rp by (simp add: waits_ok_def split: option.split)
  show "refs_ok ?b" using o by (cases "o_pc a") (simp_all add: refs_ok_def w)
  show "red_ok ?b" using o by (auto simp: red_ok_def)
  show "log_ok ?b" using o by (auto intro!: log_ok_append[of a] simp: precedes_def)
qed

text \<open>Starting a goroutine that waits for a request before it reports something.\<close>

lemma ord_ok_spawn_after:
  assumes ok: "ord_ok a" and h: "h < length (o_pub a)" and none: "owes (o_pc a) = None" "owes pc = None"
    and hop: "\<And>h'. handler_hop pc = Some h' \<Longrightarrow> h' < length (o_pub a)"
    and settle: "\<And>h'. of_bool (settles (AfterWait h act) = Some h') + of_bool (handler_settles pc = Some h')
      \<le> (of_bool (handler_settles (o_pc a) = Some h') :: nat)"
  shows "ord_ok (a\<lparr>o_gos := add_mset (AfterWait h act) (o_gos a), o_pc := pc\<rparr>)"
proof (rule ord_okI)
  let ?b = "a\<lparr>o_gos := add_mset (AfterWait h act) (o_gos a), o_pc := pc\<rparr>"
  note o = ok[unfolded ord_ok_def]
  have m: "many P ?b = of_bool (P (AfterWait h act)) + many P a" "is_pub ?b h' = is_pub a h'" for P h'
    by (simp_all add: many_def is_pub_def)
  show "once_ok ?b" using o none by (simp add: once_ok_def m starting_def closing_def)
  show "jobs_ok ?b" using o by (simp add: jobs_ok_def m running_def)
  show "settle_ok ?b"
    unfolding settle_ok_def
  proof
    fix h'
    have "settle_count h' ?b \<le> settle_count h' a" using settle[of h'] by (simp add: settle_count_def m)
    then show "settle_count h' ?b \<le> of_bool (h' < length (o_pub ?b))"
      using settle_okD[of a h'] o by simp
  qed
  have g: "grows a ?b" by (auto simp: grows_def m)
  show "go_ok ?b g" if "g \<in># o_gos ?b" for g using o that go_ok_grows[OF _ g] h by auto
  show "refs_ok ?b" using none hop by (cases pc) (simp_all add: refs_ok_def)
  show "red_ok ?b" "log_ok ?b" using o by (simp_all add: red_ok_def log_ok_def)
qed

text \<open>A new hop, which its handler is to start and its pending request to settle.\<close>

lemma count_fresh: "ord_ok a \<Longrightarrow> count_list (o_log a) (OfRequest (length (o_pub a))) = 0 \<and>
    many (starting (length (o_pub a))) a = 0 \<and> settle_count (length (o_pub a)) a = 0"
  using once_okD(1)[of a "length (o_pub a)"] settle_okD[of a "length (o_pub a)"] by (simp add: ord_ok_def)

lemma ord_ok_new_hop:
  assumes ok: "ord_ok a" and pc: "o_pc a = QueueRequest p sid at info existing isRedirect navSeq cs"
    and pend: "\<And>h. h \<noteq> length (o_pub a) \<Longrightarrow> count_list pend (Some h) \<le> count_list (o_pend a) (Some h)"
      "count_list pend (Some (length (o_pub a))) \<le> 1"
  shows "ord_ok (a\<lparr>o_pub := o_pub a @ [False], o_pend := pend,
    o_pc := EmitRedirect p sid at info existing isRedirect (length (o_pub a)) cs\<rparr>)"
proof (rule ord_okI)
  let ?n = "length (o_pub a)"
  let ?b = "a\<lparr>o_pub := o_pub a @ [False], o_pend := pend, o_pc := EmitRedirect p sid at info existing isRedirect ?n cs\<rparr>"
  note o = ok[unfolded ord_ok_def]
  have m: "many P ?b = many P a" "is_pub ?b h = is_pub a h" for P h
    by (auto simp: many_def is_pub_def nth_append)
  have fresh: "count_list (o_log a) (OfRequest ?n) = 0" "many (starting ?n) a = 0" "settle_count ?n a = 0"
    using count_fresh[OF ok] by simp_all
  show "once_ok ?b"
    unfolding once_ok_def
  proof (intro conjI allI)
    fix h
    show "of_bool (owes (o_pc ?b) = Some h) + many (starting h) ?b + count_list (o_log ?b) (OfRequest h) =
        of_bool (h < length (o_pub ?b))"
      using once_okD(1)[of a h] o fresh pc by (cases "h = ?n") (auto simp: m less_Suc_eq)
    show "many (closing h) ?b + of_bool (is_pub ?b h) = count_list (o_log ?b) (OfRequest h)"
      using once_okD(2)[of a h] o by (simp add: m)
  qed
  have g: "grows a ?b" by (auto simp: grows_def m)
  show "go_ok ?b g" if "g \<in># o_gos ?b" for g using o that go_ok_grows[OF _ g] by auto
  show "jobs_ok ?b" using o by (simp add: jobs_ok_def m)
  show "settle_ok ?b"
    unfolding settle_ok_def
  proof
    fix h
    show "settle_count h ?b \<le> of_bool (h < length (o_pub ?b))"
    proof (cases "h = ?n")
      case True
      then show ?thesis using fresh(3) pend(2) pc by (auto simp: settle_count_def m)
    next
      case False
      then have "settle_count h ?b \<le> settle_count h a" using pend(1)[of h] pc by (simp add: settle_count_def m)
      also have "\<dots> \<le> of_bool (h < ?n)" using o by (simp add: settle_ok_def)
      finally show ?thesis by (auto simp: of_bool_def split: if_splits)
    qed
  qed
  have e: "h0 < ?n" if "ns_hop existing = Some h0" for h0 using o pc that by (simp add: refs_ok_def)
  have "(?n, j) \<notin> set (o_red a)" for j using o by (auto simp: red_ok_def)
  then show "refs_ok ?b" using e by (auto simp: refs_ok_def less_SucI)
  show "red_ok ?b" "log_ok ?b" using o by (auto simp: red_ok_def log_ok_def less_SucI)
qed

text \<open>A response publisher is started for the hop the handler is to settle.\<close>

lemma ord_ok_emit:
  assumes ok: "ord_ok a" and job: "rj_id job = length (o_jobs a)" "job_hop job = handler_settles (o_pc a)"
    and red: "red = o_red a \<or> (\<exists>h. owes (o_pc a) = Some h \<and> red = (h, length (o_jobs a)) # o_red a)"
    and pc: "owes pc = owes (o_pc a)" "handler_settles pc = None"
    and refs: "refs_ok (a\<lparr>o_jobs := o_jobs a @ [job], o_gos := add_mset (RespFetch job) (o_gos a), o_red := red, o_pc := pc\<rparr>)"
  shows "ord_ok (a\<lparr>o_jobs := o_jobs a @ [job], o_gos := add_mset (RespFetch job) (o_gos a), o_red := red, o_pc := pc\<rparr>)"
proof (rule ord_okI)
  let ?b = "a\<lparr>o_jobs := o_jobs a @ [job], o_gos := add_mset (RespFetch job) (o_gos a), o_red := red, o_pc := pc\<rparr>"
  note o = ok[unfolded ord_ok_def]
  have m: "many P ?b = of_bool (P (RespFetch job)) + many P a" "is_pub ?b h = is_pub a h" for P h
    by (simp_all add: many_def is_pub_def)
  show "once_ok ?b" using o pc by (simp add: once_ok_def m starting_def closing_def)
  have hop: "h < length (o_pub a)" if "job_hop job = Some h" for h
    using settle_okD[of a h] o that job(2) by (auto simp: settle_count_def of_bool_def split: if_splits)
  have new: "many (starting h) a = 0 \<and> OfRequest h \<notin> set (o_log a) \<and> h < length (o_pub a)" if "owes (o_pc a) = Some h" for h
    using once_okD(1)[of a h] o that by (auto simp: in_log_count of_bool_def split: if_splits)
  have g: "grows a ?b" by (auto simp: grows_def m)
  show "go_ok ?b g" if g': "g \<in># o_gos ?b" for g
  proof (cases "g = RespFetch job")
    case True
    then show ?thesis using job hop by (simp add: job_ok_def)
  next
    case False
    then have "g \<in># o_gos a" using g' by simp
    moreover have "(h, j) \<in> set (o_red a)" if st: "starting h g" and r: "(h, j) \<in> set (o_red ?b)" for h j
    proof (rule ccontr)
      assume "(h, j) \<notin> set (o_red a)"
      then have "owes (o_pc a) = Some h" using red r by auto
      then show False using new[of h] many_zero[OF _ calculation, of "starting h"] st by simp
    qed
    ultimately show ?thesis using o go_ok_grows[OF _ g] by blast
  qed
  show "jobs_ok ?b"
    unfolding jobs_ok_def
  proof (intro conjI allI ballI impI)
    fix j
    have j: "many (running j) a + of_bool (j \<in> o_closed a) = of_bool (j < length (o_jobs a))" for j
      using o by (simp add: jobs_ok_def)
    then show "many (running j) ?b + of_bool (j \<in> o_closed ?b) = of_bool (j < length (o_jobs ?b))"
      using j[of j] job(1) by (cases "j = length (o_jobs a)") (auto simp: m running_def)
    fix h
    assume c: "j \<in> o_closed ?b" and h: "job_hop (o_jobs ?b ! j) = Some h"
    have "j < length (o_jobs a)" using j[of j] c by (auto simp: of_bool_def split: if_splits)
    then show "OfResponse h \<in> set (o_log ?b)" using o c h by (simp add: jobs_ok_def nth_append)
  qed
  show "settle_ok ?b"
    unfolding settle_ok_def
  proof
    fix h
    have "settle_count h ?b = settle_count h a" using job(2) pc(2) by (simp add: settle_count_def m)
    then show "settle_count h ?b \<le> of_bool (h < length (o_pub ?b))" using settle_okD[of a h] o by simp
  qed
  show "refs_ok ?b" by (rule refs)
  have rd: "h < length (o_pub a) \<and> j < length (o_jobs a) \<and> (OfRequest h \<in> set (o_log a) \<longrightarrow> j \<in> o_closed a)"
    if "(h, j) \<in> set (o_red a)" for h j using o that by (auto simp: red_ok_def)
  show "red_ok ?b"
    unfolding red_ok_def
  proof (intro ballI)
    fix x assume x_in: "x \<in> set (o_red ?b)"
    obtain h j where xe: "x = (h, j)" by (cases x)
    then have x: "x = (h, j)" "(h, j) \<in> set (o_red a) \<or> owes (o_pc a) = Some h \<and> j = length (o_jobs a)"
      using red x_in by auto
    show "case x of (h, j) \<Rightarrow> h < length (o_pub ?b) \<and> j < length (o_jobs ?b) \<and>
        (OfRequest h \<in> set (o_log ?b) \<longrightarrow> j \<in> o_closed ?b)"
      using x(2) new[of h] rd[of h j] by (auto simp: x(1))
  qed
  show "log_ok ?b"
    unfolding log_ok_def
  proof (intro allI impI)
    fix i y
    assume i: "i < length (o_log ?b)" and p: "precedes (o_red ?b) (o_jobs ?b) y (o_log ?b ! i)"
    have "precedes (o_red a) (o_jobs a) y (o_log a ! i)"
    proof (cases "o_log a ! i")
      case (OfRequest h)
      then have "OfRequest h \<in> set (o_log a)" using i nth_mem[of i "o_log a"] by simp
      then have "owes (o_pc a) \<noteq> Some h" using new by blast
      then have r: "(h, j) \<in> set (o_red ?b) \<Longrightarrow> (h, j) \<in> set (o_red a) \<and> j < length (o_jobs a)" for j
        using red o by (auto simp: red_ok_def)
      obtain j h0 where j: "(h, j) \<in> set (o_red ?b)" "job_hop (o_jobs ?b ! j) = Some h0" "y = OfResponse h0"
        using p OfRequest by (auto simp: precedes_def)
      then have "job_hop (o_jobs a ! j) = Some h0" using r[OF j(1)] by (simp add: nth_append)
      then show ?thesis using j(3) r[OF j(1)] OfRequest by (auto simp: precedes_def)
    qed (use p in \<open>simp_all add: precedes_def\<close>)
    then show "y \<in> set (take i (o_log ?b))" using o i by (simp add: log_ok_def)
  qed
qed

lemma ord_ok_spawn_request:
  assumes ok: "ord_ok a" and pc: "o_pc a = SpawnRequest sid rid h rp isRedirect cs"
    and new: "owes pc = None" "handler_hop pc = None" "handler_settles pc = None"
  shows "ord_ok (a\<lparr>o_gos := add_mset (ReqWait key h rp) (o_gos a), o_pc := pc\<rparr>)"
proof (rule ord_okI)
  let ?b = "a\<lparr>o_gos := add_mset (ReqWait key h rp) (o_gos a), o_pc := pc\<rparr>"
  note o = ok[unfolded ord_ok_def]
  have m: "many P ?b = of_bool (P (ReqWait key h rp)) + many P a" "is_pub ?b h' = is_pub a h'" for P h'
    by (simp_all add: many_def is_pub_def)
  show "once_ok ?b"
    unfolding once_ok_def
  proof (intro conjI allI)
    fix h'
    show "of_bool (owes (o_pc ?b) = Some h') + many (starting h') ?b + count_list (o_log ?b) (OfRequest h') =
        of_bool (h' < length (o_pub ?b))"
      using once_okD(1)[of a h'] o pc new by (cases "h' = h") (simp_all add: m starting_def)
    show "many (closing h') ?b + of_bool (is_pub ?b h') = count_list (o_log ?b) (OfRequest h')"
      using once_okD(2)[of a h'] o by (simp add: m closing_def)
  qed
  have w: "waits_ok ?b h rp = waits_ok a h rp" for h rp by (simp add: waits_ok_def split: option.split)
  have g: "grows a ?b" by (auto simp: grows_def m)
  have "waits_ok a h rp" using o pc by (simp add: refs_ok_def)
  then show "go_ok ?b g" if "g \<in># o_gos ?b" for g using o that go_ok_grows[OF _ g] w by auto
  show "jobs_ok ?b" using o by (simp add: jobs_ok_def m running_def)
  show "settle_ok ?b" using o pc new by (simp add: settle_ok_def settle_count_def m)
  show "refs_ok ?b" using new by (cases pc) (simp_all add: refs_ok_def)
  show "red_ok ?b" "log_ok ?b" using o by (simp_all add: red_ok_def log_ok_def)
qed

text \<open>Steps of goroutines: \<open>rest\<close> is what is left of the goroutine.\<close>

definition go_gos :: "goroutine option \<Rightarrow> goroutine multiset \<Rightarrow> goroutine multiset" where
  "go_gos rest gs = (case rest of None \<Rightarrow> gs | Some g' \<Rightarrow> add_mset g' gs)"

definition left :: "(goroutine \<Rightarrow> bool) \<Rightarrow> goroutine option \<Rightarrow> nat" where
  "left P rest = (case rest of None \<Rightarrow> 0 | Some g \<Rightarrow> of_bool (P g))"

lemma left_simps [simp]: "left P None = 0" "left P (Some g) = of_bool (P g)"
  by (simp_all add: left_def)

lemma many_go: "many P (a\<lparr>o_gos := go_gos rest gs\<rparr>) + of_bool (P g) = many P (a\<lparr>o_gos := add_mset g gs\<rparr>) + left P rest"
  by (simp add: many_def go_gos_def left_def split: option.split)

lemma go_gos_in: "x \<in># go_gos rest gs \<longleftrightarrow> rest = Some x \<or> x \<in># gs"
  by (auto simp: go_gos_def split: option.split)

text \<open>
  The goroutine publishes \<open>x\<close>, closes channels or ends. Each obligation names what the step has to
  account for.
\<close>

lemma ord_ok_go:
  assumes ok: "ord_ok a" and gos: "o_gos a = add_mset g gs"
    and b: "b = a\<lparr>o_gos := go_gos rest gs, o_log := o_log a @ xs, o_pub := pub, o_closed := closed\<rparr>"
    and grow: "length pub = length (o_pub a)" "\<And>h. is_pub a h \<Longrightarrow> h < length pub \<and> pub ! h" "o_closed a \<subseteq> closed"
    and start: "\<And>h. left (starting h) rest + count_list xs (OfRequest h) = of_bool (starting h g)"
    and close: "\<And>h. left (closing h) rest + of_bool (is_pub b h) =
        of_bool (closing h g) + of_bool (is_pub a h) + count_list xs (OfRequest h)"
    and run: "\<And>j. left (running j) rest + of_bool (j \<in> closed) = of_bool (running j g) + of_bool (j \<in> o_closed a)"
    and closed: "\<And>j h. j \<in> closed \<Longrightarrow> j \<notin> o_closed a \<Longrightarrow> job_hop (o_jobs a ! j) = Some h \<Longrightarrow> OfResponse h \<in> set (o_log a)"
    and settle: "\<And>h. left (\<lambda>g. settles g = Some h) rest + count_list xs (OfResponse h) + count_list xs (OfFailure h)
        \<le> of_bool (settles g = Some h)"
    and rest: "\<And>g'. rest = Some g' \<Longrightarrow> go_ok b g'"
    and log: "xs = [] \<or> (\<exists>x. xs = [x] \<and> (\<forall>y. precedes (o_red a) (o_jobs a) y x \<longrightarrow> y \<in> set (o_log a)))"
    and red: "\<And>h j. OfRequest h \<in> set xs \<Longrightarrow> (h, j) \<in> set (o_red a) \<Longrightarrow> j \<in> closed"
  shows "ord_ok b"
proof (rule ord_okI)
  note o = ok[unfolded ord_ok_def]
  have m: "many P b + of_bool (P g) = many P a + left P rest" for P
    using many_go[where P = P and a = a and rest = rest and gs = gs and g = g] gos by (simp add: many_def b)
  have same: "o_jobs b = o_jobs a" "o_red b = o_red a" "o_pc b = o_pc a" "o_pend b = o_pend a" "o_log b = o_log a @ xs"
    "o_gos b = go_gos rest gs" "o_closed b = closed" "o_pub b = pub"
    by (simp_all add: b)
  have isp: "is_pub b h = (h < length pub \<and> pub ! h)" for h by (simp add: is_pub_def same)
  show "once_ok b"
    unfolding once_ok_def
  proof (intro conjI allI)
    fix h
    show "of_bool (owes (o_pc b) = Some h) + many (starting h) b + count_list (o_log b) (OfRequest h) =
        of_bool (h < length (o_pub b))"
      using once_okD(1)[of a h] o start[of h] m[of "starting h"] grow(1) by (simp add: same)
    show "many (closing h) b + of_bool (is_pub b h) = count_list (o_log b) (OfRequest h)"
      using once_okD(2)[of a h] o close[of h] m[of "closing h"] by (simp add: same)
  qed
  have g: "grows a b" using grow isp by (auto simp: grows_def same)
  show "go_ok b x" if "x \<in># o_gos b" for x
    using that o gos rest go_ok_grows[OF _ g] by (auto simp: same go_gos_in)
  show "jobs_ok b"
    unfolding jobs_ok_def
  proof (intro conjI allI ballI impI)
    fix j
    have j: "many (running j) a + of_bool (j \<in> o_closed a) = of_bool (j < length (o_jobs a))"
      using o by (simp add: jobs_ok_def)
    show "many (running j) b + of_bool (j \<in> o_closed b) = of_bool (j < length (o_jobs b))"
      using j run[of j] m[of "running j"] by (simp add: same)
    fix h
    assume "j \<in> o_closed b" "job_hop (o_jobs b ! j) = Some h"
    then show "OfResponse h \<in> set (o_log b)" using o closed[of j h] by (auto simp: jobs_ok_def same)
  qed
  show "settle_ok b"
    unfolding settle_ok_def
  proof
    fix h
    have "settle_count h b \<le> settle_count h a"
      using settle[of h] m[of "\<lambda>g. settles g = Some h"] by (simp add: settle_count_def same)
    then show "settle_count h b \<le> of_bool (h < length (o_pub b))" using settle_okD[of a h] o grow(1) by (simp add: same)
  qed
  have w: "waits_ok b h rp = waits_ok a h rp" for h rp by (simp add: waits_ok_def same split: option.split)
  show "refs_ok b" using o grow(1) by (cases "o_pc a") (simp_all add: refs_ok_def same w)
  show "red_ok b" using o grow(1,3) red by (fastforce simp: red_ok_def same)
  show "log_ok b"
    using log
  proof
    assume "xs = []"
    then show ?thesis using o by (simp add: log_ok_def same)
  next
    assume "\<exists>x. xs = [x] \<and> (\<forall>y. precedes (o_red a) (o_jobs a) y x \<longrightarrow> y \<in> set (o_log a))"
    then show ?thesis using o by (auto intro!: log_ok_append[of a b] simp: same)
  qed
qed

lemma ord_ok_go_quiet:
  assumes ok: "ord_ok a" and gos: "o_gos a = add_mset g gs"
    and same: "\<And>h. left (starting h) rest = of_bool (starting h g)" "\<And>h. left (closing h) rest = of_bool (closing h g)"
      "\<And>j. left (running j) rest = of_bool (running j g)"
      "\<And>h. left (\<lambda>g. settles g = Some h) rest \<le> of_bool (settles g = Some h)"
    and rest: "\<And>g'. rest = Some g' \<Longrightarrow> go_ok a g'"
  shows "ord_ok (a\<lparr>o_gos := go_gos rest gs\<rparr>)"
proof -
  let ?b = "a\<lparr>o_gos := go_gos rest gs, o_log := o_log a @ [], o_pub := o_pub a, o_closed := o_closed a\<rparr>"
  have p: "is_pub ?b h = is_pub a h" for h by (simp add: is_pub_def)
  have g: "grows a ?b" by (auto simp: grows_def is_pub_def)
  have "ord_ok ?b"
    by (rule ord_ok_go[OF ok gos refl]) (use same rest go_ok_grows[OF _ g] in \<open>auto simp: p is_pub_def is_pub_simps\<close>)
  then show ?thesis by simp
qed

lemma publish_log [simp]:
  "map fst (mc_log (publishEventAt eh b subj at ty cat src ev data sid s)) = map fst (mc_log s) @ [subj]"
  by (simp add: publishEventAt_def Let_def)

lemma ord_of_gos: "ord_of (s\<lparr>mc_gos := g\<rparr>) = (ord_of s)\<lparr>o_gos := g\<rparr>"
  by (simp add: ord_of_def)

lemma proxy_error_log:
  "map fst (mc_log (publishProxyError eh b subj a s)) = map fst (mc_log s) \<or>
   map fst (mc_log (publishProxyError eh b subj a s)) = map fst (mc_log s) @ [subj]"
  by (simp add: publishProxyError_def Let_def case_prod_beta net_frame)

lemma run_after_log:
  "\<exists>xs. map fst (mc_log (run_after eh b (Some h) act s)) = map fst (mc_log s) @ xs \<and>
     (xs = [] \<or> xs = [OfProxyError h] \<or> xs = [OfFailure h] \<and> settles (AfterAct h act) = Some h)"
proof (cases act)
  case (PublishFailed a b c d)
  then show ?thesis by (simp add: run_after_def)
next
  case (PublishProxyError x)
  then show ?thesis using proxy_error_log[of eh b "OfProxyError h" x s] by (auto simp: run_after_def)
qed

lemma finish_publication_ord: "ord_of (finishNetworkPublication key e s) = ord_of s"
  by (simp add: ord_of_def net_frame)

lemmas stage_defs = starting_def closing_def running_def

text \<open>The obligations of \<open>ord_ok_go\<close>, for a step that publishes \<open>x\<close> and touches no channel.\<close>

lemma ord_ok_go_publish:
  assumes ok: "ord_ok a" and gos: "o_gos a = add_mset g gs"
    and start: "\<And>h. left (starting h) rest + of_bool (x = OfRequest h) = of_bool (starting h g)"
    and close: "\<And>h. left (closing h) rest = of_bool (closing h g) + of_bool (x = OfRequest h)"
    and run: "\<And>j. left (running j) rest = of_bool (running j g)"
    and settle: "\<And>h. left (\<lambda>g. settles g = Some h) rest + of_bool (x = OfResponse h) + of_bool (x = OfFailure h)
        \<le> of_bool (settles g = Some h)"
    and rest: "\<And>g'. rest = Some g' \<Longrightarrow> go_ok (a\<lparr>o_log := o_log a @ [x]\<rparr>) g'"
    and log: "\<And>y. precedes (o_red a) (o_jobs a) y x \<Longrightarrow> y \<in> set (o_log a)"
    and red: "\<And>h j. x = OfRequest h \<Longrightarrow> (h, j) \<in> set (o_red a) \<Longrightarrow> j \<in> o_closed a"
  shows "ord_ok (a\<lparr>o_gos := go_gos rest gs, o_log := o_log a @ [x]\<rparr>)"
proof -
  let ?b = "a\<lparr>o_gos := go_gos rest gs, o_log := o_log a @ [x], o_pub := o_pub a, o_closed := o_closed a\<rparr>"
  have p: "is_pub ?b h = is_pub a h" "is_pub (a\<lparr>o_log := o_log a @ [x]\<rparr>) h = is_pub a h" for h by (simp_all add: is_pub_def)
  have g: "grows (a\<lparr>o_log := o_log a @ [x]\<rparr>) ?b" by (auto simp: grows_def is_pub_def)
  have cnt: "count_list [x] y = of_bool (x = y)" for y by simp
  have "ord_ok ?b"
  proof (rule ord_ok_go[OF ok gos refl])
    show "left (starting h) rest + count_list [x] (OfRequest h) = of_bool (starting h g)" for h
      using start[of h] by (simp only: cnt)
    show "left (closing h) rest + of_bool (is_pub ?b h) = of_bool (closing h g) + of_bool (is_pub a h) + count_list [x] (OfRequest h)" for h
      using close[of h] by (simp only: cnt p)
    show "left (\<lambda>g. settles g = Some h) rest + count_list [x] (OfResponse h) + count_list [x] (OfFailure h)
        \<le> of_bool (settles g = Some h)" for h
      using settle[of h] by (simp only: cnt)
    show "go_ok ?b g'" if "rest = Some g'" for g'
      by (rule go_ok_grows[OF rest[OF that] g]) simp
    show "j \<in> o_closed a" if "OfRequest h \<in> set [x]" "(h, j) \<in> set (o_red a)" for h j
      using red[of h j] that by simp
  qed (use run log in \<open>auto simp: is_pub_def\<close>)
  then show ?thesis by simp
qed

lemma go_step_ok:
  assumes ok: "ord_ok (ord_of s)" and gos: "mc_gos s = add_mset g gs"
    and run: "run_go eh b reply timer g s = Some (s', rest)"
  shows "ord_ok (ord_of (s'\<lparr>mc_gos := go_gos rest gs\<rparr>))"
proof -
  let ?a = "ord_of s"
  have og: "o_gos ?a = add_mset g gs" using gos by (simp add: ord_of_def)
  have gok: "go_ok ?a g" using ok og by (auto simp: ord_ok_def)
  note quiet = ord_ok_go_quiet[OF ok og]
  note publish = ord_ok_go_publish[OF ok og]
  note o = ok[unfolded ord_ok_def]
  have hops: "is_pub ?a h" if "hp_requestPublished (mc_hopheap s ! h)" "h < length (o_pub ?a)" for h
    using that by (simp add: is_pub_def ord_of_def)
  show ?thesis
  proof (cases g)
    case (ReqWait k h rp)
    then show ?thesis using run gok quiet[of "Some (ReqRedirect k h rp)"]
      by (auto simp: ord_of_gos stage_defs split: if_splits)
  next
    case (ReqRedirect k h rp)
    have "past_ok ?a h" if "rp = None \<or> (\<exists>j. rp = Some j \<and> j \<in> mc_closed s)"
      using gok that ReqRedirect by (auto simp: past_ok_def waits_ok_def ord_of_def)
    then show ?thesis using run ReqRedirect quiet[of "Some (ReqRead k h)"]
      by (auto simp: ord_of_gos stage_defs split: if_splits option.splits)
  next
    case (ReqRead k h)
    then show ?thesis using run gok quiet[of rest] by (auto simp: ord_of_gos stage_defs Let_def)
  next
    case (ReqPublish k h d)
    have lt: "h < length (o_pub ?a)"
      using once_okD(1)[of ?a h] many_pos[of g ?a "starting h"] o og ReqPublish
      by (auto simp: starting_def of_bool_def split: if_splits)
    have pre: "y \<in> set (o_log ?a)" if "precedes (o_red ?a) (o_jobs ?a) y (OfRequest h)" for y
      using that gok ReqPublish o by (auto simp: precedes_def past_ok_def jobs_ok_def)
    have "ord_of (s'\<lparr>mc_gos := go_gos rest gs\<rparr>) = ?a\<lparr>o_gos := go_gos (Some (ReqClose k h)) gs, o_log := o_log ?a @ [OfRequest h]\<rparr>"
      using run ReqPublish by (auto simp: ord_of_def net_frame Let_def)
    then show ?thesis
      using publish[of "Some (ReqClose k h)" "OfRequest h"] ReqPublish gok pre lt by (auto simp: stage_defs past_ok_def)
  next
    case (ReqClose k h)
    let ?pub = "(o_pub ?a)[h := True]"
    have lt: "h < length (o_pub ?a)" using gok ReqClose by simp
    have cl: "many (closing h) ?a > 0" using many_pos[of g ?a "closing h"] og ReqClose by (simp add: closing_def)
    then have np: "\<not> is_pub ?a h"
      using once_okD[of ?a h] o by (auto simp: of_bool_def split: if_splits)
    have b: "ord_of (s'\<lparr>mc_gos := go_gos rest gs\<rparr>) =
        ?a\<lparr>o_gos := go_gos (Some (ReqFinish k h)) gs, o_log := o_log ?a @ [], o_pub := ?pub, o_closed := o_closed ?a\<rparr>"
      using run ReqClose by (auto simp: ord_of_def net_frame upd_hop_def map_update)
    show ?thesis
      unfolding b
      by (rule ord_ok_go[OF ok og refl])
        (use lt np ReqClose in \<open>auto simp: stage_defs is_pub_def nth_list_update\<close>)
  next
    case (ReqFinish k h)
    then show ?thesis using run quiet[of None] by (auto simp: ord_of_gos finish_publication_ord stage_defs)
  next
    case (RespFetch j)
    then show ?thesis using run gok quiet[of rest] by (auto simp: ord_of_gos stage_defs Let_def split: option.splits)
  next
    case (RespWait j body)
    then show ?thesis using run gok quiet[of rest] by (auto simp: ord_of_gos stage_defs split: option.splits if_splits)
  next
    case (RespOrder j body)
    then show ?thesis using run gok quiet[of "Some (RespRead j body)"] hops
      by (auto simp: ord_of_gos stage_defs job_ok_def split: option.splits if_splits)
  next
    case (RespRead j body)
    then show ?thesis using run gok quiet[of rest] by (auto simp: ord_of_gos stage_defs split: option.splits)
  next
    case (RespPublish j d src)
    have pre: "y \<in> set (o_log ?a)" if "precedes (o_red ?a) (o_jobs ?a) y (job_subject j)" for y
      using that gok RespPublish o published_in_log[of ?a]
      by (auto simp: precedes_def job_subject_def split: option.splits)
    have "ord_of (s'\<lparr>mc_gos := go_gos rest gs\<rparr>) = ?a\<lparr>o_gos := go_gos (Some (RespFinish j)) gs, o_log := o_log ?a @ [job_subject j]\<rparr>"
      using run RespPublish by (auto simp: ord_of_def net_frame)
    then show ?thesis
      using publish[of "Some (RespFinish j)" "job_subject j"] RespPublish gok pre
      by (auto simp: stage_defs job_subject_def job_ok_def split: option.splits)
  next
    case (RespFinish j)
    then show ?thesis using run gok quiet[of "Some (RespClose j)"]
      by (auto simp: ord_of_gos finish_publication_ord stage_defs split: option.splits)
  next
    case (RespClose j)
    let ?c = "insert (rj_id j) (o_closed ?a)"
    have r: "many (running (rj_id j)) ?a > 0" using many_pos[of g ?a] og RespClose by (simp add: running_def)
    have nc: "rj_id j \<notin> o_closed ?a"
    proof
      assume "rj_id j \<in> o_closed ?a"
      moreover have "many (running (rj_id j)) ?a + of_bool (rj_id j \<in> o_closed ?a) = of_bool (rj_id j < length (o_jobs ?a))"
        using o by (simp add: jobs_ok_def)
      ultimately show False using r by (auto simp: of_bool_def split: if_splits)
    qed
    have b: "ord_of (s'\<lparr>mc_gos := go_gos rest gs\<rparr>) =
        ?a\<lparr>o_gos := go_gos None gs, o_log := o_log ?a @ [], o_pub := o_pub ?a, o_closed := ?c\<rparr>"
      using run RespClose by (auto simp: ord_of_def)
    show ?thesis
      unfolding b
      by (rule ord_ok_go[OF ok og refl]) (use nc RespClose gok in \<open>auto simp: stage_defs is_pub_def job_ok_def\<close>)
  next
    case (AfterWait h act)
    then show ?thesis using run gok quiet[of "Some (AfterAct h act)"] hops
      by (cases act) (auto simp: ord_of_gos stage_defs split: if_splits)
  next
    case (AfterAct h act)
    then have s': "s' = run_after eh b (Some h) act s" "rest = None" using run by simp_all
    obtain xs where xs: "map fst (mc_log s') = map fst (mc_log s) @ xs"
      "xs = [] \<or> xs = [OfProxyError h] \<or> xs = [OfFailure h] \<and> settles (AfterAct h act) = Some h"
      using run_after_log[of eh b h act s] s' by auto
    have req: "OfRequest h \<in> set (o_log ?a)" using published_in_log[of ?a h] o gok AfterAct by simp
    have b: "ord_of (s'\<lparr>mc_gos := go_gos rest gs\<rparr>) = ?a\<lparr>o_gos := go_gos None gs, o_log := o_log ?a @ xs\<rparr>"
      using xs(1) s' by (simp add: ord_of_def net_frame)
    show ?thesis
    proof (cases "xs = []")
      case True
      then show ?thesis using b quiet[of None] AfterAct by (simp add: stage_defs)
    next
      case False
      then obtain x where x: "xs = [x]" "x = OfProxyError h \<or> x = OfFailure h \<and> settles g = Some h"
        using xs(2) AfterAct by auto
      show ?thesis unfolding b x(1)
        by (rule publish) (use x(2) req AfterAct in \<open>auto simp: stage_defs precedes_def\<close>)
    qed
  qed
qed

subsection \<open>Steps of the handler\<close>

lemma pend_update:
  "count_list (map (f \<circ> snd) (AList.update k v al)) x +
     of_bool (\<exists>w. map_of al k = Some w \<and> f w = x) =
   count_list (map (f \<circ> snd) al) x + of_bool (f v = x)"
  by (induction al) auto

lemma pend_update_le:
  "count_list (map (f \<circ> snd) (AList.update k v al)) x \<le> count_list (map (f \<circ> snd) al) x + of_bool (f v = x)"
  using pend_update[of f k v al x] by simp

lemma pend_filter: "count_list (map (f \<circ> snd) (filter P al)) x \<le> count_list (map (f \<circ> snd) al) x"
  by (induction al) auto

lemma pend_delete:
  "count_list (map (f \<circ> snd) (AList.delete k al)) x + of_bool (\<exists>w. map_of al k = Some w \<and> f w = x)
     \<le> count_list (map (f \<circ> snd) al) x"
proof (induction al)
  case (Cons p al)
  have "count_list (map (f \<circ> snd) (AList.delete k al)) x \<le> count_list (map (f \<circ> snd) al) x"
    using pend_filter by (simp add: AList.delete_eq)
  with Cons show ?case by (cases p) (auto simp: AList.delete_eq)
qed simp

lemma pend_lookup: "map_of al k = Some w \<Longrightarrow> 0 < count_list (map (f \<circ> snd) al) (f w)"
  by (induction al) (auto split: if_splits)

lemma pending_hop_bound:
  assumes "ord_ok (ord_of s)" "map_of (mc_pending s) key = Some st" "ns_hop st = Some h"
  shows "h < length (mc_hopheap s)"
proof -
  have "0 < count_list (o_pend (ord_of s)) (Some h)"
    using pend_lookup[OF assms(2), of ns_hop] assms(3) by (simp add: ord_of_def)
  then have "0 < settle_count h (ord_of s)" by (simp add: settle_count_def)
  then show ?thesis
    using settle_okD[of "ord_of s" h] assms(1) by (auto simp: ord_ok_def ord_of_def of_bool_def split: if_splits)
qed

lemma published_hops: "hops_same a b \<Longrightarrow> map hp_requestPublished b = map hp_requestPublished a"
  by (simp add: hops_same_def)

text \<open>The quiet steps, over the state of the program.\<close>

lemma quiet_step:
  assumes ok: "ord_ok (ord_of s)"
    and same: "mc_log s' = mc_log s" "mc_gos s' = mc_gos s" "mc_jobs s' = mc_jobs s" "mc_closed s' = mc_closed s"
      "mc_redirects s' = mc_redirects s" "hops_same (mc_hopheap s) (mc_hopheap s')"
    and owes: "owes (mc_handler s') = owes (mc_handler s)"
    and settle: "\<And>h. count_list (map (ns_hop \<circ> snd) (mc_pending s')) (Some h) + of_bool (handler_settles (mc_handler s') = Some h)
         \<le> count_list (map (ns_hop \<circ> snd) (mc_pending s)) (Some h) + of_bool (handler_settles (mc_handler s) = Some h)"
    and hop: "\<And>h. handler_hop (mc_handler s') = Some h \<Longrightarrow> h < length (mc_hopheap s)"
    and pc: "mc_handler s' = mc_handler s \<or> owes (mc_handler s') = None \<or> refs_ok (ord_of s')"
  shows "ord_ok (ord_of s')"
  by (rule ord_ok_quiet[OF ok]) (use same owes settle hop pc published_hops in \<open>auto simp: ord_of_def\<close>)

lemma same_handler_hop: "ord_ok (ord_of s) \<Longrightarrow> handler_hop (mc_handler s) = Some h \<Longrightarrow> h < length (mc_hopheap s)"
  by (simp add: ord_ok_def refs_ok_def ord_of_def)

lemma queue_result:
  "fst (queueNetworkRequestLocked eh b key rq info at s) = length (mc_hopheap s) \<and>
   (\<exists>hop. mc_hopheap (snd (queueNetworkRequestLocked eh b key rq info at s)) = mc_hopheap s @ [hop] \<and>
      \<not> hp_requestPublished hop \<and> hp_request hop = rq)"
  by (simp add: queueNetworkRequestLocked_def Let_def net_frame case_prod_beta split: option.split)

lemma publish_none_ord:
  "ord_ok (ord_of s) \<Longrightarrow> ord_ok (ord_of (publishEventAt eh b OfNone at ty cat src ev data sid s))"
  using ord_ok_publish_none[of "ord_of s"] by (simp add: ord_of_def net_frame)

lemma run_after_none_ord:
  assumes "ord_ok (ord_of s)"
  shows "ord_ok (ord_of (run_after eh b None act s))"
proof (cases act)
  case (PublishFailed a b' c d)
  then show ?thesis using publish_none_ord[OF assms] by (simp add: run_after_def)
next
  case (PublishProxyError x)
  have "ord_of (publishProxyError eh b OfNone x s) = ord_of s \<or>
      ord_of (publishProxyError eh b OfNone x s) = (ord_of s)\<lparr>o_log := o_log (ord_of s) @ [OfNone]\<rparr>"
    using proxy_error_log[of eh b OfNone x s] by (auto simp: ord_of_def net_frame)
  then show ?thesis using PublishProxyError assms ord_ok_publish_none[OF assms] by (auto simp: run_after_def)
qed

text \<open>A quiet change of the handler after another step.\<close>

lemma idle_after:
  assumes "ord_ok (ord_of s)" "owes (mc_handler s) = None" "owes pc = None" "handler_settles pc = None" "handler_hop pc = None"
  shows "ord_ok (ord_of (s\<lparr>mc_handler := pc\<rparr>))"
  by (rule quiet_step[OF assms(1)]) (use assms in auto)

lemma publish_after_ok:
  assumes ok: "ord_ok (ord_of s)" and owes: "owes (mc_handler s) = None" "owes pc = None" "handler_settles pc = None" "handler_hop pc = None"
    and hop: "\<And>h. hop = Some h \<Longrightarrow> handler_hop (mc_handler s) = Some h"
    and settle: "\<And>h h'. hop = Some h \<Longrightarrow> settles (AfterWait h act) = Some h' \<Longrightarrow> handler_settles (mc_handler s) = Some h'"
  shows "ord_ok (ord_of ((publishAfterNetworkRequest eh b hop act s)\<lparr>mc_handler := pc\<rparr>))"
proof (cases hop)
  case None
  then show ?thesis
    using idle_after[OF run_after_none_ord[OF ok], of eh b act pc] owes
    by (simp add: publishAfterNetworkRequest_def net_frame)
next
  case (Some h)
  have "ord_ok ((ord_of s)\<lparr>o_gos := add_mset (AfterWait h act) (o_gos (ord_of s)), o_pc := pc\<rparr>)"
    by (rule ord_ok_spawn_after[OF ok])
      (use owes hop[OF Some] settle[OF Some] same_handler_hop[OF ok, of h] in \<open>auto simp: ord_of_def of_bool_def\<close>)
  then show ?thesis using Some by (simp add: publishAfterNetworkRequest_def spawn_def ord_of_def)
qed

lemma emit_result:
  "fst (emitNetworkResponse at key st info redirect s) = length (mc_jobs s) \<and>
   (\<exists>job. rj_id job = length (mc_jobs s) \<and> job_hop job = ns_hop st \<and>
      mc_jobs (snd (emitNetworkResponse at key st info redirect s)) = mc_jobs s @ [job] \<and>
      mc_gos (snd (emitNetworkResponse at key st info redirect s)) = add_mset (RespFetch job) (mc_gos s))"
  by (simp add: emitNetworkResponse_def Let_def net_frame spawn_def split: option.split)

lemma with_response_hop [simp]: "ns_hop (with_response r st) = ns_hop st"
  by (simp add: with_response_def)

lemma recount_hop [simp]: "ns_hop (recount sid l cs n st) = ns_hop st"
  by (simp add: recount_def)

lemma reset_pend: "map (ns_hop \<circ> snd) (mc_pending (reset_navigation eh b f sid info cs s)) = map (ns_hop \<circ> snd) (mc_pending s)"
  by (auto simp: reset_navigation_def Let_def net_frame split: option.split)

lemma handler_step_ok:
  assumes ok: "ord_ok (ord_of s)" and choice: "code_choice (mc_handler s) code"
  shows "ord_ok (ord_of (run_handler eh b code (mc_handler s) s))"
proof (cases "mc_handler s")
  case Idle
  then show ?thesis using ok by simp
next
  case (QueueRequest p sid at info existing isRedirect navSeq cs)
  let ?q = "queueNetworkRequestLocked eh b (sid, wb_RequestID p)
      (request_payload p sid info existing isRedirect navSeq)
      (if wb_DocumentURL p \<noteq> [] then info\<lparr>ti_url := wb_DocumentURL p\<rparr> else info) at s"
  let ?st = "(pending_of (sid, wb_RequestID p) (snd ?q))\<lparr>ns_hop := Some (length (mc_hopheap s))\<rparr>"
  let ?pend = "map (ns_hop \<circ> snd) (AList.update (sid, wb_RequestID p) ?st (mc_pending s))"
  obtain hop where h: "mc_hopheap (snd ?q) = mc_hopheap s @ [hop]" "\<not> hp_requestPublished hop"
    using queue_result by blast
  have res: "ord_of (run_handler eh b code (mc_handler s) s) = (ord_of s)\<lparr>o_pub := o_pub (ord_of s) @ [False], o_pend := ?pend,
      o_pc := EmitRedirect p sid at info existing isRedirect (length (o_pub (ord_of s))) cs\<rparr>"
    using QueueRequest h queue_result[of eh b]
    by (simp add: ord_of_def Let_def case_prod_beta net_frame set_pending_def)
  have le: "count_list ?pend (Some h) \<le> count_list (o_pend (ord_of s)) (Some h) + of_bool (length (mc_hopheap s) = h)" for h
    using pend_update_le[of ns_hop "(sid, wb_RequestID p)" ?st "mc_pending s" "Some h"] by (simp add: ord_of_def)
  have z: "count_list (o_pend (ord_of s)) (Some (length (mc_hopheap s))) = 0"
    using count_fresh[OF ok] by (simp add: settle_count_def ord_of_def)
  have len: "length (o_pub (ord_of s)) = length (mc_hopheap s)" by (simp add: ord_of_def)
  show ?thesis
    unfolding res
  proof (rule ord_ok_new_hop[OF ok])
    show "o_pc (ord_of s) = QueueRequest p sid at info existing isRedirect navSeq cs" using QueueRequest by (simp add: ord_of_def)
    show "count_list ?pend (Some h) \<le> count_list (o_pend (ord_of s)) (Some h)" if "h \<noteq> length (o_pub (ord_of s))" for h
      using le[of h] that len by simp
    show "count_list ?pend (Some (length (o_pub (ord_of s)))) \<le> 1"
      using le[of "length (mc_hopheap s)"] z unfolding len by simp
  qed
next
  case (EmitRedirect p sid at info existing isRedirect h cs)
  have refs: "\<And>h0. ns_hop existing = Some h0 \<Longrightarrow> h0 < h" "\<And>j. (h, j) \<notin> set (mc_redirects s)"
    using ok EmitRedirect by (auto simp: ord_ok_def refs_ok_def ord_of_def)
  show ?thesis
  proof (cases "redirect_response p isRedirect")
    case None
    show ?thesis
      by (rule quiet_step[OF ok])
        (use EmitRedirect None refs in \<open>auto simp: refs_ok_def waits_ok_def ord_of_def\<close>)
  next
    case (Some r)
    let ?e = "emitNetworkResponse at (sid, wb_RequestID p) (with_response r existing) info True s"
    obtain job where j: "rj_id job = length (mc_jobs s)" "job_hop job = ns_hop existing" "fst ?e = length (mc_jobs s)"
      "mc_jobs (snd ?e) = mc_jobs s @ [job]" "mc_gos (snd ?e) = add_mset (RespFetch job) (mc_gos s)"
      using emit_result[of at "(sid, wb_RequestID p)" "with_response r existing" info True s] by auto
    let ?a = "ord_of s" and ?pc = "SpawnRequest sid (wb_RequestID p) h (Some (length (mc_jobs s))) isRedirect cs"
    let ?b = "?a\<lparr>o_jobs := o_jobs ?a @ [job], o_gos := add_mset (RespFetch job) (o_gos ?a),
        o_red := (h, length (o_jobs ?a)) # o_red ?a, o_pc := ?pc\<rparr>"
    have "ord_ok ?b"
      by (rule ord_ok_emit[OF ok])
        (use j EmitRedirect refs in \<open>auto simp: refs_ok_def waits_ok_def ord_of_def\<close>)
    moreover have "ord_of (run_handler eh b code (mc_handler s) s) = ?b"
      using EmitRedirect Some j by (simp add: ord_of_def case_prod_beta net_frame)
    ultimately show ?thesis by simp
  qed
next
  case (SpawnRequest sid rid h rp isRedirect cs)
  let ?pc = "case cs of Some c \<Rightarrow> if isRedirect then Idle else CountRequest c | None \<Rightarrow> Idle"
  have "owes ?pc = None \<and> handler_hop ?pc = None \<and> handler_settles ?pc = None" by (auto split: option.split)
  then show ?thesis
    using ord_ok_spawn_request[OF ok, of sid rid h rp isRedirect cs ?pc "(sid, rid)"] SpawnRequest
    by (simp add: ord_of_def spawn_def)
next
  case (CountRequest c)
  show ?thesis by (rule quiet_step[OF ok]) (use CountRequest in \<open>auto simp: net_frame\<close>)
next
  case (CheckProxyError p sid at found)
  show ?thesis
  proof (cases code)
    case None
    show ?thesis by (rule quiet_step[OF ok]) (use CheckProxyError None in auto)
  next
    case (Some c)
    have "ord_ok (ord_of ((publishAfterNetworkRequest eh b (case found of Some st \<Rightarrow> ns_hop st | None \<Rightarrow> None)
        (PublishProxyError (proxy_error_args p sid at found c s)) s)\<lparr>mc_handler := Idle\<rparr>))"
      by (rule publish_after_ok[OF ok]) (use CheckProxyError in auto)
    then show ?thesis using CheckProxyError Some by simp
  qed
next
  case (UncountFinished sid rid at st info)
  show ?thesis by (rule quiet_step[OF ok]) (use UncountFinished same_handler_hop[OF ok] in \<open>auto simp: net_frame\<close>)
next
  case (EmitFinished sid rid at st info)
  let ?e = "emitNetworkResponse at (sid, rid) st info False s" and ?a = "ord_of s"
  obtain job where j: "rj_id job = length (mc_jobs s)" "job_hop job = ns_hop st"
    "mc_jobs (snd ?e) = mc_jobs s @ [job]" "mc_gos (snd ?e) = add_mset (RespFetch job) (mc_gos s)"
    using emit_result[of at "(sid, rid)" st info False s] by auto
  let ?b = "?a\<lparr>o_jobs := o_jobs ?a @ [job], o_gos := add_mset (RespFetch job) (o_gos ?a), o_red := o_red ?a, o_pc := Idle\<rparr>"
  have "ord_ok ?b"
    by (rule ord_ok_emit[OF ok]) (use j EmitFinished in \<open>auto simp: refs_ok_def ord_of_def\<close>)
  moreover have "ord_of (run_handler eh b code (mc_handler s) s) = ?b"
    using EmitFinished j by (simp add: ord_of_def net_frame)
  ultimately show ?thesis by simp
next
  case (PublishFailure p sid at found)
  let ?hop = "case found of Some st \<Rightarrow> ns_hop st | None \<Rightarrow> None"
  let ?pc = "case found of Some st \<Rightarrow> UncountFailed st | None \<Rightarrow> Idle"
  have "ord_ok (ord_of ((publishAfterNetworkRequest eh b ?hop
      (PublishFailed at (hop_source s ?hop) (failed_payload p sid found s) sid) s)\<lparr>mc_handler := ?pc\<rparr>))"
    by (rule publish_after_ok[OF ok]) (use PublishFailure in \<open>auto split: option.splits\<close>)
  then show ?thesis using PublishFailure by (simp add: Let_def)
next
  case (UncountFailed st)
  show ?thesis by (rule quiet_step[OF ok]) (use UncountFailed in \<open>auto simp: net_frame\<close>)
next
  case (PublishNavigation f sid info cs)
  let ?s = "publishEventAt eh b OfNone (mc_clock s) ''page_navigation'' Page (cdp_source None) ''Page.frameNavigated''
        (NavigationData (navigation_payload f sid info)) sid s"
  show ?thesis
    using PublishNavigation idle_after[OF publish_none_ord[OF ok]] by (simp add: net_frame)
next
  case (ResetNavigation f sid info cs)
  show ?thesis by (rule quiet_step[OF ok]) (use ResetNavigation in \<open>auto simp: net_frame reset_pend\<close>)
next
  case (StopComputed sid c)
  show ?thesis by (rule quiet_step[OF ok]) (use StopComputed in \<open>auto simp: net_frame\<close>)
next
  case (ForgetSession sid)
  show ?thesis by (rule quiet_step[OF ok]) (use ForgetSession pend_filter in \<open>auto simp: net_frame\<close>)
qed

subsection \<open>All steps\<close>

lemma request_result:
  "\<exists>at info isRedirect navSeq cs st.
     mc_handler (handleNetworkRequest p sid s) =
       QueueRequest p sid at info (pending_of (sid, wb_RequestID p) s) isRedirect navSeq cs \<and>
     mc_pending (handleNetworkRequest p sid s) = AList.update (sid, wb_RequestID p) st (mc_pending s) \<and>
     ns_hop st = None \<and> hops_same (mc_hopheap s) (mc_hopheap (handleNetworkRequest p sid s))"
  by (simp add: handleNetworkRequest_def Let_def net_frame set_pending_def resolve_hops)
    (intro conjI impI; rule exI, rule conjI, rule refl, simp)

lemma request_frame:
  "mc_log (handleNetworkRequest p sid s) = mc_log s" "mc_gos (handleNetworkRequest p sid s) = mc_gos s"
  "mc_jobs (handleNetworkRequest p sid s) = mc_jobs s" "mc_closed (handleNetworkRequest p sid s) = mc_closed s"
  "mc_redirects (handleNetworkRequest p sid s) = mc_redirects s"
  by (simp_all add: handleNetworkRequest_def Let_def net_frame)

lemma zero_hop [simp]: "ns_hop zero_reqState = None"
  by (simp add: zero_reqState_def)

lemma pending_of_hop: "ns_hop (pending_of key s) = Some h \<longleftrightarrow> (\<exists>w. map_of (mc_pending s) key = Some w \<and> ns_hop w = Some h)"
  by (auto simp: pending_of_def split: option.splits)

lemma receive_ok:
  assumes ok: "ord_ok (ord_of s)" and idle: "mc_handler s = Idle"
  shows "ord_ok (ord_of (receive m sid s))"
proof (cases m)
  case (RequestWillBeSent p)
  let ?key = "(sid, wb_RequestID p)" and ?r = "handleNetworkRequest p sid s"
  obtain at info isRedirect navSeq cs st where r:
    "mc_handler ?r = QueueRequest p sid at info (pending_of ?key s) isRedirect navSeq cs"
    "mc_pending ?r = AList.update ?key st (mc_pending s)" "ns_hop st = None"
    "hops_same (mc_hopheap s) (mc_hopheap ?r)"
    using request_result[of p sid s] by blast
  have "ord_ok (ord_of ?r)"
  proof (rule quiet_step[OF ok])
    show "count_list (map (ns_hop \<circ> snd) (mc_pending ?r)) (Some h) + of_bool (handler_settles (mc_handler ?r) = Some h)
        \<le> count_list (map (ns_hop \<circ> snd) (mc_pending s)) (Some h) + of_bool (handler_settles (mc_handler s) = Some h)" for h
      using pend_update[of ns_hop ?key st "mc_pending s" "Some h"] idle r(3)
      by (simp add: r(1,2) pending_of_hop)
    show "h < length (mc_hopheap s)" if "handler_hop (mc_handler ?r) = Some h" for h
      using that pending_hop_bound[OF ok] by (auto simp: r(1) pending_of_hop)
  qed (use r idle in \<open>simp_all add: request_frame\<close>)
  then show ?thesis using RequestWillBeSent by simp
next
  case (RequestExtraInfo p)
  show ?thesis
    by (rule quiet_step[OF ok]) (use RequestExtraInfo idle extra_info_hops in \<open>auto simp: net_frame\<close>)
next
  case (ResponseReceived p)
  let ?key = "(sid, rr_RequestID p)"
  show ?thesis
  proof (cases "map_of (mc_pending s) ?key")
    case None
    show ?thesis
      by (rule quiet_step[OF ok]) (use ResponseReceived None idle in \<open>auto simp: handleResponseReceived_def\<close>)
  next
    case (Some st)
    have "count_list (map (ns_hop \<circ> snd) (AList.update ?key (with_response r st) (mc_pending s))) x =
        count_list (map (ns_hop \<circ> snd) (mc_pending s)) x" for r x
      using pend_update[of ns_hop ?key "with_response r st" "mc_pending s" x] Some by simp
    then show ?thesis
      by (intro quiet_step[OF ok])
        (use ResponseReceived Some idle resolve_hops pending_hop_bound[OF ok Some] in
          \<open>auto simp: handleResponseReceived_def Let_def net_frame set_pending_def\<close>)
  qed
next
  case (LoadingFinished rid)
  let ?key = "(sid, rid)"
  show ?thesis
  proof (cases "map_of (mc_pending s) ?key")
    case None
    then show ?thesis using LoadingFinished ok by (simp add: handleLoadingFinished_def)
  next
    case (Some st)
    have "count_list (map (ns_hop \<circ> snd) (AList.delete ?key (mc_pending s))) (Some h) + of_bool (ns_hop st = Some h)
        \<le> count_list (map (ns_hop \<circ> snd) (mc_pending s)) (Some h)" for h
      using pend_delete[of ns_hop ?key "mc_pending s" "Some h"] Some by simp
    then show ?thesis
      by (intro quiet_step[OF ok])
        (use LoadingFinished Some idle pending_hop_bound[OF ok Some] in \<open>auto simp: handleLoadingFinished_def Let_def\<close>)
  qed
next
  case (LoadingFailed p)
  let ?key = "(sid, lf_RequestID p)"
  show ?thesis
  proof (cases "map_of (mc_pending s) ?key")
    case None
    show ?thesis
      by (rule quiet_step[OF ok]) (use LoadingFailed None idle in \<open>auto simp: handleLoadingFailed_def Let_def\<close>)
  next
    case (Some st)
    have "count_list (map (ns_hop \<circ> snd) (AList.delete ?key (mc_pending s))) (Some h) + of_bool (ns_hop st = Some h)
        \<le> count_list (map (ns_hop \<circ> snd) (mc_pending s)) (Some h)" for h
      using pend_delete[of ns_hop ?key "mc_pending s" "Some h"] Some by simp
    moreover have "hops_same (mc_hopheap s) (mc_hopheap (resolveFailedHeadersLocked hop (s\<lparr>mc_pending := x\<rparr>)))" for hop x
      using resolve_failed_hops[of "s\<lparr>mc_pending := x\<rparr>"] by simp
    ultimately show ?thesis
      by (intro quiet_step[OF ok])
        (use LoadingFailed Some idle pending_hop_bound[OF ok Some] in
          \<open>auto simp: handleLoadingFailed_def Let_def net_frame\<close>)
  qed
next
  case (FrameNavigated f)
  show ?thesis
    by (rule quiet_step[OF ok]) (use FrameNavigated idle in \<open>auto simp: handleFrameNavigated_def Let_def\<close>)
qed

lemma internal_step_ok:
  assumes "net_internal eh b s s'" "ord_ok (ord_of s)"
  shows "ord_ok (ord_of s')"
  using assms(1)
proof cases
  case (handles code)
  then show ?thesis using handler_step_ok[OF assms(2)] by simp
next
  case (runs g gs reply timer t rest)
  then show ?thesis using go_step_ok[OF assms(2) runs(2,3)] by (simp add: go_gos_def)
next
  case (sweeps st rest)
  then show ?thesis
    by (intro quiet_step[OF assms(2)]) (use same_handler_hop[OF assms(2)] in \<open>auto simp: net_frame\<close>)
qed

lemma net_step_ok:
  assumes "net_step eh b s s'" "ord_ok (ord_of s)"
  shows "ord_ok (ord_of s')"
proof -
  have same: "ord_ok (ord_of t)" if "ord_of t = ord_of s" for t using assms(2) that by simp
  note quiet = quiet_step[OF assms(2)]
  note hop = same_handler_hop[OF assms(2)]
  show ?thesis
    using assms(1)
  proof cases
    case internal
    then show ?thesis using internal_step_ok assms(2) by blast
  next
    case (receives sid mthd params m)
    have "ord_ok (ord_of (s\<lparr>mc_began := mc_clock s\<rparr>))" by (rule same) (simp add: ord_of_def)
    then show ?thesis using receives receive_ok by simp
  next
    case (expires now)
    show ?thesis
      by (rule quiet) (use expires pend_filter hop in \<open>auto simp: net_frame takeExpiredNetworkRequests_def\<close>)
  next
    case (prepares sid info)
    show ?thesis
    proof (cases "s' = s")
      case False
      then obtain at ty cat src ev d t where "s' = publishEventAt eh b OfNone at ty cat src ev d sid t" "ord_of t = ord_of s"
        using prepares(1) by (auto simp: preparePageCapture_def ord_of_def split: if_splits)
      then show ?thesis using publish_none_ord[OF same] by simp
    qed (simp add: assms(2))
  next
    case (detaches sid)
    show ?thesis
      by (rule quiet) (use detaches in \<open>auto simp: handleDetachedFromTarget_def split: option.splits\<close>)
  next
    case (clears all)
    show ?thesis by (rule quiet) (use clears hop in \<open>auto simp: clear_tables_def\<close>)
  qed (rule same; simp add: ord_of_def net_frame attach_session_def target_info_changed_def)+
qed

lemma ord_ok_new: "ord_ok (ord_of (new_netcap now))"
  by (simp add: ord_ok_def ord_of_def new_netcap_def once_ok_def jobs_ok_def settle_ok_def settle_count_def
      refs_ok_def red_ok_def log_ok_def many_def is_pub_def)

lemma net_reachable_induct [consumes 1, case_names start step]:
  assumes "net_reachable eh b s" "\<And>now. P (new_netcap now)"
    and "\<And>s s'. net_reachable eh b s \<Longrightarrow> P s \<Longrightarrow> net_step eh b s s' \<Longrightarrow> P s'"
  shows "P s"
proof -
  obtain now where "(net_step eh b)\<^sup>*\<^sup>* (new_netcap now) s" using assms(1) by (auto simp: net_reachable_def)
  then have "P s \<and> net_reachable eh b s"
  proof (induction rule: rtranclp_induct)
    case base
    then show ?case using assms(2) by (auto simp: net_reachable_def)
  next
    case (step y z)
    then show ?case using assms(3) by (meson net_reachable_def rtranclp.rtrancl_into_rtrancl)
  qed
  then show ?thesis by simp
qed

lemma reachable_ord_ok: "net_reachable eh b s \<Longrightarrow> ord_ok (ord_of s)"
  by (induction rule: net_reachable_induct) (auto intro: ord_ok_new net_step_ok)

section \<open>Publishers always end\<close>

text \<open>
  The order of waiting: the publisher of the request of a hop comes before the publishers that wait
  for it, and these before the request of the next hop.
\<close>

fun go_order :: "goroutine \<Rightarrow> nat" where
  "go_order (ReqWait k h rp) = 2 * h + 1"
| "go_order (ReqRedirect k h rp) = 2 * h + 1"
| "go_order (ReqRead k h) = 2 * h + 1"
| "go_order (ReqPublish k h d) = 2 * h + 1"
| "go_order (ReqClose k h) = 2 * h + 1"
| "go_order (ReqFinish k h) = 2 * h + 1"
| "go_order (AfterWait h act) = 2 * h + 2"
| "go_order (AfterAct h act) = 2 * h + 2"
| "go_order g = (case resp_stage g of Some (j, n) \<Rightarrow> (case job_hop j of Some h \<Rightarrow> 2 * h + 2 | None \<Rightarrow> 0) | None \<Rightarrow> 0)"

lemma many_posD: "0 < many P a \<Longrightarrow> \<exists>g. g \<in># o_gos a \<and> P g"
proof -
  assume "0 < many P a"
  then have "filter_mset P (o_gos a) \<noteq> {#}" by (metis many_def less_irrefl size_empty)
  then obtain g where "g \<in># filter_mset P (o_gos a)" by (rule multiset_nonemptyE)
  then show ?thesis by auto
qed

text \<open>A hop that was queued, while no message is handled, is published or has a publisher.\<close>

lemma unpublished_has_publisher:
  assumes "ord_ok a" "owes (o_pc a) = None" "h < length (o_pub a)" "\<not> is_pub a h"
  shows "\<exists>g. g \<in># o_gos a \<and> (starting h g \<or> closing h g)"
proof -
  have "0 < many (starting h) a \<or> 0 < many (closing h) a"
    using once_okD[of a h] assms by (auto simp: ord_ok_def of_bool_def split: if_splits)
  then show ?thesis using many_posD by blast
qed

lemma starting_order: "starting h g \<or> closing h g \<Longrightarrow> go_order g = 2 * h + 1"
  by (cases g) (auto simp: starting_def closing_def)

lemma running_order: "running j g \<Longrightarrow> \<exists>job. rj_id job = j \<and> (\<exists>n. resp_stage g = Some (job, n)) \<and>
    go_order g = (case job_hop job of Some h \<Rightarrow> 2 * h + 2 | None \<Rightarrow> 0)"
  by (cases g) (auto simp: running_def)

text \<open>A goroutine that cannot take a step, not even when its timer fires, waits for one before it.\<close>

lemma blocked_waits:
  assumes ok: "ord_ok (ord_of s)" and owes: "owes (mc_handler s) = None" and g: "g \<in># mc_gos s"
    and blocked: "run_go eh b reply True g s = None"
  shows "\<exists>g'. g' \<in># mc_gos s \<and> go_order g' < go_order g"
proof -
  let ?a = "ord_of s"
  have a: "o_gos ?a = mc_gos s" "o_pc ?a = mc_handler s" "o_jobs ?a = mc_jobs s" "o_closed ?a = mc_closed s"
    "length (o_pub ?a) = length (mc_hopheap s)" by (simp_all add: ord_of_def)
  have gok: "go_ok ?a g" using ok g a by (simp add: ord_ok_def)
  have pub: "is_pub ?a h \<longleftrightarrow> hp_requestPublished (mc_hopheap s ! h)" if "h < length (mc_hopheap s)" for h
    using that by (simp add: is_pub_def ord_of_def)
  have earlier: "\<exists>g'. g' \<in># mc_gos s \<and> go_order g' = 2 * h + 1"
    if "h < length (mc_hopheap s)" "\<not> hp_requestPublished (mc_hopheap s ! h)" for h
    using unpublished_has_publisher[OF ok, of h] owes that pub a starting_order by metis
  show ?thesis
  proof (cases g)
    case (ReqRedirect k h rp)
    then obtain j where j: "rp = Some j" "j \<notin> mc_closed s" using blocked by (auto split: option.splits if_splits)
    then have lt: "j < length (mc_jobs s)" "\<And>h0. job_hop (mc_jobs s ! j) = Some h0 \<Longrightarrow> h0 < h"
      using gok ReqRedirect a by (auto simp: waits_ok_def)
    then have "0 < many (running j) ?a" using ok j(2) a by (auto simp: ord_ok_def jobs_ok_def dest!: spec[where x = j])
    then obtain g' where g': "g' \<in># mc_gos s" "running j g'" using many_posD a by metis
    obtain job n where job: "rj_id job = j" "resp_stage g' = Some (job, n)"
      "go_order g' = (case job_hop job of Some h \<Rightarrow> 2 * h + 2 | None \<Rightarrow> 0)"
      using running_order[OF g'(2)] by blast
    have "go_ok ?a g'" using ok g'(1) a by (simp add: ord_ok_def)
    then have "job_ok ?a job" using job(2) by (cases g') auto
    then have "mc_jobs s ! j = job" using job(1) a by (simp add: job_ok_def)
    then have "go_order g' < go_order g" using lt(2) job(3) ReqRedirect by (fastforce split: option.splits)
    then show ?thesis using g'(1) by blast
  next
    case (RespOrder j body)
    then obtain h where h: "job_hop j = Some h" "\<not> hp_requestPublished (mc_hopheap s ! h)" "h < length (mc_hopheap s)"
      using blocked gok a by (auto simp: job_ok_def split: option.splits if_splits)
    then show ?thesis using earlier[of h] RespOrder by auto
  next
    case (AfterWait h act)
    then show ?thesis using blocked gok a earlier[of h] by (auto split: if_splits)
  qed (use blocked gok in \<open>auto simp: Let_def split: option.splits\<close>)
qed

lemma goroutine_can_run:
  assumes "ord_ok (ord_of s)" "owes (mc_handler s) = None" "mc_gos s \<noteq> {#}"
  shows "\<exists>g s' rest. g \<in># mc_gos s \<and> run_go eh b reply True g s = Some (s', rest)"
proof (rule ccontr)
  assume none: "\<not> ?thesis"
  have "\<exists>g. g \<in># mc_gos s" using assms(3) by blast
  then have "\<exists>g. is_arg_min go_order (\<lambda>g. g \<in># mc_gos s) g" using ex_has_least_nat[of "\<lambda>g. g \<in># mc_gos s" _ go_order]
    by (metis is_arg_min_linorder)
  then obtain g where g: "g \<in># mc_gos s" "\<And>g'. g' \<in># mc_gos s \<Longrightarrow> go_order g \<le> go_order g'"
    by (auto simp: is_arg_min_linorder)
  have "run_go eh b reply True g s = None" using none g(1) by (metis not_None_eq surj_pair)
  then show False using blocked_waits[OF assms(1,2) g(1)] g(2) by fastforce
qed

text \<open>What is left to do, counted in steps.\<close>

fun go_rank :: "goroutine \<Rightarrow> nat" where
  "go_rank (ReqWait k h rp) = 6"
| "go_rank (ReqRedirect k h rp) = 5"
| "go_rank (ReqRead k h) = 4"
| "go_rank (ReqPublish k h d) = 3"
| "go_rank (ReqClose k h) = 2"
| "go_rank (ReqFinish k h) = 1"
| "go_rank (RespFetch j) = 7"
| "go_rank (RespWait j b) = 6"
| "go_rank (RespOrder j b) = 5"
| "go_rank (RespRead j b) = 4"
| "go_rank (RespPublish j d src) = 3"
| "go_rank (RespFinish j) = 2"
| "go_rank (RespClose j) = 1"
| "go_rank (AfterWait h act) = 2"
| "go_rank (AfterAct h act) = 1"

fun handler_rank :: "handler \<Rightarrow> nat" where
  "handler_rank Idle = 0"
| "handler_rank (QueueRequest p sid at info existing isRedirect navSeq cs) = 18"
| "handler_rank (EmitRedirect p sid at info existing isRedirect h cs) = 17"
| "handler_rank (SpawnRequest sid rid h rp isRedirect cs) = 8"
| "handler_rank (CountRequest c) = 1"
| "handler_rank (CheckProxyError p sid at found) = 3"
| "handler_rank (UncountFinished sid rid at st info) = 9"
| "handler_rank (EmitFinished sid rid at st info) = 8"
| "handler_rank (PublishFailure p sid at found) = 4"
| "handler_rank (UncountFailed st) = 1"
| "handler_rank (PublishNavigation f sid info cs) = 2"
| "handler_rank (ResetNavigation f sid info cs) = 1"
| "handler_rank (StopComputed sid c) = 2"
| "handler_rank (ForgetSession sid) = 1"

definition work :: "netcap \<Rightarrow> nat" where
  "work s = sum_mset (image_mset go_rank (mc_gos s)) + handler_rank (mc_handler s) + size (mc_sweep s)"

lemma run_go_rank:
  "run_go eh b reply timer g s = Some (s', rest) \<Longrightarrow>
   (case rest of None \<Rightarrow> 0 | Some g' \<Rightarrow> go_rank g') < go_rank g \<and>
   mc_handler s' = mc_handler s \<and> mc_sweep s' = mc_sweep s"
  by (cases g) (auto simp: net_frame Let_def split: if_splits option.splits)

lemma publish_after_gos:
  "sum_mset (image_mset go_rank (mc_gos (publishAfterNetworkRequest eh b hop act s))) \<le>
   sum_mset (image_mset go_rank (mc_gos s)) + 2"
  by (simp add: publishAfterNetworkRequest_def spawn_def net_frame split: option.split)

lemma handler_work:
  assumes "mc_handler s \<noteq> Idle"
  shows "work (run_handler eh b code (mc_handler s) s) < work s"
proof -
  have e: "sum_mset (image_mset go_rank (mc_gos (snd (emitNetworkResponse at key st info redirect s)))) =
      sum_mset (image_mset go_rank (mc_gos s)) + 7" for at key st info redirect
    using emit_result[of at key st info redirect s] by auto
  have q: "mc_gos (snd (queueNetworkRequestLocked eh b key rq info at s)) = mc_gos s" for key rq info at
    by (simp add: net_frame)
  have p: "sum_mset (image_mset go_rank (mc_gos (publishAfterNetworkRequest eh b hop act s))) < n"
    if "sum_mset (image_mset go_rank (mc_gos s)) + 2 < n" for hop act n
    using publish_after_gos[of eh b hop act s] that by simp
  show ?thesis
    using assms
    by (cases "mc_handler s")
      (auto simp: work_def net_frame Let_def case_prod_beta e spawn_def intro!: p split: option.split)
qed

lemma internal_work:
  assumes "net_internal eh b s s'"
  shows "work s' < work s"
  using assms
proof cases
  case (handles code)
  then show ?thesis using handler_work by simp
next
  case (runs g gs reply timer t rest)
  then show ?thesis using run_go_rank[OF runs(3)] by (auto simp: work_def split: option.splits)
next
  case (sweeps st rest)
  then show ?thesis by (simp add: work_def net_frame)
qed

definition net_quiet :: "netcap \<Rightarrow> bool" where
  "net_quiet s \<longleftrightarrow> mc_gos s = {#} \<and> mc_handler s = Idle \<and> mc_sweep s = {#}"

lemma code_choice_exists: "\<exists>code. code_choice pc code"
proof (cases pc)
  case (CheckProxyError p sid at found)
  then show ?thesis
    by (cases "response_codes p") (auto simp: code_choice_def intro: exI[of _ None] exI[of _ "Some x" for x])
qed (auto simp: code_choice_def)

lemma internal_progress:
  assumes "ord_ok (ord_of s)" "\<not> net_quiet s"
  shows "\<exists>s'. net_internal eh b s s'"
proof (cases "mc_handler s = Idle")
  case False
  then show ?thesis using code_choice_exists net_internal.handles by blast
next
  case idle: True
  show ?thesis
  proof (cases "mc_gos s = {#}")
    case True
    then have "mc_sweep s \<noteq> {#}" using assms(2) idle by (simp add: net_quiet_def)
    then obtain st rest where "mc_sweep s = add_mset st rest" using multiset_cases by blast
    then show ?thesis using net_internal.sweeps by blast
  next
    case False
    then obtain g s' rest where g: "g \<in># mc_gos s" "run_go eh b (Inl []) True g s = Some (s', rest)"
      using goroutine_can_run[OF assms(1)] idle by fastforce
    then obtain gs where "mc_gos s = add_mset g gs" using mset_add by metis
    then show ?thesis using g(2) net_internal.runs by blast
  qed
qed

lemma internal_ends:
  assumes "ord_ok (ord_of s)"
  shows "\<exists>s'. (net_internal eh b)\<^sup>*\<^sup>* s s' \<and> net_quiet s' \<and> ord_ok (ord_of s')"
  using assms
proof (induction "work s" arbitrary: s rule: less_induct)
  case less
  show ?case
  proof (cases "net_quiet s")
    case True
    then show ?thesis using less.prems by blast
  next
    case False
    then obtain s1 where s1: "net_internal eh b s s1" using internal_progress less.prems by blast
    then show ?thesis
      using less.hyps[OF internal_work[OF s1] internal_step_ok[OF s1 less.prems]]
      by (meson converse_rtranclp_into_rtranclp)
  qed
qed

section \<open>The properties\<close>

text \<open>The events of the log that belong to a hop.\<close>

definition logged :: "netcap \<Rightarrow> subject \<Rightarrow> nat" where
  "logged s x = count_list (map fst (mc_log s)) x"

definition logged_before :: "netcap \<Rightarrow> nat \<Rightarrow> subject \<Rightarrow> bool" where
  "logged_before s i x \<longleftrightarrow> x \<in> set (take i (map fst (mc_log s)))"

text \<open>Hop \<open>h\<close> was told to wait for the response of hop \<open>h0\<close>, the one it redirects.\<close>

definition redirected_from :: "netcap \<Rightarrow> nat \<Rightarrow> nat \<Rightarrow> bool" where
  "redirected_from s h h0 \<longleftrightarrow> (\<exists>j. (h, j) \<in> set (mc_redirects s) \<and> job_hop (mc_jobs s ! j) = Some h0)"

subsection \<open>A run\<close>

text \<open>A request without a session, up to its publication.\<close>

definition sample_request :: willBeSent where
  "sample_request = zero_willBeSent\<lparr>wb_RequestID := ''1''\<rparr>"

definition no_host :: "string \<Rightarrow> string option" where "no_host u = None"
definition no_bundle :: "string \<Rightarrow> bool" where "no_bundle h = False"

definition sample_received :: netcap where
  "sample_received = receive (RequestWillBeSent sample_request) [] (new_netcap 0)"

lemma decode_sample:
  "decode_message ''Network.requestWillBeSent'' (Some (JObject [(''requestId'', JString ''1'')])) =
     Some (RequestWillBeSent sample_request)"
  by code_simp

lemma new_began: "(new_netcap 0)\<lparr>mc_began := mc_clock (new_netcap 0)\<rparr> = new_netcap 0"
  by (simp add: new_netcap_def)

lemma sample_reachable: "net_reachable no_host no_bundle sample_received"
proof -
  have "net_step no_host no_bundle (new_netcap 0) sample_received"
    unfolding sample_received_def
    by (subst (2) new_began[symmetric], rule net_step.receives[OF _ _ _ decode_sample]) (simp_all add: new_netcap_def)
  then show ?thesis by (auto simp: net_reachable_def)
qed

lemma net_reachable_internal: "net_reachable eh b s \<Longrightarrow> net_internal eh b s s' \<Longrightarrow> net_reachable eh b s'"
  unfolding net_reachable_def by (meson net_step.internal rtranclp.rtrancl_into_rtrancl)

text \<open>The handler, and then the publisher of the request, started by its timer.\<close>

definition sample_handle :: "netcap \<Rightarrow> netcap" where
  "sample_handle s = run_handler no_host no_bundle None (mc_handler s) s"

definition sample_run :: "goroutine \<Rightarrow> netcap \<Rightarrow> netcap" where
  "sample_run g s = (case run_go no_host no_bundle (Inl []) True g s of
      Some (s', rest) \<Rightarrow> s'\<lparr>mc_gos := go_gos rest {#}\<rparr> | None \<Rightarrow> s)"

lemma sample_handle_reachable:
  "net_reachable no_host no_bundle s \<Longrightarrow> mc_handler s \<noteq> Idle \<Longrightarrow> code_choice (mc_handler s) None \<Longrightarrow>
   net_reachable no_host no_bundle (sample_handle s)"
  unfolding sample_handle_def by (rule net_reachable_internal[OF _ net_internal.handles])

lemma sample_run_reachable:
  assumes "net_reachable no_host no_bundle s" "mc_gos s = {#g#}"
  shows "net_reachable no_host no_bundle (sample_run g s)"
proof (cases "run_go no_host no_bundle (Inl []) True g s")
  case (Some r)
  obtain s' rest where r: "r = (s', rest)" by (cases r)
  have "net_internal no_host no_bundle s (s'\<lparr>mc_gos := (case rest of None \<Rightarrow> {#} | Some g' \<Rightarrow> add_mset g' {#})\<rparr>)"
    using net_internal.runs[OF _ Some[unfolded r]] assms(2) by simp
  then show ?thesis using net_reachable_internal[OF assms(1)] Some r by (simp add: sample_run_def go_gos_def)
qed (simp add: sample_run_def assms(1))

definition sample_started :: netcap where
  "sample_started = sample_handle (sample_handle (sample_handle sample_received))"

lemma sample_received_facts:
  "mc_handler sample_received = QueueRequest sample_request [] 0 zero_targetInfo zero_reqState False 0 None"
  "mc_gos sample_received = {#}" "mc_hopheap sample_received = []" "mc_log sample_received = []"
  by (simp_all add: sample_received_def handleNetworkRequest_def Let_def net_frame new_netcap_def
      session_info_def computedFor_def pending_of_def)

lemma sample_started_facts:
  "net_reachable no_host no_bundle sample_started"
  "mc_gos sample_started = {#ReqWait ([], ''1'') 0 None#}" "mc_log sample_started = []"
proof -
  let ?a = "sample_handle sample_received"
  have a: "mc_handler ?a = EmitRedirect sample_request [] 0 zero_targetInfo zero_reqState False 0 None"
    "mc_gos ?a = {#}" "mc_log ?a = []" "net_reachable no_host no_bundle ?a"
    using sample_received_facts queue_result sample_handle_reachable[OF sample_reachable]
    by (simp_all add: sample_handle_def Let_def case_prod_beta net_frame code_choice_def)
  let ?b = "sample_handle ?a"
  have b: "mc_handler ?b = SpawnRequest [] ''1'' 0 None False None" "mc_gos ?b = {#}" "mc_log ?b = []"
    "net_reachable no_host no_bundle ?b"
    using a sample_handle_reachable[OF a(4)]
    by (simp_all add: sample_handle_def[of ?a] redirect_response_def code_choice_def sample_request_def)
  show "net_reachable no_host no_bundle sample_started" "mc_gos sample_started = {#ReqWait ([], ''1'') 0 None#}"
    "mc_log sample_started = []"
    using b sample_handle_reachable[OF b(4)]
    by (simp_all add: sample_started_def sample_handle_def[of ?b] spawn_def code_choice_def)
qed

text \<open>The request is published before its headers came.\<close>

lemma sample_published:
  "\<exists>s. net_reachable no_host no_bundle s \<and> logged s (OfRequest 0) = 1"
proof -
  let ?k = "([], ''1'')"
  let ?a = "sample_run (ReqWait ?k 0 None) sample_started"
  let ?b = "sample_run (ReqRedirect ?k 0 None) ?a"
  let ?d = "case headers_found (hp_requestHeaders (mc_hopheap ?b ! 0)) of
      None \<Rightarrow> hp_request (mc_hopheap ?b ! 0) | Some hdrs \<Rightarrow> (hp_request (mc_hopheap ?b ! 0))\<lparr>qd_Headers := Some hdrs\<rparr>"
  let ?c = "sample_run (ReqRead ?k 0) ?b"
  let ?e = "sample_run (ReqPublish ?k 0 ?d) ?c"
  have a: "mc_gos ?a = {#ReqRedirect ?k 0 None#}" "mc_log ?a = []" "net_reachable no_host no_bundle ?a"
    using sample_started_facts sample_run_reachable[OF sample_started_facts(1,2)]
    by (simp_all add: sample_run_def[of "ReqWait ?k 0 None"] go_gos_def)
  have b: "mc_gos ?b = {#ReqRead ?k 0#}" "mc_log ?b = []" "net_reachable no_host no_bundle ?b"
    using a sample_run_reachable[OF a(3,1)] by (simp_all add: sample_run_def[of "ReqRedirect ?k 0 None"] go_gos_def)
  have c: "mc_gos ?c = {#ReqPublish ?k 0 ?d#}" "mc_log ?c = []" "net_reachable no_host no_bundle ?c"
    using b sample_run_reachable[OF b(3,1)] by (simp_all add: sample_run_def[of "ReqRead ?k 0"] go_gos_def Let_def)
  have "logged ?e (OfRequest 0) = 1"
    using c(2) by (simp add: sample_run_def[of "ReqPublish ?k 0 ?d"] Let_def logged_def net_frame)
  then show ?thesis using sample_run_reachable[OF c(3,1)] by blast
qed

subsection \<open>Order and end\<close>

text \<open>
  C36. In every interleaving of messages, publishers, timers, sweeps, detachments and captures, a hop's
  request is published at most once, and its response or failure at most once and never both. The
  response, the failure and each proxy error of a hop are published after its request, and the
  request of a hop that a redirect led to after the response of the hop that was redirected.
\<close>

theorem network_events_ordered:
  assumes "net_reachable eh b s"
  shows "logged s (OfRequest h) \<le> 1 \<and> logged s (OfResponse h) + logged s (OfFailure h) \<le> 1 \<and>
    (\<forall>i < length (mc_log s).
       (fst (mc_log s ! i) \<in> {OfResponse h, OfFailure h, OfProxyError h} \<longrightarrow> logged_before s i (OfRequest h)) \<and>
       (\<forall>h0. fst (mc_log s ! i) = OfRequest h \<and> redirected_from s h h0 \<longrightarrow> logged_before s i (OfResponse h0)))"
proof -
  have ok: "ord_ok (ord_of s)" using reachable_ord_ok[OF assms] .
  have "logged s (OfRequest h) \<le> 1"
    using once_okD(1)[of "ord_of s" h] ok by (auto simp: ord_ok_def ord_of_def logged_def of_bool_def split: if_splits)
  moreover have "logged s (OfResponse h) + logged s (OfFailure h) \<le> 1"
    using settle_okD[of "ord_of s" h] ok
    by (auto simp: ord_ok_def ord_of_def logged_def settle_count_def of_bool_def split: if_splits)
  moreover have "x \<in> set (take i (map fst (mc_log s)))"
    if "i < length (mc_log s)" "precedes (mc_redirects s) (mc_jobs s) x (fst (mc_log s ! i))" for i x
    using ok that by (simp add: ord_ok_def log_ok_def ord_of_def)
  ultimately show ?thesis by (fastforce simp: logged_before_def redirected_from_def precedes_def)
qed

theorem network_events_ordered_witness:
  "\<exists>s. net_reachable no_host no_bundle s \<and> logged s (OfRequest 0) = 1 \<and>
     logged s (OfResponse 0) + logged s (OfFailure 0) \<le> 1"
  using sample_published network_events_ordered[of no_host no_bundle _ 0] by blast

text \<open>
  C37. Work under way always ends: whenever a message is half handled, a publisher or the sweeper is at
  work, one of them can take a step, each step leaves less to do, and once they are done every
  request that was queued has been published exactly once. So a change of the capture, which waits
  for the publishers, is never blocked by them, whatever headers or bodies never arrive.
\<close>

theorem publishers_drain:
  assumes "net_reachable eh b s"
  shows "(\<not> net_quiet s \<longrightarrow> (\<exists>s'. net_internal eh b s s')) \<and>
    (\<forall>s'. net_internal eh b s s' \<longrightarrow> work s' < work s) \<and>
    (\<exists>s'. (net_internal eh b)\<^sup>*\<^sup>* s s' \<and> net_quiet s') \<and>
    (net_quiet s \<longrightarrow> (\<forall>h < length (mc_hopheap s). logged s (OfRequest h) = 1))"
proof -
  have ok: "ord_ok (ord_of s)" using reachable_ord_ok[OF assms] .
  have "logged s (OfRequest h) = 1" if "net_quiet s" "h < length (mc_hopheap s)" for h
    using once_okD(1)[of "ord_of s" h] ok that
    by (simp add: ord_ok_def ord_of_def logged_def net_quiet_def many_def)
  then show ?thesis using internal_progress[OF ok] internal_work internal_ends[OF ok] by blast
qed

theorem publishers_drain_witness:
  "\<not> net_quiet sample_received \<and> (\<exists>s'. net_internal no_host no_bundle sample_received s' \<and> work s' < work sample_received)"
  using publishers_drain[OF sample_reachable] sample_received_facts(1) by (auto simp: net_quiet_def)

end
