(* ===== verification/NetworkHeaders.thy ===== *)
theory NetworkHeaders
  imports NetworkOrder
begin

text \<open>
  Which wire headers a hop is given in \<open>NetworkCapture\<close>: the ExtraInfo messages of an exchange go to its
  hops in order, every hop that takes one takes the next, and a published event carries the headers
  of its own hop or those the base event came with.
\<close>

section \<open>The hops of an exchange\<close>

definition hop_fine :: "networkHop \<Rightarrow> bool" where
  "hop_fine x \<longleftrightarrow> hp_requestReady x = hp_requestMatched x \<and> (hp_took x \<longrightarrow> hp_requestMatched x) \<and>
     (\<not> hp_took x \<longrightarrow> hp_requestHeaders x = None)"

text \<open>The hops that were matched come before those that wait.\<close>

fun matched_first :: "networkHop list \<Rightarrow> nat list \<Rightarrow> bool" where
  "matched_first heap [] = True"
| "matched_first heap (h # hs) =
     (if hp_requestMatched (heap ! h) then matched_first heap hs
      else \<forall>h' \<in> set hs. \<not> hp_requestMatched (heap ! h'))"

definition taken :: "networkHop list \<Rightarrow> nat list \<Rightarrow> json option list" where
  "taken heap hs = map (\<lambda>h. hp_requestHeaders (heap ! h)) (filter (\<lambda>h. hp_took (heap ! h)) hs)"

definition chain_ok :: "networkHop list \<Rightarrow> nat \<Rightarrow> networkExchange \<Rightarrow> bool" where
  "chain_ok heap e x \<longleftrightarrow>
     distinct (ex_hops x) \<and>
     (\<forall>h \<in> set (ex_hops x). h < length heap \<and> hp_exchange (heap ! h) = e \<and> hop_fine (heap ! h)) \<and>
     matched_first heap (ex_hops x) \<and> ex_received x = taken heap (ex_hops x) @ ex_requests x \<and>
     length (ex_requests x) \<le> maxExtraInfoPerExchange"

text \<open>How a hop may change: what it took stays.\<close>

definition hop_later :: "networkHop \<Rightarrow> networkHop \<Rightarrow> bool" where
  "hop_later x y \<longleftrightarrow> hp_request y = hp_request x \<and> hp_exchange y = hp_exchange x \<and> hp_source y = hp_source x \<and>
     (hp_took x \<longrightarrow> hp_took y \<and> hp_requestHeaders y = hp_requestHeaders x)"

lemma hop_later_refl [simp]: "hop_later x x"
  by (simp add: hop_later_def)

lemma hop_later_trans: "hop_later x y \<Longrightarrow> hop_later y z \<Longrightarrow> hop_later x z"
  by (auto simp: hop_later_def)

definition heap_later :: "networkHop list \<Rightarrow> networkHop list \<Rightarrow> bool" where
  "heap_later a b \<longleftrightarrow> length a \<le> length b \<and> (\<forall>h < length a. hop_later (a ! h) (b ! h))"

lemma heap_later_refl [simp]: "heap_later a a"
  by (simp add: heap_later_def)

lemma heap_later_trans: "heap_later a b \<Longrightarrow> heap_later b c \<Longrightarrow> heap_later a c"
  unfolding heap_later_def by (meson hop_later_trans order.strict_trans2 order_trans)

lemma heap_later_update: "hop_later (a ! h) x \<Longrightarrow> heap_later a (a[h := x])"
proof (cases "h < length a")
  case True
  assume l: "hop_later (a ! h) x"
  have "hop_later (a ! k) (a[h := x] ! k)" for k
    using l True by (cases "k = h") simp_all
  then show ?thesis by (simp add: heap_later_def)
qed (simp add: list_update_beyond)

lemma matched_first_cong:
  "(\<And>h. h \<in> set hs \<Longrightarrow> hp_requestMatched (b ! h) = hp_requestMatched (a ! h)) \<Longrightarrow> matched_first b hs = matched_first a hs"
  by (induction hs) auto

lemma matched_first_append:
  "matched_first heap hs \<Longrightarrow> \<not> hp_requestMatched (heap ! h) \<Longrightarrow> matched_first heap (hs @ [h])"
  by (induction hs) auto

lemma matched_first_none: "\<forall>h \<in> set hs. \<not> hp_requestMatched (heap ! h) \<Longrightarrow> matched_first heap hs"
  by (cases hs) auto

lemma taken_cong:
  "(\<And>h. h \<in> set hs \<Longrightarrow> hp_took (b ! h) = hp_took (a ! h) \<and> hp_requestHeaders (b ! h) = hp_requestHeaders (a ! h)) \<Longrightarrow>
   taken b hs = taken a hs"
  unfolding taken_def by (auto intro!: map_cong filter_cong)

lemma taken_simps [simp]:
  "taken heap [] = []"
  "taken heap (h # hs) = (if hp_took (heap ! h) then [hp_requestHeaders (heap ! h)] else []) @ taken heap hs"
  "taken heap (hs @ hs') = taken heap hs @ taken heap hs'"
  by (simp_all add: taken_def)

definition same_match :: "networkHop \<Rightarrow> networkHop \<Rightarrow> bool" where
  "same_match x y \<longleftrightarrow> hp_requestReady y = hp_requestReady x \<and> hp_requestMatched y = hp_requestMatched x \<and>
     hp_took y = hp_took x \<and> hp_requestHeaders y = hp_requestHeaders x \<and> hp_exchange y = hp_exchange x \<and>
     hp_request y = hp_request x \<and> hp_source y = hp_source x"

lemma same_match_later: "same_match x y \<Longrightarrow> hop_later x y"
  by (simp add: same_match_def hop_later_def)

lemma chain_ok_same:
  assumes "chain_ok a e x" "length a \<le> length b" "\<And>h. h \<in> set (ex_hops x) \<Longrightarrow> same_match (a ! h) (b ! h)"
  shows "chain_ok b e x"
proof -
  have "matched_first b (ex_hops x) = matched_first a (ex_hops x)"
    by (rule matched_first_cong) (use assms(3) in \<open>auto simp: same_match_def\<close>)
  moreover have "taken b (ex_hops x) = taken a (ex_hops x)"
    by (rule taken_cong) (use assms(3) in \<open>auto simp: same_match_def\<close>)
  moreover have "h < length b \<and> hp_exchange (b ! h) = e \<and> hop_fine (b ! h)" if "h \<in> set (ex_hops x)" for h
  proof -
    have "h < length a \<and> hp_exchange (a ! h) = e \<and> hop_fine (a ! h)" using assms(1) that by (simp add: chain_ok_def)
    then show ?thesis using assms(2) assms(3)[OF that] by (simp add: hop_fine_def same_match_def)
  qed
  ultimately show ?thesis using assms(1) by (simp add: chain_ok_def)
qed

section \<open>Matching\<close>

text \<open>What a pass of \<open>match_hops\<close> over the hops \<open>hs\<close> does to the heap and to the headers left over.\<close>

definition pass :: "nat list \<Rightarrow> json option list \<Rightarrow> networkHop list \<Rightarrow> json option list \<Rightarrow> networkHop list \<Rightarrow> bool" where
  "pass hs reqs heap reqs' heap' \<longleftrightarrow>
     length heap' = length heap \<and> (\<forall>h. h \<notin> set hs \<longrightarrow> heap' ! h = heap ! h) \<and>
     (\<forall>h \<in> set hs. hop_fine (heap' ! h) \<and> hop_later (heap ! h) (heap' ! h)) \<and>
     matched_first heap' hs \<and> taken heap' hs @ reqs' = taken heap hs @ reqs \<and> length reqs' \<le> length reqs"

lemma pass_idle:
  "\<lbrakk>\<forall>h \<in> set hs. hop_fine (heap ! h); matched_first heap hs\<rbrakk> \<Longrightarrow> pass hs reqs heap reqs heap"
  by (simp add: pass_def)

lemma pass_skip:
  "\<lbrakk>hp_requestMatched (heap ! h); h \<notin> set hs; hop_fine (heap ! h); pass hs reqs heap reqs' heap'\<rbrakk> \<Longrightarrow>
   pass (h # hs) reqs heap reqs' heap'"
  by (simp add: pass_def)

lemma pass_match:
  assumes "h \<notin> set hs" "h < length heap" "hop_fine y" "hp_requestMatched y" "hop_later (heap ! h) y"
    and nt: "\<not> hp_took (heap ! h)" and none: "taken heap hs = []"
    and front: "(if hp_took y then [hp_requestHeaders y] else []) @ rs = reqs"
    and p: "pass hs rs (heap[h := y]) reqs' heap'"
  shows "pass (h # hs) reqs heap reqs' heap'"
proof -
  have other: "heap[h := y] ! h' = heap ! h'" if "h' \<noteq> h" for h' using that by simp
  have len: "length heap' = length heap" and out: "\<And>h'. h' \<notin> set hs \<Longrightarrow> heap' ! h' = heap[h := y] ! h'"
    and ins: "\<And>h'. h' \<in> set hs \<Longrightarrow> hop_fine (heap' ! h') \<and> hop_later (heap[h := y] ! h') (heap' ! h')"
    and mf: "matched_first heap' hs" and tk: "taken heap' hs @ reqs' = taken (heap[h := y]) hs @ rs"
    and le: "length reqs' \<le> length rs"
    using p unfolding pass_def by auto
  have y: "heap' ! h = y" using out[OF assms(1)] assms(2) by simp
  have "taken (heap[h := y]) hs = taken heap hs"
    by (rule taken_cong) (use assms(1) other in \<open>metis (no_types)\<close>)
  then have "taken heap' (h # hs) @ reqs' = taken heap (h # hs) @ reqs"
    using tk y front none nt by auto
  moreover have "\<forall>h'. h' \<notin> set (h # hs) \<longrightarrow> heap' ! h' = heap ! h'" using out other by simp
  moreover have "\<forall>h' \<in> set (h # hs). hop_fine (heap' ! h') \<and> hop_later (heap ! h') (heap' ! h')"
  proof
    fix h' assume m: "h' \<in> set (h # hs)"
    show "hop_fine (heap' ! h') \<and> hop_later (heap ! h') (heap' ! h')"
    proof (cases "h' = h")
      case True
      then show ?thesis using y assms(3,5) by simp
    next
      case False
      then show ?thesis using ins[of h'] other[OF False] m by simp
    qed
  qed
  moreover have "matched_first heap' (h # hs)" using y assms(4) mf by simp
  moreover have "length reqs' \<le> length reqs" using front le by (cases "hp_took y") auto
  ultimately show ?thesis using len unfolding pass_def by blast
qed

lemma untouched:
  assumes "h \<notin> set hs" "\<forall>h' \<in> set hs. h' < length heap \<and> hop_fine (heap ! h') \<and> \<not> hp_requestMatched (heap ! h')"
  shows "\<forall>h' \<in> set hs. h' < length (heap[h := y]) \<and> hop_fine (heap[h := y] ! h')"
    "matched_first (heap[h := y]) hs" "taken heap hs = []"
proof -
  have o: "heap[h := y] ! h' = heap ! h'" if "h' \<in> set hs" for h' using that assms(1) by (cases "h = h'") auto
  show "\<forall>h' \<in> set hs. h' < length (heap[h := y]) \<and> hop_fine (heap[h := y] ! h')" using assms(2) o by simp
  show "matched_first (heap[h := y]) hs" by (rule matched_first_none) (use assms(2) o in simp)
  show "taken heap hs = []" using assms(2) by (auto simp: taken_def hop_fine_def filter_empty_conv)
qed

lemma match_hops_pass:
  "\<lbrakk>distinct hs; \<forall>h \<in> set hs. h < length heap \<and> hop_fine (heap ! h); matched_first heap hs\<rbrakk> \<Longrightarrow>
   pass hs reqs heap (fst (match_hops hs reqs heap)) (snd (match_hops hs reqs heap))"
proof (induction hs arbitrary: reqs heap)
  case Nil
  then show ?case by (simp add: pass_def)
next
  case (Cons h hs)
  let ?x = "heap ! h"
  have h: "h \<notin> set hs" "distinct hs" "h < length heap" "hop_fine ?x" using Cons.prems by auto
  have idle: "pass (h # hs) reqs heap reqs heap" by (rule pass_idle) (use Cons.prems in auto)
  show ?case
  proof (cases "hp_known ?x \<and> \<not> hp_requestMatched ?x \<and> (hp_hasExtra ?x \<longrightarrow> reqs \<noteq> [])")
    case False
    show ?thesis
    proof (cases "hp_known ?x \<and> hp_requestMatched ?x")
      case True
      have "pass hs reqs heap (fst (match_hops hs reqs heap)) (snd (match_hops hs reqs heap))"
        by (rule Cons.IH[OF h(2)]) (use Cons.prems True in auto)
      from pass_skip[OF _ h(1,4) this] show ?thesis using True by (simp add: Let_def)
    next
      case no: False
      then have "match_hops (h # hs) reqs heap = (reqs, heap)" using False by (auto simp: Let_def)
      then show ?thesis using idle by simp
    qed
  next
    case True
    have nt: "\<not> hp_took ?x" using h(4) True by (simp add: hop_fine_def)
    have rest: "\<forall>h' \<in> set hs. h' < length heap \<and> hop_fine (heap ! h') \<and> \<not> hp_requestMatched (heap ! h')"
      using Cons.prems True by simp
    show ?thesis
    proof (cases "hp_hasExtra ?x")
      case extra: True
      then obtain r rs where reqs: "reqs = r # rs" using True by (cases reqs) auto
      let ?y = "?x\<lparr>hp_requestHeaders := r, hp_requestMatched := True, hp_requestReady := True, hp_took := True\<rparr>"
      have "pass (h # hs) reqs heap (fst (match_hops hs rs (heap[h := ?y]))) (snd (match_hops hs rs (heap[h := ?y])))"
        by (rule pass_match[OF h(1,3) _ _ _ nt untouched(3)[OF h(1) rest] _ Cons.IH[OF h(2) untouched(1,2)[OF h(1) rest]]])
           (use nt reqs in \<open>simp_all add: hop_fine_def hop_later_def\<close>)
      then show ?thesis using True extra reqs by (simp add: Let_def)
    next
      case False
      let ?y = "?x\<lparr>hp_requestMatched := True, hp_requestReady := True\<rparr>"
      have "pass (h # hs) reqs heap (fst (match_hops hs reqs (heap[h := ?y]))) (snd (match_hops hs reqs (heap[h := ?y])))"
        by (rule pass_match[OF h(1,3) _ _ _ nt untouched(3)[OF h(1) rest] _ Cons.IH[OF h(2) untouched(1,2)[OF h(1) rest]]])
           (use nt h(4) in \<open>simp_all add: hop_fine_def hop_later_def\<close>)
      then show ?thesis using True False by (simp add: Let_def)
    qed
  qed
qed

section \<open>The invariant of the headers\<close>

definition headers_ok :: "netcap \<Rightarrow> bool" where
  "headers_ok s \<longleftrightarrow>
     (\<forall>e < length (mc_exheap s). chain_ok (mc_hopheap s) e (mc_exheap s ! e)) \<and>
     (\<forall>h < length (mc_hopheap s). let x = mc_hopheap s ! h in
        hp_exchange x < length (mc_exheap s) \<and>
        (h \<in> set (ex_hops (mc_exheap s ! hp_exchange x)) \<or> \<not> hp_took x \<and> hp_requestHeaders x = None)) \<and>
     (\<forall>(k, e) \<in> set (mc_exchanges s). e < length (mc_exheap s))"

text \<open>A step keeps the invariant, and what the hops took.\<close>

definition headers_step :: "netcap \<Rightarrow> netcap \<Rightarrow> bool" where
  "headers_step s t \<longleftrightarrow> headers_ok t \<and> heap_later (mc_hopheap s) (mc_hopheap t)"

lemma headers_step_trans: "headers_step s t \<Longrightarrow> (headers_ok t \<Longrightarrow> headers_step t u) \<Longrightarrow> headers_step s u"
  by (auto simp: headers_step_def intro: heap_later_trans)

lemma headers_step_idle:
  "\<lbrakk>headers_ok s; mc_exheap t = mc_exheap s; mc_hopheap t = mc_hopheap s; set (mc_exchanges t) \<subseteq> set (mc_exchanges s)\<rbrakk> \<Longrightarrow>
   headers_step s t"
  unfolding headers_step_def headers_ok_def by auto

definition same_chain :: "networkExchange \<Rightarrow> networkExchange \<Rightarrow> bool" where
  "same_chain x y \<longleftrightarrow> ex_hops y = ex_hops x \<and> ex_requests y = ex_requests x \<and> ex_received y = ex_received x"

lemma headers_step_exchange:
  assumes "headers_ok s" "\<And>x. same_chain x (f x)"
  shows "headers_step s (upd_exchange e f s)"
proof -
  have nth: "same_chain (mc_exheap s ! i) ((mc_exheap s)[e := f (mc_exheap s ! e)] ! i)" for i
    using assms(2) by (cases "i = e"; cases "e < length (mc_exheap s)") (auto simp: same_chain_def list_update_beyond)
  then have "chain_ok heap i ((mc_exheap s)[e := f (mc_exheap s ! e)] ! i) = chain_ok heap i (mc_exheap s ! i)" for heap i
    by (simp add: same_chain_def chain_ok_def)
  then show ?thesis
    using assms(1) nth unfolding headers_step_def headers_ok_def
    by (simp add: upd_exchange_def same_chain_def)
qed

lemma headers_step_hop:
  assumes "headers_ok s" "\<And>x. same_match x (f x)"
  shows "headers_step s (upd_hop h f s)"
proof -
  let ?b = "(mc_hopheap s)[h := f (mc_hopheap s ! h)]"
  have nth: "same_match (mc_hopheap s ! i) (?b ! i)" for i
    using assms(2) by (cases "i = h"; cases "h < length (mc_hopheap s)") (auto simp: same_match_def list_update_beyond)
  have "chain_ok ?b e x" if "chain_ok (mc_hopheap s) e x" for e x
    by (rule chain_ok_same[OF that]) (simp_all add: nth)
  moreover have "heap_later (mc_hopheap s) ?b"
    using nth same_match_later by (simp add: heap_later_def)
  ultimately show ?thesis
    using assms(1) nth unfolding headers_step_def headers_ok_def by (simp add: upd_hop_def same_match_def Let_def)
qed

lemma headers_okD:
  assumes "headers_ok s"
  shows "e < length (mc_exheap s) \<Longrightarrow> chain_ok (mc_hopheap s) e (mc_exheap s ! e)"
    and "h < length (mc_hopheap s) \<Longrightarrow> hp_exchange (mc_hopheap s ! h) < length (mc_exheap s)"
    and "h < length (mc_hopheap s) \<Longrightarrow> h \<notin> set (ex_hops (mc_exheap s ! hp_exchange (mc_hopheap s ! h))) \<Longrightarrow>
      \<not> hp_took (mc_hopheap s ! h) \<and> hp_requestHeaders (mc_hopheap s ! h) = None"
    and "map_of (mc_exchanges s) key = Some e \<Longrightarrow> e < length (mc_exheap s)"
  using assms by (auto simp: headers_ok_def Let_def dest!: map_of_SomeD)

lemma headers_okI:
  assumes "\<And>e. e < length (mc_exheap s) \<Longrightarrow> chain_ok (mc_hopheap s) e (mc_exheap s ! e)"
    and "\<And>h. h < length (mc_hopheap s) \<Longrightarrow> hp_exchange (mc_hopheap s ! h) < length (mc_exheap s)"
    and "\<And>h. h < length (mc_hopheap s) \<Longrightarrow> h \<notin> set (ex_hops (mc_exheap s ! hp_exchange (mc_hopheap s ! h))) \<Longrightarrow>
      \<not> hp_took (mc_hopheap s ! h) \<and> hp_requestHeaders (mc_hopheap s ! h) = None"
    and "\<And>k e. (k, e) \<in> set (mc_exchanges s) \<Longrightarrow> e < length (mc_exheap s)"
  shows "headers_ok s"
  using assms unfolding headers_ok_def Let_def by blast

lemma headers_step_match:
  assumes ok: "headers_ok s" and e: "e < length (mc_exheap s)"
  shows "headers_step s (matchHeaders e s)"
proof -
  let ?hs = "ex_hops (mc_exheap s ! e)" and ?a = "mc_hopheap s"
  let ?m = "match_hops ?hs (ex_requests (mc_exheap s ! e)) ?a"
  let ?b = "snd ?m"
  have c: "chain_ok ?a e (mc_exheap s ! e)" using headers_okD(1)[OF ok e] .
  then have own: "\<And>h. h \<in> set ?hs \<Longrightarrow> h < length ?a \<and> hp_exchange (?a ! h) = e \<and> hop_fine (?a ! h)"
    by (simp add: chain_ok_def)
  have "pass ?hs (ex_requests (mc_exheap s ! e)) ?a (fst ?m) ?b"
    by (rule match_hops_pass) (use c own in \<open>auto simp: chain_ok_def\<close>)
  then have len: "length ?b = length ?a" and out: "\<And>h. h \<notin> set ?hs \<Longrightarrow> ?b ! h = ?a ! h"
    and ins: "\<And>h. h \<in> set ?hs \<Longrightarrow> hop_fine (?b ! h) \<and> hop_later (?a ! h) (?b ! h)"
    and mf: "matched_first ?b ?hs" and tk: "taken ?b ?hs @ fst ?m = taken ?a ?hs @ ex_requests (mc_exheap s ! e)"
    and le: "length (fst ?m) \<le> length (ex_requests (mc_exheap s ! e))"
    unfolding pass_def by blast+
  have later: "hop_later (?a ! h) (?b ! h)" for h using ins out by (cases "h \<in> set ?hs") auto
  then have ex: "hp_exchange (?b ! h) = hp_exchange (?a ! h)" for h by (simp add: hop_later_def)
  have t: "mc_hopheap (matchHeaders e s) = ?b" "mc_exchanges (matchHeaders e s) = mc_exchanges s"
    "mc_exheap (matchHeaders e s) = (mc_exheap s)[e := (mc_exheap s ! e)\<lparr>ex_requests := fst ?m\<rparr>]"
    by (simp_all add: matchHeaders_def case_prod_beta Let_def net_frame upd_exchange_def)
  have hops: "ex_hops (mc_exheap (matchHeaders e s) ! i) = ex_hops (mc_exheap s ! i)" for i
    using e by (cases "i = e") (simp_all add: t)
  have "headers_ok (matchHeaders e s)"
  proof (rule headers_okI)
    fix i assume i: "i < length (mc_exheap (matchHeaders e s))"
    show "chain_ok (mc_hopheap (matchHeaders e s)) i (mc_exheap (matchHeaders e s) ! i)"
    proof (cases "i = e")
      case True
      have "\<forall>h \<in> set ?hs. h < length ?b \<and> hp_exchange (?b ! h) = e \<and> hop_fine (?b ! h)" using own ins ex len by simp
      then show ?thesis using True e c mf tk le by (simp add: t chain_ok_def)
    next
      case False
      have ci: "chain_ok ?a i (mc_exheap s ! i)" using headers_okD(1)[OF ok] i by (simp add: t)
      then have "h \<notin> set ?hs" if "h \<in> set (ex_hops (mc_exheap s ! i))" for h
        using own that False by (auto simp: chain_ok_def)
      then have "chain_ok ?b i (mc_exheap s ! i)"
        by (intro chain_ok_same[OF ci]) (simp_all add: len out same_match_def)
      then show ?thesis using False by (simp add: t)
    qed
  next
    fix h assume h: "h < length (mc_hopheap (matchHeaders e s))"
    then show "hp_exchange (mc_hopheap (matchHeaders e s) ! h) < length (mc_exheap (matchHeaders e s))"
      using headers_okD(2)[OF ok, of h] by (simp add: t ex len)
    assume n: "h \<notin> set (ex_hops (mc_exheap (matchHeaders e s) ! hp_exchange (mc_hopheap (matchHeaders e s) ! h)))"
    then have n': "h \<notin> set (ex_hops (mc_exheap s ! hp_exchange (?a ! h)))" unfolding hops by (simp add: t ex)
    then have "h \<notin> set ?hs" using own by auto
    then show "\<not> hp_took (mc_hopheap (matchHeaders e s) ! h) \<and> hp_requestHeaders (mc_hopheap (matchHeaders e s) ! h) = None"
      using headers_okD(3)[OF ok _ n'] h by (simp add: t out len)
  next
    fix k i assume "(k, i) \<in> set (mc_exchanges (matchHeaders e s))"
    then show "i < length (mc_exheap (matchHeaders e s))" using ok by (auto simp: t headers_ok_def)
  qed
  then show ?thesis using later by (simp add: headers_step_def heap_later_def t len)
qed

text \<open>A new exchange, with or without its key.\<close>

lemma chain_ok_new: "chain_ok heap e (new_exchange now)"
  by (simp add: chain_ok_def new_exchange_def)

lemma headers_step_new_exchange:
  assumes ok: "headers_ok s" and t: "mc_exheap t = mc_exheap s @ [new_exchange now]" "mc_hopheap t = mc_hopheap s"
    "set (mc_exchanges t) \<subseteq> set (mc_exchanges s) \<union> {(key, length (mc_exheap s))}"
  shows "headers_step s t"
proof -
  have "headers_ok t"
  proof (rule headers_okI)
    fix e assume "e < length (mc_exheap t)"
    then show "chain_ok (mc_hopheap t) e (mc_exheap t ! e)"
      using headers_okD(1)[OF ok, of e] chain_ok_new by (auto simp: t nth_append less_Suc_eq)
  next
    fix h assume h: "h < length (mc_hopheap t)"
    then have b: "hp_exchange (mc_hopheap s ! h) < length (mc_exheap s)" using headers_okD(2)[OF ok] by (simp add: t)
    then show "hp_exchange (mc_hopheap t ! h) < length (mc_exheap t)" by (simp add: t)
    assume "h \<notin> set (ex_hops (mc_exheap t ! hp_exchange (mc_hopheap t ! h)))"
    then show "\<not> hp_took (mc_hopheap t ! h) \<and> hp_requestHeaders (mc_hopheap t ! h) = None"
      using headers_okD(3)[OF ok, of h] h b by (simp add: t nth_append)
  next
    fix k e assume "(k, e) \<in> set (mc_exchanges t)"
    then have "(k, e) \<in> set (mc_exchanges s) \<or> e = length (mc_exheap s)" using t(3) by auto
    then show "e < length (mc_exheap t)" using ok by (auto simp: t headers_ok_def)
  qed
  then show ?thesis by (simp add: headers_step_def t)
qed

lemma set_alist_update: "set (AList.update k v al) \<subseteq> set al \<union> {(k, v)}"
  by (induction al) auto

lemma headers_step_exchangeLocked:
  assumes ok: "headers_ok s"
  shows "headers_step s (snd (exchangeLocked key s))"
    and "fst (exchangeLocked key s) = Some e \<Longrightarrow> e < length (mc_exheap (snd (exchangeLocked key s)))"
proof -
  show "headers_step s (snd (exchangeLocked key s))"
  proof (cases "\<exists>e. map_of (mc_exchanges s) key = Some e \<or> mc_saturated s \<or> maxNetworkExchanges \<le> length (mc_exchanges s)")
    case True
    then show ?thesis
      by (intro headers_step_idle[OF ok]) (auto simp: exchangeLocked_def Let_def split: option.split)
  next
    case False
    then show ?thesis
      by (intro headers_step_new_exchange[OF ok, where key = key and now = "mc_clock s"])
        (use False in \<open>auto simp: exchangeLocked_def Let_def split: option.split dest!: set_alist_update[THEN subsetD]\<close>)
  qed
  show "fst (exchangeLocked key s) = Some e \<Longrightarrow> e < length (mc_exheap (snd (exchangeLocked key s)))"
    using headers_okD(4)[OF ok] by (auto simp: exchangeLocked_def Let_def split: option.splits if_splits)
qed

text \<open>A new hop goes to the end of its exchange, or stays outside every exchange.\<close>

lemma headers_step_new_hop:
  assumes ok: "headers_ok s" and e: "e < length (mc_exheap s)"
    and x: "hp_exchange x = e" "\<not> hp_took x" "hp_requestHeaders x = None" "\<not> hp_requestMatched x"
      "hp_requestReady x \<longleftrightarrow> \<not> reg"
    and t: "mc_hopheap t = mc_hopheap s @ [x]" "mc_exchanges t = mc_exchanges s"
      "mc_exheap t = (if reg then (mc_exheap s)[e := (mc_exheap s ! e)\<lparr>ex_hops := ex_hops (mc_exheap s ! e) @ [length (mc_hopheap s)]\<rparr>]
         else mc_exheap s)"
  shows "headers_step s t"
proof -
  let ?a = "mc_hopheap s" and ?b = "mc_hopheap s @ [x]" and ?h = "length (mc_hopheap s)"
  have keep: "chain_ok ?b i (mc_exheap s ! i)" if "i < length (mc_exheap s)" for i
    by (rule chain_ok_same[OF headers_okD(1)[OF ok that]])
      (use headers_okD(1)[OF ok that] in \<open>simp_all add: chain_ok_def nth_append same_match_def\<close>)
  have new: "chain_ok ?b e ((mc_exheap s ! e)\<lparr>ex_hops := ex_hops (mc_exheap s ! e) @ [?h]\<rparr>)" if reg
  proof -
    have k: "chain_ok ?b e (mc_exheap s ! e)" using keep e by simp
    have "?h \<notin> set (ex_hops (mc_exheap s ! e))" using headers_okD(1)[OF ok e] by (auto simp: chain_ok_def)
    moreover have "matched_first ?b (ex_hops (mc_exheap s ! e) @ [?h])"
      by (rule matched_first_append) (use k x in \<open>simp_all add: chain_ok_def\<close>)
    moreover have "hop_fine x" using x that by (simp add: hop_fine_def)
    ultimately show ?thesis using k x unfolding chain_ok_def by simp
  qed
  have len: "length (mc_exheap t) = length (mc_exheap s)" by (simp add: t)
  have "headers_ok t"
  proof (rule headers_okI)
    fix i assume "i < length (mc_exheap t)"
    then show "chain_ok (mc_hopheap t) i (mc_exheap t ! i)"
      using keep[of i] new len by (cases "i = e"; cases reg) (simp_all add: t)
  next
    fix h assume h: "h < length (mc_hopheap t)"
    then show b: "hp_exchange (mc_hopheap t ! h) < length (mc_exheap t)"
      using headers_okD(2)[OF ok, of h] e x(1) by (auto simp: t nth_append less_Suc_eq)
    assume n: "h \<notin> set (ex_hops (mc_exheap t ! hp_exchange (mc_hopheap t ! h)))"
    have "set (ex_hops (mc_exheap s ! i)) \<subseteq> set (ex_hops (mc_exheap t ! i))" for i
      using e by (cases "i = e") (auto simp: t)
    then have "h < ?h \<Longrightarrow> h \<notin> set (ex_hops (mc_exheap s ! hp_exchange (?a ! h)))" using n by (auto simp: t nth_append)
    then show "\<not> hp_took (mc_hopheap t ! h) \<and> hp_requestHeaders (mc_hopheap t ! h) = None"
      using headers_okD(3)[OF ok, of h] h x(2,3) by (auto simp: t nth_append less_Suc_eq)
  next
    fix k i assume "(k, i) \<in> set (mc_exchanges t)"
    then show "i < length (mc_exheap t)" using ok by (auto simp: t headers_ok_def)
  qed
  then show ?thesis by (simp add: headers_step_def t heap_later_def nth_append)
qed

lemma headers_step_queue:
  assumes ok: "headers_ok s"
  shows "headers_step s (snd (queueNetworkRequestLocked eh b key rq info at s))"
proof -
  obtain found s1 where 1: "exchangeLocked key s = (found, s1)" by fastforce
  define e where "e = (case found of Some e \<Rightarrow> e | None \<Rightarrow> length (mc_exheap s1))"
  define s2 where "s2 = (case found of Some e \<Rightarrow> s1 | None \<Rightarrow> s1\<lparr>mc_exheap := mc_exheap s1 @ [new_exchange 0]\<rparr>)"
  have a: "headers_step s s1" using headers_step_exchangeLocked(1)[OF ok, of key] 1 by simp
  have b: "headers_step s1 s2 \<and> e < length (mc_exheap s2)" if "headers_ok s1"
  proof (cases found)
    case None
    then show ?thesis
      by (auto simp: s2_def e_def intro!: headers_step_new_exchange[OF that, where now = 0])
  next
    case (Some e')
    then show ?thesis using headers_step_exchangeLocked(2)[OF ok, of key e'] 1 headers_step_idle[OF that]
      by (simp add: s2_def e_def)
  qed
  define reg where "reg \<longleftrightarrow> map_of (mc_exchanges s2) key = Some e"
  define x where "x = \<lparr>hp_exchange = e, hp_request = rq,
      hp_source = cdp_source (Some (info_metadata eh b info)), hp_observedAt = at, hp_known = False,
      hp_hasExtra = False, hp_requestHeaders = None, hp_requestReady = \<not> reg, hp_requestMatched = False,
      hp_requestPublished = False, hp_took = False\<rparr>"
  define s3 where "s3 = s2\<lparr>mc_hopheap := mc_hopheap s2 @ [x]\<rparr>"
  define s4 where "s4 = (if reg then upd_exchange e (\<lambda>x. x\<lparr>ex_hops := ex_hops x @ [length (mc_hopheap s2)]\<rparr>) s3 else s3)"
  have c: "headers_step s2 s4" if "headers_ok s2" "e < length (mc_exheap s2)"
    by (rule headers_step_new_hop[OF that, where x = x and reg = reg])
      (simp_all add: x_def s4_def s3_def upd_exchange_def)
  have d: "headers_step s4 (upd_exchange e (\<lambda>x. x\<lparr>ex_publications := ex_publications x + 1\<rparr>) s4)" if "headers_ok s4"
    by (rule headers_step_exchange[OF that]) (simp add: same_chain_def)
  have "snd (queueNetworkRequestLocked eh b key rq info at s) =
      upd_exchange e (\<lambda>x. x\<lparr>ex_publications := ex_publications x + 1\<rparr>) s4"
    by (cases found) (simp_all add: queueNetworkRequestLocked_def 1 Let_def e_def s2_def reg_def x_def s3_def s4_def)
  then show ?thesis
    using a b c d by (auto simp: headers_step_def intro: heap_later_trans)
qed

lemma headers_step_extra_info:
  assumes ok: "headers_ok s"
  shows "headers_step s (handleRequestExtraInfo p sid s)"
proof -
  obtain found t where 1: "exchangeLocked (sid, xi_RequestID p) s = (found, t)" by fastforce
  have a: "headers_step s t" using headers_step_exchangeLocked(1)[OF ok, of "(sid, xi_RequestID p)"] 1 by simp
  show ?thesis
  proof (cases "\<exists>e. found = Some e \<and> length (ex_requests (mc_exheap t ! e)) < maxExtraInfoPerExchange")
    case False
    then show ?thesis using a by (auto simp: handleRequestExtraInfo_def 1 split: option.split)
  next
    case True
    then obtain e where e: "found = Some e" and lt: "length (ex_requests (mc_exheap t ! e)) < maxExtraInfoPerExchange" by blast
    let ?f = "\<lambda>x. x\<lparr>ex_requests := ex_requests x @ [xi_Headers p], ex_received := ex_received x @ [xi_Headers p]\<rparr>"
    let ?u = "upd_exchange e ?f t"
    have b: "e < length (mc_exheap t)" using headers_step_exchangeLocked(2)[OF ok, of "(sid, xi_RequestID p)" e] 1 e by simp
    have okt: "headers_ok t" using a by (simp add: headers_step_def)
    have hops: "ex_hops (mc_exheap ?u ! i) = ex_hops (mc_exheap t ! i)" for i
      using b by (cases "i = e") (simp_all add: upd_exchange_def)
    have "headers_ok ?u"
    proof (rule headers_okI)
      fix i assume i: "i < length (mc_exheap ?u)"
      have "chain_ok (mc_hopheap t) e (?f (mc_exheap t ! e))" using headers_okD(1)[OF okt b] lt by (simp add: chain_ok_def)
      then show "chain_ok (mc_hopheap ?u) i (mc_exheap ?u ! i)"
        using headers_okD(1)[OF okt, of i] i by (cases "i = e") (simp_all add: upd_exchange_def)
    next
      fix h assume h: "h < length (mc_hopheap ?u)"
      then show "hp_exchange (mc_hopheap ?u ! h) < length (mc_exheap ?u)"
        using headers_okD(2)[OF okt] by (simp add: upd_exchange_def)
      assume "h \<notin> set (ex_hops (mc_exheap ?u ! hp_exchange (mc_hopheap ?u ! h)))"
      then show "\<not> hp_took (mc_hopheap ?u ! h) \<and> hp_requestHeaders (mc_hopheap ?u ! h) = None"
        using headers_okD(3)[OF okt] h unfolding hops by (simp add: net_frame)
    next
      fix k i assume "(k, i) \<in> set (mc_exchanges ?u)"
      then show "i < length (mc_exheap ?u)" using okt by (auto simp: upd_exchange_def headers_ok_def)
    qed
    then have "headers_step ?u (matchHeaders e ?u)"
      by (rule headers_step_match) (simp add: upd_exchange_def b)
    then have "headers_step s (matchHeaders e ?u)"
      using a by (auto simp: headers_step_def net_frame intro: heap_later_trans)
    then show ?thesis using e lt by (simp add: handleRequestExtraInfo_def 1)
  qed
qed

lemma headers_step_resolve:
  assumes ok: "headers_ok s" and hop: "\<And>h. hop = Some h \<Longrightarrow> h < length (mc_hopheap s)"
  shows "headers_step s (resolveNetworkHeadersLocked hop x s)"
proof (cases hop)
  case None
  then show ?thesis using headers_step_idle[OF ok] by (simp add: resolveNetworkHeadersLocked_def)
next
  case (Some h)
  let ?t = "upd_hop h (\<lambda>y. y\<lparr>hp_known := True, hp_hasExtra := x\<rparr>) s"
  have a: "headers_step s ?t" by (rule headers_step_hop[OF ok]) (simp add: same_match_def)
  have "hp_exchange (mc_hopheap s ! h) < length (mc_exheap ?t)"
    using headers_okD(2)[OF ok hop[OF Some]] by (simp add: net_frame)
  then show ?thesis
    using Some headers_step_trans[OF a headers_step_match] by (simp add: resolveNetworkHeadersLocked_def)
qed

lemma headers_step_cleanup: "headers_ok s \<Longrightarrow> headers_step s (cleanupNetworkExchangeLocked key e s)"
  by (rule headers_step_idle) (auto simp: cleanupNetworkExchangeLocked_def Let_def AList.delete_eq)

lemma headers_step_failed:
  assumes ok: "headers_ok s" and hop: "\<And>h. hop = Some h \<Longrightarrow> h < length (mc_hopheap s)"
  shows "headers_step s (resolveFailedHeadersLocked hop s)"
proof (cases hop)
  case None
  then show ?thesis using headers_step_idle[OF ok] by (simp add: resolveFailedHeadersLocked_def)
next
  case (Some h)
  let ?e = "hp_exchange (mc_hopheap s ! h)"
  let ?t = "upd_exchange ?e (\<lambda>x. x\<lparr>ex_terminal := True\<rparr>) s"
  let ?u = "if hp_known (mc_hopheap ?t ! h) then ?t else upd_hop h (\<lambda>x. x\<lparr>hp_known := True, hp_hasExtra := True\<rparr>) ?t"
  have a: "headers_step s ?t" by (rule headers_step_exchange[OF ok]) (simp add: same_chain_def)
  have b: "headers_step ?t ?u" if "headers_ok ?t"
    using headers_step_idle[OF that] headers_step_hop[OF that, of "\<lambda>x. x\<lparr>hp_known := True, hp_hasExtra := True\<rparr>" h]
    by (auto simp: same_match_def)
  have e: "?e < length (mc_exheap ?u)" using headers_okD(2)[OF ok hop[OF Some]] by (simp add: upd_exchange_def net_frame)
  have c: "headers_step s (matchHeaders ?e ?u)"
    using headers_step_trans[OF a headers_step_trans[OF b headers_step_match[OF _ e]]] .
  have "resolveFailedHeadersLocked hop s =
      cleanupNetworkExchangeLocked (hop_key (mc_hopheap (matchHeaders ?e ?u) ! h)) ?e (matchHeaders ?e ?u)"
    by (simp add: resolveFailedHeadersLocked_def Some Let_def)
  then show ?thesis using headers_step_trans[OF c headers_step_cleanup] by simp
qed

lemma headers_step_finish: "headers_ok s \<Longrightarrow> headers_step s (finishNetworkPublication key e s)"
  unfolding finishNetworkPublication_def
  by (rule headers_step_trans[OF headers_step_exchange headers_step_cleanup]) (simp_all add: same_chain_def)

lemma headers_step_emit: "headers_ok s \<Longrightarrow> headers_step s (snd (emitNetworkResponse at key st info redirect s))"
proof -
  assume ok: "headers_ok s"
  have a: "headers_ok (s\<lparr>mc_jobs := j\<rparr>)" for j using ok by (simp add: headers_ok_def)
  have "headers_step (s\<lparr>mc_jobs := j\<rparr>) (upd_exchange e (\<lambda>x. x\<lparr>ex_publications := ex_publications x + 1,
      ex_terminal := ex_terminal x \<or> \<not> redirect\<rparr>) (s\<lparr>mc_jobs := j\<rparr>))" for e j
    by (rule headers_step_exchange[OF a]) (simp add: same_chain_def)
  then show ?thesis using a headers_step_idle[OF ok]
    by (auto simp: emitNetworkResponse_def Let_def spawn_def headers_step_def headers_ok_def split: option.split)
qed

section \<open>What is published\<close>

text \<open>The wire headers a hop was given, when they decode.\<close>

definition hop_wire :: "networkHop list \<Rightarrow> nat \<Rightarrow> members option" where
  "hop_wire heap h = (if hp_took (heap ! h) then headers_found (hp_requestHeaders (heap ! h)) else None)"

definition request_fine :: "networkHop list \<Rightarrow> nat \<Rightarrow> request_data \<Rightarrow> bool" where
  "request_fine heap h d \<longleftrightarrow> h < length heap \<and>
     (d = hp_request (heap ! h) \<or> (\<exists>m. hop_wire heap h = Some m \<and> d = (hp_request (heap ! h))\<lparr>qd_Headers := Some m\<rparr>))"

definition response_fine :: "networkHop list \<Rightarrow> nat \<Rightarrow> response_data \<Rightarrow> bool" where
  "response_fine heap h d \<longleftrightarrow> h < length heap \<and>
     (sd_RequestHeaders d = None \<or> sd_RequestHeaders d = hop_wire heap h)"

lemma hop_wire_later: "\<lbrakk>heap_later a b; h < length a; hop_wire a h = Some m\<rbrakk> \<Longrightarrow> hop_wire b h = Some m"
  by (auto simp: hop_wire_def heap_later_def hop_later_def split: if_splits)

lemma request_fine_later: "heap_later a b \<Longrightarrow> request_fine a h d \<Longrightarrow> request_fine b h d"
proof -
  assume l: "heap_later a b" and f: "request_fine a h d"
  then have "h < length b" "hp_request (b ! h) = hp_request (a ! h)"
    by (auto simp: heap_later_def hop_later_def request_fine_def)
  then show ?thesis using f hop_wire_later[OF l] by (auto simp: request_fine_def)
qed

lemma response_fine_later: "heap_later a b \<Longrightarrow> response_fine a h d \<Longrightarrow> response_fine b h d"
proof -
  assume l: "heap_later a b" and f: "response_fine a h d"
  then have "h < length b" by (auto simp: heap_later_def response_fine_def)
  then show ?thesis using f hop_wire_later[OF l, of h]
    by (cases "hop_wire a h") (auto simp: response_fine_def)
qed

fun go_fine :: "networkHop list \<Rightarrow> goroutine \<Rightarrow> bool" where
  "go_fine heap (ReqPublish k h d) = request_fine heap h d"
| "go_fine heap (RespPublish j d src) = (\<forall>h. job_hop j = Some h \<longrightarrow> response_fine heap h d)"
| "go_fine heap _ = True"

fun entry_fine :: "networkHop list \<Rightarrow> subject \<times> net_event \<Rightarrow> bool" where
  "entry_fine heap (OfRequest h, ev) = (\<exists>d. nv_Data ev = RequestData d \<and> request_fine heap h d)"
| "entry_fine heap (OfResponse h, ev) = (\<exists>d. nv_Data ev = ResponseData d \<and> response_fine heap h d)"
| "entry_fine heap _ = True"

lemma go_fine_later: "heap_later a b \<Longrightarrow> go_fine a g \<Longrightarrow> go_fine b g"
  by (cases g) (auto intro: request_fine_later response_fine_later)

lemma entry_fine_later: "heap_later a b \<Longrightarrow> entry_fine a x \<Longrightarrow> entry_fine b x"
proof -
  assume "heap_later a b" "entry_fine a x"
  then show ?thesis
    by (cases x; cases "fst x") (auto intro: request_fine_later response_fine_later)
qed

definition wire_ok :: "netcap \<Rightarrow> bool" where
  "wire_ok s \<longleftrightarrow> headers_ok s \<and> (\<forall>g \<in># mc_gos s. go_fine (mc_hopheap s) g) \<and>
     (\<forall>x \<in> set (mc_log s). entry_fine (mc_hopheap s) x)"

lemma wire_okI:
  assumes "wire_ok s" "headers_ok s \<Longrightarrow> headers_step s t"
    and "\<And>g. g \<in># mc_gos t \<Longrightarrow> g \<in># mc_gos s \<or> go_fine (mc_hopheap t) g"
    and "\<And>x. x \<in> set (mc_log t) \<Longrightarrow> x \<in> set (mc_log s) \<or> entry_fine (mc_hopheap t) x"
  shows "wire_ok t"
  using assms unfolding wire_ok_def headers_step_def by (meson go_fine_later entry_fine_later)

text \<open>Steps that start no publisher of theirs and publish nothing of a hop.\<close>

lemma wire_quiet:
  assumes "wire_ok s" "headers_ok s \<Longrightarrow> headers_step s t" "mc_gos t = mc_gos s" "mc_log t = mc_log s"
  shows "wire_ok t"
  by (rule wire_okI[OF assms(1,2)]) (use assms in auto)

lemma run_after_entry:
  "x \<in> set (mc_log (run_after eh b hop act s)) \<Longrightarrow> x \<in> set (mc_log s) \<or> entry_fine heap x"
  by (auto simp: run_after_def publishEventAt_def publishProxyError_def proxyErrorRateLimited_def Let_def case_prod_beta
      split: after_act.splits option.splits if_splits)

lemma publish_entry:
  "mc_log (publishEventAt eh b subj at ty cat src ev data sid s) =
     mc_log s @ [(subj, snd (List.last (mc_log (publishEventAt eh b subj at ty cat src ev data sid s))))] \<and>
   nv_Data (snd (List.last (mc_log (publishEventAt eh b subj at ty cat src ev data sid s)))) = data"
  by (simp add: publishEventAt_def Let_def)

lemma wire_after:
  assumes "wire_ok s"
  shows "wire_ok (publishAfterNetworkRequest eh b hop act s)"
proof (rule wire_okI[OF assms])
  show "headers_step s (publishAfterNetworkRequest eh b hop act s)" if "headers_ok s"
    by (rule headers_step_idle[OF that]) (simp_all add: net_frame)
qed (auto simp: publishAfterNetworkRequest_def net_frame spawn_def dest: run_after_entry split: option.splits)

lemma go_headers:
  assumes hok: "headers_ok s" and run: "run_go eh b reply timer g s = Some (s', rest)"
  shows "headers_step s s'"
proof (cases g)
  case (ReqClose k h)
  then show ?thesis using run headers_step_hop[OF hok] by (auto simp: same_match_def)
next
  case (ReqFinish k h)
  then show ?thesis using run headers_step_finish[OF hok, of k] by auto
next
  case (RespFinish j)
  then show ?thesis
    using run headers_step_finish[OF hok, of "rj_key j"] headers_step_idle[OF hok] by (auto split: option.splits)
qed (rule headers_step_idle[OF hok]; use run in \<open>auto simp: net_frame Let_def split: option.splits if_splits\<close>)+

lemma go_logs:
  assumes "go_fine (mc_hopheap s) g" "run_go eh b reply timer g s = Some (s', rest)" "x \<in> set (mc_log s')"
  shows "x \<in> set (mc_log s) \<or> entry_fine (mc_hopheap s') x"
proof (cases g)
  case (ReqPublish k h d)
  then show ?thesis using assms by (auto simp: publishEventAt_def Let_def)
next
  case (RespPublish j d src)
  then show ?thesis using assms by (auto simp: publishEventAt_def Let_def job_subject_def split: option.splits)
next
  case (AfterAct h act)
  then show ?thesis using assms by (auto dest: run_after_entry)
qed (use assms in \<open>auto simp: net_frame Let_def split: option.splits if_splits\<close>)

text \<open>What a publisher reads from its hop.\<close>

lemma read_headers:
  assumes hok: "headers_ok s" and h: "h < length (mc_hopheap s)"
  shows "headers_found (hp_requestHeaders (mc_hopheap s ! h)) = hop_wire (mc_hopheap s) h"
proof (cases "hp_took (mc_hopheap s ! h)")
  case False
  let ?x = "mc_hopheap s ! h"
  have "hp_requestHeaders ?x = None"
  proof (cases "h \<in> set (ex_hops (mc_exheap s ! hp_exchange ?x))")
    case True
    then have "hop_fine ?x" using headers_okD(1)[OF hok headers_okD(2)[OF hok h]] unfolding chain_ok_def by blast
    then show ?thesis using False by (simp add: hop_fine_def)
  qed (use headers_okD(3)[OF hok h] in simp)
  then show ?thesis using False by (simp add: hop_wire_def headers_found_def)
qed (simp add: hop_wire_def)

lemma go_continues:
  assumes hok: "headers_ok s" and start: "\<And>h. starting h g \<Longrightarrow> h < length (mc_hopheap s)"
    and gok: "go_ok (ord_of s) g" and run: "run_go eh b reply timer g s = Some (s', Some x)"
  shows "go_fine (mc_hopheap s') x"
proof (cases g)
  case (ReqRead k h)
  then have h: "h < length (mc_hopheap s)" using start by (simp add: starting_def)
  have "s' = s" "x = ReqPublish k h (case headers_found (hp_requestHeaders (mc_hopheap s ! h)) of
       None \<Rightarrow> hp_request (mc_hopheap s ! h) | Some hdrs \<Rightarrow> (hp_request (mc_hopheap s ! h))\<lparr>qd_Headers := Some hdrs\<rparr>)"
    using ReqRead run by (auto simp: Let_def)
  then show ?thesis using h read_headers[OF hok h] by (auto simp: request_fine_def split: option.split)
next
  case (RespRead j body)
  show ?thesis
  proof (cases "job_hop j")
    case None
    then show ?thesis using RespRead run by auto
  next
    case (Some h)
    then have h: "h < length (mc_hopheap s)" using gok RespRead by (simp add: job_ok_def ord_of_def)
    then show ?thesis using RespRead Some run read_headers[OF hok h]
      by (auto simp: response_fine_def response_payload_def Let_def)
  qed
qed (use run in \<open>auto simp: Let_def split: option.splits if_splits\<close>)

lemma wire_go:
  assumes ok: "wire_ok s" and ord: "ord_ok (ord_of s)" and g: "mc_gos s = add_mset g gs"
    and run: "run_go eh b reply timer g s = Some (s', rest)"
  shows "wire_ok (s'\<lparr>mc_gos := go_gos rest gs\<rparr>)"
proof (rule wire_okI[OF ok])
  have ord_g: "go_ok (ord_of s) g" using ord g by (simp add: ord_ok_def ord_of_def)
  have start: "h < length (mc_hopheap s)" if "starting h g" for h
  proof -
    have "0 < many (starting h) (ord_of s)" by (rule many_pos[of g]) (use g that in \<open>simp_all add: ord_of_def\<close>)
    then show ?thesis using once_okD(1)[of "ord_of s" h] ord
      by (auto simp: ord_ok_def ord_of_def of_bool_def split: if_splits)
  qed
  have hok: "headers_ok s" and fine: "go_fine (mc_hopheap s) g" using ok g by (simp_all add: wire_ok_def)
  show "headers_step s (s'\<lparr>mc_gos := go_gos rest gs\<rparr>)"
    using go_headers[OF hok run] by (simp add: headers_step_def headers_ok_def)
  show "x \<in> set (mc_log s) \<or> entry_fine (mc_hopheap (s'\<lparr>mc_gos := go_gos rest gs\<rparr>)) x"
    if "x \<in> set (mc_log (s'\<lparr>mc_gos := go_gos rest gs\<rparr>))" for x
    using go_logs[OF fine run, of x] that by simp
  show "x \<in># mc_gos s \<or> go_fine (mc_hopheap (s'\<lparr>mc_gos := go_gos rest gs\<rparr>)) x"
    if "x \<in># mc_gos (s'\<lparr>mc_gos := go_gos rest gs\<rparr>)" for x
  proof -
    have "x \<in># gs \<or> rest = Some x" using that by (auto simp: go_gos_in)
    then show ?thesis using g go_continues[OF hok start ord_g, of eh b reply timer s' x] run by auto
  qed
qed

lemma wire_handler:
  assumes ok: "wire_ok s" and ord: "ord_ok (ord_of s)"
  shows "wire_ok (run_handler eh b code (mc_handler s) s)"
proof -
  have pc: "wire_ok (t\<lparr>mc_handler := c\<rparr>)" if "wire_ok t" for t c
    using that by (simp add: wire_ok_def headers_ok_def)
  have emit: "wire_ok (snd (emitNetworkResponse at key st info redirect s))" for at key st info redirect
    by (rule wire_okI[OF ok headers_step_emit])
      (use emit_result[of at key st info redirect s] in \<open>auto simp: net_frame\<close>)
  note after = wire_after[OF ok]
  show ?thesis
  proof (cases "mc_handler s")
    case (QueueRequest p sid at info existing isRedirect navSeq cs)
    let ?q = "queueNetworkRequestLocked eh b (sid, wb_RequestID p)
      (request_payload p sid info existing isRedirect navSeq)
      (if wb_DocumentURL p \<noteq> [] then info\<lparr>ti_url := wb_DocumentURL p\<rparr> else info) at s"
    have "wire_ok (snd ?q)" by (rule wire_quiet[OF ok headers_step_queue]) (simp_all add: net_frame)
    then have "wire_ok (set_pending k st (snd ?q))" for k st by (simp add: wire_ok_def headers_ok_def net_frame)
    then show ?thesis using QueueRequest pc by (simp add: Let_def case_prod_beta)
  next
    case (EmitRedirect p sid at info existing isRedirect h cs)
    have red: "wire_ok (t\<lparr>mc_redirects := r, mc_handler := c\<rparr>)" if "wire_ok t" for t r c
      using that by (simp add: wire_ok_def headers_ok_def)
    show ?thesis using EmitRedirect pc[OF ok] red[OF emit]
      by (simp add: Let_def case_prod_beta split: option.split)
  next
    case (SpawnRequest sid rid h rp isRedirect cs)
    have "wire_ok (spawn (ReqWait k h rp) s)" for k h rp
      using ok by (simp add: wire_ok_def headers_ok_def spawn_def)
    then show ?thesis using SpawnRequest pc by simp
  next
    case (CheckProxyError p sid at found)
    then show ?thesis using pc[OF ok] pc[OF after] by (simp split: option.split)
  next
    case (EmitFinished sid rid at st info)
    then show ?thesis using pc[OF emit] by simp
  next
    case (PublishFailure p sid at found)
    then show ?thesis using pc[OF after] by (simp add: Let_def)
  next
    case (PublishNavigation f sid info cs)
    let ?t = "publishEventAt eh b OfNone (mc_clock s) ''page_navigation'' Page (cdp_source None) ''Page.frameNavigated''
        (NavigationData (navigation_payload f sid info)) sid s"
    have "wire_ok ?t"
    proof (rule wire_okI[OF ok])
      show "headers_step s ?t" if "headers_ok s" by (rule headers_step_idle[OF that]) (simp_all add: net_frame)
    qed (auto simp: net_frame publishEventAt_def Let_def)
    then show ?thesis using PublishNavigation pc by simp
  next
    case (ForgetSession sid)
    show ?thesis
      by (rule wire_quiet[OF ok headers_step_idle]) (use ForgetSession in auto)
  qed (rule wire_quiet[OF ok headers_step_idle]; simp add: net_frame)+
qed

lemma wire_receive:
  assumes ok: "wire_ok s" and ord: "ord_ok (ord_of s)"
  shows "wire_ok (receive m sid s)"
proof -
  note bound = pending_hop_bound[OF ord]
  have pc: "headers_step s t \<Longrightarrow> headers_step s (t\<lparr>mc_handler := c\<rparr>)" for t c
    by (simp add: headers_step_def headers_ok_def)
  have pend: "headers_step s t \<Longrightarrow> headers_step s (set_pending k st t)" for t k st
    by (simp add: headers_step_def headers_ok_def net_frame)
  show ?thesis
  proof (rule wire_quiet[OF ok])
    assume hok: "headers_ok s"
    have idle: "headers_step s s" by (rule headers_step_idle[OF hok]) simp_all
    show "headers_step s (receive m sid s)"
    proof (cases m)
      case (RequestWillBeSent p)
      have "headers_step s (resolveNetworkHeadersLocked (ns_hop (pending_of (sid, wb_RequestID p) s)) x s)" for x
        by (rule headers_step_resolve[OF hok]) (use bound in \<open>auto simp: pending_of_hop\<close>)
      then show ?thesis using RequestWillBeSent idle
        by (auto simp: handleNetworkRequest_def Let_def intro!: pc pend)
    next
      case (RequestExtraInfo p)
      then show ?thesis using headers_step_extra_info[OF hok] by simp
    next
      case (ResponseReceived p)
      have "headers_step s (resolveNetworkHeadersLocked (ns_hop st) x s)"
        if "map_of (mc_pending s) (sid, rr_RequestID p) = Some st" for st x
        by (rule headers_step_resolve[OF hok]) (use bound[OF that] in auto)
      then show ?thesis using ResponseReceived idle
        by (auto simp: handleResponseReceived_def Let_def intro!: pc pend split: option.split)
    next
      case (LoadingFinished rid)
      then show ?thesis using headers_step_idle[OF hok]
        by (auto simp: handleLoadingFinished_def Let_def split: option.split)
    next
      case (LoadingFailed p)
      have "headers_step s (resolveFailedHeadersLocked (ns_hop st) (s\<lparr>mc_pending := x\<rparr>))"
        if "map_of (mc_pending s) (sid, lf_RequestID p) = Some st" for st x
        using headers_step_failed[of "s\<lparr>mc_pending := x\<rparr>" "ns_hop st"] bound[OF that] hok
        by (auto simp: headers_step_def headers_ok_def)
      then show ?thesis using LoadingFailed idle
        by (auto simp: handleLoadingFailed_def Let_def intro!: pc split: option.split)
    next
      case (FrameNavigated f)
      then show ?thesis using headers_step_idle[OF hok] by (simp add: handleFrameNavigated_def Let_def)
    qed
  qed (cases m; simp add: handleNetworkRequest_def handleRequestExtraInfo_def handleResponseReceived_def
      handleLoadingFinished_def handleLoadingFailed_def handleFrameNavigated_def Let_def net_frame case_prod_beta
      split: option.split)+
qed

lemma wire_step:
  assumes ok: "wire_ok s" and ord: "ord_ok (ord_of s)" and step: "net_step eh b s s'"
  shows "wire_ok s'"
proof -
  note quiet = wire_quiet[OF ok headers_step_idle]
  show ?thesis
    using step
  proof cases
    case internal
    then show ?thesis
    proof cases
      case (handles code)
      then show ?thesis using wire_handler[OF ok ord] by simp
    next
      case (runs g gs reply timer t rest)
      then show ?thesis using wire_go[OF ok ord] by (simp add: go_gos_def)
    next
      case (sweeps st rest)
      then show ?thesis by (intro quiet) (auto simp: net_frame)
    qed
  next
    case (receives sid mthd params m)
    have "wire_ok (s\<lparr>mc_began := mc_clock s\<rparr>)" using ok by (simp add: wire_ok_def headers_ok_def)
    moreover have "ord_ok (ord_of (s\<lparr>mc_began := mc_clock s\<rparr>))" using ord by (simp add: ord_of_def)
    ultimately show ?thesis using receives wire_receive by simp
  next
    case (expires now)
    then show ?thesis by (intro quiet) (auto simp: net_frame takeExpiredNetworkRequests_def)
  next
    case (prepares sid info)
    show ?thesis
    proof (rule wire_okI[OF ok headers_step_idle])
    qed (auto simp: prepares(1) preparePageCapture_def publishEventAt_def Let_def split: if_splits)
  next
    case (detaches sid)
    then show ?thesis by (intro quiet) (auto simp: handleDetachedFromTarget_def)
  next
    case (clears all)
    then show ?thesis by (intro quiet) (auto simp: clear_tables_def)
  qed (intro quiet; simp add: net_frame attach_session_def target_info_changed_def)+
qed

lemma reachable_wire_ok: "net_reachable eh b s \<Longrightarrow> wire_ok s"
proof (induction rule: net_reachable_induct)
  case (start now)
  then show ?case by (simp add: wire_ok_def headers_ok_def new_netcap_def)
next
  case (step s s')
  then show ?case using wire_step reachable_ord_ok by blast
qed

section \<open>The property\<close>

text \<open>The hops of \<open>h\<close>'s exchange that were queued before \<open>h\<close> and took an ExtraInfo.\<close>

definition takers_before :: "netcap \<Rightarrow> nat \<Rightarrow> nat" where
  "takers_before s h = length (filter (\<lambda>h'. hp_took (mc_hopheap s ! h'))
     (takeWhile (\<lambda>h'. h' \<noteq> h) (ex_hops (mc_exheap s ! hp_exchange (mc_hopheap s ! h)))))"

text \<open>The ExtraInfo of that position among those the exchange accepted, when \<open>h\<close> took one.\<close>

definition wire_headers :: "netcap \<Rightarrow> nat \<Rightarrow> members option" where
  "wire_headers s h =
     (if hp_took (mc_hopheap s ! h)
      then headers_found (ex_received (mc_exheap s ! hp_exchange (mc_hopheap s ! h)) ! takers_before s h) else None)"

lemma split_at: "h \<in> set hs \<Longrightarrow> \<exists>rest. hs = takeWhile (\<lambda>h'. h' \<noteq> h) hs @ h # rest"
  by (induction hs) auto

lemma hop_wire_headers:
  assumes ok: "headers_ok s" and h: "h < length (mc_hopheap s)"
  shows "hop_wire (mc_hopheap s) h = wire_headers s h"
proof (cases "hp_took (mc_hopheap s ! h)")
  case True
  let ?x = "mc_exheap s ! hp_exchange (mc_hopheap s ! h)"
  let ?front = "takeWhile (\<lambda>h'. h' \<noteq> h) (ex_hops ?x)"
  have "h \<in> set (ex_hops ?x)" using headers_okD(3)[OF ok h] True by blast
  then obtain rest where hops: "ex_hops ?x = ?front @ h # rest" using split_at by metis
  have "chain_ok (mc_hopheap s) (hp_exchange (mc_hopheap s ! h)) ?x" by (rule headers_okD(1)[OF ok headers_okD(2)[OF ok h]])
  then have "ex_received ?x = taken (mc_hopheap s) (ex_hops ?x) @ ex_requests ?x" unfolding chain_ok_def by blast
  also have "taken (mc_hopheap s) (ex_hops ?x) =
      taken (mc_hopheap s) ?front @ hp_requestHeaders (mc_hopheap s ! h) # taken (mc_hopheap s) rest"
    by (subst hops, simp only: taken_simps(3)) (simp add: True)
  finally have "ex_received ?x ! length (taken (mc_hopheap s) ?front) = hp_requestHeaders (mc_hopheap s ! h)" by simp
  moreover have "length (taken (mc_hopheap s) ?front) = takers_before s h" by (simp add: taken_def takers_before_def)
  ultimately show ?thesis using True by (simp add: hop_wire_def wire_headers_def)
qed (simp add: hop_wire_def wire_headers_def)

subsection \<open>A run\<close>

text \<open>The run of \<open>NetworkOrder\<close>, in which the wire headers come before the publisher gives up on them.\<close>

definition sample_response :: responseReceived where
  "sample_response = \<lparr>rr_RequestID = ''1'', rr_LoaderID = [], rr_Type = [], rr_Response = zero_response,
     rr_HasExtraInfo = True, rr_FrameID = []\<rparr>"

definition sample_extra :: extraInfo where
  "sample_extra = \<lparr>xi_RequestID = ''1'', xi_Headers = Some (JObject [(''Host'', JString ''h'')])\<rparr>"

lemma decode_response:
  "decode_message ''Network.responseReceived''
     (Some (JObject [(''requestId'', JString ''1''), (''hasExtraInfo'', JBool True)])) = Some (ResponseReceived sample_response)"
  by code_simp

lemma decode_extra:
  "decode_message ''Network.requestWillBeSentExtraInfo''
     (Some (JObject [(''requestId'', JString ''1''), (''headers'', JObject [(''Host'', JString ''h'')])])) =
     Some (RequestExtraInfo sample_extra)"
  by code_simp

definition sample_receive :: "net_message \<Rightarrow> netcap \<Rightarrow> netcap" where
  "sample_receive m s = receive m [] (s\<lparr>mc_began := mc_clock s\<rparr>)"

definition sample_matched :: netcap where
  "sample_matched = sample_receive (RequestExtraInfo sample_extra)
     (sample_handle (sample_receive (ResponseReceived sample_response) sample_started))"

definition sample_sent :: netcap where
  "sample_sent = sample_run (ReqPublish ([], ''1'') 0
       ((hp_request (mc_hopheap sample_started ! 0))\<lparr>qd_Headers := Some [(''Host'', JString ''h'')]\<rparr>))
     (sample_run (ReqRead ([], ''1'') 0)
       (sample_run (ReqRedirect ([], ''1'') 0 None) (sample_run (ReqWait ([], ''1'') 0 None) sample_matched)))"

lemmas sample_eval = sample_handle_def sample_received_facts sample_received_def handleNetworkRequest_def Let_def net_frame
  new_netcap_def queueNetworkRequestLocked_def exchangeLocked_def upd_exchange_def spawn_def redirect_response_def
  session_info_def computedFor_def pending_of_def sample_request_def zero_willBeSent_def new_exchange_def
  set_pending_def maxNetworkExchanges_def

lemma started:
  "mc_hopheap sample_started = [\<lparr>hp_exchange = 0, hp_request = request_payload sample_request [] zero_targetInfo zero_reqState False 0,
     hp_source = cdp_source (Some (info_metadata no_host no_bundle zero_targetInfo)), hp_observedAt = 0, hp_known = False,
     hp_hasExtra = False, hp_requestHeaders = None, hp_requestReady = False, hp_requestMatched = False,
     hp_requestPublished = False, hp_took = False\<rparr>]"
  "mc_exheap sample_started = [\<lparr>ex_addedAt = 0, ex_hops = [0], ex_requests = [], ex_terminal = False,
     ex_publications = 1, ex_received = []\<rparr>]"
  "mc_exchanges sample_started = [(([], ''1''), 0)]"
  "map_of (mc_pending sample_started) ([], ''1'') \<noteq> None \<and> ns_hop (pending_of ([], ''1'') sample_started) = Some 0"
  "mc_handler sample_started = Idle" "mc_worker sample_started = Serving"
  by (simp_all add: sample_started_def sample_eval)

lemma receive_extra:
  assumes "mc_exchanges s = [(([], ''1''), 0)]" "mc_exheap s = mc_exheap sample_started" "mc_hopheap s = [h]"
    "hp_known h" "hp_hasExtra h" "\<not> hp_requestMatched h"
  shows "mc_hopheap (sample_receive (RequestExtraInfo sample_extra) s) = [h\<lparr>hp_requestHeaders := Some (JObject [(''Host'', JString ''h'')]),
      hp_requestReady := True, hp_requestMatched := True, hp_took := True\<rparr>]"
    "mc_exheap (sample_receive (RequestExtraInfo sample_extra) s) = [(mc_exheap sample_started ! 0)\<lparr>ex_received := [Some (JObject [(''Host'', JString ''h'')])]\<rparr>]"
    "mc_gos (sample_receive (RequestExtraInfo sample_extra) s) = mc_gos s" "mc_log (sample_receive (RequestExtraInfo sample_extra) s) = mc_log s"
  using assms by (simp_all add: sample_receive_def sample_extra_def handleRequestExtraInfo_def exchangeLocked_def Let_def net_frame
      started matchHeaders_def maxExtraInfoPerExchange_def upd_exchange_def)

lemma sample_receive_reachable:
  assumes "net_reachable no_host no_bundle s" "mc_handler s = Idle" "mc_worker s = Serving" "decode_message mthd params = Some m"
  shows "net_reachable no_host no_bundle (sample_receive m s)"
proof -
  have "net_step no_host no_bundle s (sample_receive m s)"
    unfolding sample_receive_def by (rule net_step.receives[OF assms(2,3) _ assms(4)]) simp
  then show ?thesis using assms(1) unfolding net_reachable_def by (meson rtranclp.rtrancl_into_rtrancl)
qed

lemma matched:
  "mc_hopheap sample_matched = [(mc_hopheap sample_started ! 0)\<lparr>hp_known := True, hp_hasExtra := True,
     hp_requestHeaders := Some (JObject [(''Host'', JString ''h'')]), hp_requestReady := True, hp_requestMatched := True, hp_took := True\<rparr>]"
  "mc_exheap sample_matched = [(mc_exheap sample_started ! 0)\<lparr>ex_received := [Some (JObject [(''Host'', JString ''h'')])]\<rparr>]"
  "mc_gos sample_matched = {#ReqWait ([], ''1'') 0 None#}" "mc_log sample_matched = []"
  "net_reachable no_host no_bundle sample_matched"
proof -
  let ?a = "sample_receive (ResponseReceived sample_response) sample_started"
  obtain st where st: "map_of (mc_pending sample_started) ([], ''1'') = Some st" "ns_hop st = Some 0"
    using started(4) by (auto simp: pending_of_def)
  have a: "mc_handler ?a = CheckProxyError sample_response [] (mc_clock sample_started) (Some (with_response zero_response st))"
    "mc_exchanges ?a = [(([], ''1''), 0)]" "mc_exheap ?a = mc_exheap sample_started"
    "mc_hopheap ?a = [(mc_hopheap sample_started ! 0)\<lparr>hp_known := True, hp_hasExtra := True\<rparr>]"
    "mc_gos ?a = {#ReqWait ([], ''1'') 0 None#}" "mc_log ?a = []" "mc_worker ?a = Serving"
    using st by (simp_all add: sample_receive_def handleResponseReceived_def Let_def sample_response_def net_frame
        started sample_started_facts resolveNetworkHeadersLocked_def matchHeaders_def upd_hop_def upd_exchange_def set_pending_def)
  let ?b = "sample_handle ?a"
  have b: "mc_handler ?b = Idle" "mc_exchanges ?b = [(([], ''1''), 0)]" "mc_exheap ?b = mc_exheap sample_started"
    "mc_hopheap ?b = [(mc_hopheap sample_started ! 0)\<lparr>hp_known := True, hp_hasExtra := True\<rparr>]"
    "mc_gos ?b = {#ReqWait ([], ''1'') 0 None#}" "mc_log ?b = []" "mc_worker ?b = Serving"
    using a by (simp_all add: sample_handle_def)
  show "mc_hopheap sample_matched = [(mc_hopheap sample_started ! 0)\<lparr>hp_known := True, hp_hasExtra := True,
     hp_requestHeaders := Some (JObject [(''Host'', JString ''h'')]), hp_requestReady := True, hp_requestMatched := True, hp_took := True\<rparr>]"
    "mc_exheap sample_matched = [(mc_exheap sample_started ! 0)\<lparr>ex_received := [Some (JObject [(''Host'', JString ''h'')])]\<rparr>]"
    "mc_gos sample_matched = {#ReqWait ([], ''1'') 0 None#}" "mc_log sample_matched = []"
    using b(5,6) receive_extra[OF b(2,3,4)] unfolding sample_matched_def by (simp_all add: started)
  have "net_reachable no_host no_bundle ?a"
    by (rule sample_receive_reachable[OF sample_started_facts(1) started(5,6) decode_response])
  then have "net_reachable no_host no_bundle ?b"
    by (rule sample_handle_reachable) (unfold a(1), simp_all add: code_choice_def response_codes_def sample_response_def zero_response_def)
  then show "net_reachable no_host no_bundle sample_matched"
    unfolding sample_matched_def by (rule sample_receive_reachable[OF _ b(1,7) decode_extra])
qed

lemma run_publish:
  "mc_hopheap (sample_run (ReqPublish k h d) s) = mc_hopheap s" "mc_exheap (sample_run (ReqPublish k h d) s) = mc_exheap s"
  "\<exists>ev. (OfRequest h, ev) \<in> set (mc_log (sample_run (ReqPublish k h d) s))"
  by (simp_all add: sample_run_def Let_def net_frame) (auto simp: publishEventAt_def Let_def)

lemma sent:
  "net_reachable no_host no_bundle sample_sent" "wire_headers sample_sent 0 = Some [(''Host'', JString ''h'')]"
  "\<exists>ev. (OfRequest 0, ev) \<in> set (mc_log sample_sent)"
proof -
  let ?k = "([], ''1'')"
  let ?d = "(hp_request (mc_hopheap sample_started ! 0))\<lparr>qd_Headers := Some [(''Host'', JString ''h'')]\<rparr>"
  let ?a = "sample_run (ReqWait ?k 0 None) sample_matched"
  let ?b = "sample_run (ReqRedirect ?k 0 None) ?a"
  let ?c = "sample_run (ReqRead ?k 0) ?b"
  have a: "mc_gos ?a = {#ReqRedirect ?k 0 None#}" "net_reachable no_host no_bundle ?a"
    "mc_hopheap ?a = mc_hopheap sample_matched" "mc_exheap ?a = mc_exheap sample_matched"
    using matched(3) sample_run_reachable[OF matched(5,3)]
    by (simp_all add: sample_run_def[of "ReqWait ?k 0 None"] go_gos_def)
  have b: "mc_gos ?b = {#ReqRead ?k 0#}" "net_reachable no_host no_bundle ?b"
    "mc_hopheap ?b = mc_hopheap sample_matched" "mc_exheap ?b = mc_exheap sample_matched"
    using a sample_run_reachable[OF a(2,1)] by (simp_all add: sample_run_def[of "ReqRedirect ?k 0 None"] go_gos_def)
  have found: "headers_found (Some (JObject [(''Host'', JString ''h'')])) = Some [(''Host'', JString ''h'')]" by code_simp
  have c: "mc_gos ?c = {#ReqPublish ?k 0 ?d#}" "net_reachable no_host no_bundle ?c"
    "mc_hopheap ?c = mc_hopheap sample_matched" "mc_exheap ?c = mc_exheap sample_matched"
    using b sample_run_reachable[OF b(2,1)] found
    by (simp_all add: sample_run_def[of "ReqRead ?k 0"] go_gos_def Let_def matched(1))
  show "net_reachable no_host no_bundle sample_sent"
    unfolding sample_sent_def by (rule sample_run_reachable[OF c(2,1)])
  show "wire_headers sample_sent 0 = Some [(''Host'', JString ''h'')]"
    unfolding sample_sent_def wire_headers_def takers_before_def run_publish c matched(1,2) started by (simp add: found)
  show "\<exists>ev. (OfRequest 0, ev) \<in> set (mc_log sample_sent)"
    unfolding sample_sent_def by (rule run_publish)
qed

subsection \<open>Each hop its own headers\<close>

text \<open>
  C38. In every interleaving of requests, redirects, ExtraInfo messages, responses and publishers, each
  redirect hop is given its own wire headers: the ExtraInfo messages of an exchange go to the hops
  that expect one in the order the hops were queued, none is skipped or used twice. A published
  request is the base event, with its headers replaced by the hop's own wire headers or by none, and
  a published response carries the wire headers of its own hop or none.
\<close>

theorem wire_headers_own:
  assumes "net_reachable eh b s"
  shows "(\<forall>ev. (OfRequest h, ev) \<in> set (mc_log s) \<longrightarrow>
      (\<exists>d. nv_Data ev = RequestData d \<and>
        (d = hp_request (mc_hopheap s ! h) \<or>
         (\<exists>m. wire_headers s h = Some m \<and> d = (hp_request (mc_hopheap s ! h))\<lparr>qd_Headers := Some m\<rparr>)))) \<and>
    (\<forall>ev. (OfResponse h, ev) \<in> set (mc_log s) \<longrightarrow>
      (\<exists>d. nv_Data ev = ResponseData d \<and> (sd_RequestHeaders d = None \<or> sd_RequestHeaders d = wire_headers s h)))"
proof -
  have ok: "wire_ok s" using reachable_wire_ok[OF assms] .
  then have "entry_fine (mc_hopheap s) x" if "x \<in> set (mc_log s)" for x using that by (simp add: wire_ok_def)
  then show ?thesis
    using ok hop_wire_headers[of s h] unfolding wire_ok_def
    by (fastforce simp: request_fine_def response_fine_def)
qed

theorem wire_headers_own_witness:
  "net_reachable no_host no_bundle sample_sent \<and> wire_headers sample_sent 0 = Some [(''Host'', JString ''h'')] \<and>
   (\<exists>ev d. (OfRequest 0, ev) \<in> set (mc_log sample_sent) \<and> nv_Data ev = RequestData d \<and>
      (d = hp_request (mc_hopheap sample_sent ! 0) \<or>
       d = (hp_request (mc_hopheap sample_sent ! 0))\<lparr>qd_Headers := Some [(''Host'', JString ''h'')]\<rparr>))"
  using wire_headers_own[OF sent(1), of 0] sent by auto

end
