(* ===== verification/Spec2Isabelle.thy ===== *)
theory Spec2Isabelle
  imports ChromiumFlags Policy TelemetryApi ScaleToZero Idempotency Egress CdpObserver
    ComputedState ResponseDrain ZipUtil NetworkCounters NetworkHeaders
begin

text \<open>
  A model of the server of kernel-images: the Go program that runs beside Chromium inside a
  browser virtual machine. Paths are relative to \<open>src/server/\<close>.

  \<^bold>\<open>The program.\<close> An HTTP API (\<open>cmd/api/api\<close>) configures the browser and the machine. A DevTools
  proxy (\<open>lib/devtoolsproxy\<close>) stands between clients and Chromium. Producers (a CDP monitor, the
  API middleware, the proxies, the platform monitors) publish events through one telemetry session
  (\<open>lib/telemetry\<close>) into one ring buffer (\<open>lib/events\<close>), from which HTTP streams and storage
  writers read, each at its own pace. A controller keeps the machine from scaling to zero while
  work is under way (\<open>lib/scaletozero\<close>). Launch-time logic merges Chromium flags
  (\<open>lib/chromiumflags\<close>) and enterprise policies (\<open>lib/policy\<close>).

  \<^bold>\<open>Theories.\<close>

  \<^item> \<open>Prelude\<close>, \<open>GoStrings\<close>, \<open>GoMaps\<close>, \<open>GoJson\<close>: generic facts, and the parts of Go's \<open>strings\<close>,
    \<open>unicode/utf8\<close>, ordered map and \<open>encoding/json\<close> behaviour that the source uses. Strings are
    byte strings. JSON is modelled at the level of decoded values with ordered members, so duplicate
    names and the case-insensitive match of struct fields are there; the lexing of JSON text is not.

  \<^item> \<open>ChromiumFlags\<close> (\<open>lib/chromiumflags/chromiumflags.go\<close>): parsing, writing and reading of flag
    files and the merge of base and runtime flags; shown: what the merge keeps, its order,
    idempotence, and the round trip of a token list through its file.

  \<^item> \<open>PolicyRegistry\<close>, \<open>Policy\<close> (\<open>lib/policy\<close>): the table of policies with their value types, the
    enterprise policy file as a struct with unknown members kept aside, its decode and encode, the
    extension operations, and overrides with validation and protection; shown: the round trip of
    the file, the protection of the required settings, and what an override may change.

  \<^item> \<open>Events\<close> (\<open>lib/events\<close>): envelopes, truncation, the ring buffer with 64-bit sequence numbers,
    its readers, the stream, captured strings and the storage writer. \<open>rb\<close> is refined to the list of
    everything published: a reader gets each event once and in order, or a count of those it lost.

  \<^item> \<open>Telemetry\<close> (\<open>lib/telemetry/telemetry.go\<close>): the session. The locale \<open>event_bus\<close> is what it
    needs of the stream; the interpretation \<open>stream\<close> gives the ring buffer's model.

  \<^item> \<open>CaptureControl\<close> (\<open>lib/cdpmonitor/telemetry.go\<close>): desired and applied capture revisions as
    interleaved steps of requests (their commit and their signal), one worker and the connections.

  \<^item> \<open>TelemetryConfigApi\<close>, \<open>TelemetryApi\<close> (\<open>cmd/api/api/telemetry.go\<close>): the documents of the
    telemetry endpoints and the endpoints over session, stream, capture switch, middleware and the
    two sinks. The locale \<open>telemetry_api\<close> extends \<open>event_bus\<close> with the laws of the capture switch;
    the interpretation \<open>service\<close> puts the ring buffer and the monitor of \<open>CaptureControl\<close> in place.
    A handler that releases its lock between commit and settlement is two steps, with
    publications, reconciliations and shutdown between them.

  \<^item> \<open>ScaleToZero\<close> (\<open>lib/scaletozero\<close>): the control file, the pins, the debounced and the once-only
    controllers, and the request holds of the middleware with their release as a step of its own; the
    locale \<open>controller\<close> is the interface they share. A write that fails leaves the file truncated.

  \<^item> \<open>ResponseDrain\<close> (\<open>connection.go\<close>, \<open>middleware.go\<close> there): tracked connections and the goroutines that
    settle the holds of their responses, composed with the counting controller; also the chunked
    \<open>Write\<close> and \<open>ReadFrom\<close> of a connection.

  \<^item> \<open>Idempotency\<close> (\<open>cmd/api/api/idempotency.go\<close>): calls that run at most once per key; each critical
    section is a step, timers, finished workers and waiting callers are tokens.

  \<^item> \<open>Egress\<close> (\<open>lib/egresspolicy\<close>, \<open>lib/statefile\<close>, \<open>lib/devtoolsproxy/egressgate.go\<close>): the allowlist
    flag with crashes at every point of a write, and the gate on DevTools commands.

  \<^item> \<open>CdpCommand\<close>, \<open>CdpInput\<close>, \<open>CdpPage\<close>, \<open>CdpTarget\<close>, \<open>CdpParams\<close>
    (\<open>lib/devtoolsproxy/cdpcommand.go\<close>, \<open>lib/devtoolsproxy/cdpparams.go\<close>, the payload types of
    \<open>lib/oapi\<close>): the events that report what a client does with the browser. One struct, one
    sanitizer and one schema per method; shown for all methods at once: payloads fit their schema,
    are small, and depend on nothing of a frame that is to stay in the machine.

  \<^item> \<open>CdpObserver\<close> (\<open>lib/devtoolsproxy/cdpobserver.go\<close>): the bounded queue between the pump of a
    connection and the worker that publishes these events, as interleaved steps.

  \<^item> \<open>ComputedState\<close> (\<open>lib/cdpmonitor/computed.go\<close>): the page events derived from CDP messages and
    debounce timers, as interleaved steps of handlers, timer functions and publications.

  \<^item> \<open>NetworkMessages\<close>, \<open>NetworkCapture\<close>, \<open>NetworkFrame\<close>, \<open>NetworkOrder\<close>, \<open>NetworkHeaders\<close>
    (\<open>lib/cdpmonitor/network_capture.go\<close>, the network handlers of \<open>handlers.go\<close>, the sweeper and the
    connection changes of \<open>monitor.go\<close>): the network events. A message is handled in critical
    sections; each hop of a redirect chain has goroutines that publish its request and its response.
    Shown: the order of the events of a hop and of a chain, that publishers cannot block each other,
    and that each hop is published with its own wire headers. \<open>NetworkFrame\<close> says what each operation
    leaves alone.

  \<^item> \<open>NetworkCounters\<close> (\<open>lib/cdpmonitor/network_metrics.go\<close>): the ring of request identities that lets each
    finished request be counted once, refined to a bounded queue.

  \<^item> \<open>GoFiles\<close>, \<open>ZipUtil\<close> (\<open>lib/ziputil\<close>): a tree of directories, files and symbolic links with the
    kernel's and Go's ways to resolve paths in it, and the extraction of archives over it; shown: for
    which names extraction cannot leave the destination, and how another name does.

  \<^bold>\<open>Conventions.\<close> A struct is a record with a field per source field; a nil map, slice or pointer
  is \<open>None\<close> where the code distinguishes it. A mutex makes the section it guards one step; the mutex
  is not part of the record. \<open>uint64\<close> is \<open>64 word\<close>; bounds on the number of published events
  are hypotheses where wrap-around would matter. Errors are \<open>None\<close>, \<open>Inl\<close> or a flag, as the
  definition's comment says. What a call to the operating system or to a library outside the
  repository does is a parameter or a part of the state (a list of outcomes), never assumed to
  succeed unless the lemma says so. All recursion terminates, no fuel is used: loops that wait are
  step relations, and loops over data are structural.

  \<^bold>\<open>Not modelled.\<close> \<open>lib/oapi\<close> apart from the telemetry types and the payloads of events is generated code.
  Packages that are input and output around a process, a socket or a file (\<open>lib/ptyio\<close>, \<open>lib/logger\<close>,
  \<open>lib/x11\<close>, \<open>lib/nekoclient\<close>, \<open>lib/recorder\<close>, \<open>lib/metrics\<close>, \<open>lib/sysmon\<close>, \<open>lib/cdpclient\<close>, the WebSocket
  proxies, the storage backends, \<open>cmd/wrapper\<close>, \<open>cmd/shell\<close>, \<open>cmd/supervisord-shim\<close>, \<open>cmd/api/main.go\<close>, and
  the display, computer, file system, process, terminal and Playwright endpoints of \<open>cmd/api/api\<close>) keep no
  state of their own worth a theorem: what they do is what the process behind them does. The CDP clients
  \<open>lib/livefocus\<close>, \<open>lib/browsersurface\<close>, \<open>lib/webmcpclient\<close> and \<open>lib/webauthnhook\<close> are not modelled yet.
  Text of log lines and error messages is left out everywhere.
\<close>

end
